(* ===== verification/Prelude.thy ===== *)
theory Prelude
  imports Main "HOL-Library.AList"
begin

text \<open>
  Shared ground of the development: the exceptions the Python code raises, results as sums,
  insertion-ordered dictionaries, Python's \<open>max\<close>/\<open>min\<close> with a key, truthiness of optional
  strings, and the \<open>named_theorems\<close> collections that carry the component proofs.

  An exception is modelled by its class; the message text is not kept, since no handler of the
  program branches on it. \<open>OutsideModel\<close> is no exception of the program: it stands for a run
  that goes on with a value the model's types cannot hold (a registry file whose fields have
  other types than the code annotates). A dictionary is an association list in insertion order:
  \<open>AList.update\<close> keeps the position of a key that is present and appends a new one, as
  assignment to a Python dict does, and \<open>AList.delete\<close> is \<open>del d[k]\<close>.
\<close>

named_theorems dict_simps
named_theorems range_simps
named_theorems wf_intros

section \<open>Exceptions and results\<close>

datatype py_error =
    ValueError
  | RuntimeError
  | KeyError
  | IndexError
  | TypeError
  | AssertionError
  | ZeroDivisionError
  | NameError
  | AttributeError
  | GenericException
  | AllocationFailed
  | TimeoutError
  | HTTPError
  | MissingBlocksError
  | MissingBlocksServiceError
  | HttpInferenceError
  | EnsClientError bool
  | HTTPException int
  | OutsideModel

type_synonym 'a result = "py_error + 'a"

fun rbind :: "'a result \<Rightarrow> ('a \<Rightarrow> 'b result) \<Rightarrow> 'b result" where
  "rbind (Inl e) f = Inl e"
| "rbind (Inr x) f = f x"

lemma rbind_Inr_iff: "rbind m f = Inr y \<longleftrightarrow> (\<exists>x. m = Inr x \<and> f x = Inr y)"
  by (cases m) auto

lemma rbind_Inl_iff: "rbind m f = Inl e \<longleftrightarrow> m = Inl e \<or> (\<exists>x. m = Inr x \<and> f x = Inl e)"
  by (cases m) auto

text \<open>A loop that stops at the first exception, as an uncaught raise inside a comprehension does.\<close>

fun rmap :: "('a \<Rightarrow> 'b result) \<Rightarrow> 'a list \<Rightarrow> 'b list result" where
  "rmap f [] = Inr []"
| "rmap f (x # xs) = rbind (f x) (\<lambda>y. rbind (rmap f xs) (\<lambda>ys. Inr (y # ys)))"

lemma rmap_Inr_iff:
  "rmap f xs = Inr ys \<longleftrightarrow> list_all2 (\<lambda>x y. f x = Inr y) xs ys"
  by (induction xs arbitrary: ys) (auto simp: rbind_Inr_iff list_all2_Cons1)

lemma rmap_total: "(\<And>x. x \<in> set xs \<Longrightarrow> f x = Inr (g x)) \<Longrightarrow> rmap f xs = Inr (map g xs)"
  by (induction xs) auto

section \<open>Dictionaries in insertion order\<close>

type_synonym ('k, 'v) pydict = "('k \<times> 'v) list"

abbreviation dget :: "('k, 'v) pydict \<Rightarrow> 'k \<Rightarrow> 'v option" where
  "dget d k \<equiv> map_of d k"

abbreviation dset :: "'k \<Rightarrow> 'v \<Rightarrow> ('k, 'v) pydict \<Rightarrow> ('k, 'v) pydict" where
  "dset k v d \<equiv> AList.update k v d"

abbreviation ddel :: "'k \<Rightarrow> ('k, 'v) pydict \<Rightarrow> ('k, 'v) pydict" where
  "ddel k d \<equiv> AList.delete k d"

abbreviation dvalues :: "('k, 'v) pydict \<Rightarrow> 'v list" where
  "dvalues d \<equiv> map snd d"

definition dict_ok :: "('k, 'v) pydict \<Rightarrow> bool" where
  "dict_ok d \<longleftrightarrow> distinct (map fst d)"

lemma dict_ok_empty [simp]: "dict_ok []"
  by (simp add: dict_ok_def)

lemma dict_ok_dset [wf_intros, simp]: "dict_ok d \<Longrightarrow> dict_ok (dset k v d)"
  by (simp add: dict_ok_def distinct_update)

lemma dict_ok_ddel [wf_intros, simp]: "dict_ok d \<Longrightarrow> dict_ok (ddel k d)"
  by (simp add: dict_ok_def distinct_delete)

lemma dget_dset [dict_simps]: "dget (dset k v d) = (dget d)(k \<mapsto> v)"
  by (rule update_conv')

lemma dget_ddel [dict_simps]: "dget (ddel k d) = (dget d)(k := None)"
  by (rule delete_conv')

lemma dvalues_iff: "dict_ok d \<Longrightarrow> v \<in> set (dvalues d) \<longleftrightarrow> (\<exists>k. dget d k = Some v)"
  unfolding dict_ok_def by (force simp: map_of_eq_Some_iff)

lemma dset_new: "dget d k = None \<Longrightarrow> dset k v d = d @ [(k, v)]"
  by (induction d) (auto split: if_splits)

lemma ddel_absent: "dget d k = None \<Longrightarrow> ddel k d = d"
  by (simp add: map_of_eq_None_iff delete_idem)

text \<open>A dictionary with a present key, split around it: updating and deleting act in place.\<close>

lemma dict_split:
  assumes "dict_ok d" and "dget d k = Some v"
  obtains xs ys where "d = xs @ (k, v) # ys" and "dget xs k = None" and "dget ys k = None"
proof -
  have "(k, v) \<in> set d" using assms(2) by (rule map_of_SomeD)
  then obtain xs ys where d: "d = xs @ (k, v) # ys" by (auto dest: split_list)
  moreover have "dget xs k = None" "dget ys k = None"
    using assms(1) by (auto simp: d dict_ok_def map_of_eq_None_iff)
  ultimately show thesis by (rule that)
qed

lemma dset_split [dict_simps]:
  "dget xs k = None \<Longrightarrow> dset k w (xs @ (k, v) # ys) = xs @ (k, w) # ys"
  by (induction xs) (auto split: if_splits)

lemma ddel_split [dict_simps]:
  "dget xs k = None \<Longrightarrow> dget ys k = None \<Longrightarrow> ddel k (xs @ (k, v) # ys) = xs @ ys"
  by (induction xs) (auto split: if_splits simp: ddel_absent)

lemma ddel_dset_same [dict_simps]: "ddel k (dset k v d) = ddel k d"
  by (induction d) auto

lemma ddel_dset_other [dict_simps]: "k \<noteq> k' \<Longrightarrow> ddel k' (dset k v d) = dset k v (ddel k' d)"
  by (induction d) auto

section \<open>Python's max and min with a key\<close>

text \<open>Both keep the first of several extremal elements.\<close>

fun py_max_by :: "('a \<Rightarrow> 'b::linorder) \<Rightarrow> 'a list \<Rightarrow> 'a option" where
  "py_max_by f [] = None"
| "py_max_by f (x # xs) =
     (case py_max_by f xs of
        None \<Rightarrow> Some x
      | Some y \<Rightarrow> if f x < f y then Some y else Some x)"

lemma py_max_by_None [simp]: "py_max_by f xs = None \<longleftrightarrow> xs = []"
  by (cases xs) (auto split: option.splits)

lemma py_max_by_in: "py_max_by f xs = Some x \<Longrightarrow> x \<in> set xs"
  by (induction xs arbitrary: x) (auto split: option.splits if_splits)

lemma py_max_by_ge: "py_max_by f xs = Some x \<Longrightarrow> y \<in> set xs \<Longrightarrow> f y \<le> f x"
proof (induction xs arbitrary: x y)
  case Nil
  then show ?case by simp
next
  case (Cons a xs)
  show ?case
  proof (cases "py_max_by f xs")
    case None
    with Cons.prems show ?thesis by simp
  next
    case (Some m)
    with Cons.IH have "\<forall>z \<in> set xs. f z \<le> f m" by blast
    with Some Cons.prems show ?thesis by (auto split: if_splits)
  qed
qed

section \<open>Truthiness of optional strings\<close>

text \<open>\<open>if s\<close> is false for \<open>None\<close> and for the empty string; \<open>s or t\<close> falls back on it.\<close>

fun truthy_str :: "string option \<Rightarrow> bool" where
  "truthy_str None = False"
| "truthy_str (Some s) = (s \<noteq> [])"

fun str_or :: "string option \<Rightarrow> string \<Rightarrow> string" where
  "str_or None t = t"
| "str_or (Some s) t = (if s = [] then t else s)"

lemma truthy_str_iff: "truthy_str x \<longleftrightarrow> (\<exists>s. x = Some s \<and> s \<noteq> [])"
  by (cases x) auto

section \<open>Sums over lists\<close>

lemma sum_list_map_nonneg: "(\<And>x. x \<in> set xs \<Longrightarrow> 0 \<le> f x) \<Longrightarrow> 0 \<le> sum_list (map f xs)"
  for f :: "'a \<Rightarrow> int"
  by (induction xs) auto

lemma sum_list_filter_le:
  fixes f :: "'a \<Rightarrow> int"
  assumes "\<And>x. x \<in> set xs \<Longrightarrow> 0 \<le> f x"
  shows "sum_list (map f (filter P xs)) \<le> sum_list (map f xs)"
  using assms by (induction xs) (auto intro: add_increasing add_left_mono)

section \<open>Sorting\<close>

lemma insort_key_map: "insort_key f (g x) (map g xs) = map g (insort_key (\<lambda>x. f (g x)) x xs)"
  by (induction xs) auto

lemma sort_key_map: "sort_key f (map g xs) = map g (sort_key (\<lambda>x. f (g x)) xs)"
  by (induction xs) (auto simp: insort_key_map)

end
