(* ===== verification/PyString.thy ===== *)
theory PyString
  imports Prelude
begin

text \<open>
  Python's \<open>str\<close> methods used by the program, on \<open>string\<close> (a list of one-byte characters). The
  model covers ASCII text: \<open>lower\<close>, \<open>strip\<close>, \<open>isdigit\<close> and \<open>int\<close> act on the ASCII letters,
  white space and digits, and every other character is left alone.
\<close>

section \<open>Prefixes, substrings, splitting, stripping\<close>

definition startswith :: "string \<Rightarrow> string \<Rightarrow> bool" where
  "startswith s p \<longleftrightarrow> take (length p) s = p"

definition endswith :: "string \<Rightarrow> string \<Rightarrow> bool" where
  "endswith s p \<longleftrightarrow> startswith (rev s) (rev p)"

fun contains_str :: "string \<Rightarrow> string \<Rightarrow> bool" where
  "contains_str p [] = (p = [])"
| "contains_str p (c # s) = (startswith (c # s) p \<or> contains_str p s)"

fun py_split :: "char \<Rightarrow> string \<Rightarrow> string list" where
  "py_split c [] = [[]]"
| "py_split c (x # xs) =
     (if x = c then [] # py_split c xs
      else (case py_split c xs of [] \<Rightarrow> [[x]] | p # ps \<Rightarrow> (x # p) # ps))"

definition py_space :: "char \<Rightarrow> bool" where
  "py_space c \<longleftrightarrow> c = CHR '' '' \<or> (9 \<le> (of_char c :: nat) \<and> of_char c \<le> (13 :: nat))
     \<or> (28 \<le> (of_char c :: nat) \<and> of_char c \<le> (31 :: nat))"

definition py_rstrip_by :: "(char \<Rightarrow> bool) \<Rightarrow> string \<Rightarrow> string" where
  "py_rstrip_by P s = rev (dropWhile P (rev s))"

definition py_strip :: "string \<Rightarrow> string" where
  "py_strip s = py_rstrip_by py_space (dropWhile py_space s)"

abbreviation rstrip_slash :: "string \<Rightarrow> string" where
  "rstrip_slash s \<equiv> py_rstrip_by (\<lambda>c. c = CHR ''/'') s"

definition lower_char :: "char \<Rightarrow> char" where
  "lower_char c = (if 65 \<le> (of_char c :: nat) \<and> of_char c \<le> (90 :: nat)
                   then char_of (of_char c + 32 :: nat) else c)"

definition py_lower :: "string \<Rightarrow> string" where
  "py_lower s = map lower_char s"

lemma py_split_not_Nil [simp]: "py_split c s \<noteq> []"
  by (cases s) (auto split: list.splits)

lemma py_split_absent: "c \<notin> set s \<Longrightarrow> py_split c s = [s]"
  by (induction s) auto

lemma py_split_append: "c \<notin> set s \<Longrightarrow> py_split c (s @ c # t) = s # py_split c t"
  by (induction s) auto

lemma py_split_no_sep: "p \<in> set (py_split c s) \<Longrightarrow> c \<notin> set p"
  by (induction c s arbitrary: p rule: py_split.induct) (auto split: if_splits list.splits)

lemma py_rstrip_by_last: "py_rstrip_by P s = [] \<or> \<not> P (last (py_rstrip_by P s))"
proof (cases "dropWhile P (rev s)")
  case Nil
  then show ?thesis by (simp add: py_rstrip_by_def)
next
  case (Cons a as)
  then have "\<not> P a" by (metis hd_dropWhile list.distinct(1) list.sel(1))
  with Cons show ?thesis by (simp add: py_rstrip_by_def)
qed

lemma py_rstrip_by_id: "s = [] \<or> \<not> P (last s) \<Longrightarrow> py_rstrip_by P s = s"
  by (cases s rule: rev_cases) (auto simp: py_rstrip_by_def)

lemma py_rstrip_by_idem [simp]: "py_rstrip_by P (py_rstrip_by P s) = py_rstrip_by P s"
  by (rule py_rstrip_by_id) (rule py_rstrip_by_last)

lemma dropWhile_none: "(\<forall>c \<in> set s. \<not> P c) \<Longrightarrow> dropWhile P s = s"
  by (cases s) auto

lemma py_strip_none: "(\<forall>c \<in> set s. \<not> py_space c) \<Longrightarrow> py_strip s = s"
  by (simp add: py_strip_def dropWhile_none py_rstrip_by_def)

section \<open>Decimal integers\<close>

definition is_digit :: "char \<Rightarrow> bool" where
  "is_digit c \<longleftrightarrow> 48 \<le> (of_char c :: nat) \<and> of_char c \<le> (57 :: nat)"

definition digit_val :: "char \<Rightarrow> nat" where
  "digit_val c = of_char c - 48"

definition digit_char :: "nat \<Rightarrow> char" where
  "digit_char d = char_of (48 + d)"

definition py_isdigit :: "string \<Rightarrow> bool" where
  "py_isdigit s \<longleftrightarrow> s \<noteq> [] \<and> list_all is_digit s"

text \<open>
  \<open>int(s)\<close>: surrounding white space, one optional sign, then digits, where a single
  underscore may stand between two digits.
\<close>

fun digits_value :: "nat \<Rightarrow> string \<Rightarrow> nat option" where
  "digits_value acc [] = Some acc"
| "digits_value acc (c # cs) =
     (if is_digit c then digits_value (10 * acc + digit_val c) cs
      else if c = CHR ''_''
        then (case cs of [] \<Rightarrow> None
              | d # ds \<Rightarrow> if is_digit d then digits_value acc (d # ds) else None)
        else None)"

fun unsigned_value :: "string \<Rightarrow> nat option" where
  "unsigned_value [] = None"
| "unsigned_value (c # cs) = (if is_digit c then digits_value 0 (c # cs) else None)"

definition py_int :: "string \<Rightarrow> int result" where
  "py_int s =
     (let t = py_strip s;
          r = (case t of
                 [] \<Rightarrow> None
               | c # cs \<Rightarrow>
                   if c = CHR ''-'' then map_option (\<lambda>n. - int n) (unsigned_value cs)
                   else if c = CHR ''+'' then map_option int (unsigned_value cs)
                   else map_option int (unsigned_value t))
      in case r of None \<Rightarrow> Inl ValueError | Some i \<Rightarrow> Inr i)"

fun nat_str :: "nat \<Rightarrow> string" where
  "nat_str n = (if n < 10 then [digit_char n] else nat_str (n div 10) @ [digit_char (n mod 10)])"

declare nat_str.simps [simp del]

definition int_str :: "int \<Rightarrow> string" where
  "int_str i = (if i < 0 then CHR ''-'' # nat_str (nat (- i)) else nat_str (nat i))"

lemma of_char_digit_char: "d < 10 \<Longrightarrow> of_char (digit_char d) = 48 + d"
  by (simp add: digit_char_def)

lemma is_digit_digit_char [simp]: "d < 10 \<Longrightarrow> is_digit (digit_char d)"
  by (simp add: is_digit_def of_char_digit_char)

lemma digit_val_digit_char [simp]: "d < 10 \<Longrightarrow> digit_val (digit_char d) = d"
  by (simp add: digit_val_def of_char_digit_char)

lemma is_digit_not_space: "is_digit c \<Longrightarrow> \<not> py_space c"
  by (auto simp: is_digit_def py_space_def)

lemma is_digit_distinct:
  "is_digit c \<Longrightarrow> c \<noteq> CHR ''-'' \<and> c \<noteq> CHR ''+'' \<and> c \<noteq> CHR '':'' \<and> c \<noteq> CHR ''_'' \<and> c \<noteq> CHR ''.''"
  by (auto simp: is_digit_def)

lemma nat_str_digits: "\<forall>c \<in> set (nat_str n). is_digit c"
proof (induction n rule: nat_str.induct)
  case (1 n)
  then show ?case by (subst nat_str.simps) auto
qed

lemma nat_str_not_Nil [simp]: "nat_str n \<noteq> []"
  by (subst nat_str.simps) simp

lemma digits_value_append:
  "digits_value acc s = Some m \<Longrightarrow> is_digit c \<Longrightarrow>
   digits_value acc (s @ [c]) = Some (10 * m + digit_val c)"
  by (induction acc s rule: digits_value.induct) (auto split: if_splits list.splits)

lemma digits_value_nat_str: "digits_value 0 (nat_str n) = Some n"
proof (induction n rule: nat_str.induct)
  case (1 n)
  show ?case
  proof (cases "n < 10")
    case True
    then show ?thesis by (subst nat_str.simps) simp
  next
    case False
    with 1 have "digits_value 0 (nat_str (n div 10)) = Some (n div 10)" by simp
    then have "digits_value 0 (nat_str (n div 10) @ [digit_char (n mod 10)])
        = Some (10 * (n div 10) + n mod 10)"
      by (subst digits_value_append) auto
    with False show ?thesis by (subst nat_str.simps) simp
  qed
qed

lemma unsigned_value_nat_str: "unsigned_value (nat_str n) = Some n"
  using digits_value_nat_str [of n] nat_str_digits [of n]
  by (cases "nat_str n") auto

lemma py_strip_nat_str [simp]: "py_strip (nat_str n) = nat_str n"
  using nat_str_digits is_digit_not_space by (blast intro: py_strip_none)

lemma py_int_nat_str [simp]: "py_int (nat_str n) = Inr (int n)"
proof -
  obtain c cs where c: "nat_str n = c # cs" by (cases "nat_str n") auto
  with nat_str_digits [of n] have d: "c \<noteq> CHR ''-''" "c \<noteq> CHR ''+''"
    by (auto dest: is_digit_distinct)
  have "unsigned_value (c # cs) = Some n" using unsigned_value_nat_str [of n] by (simp only: c)
  moreover have "py_strip (c # cs) = c # cs" using py_strip_nat_str [of n] by (simp only: c)
  ultimately show ?thesis
    by (simp only: py_int_def c Let_def list.case d if_False option.map option.case)
qed

lemma py_int_int_str [simp]: "py_int (int_str i) = Inr i"
proof (cases "i < 0")
  case True
  have "\<forall>c \<in> set (CHR ''-'' # nat_str (nat (- i))). \<not> py_space c"
    using nat_str_digits is_digit_not_space by (auto simp: py_space_def)
  then have "py_strip (int_str i) = int_str i" using True by (simp add: int_str_def py_strip_none)
  with True show ?thesis
    by (simp add: py_int_def int_str_def unsigned_value_nat_str)
next
  case False
  then show ?thesis by (simp add: int_str_def)
qed

lemma int_str_inj: "int_str i = int_str j \<longleftrightarrow> i = j"
  by (metis py_int_int_str sum.inject(2))

lemma int_str_not_Nil [simp]: "int_str i \<noteq> []"
  by (simp add: int_str_def)

lemma int_str_no_colon: "CHR '':'' \<notin> set (int_str i)"
  using nat_str_digits is_digit_distinct by (auto simp: int_str_def)

end
