(* ===== verification/Discovery.thy ===== *)
theory Discovery
  imports PyString "HOL-Library.Multiset" "HOL-Library.List_Lexorder" "HOL-Library.Char_ord"
begin

text \<open>
  discovery\_service/app.py: the registry of mothers keyed by model name. The SQLite table is a
  dictionary from the primary key to the row; a handler takes the admin token of the process, the
  request's \<open>Authorization\<close> header where the route requires it, and the clock, and returns its
  response or HTTP error with the new table. FastAPI resolves the admin dependency before it
  validates the body.
\<close>

section \<open>Data\<close>

record mother_create =
  mc_model :: string
  mc_mother_url :: string
  mc_total_layers :: int

record mother_update =
  mu_mother_url :: "string option"
  mu_total_layers :: "int option"

record mother_record =
  mr_model :: string
  mr_mother_url :: string
  mr_total_layers :: int
  mr_updated_at :: int

type_synonym mothers = "(string, mother_record) pydict"

section \<open>URL decoding\<close>

definition hex_val :: "char \<Rightarrow> nat option" where
  "hex_val c =
     (if is_digit c then Some (digit_val c)
      else if 97 \<le> (of_char c :: nat) \<and> of_char c \<le> (102 :: nat) then Some (of_char c - 87)
      else if 65 \<le> (of_char c :: nat) \<and> of_char c \<le> (70 :: nat) then Some (of_char c - 55)
      else None)"

fun unquote :: "string \<Rightarrow> string" where
  "unquote (c # a # b # s) =
     (if c = CHR ''%'' then
        (case (hex_val a, hex_val b) of
           (Some x, Some y) \<Rightarrow> char_of (16 * x + y) # unquote s
         | _ \<Rightarrow> c # unquote (a # b # s))
      else c # unquote (a # b # s))"
| "unquote s = s"

section \<open>Handlers\<close>

definition require_admin :: "string \<Rightarrow> string option \<Rightarrow> unit result" where
  "require_admin admin_token authorization =
     (if admin_token = [] then Inl (HTTPException 500)
      else if \<not> truthy_str authorization \<or> \<not> startswith (the authorization) ''Bearer ''
        then Inl (HTTPException 401)
      else if py_strip (drop 7 (the authorization)) \<noteq> admin_token then Inl (HTTPException 403)
      else Inr ())"

definition list_mothers :: "mothers \<Rightarrow> mother_record list" where
  "list_mothers t = sort_key mr_model (dvalues t)"

definition get_mother :: "string \<Rightarrow> mothers \<Rightarrow> mother_record result" where
  "get_mother path t =
     (case dget t (unquote path) of None \<Rightarrow> Inl (HTTPException 404) | Some row \<Rightarrow> Inr row)"

definition valid_create :: "mother_create \<Rightarrow> bool" where
  "valid_create body \<longleftrightarrow> mc_model body \<noteq> [] \<and> mc_mother_url body \<noteq> [] \<and> mc_total_layers body \<ge> 1"

definition register_mother ::
  "string \<Rightarrow> string option \<Rightarrow> int \<Rightarrow> mother_create \<Rightarrow> mothers \<Rightarrow> mother_record result \<times> mothers" where
  "register_mother admin auth now_s body t =
     (case require_admin admin auth of Inl e \<Rightarrow> (Inl e, t) | Inr _ \<Rightarrow>
      if \<not> valid_create body then (Inl (HTTPException 422), t)
      else if dget t (mc_model body) \<noteq> None then (Inl (HTTPException 409), t)
      else let row = \<lparr>mr_model = mc_model body, mr_mother_url = rstrip_slash (mc_mother_url body),
                      mr_total_layers = mc_total_layers body, mr_updated_at = now_s\<rparr>
           in (Inr row, dset (mc_model body) row t))"

definition update_mother ::
  "string \<Rightarrow> string option \<Rightarrow> int \<Rightarrow> string \<Rightarrow> mother_update \<Rightarrow> mothers \<Rightarrow> mother_record result \<times> mothers" where
  "update_mother admin auth now_s path body t =
     (case require_admin admin auth of Inl e \<Rightarrow> (Inl e, t) | Inr _ \<Rightarrow>
      if (case mu_total_layers body of Some n \<Rightarrow> n < 1 | None \<Rightarrow> False) then (Inl (HTTPException 422), t)
      else let model = unquote path in
      if mu_mother_url body = None \<and> mu_total_layers body = None then (Inl (HTTPException 400), t)
      else case dget t model of None \<Rightarrow> (Inl (HTTPException 404), t) | Some row \<Rightarrow>
      let row' = row\<lparr>mr_mother_url := (if truthy_str (mu_mother_url body)
                                      then rstrip_slash (the (mu_mother_url body)) else mr_mother_url row),
                     mr_total_layers := (case mu_total_layers body of Some n \<Rightarrow> n | None \<Rightarrow> mr_total_layers row),
                     mr_updated_at := now_s\<rparr>
      in (Inr (row'\<lparr>mr_model := model\<rparr>), dset model row' t))"

definition delete_mother ::
  "string \<Rightarrow> string option \<Rightarrow> string \<Rightarrow> mothers \<Rightarrow> string result \<times> mothers" where
  "delete_mother admin auth path t =
     (case require_admin admin auth of Inl e \<Rightarrow> (Inl e, t) | Inr _ \<Rightarrow>
      let model = unquote path in
      if dget t model = None then (Inl (HTTPException 404), t) else (Inr model, ddel model t))"

section \<open>The table invariant\<close>

definition mothers_ok :: "mothers \<Rightarrow> bool" where
  "mothers_ok t \<longleftrightarrow> dict_ok t
     \<and> (\<forall>k row. dget t k = Some row \<longrightarrow> mr_model row = k \<and> mr_total_layers row \<ge> 1)"

datatype discovery_request =
    Register "string option" int mother_create
  | Update "string option" int string mother_update
  | Delete "string option" string

fun discovery_step :: "string \<Rightarrow> discovery_request \<Rightarrow> mothers \<Rightarrow> mothers" where
  "discovery_step admin (Register auth n body) t = snd (register_mother admin auth n body t)"
| "discovery_step admin (Update auth n path body) t = snd (update_mother admin auth n path body t)"
| "discovery_step admin (Delete auth path) t = snd (delete_mother admin auth path t)"

lemma mothers_ok_dset:
  "mothers_ok t \<Longrightarrow> mr_model row = k \<Longrightarrow> mr_total_layers row \<ge> 1 \<Longrightarrow> mothers_ok (dset k row t)"
  by (simp add: mothers_ok_def dget_dset)

lemma mothers_ok_ddel: "mothers_ok t \<Longrightarrow> mothers_ok (ddel k t)"
  by (simp add: mothers_ok_def dget_ddel)

lemma mothers_ok_step: "mothers_ok t \<Longrightarrow> mothers_ok (discovery_step admin req t)"
proof (cases req)
  case (Register auth n body)
  assume "mothers_ok t"
  then show ?thesis
    by (auto simp: Register register_mother_def Let_def valid_create_def split: sum.splits intro!: mothers_ok_dset)
next
  case (Update auth n path body)
  assume ok: "mothers_ok t"
  then have "dget t k = Some row \<Longrightarrow> mr_model row = k \<and> mr_total_layers row \<ge> 1" for k row
    by (simp add: mothers_ok_def)
  then show ?thesis
    using ok by (auto simp: Update update_mother_def Let_def split: sum.splits option.splits intro!: mothers_ok_dset)
next
  case (Delete auth path)
  assume "mothers_ok t"
  then show ?thesis
    by (auto simp: Delete delete_mother_def Let_def split: sum.splits intro!: mothers_ok_ddel)
qed

lemma step_needs_admin: "require_admin admin auth = Inl e \<Longrightarrow>
   register_mother admin auth n body t = (Inl e, t)
   \<and> update_mother admin auth n path upd t = (Inl e, t) \<and> delete_mother admin auth path t = (Inl e, t)"
  by (simp add: register_mother_def update_mother_def delete_mother_def)

lemma mothers_keys: "mothers_ok t \<Longrightarrow> map mr_model (dvalues t) = map fst t"
  by (auto simp: mothers_ok_def dict_ok_def dest: map_of_is_SomeI)

lemma dset_mem: "v \<in> set (dvalues (dset k v d))"
  by (induction d) auto

lemma startswith_split: "startswith s p \<Longrightarrow> s = p @ drop (length p) s"
  unfolding startswith_def by (metis append_take_drop_id)

section \<open>Properties\<close>

definition ex_mother :: mother_create where
  "ex_mother = \<lparr>mc_model = ''org/m'', mc_mother_url = ''http://m/'', mc_total_layers = 32\<rparr>"

text \<open>The discovery table keeps its rows under their own model name with at least one layer, whatever
  sequence of requests is served, and listing it gives the rows in order of the model, each once.\<close>

lemma discovery_table_ok:
  "mothers_ok (fold (discovery_step admin) reqs [])
   \<and> sorted (map mr_model (list_mothers (fold (discovery_step admin) reqs [])))
   \<and> distinct (map mr_model (list_mothers (fold (discovery_step admin) reqs [])))"
proof -
  have "mothers_ok t \<Longrightarrow> mothers_ok (fold (discovery_step admin) reqs t)" for t
    by (induction reqs arbitrary: t) (simp_all add: mothers_ok_step)
  from this [of "[]"] have ok: "mothers_ok (fold (discovery_step admin) reqs [])" by (simp add: mothers_ok_def)
  let ?t = "fold (discovery_step admin) reqs []"
  have "map mr_model (dvalues ?t) = map fst ?t" using ok by (rule mothers_keys)
  then have "distinct (map mr_model (dvalues ?t))"
    using ok by (simp only: mothers_ok_def dict_ok_def)
  then have "distinct (map mr_model (list_mothers ?t))"
    using mset_eq_imp_distinct_iff [of "map mr_model (list_mothers ?t)" "map mr_model (dvalues ?t)"]
    by (simp only: list_mothers_def mset_map mset_sort)
  then show ?thesis using ok by (simp add: list_mothers_def)
qed

lemma unquote_id: "CHR ''%'' \<notin> set s \<Longrightarrow> unquote s = s"
  by (induction s rule: unquote.induct) auto

text \<open>A model registered with the admin token is the one a later lookup of its name finds, for a name
  without percent signs; registering it again is refused.\<close>

lemma register_then_get:
  assumes "require_admin admin auth = Inr ()" and "valid_create body" and "dget t (mc_model body) = None"
    and "CHR ''%'' \<notin> set (mc_model body)"
  shows "\<exists>row t'. register_mother admin auth n body t = (Inr row, t')
    \<and> get_mother (mc_model body) t' = Inr row \<and> mr_mother_url row = rstrip_slash (mc_mother_url body)
    \<and> mr_total_layers row = mc_total_layers body
    \<and> register_mother admin auth n' body t' = (Inl (HTTPException 409), t')
    \<and> (\<forall>path. unquote path \<noteq> mc_model body \<longrightarrow> get_mother path t' = get_mother path t)"
  using assms by (simp add: register_mother_def get_mother_def Let_def dget_dset unquote_id)

lemma register_then_get_witness:
  "\<exists>row t'. register_mother ''s3'' (Some ''Bearer s3'') 7 ex_mother [] = (Inr row, t')
     \<and> get_mother ''org/m'' t' = Inr row"
proof -
  have "require_admin ''s3'' (Some ''Bearer s3'') = Inr ()" "valid_create ex_mother"
    "dget ([] :: mothers) (mc_model ex_mother) = None" "CHR ''%'' \<notin> set (mc_model ex_mother)"
    "mc_model ex_mother = ''org/m''" by code_simp+
  with register_then_get [of "''s3''" "Some ''Bearer s3''" ex_mother "[]" 7] show ?thesis by metis
qed

text \<open>Only the holder of the configured token changes the table, and with no token configured
  nobody does.\<close>

lemma discovery_admin_only:
  assumes "discovery_step admin req t \<noteq> t"
  shows "admin \<noteq> [] \<and> (\<exists>rest. (case req of Register auth _ _ \<Rightarrow> auth | Update auth _ _ _ \<Rightarrow> auth | Delete auth _ \<Rightarrow> auth)
    = Some (''Bearer '' @ rest) \<and> py_strip rest = admin)"
proof -
  obtain auth where a: "(case req of Register auth _ _ \<Rightarrow> auth | Update auth _ _ _ \<Rightarrow> auth | Delete auth _ \<Rightarrow> auth) = auth"
    by blast
  have "require_admin admin auth = Inr ()"
  proof (rule ccontr)
    assume "require_admin admin auth \<noteq> Inr ()"
    then obtain e where "require_admin admin auth = Inl e" by (cases "require_admin admin auth") auto
    with step_needs_admin a assms show False by (cases req) auto
  qed
  then have r: "admin \<noteq> []" "truthy_str auth" "startswith (the auth) ''Bearer ''"
    "py_strip (drop 7 (the auth)) = admin"
    by (auto simp: require_admin_def split: if_splits)
  have "the auth = ''Bearer '' @ drop 7 (the auth)"
    using startswith_split [OF r(3)] by (simp add: eval_nat_numeral)
  then show ?thesis using r a by (auto simp: truthy_str_iff intro!: exI [of _ "drop 7 (the auth)"])
qed

lemma discovery_admin_only_witness:
  "''s3'' \<noteq> [] \<and> (\<exists>rest. Some ''Bearer s3'' = Some (''Bearer '' @ rest) \<and> py_strip rest = ''s3'')"
proof -
  have "discovery_step ''s3'' (Register (Some ''Bearer s3'') 7 ex_mother) [] \<noteq> []" by code_simp
  from discovery_admin_only [OF this] show ?thesis by simp
qed

text \<open>The path is decoded a second time after the framework has done so: a model whose name contains a
  percent-encoded sequence can be registered, is listed, but is never found, updated or deleted
  under its own name.\<close>

lemma double_decoding_hides_model:
  assumes "require_admin admin auth = Inr ()" and "valid_create body" and "dget t (mc_model body) = None"
    and "unquote (mc_model body) \<noteq> mc_model body" and "dget t (unquote (mc_model body)) = None"
  shows "\<exists>row t'. register_mother admin auth n body t = (Inr row, t') \<and> row \<in> set (list_mothers t')
    \<and> get_mother (mc_model body) t' = Inl (HTTPException 404)
    \<and> delete_mother admin auth (mc_model body) t' = (Inl (HTTPException 404), t')"
  using assms dset_mem
  by (simp add: register_mother_def get_mother_def delete_mother_def Let_def dget_dset list_mothers_def)

lemma double_decoding_hides_model_witness:
  "\<exists>row t'. register_mother ''s3'' (Some ''Bearer s3'') 7 (ex_mother\<lparr>mc_model := ''m%41''\<rparr>) [] = (Inr row, t')
     \<and> get_mother ''m%41'' t' = Inl (HTTPException 404)"
proof -
  have "require_admin ''s3'' (Some ''Bearer s3'') = Inr ()" "valid_create (ex_mother\<lparr>mc_model := ''m%41''\<rparr>)"
    "dget ([] :: mothers) (mc_model (ex_mother\<lparr>mc_model := ''m%41''\<rparr>)) = None"
    "unquote (mc_model (ex_mother\<lparr>mc_model := ''m%41''\<rparr>)) \<noteq> mc_model (ex_mother\<lparr>mc_model := ''m%41''\<rparr>)"
    "dget ([] :: mothers) (unquote (mc_model (ex_mother\<lparr>mc_model := ''m%41''\<rparr>))) = None"
    by code_simp+
  from double_decoding_hides_model [OF this, of 7] show ?thesis by auto
qed

end
