(* ===== verification/Ranges.thy ===== *)
theory Ranges
  imports PyString "HOL-Library.Multiset"
begin

text \<open>
  Layer ranges. In the code a range is the string \<open>"start:end"\<close>, half open; \<open>parse_range\<close> and
  \<open>format_range\<close> (orchestrator/app/registry.py) are its reader and printer. The second half is
  the abstract view of an assignment of ranges to hosts: how many of the ranges hold a layer,
  and what it means that the ranges cover the layers of the model exactly.
\<close>

section \<open>The string form\<close>

definition parse_range :: "string \<Rightarrow> (int \<times> int) result" where
  "parse_range block_indices =
     (case py_split CHR '':'' block_indices of
        [start_s, end_s] \<Rightarrow>
          rbind (py_int start_s) (\<lambda>s. rbind (py_int end_s) (\<lambda>e. Inr (s, e)))
      | _ \<Rightarrow> Inl ValueError)"

definition format_range :: "int \<Rightarrow> int \<Rightarrow> string" where
  "format_range s e = int_str s @ '':'' @ int_str e"

lemma parse_format_range [simp, range_simps]: "parse_range (format_range s e) = Inr (s, e)"
  by (simp add: parse_range_def format_range_def py_split_append int_str_no_colon py_split_absent)

lemma format_range_not_Nil [simp]: "format_range s e \<noteq> []"
  by (simp add: format_range_def)

lemma format_range_inj: "format_range s e = format_range s' e' \<longleftrightarrow> s = s' \<and> e = e'"
  by (metis parse_format_range prod.inject sum.inject(2))

lemma py_int_error: "py_int s = Inl e \<Longrightarrow> e = ValueError"
  by (auto simp: py_int_def Let_def split: option.splits)

lemma parse_range_error: "parse_range s = Inl e \<Longrightarrow> e = ValueError"
  by (auto simp: parse_range_def rbind_Inl_iff split: list.splits dest: py_int_error)

text \<open>A string without a colon is no range, so neither is the empty one.\<close>

lemma parse_range_no_colon: "CHR '':'' \<notin> set s \<Longrightarrow> parse_range s = Inl ValueError"
  by (simp add: parse_range_def py_split_absent)

section \<open>How many ranges hold a layer\<close>

type_synonym range = "int \<times> int"

fun holds :: "range \<Rightarrow> int \<Rightarrow> bool" where
  "holds (a, b) x = (a \<le> x \<and> x < b)"

fun layer_count :: "range list \<Rightarrow> int \<Rightarrow> nat" where
  "layer_count [] x = 0"
| "layer_count (r # rs) x = (if holds r x then Suc (layer_count rs x) else layer_count rs x)"

definition covers :: "range list \<Rightarrow> int \<Rightarrow> int \<Rightarrow> bool" where
  "covers rs lo hi \<longleftrightarrow>
     (\<forall>(a, b) \<in> set rs. a < b) \<and> (\<forall>x. layer_count rs x = (if lo \<le> x \<and> x < hi then 1 else 0))"

abbreviation exact_cover :: "range list \<Rightarrow> int \<Rightarrow> bool" where
  "exact_cover rs n \<equiv> covers rs 0 n"

lemma layer_count_append [simp]: "layer_count (rs @ qs) x = layer_count rs x + layer_count qs x"
  by (induction rs) auto

lemma layer_count_ge: "r \<in> set rs \<Longrightarrow> holds r x \<Longrightarrow> 1 \<le> layer_count rs x"
  by (induction rs) auto

lemma layer_count_pos: "0 < layer_count rs x \<longleftrightarrow> (\<exists>r \<in> set rs. holds r x)"
  by (induction rs) auto

lemma layer_count_mset: "mset rs = mset qs \<Longrightarrow> layer_count rs x = layer_count qs x"
proof (induction rs arbitrary: qs)
  case Nil
  then show ?case by simp
next
  case (Cons r rs)
  then have "r \<in> set qs" by (metis list.set_intros(1) mset_eq_setD)
  then obtain as bs where qs: "qs = as @ r # bs" by (auto dest: split_list)
  with Cons.prems have "mset rs = mset (as @ bs)" by simp
  then have "layer_count rs x = layer_count (as @ bs) x" by (rule Cons.IH)
  then show ?case by (simp add: qs)
qed

lemma covers_mset: "mset rs = mset qs \<Longrightarrow> covers rs lo hi \<longleftrightarrow> covers qs lo hi"
  using layer_count_mset [of rs qs] mset_eq_setD [of rs qs] by (simp add: covers_def)

lemma covers_nonempty: "covers rs lo hi \<Longrightarrow> (a, b) \<in> set rs \<Longrightarrow> a < b"
  by (auto simp: covers_def)

lemma covers_bounds:
  assumes "covers rs lo hi" and "(a, b) \<in> set rs"
  shows "lo \<le> a \<and> b \<le> hi"
proof -
  have "a < b" using assms by (rule covers_nonempty)
  then have "holds (a, b) a" "holds (a, b) (b - 1)" by auto
  then have "1 \<le> layer_count rs a" "1 \<le> layer_count rs (b - 1)"
    using layer_count_ge [OF assms(2)] by blast+
  with assms(1) show ?thesis by (auto simp: covers_def split: if_splits)
qed

lemma covers_ex: "covers rs lo hi \<Longrightarrow> lo \<le> x \<Longrightarrow> x < hi \<Longrightarrow> \<exists>r \<in> set rs. holds r x"
  using layer_count_pos [of rs x] by (auto simp: covers_def)

section \<open>Covers as multisets: splitting, merging, overlap\<close>

text \<open>
  A registry update replaces, adds or removes entries anywhere in the dictionary, so the effect
  on a cover is stated on the multiset of ranges.
\<close>

definition mcovers :: "range multiset \<Rightarrow> int \<Rightarrow> int \<Rightarrow> bool" where
  "mcovers M lo hi \<longleftrightarrow> (\<forall>(a, b) \<in># M. a < b) \<and>
     (\<forall>x. size (filter_mset (\<lambda>r. holds r x) M) = (if lo \<le> x \<and> x < hi then 1 else 0))"

lemma layer_count_size: "layer_count rs x = size (filter_mset (\<lambda>r. holds r x) (mset rs))"
  by (induction rs) auto

lemma covers_mcovers: "covers rs lo hi \<longleftrightarrow> mcovers (mset rs) lo hi"
  by (simp add: covers_def mcovers_def layer_count_size)

lemma mcovers_split:
  assumes "mcovers (add_mset (a, b) M) lo hi" and "a < m" and "m < b"
  shows "mcovers (add_mset (a, m) (add_mset (m, b) M)) lo hi"
proof -
  have "size (filter_mset (\<lambda>r. holds r x) (add_mset (a, m) (add_mset (m, b) M)))
      = size (filter_mset (\<lambda>r. holds r x) (add_mset (a, b) M))" for x
    using assms(2,3) by auto
  then show ?thesis using assms by (simp add: mcovers_def)
qed

lemma mcovers_join:
  assumes "mcovers (add_mset (a, m) (add_mset (m, b) M)) lo hi"
  shows "mcovers (add_mset (a, b) M) lo hi"
proof -
  have "a < m" "m < b" using assms by (auto simp: mcovers_def)
  then have "size (filter_mset (\<lambda>r. holds r x) (add_mset (a, m) (add_mset (m, b) M)))
      = size (filter_mset (\<lambda>r. holds r x) (add_mset (a, b) M))" for x
    by auto
  then show ?thesis using assms by (simp add: mcovers_def)
qed

lemma mcovers_nonempty: "mcovers M lo hi \<Longrightarrow> (a, b) \<in># M \<Longrightarrow> a < b"
  by (auto simp: mcovers_def)

lemma mcovers_size:
  "mcovers M lo hi \<Longrightarrow> size (filter_mset (\<lambda>r. holds r x) M) = (if lo \<le> x \<and> x < hi then 1 else 0)"
  by (simp only: mcovers_def)

lemma filter_holds_iff: "filter_mset (\<lambda>r. holds r x) M \<noteq> {#} \<longleftrightarrow> (\<exists>r \<in># M. holds r x)"
  by (auto simp flip: set_mset_eq_empty_iff simp del: set_mset_eq_empty_iff holds.simps)

lemma mcovers_iff_ex: "mcovers M lo hi \<Longrightarrow> (\<exists>r \<in># M. holds r x) \<longleftrightarrow> lo \<le> x \<and> x < hi"
  using mcovers_size [of M lo hi x] filter_holds_iff [of x M]
  by (metis nonempty_has_size not_gr_zero zero_neq_one)

lemma mcovers_ex: "mcovers M lo hi \<Longrightarrow> lo \<le> x \<Longrightarrow> x < hi \<Longrightarrow> \<exists>r \<in># M. holds r x"
  by (simp only: mcovers_iff_ex)

lemma mcovers_in: "mcovers M lo hi \<Longrightarrow> r \<in># M \<Longrightarrow> holds r x \<Longrightarrow> lo \<le> x \<and> x < hi"
  using mcovers_iff_ex by blast

lemma mcovers_bounds: "mcovers M lo hi \<Longrightarrow> (a, b) \<in># M \<Longrightarrow> lo \<le> a \<and> b \<le> hi"
  using mcovers_nonempty [of M lo hi a b] mcovers_in [of M lo hi "(a, b)" a]
    mcovers_in [of M lo hi "(a, b)" "b - 1"] by auto

text \<open>Two entries of an exact cover never hold a common layer.\<close>

lemma mcovers_disjoint:
  assumes "mcovers (add_mset q M) lo hi" and "r \<in># M" and "holds r x"
  shows "\<not> holds q x"
proof
  assume q: "holds q x"
  from assms(2) obtain N where "M = add_mset r N" by (metis insert_DiffM)
  with q assms(3) have "2 \<le> size (filter_mset (\<lambda>r. holds r x) (add_mset q M))" by simp
  moreover have "size (filter_mset (\<lambda>r. holds r x) (add_mset q M)) \<le> 1"
    using assms(1) unfolding mcovers_def by (metis le_numeral_extra(4) zero_le_one)
  ultimately show False by simp
qed

section \<open>The number of layers of a cover\<close>

lemma int_card_holds: "a \<le> b \<Longrightarrow> lo \<le> a \<Longrightarrow> b \<le> hi \<Longrightarrow>
    b - a = (\<Sum>x \<in> {lo..<hi}. if holds (a, b) x then 1 else 0)"
proof -
  assume "a \<le> b" "lo \<le> a" "b \<le> hi"
  then have "{x \<in> {lo..<hi}. holds (a, b) x} = {a..<b}" by auto
  then have "(\<Sum>x \<in> {lo..<hi}. if holds (a, b) x then 1 else 0) = int (card {a..<b})"
    by (simp add: sum.If_cases Int_def flip: sum.inter_filter)
  with \<open>a \<le> b\<close> show ?thesis by simp
qed

lemma sum_widths_count:
  assumes "\<forall>(a, b) \<in> set rs. a \<le> b \<and> lo \<le> a \<and> b \<le> hi"
  shows "(\<Sum>(a, b) \<leftarrow> rs. b - a) = (\<Sum>x \<in> {lo..<hi}. int (layer_count rs x))"
  using assms
proof (induction rs)
  case Nil
  then show ?case by simp
next
  case (Cons r rs)
  obtain a b where r: "r = (a, b)" by (cases r)
  with Cons.prems have "b - a = (\<Sum>x \<in> {lo..<hi}. if holds (a, b) x then 1 else 0)"
    by (intro int_card_holds) auto
  with Cons r show ?case by (auto simp: sum.distrib [symmetric] intro!: sum.cong)
qed

lemma covers_width:
  assumes "covers rs lo hi" and "lo \<le> hi"
  shows "(\<Sum>(a, b) \<leftarrow> rs. b - a) = hi - lo"
proof -
  have "\<forall>(a, b) \<in> set rs. a \<le> b \<and> lo \<le> a \<and> b \<le> hi"
    using assms(1) covers_bounds covers_nonempty by fastforce
  then have "(\<Sum>(a, b) \<leftarrow> rs. b - a) = (\<Sum>x \<in> {lo..<hi}. int (layer_count rs x))"
    by (rule sum_widths_count)
  also have "\<dots> = (\<Sum>x \<in> {lo..<hi}. 1)"
    using assms(1) by (intro sum.cong) (auto simp: covers_def)
  finally show ?thesis using assms(2) by simp
qed

section \<open>The scan that checks a sorted assignment\<close>

text \<open>
  The loop both the mother (\<open>SwarmManifest.is_complete\<close>) and the contributors
  (\<open>validate_chain_coverage\<close>) run over the ranges in order of their start: every range must
  begin where the one before ended. \<open>Inl\<close> carries the end expected where the scan stopped.
\<close>

fun scan_chain :: "int \<Rightarrow> range list \<Rightarrow> int + int" where
  "scan_chain expected [] = Inr expected"
| "scan_chain expected ((s, e) # rs) = (if s \<noteq> expected then Inl expected else scan_chain e rs)"

lemma scan_chain_covers:
  "scan_chain lo rs = Inr hi \<Longrightarrow> \<forall>(a, b) \<in> set rs. a < b \<Longrightarrow> covers rs lo hi \<and> lo \<le> hi"
proof (induction lo rs rule: scan_chain.induct)
  case (1 expected)
  then show ?case by (auto simp: covers_def)
next
  case (2 expected s e rs)
  then have "s = expected" "s < e" and IH: "covers rs e hi" "e \<le> hi" by (auto split: if_splits)
  then show ?case by (auto simp: covers_def)
qed

lemma covers_scan_chain:
  "covers rs lo hi \<Longrightarrow> lo \<le> hi \<Longrightarrow> sorted (map fst rs) \<Longrightarrow> scan_chain lo rs = Inr hi"
proof (induction rs arbitrary: lo)
  case Nil
  then have "layer_count [] lo = (if lo \<le> lo \<and> lo < hi then 1 else 0)"
    by (simp only: covers_def)
  with Nil show ?case by (simp split: if_splits)
next
  case (Cons r rs)
  obtain a b where r: "r = (a, b)" by (cases r)
  have "(a, b) \<in> set (r # rs)" by (simp add: r)
  then have ab: "a < b" "lo \<le> a" "b \<le> hi"
    using covers_bounds [OF Cons.prems(1)] covers_nonempty [OF Cons.prems(1)] by blast+
  have "\<exists>q \<in> set (r # rs). holds q lo"
    using ab by (intro covers_ex [OF Cons.prems(1)]) linarith+
  then obtain c d where q: "(c, d) \<in> set (r # rs)" "c \<le> lo" by force
  have "a \<le> c" using q(1) Cons.prems(3) r by auto
  with q(2) ab have a: "a = lo" by simp
  have "covers rs b hi"
    unfolding covers_def
  proof (intro conjI allI)
    show "\<forall>(a, b) \<in> set rs. a < b" using Cons.prems(1) by (auto simp: covers_def)
    fix x
    have "layer_count (r # rs) x = (if lo \<le> x \<and> x < hi then 1 else 0)"
      using Cons.prems(1) by (simp only: covers_def)
    then show "layer_count rs x = (if b \<le> x \<and> x < hi then 1 else 0)"
      using r a ab by (auto split: if_splits)
  qed
  with Cons.IH [of b] Cons.prems(3) ab r a show ?case by simp
qed

lemma scan_chain_iff_covers:
  assumes "\<forall>(a, b) \<in> set rs. a < b" and "sorted (map fst rs)" and "lo \<le> hi"
  shows "scan_chain lo rs = Inr hi \<longleftrightarrow> covers rs lo hi"
  using assms scan_chain_covers covers_scan_chain by blast

end
