(* ===== verification/Config.thy ===== *)
theory Config
  imports PyString
begin

text \<open>
  orchestrator/app/config.py: the settings read from the environment. The environment is a
  function from variable names to optional values, as \<open>os.getenv\<close> sees it.
\<close>

section \<open>Readers of single variables\<close>

type_synonym environ = "string \<Rightarrow> string option"

definition getenv_or :: "environ \<Rightarrow> string \<Rightarrow> string \<Rightarrow> string" where
  "getenv_or env key dflt = (case env key of None \<Rightarrow> dflt | Some v \<Rightarrow> v)"

definition split_peers :: "string \<Rightarrow> string list" where
  "split_peers raw = map py_strip (filter (\<lambda>p. py_strip p \<noteq> []) (py_split CHR '','' raw))"

definition truthy :: "string option \<Rightarrow> bool \<Rightarrow> bool" where
  "truthy raw dflt =
     (if raw = None \<or> raw = Some [] then dflt
      else the raw \<notin> {''0'', ''false'', ''False'', ''no'', ''NO''})"

definition env_int :: "environ \<Rightarrow> string \<Rightarrow> int \<Rightarrow> int result" where
  "env_int env key dflt = py_int (getenv_or env key (int_str dflt))"

text \<open>\<open>os.getenv(k) or None\<close>.\<close>

definition env_opt :: "environ \<Rightarrow> string \<Rightarrow> string option" where
  "env_opt env key = (if truthy_str (env key) then env key else None)"

section \<open>The settings\<close>

record settings =
  model_name :: string
  initial_peers :: "string list"
  announce_peers :: "string list"
  api_host :: string
  api_port :: int
  default_max_tokens :: int
  hard_max_tokens :: int
  load_at_startup :: bool
  cfg_total_layers :: int
  mother_shard_manager_url :: string
  heartbeat_ttl_seconds :: int
  pending_ttl_seconds :: int
  reaper_interval_seconds :: int
  heartbeat_interval_seconds :: int
  ready_verify_timeout_seconds :: int
  skip_ready_verify :: bool
  inference_timeout_seconds :: int
  petals_use_auto_relay :: bool
  x402_enabled :: bool
  cost_per_layer_tinybars :: int
  mother_account_id :: "string option"
  mother_private_key :: "string option"
  facilitator_url :: string
  hedera_network :: string
  hcs_topic_id :: "string option"
  escrow_contract_id :: "string option"
  escrow_evm_address :: "string option"
  escrow_operator_private_key :: "string option"
  ens_enabled :: bool
  ens_strict :: bool
  ens_service_url :: string
  ens_parent_name :: string

definition request_price_tinybars :: "settings \<Rightarrow> int" where
  "request_price_tinybars s = cfg_total_layers s * cost_per_layer_tinybars s"

definition from_env :: "environ \<Rightarrow> settings result" where
  "from_env env =
     (let peers_raw = getenv_or env ''INITIAL_PEERS'' [];
          announce_raw = str_or (Some (getenv_or env ''ANNOUNCE_PEERS'' [])) peers_raw;
          cost_raw = getenv_or env ''COST_PER_LAYER_TINYBARS'' ''0''
      in rbind (env_int env ''API_PORT'' 8000) (\<lambda>port.
         rbind (env_int env ''DEFAULT_MAX_TOKENS'' 256) (\<lambda>dmax.
         rbind (env_int env ''HARD_MAX_TOKENS'' 512) (\<lambda>hmax.
         rbind (env_int env ''TOTAL_LAYERS'' 32) (\<lambda>layers.
         rbind (env_int env ''HEARTBEAT_TTL_SECONDS'' 60) (\<lambda>hb_ttl.
         rbind (env_int env ''PENDING_TTL_SECONDS'' 60) (\<lambda>p_ttl.
         rbind (env_int env ''REAPER_INTERVAL_SECONDS'' 15) (\<lambda>reap.
         rbind (env_int env ''HEARTBEAT_INTERVAL_SECONDS'' 20) (\<lambda>hb_int.
         rbind (env_int env ''READY_VERIFY_TIMEOUT_SECONDS'' 120) (\<lambda>verify.
         rbind (env_int env ''INFERENCE_TIMEOUT_SECONDS'' 180) (\<lambda>inf.
         rbind (py_int (str_or (Some cost_raw) ''0'')) (\<lambda>cost. Inr
           \<lparr>model_name = getenv_or env ''MODEL_NAME'' ''HuggingFaceTB/SmolLM2-360M-Instruct'',
            initial_peers = split_peers peers_raw,
            announce_peers = split_peers announce_raw,
            api_host = getenv_or env ''API_HOST'' ''0.0.0.0'',
            api_port = port, default_max_tokens = dmax, hard_max_tokens = hmax,
            load_at_startup = getenv_or env ''LOAD_AT_STARTUP'' ''1'' \<notin> {''0'', ''false'', ''False''},
            cfg_total_layers = layers,
            mother_shard_manager_url =
              rstrip_slash (getenv_or env ''MOTHER_SHARD_MANAGER_URL'' ''http://127.0.0.1:8001''),
            heartbeat_ttl_seconds = hb_ttl, pending_ttl_seconds = p_ttl,
            reaper_interval_seconds = reap, heartbeat_interval_seconds = hb_int,
            ready_verify_timeout_seconds = verify,
            skip_ready_verify = truthy (env ''SKIP_READY_VERIFY'') False,
            inference_timeout_seconds = inf,
            petals_use_auto_relay = truthy (env ''PETALS_USE_AUTO_RELAY'') True,
            x402_enabled = truthy (env ''X402_ENABLED'') False,
            cost_per_layer_tinybars = cost,
            mother_account_id = env_opt env ''MOTHER_ACCOUNT_ID'',
            mother_private_key = env_opt env ''MOTHER_PRIVATE_KEY'',
            facilitator_url = rstrip_slash (str_or (env ''FACILITATOR_URL'') ''http://127.0.0.1:8791''),
            hedera_network = getenv_or env ''HEDERA_NETWORK'' ''hedera-testnet'',
            hcs_topic_id = env_opt env ''HCS_TOPIC_ID'',
            escrow_contract_id = env_opt env ''ESCROW_CONTRACT_ID'',
            escrow_evm_address = env_opt env ''ESCROW_EVM_ADDRESS'',
            escrow_operator_private_key =
              (if truthy_str (env ''ESCROW_OPERATOR_PRIVATE_KEY'') then env ''ESCROW_OPERATOR_PRIVATE_KEY''
               else env_opt env ''MOTHER_PRIVATE_KEY''),
            ens_enabled = truthy (env ''ENS_ENABLED'') False,
            ens_strict = truthy (env ''ENS_STRICT'') False,
            ens_service_url = rstrip_slash (str_or (env ''ENS_SERVICE_URL'') ''http://127.0.0.1:8792''),
            ens_parent_name = py_lower (str_or (env ''ENS_PARENT_NAME'') ''blitzwing.eth'')\<rparr>))))))))))))"

section \<open>What the readers guarantee\<close>

lemma env_int_default: "env key = None \<Longrightarrow> env_int env key d = Inr d"
  by (simp add: env_int_def getenv_or_def)

lemma env_opt_truthy: "env_opt env key = Some v \<Longrightarrow> v \<noteq> []"
  by (auto simp: env_opt_def truthy_str_iff split: if_splits)

lemma split_peers_nonempty: "p \<in> set (split_peers raw) \<Longrightarrow> p \<noteq> []"
  by (auto simp: split_peers_def)

lemma from_env_errors: "from_env env = Inl e \<Longrightarrow> e = ValueError"
  by (auto simp: from_env_def Let_def rbind_Inl_iff env_int_def py_int_def split: option.splits if_splits)

end
