(* ===== verification/LocalRunner.thy ===== *)
theory LocalRunner
  imports Ranges Config
begin

text \<open>
  shard\_manager/local\_runner.py: a client of the node's own Petals server that runs the node's
  slice of the layers. The loaded model (Petals, torch, transformers) is the parameter
  \<open>petals_model\<close>: its embedding, its layers, the final norm and the output head, each of which may
  be absent or fail. The texts the log file has when the runner polls it are a list.
\<close>

section \<open>The model behind the runner\<close>

record ('h, 'l) petals_model =
  pm_embed :: "(int list \<Rightarrow> 'h result) option"
  pm_layers :: "(int \<Rightarrow> 'h \<Rightarrow> 'h result) option"
  pm_norm :: "('h \<Rightarrow> 'h result) option"
  pm_head :: "('h \<Rightarrow> 'l result) option"
  pm_config_layers :: "int list"

fun rfold :: "('b \<Rightarrow> 'a \<Rightarrow> 'a result) \<Rightarrow> 'b list \<Rightarrow> 'a \<Rightarrow> 'a result" where
  "rfold f [] x = Inr x"
| "rfold f (b # bs) x = rbind (f b x) (rfold f bs)"

lemma rfold_append: "rfold f (xs @ ys) x = rbind (rfold f xs x) (rfold f ys)"
proof (induction xs arbitrary: x)
  case (Cons b bs)
  then show ?case by (cases "f b x") auto
qed simp

lemma upto_split: "a \<le> b \<Longrightarrow> b \<le> c \<Longrightarrow> [a..c - 1] = [a..b - 1] @ [b..c - 1]" for a b c :: int
proof -
  assume "a \<le> b" "b \<le> c"
  show ?thesis
  proof (cases "a = b \<or> b = c")
    case False
    with \<open>a \<le> b\<close> \<open>b \<le> c\<close> upto_split2 [of a "b - 1" "c - 1"] show ?thesis by simp
  qed (use \<open>a \<le> b\<close> \<open>b \<le> c\<close> in auto)
qed

section \<open>The peer address in the server log\<close>

definition is_alnum :: "char \<Rightarrow> bool" where
  "is_alnum c \<longleftrightarrow> is_digit c \<or> (65 \<le> (of_char c :: nat) \<and> of_char c \<le> (90 :: nat))
     \<or> (97 \<le> (of_char c :: nat) \<and> of_char c \<le> (122 :: nat))"

text \<open>
  One match of the pattern at the start of the text: the peer id and the text after the match.
  Between the quotes the pattern wants a non-empty text, \<open>/p2p/\<close> and a non-empty id of letters
  and digits, so the id is what follows the last slash.
\<close>

definition server_prefix :: string where
  "server_prefix = ''Running a server on ['' @ [CHR 0x27]"

definition server_line_at :: "string \<Rightarrow> (string \<times> string) option" where
  "server_line_at s =
     (if \<not> startswith s server_prefix then None
      else let rest = drop (length server_prefix) s;
               quoted = takeWhile (\<lambda>c. c \<noteq> CHR 0x27) rest;
               after = drop (length quoted) rest;
               peer = rev (takeWhile is_alnum (rev quoted));
               before = take (length quoted - length peer) quoted
           in if startswith after [CHR 0x27, CHR '']''] \<and> peer \<noteq> [] \<and> endswith before ''/p2p/''
                 \<and> length before > 5
              then Some (peer, drop 2 after) else None)"

lemma server_line_shorter: "server_line_at s = Some (p, t) \<Longrightarrow> length t < length s"
proof -
  assume "server_line_at s = Some (p, t)"
  then obtain n where "startswith s server_prefix" and t: "t = drop n s" "0 < n"
    by (auto simp: server_line_at_def Let_def split: if_splits)
  then have "s \<noteq> []" by (auto simp: startswith_def server_prefix_def)
  with t show ?thesis by simp
qed

function find_server_lines :: "string \<Rightarrow> string list" where
  "find_server_lines s =
     (case server_line_at s of
        Some (p, t) \<Rightarrow> p # find_server_lines t
      | None \<Rightarrow> (case s of [] \<Rightarrow> [] | _ # s' \<Rightarrow> find_server_lines s'))"
  by pat_completeness auto
termination
  by (relation "measure length") (auto dest: server_line_shorter)

declare find_server_lines.simps [simp del]

definition peer_from_log :: "string option \<Rightarrow> int \<Rightarrow> string option" where
  "peer_from_log content port =
     (case content of
        None \<Rightarrow> None
      | Some txt \<Rightarrow>
          (let matches = find_server_lines txt in
           if matches = [] then None
           else Some (''/ip4/127.0.0.1/tcp/'' @ int_str port @ ''/p2p/'' @ last matches)))"

section \<open>The runner\<close>

record ('h, 'l) local_runner =
  lr_model_name :: string
  lr_block_start :: int
  lr_block_end :: int
  lr_port :: int
  lr_log_path :: string
  lr_model :: "('h, 'l) petals_model option"

definition default_log_path :: "environ \<Rightarrow> string \<Rightarrow> bool \<Rightarrow> string" where
  "default_log_path env home mother_log_exists =
     (if truthy_str (env ''PETALS_SERVER_LOG'') then the (env ''PETALS_SERVER_LOG'')
      else if truthy_str (env ''CONTRIB_SHARD_LOG'') then the (env ''CONTRIB_SHARD_LOG'')
      else if mother_log_exists then home @ ''/blitzwing-logs/shard_manager.log''
      else home @ ''/.blitzwing/contrib_shard.out'')"

definition local_runner_init ::
  "environ \<Rightarrow> string \<Rightarrow> bool \<Rightarrow> string \<Rightarrow> string \<Rightarrow> int \<Rightarrow> string option \<Rightarrow> ('h, 'l) local_runner result" where
  "local_runner_init env home mother_log_exists model blocks port log_path =
     rbind (parse_range blocks) (\<lambda>(s, e). Inr
       \<lparr>lr_model_name = model, lr_block_start = s, lr_block_end = e, lr_port = port,
        lr_log_path = (if truthy_str log_path then the log_path
                       else default_log_path env home mother_log_exists),
        lr_model = None\<rparr>)"

fun resolve_local_peer :: "('h, 'l) local_runner \<Rightarrow> string option list \<Rightarrow> string result" where
  "resolve_local_peer r [] = Inl RuntimeError"
| "resolve_local_peer r (txt # txts) =
     (case peer_from_log txt (lr_port r) of
        Some peer \<Rightarrow> Inr peer
      | None \<Rightarrow> resolve_local_peer r txts)"

text \<open>\<open>load\<close> is the loading of tokenizer and model through the given peer.\<close>

definition ensure_loaded ::
  "(string \<Rightarrow> ('h, 'l) petals_model result) \<Rightarrow> string option list \<Rightarrow> ('h, 'l) local_runner
     \<Rightarrow> ('h, 'l) petals_model result \<times> ('h, 'l) local_runner" where
  "ensure_loaded load polls r =
     (case lr_model r of
        Some m \<Rightarrow> (Inr m, r)
      | None \<Rightarrow>
          (case rbind (resolve_local_peer r polls) load of
             Inl e \<Rightarrow> (Inl e, r)
           | Inr m \<Rightarrow> (Inr m, r\<lparr>lr_model := Some m\<rparr>)))"

definition runner_layers :: "('h, 'l) petals_model \<Rightarrow> (int \<Rightarrow> 'h \<Rightarrow> 'h result) result" where
  "runner_layers m = (case pm_layers m of Some f \<Rightarrow> Inr f | None \<Rightarrow> Inl RuntimeError)"

definition runner_embed :: "('h, 'l) petals_model \<Rightarrow> int list \<Rightarrow> 'h result" where
  "runner_embed m ids = (case pm_embed m of Some f \<Rightarrow> f ids | None \<Rightarrow> Inl RuntimeError)"

definition runner_total_layers :: "environ \<Rightarrow> ('h, 'l) petals_model \<Rightarrow> ('h, 'l) local_runner \<Rightarrow> int result" where
  "runner_total_layers env m r =
     (let env_total = py_strip (getenv_or env ''TOTAL_LAYERS'' []) in
      if py_isdigit env_total then py_int env_total
      else case filter (\<lambda>v. v > 0) (pm_config_layers m) of
             v # _ \<Rightarrow> Inr v
           | [] \<Rightarrow> Inr (lr_block_end r))"

definition is_tail_host :: "environ \<Rightarrow> ('h, 'l) petals_model \<Rightarrow> ('h, 'l) local_runner \<Rightarrow> bool result" where
  "is_tail_host env m r = rbind (runner_total_layers env m r) (\<lambda>n. Inr (lr_block_end r \<ge> n))"

definition runner_final_norm :: "('h, 'l) petals_model \<Rightarrow> 'h \<Rightarrow> 'h result" where
  "runner_final_norm m h = (case pm_norm m of Some f \<Rightarrow> f h | None \<Rightarrow> Inr h)"

definition runner_lm_head :: "('h, 'l) petals_model \<Rightarrow> 'h \<Rightarrow> 'l result" where
  "runner_lm_head m h = (case pm_head m of Some f \<Rightarrow> f h | None \<Rightarrow> Inl RuntimeError)"

definition forward_tail :: "('h, 'l) petals_model \<Rightarrow> ('h, 'l) local_runner \<Rightarrow> 'h \<Rightarrow> 'h result" where
  "forward_tail m r h =
     rbind (runner_layers m) (\<lambda>layers. rfold layers [lr_block_start r..lr_block_end r - 1] h)"

definition forward_prefix :: "('h, 'l) petals_model \<Rightarrow> ('h, 'l) local_runner \<Rightarrow> int list \<Rightarrow> 'h result" where
  "forward_prefix m r ids =
     rbind (runner_embed m ids) (\<lambda>h.
       rbind (runner_layers m) (\<lambda>layers. rfold layers [lr_block_start r..lr_block_end r - 1] h))"

definition logits_from_hidden ::
  "environ \<Rightarrow> ('h, 'l) petals_model \<Rightarrow> ('h, 'l) local_runner \<Rightarrow> 'h \<Rightarrow> 'l result" where
  "logits_from_hidden env m r h =
     rbind (is_tail_host env m r) (\<lambda>tail.
       rbind (if tail then runner_final_norm m h else Inr h) (runner_lm_head m))"

section \<open>Slices compose\<close>

text \<open>The reference: the layers \<open>a\<close> to \<open>b\<close> of the whole model, in order.\<close>

definition run_layers :: "('h, 'l) petals_model \<Rightarrow> int \<Rightarrow> int \<Rightarrow> 'h \<Rightarrow> 'h result" where
  "run_layers m a b h = rbind (runner_layers m) (\<lambda>layers. rfold layers [a..b - 1] h)"

lemma run_layers_compose:
  assumes "a \<le> b" "b \<le> c"
  shows "rbind (run_layers m a b h) (run_layers m b c) = run_layers m a c h"
proof (cases "runner_layers m")
  case (Inl e)
  then show ?thesis by (simp add: run_layers_def)
next
  case (Inr f)
  then show ?thesis
    using upto_split [OF assms] by (simp add: run_layers_def [abs_def] rfold_append)
qed

lemma forward_tail_run: "forward_tail m r h = run_layers m (lr_block_start r) (lr_block_end r) h"
  by (simp add: forward_tail_def run_layers_def)

lemma forward_prefix_run:
  "forward_prefix m r ids = rbind (runner_embed m ids) (run_layers m (lr_block_start r) (lr_block_end r))"
  by (simp add: forward_prefix_def run_layers_def [abs_def])

lemma ensure_loaded_fields:
  "ensure_loaded load polls r = (res, r') \<Longrightarrow>
   lr_block_start r' = lr_block_start r \<and> lr_block_end r' = lr_block_end r \<and> lr_port r' = lr_port r
   \<and> (\<forall>m. res = Inr m \<longrightarrow> lr_model r' = Some m)"
  by (auto simp: ensure_loaded_def split: option.splits sum.splits)

end
