(* ===== verification/PyJson.thy ===== *)
theory PyJson
  imports PyString
begin

text \<open>
  The part of Python's \<open>json\<close> the program relies on: values, \<open>json.dumps\<close> with \<open>indent=2\<close> and
  \<open>json.loads\<close>, on the text itself. A float is kept as the text it is written with (the
  program writes none). A \<open>\u\<close> escape beyond the one-byte characters of the model is
  \<open>OutsideModel\<close>, an outcome the code does not have. The limit of Python's stack on the nesting
  of a text is not modelled.
\<close>

datatype json =
    JNull
  | JBool bool
  | JInt int
  | JFloat string
  | JStr string
  | JArr "json list"
  | JObj "(string \<times> json) list"

section \<open>Writing\<close>

definition hex_char :: "nat \<Rightarrow> char" where
  "hex_char d = (if d < 10 then digit_char d else char_of (87 + d))"

definition escape_char :: "char \<Rightarrow> string" where
  "escape_char c =
     (if c = CHR 0x22 then [CHR 0x5C, CHR 0x22]
      else if c = CHR 0x5C then [CHR 0x5C, CHR 0x5C]
      else if c = CHR 10 then [CHR 0x5C, CHR ''n'']
      else if c = CHR 13 then [CHR 0x5C, CHR ''r'']
      else if c = CHR 9 then [CHR 0x5C, CHR ''t'']
      else if c = CHR 12 then [CHR 0x5C, CHR ''f'']
      else if c = CHR 8 then [CHR 0x5C, CHR ''b'']
      else if 32 \<le> (of_char c :: nat) \<and> of_char c \<le> (126 :: nat) then [c]
      else [CHR 0x5C, CHR ''u'', CHR ''0'', CHR ''0'', hex_char (of_char c div 16), hex_char (of_char c mod 16)])"

definition json_quote :: "string \<Rightarrow> string" where
  "json_quote s = CHR 0x22 # concat (map escape_char s) @ [CHR 0x22]"

definition json_newline :: "nat \<Rightarrow> string" where
  "json_newline level = CHR 10 # replicate (2 * level) CHR '' ''"

fun dumps :: "nat \<Rightarrow> json \<Rightarrow> string"
  and dumps_items :: "nat \<Rightarrow> json list \<Rightarrow> string"
  and dumps_members :: "nat \<Rightarrow> (string \<times> json) list \<Rightarrow> string" where
  "dumps n JNull = ''null''"
| "dumps n (JBool b) = (if b then ''true'' else ''false'')"
| "dumps n (JInt i) = int_str i"
| "dumps n (JFloat x) = x"
| "dumps n (JStr s) = json_quote s"
| "dumps n (JArr xs) =
     (case xs of [] \<Rightarrow> ''[]''
      | y # ys \<Rightarrow> CHR ''['' # json_newline (n + 1) @ dumps (n + 1) y @ dumps_items (n + 1) ys @ json_newline n @ '']'')"
| "dumps n (JObj kvs) =
     (case kvs of [] \<Rightarrow> ''{}''
      | (k, v) # rest \<Rightarrow>
          CHR ''{'' # json_newline (n + 1) @ json_quote k @ '': '' @ dumps (n + 1) v @ dumps_members (n + 1) rest
            @ json_newline n @ ''}'')"
| "dumps_items n [] = []"
| "dumps_items n (x # xs) = CHR '','' # json_newline n @ dumps n x @ dumps_items n xs"
| "dumps_members n [] = []"
| "dumps_members n ((k, v) # rest) =
     CHR '','' # json_newline n @ json_quote k @ '': '' @ dumps n v @ dumps_members n rest"

definition json_dumps :: "json \<Rightarrow> string" where
  "json_dumps v = dumps 0 v"

section \<open>Reading\<close>

definition json_ws :: "char \<Rightarrow> bool" where
  "json_ws c \<longleftrightarrow> c = CHR '' '' \<or> c = CHR 9 \<or> c = CHR 10 \<or> c = CHR 13"

abbreviation skip_ws :: "string \<Rightarrow> string" where
  "skip_ws s \<equiv> dropWhile json_ws s"

definition hex_val :: "char \<Rightarrow> nat option" where
  "hex_val c =
     (let n = of_char c
      in if is_digit c then Some (n - 48)
         else if 97 \<le> n \<and> n \<le> 102 then Some (n - 87)
         else if 65 \<le> n \<and> n \<le> 70 then Some (n - 55)
         else None)"

definition hex4 :: "char \<Rightarrow> char \<Rightarrow> char \<Rightarrow> char \<Rightarrow> nat option" where
  "hex4 a b c d =
     (case (hex_val a, hex_val b, hex_val c, hex_val d) of
        (Some x, Some y, Some z, Some w) \<Rightarrow> Some (4096 * x + 256 * y + 16 * z + w)
      | _ \<Rightarrow> None)"

definition simple_escape :: "char \<Rightarrow> char option" where
  "simple_escape c =
     (if c = CHR 0x22 then Some CHR 0x22 else if c = CHR 0x5C then Some CHR 0x5C
      else if c = CHR ''/'' then Some CHR ''/'' else if c = CHR ''b'' then Some CHR 8
      else if c = CHR ''f'' then Some CHR 12 else if c = CHR ''n'' then Some CHR 10
      else if c = CHR ''r'' then Some CHR 13 else if c = CHR ''t'' then Some CHR 9 else None)"

abbreviation cons_fst :: "char \<Rightarrow> string \<times> string \<Rightarrow> string \<times> string" where
  "cons_fst c p \<equiv> (c # fst p, snd p)"

text \<open>The rest of a string literal after its opening quote.\<close>

fun scan_string :: "string \<Rightarrow> (string \<times> string) result" where
  "scan_string [] = Inl ValueError"
| "scan_string (c # s) =
     (if c = CHR 0x22 then Inr ([], s)
      else if c = CHR 0x5C then
        (case s of
           [] \<Rightarrow> Inl ValueError
         | e # s1 \<Rightarrow>
             if e = CHR ''u'' then
               (case s1 of
                  h1 # h2 # h3 # h4 # s2 \<Rightarrow>
                    (case hex4 h1 h2 h3 h4 of
                       None \<Rightarrow> Inl ValueError
                     | Some n \<Rightarrow>
                         if n < 256 then map_sum id (cons_fst (char_of n)) (scan_string s2)
                         else Inl OutsideModel)
                | _ \<Rightarrow> Inl ValueError)
             else
               (case simple_escape e of
                  None \<Rightarrow> Inl ValueError
                | Some d \<Rightarrow> map_sum id (cons_fst d) (scan_string s1)))
      else if (of_char c :: nat) < 32 then Inl ValueError
      else map_sum id (cons_fst c) (scan_string s))"

definition scan_fraction :: "string \<Rightarrow> string \<times> string" where
  "scan_fraction s =
     (case s of
        p # d # r \<Rightarrow>
          if p = CHR ''.'' \<and> is_digit d then (p # takeWhile is_digit (d # r), dropWhile is_digit (d # r))
          else ([], s)
      | _ \<Rightarrow> ([], s))"

definition scan_exponent :: "string \<Rightarrow> string \<times> string" where
  "scan_exponent s =
     (case s of
        e # d # r \<Rightarrow>
          if e = CHR ''e'' \<or> e = CHR ''E'' then
            (if is_digit d then (e # takeWhile is_digit (d # r), dropWhile is_digit (d # r))
             else if (d = CHR ''+'' \<or> d = CHR ''-'') \<and> r \<noteq> [] \<and> is_digit (hd r)
               then (e # d # takeWhile is_digit r, dropWhile is_digit r)
             else ([], s))
          else ([], s)
      | _ \<Rightarrow> ([], s))"

text \<open>The digits of a number: a single zero, or digits that start with another one.\<close>

definition scan_digits :: "string \<Rightarrow> (string \<times> string) option" where
  "scan_digits s =
     (case s of
        [] \<Rightarrow> None
      | c # r \<Rightarrow>
          if c = CHR ''0'' then Some ([c], r)
          else if is_digit c then Some (takeWhile is_digit s, dropWhile is_digit s)
          else None)"

definition scan_number :: "string \<Rightarrow> (json \<times> string) result" where
  "scan_number s =
     (let neg = (s \<noteq> [] \<and> hd s = CHR ''-'')
      in case scan_digits (if neg then tl s else s) of
           None \<Rightarrow> Inl ValueError
         | Some (ds, r) \<Rightarrow>
             (case scan_fraction r of (fr, r1) \<Rightarrow>
              case scan_exponent r1 of (ex, r2) \<Rightarrow>
              if fr = [] \<and> ex = []
              then (case digits_value 0 ds of
                      None \<Rightarrow> Inl ValueError
                    | Some n \<Rightarrow> Inr (JInt (if neg then - int n else int n), r2))
              else Inr (JFloat ((if neg then ''-'' else []) @ ds @ fr @ ex), r2)))"

definition json_literals :: "(string \<times> json) list" where
  "json_literals = [(''null'', JNull), (''true'', JBool True), (''false'', JBool False),
     (''NaN'', JFloat ''NaN''), (''Infinity'', JFloat ''Infinity''), (''-Infinity'', JFloat ''-Infinity'')]"

definition scan_literal :: "string \<Rightarrow> (json \<times> string) option" where
  "scan_literal s =
     map_option (\<lambda>(w, v). (v, drop (length w) s)) (find (\<lambda>(w, v). startswith s w) json_literals)"

text \<open>
  The scanner. Two calls take a character at least, so twice as much fuel as the text has characters,
  and one, is enough (lemma \<open>scan_fuel\<close>: more fuel changes nothing). Of two members with one key the later value stays.
\<close>

fun scan_value :: "nat \<Rightarrow> string \<Rightarrow> (json \<times> string) result"
  and scan_items :: "nat \<Rightarrow> string \<Rightarrow> (json list \<times> string) result"
  and scan_members :: "nat \<Rightarrow> string \<Rightarrow> ((string \<times> json) list \<times> string) result" where
  "scan_value 0 s = Inl RuntimeError"
| "scan_value (Suc f) s =
     (case s of
        [] \<Rightarrow> Inl ValueError
      | c # r \<Rightarrow>
          if c = CHR 0x22 then map_sum id (apfst JStr) (scan_string r)
          else if c = CHR ''{'' then
            (case skip_ws r of
               [] \<Rightarrow> Inl ValueError
             | d # r1 \<Rightarrow>
                 if d = CHR ''}'' then Inr (JObj [], r1)
                 else map_sum id (apfst (\<lambda>kvs. JObj (fold (\<lambda>(k, v). dset k v) kvs []))) (scan_members f (d # r1)))
          else if c = CHR ''['' then
            (case skip_ws r of
               [] \<Rightarrow> Inl ValueError
             | d # r1 \<Rightarrow>
                 if d = CHR '']'' then Inr (JArr [], r1)
                 else map_sum id (apfst JArr) (scan_items f (d # r1)))
          else (case scan_literal s of Some p \<Rightarrow> Inr p | None \<Rightarrow> scan_number s))"
| "scan_items 0 s = Inl RuntimeError"
| "scan_items (Suc f) s =
     rbind (scan_value f s) (\<lambda>(v, r).
       (case skip_ws r of
          [] \<Rightarrow> Inl ValueError
        | d # r1 \<Rightarrow>
            if d = CHR '']'' then Inr ([v], r1)
            else if d = CHR '','' then map_sum id (apfst (Cons v)) (scan_items f (skip_ws r1))
            else Inl ValueError))"
| "scan_members 0 s = Inl RuntimeError"
| "scan_members (Suc f) s =
     (case s of
        [] \<Rightarrow> Inl ValueError
      | q # r0 \<Rightarrow>
          if q \<noteq> CHR 0x22 then Inl ValueError
          else rbind (scan_string r0) (\<lambda>(k, r).
            (case skip_ws r of
               [] \<Rightarrow> Inl ValueError
             | c # r1 \<Rightarrow>
                 if c \<noteq> CHR '':'' then Inl ValueError
                 else rbind (scan_value f (skip_ws r1)) (\<lambda>(v, r2).
                   (case skip_ws r2 of
                      [] \<Rightarrow> Inl ValueError
                    | d # r3 \<Rightarrow>
                        if d = CHR ''}'' then Inr ([(k, v)], r3)
                        else if d = CHR '','' then map_sum id (apfst (Cons (k, v))) (scan_members f (skip_ws r3))
                        else Inl ValueError)))))"

definition json_loads :: "string \<Rightarrow> json result" where
  "json_loads s =
     rbind (scan_value (Suc (2 * length s)) (skip_ws s)) (\<lambda>(v, r).
       if skip_ws r = [] then Inr v else Inl ValueError)"

section \<open>Strings and numbers read back\<close>

lemma of_char_256: "(of_char c :: nat) < 256"
  by (cases c) (simp add: of_char_def horner_sum_simps)

lemma hex_val_hex_char: "d < 16 \<Longrightarrow> hex_val (hex_char d) = Some d"
proof -
  assume "d < 16"
  then have "d \<in> {0, 1, 2, 3, 4, 5, 6, 7, 8, 9, 10, 11, 12, 13, 14, 15}" by (simp, arith)
  then show ?thesis by (auto simp: hex_val_def hex_char_def is_digit_def digit_char_def)
qed

lemma hex4_of_char:
  "hex4 CHR ''0'' CHR ''0'' (hex_char (of_char c div 16)) (hex_char (of_char c mod 16)) = Some (of_char c)"
proof -
  have "(of_char c :: nat) div 16 < 16" using of_char_256 [of c] by (simp add: less_mult_imp_div_less)
  moreover have "hex_val CHR ''0'' = Some 0" by (simp add: hex_val_def is_digit_def)
  ultimately show ?thesis by (simp add: hex4_def hex_val_hex_char)
qed

lemma scan_escape_char:
  "scan_string (escape_char c @ t) = map_sum id (cons_fst c) (scan_string t)"
  using of_char_256 [of c]
  by (auto simp: escape_char_def simple_escape_def hex4_of_char)

lemma map_sum_cons_fst: "m = Inr (s, r) \<Longrightarrow> map_sum id (cons_fst c) m = Inr (c # s, r)"
  by simp

lemma scan_string_quoted:
  "scan_string (concat (map escape_char s) @ CHR 0x22 # rest) = Inr (s, rest)"
  by (induction s) (simp_all add: scan_escape_char)

definition value_end :: "string \<Rightarrow> bool" where
  "value_end s \<longleftrightarrow> (case s of [] \<Rightarrow> True | c # _ \<Rightarrow> c = CHR '','' \<or> c = CHR 10)"

lemma value_end_simps [simp]: "value_end []" "value_end (CHR '','' # s)" "value_end (json_newline n @ s)"
  by (simp_all add: value_end_def json_newline_def)

lemma value_end_hd:
  assumes "value_end s"
  shows "takeWhile is_digit s = []" "dropWhile is_digit s = s" "scan_fraction s = ([], s)"
    "scan_exponent s = ([], s)"
  using assms by (auto simp: value_end_def scan_fraction_def scan_exponent_def is_digit_def split: list.splits)

lemma of_char_zero_digit: "of_char CHR ''0'' = (48 :: nat)"
  by simp

lemma digit_char_zero: "digit_char 0 = CHR ''0''"
  by code_simp

lemma nat_str_leading: "0 < n \<Longrightarrow> hd (nat_str n) \<noteq> CHR ''0''"
proof (induction n rule: nat_str.induct)
  case (1 n)
  show ?case
  proof (cases "n < 10")
    case True
    have "digit_char n \<noteq> CHR ''0''"
      using True 1(2) of_char_digit_char [of n] by (metis add_cancel_left_right less_not_refl of_char_zero_digit)
    with True show ?thesis by (subst nat_str.simps) simp
  next
    case False
    then have "hd (nat_str (n div 10)) \<noteq> CHR ''0''" using 1 by simp
    with False show ?thesis by (subst nat_str.simps) simp
  qed
qed

lemma scan_digits_nat_str:
  assumes "value_end rest"
  shows "scan_digits (nat_str n @ rest) = Some (nat_str n, rest)"
proof (cases "n = 0")
  case True
  then show ?thesis by (simp add: scan_digits_def nat_str.simps [of 0] digit_char_zero)
next
  case False
  obtain c cs where c: "nat_str n = c # cs" by (cases "nat_str n") auto
  have "c \<noteq> CHR ''0''" using nat_str_leading [of n] False c by simp
  moreover have "\<forall>x \<in> set (c # cs). is_digit x" using nat_str_digits [of n] c by simp
  ultimately show ?thesis
    using value_end_hd [OF assms] by (simp add: c scan_digits_def takeWhile_append2)
qed

lemma nat_str_hd: "is_digit (hd (nat_str n))"
  using nat_str_digits [of n] by (cases "nat_str n") auto

lemma scan_number_int_str:
  assumes "value_end rest"
  shows "scan_number (int_str i @ rest) = Inr (JInt i, rest)"
proof (cases "i < 0")
  case True
  then show ?thesis
    using scan_digits_nat_str [OF assms] value_end_hd [OF assms] digits_value_nat_str
    by (simp add: scan_number_def int_str_def)
next
  case False
  have "hd (nat_str (nat i)) \<noteq> CHR ''-''" using is_digit_distinct [OF nat_str_hd] by blast
  then show ?thesis
    using False scan_digits_nat_str [OF assms] value_end_hd [OF assms] digits_value_nat_str
    by (simp add: scan_number_def int_str_def)
qed

lemma int_str_hd: "is_digit (hd (int_str i)) \<or> hd (int_str i) = CHR ''-''"
  using nat_str_hd by (simp add: int_str_def)

lemma scan_literal_none:
  "c \<notin> {CHR ''n'', CHR ''t'', CHR ''f'', CHR ''N'', CHR ''I'', CHR ''-''} \<Longrightarrow> scan_literal (c # s) = None"
  by (simp add: scan_literal_def json_literals_def startswith_def)

lemma scan_literal_minus: "d \<noteq> CHR ''I'' \<Longrightarrow> scan_literal (CHR ''-'' # d # s) = None"
  by (simp add: scan_literal_def json_literals_def startswith_def)

lemma is_digit_letters:
  "is_digit c \<Longrightarrow> c \<notin> {CHR ''n'', CHR ''t'', CHR ''f'', CHR ''N'', CHR ''I'', CHR ''-''}"
  by (auto simp: is_digit_def)

lemma nat_str_Cons: obtains c cs where "nat_str n = c # cs" "is_digit c"
  using nat_str_hd [of n] by (cases "nat_str n") auto

lemma scan_literal_int_str: "scan_literal (int_str i @ rest) = None"
proof (cases "i < 0")
  case True
  obtain c cs where "nat_str (nat (- i)) = c # cs" "is_digit c" by (rule nat_str_Cons)
  moreover from this(2) have "c \<noteq> CHR ''I''" using is_digit_letters by blast
  ultimately show ?thesis using True by (simp add: int_str_def scan_literal_minus)
next
  case False
  obtain c cs where "nat_str (nat i) = c # cs" "is_digit c" by (rule nat_str_Cons)
  then show ?thesis
    using False scan_literal_none [OF is_digit_letters, of c] by (simp only: int_str_def if_False append_Cons)
qed

section \<open>Values read back\<close>

text \<open>The values the program writes: no floats, and no key twice in an object.\<close>

fun json_ok :: "json \<Rightarrow> bool" where
  "json_ok (JFloat x) = False"
| "json_ok (JArr xs) = (\<forall>x \<in> set xs. json_ok x)"
| "json_ok (JObj kvs) = (distinct (map fst kvs) \<and> (\<forall>p \<in> set kvs. json_ok (snd p)))"
| "json_ok v = True"

definition tail_items :: "nat \<Rightarrow> string \<Rightarrow> (json list \<times> string) result" where
  "tail_items f s =
     (case skip_ws s of
        [] \<Rightarrow> Inl ValueError
      | d # r \<Rightarrow> if d = CHR '']'' then Inr ([], r)
          else if d = CHR '','' then scan_items f (skip_ws r) else Inl ValueError)"

definition tail_members :: "nat \<Rightarrow> string \<Rightarrow> ((string \<times> json) list \<times> string) result" where
  "tail_members f s =
     (case skip_ws s of
        [] \<Rightarrow> Inl ValueError
      | d # r \<Rightarrow> if d = CHR ''}'' then Inr ([], r)
          else if d = CHR '','' then scan_members f (skip_ws r) else Inl ValueError)"

lemma scan_items_tail:
  "scan_value f s = Inr (v, r) \<Longrightarrow> tail_items f r = Inr (vs, r') \<Longrightarrow> scan_items (Suc f) s = Inr (v # vs, r')"
  by (cases "skip_ws r") (simp_all add: tail_items_def del: dropWhile_eq_Nil_conv split: if_splits)

lemma scan_members_tail:
  assumes "scan_value f s = Inr (v, r)" "tail_members f r = Inr (kvs, r')" "s \<noteq> []" "\<not> json_ws (hd s)"
  shows "scan_members (Suc f) (json_quote k @ '': '' @ s) = Inr ((k, v) # kvs, r')"
proof -
  have "skip_ws (CHR '' '' # s) = s" using assms(3,4) by (cases s) (auto simp: json_ws_def)
  then show ?thesis
    using assms(1,2)
    by (cases "skip_ws r")
      (simp_all add: json_quote_def scan_string_quoted tail_members_def json_ws_def del: dropWhile_eq_Nil_conv split: if_splits)
qed

lemma fold_dset_distinct:
  "distinct (map fst (acc @ kvs)) \<Longrightarrow> fold (\<lambda>(k, v). dset k v) kvs acc = acc @ kvs"
proof (induction kvs arbitrary: acc)
  case (Cons p kvs)
  obtain k v where p: "p = (k, v)" by fastforce
  have "dget acc k = None" using Cons.prems by (auto simp: p map_of_eq_None_iff)
  then have "dset k v acc = acc @ [(k, v)]" by (rule dset_new)
  then show ?case using Cons.IH [of "acc @ [(k, v)]"] Cons.prems by (simp add: p)
qed simp

lemma skip_newline [simp]: "s \<noteq> [] \<Longrightarrow> \<not> json_ws (hd s) \<Longrightarrow> skip_ws (json_newline n @ s) = s"
proof -
  assume "s \<noteq> []" "\<not> json_ws (hd s)"
  then have "skip_ws (replicate k CHR '' '' @ s) = s" for k
    by (induction k) (cases s, auto simp: json_ws_def)
  then show ?thesis by (simp add: json_newline_def json_ws_def)
qed

lemma dumps_start_ex:
  assumes "json_ok v"
  shows "\<exists>c r. dumps n v = c # r \<and> \<not> json_ws c \<and> c \<noteq> CHR '']''"
proof (cases v)
  case (JInt i)
  moreover obtain c r where c: "int_str i = c # r" using int_str_not_Nil by (cases "int_str i") blast+
  moreover have "is_digit c \<or> c = CHR ''-''" using int_str_hd [of i] c by simp
  then have "\<not> json_ws c" "c \<noteq> CHR '']''" by (auto simp: json_ws_def is_digit_def)
  ultimately show ?thesis by simp
next
  case (JArr xs)
  then show ?thesis by (cases xs) (simp_all add: json_ws_def)
next
  case (JObj kvs)
  then show ?thesis by (cases kvs) (auto simp: json_ws_def)
qed (use assms in \<open>auto simp: json_ws_def json_quote_def\<close>)

lemma dumps_start:
  assumes "json_ok v"
  obtains c r where "dumps n v = c # r" "\<not> json_ws c" "c \<noteq> CHR '']''"
  using dumps_start_ex [OF assms] by blast

lemma scan_member:
  assumes "json_ok v" "scan_value f (dumps n v @ t) = Inr (v, t)" "tail_members f t = Inr (kvs, r)"
  shows "scan_members (Suc f) (json_quote k @ '': '' @ dumps n v @ t) = Inr ((k, v) # kvs, r)"
proof -
  obtain c s where "dumps n v = c # s" "\<not> json_ws c" using assms(1) by (rule dumps_start)
  then show ?thesis using scan_members_tail [OF assms(2,3), of k] by simp
qed

lemma value_end_items [simp]: "value_end (dumps_items n xs @ json_newline m @ s)"
  by (cases xs) simp_all

lemma value_end_members [simp]: "value_end (dumps_members n kvs @ json_newline m @ s)"
  by (cases kvs) (auto simp: value_end_def json_newline_def)

lemma scan_dumps:
  shows "json_ok v \<Longrightarrow> length (dumps n v) \<le> f \<Longrightarrow> value_end rest
           \<Longrightarrow> scan_value f (dumps n v @ rest) = Inr (v, rest)"
    and "\<forall>x \<in> set xs. json_ok x \<Longrightarrow> length (dumps_items n xs) \<le> f
           \<Longrightarrow> tail_items f (dumps_items n xs @ json_newline m @ CHR '']'' # rest) = Inr (xs, rest)"
    and "\<forall>p \<in> set kvs. json_ok (snd p) \<Longrightarrow> length (dumps_members n kvs) \<le> f
           \<Longrightarrow> tail_members f (dumps_members n kvs @ json_newline m @ CHR ''}'' # rest) = Inr (kvs, rest)"
proof (induction n v and n xs and n kvs arbitrary: f rest and f rest m and f rest m rule: dumps_dumps_items_dumps_members.induct)
  case (1 n)
  then obtain f' where "f = Suc f'" by (cases f) auto
  then show ?case by (simp add: scan_literal_def json_literals_def startswith_def)
next
  case (2 n b)
  then obtain f' where "f = Suc f'" by (cases f) (auto split: if_splits)
  then show ?case by (simp add: scan_literal_def json_literals_def startswith_def)
next
  case (3 n i)
  have "int_str i \<noteq> []" by simp
  then obtain c cs where c: "int_str i = c # cs" by (meson neq_Nil_conv)
  from 3 c obtain f' where "f = Suc f'" by (cases f) auto
  moreover have "c \<noteq> CHR 0x22" "c \<noteq> CHR ''{''" "c \<noteq> CHR ''[''"
    using int_str_hd [of i] c by (auto simp: is_digit_def)
  ultimately show ?case
    using scan_literal_int_str [of i rest] scan_number_int_str [OF 3(3), of i] c by simp
next
  case (4 n x)
  then show ?case by simp
next
  case (5 n s)
  then obtain f' where "f = Suc f'" by (cases f) (auto simp: json_quote_def)
  then show ?case by (simp add: json_quote_def scan_string_quoted)
next
  case (6 n xs)
  then obtain f' where f: "f = Suc f'" by (cases f) (auto split: list.splits)
  show ?case
  proof (cases xs)
    case Nil
    with f show ?thesis by (simp add: json_ws_def)
  next
    case (Cons y ys)
    have y: "json_ok y" and ys: "\<forall>x \<in> set ys. json_ok x" using 6(3) Cons by simp_all
    from 6(4) have l: "length (dumps (n + 1) y) + length (dumps_items (n + 1) ys) + 1 \<le> f'"
      by (simp add: Cons f)
    then obtain f2 where f2: "f' = Suc f2" by (cases f') auto
    let ?t = "dumps_items (n + 1) ys @ json_newline n @ CHR '']'' # rest"
    have v: "scan_value f2 (dumps (n + 1) y @ ?t) = Inr (y, ?t)"
      using 6(1) [OF Cons y, of f2 ?t] l f2 by simp
    have "tail_items f2 ?t = Inr (ys, rest)" using 6(2) [OF Cons ys, of f2 n rest] l f2 by simp
    with v have it: "scan_items f' (dumps (n + 1) y @ ?t) = Inr (y # ys, rest)"
      unfolding f2 by (rule scan_items_tail)
    obtain d r1 where d: "dumps (n + 1) y = d # r1" "\<not> json_ws d" "d \<noteq> CHR '']''"
      using y by (rule dumps_start)
    then have "skip_ws (json_newline (n + 1) @ dumps (n + 1) y @ ?t) = d # (r1 @ ?t)" by simp
    then show ?thesis using it d(1,3) by (simp add: f Cons)
  qed
next
  case (7 n kvs)
  then obtain f' where f: "f = Suc f'" by (cases f) (auto split: list.splits)
  show ?case
  proof (cases kvs)
    case Nil
    with f show ?thesis by (simp add: json_ws_def)
  next
    case (Cons p ps)
    obtain k v where p: "p = (k, v)" by fastforce
    have v: "json_ok v" and ps: "\<forall>q \<in> set ps. json_ok (snd q)" and dist: "distinct (map fst kvs)"
      using 7(3) Cons p by simp_all
    from 7(4) have l: "length (dumps (n + 1) v) + length (dumps_members (n + 1) ps) + 1 \<le> f'"
      by (simp add: Cons p f)
    then obtain f2 where f2: "f' = Suc f2" by (cases f') auto
    let ?t = "dumps_members (n + 1) ps @ json_newline n @ CHR ''}'' # rest"
    have val: "scan_value f2 (dumps (n + 1) v @ ?t) = Inr (v, ?t)"
      using 7(1) [OF Cons p [symmetric] v, of f2 ?t] l f2 by simp
    have "tail_members f2 ?t = Inr (ps, rest)" using 7(2) [OF Cons p [symmetric] ps, of f2 n rest] l f2 by simp
    with v val have it: "scan_members f' (json_quote k @ '': '' @ dumps (n + 1) v @ ?t) = Inr ((k, v) # ps, rest)"
      unfolding f2 by (rule scan_member)
    have "skip_ws (json_newline (n + 1) @ json_quote k @ '': '' @ dumps (n + 1) v @ ?t)
        = json_quote k @ '': '' @ dumps (n + 1) v @ ?t" by (simp add: json_quote_def json_ws_def)
    then show ?thesis
      using it fold_dset_distinct [of "[]" kvs] dist by (simp add: f Cons p json_quote_def)
  qed
next
  case (8 n)
  then show ?case by (simp add: tail_items_def json_ws_def)
next
  case (9 n x xs)
  then obtain f' where f: "f = Suc f'" by (cases f) auto
  have x: "json_ok x" and xs: "\<forall>y \<in> set xs. json_ok y" using 9(3) by simp_all
  let ?t = "dumps_items n xs @ json_newline m @ CHR '']'' # rest"
  have "scan_value f' (dumps n x @ ?t) = Inr (x, ?t)" using 9(1) [OF x, of f' ?t] 9(4) f by simp
  moreover have "tail_items f' ?t = Inr (xs, rest)" using 9(2) [OF xs, of f' m rest] 9(4) f by simp
  ultimately have "scan_items f (dumps n x @ ?t) = Inr (x # xs, rest)"
    unfolding f by (rule scan_items_tail)
  moreover obtain d r1 where "dumps n x = d # r1" "\<not> json_ws d" using x by (rule dumps_start)
  then have "skip_ws (json_newline n @ dumps n x @ ?t) = dumps n x @ ?t" by simp
  ultimately show ?case by (simp add: tail_items_def json_ws_def)
next
  case (10 n)
  then show ?case by (simp add: tail_members_def json_ws_def)
next
  case (11 n k v kvs)
  then obtain f' where f: "f = Suc f'" by (cases f) auto
  have v: "json_ok v" and kvs: "\<forall>q \<in> set kvs. json_ok (snd q)" using 11(3) by simp_all
  let ?t = "dumps_members n kvs @ json_newline m @ CHR ''}'' # rest"
  have "scan_value f' (dumps n v @ ?t) = Inr (v, ?t)" using 11(1) [OF v, of f' ?t] 11(4) f by simp
  moreover have "tail_members f' ?t = Inr (kvs, rest)" using 11(2) [OF kvs, of f' m rest] 11(4) f by simp
  ultimately have it: "scan_members f (json_quote k @ '': '' @ dumps n v @ ?t) = Inr ((k, v) # kvs, rest)"
    unfolding f by (rule scan_member [OF v])
  have "skip_ws (json_newline n @ json_quote k @ '': '' @ dumps n v @ ?t) = json_quote k @ '': '' @ dumps n v @ ?t"
    by (simp add: json_quote_def json_ws_def)
  then show ?case using it by (simp add: tail_members_def json_ws_def)
qed


text \<open>What \<open>json.loads\<close> reads of what \<open>json.dumps\<close> wrote is the value.\<close>

lemma loads_dumps: "json_ok v \<Longrightarrow> json_loads (json_dumps v) = Inr v"
proof -
  assume ok: "json_ok v"
  then obtain c r where c: "dumps 0 v = c # r" "\<not> json_ws c" by (rule dumps_start)
  have "scan_value (Suc (2 * length (dumps 0 v))) (dumps 0 v @ []) = Inr (v, [])"
    by (rule scan_dumps(1) [OF ok]) simp_all
  moreover have "skip_ws (dumps 0 v) = dumps 0 v" using c by simp
  ultimately show ?thesis by (simp add: json_loads_def json_dumps_def)
qed

section \<open>The fuel is enough\<close>

lemma map_sum_Inr_iff: "map_sum id f m = Inr y \<longleftrightarrow> (\<exists>x. m = Inr x \<and> y = f x)"
  by (cases m) auto

lemma scan_string_shorter: "scan_string s = Inr (t, r) \<Longrightarrow> length r < length s"
proof (induction s arbitrary: t r rule: scan_string.induct)
  case (2 c s)
  then show ?case
    by (fastforce split: if_splits list.splits option.splits simp: map_sum_Inr_iff)
qed simp

lemma dropWhile_shorter: "length (dropWhile P s) \<le> length s"
  by (induction s) auto

lemma skip_ws_Cons: "skip_ws s = c # r \<Longrightarrow> length r < length s"
  using dropWhile_shorter [of json_ws s] by simp

lemma scan_digits_shorter: "scan_digits s = Some (ds, r) \<Longrightarrow> length r < length s"
  using dropWhile_shorter [of is_digit "tl s"]
  by (auto simp: scan_digits_def split: list.splits if_splits)

lemma scan_fraction_shorter: "length (snd (scan_fraction s)) \<le> length s"
  using dropWhile_shorter [of is_digit "tl s"]
  by (auto simp: scan_fraction_def split: list.splits)

lemma scan_exponent_shorter: "length (snd (scan_exponent s)) \<le> length s"
  using dropWhile_shorter [of is_digit "tl s"] dropWhile_shorter [of is_digit "tl (tl s)"]
  by (auto simp: scan_exponent_def split: list.splits)

lemma scan_number_shorter: "scan_number s = Inr (v, r) \<Longrightarrow> length r < length s"
proof -
  assume a: "scan_number s = Inr (v, r)"
  let ?s = "if s \<noteq> [] \<and> hd s = CHR ''-'' then tl s else s"
  obtain ds r0 where d: "scan_digits ?s = Some (ds, r0)"
    using a by (auto simp: scan_number_def Let_def split: option.splits)
  then have "r = snd (scan_exponent (snd (scan_fraction r0)))"
    using a by (auto simp: scan_number_def Let_def split: option.splits prod.splits if_splits)
  moreover have "length r0 < length ?s" using d by (rule scan_digits_shorter)
  then have "length r0 < length s" by (auto split: if_splits)
  ultimately show ?thesis
    using scan_exponent_shorter [of "snd (scan_fraction r0)"] scan_fraction_shorter [of r0] by simp
qed

lemma scan_literal_shorter: "scan_literal s = Some (v, r) \<Longrightarrow> length r < length s"
  by (cases s) (auto simp: scan_literal_def json_literals_def startswith_def split: if_splits)

lemma scan_shorter:
  shows "scan_value f s = Inr (v, r) \<Longrightarrow> length r < length s"
    and "scan_items f s = Inr (vs, r) \<Longrightarrow> length r < length s"
    and "scan_members f s = Inr (kvs, r) \<Longrightarrow> length r < length s"
proof (induction f s and f s and f s arbitrary: v r and vs r and kvs r rule: scan_value_scan_items_scan_members.induct)
  case (2 f s)
  then obtain c t where s: "s = c # t" by (cases s) auto
  consider "c = CHR 0x22" | "c = CHR ''{''" | "c = CHR ''[''"
    | "c \<noteq> CHR 0x22" "c \<noteq> CHR ''{''" "c \<noteq> CHR ''[''" by blast
  then show ?case
  proof cases
    case 1
    then show ?thesis using 2(3) scan_string_shorter by (fastforce simp: s map_sum_Inr_iff)
  next
    case 2
    show ?thesis
    proof (cases "skip_ws t")
      case (Cons d t1)
      then show ?thesis
        using "2.prems" "2.IH"(1) [OF s, of d t1] 2 skip_ws_Cons [OF Cons]
        by (fastforce simp: s map_sum_Inr_iff split: if_splits)
    qed (use 2 "2.prems" s in \<open>simp del: dropWhile_eq_Nil_conv\<close>)
  next
    case 3
    show ?thesis
    proof (cases "skip_ws t")
      case (Cons d t1)
      then show ?thesis
        using "2.prems" "2.IH"(2) [OF s, of d t1] 3 skip_ws_Cons [OF Cons]
        by (fastforce simp: s map_sum_Inr_iff split: if_splits)
    qed (use 3 "2.prems" s in \<open>simp del: dropWhile_eq_Nil_conv\<close>)
  next
    case 4
    then show ?thesis
      using "2.prems" scan_literal_shorter [of s] scan_number_shorter [of s]
      by (auto simp: s split: option.splits)
  qed
next
  case (4 f s)
  then obtain v r0 where v: "scan_value f s = Inr (v, r0)" by (auto simp: rbind_Inr_iff)
  then have l: "length r0 < length s" by (rule 4(1))
  show ?case
  proof (cases "skip_ws r0")
    case (Cons d r1)
    then show ?thesis
      using 4(2) [OF Cons] 4(3) v l skip_ws_Cons [OF Cons] dropWhile_shorter [of json_ws r1]
      by (fastforce simp: map_sum_Inr_iff split: if_splits)
  qed (use 4(3) v in \<open>simp del: dropWhile_eq_Nil_conv\<close>)
next
  case (6 f s)
  then obtain t where s: "s = CHR 0x22 # t" by (cases s) (auto split: if_splits)
  with 6(3) obtain k r0 where k: "scan_string t = Inr (k, r0)" by (auto simp: rbind_Inr_iff)
  then have l: "length r0 < length t" by (rule scan_string_shorter)
  show ?case
  proof (cases "skip_ws r0")
    case Nil
    with 6(3) s k show ?thesis by (simp del: dropWhile_eq_Nil_conv)
  next
    case (Cons c r1)
    with 6(3) s k have c: "c = CHR '':''" by (simp split: if_splits)
    with 6(3) s k Cons obtain v r2 where v: "scan_value f (skip_ws r1) = Inr (v, r2)"
      by (auto simp: rbind_Inr_iff)
    have "length r2 < length (skip_ws r1)"
      by (rule 6(1) [OF s _ Cons _ v]) (simp_all add: c)
    then have l2: "length r2 < length t"
      using l skip_ws_Cons [OF Cons] dropWhile_shorter [of json_ws r1] by linarith
    show ?thesis
    proof (cases "skip_ws r2")
      case Nil
      with 6(3) s k Cons c v show ?thesis by (simp del: dropWhile_eq_Nil_conv)
    next
      case (Cons d r3)
      have "length r < length (skip_ws r3)"
        if "scan_members f (skip_ws r3) = Inr (kv, r)" "d = CHR '',''" for kv
        by (rule 6(2) [OF s _ \<open>skip_ws r0 = c # r1\<close> _ Cons _ _ that(1)]) (simp_all add: c that(2))
      then show ?thesis
        using 6(3) s k \<open>skip_ws r0 = c # r1\<close> c v Cons l2 skip_ws_Cons [OF Cons] dropWhile_shorter [of json_ws r3]
        by (fastforce simp: map_sum_Inr_iff split: if_splits)
    qed
  qed
qed simp_all

lemma scan_fuel_step:
  assumes IH: "\<And>s. 2 * length s < f \<Longrightarrow> scan_value f s = scan_value g s"
      "\<And>s. Suc (2 * length s) < f \<Longrightarrow> scan_items f s = scan_items g s"
      "\<And>s. Suc (2 * length s) < f \<Longrightarrow> scan_members f s = scan_members g s"
  shows "2 * length s < Suc f \<Longrightarrow> scan_value (Suc f) s = scan_value (Suc g) s"
    and "Suc (2 * length s) < Suc f \<Longrightarrow> scan_items (Suc f) s = scan_items (Suc g) s"
    and "Suc (2 * length s) < Suc f \<Longrightarrow> scan_members (Suc f) s = scan_members (Suc g) s"
proof -
  assume l: "2 * length s < Suc f"
  have "scan_members f (d # t) = scan_members g (d # t) \<and> scan_items f (d # t) = scan_items g (d # t)"
    if "s = c # u" "skip_ws u = d # t" for c u d t
    using IH(2,3) [of "d # t"] dropWhile_shorter [of json_ws u] l that by simp
  then show "scan_value (Suc f) s = scan_value (Suc g) s"
    by (auto split: list.splits simp del: dropWhile_eq_Nil_conv dropWhile_eq_Cons_conv)
next
  assume l: "Suc (2 * length s) < Suc f"
  then have v: "scan_value f s = scan_value g s" by (intro IH(1)) simp
  have "scan_items f (skip_ws t) = scan_items g (skip_ws t)"
    if "scan_value g s = Inr (v, r)" "skip_ws r = d # t" for v r d t
    using IH(2) [of "skip_ws t"] dropWhile_shorter [of json_ws t] skip_ws_Cons [OF that(2)]
      scan_shorter(1) [OF that(1)] l by simp
  then show "scan_items (Suc f) s = scan_items (Suc g) s"
    using v by (cases "scan_value g s") (auto split: list.splits simp del: dropWhile_eq_Nil_conv dropWhile_eq_Cons_conv)
next
  assume l: "Suc (2 * length s) < Suc f"
  show "scan_members (Suc f) s = scan_members (Suc g) s"
  proof (cases s)
    case (Cons q t)
    have v: "scan_value f (skip_ws u) = scan_value g (skip_ws u)"
      if "scan_string t = Inr (k, r)" "skip_ws r = c # u" for k r c u
      using IH(1) [of "skip_ws u"] dropWhile_shorter [of json_ws u] skip_ws_Cons [OF that(2)]
        scan_string_shorter [OF that(1)] l Cons by simp
    have m: "scan_members f (skip_ws u) = scan_members g (skip_ws u)"
      if "scan_string t = Inr (k, r)" "skip_ws r = c # x" "scan_value g (skip_ws x) = Inr (v, y)"
        "skip_ws y = d # u" for k r c x v y d u
      using IH(3) [of "skip_ws u"] dropWhile_shorter [of json_ws u] skip_ws_Cons [OF that(4)]
        scan_shorter(1) [OF that(3)] dropWhile_shorter [of json_ws x] skip_ws_Cons [OF that(2)]
        scan_string_shorter [OF that(1)] l Cons by simp
    show ?thesis
    proof (cases "scan_string t")
      case (Inr p)
      then obtain k r where k: "scan_string t = Inr (k, r)" by (cases p) auto
      show ?thesis
      proof (cases "skip_ws r")
        case (Cons c x)
        show ?thesis
        proof (cases "scan_value g (skip_ws x)")
          case (Inr p2)
          then obtain w y where w: "scan_value g (skip_ws x) = Inr (w, y)" by (cases p2) auto
          show ?thesis
            using v [OF k Cons] m [OF k Cons w] k w Cons \<open>s = q # t\<close>
            by (cases "skip_ws y") (simp_all del: dropWhile_eq_Nil_conv)
        qed (use v [OF k Cons] k Cons \<open>s = q # t\<close> in simp)
      qed (use k \<open>s = q # t\<close> in \<open>simp del: dropWhile_eq_Nil_conv\<close>)
    qed (use \<open>s = q # t\<close> in simp)
  qed simp
qed

text \<open>More fuel changes nothing: running out of it is no outcome of \<open>json_loads\<close>.\<close>

lemma scan_fuel:
  "(\<forall>s. 2 * length s < f \<longrightarrow> scan_value (f + k) s = scan_value f s)
   \<and> (\<forall>s. Suc (2 * length s) < f \<longrightarrow> scan_items (f + k) s = scan_items f s)
   \<and> (\<forall>s. Suc (2 * length s) < f \<longrightarrow> scan_members (f + k) s = scan_members f s)"
proof (induction f)
  case (Suc f)
  then show ?case using scan_fuel_step [of f "f + k"] by simp
qed simp

end
