(* ===== verification/Registry.thy ===== *)
theory Registry
  imports Ranges PyJson
begin

text \<open>
  orchestrator/app/registry.py: the mother's in-memory host registry, the carving of layers off
  a donor, the hand-off and the reclaim of ranges. The state of \<open>SwarmRegistry\<close> is the record
  \<open>swarm_registry\<close>; the file it is persisted to is its field \<open>disk\<close>, the JSON value the text of the
  file stands for (\<open>file_text\<close> and \<open>read_file\<close> go from one to the other). An operation takes what it
  reads of the environment (clock, fresh uuid, fate of the write to disk) in an \<open>env\<close> record and
  returns its result or exception with the new registry, so that a partial update before a raise
  is kept. The HTTP call to a shard manager is the parameter \<open>svc\<close>, which acts on a world \<open>'w\<close>.
\<close>

section \<open>Addresses and accounts\<close>

definition private_prefixes :: "string list" where
  "private_prefixes =
     [''/ip4/127.'', ''/ip4/10.'', ''/ip4/192.168.'', ''/ip4/172.16.'', ''/ip4/172.17.'',
      ''/ip4/172.18.'', ''/ip4/172.19.'', ''/ip4/172.2'', ''/ip4/172.30.'', ''/ip4/172.31.'']"

definition is_public_multiaddr :: "string \<Rightarrow> bool" where
  "is_public_multiaddr addr =
     (if addr = [] then False
      else let lower = py_lower addr
           in if list_ex (\<lambda>private. contains_str private lower) private_prefixes then False
              else contains_str ''/p2p/'' lower)"

definition validate_hedera_account_id :: "string \<Rightarrow> string result" where
  "validate_hedera_account_id account_id =
     (let value = py_strip account_id
      in case py_split CHR ''.'' value of
           [p0, p1, p2] \<Rightarrow>
             if p0 \<noteq> ''0'' \<or> p1 \<noteq> ''0'' \<or> \<not> py_isdigit p2 then Inl ValueError else Inr value
         | _ \<Rightarrow> Inl ValueError)"

section \<open>State\<close>

datatype role = Mother | Contributor

datatype host_state = Pending | Online | Offline

record host_record =
  host_id :: string
  role :: role
  host_model :: string
  block_indices :: string
  layers_hosted :: int
  public_ip :: "string option"
  shard_manager_url :: string
  peer_multiaddr :: "string option"
  status :: host_state
  joined_at :: int
  last_heartbeat :: int
  pending_range :: "string option"
  donor_host_id :: "string option"
  donor_shrink_to :: "string option"
  hedera_account_id :: "string option"
  ens_name :: "string option"
  petals_running :: "bool option"

text \<open>The registry file: absent, not readable as JSON, or the value of its text.\<close>

datatype disk_file = NoFile | Unreadable | Saved json

record swarm_registry =
  reg_model :: string
  total_layers :: int
  hosts :: "(string, host_record) pydict"
  bootstrap_peers :: "string list"
  disk :: disk_file

text \<open>
  \<open>write_fault\<close> is \<open>None\<close> when a write to disk succeeds, otherwise what the failed write left.
\<close>

record env =
  now :: int
  uuid_hex :: string
  write_fault :: "disk_file option"

definition modify_host :: "string \<Rightarrow> (host_record \<Rightarrow> host_record) \<Rightarrow> swarm_registry \<Rightarrow> swarm_registry" where
  "modify_host hid f r =
     (case dget (hosts r) hid of
        None \<Rightarrow> r
      | Some h \<Rightarrow> r\<lparr>hosts := dset hid (f h) (hosts r)\<rparr>)"

section \<open>Construction and persistence\<close>

definition swarm_registry_init ::
  "env \<Rightarrow> string \<Rightarrow> int \<Rightarrow> string \<Rightarrow> string option \<Rightarrow> disk_file \<Rightarrow> swarm_registry result" where
  "swarm_registry_init ev model layers url account dsk =
     rbind (if truthy_str account then map_sum id Some (validate_hedera_account_id (the account))
            else Inr None)
       (\<lambda>mother_wallet. Inr
         \<lparr>reg_model = model, total_layers = layers,
          hosts = [(''mother'',
            \<lparr>host_id = ''mother'', role = Mother, host_model = model,
             block_indices = format_range 0 layers, layers_hosted = layers, public_ip = None,
             shard_manager_url = rstrip_slash url, peer_multiaddr = None, status = Online,
             joined_at = now ev, last_heartbeat = now ev, pending_range = None,
             donor_host_id = None, donor_shrink_to = None, hedera_account_id = mother_wallet,
             ens_name = None, petals_running = None\<rparr>)],
          bootstrap_peers = [], disk = dsk\<rparr>)"

text \<open>\<open>asdict\<close> of a host, field by field, and the value \<open>persist\<close> writes.\<close>

fun role_json :: "role \<Rightarrow> json" where
  "role_json Mother = JStr ''mother''"
| "role_json Contributor = JStr ''contributor''"

fun state_json :: "host_state \<Rightarrow> json" where
  "state_json Pending = JStr ''pending''"
| "state_json Online = JStr ''online''"
| "state_json Offline = JStr ''offline''"

fun opt_json :: "('a \<Rightarrow> json) \<Rightarrow> 'a option \<Rightarrow> json" where
  "opt_json f None = JNull"
| "opt_json f (Some x) = f x"

definition host_asdict :: "host_record \<Rightarrow> json" where
  "host_asdict h = JObj
     [(''host_id'', JStr (host_id h)), (''role'', role_json (role h)), (''model'', JStr (host_model h)),
      (''block_indices'', JStr (block_indices h)), (''layers_hosted'', JInt (layers_hosted h)),
      (''public_ip'', opt_json JStr (public_ip h)), (''shard_manager_url'', JStr (shard_manager_url h)),
      (''peer_multiaddr'', opt_json JStr (peer_multiaddr h)), (''status'', state_json (status h)),
      (''joined_at'', JInt (joined_at h)), (''last_heartbeat'', JInt (last_heartbeat h)),
      (''pending_range'', opt_json JStr (pending_range h)), (''donor_host_id'', opt_json JStr (donor_host_id h)),
      (''donor_shrink_to'', opt_json JStr (donor_shrink_to h)),
      (''hedera_account_id'', opt_json JStr (hedera_account_id h)), (''ens_name'', opt_json JStr (ens_name h)),
      (''petals_running'', opt_json JBool (petals_running h))]"

definition persist_payload :: "swarm_registry \<Rightarrow> json" where
  "persist_payload r = JObj
     [(''model'', JStr (reg_model r)), (''total_layers'', JInt (total_layers r)),
      (''bootstrap_peers'', JArr (map JStr (bootstrap_peers r))),
      (''hosts'', JObj (map (\<lambda>(hid, h). (hid, host_asdict h)) (hosts r)))]"

text \<open>The text \<open>persist\<close> leaves in the file, and what \<open>json.loads\<close> makes of a text.\<close>

definition file_text :: "disk_file \<Rightarrow> string option" where
  "file_text dsk = (case dsk of Saved v \<Rightarrow> Some (json_dumps v) | _ \<Rightarrow> None)"

definition read_file :: "string \<Rightarrow> disk_file result" where
  "read_file txt =
     (case json_loads txt of
        Inr v \<Rightarrow> Inr (Saved v)
      | Inl e \<Rightarrow> if e = OutsideModel then Inl OutsideModel else Inr Unreadable)"

definition persist :: "env \<Rightarrow> swarm_registry \<Rightarrow> swarm_registry" where
  "persist ev r =
     r\<lparr>disk := (case write_fault ev of None \<Rightarrow> Saved (persist_payload r) | Some f \<Rightarrow> f)\<rparr>"

text \<open>
  \<open>HostRecord(**host_data)\<close>: a value that is no object, an unknown key or a missing field without
  a default is a \<open>TypeError\<close>; the optional fields take their defaults. The class checks no types: a
  field of another JSON type than annotated is taken by the code, and is \<open>OutsideModel\<close> here.
\<close>

definition required_fields :: "string list" where
  "required_fields = [''host_id'', ''role'', ''model'', ''block_indices'', ''layers_hosted'', ''public_ip'',
     ''shard_manager_url'']"

definition optional_fields :: "string list" where
  "optional_fields = [''peer_multiaddr'', ''status'', ''joined_at'', ''last_heartbeat'', ''pending_range'',
     ''donor_host_id'', ''donor_shrink_to'', ''hedera_account_id'', ''ens_name'', ''petals_running'']"

definition kwargs_ok :: "json \<Rightarrow> bool" where
  "kwargs_ok j =
     (case j of
        JObj kvs \<Rightarrow> list_all (\<lambda>p. fst p \<in> set (required_fields @ optional_fields)) kvs
          \<and> list_all (\<lambda>k. k \<in> set (map fst kvs)) required_fields
      | _ \<Rightarrow> False)"

fun read_str :: "json \<Rightarrow> string result" where
  "read_str (JStr s) = Inr s"
| "read_str _ = Inl OutsideModel"

fun read_int :: "json \<Rightarrow> int result" where
  "read_int (JInt i) = Inr i"
| "read_int _ = Inl OutsideModel"

fun read_bool :: "json \<Rightarrow> bool result" where
  "read_bool (JBool b) = Inr b"
| "read_bool _ = Inl OutsideModel"

fun read_opt :: "(json \<Rightarrow> 'a result) \<Rightarrow> json \<Rightarrow> 'a option result" where
  "read_opt rd JNull = Inr None"
| "read_opt rd j = map_sum id Some (rd j)"

definition read_role :: "json \<Rightarrow> role result" where
  "read_role j = (if j = JStr ''mother'' then Inr Mother
     else if j = JStr ''contributor'' then Inr Contributor else Inl OutsideModel)"

definition read_state :: "json \<Rightarrow> host_state result" where
  "read_state j = (if j = JStr ''pending'' then Inr Pending else if j = JStr ''online'' then Inr Online
     else if j = JStr ''offline'' then Inr Offline else Inl OutsideModel)"

definition kw_needed :: "(json \<Rightarrow> 'a result) \<Rightarrow> (string \<times> json) list \<Rightarrow> string \<Rightarrow> 'a result" where
  "kw_needed rd kvs k = (case dget kvs k of None \<Rightarrow> Inl TypeError | Some j \<Rightarrow> rd j)"

definition kw_default :: "'a \<Rightarrow> (json \<Rightarrow> 'a result) \<Rightarrow> (string \<times> json) list \<Rightarrow> string \<Rightarrow> 'a result" where
  "kw_default d rd kvs k = (case dget kvs k of None \<Rightarrow> Inr d | Some j \<Rightarrow> rd j)"

definition host_of_kwargs :: "env \<Rightarrow> (string \<times> json) list \<Rightarrow> host_record result" where
  "host_of_kwargs ev kvs =
     rbind (kw_needed read_str kvs ''host_id'') (\<lambda>hid.
     rbind (kw_needed read_role kvs ''role'') (\<lambda>ro.
     rbind (kw_needed read_str kvs ''model'') (\<lambda>model.
     rbind (kw_needed read_str kvs ''block_indices'') (\<lambda>blocks.
     rbind (kw_needed read_int kvs ''layers_hosted'') (\<lambda>layers.
     rbind (kw_needed (read_opt read_str) kvs ''public_ip'') (\<lambda>ip.
     rbind (kw_needed read_str kvs ''shard_manager_url'') (\<lambda>url.
     rbind (kw_default None (read_opt read_str) kvs ''peer_multiaddr'') (\<lambda>peer.
     rbind (kw_default Pending read_state kvs ''status'') (\<lambda>st.
     rbind (kw_default (now ev) read_int kvs ''joined_at'') (\<lambda>joined.
     rbind (kw_default (now ev) read_int kvs ''last_heartbeat'') (\<lambda>heartbeat.
     rbind (kw_default None (read_opt read_str) kvs ''pending_range'') (\<lambda>pending.
     rbind (kw_default None (read_opt read_str) kvs ''donor_host_id'') (\<lambda>donor.
     rbind (kw_default None (read_opt read_str) kvs ''donor_shrink_to'') (\<lambda>shrink.
     rbind (kw_default None (read_opt read_str) kvs ''hedera_account_id'') (\<lambda>account.
     rbind (kw_default None (read_opt read_str) kvs ''ens_name'') (\<lambda>ens.
     rbind (kw_default None (read_opt read_bool) kvs ''petals_running'') (\<lambda>running. Inr
       \<lparr>host_id = hid, role = ro, host_model = model, block_indices = blocks, layers_hosted = layers,
        public_ip = ip, shard_manager_url = url, peer_multiaddr = peer, status = st, joined_at = joined,
        last_heartbeat = heartbeat, pending_range = pending, donor_host_id = donor,
        donor_shrink_to = shrink, hedera_account_id = account, ens_name = ens,
        petals_running = running\<rparr>)))))))))))))))))"

fun host_of_json :: "env \<Rightarrow> json \<Rightarrow> host_record result" where
  "host_of_json ev (JObj kvs) = (if kwargs_ok (JObj kvs) then host_of_kwargs ev kvs else Inl TypeError)"
| "host_of_json ev _ = Inl TypeError"

text \<open>
  What \<open>load_persisted\<close> reads: \<open>data.get("hosts", {}).items()\<close> and
  \<open>list(data.get("bootstrap_peers", []))\<close>. A list made of a string has its characters, one
  made of an object its keys.
\<close>

definition json_get :: "json \<Rightarrow> string \<Rightarrow> json \<Rightarrow> json result" where
  "json_get data k d =
     (case data of JObj kvs \<Rightarrow> Inr (case dget kvs k of None \<Rightarrow> d | Some v \<Rightarrow> v) | _ \<Rightarrow> Inl AttributeError)"

fun json_items :: "json \<Rightarrow> (string \<times> json) list result" where
  "json_items (JObj kvs) = Inr kvs"
| "json_items _ = Inl AttributeError"

fun json_list :: "json \<Rightarrow> json list result" where
  "json_list (JArr xs) = Inr xs"
| "json_list (JObj kvs) = Inr (map (\<lambda>p. JStr (fst p)) kvs)"
| "json_list (JStr s) = Inr (map (\<lambda>c. JStr [c]) s)"
| "json_list _ = Inl TypeError"

definition raw_hosts :: "json \<Rightarrow> (string \<times> json) list result" where
  "raw_hosts data =
     rbind (json_get data ''hosts'' (JObj [])) (\<lambda>j. rbind (json_items j) (\<lambda>kvs.
       if list_all (\<lambda>p. kwargs_ok (snd p)) kvs then Inr kvs else Inl TypeError))"

definition raw_peers :: "json \<Rightarrow> json list result" where
  "raw_peers data = rbind (json_get data ''bootstrap_peers'' (JArr [])) json_list"

definition hosts_of :: "env \<Rightarrow> (string \<times> json) list \<Rightarrow> (string, host_record) pydict result" where
  "hosts_of ev = rmap (\<lambda>(hid, j). map_sum id (Pair hid) (host_of_json ev j))"

definition file_hosts :: "env \<Rightarrow> json \<Rightarrow> (string, host_record) pydict result" where
  "file_hosts ev data = rbind (raw_hosts data) (hosts_of ev)"

definition load_persisted ::
  "env \<Rightarrow> disk_file \<Rightarrow> string \<Rightarrow> int \<Rightarrow> string \<Rightarrow> string option \<Rightarrow> swarm_registry result" where
  "load_persisted ev dsk model layers url account =
     (case dsk of
        Saved data \<Rightarrow>
          rbind (swarm_registry_init ev model layers url account dsk) (\<lambda>reg.
          rbind (raw_hosts data) (\<lambda>kvs.
          rbind (raw_peers data) (\<lambda>ps.
          rbind (hosts_of ev kvs) (\<lambda>hs.
          rbind (rmap read_str ps) (\<lambda>peers. Inr
            (modify_host ''mother''
               (\<lambda>m. m\<lparr>shard_manager_url := rstrip_slash url, role := Mother, status := Online\<rparr>)
               (reg\<lparr>hosts := hs, bootstrap_peers := peers\<rparr>)))))))
      | _ \<Rightarrow> Inl ValueError)"

definition init_registry ::
  "env \<Rightarrow> disk_file \<Rightarrow> string \<Rightarrow> int \<Rightarrow> string \<Rightarrow> string option \<Rightarrow> swarm_registry result" where
  "init_registry ev dsk model layers url account =
     (let fresh = rbind (swarm_registry_init ev model layers url account dsk)
                        (\<lambda>r. Inr (persist ev r))
      in if dsk \<noteq> NoFile
         then (case load_persisted ev dsk model layers url account of
                 Inr r \<Rightarrow> Inr r
               | Inl e \<Rightarrow> if e = OutsideModel then Inl OutsideModel else fresh)
         else fresh)"

section \<open>Small operations\<close>

definition sync_mother_from_shard :: "string \<Rightarrow> swarm_registry \<Rightarrow> unit result \<times> swarm_registry" where
  "sync_mother_from_shard blocks r =
     (case dget (hosts r) ''mother'' of
        None \<Rightarrow> (Inr (), r)
      | Some mother \<Rightarrow>
          (case parse_range blocks of
             Inl e \<Rightarrow> (Inl e, r)
           | Inr (s, e) \<Rightarrow>
               (Inr (), modify_host ''mother''
                  (\<lambda>m. m\<lparr>block_indices := blocks, layers_hosted := e - s\<rparr>) r)))"

definition set_bootstrap_peers :: "string list \<Rightarrow> swarm_registry \<Rightarrow> swarm_registry" where
  "set_bootstrap_peers peers r = r\<lparr>bootstrap_peers := peers\<rparr>"

definition list_hosts :: "swarm_registry \<Rightarrow> host_record list" where
  "list_hosts r = dvalues (hosts r)"

definition online_payout_hosts :: "swarm_registry \<Rightarrow> host_record list" where
  "online_payout_hosts r =
     filter (\<lambda>h. status h = Online \<and> truthy_str (hedera_account_id h) \<and> layers_hosted h > 0)
       (list_hosts r)"

definition largest_donor :: "swarm_registry \<Rightarrow> host_record option" where
  "largest_donor r = py_max_by layers_hosted (filter (\<lambda>h. status h = Online) (list_hosts r))"

fun effective_end :: "host_record \<Rightarrow> host_record list \<Rightarrow> int \<Rightarrow> int result" where
  "effective_end donor [] d_end = Inr d_end"
| "effective_end donor (h # hs) d_end =
     (if status h = Pending \<and> donor_host_id h = Some (host_id donor)
      then rbind (parse_range (block_indices h))
             (\<lambda>(p_start, _). effective_end donor hs (if p_start < d_end then p_start else d_end))
      else effective_end donor hs d_end)"

definition effective_donor_range :: "swarm_registry \<Rightarrow> host_record \<Rightarrow> range result" where
  "effective_donor_range r donor =
     rbind (parse_range (block_indices donor))
       (\<lambda>(d_start, d_end). rbind (effective_end donor (list_hosts r) d_end)
          (\<lambda>d_end'. Inr (d_start, d_end')))"

definition max_carveable :: "swarm_registry \<Rightarrow> int result" where
  "max_carveable r =
     (case largest_donor r of
        None \<Rightarrow> Inr 0
      | Some donor \<Rightarrow> rbind (effective_donor_range r donor) (\<lambda>(s, e). Inr (max 0 ((e - s) - 1))))"

definition get_host :: "string \<Rightarrow> swarm_registry \<Rightarrow> host_record result" where
  "get_host hid r = (case dget (hosts r) hid of None \<Rightarrow> Inl KeyError | Some h \<Rightarrow> Inr h)"

definition set_ens_name ::
  "env \<Rightarrow> string \<Rightarrow> string \<Rightarrow> swarm_registry \<Rightarrow> host_record result \<times> swarm_registry" where
  "set_ens_name ev hid name r =
     (case dget (hosts r) hid of
        None \<Rightarrow> (Inl KeyError, r)
      | Some h \<Rightarrow>
          (Inr (h\<lparr>ens_name := Some name\<rparr>),
           persist ev (modify_host hid (\<lambda>h. h\<lparr>ens_name := Some name\<rparr>) r)))"

definition heartbeat ::
  "env \<Rightarrow> string \<Rightarrow> swarm_registry \<Rightarrow> host_record result \<times> swarm_registry" where
  "heartbeat ev hid r =
     (case dget (hosts r) hid of
        None \<Rightarrow> (Inl KeyError, r)
      | Some h \<Rightarrow>
          (let h' = h\<lparr>last_heartbeat := now ev,
                      status := (if status h = Offline then Online else status h)\<rparr>
           in (Inr h', modify_host hid (\<lambda>_. h') r)))"

section \<open>join\<close>

record join_response =
  j_host_id :: string
  j_model :: string
  j_block_indices :: string
  j_layers_hosted :: int
  j_initial_peers :: "string list"
  j_donor_host_id :: string
  j_max_layers_available :: int
  j_total_layers :: int
  j_hedera_account_id :: string

definition join_host_id :: "env \<Rightarrow> string" where
  "join_host_id ev = ''host-'' @ take 12 (uuid_hex ev)"

definition join_record ::
  "env \<Rightarrow> swarm_registry \<Rightarrow> host_record \<Rightarrow> range \<Rightarrow> int \<Rightarrow> string \<Rightarrow> string \<Rightarrow> string \<Rightarrow> host_record" where
  "join_record ev r donor d layers ip url wallet =
     (case d of (d_start, d_end) \<Rightarrow>
      let join_start = d_end - layers;
          shrink_to = format_range d_start join_start;
          assigned = format_range join_start d_end
      in \<lparr>host_id = join_host_id ev, role = Contributor, host_model = reg_model r,
          block_indices = assigned, layers_hosted = layers, public_ip = Some ip,
          shard_manager_url = rstrip_slash url, peer_multiaddr = None,
          status = Pending, joined_at = now ev, last_heartbeat = now ev,
          pending_range = Some assigned, donor_host_id = Some (host_id donor),
          donor_shrink_to = Some shrink_to, hedera_account_id = Some wallet,
          ens_name = None, petals_running = None\<rparr>)"

definition registry_join ::
  "env \<Rightarrow> int \<Rightarrow> string \<Rightarrow> string \<Rightarrow> string \<Rightarrow> swarm_registry
     \<Rightarrow> join_response result \<times> swarm_registry" where
  "registry_join ev layers ip url account r =
     (if layers < 1 then (Inl ValueError, r)
      else if layers \<ge> total_layers r then (Inl ValueError, r)
      else case validate_hedera_account_id account of Inl e \<Rightarrow> (Inl e, r) | Inr wallet \<Rightarrow>
      if filter (\<lambda>h. status h = Pending) (list_hosts r) \<noteq> [] then (Inl RuntimeError, r)
      else case largest_donor r of None \<Rightarrow> (Inl RuntimeError, r) | Some donor \<Rightarrow>
      case effective_donor_range r donor of Inl e \<Rightarrow> (Inl e, r) | Inr (d_start, d_end) \<Rightarrow>
      let max_take = (d_end - d_start) - 1
      in if layers > max_take then (Inl ValueError, r)
      else let rec = join_record ev r donor (d_start, d_end) layers ip url wallet
           in (Inr \<lparr>j_host_id = host_id rec, j_model = reg_model r,
                    j_block_indices = block_indices rec, j_layers_hosted = layers,
                    j_initial_peers = bootstrap_peers r, j_donor_host_id = host_id donor,
                    j_max_layers_available = max_take, j_total_layers = total_layers r,
                    j_hedera_account_id = wallet\<rparr>,
               persist ev (r\<lparr>hosts := dset (host_id rec) rec (hosts r)\<rparr>)))"

section \<open>The call to a shard manager\<close>

text \<open>
  \<open>svc w url body\<close> is the POST of the body (the block range and, when the list is not empty,
  the initial peers) to \<open>url\<close>: the new world and whether a 2xx response came back in time.
\<close>

type_synonym 'w reload_svc = "'w \<Rightarrow> string \<Rightarrow> string \<times> string list option \<Rightarrow> 'w \<times> bool"

definition reload_shard_manager ::
  "'w reload_svc \<Rightarrow> string \<Rightarrow> string \<Rightarrow> string list option \<Rightarrow> 'w \<Rightarrow> unit result \<times> 'w" where
  "reload_shard_manager svc base_url blocks peers w =
     (let url = rstrip_slash base_url @ ''/reload'';
          body = (blocks, case peers of Some (p # ps) \<Rightarrow> Some (p # ps) | _ \<Rightarrow> None);
          (w', ok) = svc w url body
      in (if ok then Inr () else Inl HTTPError, w'))"

section \<open>mark\_ready\<close>

text \<open>
  The method holds the lock, releases it for the HTTP call and takes it again, so it is two
  steps: \<open>mark_ready_prepare\<close> up to the call and \<open>mark_ready_commit\<close> after it.
\<close>

fun check_pending_conflict ::
  "string \<Rightarrow> string \<Rightarrow> range \<Rightarrow> host_record list \<Rightarrow> unit result" where
  "check_pending_conflict hid donor_id shrink [] = Inr ()"
| "check_pending_conflict hid donor_id (s, e) (other # hs) =
     (if host_id other = hid \<or> status other \<noteq> Pending \<or> donor_host_id other \<noteq> Some donor_id
      then check_pending_conflict hid donor_id (s, e) hs
      else rbind (parse_range (block_indices other))
             (\<lambda>(p_start, p_end).
                if \<not> (s \<le> p_start \<and> p_end \<le> e) then Inl RuntimeError
                else check_pending_conflict hid donor_id (s, e) hs))"

record ready_plan =
  plan_donor_id :: string
  plan_donor_url :: string
  plan_shrink_to :: string
  plan_assigned :: string

definition mark_ready_prepare ::
  "string \<Rightarrow> string option \<Rightarrow> swarm_registry \<Rightarrow> (host_record + ready_plan) result \<times> swarm_registry" where
  "mark_ready_prepare hid peer r =
     (case dget (hosts r) hid of None \<Rightarrow> (Inl KeyError, r) | Some host \<Rightarrow>
      if status host = Online then (Inr (Inl host), r)
      else case (if truthy_str (donor_host_id host) then dget (hosts r) (the (donor_host_id host))
                 else None) of
        None \<Rightarrow> (Inl RuntimeError, r)
      | Some donor \<Rightarrow>
          if \<not> truthy_str (donor_shrink_to host) then (Inl RuntimeError, r)
          else let donor_id = the (donor_host_id host); shrink_to = the (donor_shrink_to host)
          in case rbind (parse_range shrink_to)
                    (\<lambda>shrink. check_pending_conflict hid donor_id shrink (list_hosts r)) of
               Inl e \<Rightarrow> (Inl e, r)
             | Inr _ \<Rightarrow>
                 (Inr (Inr \<lparr>plan_donor_id = donor_id, plan_donor_url = shard_manager_url donor,
                            plan_shrink_to = shrink_to,
                            plan_assigned = str_or (pending_range host) (block_indices host)\<rparr>),
                  if truthy_str peer then modify_host hid (\<lambda>h. h\<lparr>peer_multiaddr := peer\<rparr>) r
                  else r))"

definition mark_ready_commit ::
  "env \<Rightarrow> string \<Rightarrow> string option \<Rightarrow> ready_plan \<Rightarrow> swarm_registry
     \<Rightarrow> host_record result \<times> swarm_registry" where
  "mark_ready_commit ev hid peer plan r =
     (case dget (hosts r) hid of None \<Rightarrow> (Inl KeyError, r) | Some _ \<Rightarrow>
      case dget (hosts r) (plan_donor_id plan) of None \<Rightarrow> (Inl KeyError, r) | Some _ \<Rightarrow>
      case parse_range (plan_shrink_to plan) of Inl e \<Rightarrow> (Inl e, r) | Inr (d_start, d_end) \<Rightarrow>
      let r1 = modify_host (plan_donor_id plan)
                 (\<lambda>d. d\<lparr>block_indices := plan_shrink_to plan, layers_hosted := d_end - d_start\<rparr>) r;
          r2 = modify_host hid (\<lambda>h. h\<lparr>block_indices := plan_assigned plan\<rparr>) r1
      in case parse_range (plan_assigned plan) of Inl e \<Rightarrow> (Inl e, r2) | Inr (a, b) \<Rightarrow>
      let r3 = modify_host hid
                 (\<lambda>h. h\<lparr>layers_hosted := b - a, status := Online, last_heartbeat := now ev,
                       pending_range := None, donor_shrink_to := None\<rparr>) r2;
          r4 = (if truthy_str peer \<and> is_public_multiaddr (the peer)
                   \<and> the peer \<notin> set (bootstrap_peers r3)
                then r3\<lparr>bootstrap_peers := bootstrap_peers r3 @ [the peer]\<rparr> else r3)
      in (Inr (the (dget (hosts r4) hid)), persist ev r4))"

definition mark_ready ::
  "'w reload_svc \<Rightarrow> env \<Rightarrow> string \<Rightarrow> string option \<Rightarrow> swarm_registry \<Rightarrow> 'w
     \<Rightarrow> host_record result \<times> swarm_registry \<times> 'w" where
  "mark_ready svc ev hid peer r w =
     (case mark_ready_prepare hid peer r of
        (Inl e, r1) \<Rightarrow> (Inl e, r1, w)
      | (Inr (Inl host), r1) \<Rightarrow> (Inr host, r1, w)
      | (Inr (Inr plan), r1) \<Rightarrow>
          (case reload_shard_manager svc (plan_donor_url plan) (plan_shrink_to plan) None w of
             (Inl e, w') \<Rightarrow> (Inl e, r1, w')
           | (Inr _, w') \<Rightarrow>
               (case mark_ready_commit ev hid peer plan r1 of (res, r2) \<Rightarrow> (res, r2, w'))))"

section \<open>Reclaiming a range\<close>

fun range_covered_loop :: "string option \<Rightarrow> range \<Rightarrow> host_record list \<Rightarrow> bool result" where
  "range_covered_loop skip p [] = Inr False"
| "range_covered_loop skip (p_start, p_end) (h # hs) =
     (if Some (host_id h) = skip \<or> status h \<noteq> Online
      then range_covered_loop skip (p_start, p_end) hs
      else rbind (parse_range (block_indices h))
             (\<lambda>(a, b). if a \<le> p_start \<and> p_end \<le> b then Inr True
                       else range_covered_loop skip (p_start, p_end) hs))"

definition range_covered_by_online :: "string \<Rightarrow> string option \<Rightarrow> swarm_registry \<Rightarrow> bool result" where
  "range_covered_by_online blocks skip r =
     rbind (parse_range blocks) (\<lambda>p. range_covered_loop skip p (list_hosts r))"

definition mother_locked :: "swarm_registry \<Rightarrow> host_record option" where
  "mother_locked r =
     (case dget (hosts r) ''mother'' of
        Some m \<Rightarrow> if status m = Online then Some m else None
      | None \<Rightarrow> None)"

fun adjacent_loop :: "range \<Rightarrow> host_record list \<Rightarrow> host_record option result" where
  "adjacent_loop q [] = Inr None"
| "adjacent_loop (r_start, r_end) (h # hs) =
     (if status h \<noteq> Online then adjacent_loop (r_start, r_end) hs
      else rbind (parse_range (block_indices h))
             (\<lambda>(h_start, h_end). if h_end = r_start \<or> r_end = h_start then Inr (Some h)
                                else adjacent_loop (r_start, r_end) hs))"

definition find_adjacent_donor :: "range \<Rightarrow> swarm_registry \<Rightarrow> host_record option result" where
  "find_adjacent_donor q r = adjacent_loop q (list_hosts r)"

definition can_merge_ranges :: "host_record \<Rightarrow> range \<Rightarrow> swarm_registry \<Rightarrow> string option result" where
  "can_merge_ranges donor q r =
     (case q of (r_start, r_end) \<Rightarrow>
      rbind (parse_range (block_indices donor)) (\<lambda>(d_start, d_end).
        if d_end = r_start then Inr (Some (format_range d_start r_end))
        else if r_end = d_start then Inr (Some (format_range r_start d_end))
        else rbind (rmap (\<lambda>h. parse_range (block_indices h))
                     (filter (\<lambda>h. \<not> (host_id h = host_id donor \<or> status h \<noteq> Online)) (list_hosts r)))
          (\<lambda>occupied.
             let new_start = min d_start r_start; new_end = max d_end r_end
             in if list_ex (\<lambda>(a, b). \<not> (new_end \<le> a \<or> new_start \<ge> b)) occupied then Inr None
                else Inr (Some (format_range new_start new_end)))))"

fun choose_absorber ::
  "range \<Rightarrow> swarm_registry \<Rightarrow> host_record list \<Rightarrow> (host_record \<times> string) option
     \<Rightarrow> (host_record \<times> string) option result" where
  "choose_absorber q r [] chosen = Inr chosen"
| "choose_absorber q r (donor # ds) chosen =
     rbind (can_merge_ranges donor q r) (\<lambda>merged.
       if truthy_str merged
       then (if role donor = Mother then Inr (Some (donor, the merged))
             else choose_absorber q r ds (Some (donor, the merged)))
       else choose_absorber q r ds chosen)"

definition reclaim_candidates :: "range \<Rightarrow> swarm_registry \<Rightarrow> host_record list result" where
  "reclaim_candidates q r =
     rbind (find_adjacent_donor q r) (\<lambda>adjacent.
       let c0 = (case mother_locked r of Some m \<Rightarrow> [m] | None \<Rightarrow> []);
           c1 = (case adjacent of Some a \<Rightarrow> if a \<in> set c0 then c0 else c0 @ [a] | None \<Rightarrow> c0);
           c2 = (case largest_donor r of
                   Some l \<Rightarrow> if l \<in> set c1 then c1 else c1 @ [l]
                 | None \<Rightarrow> c1)
       in Inr c2)"

definition reclaim_choice :: "string \<Rightarrow> swarm_registry \<Rightarrow> (host_record \<times> string) option result" where
  "reclaim_choice blocks r =
     rbind (parse_range blocks) (\<lambda>q.
       rbind (reclaim_candidates q r) (\<lambda>cands. choose_absorber q r cands None))"

definition reclaim_commit :: "string \<Rightarrow> string \<Rightarrow> swarm_registry \<Rightarrow> unit result \<times> swarm_registry" where
  "reclaim_commit donor_id new_range r =
     (case dget (hosts r) donor_id of None \<Rightarrow> (Inl KeyError, r) | Some _ \<Rightarrow>
      case parse_range new_range of Inl e \<Rightarrow> (Inl e, r) | Inr (s, e) \<Rightarrow>
        (Inr (), modify_host donor_id
           (\<lambda>d. d\<lparr>block_indices := new_range, layers_hosted := e - s\<rparr>) r))"

definition reclaim_range ::
  "'w reload_svc \<Rightarrow> string \<Rightarrow> swarm_registry \<Rightarrow> 'w \<Rightarrow> unit result \<times> swarm_registry \<times> 'w" where
  "reclaim_range svc blocks r w =
     (case reclaim_choice blocks r of
        Inl e \<Rightarrow> (Inl e, r, w)
      | Inr None \<Rightarrow> (Inr (), r, w)
      | Inr (Some (chosen, new_range)) \<Rightarrow>
          (case reload_shard_manager svc (shard_manager_url chosen) new_range None w of
             (Inl e, w') \<Rightarrow> (Inl e, r, w')
           | (Inr _, w') \<Rightarrow>
               (case reclaim_commit (host_id chosen) new_range r of (res, r') \<Rightarrow> (res, r', w'))))"

section \<open>leave and the reapers\<close>

definition leave_range :: "host_record \<Rightarrow> swarm_registry \<Rightarrow> string option result" where
  "leave_range host r =
     (if status host = Online then Inr (Some (block_indices host))
      else if status host = Pending
        then rbind (range_covered_by_online (block_indices host) (Some (host_id host)) r)
               (\<lambda>cov. Inr (if \<not> cov then Some (block_indices host) else None))
      else Inr None)"

definition leave ::
  "'w reload_svc \<Rightarrow> env \<Rightarrow> string \<Rightarrow> swarm_registry \<Rightarrow> 'w \<Rightarrow> unit result \<times> swarm_registry \<times> 'w" where
  "leave svc ev hid r w =
     (case dget (hosts r) hid of None \<Rightarrow> (Inl KeyError, r, w) | Some host \<Rightarrow>
      if role host = Mother then (Inl ValueError, r, w)
      else case leave_range host r of Inl e \<Rightarrow> (Inl e, r, w) | Inr range_to_reclaim \<Rightarrow>
      let r1 = r\<lparr>hosts := ddel hid (hosts r)\<rparr>
      in if truthy_str range_to_reclaim
         then (case reclaim_range svc (the range_to_reclaim) r1 w of
                 (Inl e, r2, w') \<Rightarrow> (Inl e, r2, w')
               | (Inr _, r2, w') \<Rightarrow> (Inr (), persist ev r2, w'))
         else (Inr (), persist ev r1, w))"

fun leave_all ::
  "'w reload_svc \<Rightarrow> env \<Rightarrow> string list \<Rightarrow> swarm_registry \<Rightarrow> 'w
     \<Rightarrow> string list \<times> swarm_registry \<times> 'w" where
  "leave_all svc ev [] r w = ([], r, w)"
| "leave_all svc ev (hid # hids) r w =
     (case leave svc ev hid r w of
        (res, r1, w1) \<Rightarrow>
          (case leave_all svc ev hids r1 w1 of
             (done_ids, r2, w2) \<Rightarrow>
               ((case res of Inr _ \<Rightarrow> hid # done_ids | Inl _ \<Rightarrow> done_ids), r2, w2)))"

definition reap_stale ::
  "'w reload_svc \<Rightarrow> env \<Rightarrow> int \<Rightarrow> swarm_registry \<Rightarrow> 'w \<Rightarrow> string list \<times> swarm_registry \<times> 'w" where
  "reap_stale svc ev ttl r w =
     (let stale = map host_id (filter (\<lambda>h. role h \<noteq> Mother \<and> status h = Online
                                          \<and> now ev - last_heartbeat h > ttl) (list_hosts r))
      in case leave_all svc ev stale r w of
           (reclaimed, r', w') \<Rightarrow>
             (reclaimed, (if reclaimed \<noteq> [] then persist ev r' else r'), w'))"

definition reap_stale_pending ::
  "'w reload_svc \<Rightarrow> env \<Rightarrow> int \<Rightarrow> swarm_registry \<Rightarrow> 'w \<Rightarrow> string list \<times> swarm_registry \<times> 'w" where
  "reap_stale_pending svc ev ttl r w =
     (let stale = map host_id (filter (\<lambda>h. role h \<noteq> Mother \<and> status h = Pending
                                          \<and> now ev - joined_at h > ttl) (list_hosts r))
      in case leave_all svc ev stale r w of
           (removed, r', w') \<Rightarrow>
             (removed, (if removed \<noteq> [] then persist ev r' else r'), w'))"

end
