(* ===== verification/RegistryInv.thy ===== *)
theory RegistryInv
  imports Registry
begin

text \<open>
  The invariants of the registry. \<open>reg_wf\<close> is the type invariant: keys agree with records, every
  block range parses and agrees with \<open>layers_hosted\<close>, the mother is there and online, and at most
  one join is pending. Every operation keeps it, whatever its arguments and whatever the shard
  managers answer. \<open>reg_cover\<close> adds that the online ranges cover the layers of the model exactly
  and that a pending join is a reservation at the high end of its donor.
\<close>

section \<open>The type invariant\<close>

definition parses :: "string \<Rightarrow> bool" where
  "parses s \<longleftrightarrow> (\<exists>p. parse_range s = Inr p)"

definition host_span :: "host_record \<Rightarrow> range" where
  "host_span h = (case parse_range (block_indices h) of Inr p \<Rightarrow> p | Inl _ \<Rightarrow> (0, 0))"

definition host_ok :: "host_record \<Rightarrow> bool" where
  "host_ok h \<longleftrightarrow> parses (block_indices h) \<and> layers_hosted h = snd (host_span h) - fst (host_span h)
     \<and> (\<forall>s. pending_range h = Some s \<longrightarrow> parses s)"

definition is_pending :: "(string, host_record) pydict \<Rightarrow> string \<Rightarrow> bool" where
  "is_pending d k \<longleftrightarrow> (case dget d k of Some h \<Rightarrow> status h = Pending | None \<Rightarrow> False)"

definition hosts_wf :: "(string, host_record) pydict \<Rightarrow> bool" where
  "hosts_wf d \<longleftrightarrow> dict_ok d
     \<and> (\<forall>k h. dget d k = Some h \<longrightarrow>
          host_id h = k \<and> k \<noteq> [] \<and> host_ok h \<and> (role h = Mother \<longleftrightarrow> k = ''mother''))
     \<and> (\<exists>m. dget d ''mother'' = Some m \<and> status m = Online)
     \<and> (\<forall>k k'. is_pending d k \<longrightarrow> is_pending d k' \<longrightarrow> k = k')"

definition reg_wf :: "swarm_registry \<Rightarrow> bool" where
  "reg_wf r \<longleftrightarrow> hosts_wf (hosts r)"

lemma parses_format [simp]: "parses (format_range s e)"
  by (simp add: parses_def)

lemma parsesD: "parses s \<Longrightarrow> \<exists>a b. parse_range s = Inr (a, b)"
  by (auto simp: parses_def)

lemma host_span_eq: "parse_range (block_indices h) = Inr p \<Longrightarrow> host_span h = p"
  by (simp add: host_span_def)

lemma host_okI:
  "parse_range (block_indices h) = Inr (a, b) \<Longrightarrow> layers_hosted h = b - a \<Longrightarrow>
   (\<forall>s. pending_range h = Some s \<longrightarrow> parses s) \<Longrightarrow> host_ok h"
  by (simp add: host_ok_def parses_def host_span_def)

lemma host_ok_span: "host_ok h \<Longrightarrow> parse_range (block_indices h) = Inr (host_span h)"
  by (auto simp: host_ok_def parses_def host_span_def)

lemma hosts_wf_dict: "hosts_wf d \<Longrightarrow> dict_ok d"
  by (simp add: hosts_wf_def)

lemma hosts_wf_id: "hosts_wf d \<Longrightarrow> dget d k = Some h \<Longrightarrow> host_id h = k"
  by (simp add: hosts_wf_def)

lemma hosts_wf_key: "hosts_wf d \<Longrightarrow> dget d k = Some h \<Longrightarrow> k \<noteq> []"
  by (simp add: hosts_wf_def)

lemma hosts_wf_ok: "hosts_wf d \<Longrightarrow> dget d k = Some h \<Longrightarrow> host_ok h"
  by (simp add: hosts_wf_def)

lemma hosts_wf_role: "hosts_wf d \<Longrightarrow> dget d k = Some h \<Longrightarrow> role h = Mother \<longleftrightarrow> k = ''mother''"
  by (simp add: hosts_wf_def)

lemma hosts_wf_mother: "hosts_wf d \<Longrightarrow> \<exists>m. dget d ''mother'' = Some m \<and> status m = Online"
  by (simp add: hosts_wf_def)

lemma hosts_wf_pending: "hosts_wf d \<Longrightarrow> is_pending d k \<Longrightarrow> is_pending d k' \<Longrightarrow> k = k'"
  by (simp add: hosts_wf_def)

lemma is_pending_Some: "dget d k = Some h \<Longrightarrow> is_pending d k \<longleftrightarrow> status h = Pending"
  by (simp add: is_pending_def)

lemma hosts_wf_values: "hosts_wf d \<Longrightarrow> h \<in> set (dvalues d) \<longleftrightarrow> dget d (host_id h) = Some h"
  by (metis dvalues_iff hosts_wf_dict hosts_wf_id)

text \<open>One host replaced by a record that keeps its identity and makes nothing new pending.\<close>

lemma hosts_wf_dset:
  assumes wf: "hosts_wf d" and k: "dget d k = Some h"
    and v: "host_id v = k" "role v = role h" "host_ok v"
    and st: "k = ''mother'' \<Longrightarrow> status v = Online" "status v = Pending \<Longrightarrow> status h = Pending"
  shows "hosts_wf (dset k v d)"
proof -
  let ?d = "(dget d)(k \<mapsto> v)"
  have kv: "k \<noteq> []" "role v = Mother \<longleftrightarrow> k = ''mother''"
    using wf k v(2) by (simp_all add: hosts_wf_def)
  have "host_id h1 = k1 \<and> k1 \<noteq> [] \<and> host_ok h1 \<and> (role h1 = Mother \<longleftrightarrow> k1 = ''mother'')"
    if "?d k1 = Some h1" for k1 h1
    using that wf v kv by (cases "k1 = k") (simp_all add: hosts_wf_def)
  moreover have "\<exists>m. ?d ''mother'' = Some m \<and> status m = Online"
    using hosts_wf_mother [OF wf] st(1) by (cases "k = ''mother''") auto
  moreover have "is_pending (dset k v d) k1 \<Longrightarrow> is_pending d k1" for k1
    using k st(2) by (auto simp: is_pending_def dget_dset split: if_splits)
  then have "\<forall>k1 k2. is_pending (dset k v d) k1 \<longrightarrow> is_pending (dset k v d) k2 \<longrightarrow> k1 = k2"
    using hosts_wf_pending [OF wf] by blast
  ultimately show ?thesis
    using hosts_wf_dict [OF wf] unfolding hosts_wf_def dget_dset by (simp only: dict_ok_dset) blast
qed

lemma reg_wf_modify:
  assumes "reg_wf r"
    and "\<And>h. dget (hosts r) k = Some h \<Longrightarrow> host_id (f h) = host_id h \<and> role (f h) = role h
           \<and> host_ok (f h) \<and> (k = ''mother'' \<longrightarrow> status (f h) = Online)
           \<and> (status (f h) = Pending \<longrightarrow> status h = Pending)"
  shows "reg_wf (modify_host k f r)"
  using assms hosts_wf_dset hosts_wf_id
  by (fastforce simp: reg_wf_def modify_host_def split: option.splits)

lemma hosts_persist [simp]: "hosts (persist ev r) = hosts r"
  by (simp add: persist_def)

lemma persist_fields [simp]:
  "total_layers (persist ev r) = total_layers r" "bootstrap_peers (persist ev r) = bootstrap_peers r"
  "reg_model (persist ev r) = reg_model r"
  by (simp_all add: persist_def)

lemma modify_host_fields [simp]:
  "total_layers (modify_host k f r) = total_layers r" "reg_model (modify_host k f r) = reg_model r"
  "bootstrap_peers (modify_host k f r) = bootstrap_peers r" "disk (modify_host k f r) = disk r"
  by (auto simp: modify_host_def split: option.splits)

lemma dget_modify_host:
  "dget (hosts (modify_host k f r)) = (dget (hosts r))(k := map_option f (dget (hosts r) k))"
  by (cases "dget (hosts r) k") (auto simp: modify_host_def dget_dset)

lemma reg_wf_persist [simp]: "reg_wf (persist ev r) = reg_wf r"
  by (simp add: reg_wf_def)

lemma reg_wf_mother_status:
  "reg_wf r \<Longrightarrow> dget (hosts r) ''mother'' = Some m \<Longrightarrow> status m = Online"
  using hosts_wf_mother [of "hosts r"] by (auto simp: reg_wf_def)

section \<open>Every operation keeps the type invariant\<close>

lemma reg_wf_init: "swarm_registry_init ev model n url account dsk = Inr r \<Longrightarrow> reg_wf r"
  by (auto simp: swarm_registry_init_def rbind_Inr_iff reg_wf_def hosts_wf_def dict_ok_def
      host_ok_def host_span_def is_pending_def split: if_splits)

lemma reg_wf_load:
  assumes "load_persisted ev (Saved data) model n url account = Inr r"
    and wf: "\<forall>hs. file_hosts ev data = Inr hs \<longrightarrow> hosts_wf hs"
  shows "reg_wf r"
proof -
  obtain reg hs ps where hs: "file_hosts ev data = Inr hs"
    and r: "r = modify_host ''mother''
      (\<lambda>m. m\<lparr>shard_manager_url := rstrip_slash url, role := Mother, status := Online\<rparr>)
      (reg\<lparr>hosts := hs, bootstrap_peers := ps\<rparr>)"
    using assms(1) by (auto simp: load_persisted_def file_hosts_def rbind_Inr_iff)
  have "hosts_wf hs" using wf hs by simp
  then have "reg_wf (reg\<lparr>hosts := hs, bootstrap_peers := ps\<rparr>)" by (simp add: reg_wf_def)
  then show ?thesis
    unfolding r using \<open>hosts_wf hs\<close>
    by (intro reg_wf_modify)
      (auto simp: host_ok_def host_span_def dest: hosts_wf_ok hosts_wf_role)
qed

lemma reg_wf_set_range:
  assumes "reg_wf r" and "parse_range blocks = Inr (a, b)"
  shows "reg_wf (modify_host k (\<lambda>h. h\<lparr>block_indices := blocks, layers_hosted := b - a\<rparr>) r)"
proof (rule reg_wf_modify [OF assms(1)])
  fix h
  assume h: "dget (hosts r) k = Some h"
  have "host_ok h" using assms(1) h by (simp add: reg_wf_def hosts_wf_ok)
  then have "host_ok (h\<lparr>block_indices := blocks, layers_hosted := b - a\<rparr>)"
    using assms(2) by (intro host_okI) (auto simp: host_ok_def)
  then show "host_id (h\<lparr>block_indices := blocks, layers_hosted := b - a\<rparr>) = host_id h \<and>
      role (h\<lparr>block_indices := blocks, layers_hosted := b - a\<rparr>) = role h \<and>
      host_ok (h\<lparr>block_indices := blocks, layers_hosted := b - a\<rparr>) \<and>
      (k = ''mother'' \<longrightarrow> status (h\<lparr>block_indices := blocks, layers_hosted := b - a\<rparr>) = Online) \<and>
      (status (h\<lparr>block_indices := blocks, layers_hosted := b - a\<rparr>) = Pending \<longrightarrow> status h = Pending)"
    using reg_wf_mother_status [OF assms(1)] h by auto
qed

text \<open>Fields outside the invariant may change freely.\<close>

lemma reg_wf_frame:
  assumes "reg_wf r"
    and "\<And>h. host_id (f h) = host_id h" "\<And>h. role (f h) = role h"
    and "\<And>h. block_indices (f h) = block_indices h" "\<And>h. layers_hosted (f h) = layers_hosted h"
    and "\<And>h. pending_range (f h) = pending_range h"
    and "\<And>h. status (f h) = status h \<or> status (f h) = Online"
  shows "reg_wf (modify_host k f r)"
proof (rule reg_wf_modify [OF assms(1)])
  fix h
  assume h: "dget (hosts r) k = Some h"
  then have "host_ok h" using assms(1) by (simp add: reg_wf_def hosts_wf_ok)
  then have "host_ok (f h)" by (simp add: host_ok_def host_span_def assms)
  then show "host_id (f h) = host_id h \<and> role (f h) = role h \<and> host_ok (f h)
      \<and> (k = ''mother'' \<longrightarrow> status (f h) = Online) \<and> (status (f h) = Pending \<longrightarrow> status h = Pending)"
    using assms(2,3) assms(7) [of h] reg_wf_mother_status [OF assms(1)] h by auto
qed

lemma reg_wf_sync_mother: "reg_wf r \<Longrightarrow> reg_wf (snd (sync_mother_from_shard blocks r))"
  by (auto simp: sync_mother_from_shard_def reg_wf_set_range split: option.splits sum.splits)

lemma reg_wf_set_bootstrap [simp]: "reg_wf (set_bootstrap_peers ps r) = reg_wf r"
  by (simp add: set_bootstrap_peers_def reg_wf_def)

lemma reg_wf_set_ens_name: "reg_wf r \<Longrightarrow> reg_wf (snd (set_ens_name ev hid name r))"
  by (auto simp: set_ens_name_def intro: reg_wf_frame split: option.splits)

lemma modify_host_const:
  "dget (hosts r) k = Some h \<Longrightarrow> modify_host k (\<lambda>_. f h) r = modify_host k f r"
  by (simp add: modify_host_def)

lemma reg_wf_heartbeat:
  assumes "reg_wf r"
  shows "reg_wf (snd (heartbeat ev hid r))"
proof (cases "dget (hosts r) hid")
  case None
  with assms show ?thesis by (simp add: heartbeat_def)
next
  case (Some h)
  let ?f = "\<lambda>h. h\<lparr>last_heartbeat := now ev,
              status := (if status h = Offline then Online else status h)\<rparr>"
  have "reg_wf (modify_host hid ?f r)" by (rule reg_wf_frame [OF assms]) auto
  with Some show ?thesis by (simp only: heartbeat_def modify_host_def option.case Let_def snd_conv)
qed

lemma hosts_wf_new_pending:
  assumes wf: "hosts_wf d" and none: "\<And>k. \<not> is_pending d k"
    and v: "k \<noteq> []" "k \<noteq> ''mother''" "host_id v = k" "role v = Contributor" "host_ok v"
  shows "hosts_wf (dset k v d)"
proof -
  let ?d = "(dget d)(k \<mapsto> v)"
  have "host_id h1 = k1 \<and> k1 \<noteq> [] \<and> host_ok h1 \<and> (role h1 = Mother \<longleftrightarrow> k1 = ''mother'')"
    if "?d k1 = Some h1" for k1 h1
    using that wf v by (cases "k1 = k") (simp_all add: hosts_wf_def)
  moreover have "\<exists>m. ?d ''mother'' = Some m \<and> status m = Online"
    using hosts_wf_mother [OF wf] v(2) by auto
  moreover have "is_pending (dset k v d) k1 \<Longrightarrow> k1 = k" for k1
    using none [of k1] by (auto simp: is_pending_def dget_dset split: if_splits)
  then have "\<forall>k1 k2. is_pending (dset k v d) k1 \<longrightarrow> is_pending (dset k v d) k2 \<longrightarrow> k1 = k2"
    by blast
  ultimately show ?thesis
    using hosts_wf_dict [OF wf] unfolding hosts_wf_def dget_dset by (simp only: dict_ok_dset) blast
qed

lemma no_pending_iff:
  "hosts_wf (hosts r) \<Longrightarrow>
   filter (\<lambda>h. status h = Pending) (list_hosts r) = [] \<longleftrightarrow> (\<forall>k. \<not> is_pending (hosts r) k)"
proof -
  assume "hosts_wf (hosts r)"
  then have "h \<in> set (list_hosts r) \<longleftrightarrow> (\<exists>k. dget (hosts r) k = Some h)" for h
    by (simp only: list_hosts_def dvalues_iff hosts_wf_dict)
  then show ?thesis by (auto simp: filter_empty_conv is_pending_def split: option.splits)
qed

lemma join_record_fields [simp]:
  "host_id (join_record ev r donor (s, e) n ip url wallet) = join_host_id ev"
  "role (join_record ev r donor (s, e) n ip url wallet) = Contributor"
  "status (join_record ev r donor (s, e) n ip url wallet) = Pending"
  "block_indices (join_record ev r donor (s, e) n ip url wallet) = format_range (e - n) e"
  "layers_hosted (join_record ev r donor (s, e) n ip url wallet) = n"
  "pending_range (join_record ev r donor (s, e) n ip url wallet) = Some (format_range (e - n) e)"
  "donor_host_id (join_record ev r donor (s, e) n ip url wallet) = Some (host_id donor)"
  "donor_shrink_to (join_record ev r donor (s, e) n ip url wallet) = Some (format_range s (e - n))"
  "joined_at (join_record ev r donor (s, e) n ip url wallet) = now ev"
  "hedera_account_id (join_record ev r donor (s, e) n ip url wallet) = Some wallet"
  by (simp_all add: join_record_def Let_def)

lemma join_host_id_new: "join_host_id ev \<noteq> []" "join_host_id ev \<noteq> ''mother''"
  by (simp_all add: join_host_id_def)

lemma registry_join_error: "registry_join ev n ip url account r = (Inl e, r') \<Longrightarrow> r' = r"
  by (auto simp: registry_join_def Let_def split: if_splits sum.splits option.splits prod.splits)

lemma registry_join_ok:
  "registry_join ev n ip url account r = (Inr resp, r') \<Longrightarrow>
   \<exists>wallet donor s e. 1 \<le> n \<and> n < total_layers r
     \<and> validate_hedera_account_id account = Inr wallet
     \<and> filter (\<lambda>h. status h = Pending) (list_hosts r) = []
     \<and> largest_donor r = Some donor \<and> effective_donor_range r donor = Inr (s, e) \<and> n \<le> (e - s) - 1
     \<and> j_host_id resp = join_host_id ev \<and> j_block_indices resp = format_range (e - n) e
     \<and> j_layers_hosted resp = n \<and> j_donor_host_id resp = host_id donor
     \<and> r' = persist ev (r\<lparr>hosts := dset (join_host_id ev)
             (join_record ev r donor (s, e) n ip url wallet) (hosts r)\<rparr>)"
  by (auto simp: registry_join_def Let_def split: if_splits sum.splits option.splits prod.splits)

lemma reg_wf_join: "reg_wf r \<Longrightarrow> reg_wf (snd (registry_join ev n ip url account r))"
proof -
  assume wf: "reg_wf r"
  obtain res r' where j: "registry_join ev n ip url account r = (res, r')" by fastforce
  show ?thesis
  proof (cases res)
    case (Inl e)
    with j wf registry_join_error show ?thesis by force
  next
    case (Inr resp)
    with j obtain wallet donor s e where
      none: "filter (\<lambda>h. status h = Pending) (list_hosts r) = []"
      and r': "r' = persist ev (r\<lparr>hosts := dset (join_host_id ev)
             (join_record ev r donor (s, e) n ip url wallet) (hosts r)\<rparr>)"
      using registry_join_ok by metis
    have "hosts_wf (hosts r)" using wf by (simp add: reg_wf_def)
    moreover from this none have "\<not> is_pending (hosts r) k" for k using no_pending_iff by blast
    moreover have "host_ok (join_record ev r donor (s, e) n ip url wallet)"
      by (rule host_okI) auto
    ultimately have "hosts_wf (dset (join_host_id ev)
        (join_record ev r donor (s, e) n ip url wallet) (hosts r))"
      by (intro hosts_wf_new_pending) (simp_all add: join_host_id_new)
    with j r' show ?thesis by (simp add: reg_wf_def)
  qed
qed

lemma modify_host_twice: "modify_host k f (modify_host k g r) = modify_host k (\<lambda>h. f (g h)) r"
proof (cases "dget (hosts r) k")
  case None
  then show ?thesis by (simp add: modify_host_def)
next
  case (Some h)
  have "dset k a (dset k b d) = dset k a d" for a b :: host_record and d
    by (induction d) auto
  with Some show ?thesis by (simp add: modify_host_def dget_dset)
qed

lemma mark_ready_prepare_plan:
  "mark_ready_prepare hid peer r = (Inr (Inr plan), r1) \<Longrightarrow>
   \<exists>host donor shrink. dget (hosts r) hid = Some host \<and> status host \<noteq> Online
     \<and> donor_host_id host = Some (plan_donor_id plan) \<and> plan_donor_id plan \<noteq> []
     \<and> dget (hosts r) (plan_donor_id plan) = Some donor
     \<and> donor_shrink_to host = Some (plan_shrink_to plan)
     \<and> parse_range (plan_shrink_to plan) = Inr shrink
     \<and> check_pending_conflict hid (plan_donor_id plan) shrink (list_hosts r) = Inr ()
     \<and> plan_donor_url plan = shard_manager_url donor
     \<and> plan_assigned plan = str_or (pending_range host) (block_indices host)
     \<and> r1 = (if truthy_str peer then modify_host hid (\<lambda>h. h\<lparr>peer_multiaddr := peer\<rparr>) r else r)"
  by (auto simp: mark_ready_prepare_def Let_def rbind_Inr_iff truthy_str_iff
      split: option.splits if_splits sum.splits)

lemma mark_ready_prepare_other:
  "mark_ready_prepare hid peer r = (res, r1) \<Longrightarrow> (\<nexists>plan. res = Inr (Inr plan)) \<Longrightarrow>
   r1 = r \<and> (\<forall>h. res = Inr (Inl h) \<longrightarrow> dget (hosts r) hid = Some h \<and> status h = Online)"
  by (auto simp: mark_ready_prepare_def Let_def split: option.splits if_splits sum.splits)

lemma reg_wf_set_peer: "reg_wf r \<Longrightarrow> reg_wf (modify_host k (\<lambda>h. h\<lparr>peer_multiaddr := peer\<rparr>) r)"
  by (rule reg_wf_frame) auto

lemma reg_wf_mark_ready_prepare:
  assumes "reg_wf r" and "mark_ready_prepare hid peer r = (res, r1)"
  shows "reg_wf r1"
proof (cases "\<exists>plan. res = Inr (Inr plan)")
  case True
  then show ?thesis using assms mark_ready_prepare_plan reg_wf_set_peer by metis
next
  case False
  then show ?thesis using assms mark_ready_prepare_other by metis
qed

lemma plan_assigned_parses:
  assumes "reg_wf r" and "mark_ready_prepare hid peer r = (Inr (Inr plan), r1)"
  shows "parses (plan_assigned plan)"
proof -
  obtain h where h: "dget (hosts r) hid = Some h"
    and p: "plan_assigned plan = str_or (pending_range h) (block_indices h)"
    using mark_ready_prepare_plan [OF assms(2)] by blast
  have "host_ok h" using assms(1) h by (simp add: reg_wf_def hosts_wf_ok)
  with p show ?thesis by (cases "pending_range h") (auto simp: host_ok_def)
qed

text \<open>The second step of a hand-off, as the one update it makes when both hosts are still there.\<close>

definition handed_off :: "env \<Rightarrow> ready_plan \<Rightarrow> string \<Rightarrow> range \<Rightarrow> range \<Rightarrow> swarm_registry \<Rightarrow> swarm_registry" where
  "handed_off ev plan hid d a r =
     modify_host hid
       (\<lambda>h. h\<lparr>block_indices := plan_assigned plan, layers_hosted := snd a - fst a, status := Online,
             last_heartbeat := now ev, pending_range := None, donor_shrink_to := None\<rparr>)
       (modify_host (plan_donor_id plan)
          (\<lambda>h. h\<lparr>block_indices := plan_shrink_to plan, layers_hosted := snd d - fst d\<rparr>) r)"

lemma mark_ready_commit_ok:
  assumes "dget (hosts r) hid = Some h" and "dget (hosts r) (plan_donor_id plan) = Some d"
    and "parse_range (plan_shrink_to plan) = Inr s" and "parse_range (plan_assigned plan) = Inr a"
    and "mark_ready_commit ev hid peer plan r = (res, r')"
  shows "hosts r' = hosts (handed_off ev plan hid s a r) \<and> total_layers r' = total_layers r
     \<and> res = Inr (the (dget (hosts r') hid))"
  using assms unfolding handed_off_def
  by (cases s; cases a) (auto simp: mark_ready_commit_def Let_def modify_host_twice split: if_splits)

lemma mark_ready_commit_missing:
  "dget (hosts r) hid = None \<or> dget (hosts r) (plan_donor_id plan) = None \<Longrightarrow>
   mark_ready_commit ev hid peer plan r = (Inl KeyError, r)"
  by (auto simp: mark_ready_commit_def split: option.splits)

lemma mark_ready_commit_bad_shrink:
  "dget (hosts r) hid = Some h \<Longrightarrow> dget (hosts r) (plan_donor_id plan) = Some d \<Longrightarrow>
   parse_range (plan_shrink_to plan) = Inl e \<Longrightarrow>
   mark_ready_commit ev hid peer plan r = (Inl e, r)"
  by (simp add: mark_ready_commit_def)

lemma reg_wf_handed_off:
  assumes "reg_wf r" and "parse_range (plan_shrink_to plan) = Inr s"
    and "parse_range (plan_assigned plan) = Inr a"
  shows "reg_wf (handed_off ev plan hid s a r)"
proof -
  obtain s1 s2 where s: "s = (s1, s2)" by (cases s)
  obtain a1 a2 where a: "a = (a1, a2)" by (cases a)
  have wf1: "reg_wf (modify_host (plan_donor_id plan)
          (\<lambda>h. h\<lparr>block_indices := plan_shrink_to plan, layers_hosted := s2 - s1\<rparr>) r)"
    using reg_wf_set_range [OF assms(1)] assms(2) s by simp
  show ?thesis
    unfolding handed_off_def s a fst_conv snd_conv
    by (rule reg_wf_modify [OF wf1]) (use assms(3) a in \<open>auto intro!: host_okI\<close>)
qed

lemma reg_wf_mark_ready_commit:
  assumes "reg_wf r" and "parses (plan_assigned plan)"
    and c: "mark_ready_commit ev hid peer plan r = (res, r')"
  shows "reg_wf r'"
proof (cases "\<exists>h d s. dget (hosts r) hid = Some h \<and> dget (hosts r) (plan_donor_id plan) = Some d
    \<and> parse_range (plan_shrink_to plan) = Inr s")
  case True
  then obtain h d s where *: "dget (hosts r) hid = Some h" "dget (hosts r) (plan_donor_id plan) = Some d"
      "parse_range (plan_shrink_to plan) = Inr s" by blast
  obtain a where a: "parse_range (plan_assigned plan) = Inr a" using assms(2) by (auto simp: parses_def)
  have "hosts r' = hosts (handed_off ev plan hid s a r)"
    using mark_ready_commit_ok [OF * a c] by simp
  with reg_wf_handed_off [OF assms(1) *(3) a] show ?thesis by (simp add: reg_wf_def)
next
  case False
  then show ?thesis
    using assms mark_ready_commit_missing mark_ready_commit_bad_shrink
    by (metis not_None_eq obj_sumE prod.inject)
qed

lemma reg_wf_mark_ready:
  assumes "reg_wf r" and "mark_ready svc ev hid peer r w = (res, r', w')"
  shows "reg_wf r'"
  using assms(2) reg_wf_mark_ready_prepare [OF assms(1)] plan_assigned_parses [OF assms(1)]
    reg_wf_mark_ready_commit
  by (auto simp: mark_ready_def split: prod.splits sum.splits) blast+

lemma hosts_wf_ddel:
  assumes wf: "hosts_wf d" and "k \<noteq> ''mother''"
  shows "hosts_wf (ddel k d)"
proof -
  have "is_pending (ddel k d) k1 \<Longrightarrow> is_pending d k1" for k1
    by (auto simp: is_pending_def dget_ddel split: if_splits)
  then have "\<forall>k1 k2. is_pending (ddel k d) k1 \<longrightarrow> is_pending (ddel k d) k2 \<longrightarrow> k1 = k2"
    using hosts_wf_pending [OF wf] by blast
  moreover have "host_id h1 = k1 \<and> k1 \<noteq> [] \<and> host_ok h1 \<and> (role h1 = Mother \<longleftrightarrow> k1 = ''mother'')"
    if "((dget d)(k := None)) k1 = Some h1" for k1 h1
    using that wf by (simp add: hosts_wf_def split: if_splits)
  moreover have "\<exists>m. ((dget d)(k := None)) ''mother'' = Some m \<and> status m = Online"
    using hosts_wf_mother [OF wf] assms(2) by simp
  ultimately show ?thesis
    using hosts_wf_dict [OF wf] unfolding hosts_wf_def dget_ddel by (simp only: dict_ok_ddel) blast
qed

lemma reg_wf_reclaim_commit: "reg_wf r \<Longrightarrow> reg_wf (snd (reclaim_commit k new_range r))"
  by (auto simp: reclaim_commit_def reg_wf_set_range split: option.splits sum.splits)

lemma reclaim_range_cases:
  assumes "reclaim_range svc blocks r w = (res, r', w')"
  shows "r' = r \<or> (\<exists>chosen new_range. reclaim_choice blocks r = Inr (Some (chosen, new_range))
           \<and> (res, r') = reclaim_commit (host_id chosen) new_range r)"
  using assms by (auto simp: reclaim_range_def split: sum.splits option.splits prod.splits)

lemma reg_wf_reclaim_range:
  assumes "reg_wf r" and "reclaim_range svc blocks r w = (res, r', w')"
  shows "reg_wf r'"
  using reclaim_range_cases [OF assms(2)] reg_wf_reclaim_commit [OF assms(1)] assms(1)
  by (metis snd_conv)

lemma leave_not_mother:
  "reg_wf r \<Longrightarrow> dget (hosts r) hid = Some host \<Longrightarrow> role host \<noteq> Mother \<Longrightarrow> hid \<noteq> ''mother''"
  by (auto simp: reg_wf_def dest: hosts_wf_role)

lemma leave_cases:
  assumes "leave svc ev hid r w = (res, r', w')"
  obtains (error) e where "res = Inl e" "r' = r" "w' = w"
  | (removed) host where "dget (hosts r) hid = Some host" "role host \<noteq> Mother"
      "\<exists>q. leave_range host r = Inr q \<and> \<not> truthy_str q"
      "res = Inr ()" "w' = w" "r' = persist ev (r\<lparr>hosts := ddel hid (hosts r)\<rparr>)"
  | (failed) host blocks e where "dget (hosts r) hid = Some host" "role host \<noteq> Mother"
      "leave_range host r = Inr (Some blocks)" "res = Inl e"
      "reclaim_range svc blocks (r\<lparr>hosts := ddel hid (hosts r)\<rparr>) w = (Inl e, r', w')"
  | (reclaimed) host blocks r2 where "dget (hosts r) hid = Some host" "role host \<noteq> Mother"
      "leave_range host r = Inr (Some blocks)" "res = Inr ()" "r' = persist ev r2"
      "reclaim_range svc blocks (r\<lparr>hosts := ddel hid (hosts r)\<rparr>) w = (Inr (), r2, w')"
proof (cases "dget (hosts r) hid")
  case None
  then show thesis using assms error by (auto simp: leave_def)
next
  case (Some host)
  show thesis
  proof (cases "role host = Mother")
    case True
    with Some assms error show thesis by (auto simp: leave_def)
  next
    case contributor: False
    show thesis
    proof (cases "leave_range host r")
      case (Inl e)
      with Some contributor assms error show thesis by (auto simp: leave_def)
    next
      case (Inr q)
      show thesis
      proof (cases "truthy_str q")
        case False
        with Some contributor Inr assms removed show thesis by (auto simp: leave_def Let_def)
      next
        case True
        then obtain blocks where q: "q = Some blocks" by (cases q) auto
        obtain res2 r2 w2 where
          rc: "reclaim_range svc blocks (r\<lparr>hosts := ddel hid (hosts r)\<rparr>) w = (res2, r2, w2)"
          using prod_cases3 by blast
        show thesis
        proof (cases res2)
          case (Inl e)
          with Some contributor \<open>leave_range host r = Inr q\<close> q True assms rc failed show thesis
            by (auto simp: leave_def Let_def)
        next
          case (Inr u)
          with Some contributor \<open>leave_range host r = Inr q\<close> q True assms rc reclaimed show thesis
            by (auto simp: leave_def Let_def)
        qed
      qed
    qed
  qed
qed

lemma reg_wf_delete:
  "reg_wf r \<Longrightarrow> dget (hosts r) hid = Some host \<Longrightarrow> role host \<noteq> Mother \<Longrightarrow>
   reg_wf (r\<lparr>hosts := ddel hid (hosts r)\<rparr>)"
  using leave_not_mother [of r hid host] hosts_wf_ddel by (simp add: reg_wf_def)

lemma reg_wf_leave:
  assumes "reg_wf r" and l: "leave svc ev hid r w = (res, r', w')"
  shows "reg_wf r'"
  using l
proof (cases rule: leave_cases)
  case (error e)
  with assms(1) show ?thesis by simp
next
  case (removed host)
  from reg_wf_delete [OF assms(1) removed(1,2)] removed(6) show ?thesis by simp
next
  case (failed host blocks e)
  show ?thesis
    by (rule reg_wf_reclaim_range [OF reg_wf_delete [OF assms(1) failed(1,2)] failed(5)])
next
  case (reclaimed host blocks r2)
  have "reg_wf r2"
    by (rule reg_wf_reclaim_range [OF reg_wf_delete [OF assms(1) reclaimed(1,2)] reclaimed(6)])
  with reclaimed(5) show ?thesis by simp
qed

lemma reg_wf_leave_all:
  "reg_wf r \<Longrightarrow> leave_all svc ev hids r w = (ids, r', w') \<Longrightarrow> reg_wf r'"
proof (induction hids arbitrary: r w ids r' w')
  case Nil
  then show ?case by simp
next
  case (Cons hid hids)
  obtain res1 r1 w1 where l: "leave svc ev hid r w = (res1, r1, w1)" by (rule prod_cases3)
  obtain ids2 r2 w2 where la: "leave_all svc ev hids r1 w1 = (ids2, r2, w2)" by (rule prod_cases3)
  have "reg_wf r2" using Cons.IH [OF reg_wf_leave [OF Cons.prems(1) l] la] .
  with Cons.prems(2) l la show ?case by simp
qed

lemma reg_wf_reap_stale:
  "reg_wf r \<Longrightarrow> reap_stale svc ev ttl r w = (ids, r', w') \<Longrightarrow> reg_wf r'"
  by (auto simp: reap_stale_def Let_def split: prod.splits if_splits dest: reg_wf_leave_all)

lemma reg_wf_reap_stale_pending:
  "reg_wf r \<Longrightarrow> reap_stale_pending svc ev ttl r w = (ids, r', w') \<Longrightarrow> reg_wf r'"
  by (auto simp: reap_stale_pending_def Let_def split: prod.splits if_splits dest: reg_wf_leave_all)

end
