(* ===== verification/SwarmMap.thy ===== *)
theory SwarmMap
  imports RegistryInv
begin

text \<open>
  orchestrator/app/swarm_map.py: the layer map built from the registry, the check that it is
  complete, the choice of the host that serves a request over HTTP, and the two ways reported
  ranges flow back into the registry (\<open>refresh_live_status\<close> before a request,
  \<open>apply_heartbeat_manifest\<close> on a heartbeat).
\<close>

section \<open>The manifest\<close>

record layer_span =
  span_host_id :: string
  span_role :: role
  span_block_indices :: string
  span_start :: int
  span_end :: int
  span_url :: string
  span_peer :: "string option"
  span_running :: "bool option"

record swarm_manifest =
  man_model :: string
  man_total_layers :: int
  man_spans :: "layer_span list"

text \<open>The JSON form sent to a contributor. A key that may be absent there is an option.\<close>

record manifest_host =
  mh_host_id :: "string option"
  mh_role :: "string option"
  mh_block_indices :: "string option"
  mh_layers_hosted :: int
  mh_shard_manager_url :: "string option"
  mh_public_ip :: "string option"
  mh_peer_multiaddr :: "string option"
  mh_petals_running :: "bool option"

record manifest_dict =
  md_model :: string
  md_total_layers :: "int option"
  md_hosts :: "manifest_host list"

fun role_str :: "role \<Rightarrow> string" where
  "role_str Mother = ''mother''"
| "role_str Contributor = ''contributor''"

definition to_dict :: "string option \<Rightarrow> swarm_manifest \<Rightarrow> manifest_dict" where
  "to_dict gateway_env m =
     (let mother_public = rstrip_slash (py_strip (str_or gateway_env []));
          host = (\<lambda>s. \<lparr>mh_host_id = Some (span_host_id s), mh_role = Some (role_str (span_role s)),
                       mh_block_indices = Some (span_block_indices s),
                       mh_layers_hosted = span_end s - span_start s,
                       mh_shard_manager_url = Some (if span_role s = Mother \<and> mother_public \<noteq> []
                                                    then mother_public else span_url s),
                       mh_public_ip = None, mh_peer_multiaddr = span_peer s,
                       mh_petals_running = span_running s\<rparr>)
      in \<lparr>md_model = man_model m, md_total_layers = Some (man_total_layers m),
          md_hosts = map host (man_spans m)\<rparr>)"

fun add_peers :: "string list \<Rightarrow> string list \<Rightarrow> string list" where
  "add_peers peers [] = peers"
| "add_peers peers (p # ps) =
     (if p \<noteq> [] \<and> p \<notin> set peers then add_peers (peers @ [p]) ps else add_peers peers ps)"

definition peer_multiaddrs :: "swarm_manifest \<Rightarrow> string list" where
  "peer_multiaddrs m = add_peers [] (map (\<lambda>s. str_or (span_peer s) []) (man_spans m))"

definition tail_contributor :: "swarm_manifest \<Rightarrow> layer_span option" where
  "tail_contributor m = py_max_by span_end (filter (\<lambda>s. span_role s = Contributor) (man_spans m))"

definition is_complete :: "swarm_manifest \<Rightarrow> bool" where
  "is_complete m =
     (let online = filter (\<lambda>s. span_end s > span_start s) (man_spans m)
      in if online = [] then False
         else case scan_chain 0 (map (\<lambda>s. (span_start s, span_end s)) (sort_key span_start online)) of
                Inl _ \<Rightarrow> False
              | Inr expected \<Rightarrow> expected = man_total_layers m)"

definition span_of_host :: "host_record \<Rightarrow> layer_span result" where
  "span_of_host h =
     rbind (parse_range (block_indices h)) (\<lambda>(s, e). Inr
       \<lparr>span_host_id = host_id h, span_role = role h, span_block_indices = block_indices h,
        span_start = s, span_end = e, span_url = shard_manager_url h,
        span_peer = peer_multiaddr h, span_running = None\<rparr>)"

definition build_manifest :: "swarm_registry \<Rightarrow> swarm_manifest result" where
  "build_manifest r =
     rbind (rmap span_of_host (filter (\<lambda>h. status h = Online) (list_hosts r))) (\<lambda>spans. Inr
       \<lparr>man_model = reg_model r, man_total_layers = total_layers r,
        man_spans = sort_key span_start spans\<rparr>)"

datatype manifest_detail = NoOnlineHosts | NotContiguous int "range list" | ManifestOk

definition validate_manifest :: "swarm_manifest \<Rightarrow> bool \<times> manifest_detail" where
  "validate_manifest m =
     (if man_spans m = [] then (False, NoOnlineHosts)
      else if \<not> is_complete m
        then (False, NotContiguous (man_total_layers m)
                (map (\<lambda>s. (span_start s, span_end s)) (man_spans m)))
      else (True, ManifestOk))"

section \<open>Routing over HTTP\<close>

definition is_public_http_url :: "string \<Rightarrow> bool" where
  "is_public_http_url url =
     (if url = [] then False
      else if startswith (py_lower url) ''http://127.'' \<or> startswith (py_lower url) ''http://localhost''
        then False
      else if startswith url ''http://172.'' \<or> startswith url ''http://192.168.'' then False
      else startswith url ''http://'' \<or> startswith url ''https://'')"

definition pick_http_inference_host :: "swarm_manifest \<Rightarrow> layer_span option" where
  "pick_http_inference_host m =
     (case tail_contributor m of
        None \<Rightarrow> None
      | Some t \<Rightarrow> if is_public_http_url (span_url t) then Some t else None)"

definition sync_peers_to_engine :: "swarm_registry \<Rightarrow> string list result" where
  "sync_peers_to_engine r =
     rbind (build_manifest r) (\<lambda>m. Inr (add_peers (peer_multiaddrs m) (bootstrap_peers r)))"

section \<open>Reported ranges\<close>

record shard_status =
  ss_block_indices :: "string option"
  ss_running :: bool

text \<open>\<open>probe url\<close> is the answer of GET \<open>url\<close>; \<open>None\<close> stands for any failure.\<close>

definition fetch_shard_status :: "(string \<Rightarrow> shard_status option) \<Rightarrow> string \<Rightarrow> shard_status option" where
  "fetch_shard_status probe url = probe (rstrip_slash url @ ''/status'')"

fun refresh_loop ::
  "(string \<Rightarrow> shard_status option) \<Rightarrow> host_record list \<Rightarrow> string list \<Rightarrow> swarm_registry
     \<Rightarrow> string list result \<times> swarm_registry" where
  "refresh_loop probe [] drift r = (Inr drift, r)"
| "refresh_loop probe (host # hs) drift r =
     (case fetch_shard_status probe (shard_manager_url host) of
        None \<Rightarrow> refresh_loop probe hs drift r
      | Some st \<Rightarrow>
          if truthy_str (ss_block_indices st) \<and> the (ss_block_indices st) \<noteq> block_indices host
          then (let live = the (ss_block_indices st) in
                case dget (hosts r) (host_id host) of
                  None \<Rightarrow> refresh_loop probe hs (drift @ [host_id host]) r
                | Some _ \<Rightarrow>
                    (case parse_range live of
                       Inl e \<Rightarrow> (Inl e, r)
                     | Inr (s, e) \<Rightarrow>
                         refresh_loop probe hs (drift @ [host_id host])
                           (modify_host (host_id host)
                              (\<lambda>h. h\<lparr>petals_running := Some (ss_running st)\<rparr>)
                              (modify_host (host_id host)
                                 (\<lambda>h. h\<lparr>block_indices := live, layers_hosted := e - s\<rparr>) r))))
          else refresh_loop probe hs drift
                 (modify_host (host_id host) (\<lambda>h. h\<lparr>petals_running := Some (ss_running st)\<rparr>) r))"

definition refresh_live_status ::
  "(string \<Rightarrow> shard_status option) \<Rightarrow> env \<Rightarrow> swarm_registry \<Rightarrow> swarm_manifest result \<times> swarm_registry" where
  "refresh_live_status probe ev r =
     (case refresh_loop probe (filter (\<lambda>h. status h = Online) (list_hosts r)) [] r of
        (Inl e, r1) \<Rightarrow> (Inl e, r1)
      | (Inr drift, r1) \<Rightarrow>
          (let r2 = (if drift \<noteq> [] then persist ev r1 else r1) in (build_manifest r2, r2)))"

record heartbeat_body =
  hb_block_indices :: "string option"
  hb_petals_running :: "bool option"
  hb_peer_multiaddr :: "string option"
  hb_shard_manager_url :: "string option"

definition heartbeat_extras :: "string \<Rightarrow> heartbeat_body \<Rightarrow> swarm_registry \<Rightarrow> swarm_registry" where
  "heartbeat_extras hid body r =
     (let r1 = (if truthy_str (hb_shard_manager_url body)
                then modify_host hid
                       (\<lambda>h. h\<lparr>shard_manager_url := rstrip_slash (the (hb_shard_manager_url body))\<rparr>) r
                else r);
          r2 = (if truthy_str (hb_peer_multiaddr body)
                then (let peer = the (hb_peer_multiaddr body);
                          r' = modify_host hid (\<lambda>h. h\<lparr>peer_multiaddr := Some peer\<rparr>) r1
                      in if peer \<notin> set (bootstrap_peers r') \<and> is_public_multiaddr peer
                         then r'\<lparr>bootstrap_peers := bootstrap_peers r' @ [peer]\<rparr> else r')
                else r1)
      in if hb_petals_running body \<noteq> None
         then modify_host hid (\<lambda>h. h\<lparr>petals_running := hb_petals_running body\<rparr>) r2
         else r2)"

definition apply_heartbeat_manifest ::
  "env \<Rightarrow> string \<Rightarrow> heartbeat_body \<Rightarrow> swarm_registry \<Rightarrow> host_record result \<times> swarm_registry" where
  "apply_heartbeat_manifest ev hid body r =
     (case heartbeat ev hid r of
        (Inl e, r1) \<Rightarrow> (Inl e, r1)
      | (Inr host, r1) \<Rightarrow>
          if truthy_str (hb_block_indices body) \<and> the (hb_block_indices body) \<noteq> block_indices host
          then (case parse_range (the (hb_block_indices body)) of
                  Inl e \<Rightarrow> (Inl e, r1)
                | Inr (s, e) \<Rightarrow>
                    (let r2 = heartbeat_extras hid body (modify_host hid
                                (\<lambda>h. h\<lparr>block_indices := the (hb_block_indices body),
                                      layers_hosted := e - s\<rparr>) r1)
                     in (Inr (the (dget (hosts r2) hid)), r2)))
          else (let r2 = heartbeat_extras hid body r1 in (Inr (the (dget (hosts r2) hid)), r2)))"

section \<open>The type invariant is kept\<close>

lemma reg_wf_bootstrap_update [simp]: "reg_wf (r\<lparr>bootstrap_peers := ps\<rparr>) = reg_wf r"
  by (simp add: reg_wf_def)

lemma reg_wf_running: "reg_wf r \<Longrightarrow> reg_wf (modify_host k (\<lambda>h. h\<lparr>petals_running := b\<rparr>) r)"
  by (rule reg_wf_frame) auto

lemma reg_wf_url: "reg_wf r \<Longrightarrow> reg_wf (modify_host k (\<lambda>h. h\<lparr>shard_manager_url := u\<rparr>) r)"
  by (rule reg_wf_frame) auto

lemmas reg_wf_field = reg_wf_running reg_wf_url reg_wf_set_peer reg_wf_set_range

lemma reg_wf_refresh_loop:
  "reg_wf r \<Longrightarrow> refresh_loop probe hs drift r = (res, r') \<Longrightarrow> reg_wf r'"
proof (induction probe hs drift r arbitrary: res r' rule: refresh_loop.induct)
  case (1 probe drift r)
  then show ?case by simp
next
  case (2 probe host hs drift r)
  show ?case
    using "2.prems" by (auto simp: Let_def split: option.splits if_splits sum.splits prod.splits
        intro: "2.IH" intro!: reg_wf_field)
qed

lemma reg_wf_refresh: "reg_wf r \<Longrightarrow> reg_wf (snd (refresh_live_status probe ev r))"
  using reg_wf_refresh_loop
  by (auto simp: refresh_live_status_def Let_def split: prod.splits sum.splits)

lemma reg_wf_heartbeat_extras: "reg_wf r \<Longrightarrow> reg_wf (heartbeat_extras hid body r)"
  by (auto simp: heartbeat_extras_def Let_def intro!: reg_wf_field)

lemma reg_wf_apply_heartbeat:
  assumes "reg_wf r"
  shows "reg_wf (snd (apply_heartbeat_manifest ev hid body r))"
  using reg_wf_heartbeat [OF assms, of ev hid]
  by (auto simp: apply_heartbeat_manifest_def Let_def split: prod.splits sum.splits
      intro!: reg_wf_heartbeat_extras reg_wf_field)

end
