(* ===== verification/TensorCodec.thy ===== *)
theory TensorCodec
  imports Prelude "HOL-Library.Word"
begin

unbundle bit_operations_syntax

text \<open>
  shard\_manager/tensor\_codec.py: the form in which hidden states travel between hosts. A tensor
  is its bytes, its shape and the name of its element type; \<open>base64\<close> of the standard library is
  modelled on bytes, the decoder as the automaton of CPython's non-strict mode (characters
  outside the alphabet are skipped, a complete padding ends the input).
\<close>

section \<open>Base64\<close>

definition b64_alphabet :: string where
  "b64_alphabet = ''ABCDEFGHIJKLMNOPQRSTUVWXYZabcdefghijklmnopqrstuvwxyz0123456789+/''"

definition b64_char :: "8 word \<Rightarrow> char" where
  "b64_char v = b64_alphabet ! unat v"

fun index_of :: "char \<Rightarrow> string \<Rightarrow> nat option" where
  "index_of c [] = None"
| "index_of c (d # s) = (if c = d then Some 0 else map_option Suc (index_of c s))"

definition b64_val :: "char \<Rightarrow> 8 word option" where
  "b64_val c = map_option of_nat (index_of c b64_alphabet)"

definition sextet1 :: "8 word \<Rightarrow> 8 word" where
  "sextet1 a = drop_bit 2 a"

definition sextet2 :: "8 word \<Rightarrow> 8 word \<Rightarrow> 8 word" where
  "sextet2 a b = push_bit 4 (a AND 3) OR drop_bit 4 b"

definition sextet3 :: "8 word \<Rightarrow> 8 word \<Rightarrow> 8 word" where
  "sextet3 b c = push_bit 2 (b AND 15) OR drop_bit 6 c"

definition sextet4 :: "8 word \<Rightarrow> 8 word" where
  "sextet4 c = c AND 63"

text \<open>The missing bytes of the last group count as zero.\<close>

fun b64encode :: "8 word list \<Rightarrow> string" where
  "b64encode (a # b # c # bs) =
     [b64_char (sextet1 a), b64_char (sextet2 a b), b64_char (sextet3 b c), b64_char (sextet4 c)]
       @ b64encode bs"
| "b64encode [a, b] = [b64_char (sextet1 a), b64_char (sextet2 a b), b64_char (sextet3 b 0), CHR ''='']"
| "b64encode [a] = [b64_char (sextet1 a), b64_char (sextet2 a 0), CHR ''='', CHR ''='']"
| "b64encode [] = []"

definition byte1 :: "8 word \<Rightarrow> 8 word \<Rightarrow> 8 word" where
  "byte1 left v = push_bit 2 left OR drop_bit 4 v"

definition byte2 :: "8 word \<Rightarrow> 8 word \<Rightarrow> 8 word" where
  "byte2 left v = push_bit 4 left OR drop_bit 2 v"

definition byte3 :: "8 word \<Rightarrow> 8 word \<Rightarrow> 8 word" where
  "byte3 left v = push_bit 6 left OR v"

definition low_bits :: "nat \<Rightarrow> 8 word \<Rightarrow> 8 word" where
  "low_bits n v = v AND mask n"

fun b64_scan :: "nat \<Rightarrow> 8 word \<Rightarrow> nat \<Rightarrow> string \<Rightarrow> 8 word list result" where
  "b64_scan quad_pos left pads [] = (if quad_pos = 0 then Inr [] else Inl ValueError)"
| "b64_scan quad_pos left pads (c # s) =
     (if c = CHR ''='' then
        (if quad_pos \<ge> 2 then
           (if quad_pos + Suc pads \<ge> 4 then Inr [] else b64_scan quad_pos left (Suc pads) s)
         else b64_scan quad_pos left pads s)
      else case b64_val c of
        None \<Rightarrow> b64_scan quad_pos left pads s
      | Some v \<Rightarrow>
          (if quad_pos = 0 then b64_scan 1 v 0 s
           else if quad_pos = 1 then
             rbind (b64_scan 2 (low_bits 4 v) 0 s) (\<lambda>out. Inr (byte1 left v # out))
           else if quad_pos = 2 then
             rbind (b64_scan 3 (low_bits 2 v) 0 s) (\<lambda>out. Inr (byte2 left v # out))
           else rbind (b64_scan 0 0 0 s) (\<lambda>out. Inr (byte3 left v # out))))"

definition b64decode :: "string \<Rightarrow> 8 word list result" where
  "b64decode s = b64_scan 0 0 0 s"

lemma alphabet_index: "list_all (\<lambda>i. index_of (b64_alphabet ! i) b64_alphabet = Some i) [0..<64]"
  by code_simp

lemma alphabet_no_pad: "list_all (\<lambda>i. b64_alphabet ! i \<noteq> CHR ''='') [0..<64]"
  by code_simp

lemma b64_val_char:
  assumes "v < 64"
  shows "b64_val (b64_char v) = Some v" "b64_char v \<noteq> CHR ''=''"
proof -
  have lt: "unat v < 64" using assms by (simp add: word_less_nat_alt)
  then have "index_of (b64_alphabet ! unat v) b64_alphabet = Some (unat v)"
    using alphabet_index by (simp add: list_all_iff)
  then show "b64_val (b64_char v) = Some v" by (simp add: b64_val_def b64_char_def)
  show "b64_char v \<noteq> CHR ''=''" using lt alphabet_no_pad by (simp add: list_all_iff b64_char_def)
qed

lemma word8_lt_64:
  fixes v :: "8 word"
  assumes "\<And>n. n < 8 \<Longrightarrow> bit v n \<Longrightarrow> n < 6"
  shows "v < 64"
proof -
  have v: "v = take_bit 6 v"
    by (rule bit_word_eqI) (use assms in \<open>auto simp: bit_take_bit_iff\<close>)
  have "unat (take_bit 6 v) < 2 ^ 6" unfolding unsigned_take_bit_eq by (rule take_bit_nat_less_exp)
  with v show ?thesis by (simp add: word_less_nat_alt)
qed

lemma bit_mask8: "bit (mask k :: 8 word) n \<longleftrightarrow> n < 8 \<and> n < k"
  by (auto simp: bit_mask_iff)

lemma numerals_as_masks: "(3 :: 8 word) = mask 2" "(15 :: 8 word) = mask 4" "(63 :: 8 word) = mask 6"
  by (simp_all add: mask_eq_exp_minus_1)

lemma bit_push8: "bit (push_bit m v :: 8 word) n \<longleftrightarrow> m \<le> n \<and> n < 8 \<and> bit v (n - m)"
  by (auto simp: bit_push_bit_iff)

lemma bit_drop8: "bit (drop_bit m v :: 8 word) n \<longleftrightarrow> m + n < 8 \<and> bit v (m + n)"
  using bit_imp_le_length [of v "m + n"] by (auto simp: bit_drop_bit_eq)

lemmas sextet_defs = sextet1_def sextet2_def sextet3_def sextet4_def byte1_def byte2_def byte3_def
  low_bits_def numerals_as_masks

lemmas b64_bits = sextet_defs bit_and_iff bit_or_iff bit_push8 bit_drop8 bit_mask8

lemma sextets_small: "sextet1 a < 64" "sextet2 a b < 64" "sextet3 b c < 64" "sextet4 c < 64"
  by (rule word8_lt_64; simp only: b64_bits; linarith)+

lemma bytes_back:
  "byte1 (sextet1 a) (sextet2 a b) = a"
  "byte2 (low_bits 4 (sextet2 a b)) (sextet3 b c) = b"
  "byte3 (low_bits 2 (sextet3 b c)) (sextet4 c) = c"
proof -
  show "byte1 (sextet1 a) (sextet2 a b) = a"
  proof (rule bit_word_eqI)
    fix n
    assume "n < LENGTH(8)"
    then have n: "n < 8" by simp
    then show "bit (byte1 (sextet1 a) (sextet2 a b)) n = bit a n"
      by (cases "2 \<le> n") (auto simp: b64_bits simp del: add_2_eq_Suc)
  qed
  show "byte2 (low_bits 4 (sextet2 a b)) (sextet3 b c) = b"
  proof (rule bit_word_eqI)
    fix n
    assume "n < LENGTH(8)"
    then have n: "n < 8" by simp
    then show "bit (byte2 (low_bits 4 (sextet2 a b)) (sextet3 b c)) n = bit b n"
      by (cases "4 \<le> n") (auto simp: b64_bits simp del: add_2_eq_Suc)
  qed
  show "byte3 (low_bits 2 (sextet3 b c)) (sextet4 c) = c"
  proof (rule bit_word_eqI)
    fix n
    assume "n < LENGTH(8)"
    then have n: "n < 8" by simp
    then show "bit (byte3 (low_bits 2 (sextet3 b c)) (sextet4 c)) n = bit c n"
      by (cases "6 \<le> n") (auto simp: b64_bits simp del: add_2_eq_Suc)
  qed
qed

lemma b64_scan_encode: "b64_scan 0 left pads (b64encode bs) = Inr bs"
proof (induction bs arbitrary: left pads rule: b64encode.induct)
  case (1 a b c bs)
  then show ?case by (simp add: b64_val_char sextets_small bytes_back)
qed (simp_all add: b64_val_char sextets_small bytes_back)

lemma b64decode_encode: "b64decode (b64encode bs) = Inr bs"
  by (simp add: b64decode_def b64_scan_encode)

section \<open>Tensors\<close>

text \<open>
  \<open>itemsize\<close> is NumPy's: the number of bytes of one element of the named type, \<open>None\<close> for a name
  NumPy does not know.
\<close>

record tensor =
  t_bytes :: "8 word list"
  t_shape :: "nat list"
  t_dtype :: string

record payload =
  p_b64 :: string
  p_shape :: "nat list"
  p_dtype :: string

definition tensor_to_payload :: "tensor \<Rightarrow> payload" where
  "tensor_to_payload t = \<lparr>p_b64 = b64encode (t_bytes t), p_shape = t_shape t, p_dtype = t_dtype t\<rparr>"

definition tensor_from_payload :: "(string \<Rightarrow> nat option) \<Rightarrow> payload \<Rightarrow> tensor result" where
  "tensor_from_payload itemsize p =
     rbind (b64decode (p_b64 p)) (\<lambda>buf.
       case itemsize (p_dtype p) of
         None \<Rightarrow> Inl TypeError
       | Some k \<Rightarrow>
           if k = 0 \<or> length buf mod k \<noteq> 0 then Inl ValueError
           else if length buf div k \<noteq> prod_list (p_shape p) then Inl ValueError
           else Inr \<lparr>t_bytes = buf, t_shape = p_shape p, t_dtype = p_dtype p\<rparr>)"

definition tensor_ok :: "(string \<Rightarrow> nat option) \<Rightarrow> tensor \<Rightarrow> bool" where
  "tensor_ok itemsize t \<longleftrightarrow>
     (case itemsize (t_dtype t) of
        None \<Rightarrow> False
      | Some k \<Rightarrow> 0 < k \<and> length (t_bytes t) = k * prod_list (t_shape t))"

lemma tensor_payload_back: "tensor_ok itemsize t \<Longrightarrow> tensor_from_payload itemsize (tensor_to_payload t) = Inr t"
  by (auto simp: tensor_from_payload_def tensor_to_payload_def tensor_ok_def b64decode_encode split: option.splits)

text \<open>C17. A hidden state sent to another host arrives as it was: decoding the payload of a tensor, whose
  bytes match its shape and type, gives the tensor back, for any number of bytes (all three
  paddings).\<close>

theorem tensor_roundtrip:
  assumes "tensor_ok itemsize t"
  shows "tensor_from_payload itemsize (tensor_to_payload t) = Inr t"
  using assms by (rule tensor_payload_back)

definition ex_tensor :: tensor where
  "ex_tensor = \<lparr>t_bytes = [0, 255, 16, 7], t_shape = [1, 2], t_dtype = ''float16''\<rparr>"

lemma tensor_roundtrip_witness:
  "tensor_from_payload [''float16'' \<mapsto> 2] (tensor_to_payload ex_tensor) = Inr ex_tensor
   \<and> p_b64 (tensor_to_payload ex_tensor) = ''AP8QBw==''"
proof -
  have "tensor_ok [''float16'' \<mapsto> 2] ex_tensor" by (simp add: tensor_ok_def ex_tensor_def)
  moreover have "p_b64 (tensor_to_payload ex_tensor) = ''AP8QBw==''" by code_simp
  ultimately show ?thesis using tensor_roundtrip by blast
qed

end
