(* ===== verification/HttpChain.thy ===== *)
theory HttpChain
  imports LocalRunner SwarmMap TensorCodec
begin

text \<open>
  shard\_manager/http\_chain.py: inference over HTTP along the hosts of the manifest. Every token is
  one pass: the first host embeds the ids and runs its layers, the hosts between continue, the
  local tail finishes and samples. The remote calls, the tokenizer and the tensor operations of
  torch are parameters; the numbers of the logits are those of any ordered field.
\<close>

section \<open>Sampling\<close>

definition py_index :: "'a list \<Rightarrow> int \<Rightarrow> nat option" where
  "py_index xs i =
     (if 0 \<le> i \<and> i < int (length xs) then Some (nat i)
      else if - int (length xs) \<le> i \<and> i < 0 then Some (nat (int (length xs) + i))
      else None)"

fun penalty_loop :: "'a::linordered_field \<Rightarrow> int list \<Rightarrow> 'a list \<Rightarrow> 'a list result" where
  "penalty_loop penalty [] out = Inr out"
| "penalty_loop penalty (t # ts) out =
     (case py_index out t of
        None \<Rightarrow> Inl IndexError
      | Some i \<Rightarrow> penalty_loop penalty ts
                    (out[i := (if out ! i < 0 then out ! i * penalty else out ! i / penalty)]))"

definition apply_repetition_penalty :: "'a::linordered_field list \<Rightarrow> int list \<Rightarrow> 'a \<Rightarrow> 'a list result" where
  "apply_repetition_penalty logits generated penalty =
     (if penalty \<le> 1 \<or> generated = [] then Inr logits else penalty_loop penalty generated logits)"

text \<open>The nucleus mask over sorted probabilities: \<open>True\<close> is masked out.\<close>

fun cumsum_from :: "'a::linordered_field \<Rightarrow> 'a list \<Rightarrow> 'a list" where
  "cumsum_from acc [] = []"
| "cumsum_from acc (p # ps) = (acc + p) # cumsum_from (acc + p) ps"

definition nucleus_mask :: "'a::linordered_field \<Rightarrow> 'a list \<Rightarrow> bool list" where
  "nucleus_mask top_p sorted_probs =
     (let mask = map (\<lambda>c. c > top_p) (cumsum_from 0 sorted_probs)
      in case mask of [] \<Rightarrow> [] | _ \<Rightarrow> False # butlast mask)"

definition nucleus_weights :: "'a::linordered_field \<Rightarrow> 'a list \<Rightarrow> 'a list" where
  "nucleus_weights top_p sorted_probs =
     (let kept = map2 (\<lambda>m p. if m then 0 else p) (nucleus_mask top_p sorted_probs) sorted_probs
      in map (\<lambda>p. p / sum_list kept) kept)"

record 'a torch_ops =
  to_softmax :: "'a list \<Rightarrow> 'a list"
  to_sort_desc :: "'a list \<Rightarrow> nat list"
  to_multinomial :: "nat \<Rightarrow> 'a list \<Rightarrow> nat"

fun argmax_from :: "nat \<Rightarrow> nat \<times> 'a::linorder \<Rightarrow> 'a list \<Rightarrow> nat" where
  "argmax_from i best [] = fst best"
| "argmax_from i best (x # xs) = argmax_from (Suc i) (if snd best < x then (i, x) else best) xs"

definition argmax_list :: "'a::linorder list \<Rightarrow> nat" where
  "argmax_list xs = (case xs of [] \<Rightarrow> 0 | x # xs' \<Rightarrow> argmax_from 1 (0, x) xs')"

definition next_token ::
  "'a::linordered_field torch_ops \<Rightarrow> nat \<Rightarrow> 'a \<Rightarrow> 'a \<Rightarrow> 'a list \<Rightarrow> int" where
  "next_token T step temperature top_p next_logits =
     (if temperature \<le> 0 then int (argmax_list next_logits)
      else let probs = to_softmax T (map (\<lambda>l. l / temperature) next_logits)
      in if top_p < 1
         then let order = to_sort_desc T probs;
                  weights = nucleus_weights top_p (map (\<lambda>i. probs ! i) order)
              in int (order ! to_multinomial T step weights)
         else int (to_multinomial T step probs))"

section \<open>Routing\<close>

definition is_public_http_url :: "string \<Rightarrow> bool" where
  "is_public_http_url url =
     (if url = [] then False
      else if startswith (py_lower url) ''http://127.'' \<or> startswith (py_lower url) ''http://localhost''
        then False
      else if startswith url ''http://172.'' \<or> startswith url ''http://192.168.'' then False
      else if startswith url ''http://10.'' then False
      else startswith url ''http://'' \<or> startswith url ''https://'')"

definition is_reachable_mother_url :: "string \<Rightarrow> bool" where
  "is_reachable_mother_url url =
     (if \<not> is_public_http_url url then False else \<not> endswith (rstrip_slash url) '':8001'')"

fun mother_url_from :: "manifest_host list \<Rightarrow> string result" where
  "mother_url_from [] = Inl RuntimeError"
| "mother_url_from (h # hs) =
     (if mh_role h \<noteq> Some ''mother'' then mother_url_from hs
      else let url = rstrip_slash (str_or (mh_shard_manager_url h) []) in
        if is_reachable_mother_url url then Inr url
        else if truthy_str (mh_public_ip h) then Inr (''http://'' @ the (mh_public_ip h) @ '':8000'')
        else mother_url_from hs)"

definition resolve_mother_shard_url :: "environ \<Rightarrow> manifest_dict \<Rightarrow> string result" where
  "resolve_mother_shard_url env m =
     (let override = rstrip_slash (py_strip (str_or (env ''MOTHER_PUBLIC_SHARD_URL'') [])) in
      if override \<noteq> [] then Inr override
      else let gateway = rstrip_slash (py_strip
                 (str_or (env ''MOTHER_URL'') (str_or (env ''BLITZWING_MOTHER_URL'')
                    (str_or (env ''MOTHER_PUBLIC_GATEWAY_URL'') []))))
      in if gateway \<noteq> [] then Inr gateway else mother_url_from (md_hosts m))"

definition mh_range :: "manifest_host \<Rightarrow> range result" where
  "mh_range h = parse_range (the (mh_block_indices h))"

definition ordered_hosts :: "manifest_dict \<Rightarrow> manifest_host list result" where
  "ordered_hosts m =
     (let hs = filter (\<lambda>h. truthy_str (mh_block_indices h)) (md_hosts m)
      in rbind (rmap (\<lambda>h. rbind (mh_range h) (\<lambda>(s, e). Inr (s, h))) hs)
           (\<lambda>keyed. Inr (map snd (sort_key fst keyed))))"

fun chain_coverage_loop :: "manifest_host list \<Rightarrow> int \<Rightarrow> int result" where
  "chain_coverage_loop [] expected = Inr expected"
| "chain_coverage_loop (h # hs) expected =
     rbind (mh_range h) (\<lambda>(s, e). if s \<noteq> expected then Inl RuntimeError else chain_coverage_loop hs e)"

definition validate_chain_coverage :: "manifest_host list \<Rightarrow> int \<Rightarrow> unit result" where
  "validate_chain_coverage hs n_total =
     (if hs = [] then Inl RuntimeError
      else rbind (chain_coverage_loop hs 0) (\<lambda>expected.
        if n_total \<noteq> 0 \<and> expected \<noteq> n_total then Inl RuntimeError else Inr ()))"

definition host_http_url :: "environ \<Rightarrow> manifest_host \<Rightarrow> manifest_dict \<Rightarrow> string result" where
  "host_http_url env h m =
     (if mh_role h = Some ''mother'' then resolve_mother_shard_url env m
      else let url = rstrip_slash (str_or (mh_shard_manager_url h) [])
      in if \<not> is_public_http_url url then Inl RuntimeError else Inr url)"

section \<open>One pass along the chain\<close>

text \<open>
  \<open>net_prefix\<close> and \<open>net_continue\<close> are the POSTs of the two chain routes: the \<open>hidden\<close> payload of a
  2xx response, or the error \<open>raise_for_status\<close> and the transport raise. \<open>net_itemsize\<close> is NumPy's.
\<close>

record chain_net =
  net_prefix :: "string \<Rightarrow> int list \<Rightarrow> payload result"
  net_continue :: "string \<Rightarrow> payload \<Rightarrow> payload result"
  net_itemsize :: "string \<Rightarrow> nat option"

definition remote_prefix :: "chain_net \<Rightarrow> string \<Rightarrow> int list \<Rightarrow> tensor result" where
  "remote_prefix net url ids =
     rbind (net_prefix net (rstrip_slash url @ ''/v1/chain/prefix'') ids)
       (tensor_from_payload (net_itemsize net))"

definition remote_continue :: "chain_net \<Rightarrow> string \<Rightarrow> tensor \<Rightarrow> tensor result" where
  "remote_continue net url h =
     rbind (net_continue net (rstrip_slash url @ ''/v1/chain/continue'') (tensor_to_payload h))
       (tensor_from_payload (net_itemsize net))"

definition middle_hop ::
  "chain_net \<Rightarrow> environ \<Rightarrow> manifest_dict \<Rightarrow> manifest_host \<Rightarrow> tensor \<Rightarrow> tensor result" where
  "middle_hop net env m mid h = rbind (host_http_url env mid m) (\<lambda>url. remote_continue net url h)"

definition chain_forward ::
  "chain_net \<Rightarrow> environ \<Rightarrow> manifest_dict \<Rightarrow> (tensor, 'l) petals_model \<Rightarrow> (tensor, 'l) local_runner
     \<Rightarrow> manifest_host list \<Rightarrow> int list \<Rightarrow> tensor result" where
  "chain_forward net env m pm r upstream ids =
     (case upstream of
        [] \<Rightarrow> forward_prefix pm r ids
      | first # mids \<Rightarrow>
          rbind (host_http_url env first m) (\<lambda>url.
          rbind (remote_prefix net url ids) (\<lambda>h0.
          rbind (rfold (middle_hop net env m) mids h0) (\<lambda>h1. forward_tail pm r h1))))"

section \<open>Generation\<close>

record 'a tokenizer =
  tk_template :: "(string option \<times> string option) list \<Rightarrow> string option"
  tk_encode :: "string \<Rightarrow> int list"
  tk_decode :: "int list \<Rightarrow> string"
  tk_eos :: int

record inference_result =
  ir_text :: string
  ir_prompt_tokens :: nat
  ir_completion_tokens :: nat
  ir_finish_reason :: string

definition message_text :: "string option \<times> string option \<Rightarrow> string" where
  "message_text msg =
     (let role = (case fst msg of Some r \<Rightarrow> r | None \<Rightarrow> ''user'');
          content = (case snd msg of Some c \<Rightarrow> c | None \<Rightarrow> [])
      in ''<|'' @ role @ ''|>'' @ [CHR 0x0A] @ content @ ''</s>'')"

definition chat_prompt :: "'a tokenizer \<Rightarrow> (string option \<times> string option) list \<Rightarrow> string" where
  "chat_prompt tk messages =
     (case tk_template tk messages of
        Some prompt \<Rightarrow> prompt
      | None \<Rightarrow> concat (map message_text messages) @ ''<|assistant|>'' @ [CHR 0x0A])"

text \<open>
  The loop: \<open>step n ids generated\<close> is the next id of pass \<open>n\<close>. It ends at the end-of-sequence id or
  after \<open>todo\<close> passes; the flag says whether it ran out.
\<close>

fun gen_loop ::
  "(nat \<Rightarrow> int list \<Rightarrow> int list \<Rightarrow> int result) \<Rightarrow> int \<Rightarrow> int list \<Rightarrow> nat \<Rightarrow> nat \<Rightarrow> int list
     \<Rightarrow> (int list \<times> bool) result" where
  "gen_loop step eos input_ids n 0 generated = Inr (generated, True)"
| "gen_loop step eos input_ids n (Suc todo) generated =
     rbind (step n (input_ids @ generated) generated) (\<lambda>next_id.
       if next_id = eos then Inr (generated @ [next_id], False)
       else gen_loop step eos input_ids (Suc n) todo (generated @ [next_id]))"

definition chain_step ::
  "chain_net \<Rightarrow> environ \<Rightarrow> 'a::linordered_field torch_ops \<Rightarrow> 'a \<Rightarrow> 'a \<Rightarrow> 'a \<Rightarrow> manifest_dict
     \<Rightarrow> (tensor, 'a list) petals_model \<Rightarrow> (tensor, 'a list) local_runner \<Rightarrow> manifest_host list
     \<Rightarrow> nat \<Rightarrow> int list \<Rightarrow> int list \<Rightarrow> int result" where
  "chain_step net env T penalty temperature top_p m pm r upstream n token_ids generated =
     rbind (chain_forward net env m pm r upstream token_ids) (\<lambda>h.
     rbind (logits_from_hidden env pm r h) (\<lambda>logits.
     rbind (apply_repetition_penalty logits generated penalty) (\<lambda>next_logits.
       Inr (next_token T n temperature top_p next_logits))))"

text \<open>The checks before the first pass: the hosts in order, covering the layers, the last one this node.\<close>

definition chain_plan :: "string \<Rightarrow> manifest_dict option \<Rightarrow> (manifest_dict \<times> manifest_host list) result" where
  "chain_plan local_blocks manifest =
     (case manifest of None \<Rightarrow> Inl RuntimeError | Some m \<Rightarrow>
      rbind (ordered_hosts m) (\<lambda>hs.
      rbind (validate_chain_coverage hs (case md_total_layers m of Some n \<Rightarrow> n | None \<Rightarrow> 0)) (\<lambda>_.
      rbind (parse_range local_blocks) (\<lambda>local_range.
      rbind (mh_range (last hs)) (\<lambda>tail_range.
        if tail_range \<noteq> local_range then Inl RuntimeError else Inr (m, hs))))))"

definition chain_run ::
  "chain_net \<Rightarrow> environ \<Rightarrow> 'a::linordered_field torch_ops \<Rightarrow> 'a tokenizer \<Rightarrow> 'a
     \<Rightarrow> (tensor, 'a list) petals_model \<Rightarrow> (tensor, 'a list) local_runner
     \<Rightarrow> (string option \<times> string option) list \<Rightarrow> int \<Rightarrow> 'a \<Rightarrow> 'a \<Rightarrow> manifest_dict \<Rightarrow> manifest_host list
     \<Rightarrow> inference_result result" where
  "chain_run net env T tk penalty pm r messages max_tokens temperature top_p m hs =
     (let input_ids = tk_encode tk (chat_prompt tk messages);
          max_new = nat (max 1 (min max_tokens 512))
      in rbind (gen_loop (chain_step net env T penalty temperature top_p m pm r (butlast hs))
                  (tk_eos tk) input_ids 0 max_new [])
           (\<lambda>(generated, ran_out). Inr
             \<lparr>ir_text = tk_decode tk generated, ir_prompt_tokens = length input_ids,
              ir_completion_tokens = length generated,
              ir_finish_reason = (if ran_out then ''length'' else ''stop'')\<rparr>))"

text \<open>\<open>generate\<close> with the runner loaded; loading happens between the two parts.\<close>

definition generate ::
  "chain_net \<Rightarrow> environ \<Rightarrow> 'a::linordered_field torch_ops \<Rightarrow> 'a tokenizer \<Rightarrow> 'a
     \<Rightarrow> (tensor, 'a list) petals_model \<Rightarrow> (tensor, 'a list) local_runner \<Rightarrow> string
     \<Rightarrow> (string option \<times> string option) list \<Rightarrow> int \<Rightarrow> 'a \<Rightarrow> 'a \<Rightarrow> manifest_dict option
     \<Rightarrow> inference_result result" where
  "generate net env T tk penalty pm r local_blocks messages max_tokens temperature top_p manifest =
     rbind (chain_plan local_blocks manifest)
       (\<lambda>(m, hs). chain_run net env T tk penalty pm r messages max_tokens temperature top_p m hs)"

end
