(* ===== verification/ShardManager.thy ===== *)
theory ShardManager
  imports HttpChain
begin

text \<open>
  shard\_manager/app.py: the supervisor of one Petals server process, the handlers of its HTTP
  routes, and the two caches that depend on its block range (the local runner and the chain).
  What the operating system answers to one request is the record \<open>os_answer\<close>: the pid of a
  spawned process (or the failure of the spawn), the exit code a process has after the
  termination signal within the time limit, and after the kill.
\<close>

section \<open>State\<close>

record process =
  pr_pid :: int
  pr_exit :: "int option"
  pr_args :: "string list"

record shard_manager =
  sm_model :: string
  sm_public_ip :: "string option"
  sm_port :: int
  sm_identity_path :: string
  sm_device :: string
  sm_quant_type :: string
  sm_num_handlers :: int
  sm_python :: string
  sm_initial_peers :: "string list"
  sm_announce_maddrs :: "string list"
  sm_new_swarm :: bool
  sm_use_auto_relay :: bool
  sm_skip_reachability :: bool
  sm_block_indices :: string
  sm_proc :: "process option"
  sm_last_exit :: "int option"
  sm_auto_start :: bool
  sm_bootstrapped :: bool

record os_answer =
  os_spawn :: "int option"
  os_term :: "int option"
  os_kill :: "int option"

record status_response =
  st_running :: bool
  st_pid :: "int option"
  st_block_indices :: string
  st_model :: string
  st_public_ip :: "string option"
  st_port :: int
  st_last_exit :: "int option"
  st_identity_path :: string
  st_initial_peers :: "string list"
  st_new_swarm :: bool

definition truthy_one :: "string \<Rightarrow> bool" where
  "truthy_one v \<longleftrightarrow> v \<in> {''1'', ''true'', ''True''}"

definition resolve_use_auto_relay :: "environ \<Rightarrow> string list \<Rightarrow> bool \<Rightarrow> bool" where
  "resolve_use_auto_relay env announce new_swarm =
     (case env ''PETALS_USE_AUTO_RELAY'' of
        Some raw \<Rightarrow> raw \<notin> {''0'', ''false'', ''False'', ''no''}
      | None \<Rightarrow> if announce \<noteq> [] then False else \<not> new_swarm)"

definition shard_manager_init :: "environ \<Rightarrow> string \<Rightarrow> shard_manager result" where
  "shard_manager_init env home =
     rbind (py_int (getenv_or env ''PETALS_PORT'' ''31337'')) (\<lambda>port.
     rbind (py_int (getenv_or env ''PETALS_NUM_HANDLERS'' ''1'')) (\<lambda>handlers.
       let announce = split_peers (getenv_or env ''ANNOUNCE_MADDRS'' []);
           new_swarm = truthy_one (getenv_or env ''NEW_SWARM'' ''0'')
       in Inr
         \<lparr>sm_model = getenv_or env ''MODEL_NAME'' ''HuggingFaceTB/SmolLM2-360M-Instruct'',
          sm_public_ip = env ''PUBLIC_IP'', sm_port = port,
          sm_identity_path = getenv_or env ''IDENTITY_PATH'' (home @ ''/petals-identity''),
          sm_device = getenv_or env ''PETALS_DEVICE'' ''cpu'',
          sm_quant_type = getenv_or env ''PETALS_QUANT_TYPE'' ''none'', sm_num_handlers = handlers,
          sm_python = getenv_or env ''PETALS_PYTHON'' ''python'',
          sm_initial_peers = split_peers (getenv_or env ''INITIAL_PEERS'' []),
          sm_announce_maddrs = announce, sm_new_swarm = new_swarm,
          sm_use_auto_relay = resolve_use_auto_relay env announce new_swarm,
          sm_skip_reachability = truthy_one (getenv_or env ''PETALS_SKIP_REACHABILITY_CHECK'' ''1''),
          sm_block_indices = getenv_or env ''BLOCK_INDICES'' ''0:22'', sm_proc = None,
          sm_last_exit = None,
          sm_auto_start = getenv_or env ''SHARD_AUTO_START'' ''1'' \<notin> {''0'', ''false'', ''False''},
          sm_bootstrapped = False\<rparr>))"

section \<open>The supervisor\<close>

definition build_cmd :: "environ \<Rightarrow> shard_manager \<Rightarrow> string \<Rightarrow> bool \<Rightarrow> string list" where
  "build_cmd env m blocks bootstrap =
     [sm_python m, ''-m'', ''petals.cli.run_server'', sm_model m, ''--device'', sm_device m,
      ''--quant_type'', sm_quant_type m, ''--block_indices'', blocks, ''--port'', int_str (sm_port m),
      ''--identity_path'', sm_identity_path m, ''--num_handlers'', int_str (sm_num_handlers m)]
     @ (if sm_announce_maddrs m \<noteq> [] then ''--announce_maddrs'' # sm_announce_maddrs m
        else if truthy_str (sm_public_ip m) then [''--public_ip'', the (sm_public_ip m)] else [])
     @ (if bootstrap \<and> sm_new_swarm m then [''--new_swarm'']
        else if sm_initial_peers m \<noteq> [] \<and> \<not> truthy_str (env ''BLITZWING_HTTP_ONLY'')
          then ''--initial_peers'' # sm_initial_peers m else [])
     @ (if \<not> sm_use_auto_relay m then [''--no_auto_relay''] else [])
     @ (if sm_skip_reachability m then [''--skip_reachability_check''] else [])"

definition proc_running :: "shard_manager \<Rightarrow> bool" where
  "proc_running m = (case sm_proc m of Some p \<Rightarrow> pr_exit p = None | None \<Rightarrow> False)"

definition sm_start ::
  "environ \<Rightarrow> os_answer \<Rightarrow> string option \<Rightarrow> bool \<Rightarrow> shard_manager
     \<Rightarrow> unit result \<times> shard_manager" where
  "sm_start env os blocks bootstrap m =
     (let m1 = (if truthy_str blocks then m\<lparr>sm_block_indices := the blocks\<rparr> else m) in
      if proc_running m1 then (Inl RuntimeError, m1)
      else let use_bootstrap = bootstrap \<or> (sm_new_swarm m1 \<and> \<not> sm_bootstrapped m1);
               cmd = build_cmd env m1 (sm_block_indices m1) use_bootstrap
      in case os_spawn os of
           None \<Rightarrow> (Inl RuntimeError, m1)
         | Some pid \<Rightarrow>
             (Inr (), m1\<lparr>sm_proc := Some \<lparr>pr_pid = pid, pr_exit = None, pr_args = cmd\<rparr>,
                                  sm_last_exit := None, sm_bootstrapped := True\<rparr>))"

definition sm_stop :: "os_answer \<Rightarrow> shard_manager \<Rightarrow> unit result \<times> shard_manager" where
  "sm_stop os m =
     (if \<not> proc_running m then (Inr (), m\<lparr>sm_proc := None\<rparr>)
      else case os_term os of
             Some code \<Rightarrow> (Inr (), m\<lparr>sm_last_exit := Some code, sm_proc := None\<rparr>)
           | None \<Rightarrow>
               (case os_kill os of
                  Some code \<Rightarrow> (Inr (), m\<lparr>sm_last_exit := Some code, sm_proc := None\<rparr>)
                | None \<Rightarrow> (Inl RuntimeError, m\<lparr>sm_last_exit := None, sm_proc := None\<rparr>)))"

definition sm_reload ::
  "environ \<Rightarrow> os_answer \<Rightarrow> string \<Rightarrow> string list option \<Rightarrow> shard_manager
     \<Rightarrow> unit result \<times> shard_manager" where
  "sm_reload env os blocks peers m =
     (let m0 = (case peers of Some ps \<Rightarrow> m\<lparr>sm_initial_peers := ps\<rparr> | None \<Rightarrow> m);
          rebootstrap = sm_new_swarm m0
      in case sm_stop os m0 of
           (Inl e, m1) \<Rightarrow> (Inl e, m1)
         | (Inr _, m1) \<Rightarrow>
             sm_start env os (Some blocks) rebootstrap
               (if rebootstrap then m1\<lparr>sm_bootstrapped := False\<rparr> else m1))"

definition sm_status :: "shard_manager \<Rightarrow> status_response \<times> shard_manager" where
  "sm_status m =
     (let running = proc_running m;
          pid = (if running then map_option pr_pid (sm_proc m) else None);
          m1 = (case sm_proc m of
                  Some p \<Rightarrow> if \<not> running then m\<lparr>sm_last_exit := pr_exit p\<rparr> else m
                | None \<Rightarrow> m)
      in (\<lparr>st_running = running, st_pid = pid, st_block_indices = sm_block_indices m1, st_model = sm_model m1,
           st_public_ip = sm_public_ip m1, st_port = sm_port m1, st_last_exit = sm_last_exit m1,
           st_identity_path = sm_identity_path m1, st_initial_peers = sm_initial_peers m1,
           st_new_swarm = sm_new_swarm m1\<rparr>, m1))"

text \<open>The process ends on its own.\<close>

definition proc_exits :: "int \<Rightarrow> shard_manager \<Rightarrow> shard_manager" where
  "proc_exits code m = m\<lparr>sm_proc := map_option (\<lambda>p. p\<lparr>pr_exit := Some code\<rparr>) (sm_proc m)\<rparr>"

section \<open>The application: caches and routes\<close>

text \<open>
  The chain object refers to the runner that was cached when it was built. Both caches are only
  ever dropped together, so that runner is the cached one for as long as the chain is cached
  (\<open>caches_ok\<close> in \<open>ShardProps\<close>), and the reference needs no field of its own.
\<close>

record http_chain =
  hc_blocks :: string

record ('h, 'l) shard_app =
  manager :: shard_manager
  cached_runner :: "('h, 'l) local_runner option"
  cached_chain :: "http_chain option"

definition reset_inference_caches :: "('h, 'l) shard_app \<Rightarrow> ('h, 'l) shard_app" where
  "reset_inference_caches a = a\<lparr>cached_runner := None, cached_chain := None\<rparr>"

definition get_local_runner ::
  "string \<Rightarrow> ('h, 'l) shard_app \<Rightarrow> ('h, 'l) local_runner result \<times> ('h, 'l) shard_app" where
  "get_local_runner log_path a =
     (let blocks = sm_block_indices (manager a);
          a1 = (case cached_runner a of
                  Some r \<Rightarrow> if int_str (lr_block_start r) @ '':'' @ int_str (lr_block_end r) \<noteq> blocks
                            then reset_inference_caches a else a
                | None \<Rightarrow> a)
      in case cached_runner a1 of
           Some r \<Rightarrow> (Inr r, a1)
         | None \<Rightarrow>
             (case local_runner_init Map.empty [] False (sm_model (manager a1)) blocks
                     (sm_port (manager a1)) (Some log_path) of
                Inl e \<Rightarrow> (Inl e, a1)
              | Inr r \<Rightarrow> (Inr r, a1\<lparr>cached_runner := Some r\<rparr>)))"

definition get_http_chain ::
  "string \<Rightarrow> ('h, 'l) shard_app \<Rightarrow> http_chain result \<times> ('h, 'l) shard_app" where
  "get_http_chain log_path a =
     (case cached_chain a of
        Some c \<Rightarrow> (Inr c, a)
      | None \<Rightarrow>
          (case get_local_runner log_path a of
             (Inl e, a1) \<Rightarrow> (Inl e, a1)
           | (Inr r, a1) \<Rightarrow>
               (let c = \<lparr>hc_blocks = sm_block_indices (manager a1)\<rparr>
                in (Inr c, a1\<lparr>cached_chain := Some c\<rparr>))))"

text \<open>
  The background thread \<open>prefix-prewarm\<close> after its wait for a running process: it builds the runner,
  without loading it, and swallows an exception. A reload and the start-up start this thread.
\<close>

definition prewarm_local_runner :: "string \<Rightarrow> ('h, 'l) shard_app \<Rightarrow> ('h, 'l) shard_app" where
  "prewarm_local_runner log_path a = snd (get_local_runner log_path a)"

text \<open>
  What happens in the half second between the start of the thread and the response: the thread may
  have run to its end (with the log path it found) or still wait, and the process may have exited.
\<close>

record meanwhile =
  mw_prewarm :: "string option"
  mw_exit :: "int option"

definition let_pass :: "meanwhile \<Rightarrow> ('h, 'l) shard_app \<Rightarrow> ('h, 'l) shard_app" where
  "let_pass mw a =
     (let a1 = (case mw_prewarm mw of Some log_path \<Rightarrow> prewarm_local_runner log_path a | None \<Rightarrow> a)
      in case mw_exit mw of Some code \<Rightarrow> a1\<lparr>manager := proc_exits code (manager a1)\<rparr> | None \<Rightarrow> a1)"

text \<open>The pattern of \<open>ReloadRequest\<close>: digits, a colon, digits.\<close>

definition valid_block_indices :: "string \<Rightarrow> bool" where
  "valid_block_indices s =
     (case py_split CHR '':'' s of [a, b] \<Rightarrow> py_isdigit a \<and> py_isdigit b | _ \<Rightarrow> False)"

record reload_request =
  rr_block_indices :: string
  rr_initial_peers :: "string list option"

definition route_reload ::
  "environ \<Rightarrow> os_answer \<Rightarrow> meanwhile \<Rightarrow> reload_request \<Rightarrow> ('h, 'l) shard_app
     \<Rightarrow> status_response result \<times> ('h, 'l) shard_app" where
  "route_reload env os mw body a =
     (if \<not> valid_block_indices (rr_block_indices body) then (Inl (HTTPException 422), a)
      else case parse_range (rr_block_indices body) of Inl e \<Rightarrow> (Inl e, a) | Inr (s, e) \<Rightarrow>
      if e \<le> s then (Inl (HTTPException 400), a)
      else case sm_reload env os (rr_block_indices body) (rr_initial_peers body) (manager a) of
             (Inl _, m) \<Rightarrow> (Inl (HTTPException 500), a\<lparr>manager := m\<rparr>)
           | (Inr _, m) \<Rightarrow>
               (let a1 = let_pass mw ((reset_inference_caches a)\<lparr>manager := m\<rparr>)
                in case sm_status (manager a1) of (st, m') \<Rightarrow> (Inr st, a1\<lparr>manager := m'\<rparr>)))"

definition route_stop :: "os_answer \<Rightarrow> ('h, 'l) shard_app \<Rightarrow> status_response result \<times> ('h, 'l) shard_app" where
  "route_stop os a =
     (case sm_stop os (manager a) of
        (Inl e, m) \<Rightarrow> (Inl e, a\<lparr>manager := m\<rparr>)
      | (Inr _, m) \<Rightarrow> (case sm_status m of (st, m') \<Rightarrow> (Inr st, a\<lparr>manager := m'\<rparr>)))"

definition route_start ::
  "environ \<Rightarrow> os_answer \<Rightarrow> reload_request option \<Rightarrow> ('h, 'l) shard_app
     \<Rightarrow> status_response result \<times> ('h, 'l) shard_app" where
  "route_start env os body a =
     (if (case body of Some b \<Rightarrow> \<not> valid_block_indices (rr_block_indices b) | None \<Rightarrow> False)
      then (Inl (HTTPException 422), a)
      else case sm_start env os (map_option rr_block_indices body) False (manager a) of
             (Inl _, m) \<Rightarrow> (Inl (HTTPException 500), a\<lparr>manager := m\<rparr>)
           | (Inr _, m) \<Rightarrow> (case sm_status m of (st, m') \<Rightarrow> (Inr st, a\<lparr>manager := m'\<rparr>)))"

definition route_status :: "('h, 'l) shard_app \<Rightarrow> status_response \<times> ('h, 'l) shard_app" where
  "route_status a = (case sm_status (manager a) of (st, m) \<Rightarrow> (st, a\<lparr>manager := m\<rparr>))"

text \<open>
  The start-up: the automatic start (an exception is logged), then the thread. The heartbeat thread
  that \<open>maybe_start_from_env\<close> may start before asks for the status and no more
  (\<open>heartbeat_report\<close> and \<open>heartbeat_target\<close> in \<open>PeerVerify\<close>); its interval is taken to be a number.
\<close>

definition on_startup :: "environ \<Rightarrow> os_answer \<Rightarrow> meanwhile \<Rightarrow> ('h, 'l) shard_app \<Rightarrow> ('h, 'l) shard_app" where
  "on_startup env os mw a =
     let_pass mw
       (if sm_auto_start (manager a)
        then (case sm_start env os None (sm_new_swarm (manager a)) (manager a) of
                (_, m) \<Rightarrow> a\<lparr>manager := m\<rparr>)
        else a)"

text \<open>
  The two routes of the chain. \<open>load\<close> and \<open>polls\<close> are what the loading of the runner's model meets;
  any exception on the way becomes a 503.
\<close>

definition as_503 :: "'a result \<Rightarrow> 'a result" where
  "as_503 res = (case res of Inr x \<Rightarrow> Inr x | Inl _ \<Rightarrow> Inl (HTTPException 503))"

definition with_runner ::
  "(string \<Rightarrow> ('h, 'l) petals_model result) \<Rightarrow> string option list \<Rightarrow> string \<Rightarrow> ('h, 'l) shard_app
     \<Rightarrow> (('h, 'l) petals_model \<Rightarrow> ('h, 'l) local_runner \<Rightarrow> 'b result) \<Rightarrow> 'b result \<times> ('h, 'l) shard_app" where
  "with_runner load polls log_path a act =
     (case get_local_runner log_path a of
        (Inl e, a1) \<Rightarrow> (Inl e, a1)
      | (Inr r, a1) \<Rightarrow>
          (case ensure_loaded load polls r of
             (Inl e, r') \<Rightarrow> (Inl e, a1\<lparr>cached_runner := Some r'\<rparr>)
           | (Inr pm, r') \<Rightarrow> (act pm r', a1\<lparr>cached_runner := Some r'\<rparr>)))"

definition route_chain_prefix ::
  "(string \<Rightarrow> (tensor, 'l) petals_model result) \<Rightarrow> string option list \<Rightarrow> string \<Rightarrow> int list
     \<Rightarrow> (tensor, 'l) shard_app \<Rightarrow> payload result \<times> (tensor, 'l) shard_app" where
  "route_chain_prefix load polls log_path ids a =
     (case route_status a of (st, a0) \<Rightarrow>
      if \<not> st_running st then (Inl (HTTPException 503), a0)
      else case with_runner load polls log_path a0
                  (\<lambda>pm r. rbind (forward_prefix pm r ids) (\<lambda>h. Inr (tensor_to_payload h))) of
             (res, a1) \<Rightarrow> (as_503 res, a1))"

definition route_chain_continue ::
  "(string \<Rightarrow> nat option) \<Rightarrow> (string \<Rightarrow> (tensor, 'l) petals_model result) \<Rightarrow> string option list \<Rightarrow> string
     \<Rightarrow> payload \<Rightarrow> (tensor, 'l) shard_app \<Rightarrow> payload result \<times> (tensor, 'l) shard_app" where
  "route_chain_continue itemsize load polls log_path body a =
     (case route_status a of (st, a0) \<Rightarrow>
      if \<not> st_running st then (Inl (HTTPException 503), a0)
      else case with_runner load polls log_path a0
                  (\<lambda>pm r. rbind (tensor_from_payload itemsize body) (\<lambda>h.
                     rbind (forward_tail pm r h) (\<lambda>h'. Inr (tensor_to_payload h')))) of
             (res, a1) \<Rightarrow> (as_503 res, a1))"

text \<open>The chat route: the checks of the chain, then the loading of its runner, then the passes.\<close>

definition route_chat ::
  "chain_net \<Rightarrow> environ \<Rightarrow> 'a::linordered_field torch_ops \<Rightarrow> 'a tokenizer \<Rightarrow> 'a
     \<Rightarrow> (string \<Rightarrow> (tensor, 'a list) petals_model result) \<Rightarrow> string option list \<Rightarrow> string
     \<Rightarrow> (string option \<times> string option) list \<Rightarrow> int \<Rightarrow> 'a \<Rightarrow> 'a \<Rightarrow> manifest_dict option
     \<Rightarrow> (tensor, 'a list) shard_app \<Rightarrow> inference_result result \<times> (tensor, 'a list) shard_app" where
  "route_chat net env T tk penalty load polls log_path messages max_tokens temperature top_p manifest a =
     (case route_status a of (st, a0) \<Rightarrow>
      if \<not> st_running st then (Inl (HTTPException 503), a0)
      else if manifest = None then (Inl (HTTPException 400), a0)
      else case get_http_chain log_path a0 of (Inl e, a1) \<Rightarrow> (Inl (HTTPException 503), a1) | (Inr c, a1) \<Rightarrow>
      case chain_plan (hc_blocks c) manifest of Inl e \<Rightarrow> (Inl (HTTPException 503), a1) | Inr (m, hs) \<Rightarrow>
      case cached_runner a1 of None \<Rightarrow> (Inl (HTTPException 503), a1) | Some r \<Rightarrow>
      case ensure_loaded load polls r of
        (Inl e, r') \<Rightarrow> (Inl (HTTPException 503), a1\<lparr>cached_runner := Some r'\<rparr>)
      | (Inr pm, r') \<Rightarrow>
          (as_503 (chain_run net env T tk penalty pm r' messages max_tokens temperature top_p m hs),
           a1\<lparr>cached_runner := Some r'\<rparr>))"

definition shard_health :: "('h, 'l) shard_app \<Rightarrow> (string \<times> bool) \<times> ('h, 'l) shard_app" where
  "shard_health a = (case route_status a of (st, a') \<Rightarrow>
     ((if st_running st then ''ok'' else ''degraded'', st_running st), a'))"

definition on_shutdown :: "os_answer \<Rightarrow> ('h, 'l) shard_app \<Rightarrow> ('h, 'l) shard_app" where
  "on_shutdown os a = a\<lparr>manager := snd (sm_stop os (manager a))\<rparr>"

definition petals_log_path :: "environ \<Rightarrow> string \<Rightarrow> bool \<Rightarrow> string" where
  "petals_log_path env home mother_log_exists =
     (if truthy_str (env ''PETALS_SERVER_LOG'') then the (env ''PETALS_SERVER_LOG'')
      else if truthy_str (env ''CONTRIB_SHARD_LOG'') then the (env ''CONTRIB_SHARD_LOG'')
      else if mother_log_exists then home @ ''/blitzwing-logs/shard_manager.log''
      else home @ ''/.blitzwing/contrib_shard.out'')"

end
