(* ===== verification/ShardProps.thy ===== *)
theory ShardProps
  imports Complex_Main ShardManager
begin

text \<open>
  The properties of the shard manager: a reload that succeeds leaves one process on the requested
  range and nothing cached from before, a reload that fails leaves none or the old one, the local runner always
  has the current range; and the two ways the \<open>/start\<close> route breaks this.
\<close>

section \<open>What a manager serves\<close>

text \<open>The range of the running process, read off the command it was started with.\<close>

definition serving :: "shard_manager \<Rightarrow> string option" where
  "serving m = (if proc_running m then Some (pr_args (the (sm_proc m)) ! 9) else None)"

lemma build_cmd_blocks: "build_cmd env m blocks boot ! 8 = ''--block_indices''" "build_cmd env m blocks boot ! 9 = blocks"
  by (simp_all add: build_cmd_def nth_append)

lemma sm_stop_running: "sm_stop os m = (res, m') \<Longrightarrow> \<not> proc_running m' \<and> sm_proc m' = None
    \<and> sm_block_indices m' = sm_block_indices m \<and> sm_initial_peers m' = sm_initial_peers m
    \<and> sm_new_swarm m' = sm_new_swarm m \<and> sm_bootstrapped m' = sm_bootstrapped m"
  by (auto simp: sm_stop_def proc_running_def split: if_splits option.splits)

lemma sm_start_cases:
  "sm_start env os blocks boot m = (res, m') \<Longrightarrow>
   (\<exists>pid. os_spawn os = Some pid \<and> \<not> proc_running m \<and> res = Inr () \<and> proc_running m'
      \<and> pr_pid (the (sm_proc m')) = pid \<and> serving m' = Some (sm_block_indices m')
      \<and> sm_bootstrapped m')
   \<or> (res = Inl RuntimeError \<and> sm_proc m' = sm_proc m \<and> (proc_running m \<or> os_spawn os = None)
      \<and> sm_bootstrapped m' = sm_bootstrapped m)"
  by (auto simp: sm_start_def Let_def serving_def proc_running_def build_cmd_blocks
      split: if_splits option.splits)

lemma sm_start_fields:
  "sm_start env os blocks boot m = (res, m') \<Longrightarrow>
   sm_block_indices m' = (if truthy_str blocks then the blocks else sm_block_indices m)
   \<and> sm_initial_peers m' = sm_initial_peers m \<and> sm_new_swarm m' = sm_new_swarm m"
  by (auto simp: sm_start_def Let_def split: if_splits option.splits)

lemma sm_status_same:
  "sm_status m = (st, m') \<Longrightarrow> serving m' = serving m \<and> sm_block_indices m' = sm_block_indices m
     \<and> sm_proc m' = sm_proc m \<and> st_running st = proc_running m \<and> st_block_indices st = sm_block_indices m
     \<and> st_initial_peers st = sm_initial_peers m \<and> sm_initial_peers m' = sm_initial_peers m
     \<and> sm_model m' = sm_model m \<and> sm_port m' = sm_port m"
  by (auto simp: sm_status_def Let_def serving_def proc_running_def split: option.splits if_splits)

lemma sm_reload_ok:
  assumes r: "sm_reload env os blocks peers m = (Inr u, m')" and ne: "blocks \<noteq> []"
  shows "serving m' = Some blocks \<and> sm_block_indices m' = blocks
    \<and> sm_initial_peers m' = (case peers of Some ps \<Rightarrow> ps | None \<Rightarrow> sm_initial_peers m)"
proof -
  let ?m0 = "(case peers of Some ps \<Rightarrow> m\<lparr>sm_initial_peers := ps\<rparr> | None \<Rightarrow> m)"
  obtain sres m1 where st: "sm_stop os ?m0 = (sres, m1)" by fastforce
  let ?m2 = "if sm_new_swarm ?m0 then m1\<lparr>sm_bootstrapped := False\<rparr> else m1"
  have s: "sm_start env os (Some blocks) (sm_new_swarm ?m0) ?m2 = (Inr u, m')"
    using r st by (auto simp: sm_reload_def Let_def split: sum.splits)
  have "sm_initial_peers ?m2 = (case peers of Some ps \<Rightarrow> ps | None \<Rightarrow> sm_initial_peers m)"
    using sm_stop_running [OF st] by (simp split: option.splits)
  then show ?thesis using sm_start_cases [OF s] sm_start_fields [OF s] ne by auto
qed

lemma sm_reload_fails:
  assumes "sm_reload env os blocks peers m = (Inl e, m')"
  shows "serving m' = None"
proof -
  let ?m0 = "(case peers of Some ps \<Rightarrow> m\<lparr>sm_initial_peers := ps\<rparr> | None \<Rightarrow> m)"
  obtain sres m1 where st: "sm_stop os ?m0 = (sres, m1)" by fastforce
  note stopped = sm_stop_running [OF st]
  let ?m2 = "if sm_new_swarm ?m0 then m1\<lparr>sm_bootstrapped := False\<rparr> else m1"
  show ?thesis
  proof (cases sres)
    case (Inl x)
    then show ?thesis using assms st stopped by (simp add: sm_reload_def Let_def serving_def)
  next
    case (Inr u)
    then have s: "sm_start env os (Some blocks) (sm_new_swarm ?m0) ?m2 = (Inl e, m')"
      using assms st by (simp add: sm_reload_def Let_def)
    have "sm_proc ?m2 = None" using stopped by simp
    with sm_start_cases [OF s] show ?thesis by (auto simp: serving_def proc_running_def)
  qed
qed

lemma valid_not_empty: "valid_block_indices s \<Longrightarrow> s \<noteq> []"
  by (auto simp: valid_block_indices_def)

section \<open>Reloading\<close>

lemma let_pass_quiet [simp]: "let_pass \<lparr>mw_prewarm = None, mw_exit = None\<rparr> a = a"
  by (simp add: let_pass_def)

lemma prewarm_manager: "manager (prewarm_local_runner log_path a) = manager a"
  and prewarm_chain: "cached_chain a = None \<Longrightarrow> cached_chain (prewarm_local_runner log_path a) = None"
  by (auto simp: prewarm_local_runner_def get_local_runner_def reset_inference_caches_def Let_def
      split: option.splits sum.splits)

lemma prewarm_fresh:
  assumes "cached_runner a = None" and "parse_range (sm_block_indices (manager a)) = Inr (s, e)"
  shows "\<exists>r. cached_runner (prewarm_local_runner log_path a) = Some r \<and> lr_model r = None
    \<and> lr_block_start r = s \<and> lr_block_end r = e"
  using assms by (simp add: prewarm_local_runner_def get_local_runner_def local_runner_init_def)

lemma let_pass_manager:
  "manager (let_pass mw a) = (case mw_exit mw of Some code \<Rightarrow> proc_exits code (manager a) | None \<Rightarrow> manager a)"
  by (auto simp: let_pass_def Let_def prewarm_manager split: option.splits)

lemma let_pass_runner:
  assumes "cached_runner a = None" and "cached_chain a = None"
    and "parse_range (sm_block_indices (manager a)) = Inr (s, e)"
  shows "cached_chain (let_pass mw a) = None
    \<and> (cached_runner (let_pass mw a) = None \<longleftrightarrow> mw_prewarm mw = None)
    \<and> (\<forall>r. cached_runner (let_pass mw a) = Some r \<longrightarrow> lr_model r = None \<and> lr_block_start r = s \<and> lr_block_end r = e)"
proof (cases "mw_prewarm mw")
  case None
  then show ?thesis using assms by (simp add: let_pass_def split: option.splits)
next
  case (Some log_path)
  obtain r where "cached_runner (prewarm_local_runner log_path a) = Some r" "lr_model r = None"
    "lr_block_start r = s" "lr_block_end r = e"
    using prewarm_fresh [OF assms(1,3)] by blast
  then show ?thesis using Some prewarm_chain [OF assms(2)] by (simp add: let_pass_def Let_def split: option.splits)
qed

text \<open>A reload request that succeeds, part by part.\<close>

lemma route_reload_parts:
  assumes "route_reload env os mw body a = (Inr st, a')"
  obtains s e m m' where "valid_block_indices (rr_block_indices body)"
    and "parse_range (rr_block_indices body) = Inr (s, e)"
    and "sm_reload env os (rr_block_indices body) (rr_initial_peers body) (manager a) = (Inr (), m)"
    and "sm_status (manager (let_pass mw ((reset_inference_caches a)\<lparr>manager := m\<rparr>))) = (st, m')"
    and "a' = (let_pass mw ((reset_inference_caches a)\<lparr>manager := m\<rparr>))\<lparr>manager := m'\<rparr>"
  using assms by (auto simp: route_reload_def Let_def split: if_splits sum.splits prod.splits)

lemma proc_exits_serving [simp]: "serving (proc_exits code m) = None" "sm_block_indices (proc_exits code m) = sm_block_indices m"
  by (auto simp: serving_def proc_exits_def proc_running_def split: option.splits)

text \<open>C18. A reload request that is answered with success has stopped the old process and started one
  on exactly the requested range; it runs, and is reported as running, unless it exited in the half
  second before the response. No cache from before survives: no chain is cached, and a runner is
  cached only when the background thread was quick enough, and then it is a new one, not loaded
  yet, on the requested range. The request does succeed for every well-formed non-empty range when
  the old process can be stopped and the new one spawned.\<close>

theorem reload_serves_range:
  "(route_reload env os mw body a = (Inr st, a') \<longrightarrow>
      serving (manager a') = (if mw_exit mw = None then Some (rr_block_indices body) else None)
      \<and> (\<exists>p. sm_proc (manager a') = Some p \<and> pr_args p ! 9 = rr_block_indices body \<and> pr_exit p = mw_exit mw)
      \<and> (st_running st \<longleftrightarrow> mw_exit mw = None) \<and> st_block_indices st = rr_block_indices body
      \<and> cached_chain a' = None \<and> (cached_runner a' = None \<longleftrightarrow> mw_prewarm mw = None)
      \<and> (\<forall>r. cached_runner a' = Some r \<longrightarrow> lr_model r = None
           \<and> parse_range (rr_block_indices body) = Inr (lr_block_start r, lr_block_end r)))
   \<and> (valid_block_indices (rr_block_indices body) \<and> parse_range (rr_block_indices body) = Inr (s, e) \<and> s < e
      \<and> os_spawn os \<noteq> None \<and> (os_term os \<noteq> None \<or> os_kill os \<noteq> None)
      \<longrightarrow> (\<exists>st a'. route_reload env os mw body a = (Inr st, a')))"
proof (intro conjI [where Q = "_ \<longrightarrow> _"] impI)
  assume "route_reload env os mw body a = (Inr st, a')"
  then obtain s e m m' where v: "valid_block_indices (rr_block_indices body)"
    and p: "parse_range (rr_block_indices body) = Inr (s, e)"
    and m: "sm_reload env os (rr_block_indices body) (rr_initial_peers body) (manager a) = (Inr (), m)"
    and st: "sm_status (manager (let_pass mw ((reset_inference_caches a)\<lparr>manager := m\<rparr>))) = (st, m')"
    and a': "a' = (let_pass mw ((reset_inference_caches a)\<lparr>manager := m\<rparr>))\<lparr>manager := m'\<rparr>"
    by (rule route_reload_parts)
  let ?b = "(reset_inference_caches a)\<lparr>manager := m\<rparr>"
  note ok = sm_reload_ok [OF m valid_not_empty [OF v]]
  then obtain pr where pr: "sm_proc m = Some pr" "pr_exit pr = None" "pr_args pr ! 9 = rr_block_indices body"
    by (auto simp: serving_def proc_running_def split: if_splits option.splits)
  have caches: "cached_runner ?b = None" "cached_chain ?b = None" "parse_range (sm_block_indices (manager ?b)) = Inr (s, e)"
    using ok p by (simp_all add: reset_inference_caches_def)
  note run = let_pass_runner [OF caches, of mw]
  note same = sm_status_same [OF st]
  have "\<exists>p. sm_proc (manager a') = Some p \<and> pr_args p ! 9 = rr_block_indices body \<and> pr_exit p = mw_exit mw"
    using same pr by (auto simp: a' let_pass_manager proc_exits_def split: option.splits)
  moreover have "serving (manager a') = (if mw_exit mw = None then Some (rr_block_indices body) else None)"
    using same ok by (auto simp: a' let_pass_manager split: option.splits)
  moreover have "st_running st \<longleftrightarrow> mw_exit mw = None"
    using same pr by (auto simp: let_pass_manager proc_running_def proc_exits_def split: option.splits)
  moreover have "st_block_indices st = rr_block_indices body"
    using same ok by (auto simp: let_pass_manager split: option.splits)
  ultimately show "serving (manager a') = (if mw_exit mw = None then Some (rr_block_indices body) else None)
      \<and> (\<exists>p. sm_proc (manager a') = Some p \<and> pr_args p ! 9 = rr_block_indices body \<and> pr_exit p = mw_exit mw)
      \<and> (st_running st \<longleftrightarrow> mw_exit mw = None) \<and> st_block_indices st = rr_block_indices body
      \<and> cached_chain a' = None \<and> (cached_runner a' = None \<longleftrightarrow> mw_prewarm mw = None)
      \<and> (\<forall>r. cached_runner a' = Some r \<longrightarrow> lr_model r = None
           \<and> parse_range (rr_block_indices body) = Inr (lr_block_start r, lr_block_end r))"
    using run p by (auto simp: a')
next
  assume h: "valid_block_indices (rr_block_indices body) \<and> parse_range (rr_block_indices body) = Inr (s, e) \<and> s < e
      \<and> os_spawn os \<noteq> None \<and> (os_term os \<noteq> None \<or> os_kill os \<noteq> None)"
  obtain res m where m: "sm_reload env os (rr_block_indices body) (rr_initial_peers body) (manager a) = (res, m)"
    by fastforce
  have "res = Inr ()"
    using m h by (auto simp: sm_reload_def sm_stop_def sm_start_def Let_def proc_running_def
        split: if_splits option.splits)
  with m h show "\<exists>st a'. route_reload env os mw body a = (Inr st, a')"
    by (auto simp: route_reload_def Let_def split: prod.splits)
qed

text \<open>Nothing happens in the half second.\<close>

definition quiet :: meanwhile where
  "quiet = \<lparr>mw_prewarm = None, mw_exit = None\<rparr>"

lemma let_pass_quiet' [simp]: "let_pass quiet a = a"
  by (simp add: quiet_def)

definition ex_environ0 :: environ where
  "ex_environ0 = [''PETALS_PORT'' \<mapsto> ''7'', ''BLOCK_INDICES'' \<mapsto> ''0:4'']"

definition ex_app :: "(tensor, rat list) shard_app" where
  "ex_app = (case shard_manager_init ex_environ0 ''/root'' of
     Inr m \<Rightarrow> on_startup ex_environ0 \<lparr>os_spawn = Some 1, os_term = None, os_kill = None\<rparr> quiet
                \<lparr>manager = m, cached_runner = None, cached_chain = None\<rparr>
   | Inl _ \<Rightarrow> undefined)"

definition ex_os :: "int \<Rightarrow> os_answer" where
  "ex_os pid = \<lparr>os_spawn = Some pid, os_term = Some 0, os_kill = None\<rparr>"

lemma reload_serves_range_witness:
  "\<exists>st a' r. route_reload ex_environ0 (ex_os 2) \<lparr>mw_prewarm = Some ''log'', mw_exit = None\<rparr>
       \<lparr>rr_block_indices = ''2:4'', rr_initial_peers = None\<rparr> ex_app = (Inr st, a')
     \<and> serving (manager a') = Some ''2:4'' \<and> cached_runner a' = Some r \<and> lr_model r = None"
proof -
  let ?b = "\<lparr>rr_block_indices = ''2:4'', rr_initial_peers = None\<rparr>"
  let ?w = "\<lparr>mw_prewarm = Some ''log'', mw_exit = None\<rparr>"
  have "valid_block_indices (rr_block_indices ?b)" "parse_range (rr_block_indices ?b) = Inr (2, 4)" by code_simp+
  then have "\<exists>st a'. route_reload ex_environ0 (ex_os 2) ?w ?b ex_app = (Inr st, a')"
    using reload_serves_range [of ex_environ0 "ex_os 2" ?w ?b ex_app _ _ 2 4] by (simp add: ex_os_def)
  then obtain st a' where p: "route_reload ex_environ0 (ex_os 2) ?w ?b ex_app = (Inr st, a')" by blast
  with reload_serves_range [of ex_environ0 "ex_os 2" ?w ?b ex_app st a' 2 4] show ?thesis by fastforce
qed

text \<open>A reload request that fails never leaves the manager serving a range nobody asked for: either
  the request was refused before anything changed, or no process is left.\<close>

lemma failed_reload_serves_nothing:
  assumes "route_reload env os mw body a = (Inl e, a')"
  shows "a' = a \<or> (e = HTTPException 500 \<and> serving (manager a') = None)"
  using assms sm_reload_fails
  by (auto simp: route_reload_def Let_def split: if_splits sum.splits prod.splits)

lemma failed_reload_serves_nothing_witness:
  "\<exists>a'. route_reload ex_environ0 \<lparr>os_spawn = None, os_term = Some 0, os_kill = None\<rparr> quiet
     \<lparr>rr_block_indices = ''2:4'', rr_initial_peers = None\<rparr> ex_app = (Inl (HTTPException 500), a')
     \<and> serving (manager a') = None"
proof -
  let ?p = "route_reload ex_environ0 \<lparr>os_spawn = None, os_term = Some 0, os_kill = None\<rparr> quiet
     \<lparr>rr_block_indices = ''2:4'', rr_initial_peers = None\<rparr> ex_app"
  have e: "fst ?p = Inl (HTTPException 500)" by code_simp
  have d: "sm_proc (manager (snd ?p)) = None" "sm_proc (manager ex_app) \<noteq> None" by code_simp+
  from e have p: "?p = (Inl (HTTPException 500), snd ?p)" by (simp add: prod_eq_iff)
  from failed_reload_serves_nothing [OF p] d have "serving (manager (snd ?p)) = None" by auto
  with p show ?thesis by blast
qed

section \<open>One process\<close>

text \<open>
  The processes that are alive, next to the manager. A pid the system hands out is not one of a
  living process, and a process that is stopped within the limits is gone.
\<close>

inductive sm_step :: "shard_manager \<times> int set \<Rightarrow> shard_manager \<times> int set \<Rightarrow> bool" where
  spawn_ok: "sm_start env os blocks boot m = (Inr u, m') \<Longrightarrow> os_spawn os = Some pid \<Longrightarrow> pid \<notin> live \<Longrightarrow>
     sm_step (m, live) (m', insert pid live)"
| spawn_refused: "sm_start env os blocks boot m = (Inl e, m') \<Longrightarrow> sm_step (m, live) (m', live)"
| stop_ok: "sm_stop os m = (Inr u, m') \<Longrightarrow>
     sm_step (m, live) (m', if proc_running m then live - {pr_pid (the (sm_proc m))} else live)"
| exits: "proc_running m \<Longrightarrow> sm_step (m, live) (proc_exits code m, live - {pr_pid (the (sm_proc m))})"
| asked: "sm_status m = (st, m') \<Longrightarrow> sm_step (m, live) (m', live)"

inductive_cases sm_stepE: "sm_step (m, live) s'"

definition tracked :: "shard_manager \<times> int set \<Rightarrow> bool" where
  "tracked s \<longleftrightarrow> snd s = (if proc_running (fst s) then {pr_pid (the (sm_proc (fst s)))} else {})"

lemma tracked_iff: "tracked (m, live) \<longleftrightarrow> live = (if proc_running m then {pr_pid (the (sm_proc m))} else {})"
  unfolding tracked_def fst_conv snd_conv ..

lemma tracked_step: "sm_step s s' \<Longrightarrow> tracked s \<Longrightarrow> tracked s'"
proof (induction rule: sm_step.induct)
  case (spawn_ok env os blocks boot m u m' pid live)
  then show ?case using sm_start_cases [OF spawn_ok(1)] by (auto simp: tracked_iff)
next
  case (spawn_refused env os blocks boot m e m' live)
  then have "sm_proc m' = sm_proc m" using sm_start_cases by fastforce
  then show ?case using spawn_refused by (simp add: tracked_iff proc_running_def)
next
  case (stop_ok os m u m' live)
  then show ?case using sm_stop_running [OF stop_ok(1)] by (auto simp: tracked_iff)
next
  case (exits m live code)
  then show ?case by (auto simp: tracked_iff proc_exits_def proc_running_def split: option.splits)
next
  case (asked m st m' live)
  then show ?case using sm_status_same [OF asked(1)] by (simp add: tracked_iff proc_running_def)
qed

text \<open>The manager never has two servers alive: in every run of starts, stops, exits and status calls
  the living processes are the one it tracks, or none.\<close>

lemma one_server_process:
  assumes "sm_step\<^sup>*\<^sup>* (m0, {}) (m, live)" and "\<not> proc_running m0"
  shows "live = (if proc_running m then {pr_pid (the (sm_proc m))} else {})"
proof -
  have "tracked s'" if "sm_step\<^sup>*\<^sup>* s s'" "tracked s" for s s'
    using that by (induction rule: rtranclp_induct) (auto dest: tracked_step)
  from this [OF assms(1)] assms(2) show ?thesis by (simp add: tracked_iff)
qed

definition ex_idle :: shard_manager where
  "ex_idle = (case shard_manager_init ex_environ0 ''/root'' of Inr m \<Rightarrow> m | Inl _ \<Rightarrow> undefined)"

lemma one_server_process_witness:
  "{3} = (let m = snd (sm_start ex_environ0 (ex_os 3) None False ex_idle) in
     if proc_running m then {pr_pid (the (sm_proc m))} else {})"
proof -
  let ?p = "sm_start ex_environ0 (ex_os 3) None False ex_idle"
  have "fst ?p = Inr ()" by code_simp
  then have "?p = (Inr (), snd ?p)" by (simp add: prod_eq_iff)
  then have "sm_step (ex_idle, {}) (snd ?p, insert 3 {})" by (rule spawn_ok) (simp_all add: ex_os_def)
  then have "sm_step\<^sup>*\<^sup>* (ex_idle, {}) (snd ?p, {3})" by simp
  moreover have "\<not> proc_running ex_idle" by code_simp
  ultimately show ?thesis unfolding Let_def by (rule one_server_process)
qed

section \<open>The caches\<close>

lemma get_local_runner_current:
  assumes "get_local_runner log_path a = (Inr r, a')"
  shows "parse_range (sm_block_indices (manager a)) = Inr (lr_block_start r, lr_block_end r)
    \<and> manager a' = manager a \<and> cached_runner a' = Some r"
proof (cases "cached_runner a")
  case None
  with assms show ?thesis
    by (auto simp: get_local_runner_def local_runner_init_def rbind_Inr_iff split: sum.splits)
next
  case (Some c)
  show ?thesis
  proof (cases "int_str (lr_block_start c) @ '':'' @ int_str (lr_block_end c) = sm_block_indices (manager a)")
    case True
    then have "sm_block_indices (manager a) = format_range (lr_block_start c) (lr_block_end c)"
      by (simp add: format_range_def)
    with assms Some True show ?thesis by (simp add: get_local_runner_def)
  next
    case False
    with assms Some show ?thesis
      by (auto simp: get_local_runner_def reset_inference_caches_def local_runner_init_def rbind_Inr_iff Let_def
          split: sum.splits)
  qed
qed

text \<open>The runner a chain request uses always covers the manager's current range, whatever was cached.\<close>

lemma local_runner_is_current:
  assumes "get_local_runner log_path a = (Inr r, a')"
  shows "parse_range (sm_block_indices (manager a)) = Inr (lr_block_start r, lr_block_end r)
    \<and> manager a' = manager a \<and> cached_runner a' = Some r"
  using assms by (rule get_local_runner_current)

lemma local_runner_is_current_witness:
  "\<exists>r a'. get_local_runner ''log'' ex_app = (Inr r, a') \<and> parse_range ''0:4'' = Inr (lr_block_start r, lr_block_end r)"
proof -
  have b: "sm_block_indices (manager ex_app) = ''0:4''" "cached_runner ex_app = None" by code_simp+
  have "parse_range ''0:4'' = Inr (0, 4)" by code_simp
  with b have "\<exists>r a'. get_local_runner ''log'' ex_app = (Inr r, a')"
    by (simp add: get_local_runner_def local_runner_init_def)
  then obtain r a' where "get_local_runner ''log'' ex_app = (Inr r, a')" by blast
  with local_runner_is_current [OF this] b show ?thesis by auto
qed

text \<open>The chain is cached only with a runner for its blocks: the state every route keeps.\<close>

definition caches_ok :: "('h, 'l) shard_app \<Rightarrow> bool" where
  "caches_ok a \<longleftrightarrow> (\<forall>c. cached_chain a = Some c \<longrightarrow>
     (\<exists>r. cached_runner a = Some r \<and> parse_range (hc_blocks c) = Inr (lr_block_start r, lr_block_end r)))"

lemma caches_ok_manager: "caches_ok (a\<lparr>manager := m\<rparr>) = caches_ok a"
  by (simp add: caches_ok_def)

lemma caches_ok_reset: "caches_ok (reset_inference_caches a)"
  by (simp add: caches_ok_def reset_inference_caches_def)

lemma caches_ok_get_runner:
  assumes "caches_ok a" and "get_local_runner log_path a = (res, a')"
  shows "caches_ok a'"
  using assms
  by (auto simp: get_local_runner_def caches_ok_def reset_inference_caches_def Let_def
      split: option.splits sum.splits if_splits)

lemma caches_ok_let_pass: "caches_ok a \<Longrightarrow> caches_ok (let_pass mw a)"
  using caches_ok_get_runner [OF _ surjective_pairing]
  by (auto simp: let_pass_def Let_def prewarm_local_runner_def caches_ok_manager split: option.splits)

lemma caches_ok_loaded:
  assumes "caches_ok a" and "cached_runner a = Some r" and "ensure_loaded load polls r = (res, r')"
  shows "caches_ok (a\<lparr>cached_runner := Some r'\<rparr>)"
  using assms ensure_loaded_fields [OF assms(3)] by (auto simp: caches_ok_def)

lemma caches_ok_with_runner:
  assumes "caches_ok a"
  shows "caches_ok (snd (with_runner load polls log_path a act))"
proof -
  obtain res a1 where g: "get_local_runner log_path a = (res, a1)" by fastforce
  note ok = caches_ok_get_runner [OF assms g]
  show ?thesis
  proof (cases res)
    case (Inr r)
    obtain l r' where l: "ensure_loaded load polls r = (l, r')" by fastforce
    have "caches_ok (a1\<lparr>cached_runner := Some r'\<rparr>)"
      using caches_ok_loaded [OF ok _ l] get_local_runner_current [OF g [unfolded Inr]] by blast
    with g Inr l show ?thesis by (cases l) (simp_all add: with_runner_def)
  qed (use g ok in \<open>simp add: with_runner_def\<close>)
qed

lemma get_http_chain_ok:
  assumes ok: "caches_ok a" and g: "get_http_chain log_path a = (res, a')"
  shows "caches_ok a' \<and> (\<forall>c. res = Inr c \<longrightarrow>
     (\<exists>r. cached_runner a' = Some r \<and> parse_range (hc_blocks c) = Inr (lr_block_start r, lr_block_end r)))"
proof (cases "cached_chain a")
  case (Some c)
  with g have "res = Inr c" "a' = a" by (simp_all add: get_http_chain_def)
  with Some ok show ?thesis by (simp add: caches_ok_def)
next
  case None
  obtain rr a1 where l: "get_local_runner log_path a = (rr, a1)" by fastforce
  show ?thesis
  proof (cases rr)
    case (Inl e)
    with None g l caches_ok_get_runner [OF ok l] show ?thesis by (auto simp: get_http_chain_def)
  next
    case (Inr r)
    note cur = get_local_runner_current [OF l [unfolded Inr]]
    have "res = Inr \<lparr>hc_blocks = sm_block_indices (manager a)\<rparr>" "a' = a1\<lparr>cached_chain := Some \<lparr>hc_blocks = sm_block_indices (manager a)\<rparr>\<rparr>"
      using None g l Inr cur by (auto simp: get_http_chain_def Let_def)
    with cur show ?thesis by (auto simp: caches_ok_def)
  qed
qed

lemma caches_ok_status: "route_status a = (st, a') \<Longrightarrow> caches_ok a \<Longrightarrow> caches_ok a'"
  by (auto simp: route_status_def caches_ok_manager split: prod.splits)

lemma caches_ok_chat:
  assumes ok: "caches_ok a"
  shows "caches_ok (snd (route_chat net env T tk penalty load polls log_path msgs n temp top_p manifest a))"
proof -
  obtain st a0 where st: "route_status a = (st, a0)" by fastforce
  note ok0 = caches_ok_status [OF st ok]
  obtain res a1 where g: "get_http_chain log_path a0 = (res, a1)" by fastforce
  note ok1 = get_http_chain_ok [OF ok0 g, THEN conjunct1]
  have load: "caches_ok (a1\<lparr>cached_runner := Some (snd (ensure_loaded load polls r))\<rparr>)" if "cached_runner a1 = Some r" for r
    using caches_ok_loaded [OF ok1 that surjective_pairing] .
  show ?thesis
    using ok0 ok1 load
    by (auto simp: route_chat_def st g split: sum.splits option.splits prod.splits)
qed

text \<open>Every route of the application.\<close>

inductive app_step :: "('a::linordered_field) itself \<Rightarrow> (tensor, 'a list) shard_app \<Rightarrow> (tensor, 'a list) shard_app \<Rightarrow> bool"
  for T where
  app_reload: "app_step T a (snd (route_reload env os mw body a))"
| app_stop: "app_step T a (snd (route_stop os a))"
| app_start: "app_step T a (snd (route_start env os b a))"
| app_status: "app_step T a (snd (route_status a))"
| app_prefix: "app_step T a (snd (route_chain_prefix load polls log_path ids a))"
| app_continue: "app_step T a (snd (route_chain_continue itemsize load polls log_path body a))"
| app_chat: "app_step T a (snd (route_chat net env torch tk penalty load polls log_path msgs n temp top_p manifest a))"
| app_prewarm: "app_step T a (prewarm_local_runner log_path a)"
| app_exit: "app_step T a (a\<lparr>manager := proc_exits code (manager a)\<rparr>)"

lemma app_step_caches: "app_step T a a' \<Longrightarrow> caches_ok a \<Longrightarrow> caches_ok a'"
proof (induction rule: app_step.induct)
  case (app_reload a env os mw body)
  have "caches_ok (let_pass mw ((reset_inference_caches a)\<lparr>manager := m\<rparr>))" for m
    by (rule caches_ok_let_pass) (simp add: caches_ok_manager caches_ok_reset)
  with app_reload show ?case
    by (auto simp: route_reload_def caches_ok_manager Let_def split: sum.splits prod.splits)
next
  case (app_prefix a load polls log_path ids)
  then show ?case
    by (auto simp: route_chain_prefix_def dest: caches_ok_status split: prod.splits)
      (metis caches_ok_status caches_ok_with_runner snd_conv)
next
  case (app_continue a itemsize load polls log_path body)
  then show ?case
    by (auto simp: route_chain_continue_def dest: caches_ok_status split: prod.splits)
      (metis caches_ok_status caches_ok_with_runner snd_conv)
next
  case (app_prewarm a log_path)
  then show ?case
    unfolding prewarm_local_runner_def by (rule caches_ok_get_runner [OF _ surjective_pairing])
next
  case (app_chat a net env torch tk penalty load polls log_path msgs n temp top_p manifest)
  then show ?case by (rule caches_ok_chat)
next
  case (app_status a)
  then show ?case by (rule caches_ok_status [OF surjective_pairing])
qed (auto simp: route_stop_def route_start_def caches_ok_manager split: sum.splits prod.splits)

text \<open>In every run of the application's routes, of process exits and of the background thread, a
  cached chain comes with a cached runner that covers exactly the blocks of the chain.\<close>

lemma chain_has_its_runner:
  assumes "(app_step T)\<^sup>*\<^sup>* \<lparr>manager = m0, cached_runner = None, cached_chain = None\<rparr> a"
    and "get_http_chain log_path a = (Inr c, a')"
  shows "\<exists>r. cached_runner a' = Some r \<and> parse_range (hc_blocks c) = Inr (lr_block_start r, lr_block_end r)"
proof -
  have "caches_ok a"
    using assms(1) by (induction rule: rtranclp_induct) (auto simp: caches_ok_def dest: app_step_caches)
  from get_http_chain_ok [OF this assms(2)] show ?thesis by blast
qed

lemma chain_has_its_runner_witness:
  "\<exists>c a' r. get_http_chain ''log'' ex_app = (Inr c, a') \<and> hc_blocks c = ''0:4'' \<and> cached_runner a' = Some r
     \<and> lr_block_start r = 0 \<and> lr_block_end r = 4"
proof -
  have n: "cached_runner ex_app = None" "cached_chain ex_app = None" by code_simp+
  then have "ex_app = \<lparr>manager = manager ex_app, cached_runner = None, cached_chain = None\<rparr>" by simp
  then have run: "(app_step T)\<^sup>*\<^sup>* \<lparr>manager = manager ex_app, cached_runner = None, cached_chain = None\<rparr> ex_app" for T
    by simp
  let ?p = "get_http_chain ''log'' ex_app"
  have "(case fst ?p of Inr c \<Rightarrow> hc_blocks c = ''0:4'' | Inl _ \<Rightarrow> False)" by code_simp
  then obtain c where "fst ?p = Inr c" "hc_blocks c = ''0:4''" by (auto split: sum.splits)
  then have c: "?p = (Inr c, snd ?p)" "hc_blocks c = ''0:4''" by (simp_all add: prod_eq_iff)
  have "parse_range ''0:4'' = Inr (0, 4)" by code_simp
  with chain_has_its_runner [OF run [of "TYPE(rat)"] c(1)] c show ?thesis by fastforce
qed

text \<open>The chain object is not checked in that way: after the process is stopped and started on another
  range, the next chat request still gets the chain of the old range, because only \<open>/reload\<close> drops it.\<close>

lemma stale_chain_after_start:
  assumes "cached_chain a = Some c" and "route_stop os1 a = (Inr st1, a1)"
    and "route_start env os2 (Some \<lparr>rr_block_indices = blocks, rr_initial_peers = None\<rparr>) a1 = (Inr st2, a2)"
  shows "get_http_chain log_path a2 = (Inr c, a2) \<and> serving (manager a2) = Some blocks"
proof -
  obtain m1 m1' where s1: "sm_stop os1 (manager a) = (Inr (), m1)" "sm_status m1 = (st1, m1')" "a1 = a\<lparr>manager := m1'\<rparr>"
    using assms(2) by (auto simp: route_stop_def split: sum.splits prod.splits)
  obtain m2 m2' where v: "valid_block_indices blocks"
    and s2: "sm_start env os2 (Some blocks) False m1' = (Inr (), m2)" "sm_status m2 = (st2, m2')" "a2 = a1\<lparr>manager := m2'\<rparr>"
    using assms(3) s1(3) by (auto simp: route_start_def split: if_splits sum.splits prod.splits)
  have "serving m2 = Some blocks"
    using sm_start_cases [OF s2(1)] sm_start_fields [OF s2(1)] valid_not_empty [OF v] by auto
  then have "serving (manager a2) = Some blocks" using sm_status_same [OF s2(2)] s2(3) by simp
  moreover have "cached_chain a2 = Some c" using assms(1) s1(3) s2(3) by simp
  ultimately show ?thesis by (simp add: get_http_chain_def)
qed

definition ex_chained :: "(tensor, rat list) shard_app" where
  "ex_chained = snd (get_http_chain ''log'' ex_app)"

lemma stale_chain_after_start_witness:
  "\<exists>c (a2 :: (tensor, rat list) shard_app). hc_blocks c = ''0:4'' \<and> get_http_chain ''log'' a2 = (Inr c, a2) \<and> serving (manager a2) = Some ''2:4''"
proof -
  have "(case cached_chain ex_chained of Some c \<Rightarrow> hc_blocks c = ''0:4'' | None \<Rightarrow> False)" by code_simp
  then obtain c where c: "cached_chain ex_chained = Some c" "hc_blocks c = ''0:4''" by (auto split: option.splits)
  let ?p1 = "route_stop (ex_os 2) ex_chained"
  let ?b = "\<lparr>rr_block_indices = ''2:4'', rr_initial_peers = None\<rparr>"
  let ?p2 = "route_start ex_environ0 (ex_os 2) (Some ?b) (snd ?p1)"
  have "(case fst ?p1 of Inr _ \<Rightarrow> True | Inl _ \<Rightarrow> False)" "(case fst ?p2 of Inr _ \<Rightarrow> True | Inl _ \<Rightarrow> False)" by code_simp+
  then obtain st1 st2 where "fst ?p1 = Inr st1" "fst ?p2 = Inr st2" by (auto split: sum.splits)
  then have p: "?p1 = (Inr st1, snd ?p1)" "?p2 = (Inr st2, snd ?p2)" by (simp_all add: prod_eq_iff)
  show ?thesis
    by (rule exI [of _ c], rule exI [of _ "snd ?p2"], rule conjI [OF c(2) stale_chain_after_start [OF c(1) p]])
qed

text \<open>A start request for another range while a server runs is refused, but the range is already
  overwritten: from then on the status reports a range that the running process does not serve.\<close>

lemma refused_start_changes_status:
  assumes "serving (manager a) = Some old" and "valid_block_indices blocks"
  shows "\<exists>a'. route_start env os (Some \<lparr>rr_block_indices = blocks, rr_initial_peers = None\<rparr>) a = (Inl (HTTPException 500), a')
    \<and> serving (manager a') = Some old \<and> st_running (fst (route_status a')) \<and> st_block_indices (fst (route_status a')) = blocks"
  using assms valid_not_empty [OF assms(2)]
  by (auto simp: route_start_def sm_start_def route_status_def sm_status_def serving_def proc_running_def Let_def
      split: if_splits option.splits)

lemma refused_start_changes_status_witness:
  "\<exists>a'. route_start ex_environ0 (ex_os 2) (Some \<lparr>rr_block_indices = ''2:4'', rr_initial_peers = None\<rparr>) ex_app
      = (Inl (HTTPException 500), a') \<and> serving (manager a') = Some ''0:4'' \<and> st_block_indices (fst (route_status a')) = ''2:4''"
proof -
  have "serving (manager ex_app) = Some ''0:4''" unfolding serving_def by code_simp
  moreover have "valid_block_indices ''2:4''" by code_simp
  ultimately show ?thesis using refused_start_changes_status by blast
qed

end
