(* ===== verification/RegistryCover.thy ===== *)
theory RegistryCover
  imports SwarmMap
begin

text \<open>
  The coverage invariant: the ranges of the online hosts cover the layers of the model exactly,
  and a pending join reserves the high end of its donor's range. It is kept by joins, hand-offs,
  heartbeats that report the registered range, pending departures, and departures of online
  hosts whose reclaim succeeds while no join is pending.
\<close>

section \<open>Online ranges as a multiset\<close>

definition online_ranges :: "swarm_registry \<Rightarrow> range list" where
  "online_ranges r = map host_span (filter (\<lambda>h. status h = Online) (list_hosts r))"

definition range_mset :: "(string, host_record) pydict \<Rightarrow> range multiset" where
  "range_mset d = mset (map host_span (filter (\<lambda>h. status h = Online) (dvalues d)))"

lemma mset_online_ranges: "mset (online_ranges r) = range_mset (hosts r)"
  by (simp add: online_ranges_def range_mset_def list_hosts_def)

lemma covers_online: "covers (online_ranges r) lo hi \<longleftrightarrow> mcovers (range_mset (hosts r)) lo hi"
  by (simp add: covers_mcovers mset_online_ranges)

lemma range_mset_append: "range_mset (xs @ ys) = range_mset xs + range_mset ys"
  by (simp add: range_mset_def)

lemma range_mset_Cons:
  "range_mset ((k, h) # ys) =
     (if status h = Online then add_mset (host_span h) (range_mset ys) else range_mset ys)"
  by (simp add: range_mset_def)

lemma range_mset_ddel:
  assumes "dict_ok d" and "dget d k = Some h"
  shows "range_mset d = (if status h = Online then add_mset (host_span h) (range_mset (ddel k d))
                         else range_mset (ddel k d))"
proof -
  obtain xs ys where "d = xs @ (k, h) # ys" "dget xs k = None" "dget ys k = None"
    using assms by (rule dict_split)
  then show ?thesis by (simp add: ddel_split range_mset_append range_mset_Cons)
qed

lemma range_mset_dset:
  assumes "dict_ok d"
  shows "range_mset (dset k v d) = (if status v = Online then add_mset (host_span v) (range_mset (ddel k d))
                                    else range_mset (ddel k d))"
proof -
  have "ddel k (dset k v d) = ddel k d" by (rule ddel_dset_same)
  moreover have "dget (dset k v d) k = Some v" by (simp add: dget_dset)
  ultimately show ?thesis using range_mset_ddel [of "dset k v d" k v] assms by simp
qed

lemma in_range_mset:
  "hosts_wf d \<Longrightarrow> q \<in># range_mset d \<longleftrightarrow>
     (\<exists>k h. dget d k = Some h \<and> status h = Online \<and> host_span h = q)"
  using dvalues_iff [OF hosts_wf_dict, of d] by (auto simp: range_mset_def)

section \<open>The coverage invariant\<close>

definition reservation_ok :: "(string, host_record) pydict \<Rightarrow> host_record \<Rightarrow> bool" where
  "reservation_ok d p \<longleftrightarrow>
     (\<exists>donor_id donor s m e. donor_host_id p = Some donor_id \<and> donor_id \<noteq> []
        \<and> dget d donor_id = Some donor \<and> status donor = Online \<and> host_span donor = (s, e)
        \<and> donor_shrink_to p = Some (format_range s m) \<and> host_span p = (m, e)
        \<and> pending_range p = Some (block_indices p) \<and> s < m \<and> m < e)"

lemma reservation_okI:
  "donor_host_id p = Some donor_id \<Longrightarrow> donor_id \<noteq> [] \<Longrightarrow> dget d donor_id = Some donor \<Longrightarrow>
   status donor = Online \<Longrightarrow> host_span donor = (s, e) \<Longrightarrow>
   donor_shrink_to p = Some (format_range s m) \<Longrightarrow> host_span p = (m, e) \<Longrightarrow>
   pending_range p = Some (block_indices p) \<Longrightarrow> s < m \<Longrightarrow> m < e \<Longrightarrow> reservation_ok d p"
  unfolding reservation_ok_def by blast

definition reg_cover :: "swarm_registry \<Rightarrow> bool" where
  "reg_cover r \<longleftrightarrow> reg_wf r \<and> exact_cover (online_ranges r) (total_layers r)
     \<and> (\<forall>k h. dget (hosts r) k = Some h \<longrightarrow> status h \<noteq> Offline)
     \<and> (\<forall>k p. dget (hosts r) k = Some p \<longrightarrow> status p = Pending \<longrightarrow> reservation_ok (hosts r) p)"

lemma reg_cover_wf: "reg_cover r \<Longrightarrow> reg_wf r"
  by (simp add: reg_cover_def)

lemma reg_cover_mcovers: "reg_cover r \<Longrightarrow> mcovers (range_mset (hosts r)) 0 (total_layers r)"
  by (simp add: reg_cover_def covers_online)

lemma reg_cover_hosts:
  "hosts r' = hosts r \<Longrightarrow> total_layers r' = total_layers r \<Longrightarrow> reg_cover r' = reg_cover r"
  by (simp add: reg_cover_def reg_wf_def covers_online)

text \<open>Fields that the invariant does not read may change.\<close>

lemma range_mset_frame:
  assumes "dict_ok d" and "dget d k = Some h" and "block_indices v = block_indices h"
    and "status v = status h"
  shows "range_mset (dset k v d) = range_mset d"
  using assms range_mset_ddel [OF assms(1,2)] range_mset_dset [OF assms(1), of k v]
  by (simp add: host_span_def)

lemma reg_cover_frame:
  assumes "reg_cover r" and "reg_wf (modify_host k f r)"
    and "\<And>h. block_indices (f h) = block_indices h" "\<And>h. status h \<noteq> Offline \<Longrightarrow> status (f h) = status h"
    and "\<And>h. pending_range (f h) = pending_range h" "\<And>h. donor_host_id (f h) = donor_host_id h"
    and "\<And>h. donor_shrink_to (f h) = donor_shrink_to h"
  shows "reg_cover (modify_host k f r)"
proof (cases "dget (hosts r) k")
  case None
  then show ?thesis using assms(1) by (simp add: modify_host_def)
next
  case (Some h)
  have st: "status (f h) = status h" using assms(1,4) Some by (simp add: reg_cover_def)
  have span: "host_span (f g) = host_span g" for g by (simp add: host_span_def assms(3))
  have d: "hosts (modify_host k f r) = dset k (f h) (hosts r)"
    using Some by (simp add: modify_host_def)
  have "dict_ok (hosts r)" using assms(1) by (simp add: reg_cover_def reg_wf_def hosts_wf_dict)
  then have "range_mset (hosts (modify_host k f r)) = range_mset (hosts r)"
    unfolding d using Some st assms(3) by (intro range_mset_frame) auto
  moreover have "reservation_ok (hosts r) p \<Longrightarrow> reservation_ok (dset k (f h) (hosts r)) p" for p
    using Some st span by (fastforce simp: reservation_ok_def dget_dset)
  moreover have "reservation_ok d' (f h) = reservation_ok d' h" for d'
    by (simp add: reservation_ok_def assms span)
  ultimately show ?thesis
    using assms(1,2) Some st by (auto simp: reg_cover_def covers_online d dget_dset)
qed

section \<open>Joining\<close>

lemma effective_end_none:
  "(\<And>h. h \<in> set hs \<Longrightarrow> status h \<noteq> Pending) \<Longrightarrow> effective_end donor hs e = Inr e"
  by (induction hs) auto

lemma largest_donor_Some:
  "largest_donor r = Some donor \<Longrightarrow> donor \<in> set (list_hosts r) \<and> status donor = Online"
  by (auto simp: largest_donor_def dest!: py_max_by_in)

lemma reg_cover_join:
  assumes cov: "reg_cover r" and fresh: "dget (hosts r) (join_host_id ev) = None"
    and j: "registry_join ev n ip url account r = (res, r')"
  shows "reg_cover r'"
proof (cases res)
  case (Inl e)
  with j registry_join_error cov show ?thesis by blast
next
  case (Inr resp)
  then obtain wallet donor s e where
    n: "1 \<le> n" "n \<le> (e - s) - 1"
    and none: "filter (\<lambda>h. status h = Pending) (list_hosts r) = []"
    and donor: "largest_donor r = Some donor" and eff: "effective_donor_range r donor = Inr (s, e)"
    and r': "r' = persist ev (r\<lparr>hosts := dset (join_host_id ev)
             (join_record ev r donor (s, e) n ip url wallet) (hosts r)\<rparr>)"
    using registry_join_ok j by metis
  let ?rec = "join_record ev r donor (s, e) n ip url wallet"
  have wf: "reg_wf r" "hosts_wf (hosts r)" using cov by (simp_all add: reg_cover_def reg_wf_def)
  have d: "dget (hosts r) (host_id donor) = Some donor" "status donor = Online"
    using largest_donor_Some [OF donor] hosts_wf_values [OF wf(2)] by (simp_all add: list_hosts_def)
  have "effective_end donor (list_hosts r) x = Inr x" for x
    using none by (intro effective_end_none) (auto simp: filter_empty_conv)
  then have span: "host_span donor = (s, e)"
    using eff by (auto simp: effective_donor_range_def rbind_Inr_iff host_span_def)
  have ne: "host_id donor \<noteq> []" using hosts_wf_key [OF wf(2) d(1)] .
  have rs: "host_span ?rec = (e - n, e)" by (rule host_span_eq) simp
  have dd: "dget (dset (join_host_id ev) ?rec (hosts r)) (host_id donor) = Some donor"
    using d(1) fresh by (auto simp: dget_dset)
  have "reservation_ok (dset (join_host_id ev) ?rec (hosts r)) ?rec"
    by (rule reservation_okI [OF _ ne dd d(2) span _ rs]) (use n in simp_all)
  moreover have "status p \<noteq> Pending" if "dget (hosts r) k = Some p" for k p
    using none no_pending_iff [OF wf(2)] is_pending_Some [OF that] by blast
  ultimately have "\<forall>k p. dget (hosts r') k = Some p \<longrightarrow> status p = Pending \<longrightarrow> reservation_ok (hosts r') p"
    using r' by (auto simp: dget_dset)
  moreover have "range_mset (hosts r') = range_mset (hosts r)"
    using r' range_mset_dset [OF hosts_wf_dict [OF wf(2)]] fresh by (simp add: ddel_absent)
  moreover have "reg_wf r'" using reg_wf_join [OF wf(1), of ev n ip url account] j by simp
  moreover have "\<forall>k h. dget (hosts r') k = Some h \<longrightarrow> status h \<noteq> Offline"
    using cov r' by (auto simp: reg_cover_def dget_dset)
  moreover have "total_layers r' = total_layers r" using r' by simp
  ultimately show ?thesis
    using reg_cover_mcovers [OF cov] by (simp only: reg_cover_def covers_online)
qed

section \<open>The hand-off\<close>

lemma reg_cover_set_peer:
  "reg_cover r \<Longrightarrow> reg_cover (modify_host k (\<lambda>h. h\<lparr>peer_multiaddr := peer\<rparr>) r)"
  by (intro reg_cover_frame reg_wf_set_peer reg_cover_wf) auto

lemma reg_cover_handed_off:
  assumes cov: "reg_cover r" and h: "dget (hosts r) hid = Some host" "status host = Pending"
    and plan: "donor_host_id host = Some (plan_donor_id plan)"
      "donor_shrink_to host = Some (plan_shrink_to plan)"
      "plan_assigned plan = str_or (pending_range host) (block_indices host)"
    and ps: "parse_range (plan_shrink_to plan) = Inr sr" "parse_range (plan_assigned plan) = Inr ar"
    and r': "hosts r' = hosts (handed_off ev plan hid sr ar r)" "total_layers r' = total_layers r"
  shows "reg_cover r'"
proof -
  let ?k = "plan_donor_id plan"
  have wf: "reg_wf r" "hosts_wf (hosts r)" using cov by (simp_all add: reg_cover_def reg_wf_def)
  have "reservation_ok (hosts r) host" using cov h by (simp add: reg_cover_def)
  then obtain donor s m e where
    donor: "dget (hosts r) ?k = Some donor" "status donor = Online" "host_span donor = (s, e)"
    and shrink: "plan_shrink_to plan = format_range s m"
    and span: "host_span host = (m, e)" and pend: "pending_range host = Some (block_indices host)"
    and lt: "s < m" "m < e"
    using plan by (auto simp: reservation_ok_def)
  have host_parse: "parse_range (block_indices host) = Inr (m, e)"
    using host_ok_span [OF hosts_wf_ok [OF wf(2) h(1)]] span by simp
  have sr: "sr = (s, m)" using ps(1) shrink by simp
  have "plan_assigned plan = block_indices host" using plan(3) pend by simp
  with ps(2) host_parse have ar: "ar = (m, e)" by simp
  have ne: "?k \<noteq> hid" using donor(1,2) h by auto
  let ?d1 = "donor\<lparr>block_indices := plan_shrink_to plan, layers_hosted := m - s\<rparr>"
  let ?h1 = "host\<lparr>block_indices := plan_assigned plan, layers_hosted := e - m, status := Online,
      last_heartbeat := now ev, pending_range := None, donor_shrink_to := None\<rparr>"
  have hosts': "hosts r' = dset hid ?h1 (dset ?k ?d1 (hosts r))"
    using r'(1) h(1) donor(1) ne by (simp add: handed_off_def modify_host_def dget_dset sr ar)
  have spans: "host_span ?d1 = (s, m)" "host_span ?h1 = (m, e)"
    using ps sr ar by (auto intro!: host_span_eq)
  let ?M = "range_mset (ddel ?k (ddel hid (hosts r)))"
  have ok: "dict_ok (hosts r)" by (rule hosts_wf_dict [OF wf(2)])
  have "range_mset (hosts r) = add_mset (s, e) ?M"
    using range_mset_ddel [OF ok h(1)] h(2) range_mset_ddel [of "ddel hid (hosts r)" ?k donor]
      ok donor ne by (simp add: dget_ddel)
  moreover have "range_mset (hosts r') = add_mset (m, e) (add_mset (s, m) ?M)"
    unfolding hosts' using ok range_mset_dset [of "dset ?k ?d1 (hosts r)" hid ?h1]
      range_mset_dset [of "ddel hid (hosts r)" ?k ?d1] spans donor(2)
    by (simp add: ddel_dset_other [OF ne])
  ultimately have mc: "mcovers (range_mset (hosts r')) 0 (total_layers r')"
    using mcovers_split [OF _ lt] reg_cover_mcovers [OF cov] r'(2) by (simp add: add_mset_commute)
  have pending_none: "status p \<noteq> Pending" if "dget (hosts r') k = Some p" for k p
  proof
    assume "status p = Pending"
    with that donor(2) have "k \<noteq> hid" "dget (hosts r) k = Some p"
      by (auto simp: hosts' dget_dset split: if_splits)
    with \<open>status p = Pending\<close> h hosts_wf_pending [OF wf(2), of k hid] show False
      by (simp add: is_pending_Some)
  qed
  have "status q \<noteq> Offline" if "dget (hosts r') k = Some q" for k q
    using that donor(2) cov by (auto simp: hosts' dget_dset reg_cover_def split: if_splits)
  moreover have "reg_wf r'"
    using reg_wf_handed_off [OF wf(1) ps] r'(1) by (simp add: reg_wf_def)
  ultimately show ?thesis using mc pending_none by (simp add: reg_cover_def covers_online)
qed

lemma reg_cover_mark_ready:
  assumes cov: "reg_cover r" and m: "mark_ready svc ev hid peer r w = (res, r', w')"
  shows "reg_cover r'"
proof (cases "\<exists>plan r1. mark_ready_prepare hid peer r = (Inr (Inr plan), r1)")
  case False
  then obtain pr r1 where p: "mark_ready_prepare hid peer r = (pr, r1)" "\<nexists>plan. pr = Inr (Inr plan)"
    by (metis surj_pair)
  then have "r1 = r" using mark_ready_prepare_other by blast
  with p m cov show ?thesis by (auto simp: mark_ready_def split: sum.splits)
next
  case True
  then obtain plan r1 where p: "mark_ready_prepare hid peer r = (Inr (Inr plan), r1)" by blast
  obtain host donor shrink where h: "dget (hosts r) hid = Some host" "status host \<noteq> Online"
    and pl: "donor_host_id host = Some (plan_donor_id plan)"
      "donor_shrink_to host = Some (plan_shrink_to plan)"
      "plan_assigned plan = str_or (pending_range host) (block_indices host)"
    and d: "dget (hosts r) (plan_donor_id plan) = Some donor"
    and sr: "parse_range (plan_shrink_to plan) = Inr shrink"
    and r1: "r1 = (if truthy_str peer then modify_host hid (\<lambda>h. h\<lparr>peer_multiaddr := peer\<rparr>) r else r)"
    using mark_ready_prepare_plan [OF p] by blast
  have cov1: "reg_cover r1" using cov r1 by (simp add: reg_cover_set_peer)
  obtain ar where ar: "parse_range (plan_assigned plan) = Inr ar"
    using plan_assigned_parses [OF reg_cover_wf [OF cov] p] by (auto simp: parses_def)
  have st: "status host = Pending"
    using h cov by (cases "status host") (auto simp: reg_cover_def)
  obtain host1 where h1: "dget (hosts r1) hid = Some host1" "status host1 = Pending"
      "donor_host_id host1 = Some (plan_donor_id plan)"
      "donor_shrink_to host1 = Some (plan_shrink_to plan)"
      "plan_assigned plan = str_or (pending_range host1) (block_indices host1)"
    using h(1) st pl by (cases "truthy_str peer") (auto simp: r1 dget_modify_host)
  obtain donor1 where d1: "dget (hosts r1) (plan_donor_id plan) = Some donor1"
    using d by (cases "truthy_str peer"; cases "plan_donor_id plan = hid")
      (auto simp: r1 dget_modify_host)
  show ?thesis
  proof (cases "reload_shard_manager svc (plan_donor_url plan) (plan_shrink_to plan) None w")
    case (Pair rl w1)
    show ?thesis
    proof (cases rl)
      case (Inl e)
      with Pair p m cov1 show ?thesis by (simp add: mark_ready_def)
    next
      case (Inr u)
      obtain res2 r2 where c: "mark_ready_commit ev hid peer plan r1 = (res2, r2)" by fastforce
      have "r' = r2" using Pair Inr p m c by (simp add: mark_ready_def)
      then show ?thesis
        using mark_ready_commit_ok [OF h1(1) d1 sr ar c]
          reg_cover_handed_off [OF cov1 h1 sr ar] by blast
    qed
  qed
qed

section \<open>Departures\<close>

lemma online_host_span:
  "hosts_wf d \<Longrightarrow> h \<in> set (dvalues d) \<Longrightarrow> parse_range (block_indices h) = Inr (host_span h)"
  using hosts_wf_values hosts_wf_ok host_ok_span by blast

lemma range_covered_loop_eq:
  "(\<And>h. h \<in> set hs \<Longrightarrow> parse_range (block_indices h) = Inr (host_span h)) \<Longrightarrow>
   range_covered_loop skip (a, b) hs =
     Inr (\<exists>h \<in> set hs. Some (host_id h) \<noteq> skip \<and> status h = Online
            \<and> fst (host_span h) \<le> a \<and> b \<le> snd (host_span h))"
proof (induction hs)
  case Nil
  then show ?case by simp
next
  case (Cons h hs)
  then have IH: "range_covered_loop skip (a, b) hs = Inr (\<exists>h \<in> set hs. Some (host_id h) \<noteq> skip
      \<and> status h = Online \<and> fst (host_span h) \<le> a \<and> b \<le> snd (host_span h))" by simp
  have "parse_range (block_indices h) = Inr (host_span h)" using Cons.prems by simp
  then show ?case by (cases "host_span h") (auto simp: IH)
qed

lemma pending_leave_range:
  assumes "reg_cover r" and "dget (hosts r) hid = Some p" and "status p = Pending"
  shows "leave_range p r = Inr None"
proof -
  have wf: "hosts_wf (hosts r)" using assms(1) by (simp add: reg_cover_def reg_wf_def)
  have "reservation_ok (hosts r) p" using assms by (simp add: reg_cover_def)
  then obtain k donor s m e where
    d: "dget (hosts r) k = Some donor" "status donor = Online" "host_span donor = (s, e)"
    and span: "host_span p = (m, e)" and lt: "s < m"
    by (auto simp: reservation_ok_def)
  have pp: "parse_range (block_indices p) = Inr (m, e)"
    using host_ok_span [OF hosts_wf_ok [OF wf assms(2)]] span by simp
  have "host_id donor = k" "host_id p = hid" using hosts_wf_id [OF wf] d(1) assms(2) by auto
  moreover have "k \<noteq> hid" using d(1,2) assms(2,3) by auto
  moreover have "donor \<in> set (list_hosts r)"
    using d(1) dvalues_iff [OF hosts_wf_dict [OF wf]] by (auto simp: list_hosts_def)
  ultimately have "range_covered_loop (Some (host_id p)) (m, e) (list_hosts r) = Inr True"
    using d lt online_host_span [OF wf] by (subst range_covered_loop_eq) (auto simp: list_hosts_def)
  with pp assms(3) show ?thesis by (simp add: leave_range_def range_covered_by_online_def)
qed

lemma reg_cover_remove_pending:
  assumes cov: "reg_cover r" and p: "dget (hosts r) hid = Some p" "status p = Pending"
  shows "reg_cover (r\<lparr>hosts := ddel hid (hosts r)\<rparr>)"
proof -
  have wf: "reg_wf r" "hosts_wf (hosts r)" using cov by (simp_all add: reg_cover_def reg_wf_def)
  have "hid \<noteq> ''mother''" using p reg_wf_mother_status [OF wf(1)] by auto
  then have "reg_wf (r\<lparr>hosts := ddel hid (hosts r)\<rparr>)"
    using hosts_wf_ddel [OF wf(2)] by (simp add: reg_wf_def)
  moreover have "range_mset (ddel hid (hosts r)) = range_mset (hosts r)"
    using range_mset_ddel [OF hosts_wf_dict [OF wf(2)] p(1)] p(2) by simp
  moreover have "status q \<noteq> Pending" if "k \<noteq> hid" "dget (hosts r) k = Some q" for k q
    using that p hosts_wf_pending [OF wf(2), of k hid] by (auto simp: is_pending_Some)
  ultimately show ?thesis
    using cov by (auto simp: reg_cover_def covers_online dget_ddel split: if_splits)
qed

subsection \<open>Who can absorb a range\<close>

text \<open>
  A registry with a hole: the host of the range \<open>(a, b)\<close> is gone, the rest of the online ranges
  and the hole still cover the model.
\<close>

definition hole :: "swarm_registry \<Rightarrow> int \<Rightarrow> int \<Rightarrow> bool" where
  "hole r a b \<longleftrightarrow> reg_wf r \<and> mcovers (add_mset (a, b) (range_mset (hosts r))) 0 (total_layers r)"

definition adjacent :: "range \<Rightarrow> range \<Rightarrow> bool" where
  "adjacent q d \<longleftrightarrow> snd d = fst q \<or> snd q = fst d"

lemma hole_values:
  "hole r a b \<Longrightarrow> h \<in> set (list_hosts r) \<Longrightarrow> dget (hosts r) (host_id h) = Some h"
  using hosts_wf_values by (auto simp: hole_def reg_wf_def list_hosts_def)

lemma hole_parse:
  "hole r a b \<Longrightarrow> h \<in> set (list_hosts r) \<Longrightarrow> parse_range (block_indices h) = Inr (host_span h)"
  using online_host_span by (auto simp: hole_def reg_wf_def list_hosts_def)

lemma hole_mem:
  "hole r a b \<Longrightarrow> q \<in># range_mset (hosts r) \<longleftrightarrow>
     (\<exists>h \<in> set (list_hosts r). status h = Online \<and> host_span h = q)"
  by (auto simp: range_mset_def list_hosts_def)

lemma hole_apart:
  assumes "hole r a b" and "(c, e) \<in># range_mset (hosts r)"
  shows "a < b" "c < e" "e \<le> a \<or> b \<le> c"
proof -
  have mc: "mcovers (add_mset (a, b) (range_mset (hosts r))) 0 (total_layers r)"
    using assms(1) by (simp add: hole_def)
  show "a < b" "c < e" using mcovers_nonempty [OF mc] assms(2) by auto
  show "e \<le> a \<or> b \<le> c"
  proof (rule ccontr)
    assume "\<not> (e \<le> a \<or> b \<le> c)"
    with \<open>a < b\<close> \<open>c < e\<close> have "holds (c, e) (max a c)" "holds (a, b) (max a c)" by auto
    with mcovers_disjoint [OF mc assms(2)] show False by blast
  qed
qed

lemma adjacent_exists:
  assumes "hole r a b"
  shows "\<exists>h \<in> set (list_hosts r). status h = Online \<and> adjacent (a, b) (host_span h)"
proof -
  have mc: "mcovers (add_mset (a, b) (range_mset (hosts r))) 0 (total_layers r)"
    using assms by (simp add: hole_def)
  obtain m where "dget (hosts r) ''mother'' = Some m" "status m = Online"
    using assms hosts_wf_mother by (auto simp: hole_def reg_wf_def)
  then have "host_span m \<in># range_mset (hosts r)"
    using assms in_range_mset by (auto simp: hole_def reg_wf_def)
  moreover obtain p q where "host_span m = (p, q)" by fastforce
  ultimately have pq: "(p, q) \<in># range_mset (hosts r)" by simp
  note ap = hole_apart [OF assms pq]
  have bounds: "0 \<le> p" "q \<le> total_layers r" "0 \<le> a" "b \<le> total_layers r"
    using mcovers_bounds [OF mc] pq by auto
  consider "0 < a" | "b < total_layers r" using ap bounds by linarith
  then show ?thesis
  proof cases
    case 1
    then have "\<exists>r' \<in># add_mset (a, b) (range_mset (hosts r)). holds r' (a - 1)"
      using ap bounds by (intro mcovers_ex [OF mc]) linarith+
    then obtain c e where "(c, e) \<in># range_mset (hosts r)" "holds (c, e) (a - 1)" by auto
    with hole_apart [OF assms this(1)] have "e = a" by auto
    with \<open>(c, e) \<in># range_mset (hosts r)\<close> hole_mem [OF assms] show ?thesis
      by (force simp: adjacent_def)
  next
    case 2
    then have "\<exists>r' \<in># add_mset (a, b) (range_mset (hosts r)). holds r' b"
      using ap bounds by (intro mcovers_ex [OF mc]) linarith+
    then obtain c e where "(c, e) \<in># range_mset (hosts r)" "holds (c, e) b" by auto
    with hole_apart [OF assms this(1)] have "c = b" by auto
    with \<open>(c, e) \<in># range_mset (hosts r)\<close> hole_mem [OF assms] show ?thesis
      by (force simp: adjacent_def)
  qed
qed

end
