(* ===== verification/RegistryLeave.thy ===== *)
theory RegistryLeave
  imports RegistryCover
begin

text \<open>
  Departures: which host absorbs the range of a host that leaves, and that the coverage invariant
  survives. The candidates of \<open>_reclaim_range\<close> (the mother, an adjacent host, the largest donor)
  always contain a host whose range touches the hole, and \<open>_can_merge_ranges\<close> refuses every
  other one, so a reclaim never fails to find an absorber and always closes the hole.
\<close>

section \<open>Who can absorb a hole\<close>

lemma hole_conflict:
  assumes h: "hole r a b" and d: "donor \<in> set (list_hosts r)" "status donor = Online"
    and span: "host_span donor = (c, e)" and na: "\<not> adjacent (a, b) (c, e)"
  shows "\<exists>x \<in> set (list_hosts r). host_id x \<noteq> host_id donor \<and> status x = Online
           \<and> \<not> (max e b \<le> fst (host_span x) \<or> min c a \<ge> snd (host_span x))"
proof -
  have mc: "mcovers (add_mset (a, b) (range_mset (hosts r))) 0 (total_layers r)"
    using h by (simp add: hole_def)
  have inm: "(c, e) \<in># range_mset (hosts r)" using d span hole_mem [OF h] by blast
  note ap = hole_apart [OF h inm]
  have bounds: "0 \<le> c" "e \<le> total_layers r" "0 \<le> a" "b \<le> total_layers r"
    using mcovers_bounds [OF mc] inm by auto
  have *: ?thesis if y: "0 \<le> y" "y < total_layers r" "\<not> holds (a, b) y" "\<not> holds (c, e) y"
    and close: "y < max e b" "min c a \<le> y" for y
  proof -
    obtain q where "q \<in># add_mset (a, b) (range_mset (hosts r))" "holds q y"
      using mcovers_ex [OF mc y(1,2)] by blast
    with y(3) have q: "q \<in># range_mset (hosts r)" "holds q y" by auto
    then obtain x where x: "x \<in> set (list_hosts r)" "status x = Online" "host_span x = q"
      using hole_mem [OF h] by blast
    have "host_id x \<noteq> host_id donor"
    proof
      assume "host_id x = host_id donor"
      then have "x = donor" using hole_values [OF h x(1)] hole_values [OF h d(1)] by (metis option.inject)
      with x(3) span q(2) y(4) show False by simp
    qed
    moreover have "fst (host_span x) \<le> y" "y < snd (host_span x)"
      using x(3) q(2) by (cases q; simp)+
    then have "\<not> (max e b \<le> fst (host_span x) \<or> min c a \<ge> snd (host_span x))"
      using close by linarith
    ultimately show ?thesis using x(1,2) by blast
  qed
  consider "e < a" | "b < c" using ap(3) na by (fastforce simp: adjacent_def)
  then show ?thesis
  proof cases
    case 1
    then show ?thesis using ap(1,2) bounds by (intro * [of "a - 1"]) auto
  next
    case 2
    then show ?thesis using ap(1,2) bounds by (intro * [of b]) auto
  qed
qed

lemma can_merge_hole:
  assumes h: "hole r a b" and d: "donor \<in> set (list_hosts r)" "status donor = Online"
    and span: "host_span donor = (c, e)"
  shows "can_merge_ranges donor (a, b) r =
    Inr (if adjacent (a, b) (c, e) then Some (format_range (min a c) (max b e)) else None)"
proof -
  have p: "parse_range (block_indices donor) = Inr (c, e)" using hole_parse [OF h d(1)] span by simp
  have "(c, e) \<in># range_mset (hosts r)" using d span hole_mem [OF h] by blast
  note ap = hole_apart [OF h this]
  show ?thesis
  proof (cases "adjacent (a, b) (c, e)")
    case True
    then show ?thesis using p ap(1,2) by (auto simp: can_merge_ranges_def adjacent_def)
  next
    case False
    have "rmap (\<lambda>x. parse_range (block_indices x))
        (filter (\<lambda>x. \<not> (host_id x = host_id donor \<or> status x \<noteq> Online)) (list_hosts r))
      = Inr (map host_span
        (filter (\<lambda>x. \<not> (host_id x = host_id donor \<or> status x \<noteq> Online)) (list_hosts r)))"
      by (rule rmap_total) (use hole_parse [OF h] in simp)
    moreover have "list_ex (\<lambda>(x, y). \<not> (max e b \<le> x \<or> min c a \<ge> y)) (map host_span
        (filter (\<lambda>x. \<not> (host_id x = host_id donor \<or> status x \<noteq> Online)) (list_hosts r)))"
      unfolding list_ex_iff case_prod_unfold using hole_conflict [OF h d span False] by auto
    ultimately show ?thesis using p False by (simp add: can_merge_ranges_def adjacent_def)
  qed
qed

lemma adjacent_loop_find:
  "(\<And>h. h \<in> set hs \<Longrightarrow> parse_range (block_indices h) = Inr (host_span h)) \<Longrightarrow>
   adjacent_loop (a, b) hs = Inr (find (\<lambda>h. status h = Online \<and> adjacent (a, b) (host_span h)) hs)"
proof (induction hs)
  case Nil
  then show ?case by simp
next
  case (Cons h hs)
  then have "parse_range (block_indices h) = Inr (host_span h)" by simp
  with Cons show ?case by (cases "host_span h") (auto simp: adjacent_def)
qed

definition absorbs :: "swarm_registry \<Rightarrow> range \<Rightarrow> host_record \<Rightarrow> string \<Rightarrow> bool" where
  "absorbs r q donor new_range \<longleftrightarrow> donor \<in> set (list_hosts r) \<and> status donor = Online
     \<and> adjacent q (host_span donor)
     \<and> new_range = format_range (min (fst q) (fst (host_span donor))) (max (snd q) (snd (host_span donor)))"

lemma choose_absorber_hole:
  assumes h: "hole r a b"
  shows "\<forall>d \<in> set ds. d \<in> set (list_hosts r) \<and> status d = Online \<Longrightarrow>
    \<forall>c. chosen = Some c \<longrightarrow> absorbs r (a, b) (fst c) (snd c) \<Longrightarrow>
    \<exists>x. choose_absorber (a, b) r ds chosen = Inr x
      \<and> (\<forall>c. x = Some c \<longrightarrow> absorbs r (a, b) (fst c) (snd c))
      \<and> (chosen \<noteq> None \<or> (\<exists>d \<in> set ds. adjacent (a, b) (host_span d)) \<longrightarrow> x \<noteq> None)"
proof (induction ds arbitrary: chosen)
  case Nil
  then show ?case by simp
next
  case (Cons d ds)
  obtain c e where span: "host_span d = (c, e)" by fastforce
  have d: "d \<in> set (list_hosts r)" "status d = Online" using Cons.prems by simp_all
  note m = can_merge_hole [OF h d span]
  show ?case
  proof (cases "adjacent (a, b) (c, e)")
    case False
    then show ?thesis using m span Cons.IH [of chosen] Cons.prems by simp
  next
    case True
    have "absorbs r (a, b) d (format_range (min a c) (max b e))"
      using d span True by (simp add: absorbs_def)
    then show ?thesis
      using m span True Cons.prems(1)
        Cons.IH [of "Some (d, format_range (min a c) (max b e))"] by auto
  qed
qed

lemma mother_locked_wf: "reg_wf r \<Longrightarrow> \<exists>m. mother_locked r = Some m \<and> m \<in> set (list_hosts r) \<and> status m = Online"
proof -
  assume wf: "reg_wf r"
  then obtain m where m: "dget (hosts r) ''mother'' = Some m" "status m = Online"
    using hosts_wf_mother by (auto simp: reg_wf_def)
  then have "m \<in> set (list_hosts r)"
    using wf dvalues_iff [OF hosts_wf_dict] by (auto simp: reg_wf_def list_hosts_def)
  with m show ?thesis by (simp add: mother_locked_def)
qed

lemma reclaim_candidates_hole:
  assumes h: "hole r a b"
  shows "\<exists>cands. reclaim_candidates (a, b) r = Inr cands
    \<and> (\<forall>d \<in> set cands. d \<in> set (list_hosts r) \<and> status d = Online)
    \<and> (\<exists>d \<in> set cands. adjacent (a, b) (host_span d))"
proof -
  obtain x where x: "find (\<lambda>h. status h = Online \<and> adjacent (a, b) (host_span h)) (list_hosts r) = Some x"
    using adjacent_exists [OF h]
    by (cases "find (\<lambda>h. status h = Online \<and> adjacent (a, b) (host_span h)) (list_hosts r)")
      (auto simp: find_None_iff)
  then have x': "x \<in> set (list_hosts r)" "status x = Online" "adjacent (a, b) (host_span x)"
    by (auto simp: find_Some_iff)
  have "find_adjacent_donor (a, b) r = Inr (Some x)"
    using adjacent_loop_find [of "list_hosts r" a b] hole_parse [OF h] x
    by (simp add: find_adjacent_donor_def)
  moreover obtain m where "mother_locked r = Some m" "m \<in> set (list_hosts r)" "status m = Online"
    using h mother_locked_wf by (auto simp: hole_def)
  ultimately show ?thesis
    using x' largest_donor_Some [of r]
    by (auto simp: reclaim_candidates_def Let_def split: option.splits)
qed

lemma reclaim_choice_hole:
  assumes h: "hole r a b" and p: "parse_range blocks = Inr (a, b)"
  shows "\<exists>d new_range. reclaim_choice blocks r = Inr (Some (d, new_range)) \<and> absorbs r (a, b) d new_range"
proof -
  obtain cands where c: "reclaim_candidates (a, b) r = Inr cands"
      "\<forall>d \<in> set cands. d \<in> set (list_hosts r) \<and> status d = Online"
      "\<exists>d \<in> set cands. adjacent (a, b) (host_span d)"
    using reclaim_candidates_hole [OF h] by blast
  then obtain x where "choose_absorber (a, b) r cands None = Inr x"
      "\<forall>c. x = Some c \<longrightarrow> absorbs r (a, b) (fst c) (snd c)" "x \<noteq> None"
    using choose_absorber_hole [OF h c(2), of None] by auto
  with p c(1) show ?thesis by (auto simp: reclaim_choice_def)
qed

section \<open>The hole is closed\<close>

lemma absorb_covers:
  assumes h: "hole r a b" and ab: "absorbs r (a, b) d new_range"
    and v: "block_indices v = new_range" "status v = Online"
  shows "mcovers (range_mset (dset (host_id d) v (hosts r))) 0 (total_layers r)"
proof -
  obtain c e where span: "host_span d = (c, e)" by fastforce
  have d: "d \<in> set (list_hosts r)" "status d = Online" "adjacent (a, b) (c, e)"
    and nr: "new_range = format_range (min a c) (max b e)"
    using ab span by (simp_all add: absorbs_def)
  have ok: "dict_ok (hosts r)" using h by (simp add: hole_def reg_wf_def hosts_wf_dict)
  let ?M = "range_mset (ddel (host_id d) (hosts r))"
  have M: "range_mset (hosts r) = add_mset (c, e) ?M"
    using range_mset_ddel [OF ok hole_values [OF h d(1)]] d(2) span by simp
  then have "(c, e) \<in># range_mset (hosts r)" by simp
  note ap = hole_apart [OF h this]
  have mc: "mcovers (add_mset (a, b) (add_mset (c, e) ?M)) 0 (total_layers r)"
    using h M by (simp add: hole_def)
  have "host_span v = (min a c, max b e)" using v(1) nr by (intro host_span_eq) simp
  then have M': "range_mset (dset (host_id d) v (hosts r)) = add_mset (min a c, max b e) ?M"
    using range_mset_dset [OF ok] v(2) by simp
  consider "e = a" | "b = c" using d(3) by (auto simp: adjacent_def)
  then show ?thesis
  proof cases
    case 1
    then show ?thesis using mc M' ap(1,2) mcovers_join [of c a b ?M]
      by (simp add: add_mset_commute)
  next
    case 2
    then show ?thesis using mc M' ap(1,2) mcovers_join [of a c e ?M] by simp
  qed
qed

definition no_pending :: "swarm_registry \<Rightarrow> bool" where
  "no_pending r \<longleftrightarrow> (\<forall>h \<in> set (list_hosts r). status h \<noteq> Pending)"

lemma no_pending_get:
  "reg_wf r \<Longrightarrow> no_pending r \<longleftrightarrow> (\<forall>k h. dget (hosts r) k = Some h \<longrightarrow> status h \<noteq> Pending)"
  by (simp only: no_pending_def list_hosts_def reg_wf_def Ball_def dvalues_iff hosts_wf_dict) blast

lemma reg_coverI:
  "reg_wf r \<Longrightarrow> mcovers (range_mset (hosts r)) 0 (total_layers r) \<Longrightarrow>
   (\<And>k h. dget (hosts r) k = Some h \<Longrightarrow> status h = Online) \<Longrightarrow> reg_cover r"
  by (auto simp: reg_cover_def covers_online)

lemma leave_opens_hole:
  assumes cov: "reg_cover r" and g: "dget (hosts r) hid = Some host"
    and on: "status host = Online" and rl: "role host \<noteq> Mother" and span: "host_span host = (a, b)"
  shows "hole (r\<lparr>hosts := ddel hid (hosts r)\<rparr>) a b"
proof -
  have "reg_wf r" using cov by (rule reg_cover_wf)
  then have "reg_wf (r\<lparr>hosts := ddel hid (hosts r)\<rparr>)" "dict_ok (hosts r)"
    using reg_wf_delete [OF _ g rl] by (simp_all add: reg_wf_def hosts_wf_dict)
  then show ?thesis
    using range_mset_ddel [OF _ g] on span reg_cover_mcovers [OF cov] by (simp add: hole_def)
qed

lemma reclaim_closes_hole:
  assumes h: "hole r a b" and p: "parse_range blocks = Inr (a, b)"
    and on: "\<And>k x. dget (hosts r) k = Some x \<Longrightarrow> status x = Online"
    and rc: "reclaim_range svc blocks r w = (Inr (), r', w')"
  shows "reg_cover r'"
proof -
  have wf: "reg_wf r" using h by (simp add: hole_def)
  obtain d nr where ch: "reclaim_choice blocks r = Inr (Some (d, nr))" and ab: "absorbs r (a, b) d nr"
    using reclaim_choice_hole [OF h p] by blast
  have g: "dget (hosts r) (host_id d) = Some d" using ab hole_values [OF h] by (simp add: absorbs_def)
  obtain s e where pr: "parse_range nr = Inr (s, e)" using ab by (auto simp: absorbs_def)
  let ?f = "\<lambda>d. d\<lparr>block_indices := nr, layers_hosted := e - s\<rparr>"
  have r': "r' = modify_host (host_id d) ?f r"
    using rc ch g pr by (auto simp: reclaim_range_def reclaim_commit_def split: sum.splits prod.splits)
  then have hosts': "hosts r' = dset (host_id d) (?f d) (hosts r)" using g by (simp add: modify_host_def)
  show ?thesis
  proof (rule reg_coverI)
    show "reg_wf r'" using reg_wf_set_range [OF wf pr] r' by simp
    have "status d = Online" using on g by blast
    then show "mcovers (range_mset (hosts r')) 0 (total_layers r')"
      unfolding hosts' using absorb_covers [OF h ab, of "?f d"] r' by simp
    fix k x
    assume "dget (hosts r') k = Some x"
    then show "status x = Online" using on g by (auto simp: hosts' dget_dset split: if_splits)
  qed
qed

lemma reg_cover_leave_online:
  assumes cov: "reg_cover r" and np: "no_pending r"
    and l: "leave svc ev hid r w = (Inr (), r', w')"
  shows "reg_cover r'"
  using l
proof (cases rule: leave_cases)
  case (error e)
  then show ?thesis by simp
next
  case (removed host)
  have wf: "reg_wf r" using cov by (rule reg_cover_wf)
  have "status host = Online"
    using cov np removed(1) by (cases "status host") (auto simp: reg_cover_def no_pending_get [OF wf])
  with removed(3) have "block_indices host = []" by (auto simp: leave_range_def)
  moreover have "parse_range (block_indices host) = Inr (host_span host)"
    using wf removed(1) hosts_wf_ok host_ok_span by (simp add: reg_wf_def)
  ultimately show ?thesis using parse_range_no_colon [of "[]"] by simp
next
  case (failed host blocks e)
  then show ?thesis by simp
next
  case (reclaimed host blocks r2)
  have wf: "reg_wf r" using cov by (rule reg_cover_wf)
  have st: "status h = Online" if "dget (hosts r) k = Some h" for k h
    using cov np that by (cases "status h") (auto simp: reg_cover_def no_pending_get [OF wf])
  obtain a b where span: "host_span host = (a, b)" by fastforce
  have blocks: "blocks = block_indices host"
    using st [OF reclaimed(1)] reclaimed(3) by (simp add: leave_range_def)
  have "parse_range (block_indices host) = Inr (a, b)"
    using wf reclaimed(1) hosts_wf_ok host_ok_span span by (metis reg_wf_def)
  with blocks have p: "parse_range blocks = Inr (a, b)" by simp
  have "reg_cover r2"
    by (rule reclaim_closes_hole [OF leave_opens_hole
          [OF cov reclaimed(1) st [OF reclaimed(1)] reclaimed(2) span] p _ reclaimed(6)])
      (use st in \<open>auto simp: dget_ddel split: if_splits\<close>)
  then show ?thesis
    using reclaimed(5) reg_cover_hosts [of r' r2] by simp
qed

lemma reg_cover_leave_pending:
  assumes cov: "reg_cover r" and p: "dget (hosts r) hid = Some host" "status host = Pending"
    and l: "leave svc ev hid r w = (res, r', w')"
  shows "reg_cover r'" "w' = w" "hosts r' = ddel hid (hosts r) \<or> hosts r' = hosts r"
proof -
  have "leave_range host r = Inr None" using pending_leave_range [OF cov p] .
  then have *: "w' = w \<and> (r' = persist ev (r\<lparr>hosts := ddel hid (hosts r)\<rparr>) \<or> r' = r)"
    using l p by (simp add: leave_def Let_def split: if_splits)
  have "reg_cover (persist ev r1) = reg_cover r1" for r1 by (rule reg_cover_hosts) simp_all
  with reg_cover_remove_pending [OF cov p]
  have "reg_cover (persist ev (r\<lparr>hosts := ddel hid (hosts r)\<rparr>))" by simp
  with * cov show "reg_cover r'" "w' = w" "hosts r' = ddel hid (hosts r) \<or> hosts r' = hosts r" by auto
qed

text \<open>A departure without an exception changes nothing for the hosts that are not \<open>Pending\<close>.\<close>

lemma leave_no_pending:
  assumes wf: "reg_wf r" and np: "no_pending r" and l: "leave svc ev hid r w = (Inr (), r', w')"
  shows "no_pending r'"
proof -
  have np': "status h \<noteq> Pending" if "dget (ddel hid (hosts r)) k = Some h" for k h
    using that np no_pending_get [OF wf] by (auto simp: dget_ddel split: if_splits)
  have np2: "status h \<noteq> Pending" if "dget (hosts r) k = Some h" for k h
    using that np no_pending_get [OF wf] by blast
  have rc: "status h \<noteq> Pending"
    if "reclaim_range svc blocks (r\<lparr>hosts := ddel hid (hosts r)\<rparr>) w = (Inr (), r2, w')"
      and "dget (hosts r2) k = Some h" for blocks r2 k h
    using reclaim_range_cases [OF that(1)] that(2)
    by (auto simp: reclaim_commit_def dget_modify_host dget_ddel
        split: option.splits sum.splits if_splits) (use np2 in blast)+
  have "\<forall>k h. dget (hosts r') k = Some h \<longrightarrow> status h \<noteq> Pending"
    using l by (cases rule: leave_cases) (use rc np' in auto)
  then show ?thesis using reg_wf_leave [OF wf l] no_pending_get by blast
qed

lemma leave_all_length: "leave_all svc ev hids r w = (ids, r', w') \<Longrightarrow> length ids \<le> length hids"
  by (induction hids arbitrary: r w ids r' w') (auto split: prod.splits sum.splits, fastforce+)

lemma reg_cover_leave_all_pending:
  "reg_cover r \<Longrightarrow> \<forall>hid \<in> set hids. \<forall>h. dget (hosts r) hid = Some h \<longrightarrow> status h = Pending \<Longrightarrow>
   leave_all svc ev hids r w = (ids, r', w') \<Longrightarrow> reg_cover r' \<and> w' = w"
proof (induction hids arbitrary: r w ids r' w')
  case Nil
  then show ?case by simp
next
  case (Cons hid hids)
  obtain res1 r1 w1 where l: "leave svc ev hid r w = (res1, r1, w1)" by (rule prod_cases3)
  obtain ids2 r2 w2 where la: "leave_all svc ev hids r1 w1 = (ids2, r2, w2)" by (rule prod_cases3)
  have "reg_cover r1 \<and> w1 = w \<and> (hosts r1 = ddel hid (hosts r) \<or> hosts r1 = hosts r)"
  proof (cases "dget (hosts r) hid")
    case None
    then show ?thesis using l Cons.prems(1) by (simp add: leave_def)
  next
    case (Some host)
    then have "status host = Pending" using Cons.prems(2) by simp
    then show ?thesis using reg_cover_leave_pending [OF Cons.prems(1) Some _ l] by simp
  qed
  moreover from this have "\<forall>k \<in> set hids. \<forall>h. dget (hosts r1) k = Some h \<longrightarrow> status h = Pending"
    using Cons.prems(2) by (auto simp: dget_ddel split: if_splits)
  ultimately have "reg_cover r2 \<and> w2 = w" using Cons.IH [OF _ _ la] by blast
  with Cons.prems(3) l la show ?case by simp
qed

lemma reg_cover_leave_all_online:
  "reg_cover r \<Longrightarrow> no_pending r \<Longrightarrow> leave_all svc ev hids r w = (hids, r', w') \<Longrightarrow> reg_cover r'"
proof (induction hids arbitrary: r w)
  case Nil
  then show ?case by simp
next
  case (Cons hid hids)
  obtain res1 r1 w1 where l: "leave svc ev hid r w = (res1, r1, w1)" by (rule prod_cases3)
  obtain ids2 r2 w2 where la: "leave_all svc ev hids r1 w1 = (ids2, r2, w2)" by (rule prod_cases3)
  have len: "length ids2 \<le> length hids" using la by (rule leave_all_length)
  then have res: "res1 = Inr ()" and ids: "ids2 = hids" and eq: "r2 = r'" "w2 = w'"
    using Cons.prems(3) l la by (auto split: sum.splits)
  have l': "leave svc ev hid r w = (Inr (), r1, w1)" using l res by simp
  show ?case
    using Cons.IH [OF reg_cover_leave_online [OF Cons.prems(1,2) l']
        leave_no_pending [OF reg_cover_wf [OF Cons.prems(1)] Cons.prems(2) l']] la ids eq by simp
qed

end
