(* ===== verification/Agreement.thy ===== *)
theory Agreement
  imports RegistryLeave
begin

text \<open>
  The interface between the registry and the shard managers, as a locale: what the registry relies
  on when it posts to \<open>/reload\<close>. The client's lemmas say that, under this contract, the managers
  serve the ranges the registry has for the online hosts after every hand-off and departure that
  succeeds; the extended contract adds what a failed call may have done.
\<close>

section \<open>The contract\<close>

abbreviation base_url :: "host_record \<Rightarrow> string" where
  "base_url h \<equiv> rstrip_slash (shard_manager_url h)"

text \<open>No two hosts share a shard manager.\<close>

definition distinct_urls :: "swarm_registry \<Rightarrow> bool" where
  "distinct_urls r \<longleftrightarrow> (\<forall>k h k' h'. dget (hosts r) k = Some h \<longrightarrow> dget (hosts r) k' = Some h' \<longrightarrow>
     k \<noteq> k' \<longrightarrow> base_url h \<noteq> base_url h')"

lemma distinct_urlsD: "distinct_urls r \<Longrightarrow> dget (hosts r) k = Some h \<Longrightarrow> dget (hosts r) k' = Some h' \<Longrightarrow>
    k \<noteq> k' \<Longrightarrow> base_url h \<noteq> base_url h'"
  by (simp add: distinct_urls_def)

text \<open>The hosts of \<open>r'\<close> are hosts of \<open>r\<close> at the same addresses.\<close>

definition urls_from :: "swarm_registry \<Rightarrow> swarm_registry \<Rightarrow> bool" where
  "urls_from r r' \<longleftrightarrow> (\<forall>k x. dget (hosts r') k = Some x \<longrightarrow> (\<exists>y. dget (hosts r) k = Some y \<and> base_url x = base_url y))"

lemma urls_from_distinct: "distinct_urls r \<Longrightarrow> urls_from r r' \<Longrightarrow> distinct_urls r'"
  unfolding distinct_urls_def urls_from_def by metis

lemma urls_from_refl [simp]: "urls_from r r"
  by (simp add: urls_from_def)

lemma urls_from_trans [trans]: "urls_from r r1 \<Longrightarrow> urls_from r1 r2 \<Longrightarrow> urls_from r r2"
  unfolding urls_from_def by metis

lemma urls_from_hosts: "hosts r1 = hosts r2 \<Longrightarrow> urls_from r r1 = urls_from r r2"
  by (simp add: urls_from_def)

lemma urls_from_modify:
  "(\<And>h. shard_manager_url (f h) = shard_manager_url h) \<Longrightarrow> urls_from r r' \<Longrightarrow> urls_from r (modify_host k f r')"
  unfolding urls_from_def by (auto simp: dget_modify_host split: if_splits)

lemma urls_from_ddel: "urls_from r r' \<Longrightarrow> urls_from r (r'\<lparr>hosts := ddel k (hosts r')\<rparr>)"
  by (auto simp: urls_from_def dget_ddel split: if_splits)

lemma urls_from_updates [simp]:
  "urls_from r (persist ev r') = urls_from r r'" "urls_from r (r'\<lparr>bootstrap_peers := ps\<rparr>) = urls_from r r'"
  by (simp_all add: urls_from_def)

lemma urls_from_mark_ready: "mark_ready svc ev hid peer r w = (res, r', w') \<Longrightarrow> urls_from r r'"
  by (auto simp: mark_ready_def mark_ready_prepare_def mark_ready_commit_def Let_def
      split: option.splits sum.splits prod.splits if_splits intro!: urls_from_modify)

lemma urls_from_leave:
  assumes "leave svc ev hid r w = (res, r', w')"
  shows "urls_from r r'"
  using assms
proof (cases rule: leave_cases)
  case (failed host blocks e)
  then show ?thesis
    by (auto simp: reclaim_range_def reclaim_commit_def split: option.splits sum.splits prod.splits
        intro!: urls_from_modify urls_from_ddel)
next
  case (reclaimed host blocks r2)
  then show ?thesis
    by (auto simp: reclaim_range_def reclaim_commit_def split: option.splits sum.splits prod.splits
        intro!: urls_from_modify urls_from_ddel)
qed (auto intro: urls_from_ddel)

locale reload_contract =
  fixes svc :: "'w reload_svc"
    and served :: "'w \<Rightarrow> string \<Rightarrow> string option"
  assumes reload_ok:
    "svc w (base @ ''/reload'') (blocks, peers) = (w', True) \<Longrightarrow> served w' base = Some blocks"
    and reload_other:
    "svc w (base @ ''/reload'') body = (w', ok) \<Longrightarrow> other \<noteq> base \<Longrightarrow> served w' other = served w other"
begin

text \<open>Every online host's manager serves the range the registry has for it.\<close>

definition agrees :: "swarm_registry \<Rightarrow> 'w \<Rightarrow> bool" where
  "agrees r w \<longleftrightarrow> (\<forall>k h. dget (hosts r) k = Some h \<longrightarrow> status h = Online \<longrightarrow>
     served w (base_url h) = Some (block_indices h))"

lemma agreesD: "agrees r w \<Longrightarrow> dget (hosts r) k = Some h \<Longrightarrow> status h = Online \<Longrightarrow>
    served w (base_url h) = Some (block_indices h)"
  by (simp add: agrees_def)

lemma reload_manager_ok:
  "reload_shard_manager svc url blocks peers w = (Inr u, w') \<Longrightarrow>
   served w' (rstrip_slash url) = Some blocks
   \<and> (\<forall>other. other \<noteq> rstrip_slash url \<longrightarrow> served w' other = served w other)"
  using reload_ok reload_other
  by (auto simp: reload_shard_manager_def Let_def split: prod.splits if_splits)

lemma reload_manager_other:
  "reload_shard_manager svc url blocks peers w = (res, w') \<Longrightarrow> other \<noteq> rstrip_slash url \<Longrightarrow>
   served w' other = served w other"
  using reload_other by (auto simp: reload_shard_manager_def Let_def split: prod.splits)

text \<open>One host takes over a new range after its manager did.\<close>

lemma agrees_set_range:
  assumes ag: "agrees r w" and du: "distinct_urls r" and g: "dget (hosts r) k = Some h"
    and rl: "reload_shard_manager svc (shard_manager_url h) blocks peers w = (Inr u, w')"
    and f: "\<And>x. shard_manager_url (f x) = shard_manager_url x" "block_indices (f h) = blocks"
  shows "agrees (modify_host k f r) w'"
proof -
  note ok = reload_manager_ok [OF rl]
  have "served w' (base_url x) = Some (block_indices x)"
    if "dget (hosts (modify_host k f r)) k' = Some x" "status x = Online" for k' x
  proof (cases "k' = k")
    case True
    then have "x = f h" using that(1) g by (simp add: dget_modify_host)
    then show ?thesis using ok f by simp
  next
    case False
    then have x: "dget (hosts r) k' = Some x" using that(1) by (simp add: dget_modify_host)
    then have "base_url x \<noteq> base_url h" using distinct_urlsD [OF du x g False] by simp
    with ok agreesD [OF ag x that(2)] show ?thesis by simp
  qed
  then show ?thesis by (simp add: agrees_def)
qed

lemma agrees_hosts: "hosts r' = hosts r \<Longrightarrow> agrees r' w = agrees r w"
  by (simp add: agrees_def)

lemma agrees_ddel:
  "agrees r w \<Longrightarrow> agrees (r\<lparr>hosts := ddel k (hosts r)\<rparr>) w"
  "distinct_urls r \<Longrightarrow> distinct_urls (r\<lparr>hosts := ddel k (hosts r)\<rparr>)"
  by (auto simp: agrees_def distinct_urls_def dget_ddel split: if_splits)

lemma agrees_peer:
  "agrees r w \<Longrightarrow> agrees (modify_host k (\<lambda>h. h\<lparr>peer_multiaddr := p\<rparr>) r) w"
  "distinct_urls r \<Longrightarrow> distinct_urls (modify_host k (\<lambda>h. h\<lparr>peer_multiaddr := p\<rparr>) r)"
proof -
  let ?f = "\<lambda>h. h\<lparr>peer_multiaddr := p\<rparr> :: host_record"
  have orig: "\<exists>x'. dget (hosts r) k' = Some x' \<and> shard_manager_url x' = shard_manager_url x
      \<and> status x' = status x \<and> block_indices x' = block_indices x"
    if "dget (hosts (modify_host k ?f r)) k' = Some x" for k' x
    using that by (auto simp: dget_modify_host split: if_splits)
  show "agrees r w \<Longrightarrow> agrees (modify_host k ?f r) w"
    unfolding agrees_def using orig by metis
  show "distinct_urls r \<Longrightarrow> distinct_urls (modify_host k ?f r)"
    unfolding distinct_urls_def using orig by metis
qed

section \<open>The client's operations keep the agreement\<close>

lemma agrees_reclaim:
  assumes ag: "agrees r w" and du: "distinct_urls r"
    and vals: "\<And>h. h \<in> set (list_hosts r) \<Longrightarrow> dget (hosts r) (host_id h) = Some h"
    and rc: "reclaim_range svc blocks r w = (Inr (), r', w')"
    and ch: "reclaim_choice blocks r = Inr (Some (d, nr))" and d: "d \<in> set (list_hosts r)"
  shows "agrees r' w'"
proof -
  obtain rl w1 where rl: "reload_shard_manager svc (shard_manager_url d) nr None w = (rl, w1)" by fastforce
  have g: "dget (hosts r) (host_id d) = Some d" using vals [OF d] .
  from rc ch rl obtain u where u: "rl = Inr u" by (cases rl) (auto simp: reclaim_range_def)
  from rc ch rl u g obtain s e where w': "w' = w1" and r': "r' = modify_host (host_id d)
      (\<lambda>d. d\<lparr>block_indices := nr, layers_hosted := e - s\<rparr>) r"
    by (auto simp: reclaim_range_def reclaim_commit_def split: sum.splits prod.splits)
  show ?thesis
    unfolding r' w' by (rule agrees_set_range [OF ag du g rl [unfolded u]]) simp_all
qed

lemma agrees_leave:
  assumes cov: "reg_cover r" and np: "no_pending r" and ag: "agrees r w" and du: "distinct_urls r"
    and l: "leave svc ev hid r w = (Inr (), r', w')"
  shows "agrees r' w'"
  using l
proof (cases rule: leave_cases)
  case (error e)
  then show ?thesis by simp
next
  case (removed host)
  then show ?thesis using agrees_ddel(1) [OF ag] agrees_hosts [of r' "r\<lparr>hosts := ddel hid (hosts r)\<rparr>"] by simp
next
  case (failed host blocks e)
  then show ?thesis by simp
next
  case (reclaimed host blocks r2)
  let ?r1 = "r\<lparr>hosts := ddel hid (hosts r)\<rparr>"
  have wf: "reg_wf r" using cov by (rule reg_cover_wf)
  have on: "status host = Online"
    using cov np reclaimed(1) by (cases "status host") (auto simp: reg_cover_def no_pending_get [OF wf])
  obtain a b where span: "host_span host = (a, b)" by fastforce
  have blocks: "blocks = block_indices host" using on reclaimed(3) by (simp add: leave_range_def)
  have p: "parse_range blocks = Inr (a, b)"
    using wf reclaimed(1) hosts_wf_ok host_ok_span span blocks by (metis reg_wf_def)
  have h: "hole ?r1 a b" by (rule leave_opens_hole [OF cov reclaimed(1) on reclaimed(2) span])
  obtain d nr where ch: "reclaim_choice blocks ?r1 = Inr (Some (d, nr))" and ab: "absorbs ?r1 (a, b) d nr"
    using reclaim_choice_hole [OF h p] by blast
  have "agrees r2 w'"
    by (rule agrees_reclaim [OF agrees_ddel(1) [OF ag] agrees_ddel(2) [OF du] hole_values [OF h] reclaimed(6) ch])
      (use ab in \<open>simp_all add: absorbs_def\<close>)
  then show ?thesis using reclaimed(5) agrees_hosts [of r' r2] by simp
qed

text \<open>The contributor has started its own manager on the range it was assigned before it reports ready.\<close>

lemma agrees_mark_ready:
  assumes cov: "reg_cover r" and ag: "agrees r w" and du: "distinct_urls r"
    and own: "\<And>h. dget (hosts r) hid = Some h \<Longrightarrow> status h \<noteq> Online \<Longrightarrow>
      served w (base_url h) = Some (str_or (pending_range h) (block_indices h))"
    and m: "mark_ready svc ev hid peer r w = (Inr host, r', w')"
  shows "agrees r' w'"
proof (cases "\<exists>plan r1. mark_ready_prepare hid peer r = (Inr (Inr plan), r1)")
  case False
  then obtain pr r1 where p: "mark_ready_prepare hid peer r = (pr, r1)" "\<nexists>plan. pr = Inr (Inr plan)"
    by (metis surj_pair)
  then have "r1 = r" using mark_ready_prepare_other by blast
  with p m ag show ?thesis by (auto simp: mark_ready_def split: sum.splits)
next
  case True
  then obtain plan r1 where p: "mark_ready_prepare hid peer r = (Inr (Inr plan), r1)" by blast
  obtain host0 donor shrink where h: "dget (hosts r) hid = Some host0" "status host0 \<noteq> Online"
    and d: "dget (hosts r) (plan_donor_id plan) = Some donor"
    and sr: "parse_range (plan_shrink_to plan) = Inr shrink"
    and url: "plan_donor_url plan = shard_manager_url donor"
    and asg: "plan_assigned plan = str_or (pending_range host0) (block_indices host0)"
    and r1: "r1 = (if truthy_str peer then modify_host hid (\<lambda>h. h\<lparr>peer_multiaddr := peer\<rparr>) r else r)"
    using mark_ready_prepare_plan [OF p] by blast
  have ag1: "agrees r1 w" and du1: "distinct_urls r1" using r1 agrees_peer [of r] ag du by auto
  obtain ar where ar: "parse_range (plan_assigned plan) = Inr ar"
    using plan_assigned_parses [OF reg_cover_wf [OF cov] p] by (auto simp: parses_def)
  obtain h1 where h1: "dget (hosts r1) hid = Some h1" "shard_manager_url h1 = shard_manager_url host0"
    using h(1) r1 by (cases "truthy_str peer") (auto simp: dget_modify_host)
  obtain d1 where d1: "dget (hosts r1) (plan_donor_id plan) = Some d1" "shard_manager_url d1 = shard_manager_url donor"
    using d r1 by (cases "truthy_str peer"; cases "plan_donor_id plan = hid") (auto simp: dget_modify_host)
  obtain rl w1 where rl: "reload_shard_manager svc (plan_donor_url plan) (plan_shrink_to plan) None w = (rl, w1)"
    by fastforce
  obtain res2 r2 where c: "mark_ready_commit ev hid peer plan r1 = (res2, r2)" by fastforce
  obtain u where u: "rl = Inr u" and eq: "r' = r2" "w' = w1"
    using m p rl c by (cases rl) (auto simp: mark_ready_def)
  let ?f = "\<lambda>x. x\<lparr>block_indices := plan_shrink_to plan, layers_hosted := snd shrink - fst shrink\<rparr> :: host_record"
  let ?g = "\<lambda>x. x\<lparr>block_indices := plan_assigned plan, layers_hosted := snd ar - fst ar, status := Online,
      last_heartbeat := now ev, pending_range := None, donor_shrink_to := None\<rparr> :: host_record"
  let ?k = "plan_donor_id plan"
  have rl': "reload_shard_manager svc (shard_manager_url d1) (plan_shrink_to plan) None w = (Inr u, w1)"
    using rl u url d1(2) by simp
  have ag2: "agrees (modify_host ?k ?f r1) w1"
    by (rule agrees_set_range [OF ag1 du1 d1(1) rl']) simp_all
  have hosts': "hosts r' = hosts (modify_host hid ?g (modify_host ?k ?f r1))"
    using mark_ready_commit_ok [OF h1(1) d1(1) sr ar c] eq(1) by (simp add: handed_off_def)
  have ne: "?k \<noteq> hid"
  proof
    assume "?k = hid"
    then have "donor = host0" using h(1) d by simp
    moreover have st: "status host0 = Pending"
      using h cov by (cases "status host0") (auto simp: reg_cover_def)
    moreover have "donor_host_id host0 = Some ?k" using mark_ready_prepare_plan [OF p] h(1) by auto
    moreover have "reservation_ok (hosts r) host0" using cov h(1) st by (simp add: reg_cover_def)
    ultimately show False using d by (auto simp: reservation_ok_def)
  qed
  have "base_url h1 \<noteq> base_url d1" using distinct_urlsD [OF du1 h1(1) d1(1)] ne by auto
  then have "served w1 (base_url h1) = served w (base_url h1)" using reload_manager_ok [OF rl'] by simp
  then have "served w1 (base_url h1) = Some (plan_assigned plan)" using own [OF h] asg h1(2) by simp
  then show ?thesis
    using ag2 h1(1) ne eq(2) by (auto simp: agrees_def hosts' dget_modify_host)
qed

end

end
