(* ===== verification/RegistryMachine.thy ===== *)
theory RegistryMachine
  imports RegistryLeave
begin

text \<open>
  The registry as a state machine. \<open>reg_step\<close> has one rule per section the code runs under its
  lock, with the HTTP calls of \<open>mark_ready\<close> and \<open>_reclaim_range\<close> in flight between two such
  sections, so its runs are all interleavings of concurrent requests. \<open>cover_step\<close> is the
  sequential machine of whole requests, restricted to the ones that keep the coverage invariant.
\<close>

section \<open>All interleavings keep the type invariant\<close>

datatype job =
    ReadyJob string "string option" ready_plan
  | ReclaimTodo string
  | ReclaimJob string string

record machine =
  reg :: swarm_registry
  jobs :: "job list"

inductive reg_step :: "machine \<Rightarrow> machine \<Rightarrow> bool" where
  step_join: "registry_join ev n ip url account (reg m) = (res, r') \<Longrightarrow> reg_step m (m\<lparr>reg := r'\<rparr>)"
| step_heartbeat:
    "apply_heartbeat_manifest ev hid body (reg m) = (res, r') \<Longrightarrow> reg_step m (m\<lparr>reg := r'\<rparr>)"
| step_refresh: "refresh_loop probe hs drift (reg m) = (res, r') \<Longrightarrow> reg_step m (m\<lparr>reg := r'\<rparr>)"
| step_sync: "sync_mother_from_shard blocks (reg m) = (res, r') \<Longrightarrow> reg_step m (m\<lparr>reg := r'\<rparr>)"
| step_ens: "set_ens_name ev hid name (reg m) = (res, r') \<Longrightarrow> reg_step m (m\<lparr>reg := r'\<rparr>)"
| step_bootstrap: "reg_step m (m\<lparr>reg := set_bootstrap_peers ps (reg m)\<rparr>)"
| step_persist: "reg_step m (m\<lparr>reg := persist ev (reg m)\<rparr>)"
| step_ready_start:
    "mark_ready_prepare hid peer (reg m) = (Inr (Inr plan), r') \<Longrightarrow>
     reg_step m \<lparr>reg = r', jobs = ReadyJob hid peer plan # jobs m\<rparr>"
| step_ready_end:
    "jobs m = js1 @ ReadyJob hid peer plan # js2 \<Longrightarrow>
     mark_ready_commit ev hid peer plan (reg m) = (res, r') \<Longrightarrow>
     reg_step m \<lparr>reg = r', jobs = js1 @ js2\<rparr>"
| step_leave:
    "dget (hosts (reg m)) hid = Some host \<Longrightarrow> role host \<noteq> Mother \<Longrightarrow>
     leave_range host (reg m) = Inr q \<Longrightarrow>
     reg_step m \<lparr>reg = (reg m)\<lparr>hosts := ddel hid (hosts (reg m))\<rparr>,
                 jobs = (if truthy_str q then ReclaimTodo (the q) # jobs m else jobs m)\<rparr>"
| step_reclaim_start:
    "jobs m = js1 @ ReclaimTodo blocks # js2 \<Longrightarrow>
     reclaim_choice blocks (reg m) = Inr (Some (chosen, new_range)) \<Longrightarrow>
     reg_step m (m\<lparr>jobs := js1 @ ReclaimJob (host_id chosen) new_range # js2\<rparr>)"
| step_reclaim_end:
    "jobs m = js1 @ ReclaimJob donor new_range # js2 \<Longrightarrow>
     reclaim_commit donor new_range (reg m) = (res, r') \<Longrightarrow>
     reg_step m \<lparr>reg = r', jobs = js1 @ js2\<rparr>"
| step_drop: "jobs m = js1 @ j # js2 \<Longrightarrow> reg_step m (m\<lparr>jobs := js1 @ js2\<rparr>)"

text \<open>\<open>step_drop\<close> is a reload that fails: the request ends with the exception.\<close>

fun job_ok :: "job \<Rightarrow> bool" where
  "job_ok (ReadyJob hid peer plan) = parses (plan_assigned plan)"
| "job_ok (ReclaimTodo blocks) = True"
| "job_ok (ReclaimJob donor new_range) = True"

definition machine_ok :: "machine \<Rightarrow> bool" where
  "machine_ok m \<longleftrightarrow> reg_wf (reg m) \<and> list_all job_ok (jobs m)"

lemma reg_wf_apply_heartbeat':
  "reg_wf r \<Longrightarrow> apply_heartbeat_manifest ev hid body r = (res, r') \<Longrightarrow> reg_wf r'"
  using reg_wf_apply_heartbeat by (metis snd_conv)

lemma reg_step_ok: "reg_step m m' \<Longrightarrow> machine_ok m \<Longrightarrow> machine_ok m'"
proof (induction rule: reg_step.induct)
  case (step_join ev n ip url account m res r')
  then show ?case using reg_wf_join [of "reg m" ev n ip url account] by (simp add: machine_ok_def)
next
  case (step_heartbeat ev hid body m res r')
  then show ?case using reg_wf_apply_heartbeat' by (auto simp: machine_ok_def)
next
  case (step_refresh probe hs drift m res r')
  then show ?case using reg_wf_refresh_loop by (auto simp: machine_ok_def)
next
  case (step_sync blocks m res r')
  then show ?case using reg_wf_sync_mother [of "reg m" blocks] by (simp add: machine_ok_def)
next
  case (step_ens ev hid name m res r')
  then show ?case using reg_wf_set_ens_name [of "reg m" ev hid name] by (simp add: machine_ok_def)
next
  case (step_ready_start hid peer m plan r')
  then show ?case
    using reg_wf_mark_ready_prepare plan_assigned_parses by (auto simp: machine_ok_def)
next
  case (step_ready_end m js1 hid peer plan js2 ev res r')
  then show ?case using reg_wf_mark_ready_commit by (auto simp: machine_ok_def)
next
  case (step_leave m hid host q)
  then show ?case using reg_wf_delete by (auto simp: machine_ok_def)
next
  case (step_reclaim_end m js1 donor new_range js2 res r')
  then show ?case using reg_wf_reclaim_commit [of "reg m" donor new_range] by (simp add: machine_ok_def)
qed (simp_all add: machine_ok_def)

section \<open>Whole requests that keep the coverage\<close>

lemma reg_cover_heartbeat_frame:
  assumes cov: "reg_cover r" and st: "\<And>h. status h \<noteq> Offline \<Longrightarrow> status (f h) = status h"
    and f: "\<And>h. host_id (f h) = host_id h \<and> role (f h) = role h \<and> block_indices (f h) = block_indices h
      \<and> layers_hosted (f h) = layers_hosted h \<and> pending_range (f h) = pending_range h
      \<and> donor_host_id (f h) = donor_host_id h \<and> donor_shrink_to (f h) = donor_shrink_to h"
    and on: "\<And>h. status (f h) = status h \<or> status (f h) = Online"
  shows "reg_cover (modify_host k f r)"
  by (rule reg_cover_frame [OF cov]) (use reg_wf_frame [OF reg_cover_wf [OF cov], of f k] st f on in auto)

lemma reg_cover_bootstrap [simp]: "reg_cover (r\<lparr>bootstrap_peers := ps\<rparr>) = reg_cover r"
  by (rule reg_cover_hosts) simp_all

lemma reg_cover_persist [simp]: "reg_cover (persist ev r) = reg_cover r"
  by (rule reg_cover_hosts) simp_all

lemma reg_cover_heartbeat:
  assumes cov: "reg_cover r" and h: "heartbeat ev hid r = (res, r')"
  shows "reg_cover r'"
proof (cases "dget (hosts r) hid")
  case None
  with cov h show ?thesis by (simp add: heartbeat_def)
next
  case (Some host)
  let ?f = "\<lambda>h. h\<lparr>last_heartbeat := now ev,
              status := (if status h = Offline then Online else status h)\<rparr>"
  have "reg_cover (modify_host hid ?f r)" by (rule reg_cover_heartbeat_frame [OF cov]) auto
  moreover have "r' = modify_host hid ?f r" using h Some
    by (simp only: heartbeat_def modify_host_def option.case Let_def prod.inject)
  ultimately show ?thesis by simp
qed

lemma heartbeat_blocks:
  "heartbeat ev hid r = (Inr h', r') \<Longrightarrow>
   \<exists>h. dget (hosts r) hid = Some h \<and> block_indices h' = block_indices h"
  by (auto simp: heartbeat_def Let_def split: option.splits)

lemma reg_cover_extras: "reg_cover r \<Longrightarrow> reg_cover (heartbeat_extras hid body r)"
  by (auto simp: heartbeat_extras_def Let_def intro!: reg_cover_heartbeat_frame)

text \<open>A report that names no range, or the registered one.\<close>

definition reports_registered :: "string \<Rightarrow> heartbeat_body \<Rightarrow> swarm_registry \<Rightarrow> bool" where
  "reports_registered hid body r \<longleftrightarrow> truthy_str (hb_block_indices body) \<longrightarrow>
     (\<forall>h. dget (hosts r) hid = Some h \<longrightarrow> hb_block_indices body = Some (block_indices h))"

lemma reg_cover_apply_heartbeat:
  assumes cov: "reg_cover r" and rep: "reports_registered hid body r"
    and h: "apply_heartbeat_manifest ev hid body r = (res, r')"
  shows "reg_cover r'"
proof -
  obtain res1 r1 where hb: "heartbeat ev hid r = (res1, r1)" by fastforce
  have cov1: "reg_cover r1" using reg_cover_heartbeat [OF cov hb] .
  show ?thesis
  proof (cases res1)
    case (Inl e)
    with h hb cov1 show ?thesis by (simp add: apply_heartbeat_manifest_def)
  next
    case (Inr host)
    then have "\<not> (truthy_str (hb_block_indices body) \<and> the (hb_block_indices body) \<noteq> block_indices host)"
      using heartbeat_blocks [of ev hid r host r1] hb rep by (auto simp: reports_registered_def)
    then have "r' = heartbeat_extras hid body r1"
      using h hb Inr by (auto simp: apply_heartbeat_manifest_def Let_def)
    with reg_cover_extras [OF cov1] show ?thesis by simp
  qed
qed

inductive cover_step :: "'w reload_svc \<Rightarrow> swarm_registry \<times> 'w \<Rightarrow> swarm_registry \<times> 'w \<Rightarrow> bool"
  for svc where
  cover_join:
    "dget (hosts r) (join_host_id ev) = None \<Longrightarrow> registry_join ev n ip url account r = (res, r') \<Longrightarrow>
     cover_step svc (r, w) (r', w)"
| cover_ready: "mark_ready svc ev hid peer r w = (res, r', w') \<Longrightarrow> cover_step svc (r, w) (r', w')"
| cover_heartbeat:
    "reports_registered hid body r \<Longrightarrow> apply_heartbeat_manifest ev hid body r = (res, r') \<Longrightarrow>
     cover_step svc (r, w) (r', w)"
| cover_ens: "set_ens_name ev hid name r = (res, r') \<Longrightarrow> cover_step svc (r, w) (r', w)"
| cover_peers: "cover_step svc (r, w) (set_bootstrap_peers ps r, w)"
| cover_leave_pending:
    "dget (hosts r) hid = Some host \<Longrightarrow> status host = Pending \<Longrightarrow>
     leave svc ev hid r w = (res, r', w') \<Longrightarrow> cover_step svc (r, w) (r', w')"
| cover_leave_online:
    "no_pending r \<Longrightarrow> leave svc ev hid r w = (Inr (), r', w') \<Longrightarrow> cover_step svc (r, w) (r', w')"
| cover_reap_pending:
    "reap_stale_pending svc ev ttl r w = (ids, r', w') \<Longrightarrow> cover_step svc (r, w) (r', w')"
| cover_reap:
    "no_pending r \<Longrightarrow> reap_stale svc ev ttl r w = (ids, r', w') \<Longrightarrow>
     ids = map host_id (filter (\<lambda>h. role h \<noteq> Mother \<and> status h = Online
             \<and> now ev - last_heartbeat h > ttl) (list_hosts r)) \<Longrightarrow>
     cover_step svc (r, w) (r', w')"

lemma reg_cover_reap_pending:
  assumes cov: "reg_cover r" and rp: "reap_stale_pending svc ev ttl r w = (ids, r', w')"
  shows "reg_cover r'"
proof -
  let ?stale = "map host_id (filter (\<lambda>h. role h \<noteq> Mother \<and> status h = Pending
                              \<and> now ev - joined_at h > ttl) (list_hosts r))"
  obtain ids2 r2 w2 where la: "leave_all svc ev ?stale r w = (ids2, r2, w2)" by (rule prod_cases3)
  have "hosts_wf (hosts r)" using cov by (simp add: reg_cover_def reg_wf_def)
  then have st: "status h' = Pending"
    if "h \<in> set (list_hosts r)" "status h = Pending" "dget (hosts r) (host_id h) = Some h'" for h h'
    using that hosts_wf_values [of "hosts r" h] by (metis list_hosts_def option.inject)
  have "\<forall>k \<in> set ?stale. \<forall>h. dget (hosts r) k = Some h \<longrightarrow> status h = Pending"
  proof (intro ballI allI impI)
    fix k h
    assume "k \<in> set ?stale" and g: "dget (hosts r) k = Some h"
    then obtain h0 where "h0 \<in> set (list_hosts r)" "status h0 = Pending" "k = host_id h0" by auto
    with g show "status h = Pending" by (intro st [of h0 h]) simp_all
  qed
  from reg_cover_leave_all_pending [OF cov this la] have "reg_cover r2" by (rule conjunct1)
  then show ?thesis using rp la by (auto simp: reap_stale_pending_def Let_def split: if_splits)
qed

lemma reg_cover_reap:
  assumes cov: "reg_cover r" "no_pending r" and rp: "reap_stale svc ev ttl r w = (ids, r', w')"
    and all: "ids = map host_id (filter (\<lambda>h. role h \<noteq> Mother \<and> status h = Online
             \<and> now ev - last_heartbeat h > ttl) (list_hosts r))"
  shows "reg_cover r'"
proof -
  obtain ids2 r2 w2 where la: "leave_all svc ev ids r w = (ids2, r2, w2)" by (rule prod_cases3)
  then have *: "ids2 = ids" "r' = r2 \<or> r' = persist ev r2"
    using rp by (auto simp: reap_stale_def Let_def all split: if_splits)
  with la have "leave_all svc ev ids r w = (ids, r2, w2)" by simp
  from reg_cover_leave_all_online [OF cov this] *(2) show ?thesis by auto
qed

lemma reg_cover_set_ens:
  assumes "reg_cover r" and "set_ens_name ev hid name r = (res, r')"
  shows "reg_cover r'"
proof -
  have "reg_cover (modify_host hid (\<lambda>h. h\<lparr>ens_name := Some name\<rparr>) r)"
    by (rule reg_cover_heartbeat_frame [OF assms(1)]) auto
  with assms show ?thesis by (auto simp: set_ens_name_def split: option.splits)
qed

lemma cover_step_cover: "cover_step svc s s' \<Longrightarrow> reg_cover (fst s) \<Longrightarrow> reg_cover (fst s')"
proof (induction rule: cover_step.induct)
  case (cover_peers r w ps)
  then show ?case by (simp add: set_bootstrap_peers_def)
qed (auto intro: reg_cover_join reg_cover_mark_ready reg_cover_apply_heartbeat reg_cover_set_ens
    reg_cover_leave_pending(1) reg_cover_leave_online reg_cover_reap_pending reg_cover_reap)

lemma reg_cover_init:
  assumes "swarm_registry_init ev model n url account dsk = Inr r" and "0 < n"
  shows "reg_cover r"
proof -
  have "range_mset (hosts r) = {#(0, n)#}" "total_layers r = n"
    "dget (hosts r) k = Some h \<Longrightarrow> status h = Online" for k h
    using assms(1) by (auto simp: swarm_registry_init_def rbind_Inr_iff range_mset_def host_span_def
        split: if_splits)
  moreover have "mcovers {#(0, n)#} 0 n" using assms(2) by (simp add: mcovers_def)
  ultimately show ?thesis using reg_wf_init [OF assms(1)] by (intro reg_coverI) auto
qed

end
