(* ===== verification/ChainProps.thy ===== *)
theory ChainProps
  imports Complex_Main HttpChain SwarmCover
begin

text \<open>
  The properties of the chained inference: the order and the coverage check of the hosts, the
  bounds of the generation loop, the nucleus; and, as a locale, the interface between the host
  that runs the chain and the hosts it calls, under which one pass along the chain is the whole
  model applied in order.
\<close>

section \<open>The interface to the remote hosts\<close>

text \<open>A model that has layers and whose operations keep the bytes of a tensor in step with its shape.\<close>

definition keeps_tensors :: "(string \<Rightarrow> nat option) \<Rightarrow> (tensor, 'l) petals_model \<Rightarrow> bool" where
  "keeps_tensors itemsize pm \<longleftrightarrow>
     (\<exists>f. runner_layers pm = Inr f)
     \<and> (\<forall>ids h. runner_embed pm ids = Inr h \<longrightarrow> tensor_ok itemsize h)
     \<and> (\<forall>f i h h'. runner_layers pm = Inr f \<longrightarrow> tensor_ok itemsize h \<longrightarrow> f i h = Inr h' \<longrightarrow> tensor_ok itemsize h')"

lemma rfold_keeps:
  "(\<And>i h h'. P h \<Longrightarrow> f i h = Inr h' \<Longrightarrow> P h') \<Longrightarrow> P h \<Longrightarrow> rfold f xs h = Inr h' \<Longrightarrow> P h'"
  by (induction xs arbitrary: h) (auto simp: rbind_Inr_iff)

lemma run_layers_keeps:
  assumes k: "keeps_tensors itemsize pm" and h: "tensor_ok itemsize h" and r: "run_layers pm a b h = Inr h'"
  shows "tensor_ok itemsize h'"
proof -
  obtain f where f: "runner_layers pm = Inr f" "rfold f [a..b - 1] h = Inr h'"
    using r by (auto simp: run_layers_def rbind_Inr_iff)
  have "\<And>i h h'. tensor_ok itemsize h \<Longrightarrow> f i h = Inr h' \<Longrightarrow> tensor_ok itemsize h'"
    using k f(1) by (simp add: keeps_tensors_def)
  then show ?thesis using rfold_keeps [of "tensor_ok itemsize" f, OF _ h f(2)] by blast
qed

text \<open>A model agrees with another on the layers \<open>a\<close> to \<open>b\<close>, and on the embedding when they are the first.\<close>

definition slice_of :: "('h, 'l) petals_model \<Rightarrow> ('h, 'l) petals_model \<Rightarrow> int \<Rightarrow> int \<Rightarrow> bool" where
  "slice_of pm pm' a b \<longleftrightarrow>
     (\<exists>f f'. runner_layers pm = Inr f \<and> runner_layers pm' = Inr f' \<and> (\<forall>i h. a \<le> i \<longrightarrow> i < b \<longrightarrow> f' i h = f i h))
     \<and> (a = 0 \<longrightarrow> runner_embed pm' = runner_embed pm)"

lemma rfold_cong: "(\<And>x h. x \<in> set xs \<Longrightarrow> f x h = g x h) \<Longrightarrow> rfold f xs h = rfold g xs h"
proof (induction xs arbitrary: h)
  case (Cons x xs)
  have "rfold f xs = rfold g xs" by (rule ext) (use Cons in auto)
  then show ?case using Cons.prems by simp
qed simp

lemma slice_run:
  assumes "slice_of pm pm' a b"
  shows "run_layers pm' a b = run_layers pm a b"
proof
  fix h
  obtain f f' where f: "runner_layers pm = Inr f" "runner_layers pm' = Inr f'"
    "\<forall>i h. a \<le> i \<longrightarrow> i < b \<longrightarrow> f' i h = f i h"
    using assms by (auto simp: slice_of_def)
  then have "rfold f' [a..b - 1] h = rfold f [a..b - 1] h" by (intro rfold_cong) auto
  with f show "run_layers pm' a b h = run_layers pm a b h" by (simp add: run_layers_def)
qed

text \<open>The address of a manifest host is one that runs the range.\<close>

definition routed ::
  "(string \<Rightarrow> range \<Rightarrow> bool) \<Rightarrow> environ \<Rightarrow> manifest_dict \<Rightarrow> manifest_host \<Rightarrow> range \<Rightarrow> bool" where
  "routed runs env md h q \<longleftrightarrow> (\<exists>url. host_http_url env h md = Inr url \<and> runs url q)"

text \<open>\<open>runs url (a, b)\<close>: the host behind the address runs the layers \<open>a\<close> to \<open>b\<close> of the model \<open>pm\<close>.\<close>

locale chain_provider =
  fixes net :: chain_net
    and pm :: "(tensor, 'l) petals_model"
    and runs :: "string \<Rightarrow> range \<Rightarrow> bool"
  assumes prefix_law:
    "runs url (0, b) \<Longrightarrow> keeps_tensors (net_itemsize net) pm \<Longrightarrow>
     remote_prefix net url ids = Inr h \<longleftrightarrow> rbind (runner_embed pm ids) (run_layers pm 0 b) = Inr h"
    and continue_law:
    "runs url (a, b) \<Longrightarrow> keeps_tensors (net_itemsize net) pm \<Longrightarrow> tensor_ok (net_itemsize net) h \<Longrightarrow>
     remote_continue net url h = Inr h' \<longleftrightarrow> run_layers pm a b h = Inr h'"
begin

lemma middle_hops:
  assumes keeps: "keeps_tensors (net_itemsize net) pm"
  shows "list_all2 (routed runs env md) mids rs \<Longrightarrow> scan_chain a rs = Inr b \<Longrightarrow> \<forall>(s, e) \<in> set rs. s < e \<Longrightarrow>
    tensor_ok (net_itemsize net) h \<Longrightarrow>
    a \<le> b \<and> (rfold (middle_hop net env md) mids h = Inr h' \<longleftrightarrow> run_layers pm a b h = Inr h')"
proof (induction mids rs arbitrary: a h rule: list_all2_induct)
  case Nil
  have "run_layers pm a a h = rbind (runner_layers pm) (\<lambda>_. Inr h)" by (simp add: run_layers_def)
  then show ?case using Nil keeps by (auto simp: keeps_tensors_def)
next
  case (Cons mid mids q rs)
  obtain s e where q: "q = (s, e)" by fastforce
  have sc: "s = a" "scan_chain e rs = Inr b" using Cons.prems(1) q by (auto split: if_splits)
  have lt: "a < e" using Cons.prems(2) q sc(1) by auto
  obtain url where url: "host_http_url env mid md = Inr url" "runs url (a, e)"
    using Cons.hyps(1) q sc(1) by (auto simp: routed_def)
  have hop: "middle_hop net env md mid h = Inr h1 \<longleftrightarrow> run_layers pm a e h = Inr h1" for h1
    using continue_law [OF url(2) keeps Cons.prems(3)] url(1) by (simp add: middle_hop_def)
  have rest: "\<forall>(s, e) \<in> set rs. s < e" using Cons.prems(2) by simp
  have le: "e \<le> b" using scan_chain_covers [OF sc(2)] rest by blast
  have "rfold (middle_hop net env md) (mid # mids) h = Inr h'
      \<longleftrightarrow> (\<exists>h1. run_layers pm a e h = Inr h1 \<and> rfold (middle_hop net env md) mids h1 = Inr h')"
    by (simp add: rbind_Inr_iff hop)
  also have "\<dots> \<longleftrightarrow> (\<exists>h1. run_layers pm a e h = Inr h1 \<and> run_layers pm e b h1 = Inr h')"
    using Cons.IH [OF sc(2) rest] run_layers_keeps [OF keeps Cons.prems(3)] by blast
  also have "\<dots> \<longleftrightarrow> run_layers pm a b h = Inr h'"
    using run_layers_compose [of a e b pm h] lt le by (simp add: rbind_Inr_iff flip: rbind_Inr_iff)
  finally show ?case using lt le by simp
qed

text \<open>One pass of the chain is one pass of the whole model.\<close>

lemma chain_is_model:
  assumes keeps: "keeps_tensors (net_itemsize net) pm"
    and up: "list_all2 (routed runs env md) upstream rs"
    and sc: "scan_chain 0 (rs @ [(s, e)]) = Inr n" and pos: "\<forall>(s, e) \<in> set (rs @ [(s, e)]). s < e"
    and lr: "lr_block_start r = s" "lr_block_end r = e" and tail: "slice_of pm pmt s e"
  shows "chain_forward net env md pmt r upstream ids = Inr h
    \<longleftrightarrow> rbind (runner_embed pm ids) (run_layers pm 0 n) = Inr h"
proof -
  have split: "scan_chain a (rs @ [(s, e)]) = Inr n \<longleftrightarrow> scan_chain a rs = Inr s \<and> n = e" for a
    by (induction rs arbitrary: a) (auto split: if_splits)
  have rs: "scan_chain 0 rs = Inr s" and n: "n = e" using sc split by auto
  have pos': "\<forall>(s, e) \<in> set rs. s < e" "s < e" using pos by auto
  have le: "0 \<le> s" using scan_chain_covers [OF rs pos'(1)] by blast
  show ?thesis
  proof (cases upstream)
    case Nil
    then have "rs = []" using up by simp
    then have "s = 0" using rs by simp
    with Nil n lr tail slice_run [OF tail] show ?thesis
      by (simp add: chain_forward_def forward_prefix_run slice_of_def)
  next
    case (Cons first mids)
    obtain q rs' where rs': "rs = q # rs'" and f: "routed runs env md first q" "list_all2 (routed runs env md) mids rs'"
      using up Cons by (auto simp: list_all2_Cons1)
    obtain x y where q: "q = (x, y)" by fastforce
    have x: "x = 0" "scan_chain y rs' = Inr s" using rs rs' q by (auto split: if_splits)
    have y: "0 < y" and rest: "\<forall>(s, e) \<in> set rs'. s < e" using pos'(1) rs' q x(1) by auto
    obtain url where url: "host_http_url env first md = Inr url" "runs url (0, y)"
      using f(1) q x(1) by (auto simp: routed_def)
    have ys: "y \<le> s" using scan_chain_covers [OF x(2) rest] by blast
    have "chain_forward net env md pmt r upstream ids = Inr h \<longleftrightarrow>
        (\<exists>h0 h1. remote_prefix net url ids = Inr h0 \<and> rfold (middle_hop net env md) mids h0 = Inr h1
           \<and> forward_tail pmt r h1 = Inr h)"
      using Cons url(1) by (auto simp: chain_forward_def rbind_Inr_iff)
    also have "\<dots> \<longleftrightarrow> (\<exists>he h0 h1. runner_embed pm ids = Inr he \<and> run_layers pm 0 y he = Inr h0
        \<and> run_layers pm y s h0 = Inr h1 \<and> run_layers pm s e h1 = Inr h)"
    proof -
      have ok: "tensor_ok (net_itemsize net) h0"
        if "runner_embed pm ids = Inr he" "run_layers pm 0 y he = Inr h0" for he h0
        using run_layers_keeps [OF keeps _ that(2)] keeps that(1) by (simp add: keeps_tensors_def)
      show ?thesis
        using prefix_law [OF url(2) keeps] middle_hops [OF keeps f(2) x(2) rest] ok lr
        by (simp add: rbind_Inr_iff forward_tail_run slice_run [OF tail]) blast
    qed
    also have "\<dots> \<longleftrightarrow> (\<exists>he. runner_embed pm ids = Inr he \<and> run_layers pm 0 e he = Inr h)"
    proof -
      have 1: "rbind (run_layers pm 0 y he) (run_layers pm y s) = run_layers pm 0 s he" for he
        using run_layers_compose [of 0 y s] y ys by simp
      have 2: "rbind (run_layers pm 0 s he) (run_layers pm s e) = run_layers pm 0 e he" for he
        using run_layers_compose [of 0 s e] le pos'(2) by simp
      have "run_layers pm 0 e he = Inr h \<longleftrightarrow> (\<exists>h0 h1. run_layers pm 0 y he = Inr h0
          \<and> run_layers pm y s h0 = Inr h1 \<and> run_layers pm s e h1 = Inr h)" for he
        unfolding 2 [symmetric] 1 [symmetric] by (auto simp: rbind_Inr_iff)
      then show ?thesis by blast
    qed
    finally show ?thesis using n by (simp add: rbind_Inr_iff)
  qed
qed

end

section \<open>The order of the hosts\<close>

definition mh_span :: "manifest_host \<Rightarrow> range" where
  "mh_span h = (case mh_range h of Inr q \<Rightarrow> q | Inl _ \<Rightarrow> (0, 0))"

lemma ordered_hosts_Inr:
  assumes "ordered_hosts m = Inr hs"
  shows "(\<forall>h \<in> set hs. mh_range h = Inr (mh_span h)) \<and> sorted (map (\<lambda>h. fst (mh_span h)) hs)
    \<and> mset hs = mset (filter (\<lambda>h. truthy_str (mh_block_indices h)) (md_hosts m))"
proof -
  let ?hs = "filter (\<lambda>h. truthy_str (mh_block_indices h)) (md_hosts m)"
  obtain keyed where k: "rmap (\<lambda>h. rbind (mh_range h) (\<lambda>(s, e). Inr (s, h))) ?hs = Inr keyed"
    and hs: "hs = map snd (sort_key fst keyed)"
    using assms by (auto simp: ordered_hosts_def Let_def rbind_Inr_iff)
  have all: "list_all2 (\<lambda>h x. rbind (mh_range h) (\<lambda>(s, e). Inr (s, h)) = Inr x) ?hs keyed"
    using k by (simp add: rmap_Inr_iff)
  then have all': "list_all2 (\<lambda>h x. snd x = h \<and> mh_range h = Inr (mh_span h) \<and> fst x = fst (mh_span h)) ?hs keyed"
    by (rule list_all2_mono) (auto simp: rbind_Inr_iff mh_span_def)
  then have "map snd keyed = ?hs" by (simp add: list_all2_conv_all_nth list_eq_iff_nth_eq)
  have "mset hs = image_mset snd (mset (sort_key fst keyed))" unfolding hs by (rule mset_map)
  also have "\<dots> = mset (map snd keyed)" by (simp only: mset_sort mset_map)
  also have "\<dots> = mset ?hs" using \<open>map snd keyed = ?hs\<close> by (rule arg_cong)
  finally have ms: "mset hs = mset ?hs" .
  have keys: "\<forall>x \<in> set keyed. mh_range (snd x) = Inr (mh_span (snd x)) \<and> fst x = fst (mh_span (snd x))"
  proof
    fix x assume "x \<in> set keyed"
    then obtain i where i: "i < length keyed" "x = keyed ! i" by (auto simp: in_set_conv_nth)
    with all' have "snd x = ?hs ! i \<and> mh_range (?hs ! i) = Inr (mh_span (?hs ! i)) \<and> fst x = fst (mh_span (?hs ! i))"
      by (simp add: list_all2_conv_all_nth)
    then show "mh_range (snd x) = Inr (mh_span (snd x)) \<and> fst x = fst (mh_span (snd x))" by simp
  qed
  then have "map (\<lambda>h. fst (mh_span h)) hs = map fst (sort_key fst keyed)"
    unfolding hs by (auto simp: comp_def)
  then have "sorted (map (\<lambda>h. fst (mh_span h)) hs)" by simp
  moreover have "\<forall>h \<in> set hs. mh_range h = Inr (mh_span h)" using keys hs by auto
  ultimately show ?thesis using ms by blast
qed

lemma coverage_loop_scan:
  "\<forall>h \<in> set hs. mh_range h = Inr (mh_span h) \<Longrightarrow>
   chain_coverage_loop hs a = (case scan_chain a (map mh_span hs) of Inr e \<Rightarrow> Inr e | Inl _ \<Rightarrow> Inl RuntimeError)"
proof (induction hs arbitrary: a)
  case (Cons h hs)
  then show ?case by (cases "mh_span h") auto
qed simp

text \<open>The hosts of a manifest are put in the order of their first layer, none lost or added, and the
  check that follows accepts them, for a known number of layers and non-empty ranges, exactly when
  the ranges cover the layers without gap or overlap.\<close>

lemma chain_check_iff_cover:
  assumes o: "ordered_hosts m = Inr hs" and n: "0 < n" and ne: "\<forall>h \<in> set hs. fst (mh_span h) < snd (mh_span h)"
  shows "mset hs = mset (filter (\<lambda>h. truthy_str (mh_block_indices h)) (md_hosts m))
    \<and> sorted (map (\<lambda>h. fst (mh_span h)) hs)
    \<and> (validate_chain_coverage hs n = Inr () \<longleftrightarrow> exact_cover (map mh_span hs) n)"
proof -
  note oh = ordered_hosts_Inr [OF o]
  have pos: "\<forall>(a, b) \<in> set (map mh_span hs). a < b" using ne by auto
  have srt: "sorted (map fst (map mh_span hs))" using oh by (simp add: comp_def)
  have "scan_chain 0 (map mh_span hs) = Inr n \<longleftrightarrow> exact_cover (map mh_span hs) n"
    using n by (intro scan_chain_iff_covers [OF pos srt]) simp
  moreover have "\<not> exact_cover [] n" using n covers_ex [of "[]" 0 n 0] by auto
  ultimately have "validate_chain_coverage hs n = Inr () \<longleftrightarrow> exact_cover (map mh_span hs) n"
    using coverage_loop_scan [of hs 0] oh n
    by (auto simp: validate_chain_coverage_def rbind_Inr_iff split: sum.splits)
  with oh show ?thesis by simp
qed

definition ex_chain_host :: "string \<Rightarrow> string \<Rightarrow> string \<Rightarrow> manifest_host" where
  "ex_chain_host hid blocks url = \<lparr>mh_host_id = Some hid, mh_role = Some ''contributor'', mh_block_indices = Some blocks,
     mh_layers_hosted = 0, mh_shard_manager_url = Some url, mh_public_ip = None, mh_peer_multiaddr = None,
     mh_petals_running = None\<rparr>"

definition ex_manifest :: manifest_dict where
  "ex_manifest = \<lparr>md_model = ''m'', md_total_layers = Some 4,
     md_hosts = [ex_chain_host ''b'' ''2:4'' ''http://b.io'', ex_chain_host ''a'' ''0:2'' ''http://a.io'']\<rparr>"

lemma chain_check_iff_cover_witness:
  "\<exists>hs. ordered_hosts ex_manifest = Inr hs \<and> map mh_span hs = [(0, 2), (2, 4)]
     \<and> (validate_chain_coverage hs 4 = Inr () \<longleftrightarrow> exact_cover (map mh_span hs) 4)"
proof -
  let ?hs = "[ex_chain_host ''a'' ''0:2'' ''http://a.io'', ex_chain_host ''b'' ''2:4'' ''http://b.io'']"
  have o: "ordered_hosts ex_manifest = Inr ?hs" by code_simp
  have m: "map mh_span ?hs = [(0, 2), (2, 4)]" unfolding mh_span_def by code_simp
  then have "\<forall>h \<in> set ?hs. fst (mh_span h) < snd (mh_span h)" by simp
  from chain_check_iff_cover [OF o _ this, of 4] o m show ?thesis by (metis zero_less_numeral)
qed

section \<open>The generation loop\<close>

lemma gen_loop_bounds:
  "gen_loop step eos ids n todo gen = Inr (out, ran_out) \<Longrightarrow>
   \<exists>new. out = gen @ new \<and> length new \<le> todo \<and> (ran_out \<longleftrightarrow> eos \<notin> set new)
     \<and> (ran_out \<longrightarrow> length new = todo) \<and> (\<not> ran_out \<longrightarrow> new \<noteq> [] \<and> last new = eos \<and> eos \<notin> set (butlast new))"
proof (induction step eos ids n todo gen rule: gen_loop.induct)
  case (1 step eos ids n gen)
  then show ?case by simp
next
  case (2 step eos ids n todo gen)
  obtain t where t: "step n (ids @ gen) gen = Inr t" using "2.prems" by (auto simp: rbind_Inr_iff)
  show ?case
  proof (cases "t = eos")
    case True
    with "2.prems" t show ?thesis by auto
  next
    case False
    then have g: "gen_loop step eos ids (Suc n) todo (gen @ [t]) = Inr (out, ran_out)" using "2.prems" t by simp
    obtain new where new: "out = (gen @ [t]) @ new" "length new \<le> todo" "ran_out \<longleftrightarrow> eos \<notin> set new"
      "ran_out \<longrightarrow> length new = todo" "\<not> ran_out \<longrightarrow> new \<noteq> [] \<and> last new = eos \<and> eos \<notin> set (butlast new)"
      using "2.IH" [OF False g] by blast
    then show ?thesis using False by (intro exI [of _ "t # new"]) auto
  qed
qed

text \<open>A generation that returns has produced at least one token and at most the smaller of the request
  and 512; its finish reason is \<open>length\<close> exactly when no end-of-sequence token was produced, and
  otherwise that token is the last one and occurs once.\<close>

lemma generate_bounded:
  assumes "generate net env T tk penalty pm r blocks msgs max_tokens temp top_p manifest = Inr res"
  shows "\<exists>toks. ir_text res = tk_decode tk toks \<and> ir_completion_tokens res = length toks
    \<and> 1 \<le> length toks \<and> int (length toks) \<le> max 1 (min max_tokens 512)
    \<and> (ir_finish_reason res = ''length'' \<longleftrightarrow> tk_eos tk \<notin> set toks)
    \<and> (ir_finish_reason res = ''length'' \<or> ir_finish_reason res = ''stop'' \<and> last toks = tk_eos tk
         \<and> tk_eos tk \<notin> set (butlast toks))"
proof -
  obtain m hs ids toks ran_out where
    g: "gen_loop (chain_step net env T penalty temp top_p m pm r (butlast hs)) (tk_eos tk) ids 0
          (nat (max 1 (min max_tokens 512))) [] = Inr (toks, ran_out)"
    and res: "res = \<lparr>ir_text = tk_decode tk toks, ir_prompt_tokens = length ids,
                ir_completion_tokens = length toks,
                ir_finish_reason = (if ran_out then ''length'' else ''stop'')\<rparr>"
    using assms
    by (auto simp: generate_def chain_run_def rbind_Inr_iff Let_def)
  note gb = gen_loop_bounds [OF g]
  define k where "k = max 1 (min max_tokens 512)"
  have pos: "0 < nat (max 1 (min max_tokens 512))" by simp
  have k: "1 \<le> k" "length toks \<le> nat k" using gb by (auto simp: k_def)
  show ?thesis
  proof (intro exI [of _ toks] conjI)
    show "1 \<le> length toks" using gb pos by (cases ran_out) (auto simp: Suc_le_eq)
    show "int (length toks) \<le> max 1 (min max_tokens 512)"
      unfolding k_def [symmetric] using k by linarith
  qed (use gb res in auto)
qed

text \<open>A model of one number per token: embedding sums the ids, every layer adds one, the head prefers
  the second token.\<close>

definition ex_tensor_of :: "nat \<Rightarrow> tensor" where
  "ex_tensor_of n = \<lparr>t_bytes = [of_nat n], t_shape = [1], t_dtype = ''uint8''\<rparr>"

definition ex_model :: "(tensor, rat list) petals_model" where
  "ex_model = \<lparr>pm_embed = Some (\<lambda>ids. Inr (ex_tensor_of (nat (sum_list ids)))),
     pm_layers = Some (\<lambda>i h. Inr (h\<lparr>t_bytes := map (\<lambda>b. b + 1) (t_bytes h)\<rparr>)), pm_norm = None,
     pm_head = Some (\<lambda>h. Inr [0, 1]), pm_config_layers = [4]\<rparr>"

definition ex_itemsize :: "string \<Rightarrow> nat option" where
  "ex_itemsize d = (if d = ''uint8'' then Some 1 else None)"

definition ex_net :: chain_net where
  "ex_net = \<lparr>net_prefix = (\<lambda>url ids. Inr (tensor_to_payload (ex_tensor_of (nat (sum_list ids) + 2)))),
     net_continue = (\<lambda>url p. Inr p), net_itemsize = ex_itemsize\<rparr>"

definition ex_tail :: "(tensor, rat list) local_runner" where
  "ex_tail = \<lparr>lr_model_name = ''m'', lr_block_start = 2, lr_block_end = 4, lr_port = 7, lr_log_path = ''log'',
     lr_model = Some ex_model\<rparr>"

definition ex_tokenizer :: "int \<Rightarrow> rat tokenizer" where
  "ex_tokenizer eos = \<lparr>tk_template = (\<lambda>_. None), tk_encode = (\<lambda>s. [3, 4]), tk_decode = (\<lambda>toks. map (\<lambda>_. CHR ''x'') toks),
     tk_eos = eos\<rparr>"

definition ex_torch :: "rat torch_ops" where
  "ex_torch = \<lparr>to_softmax = (\<lambda>xs. xs), to_sort_desc = (\<lambda>xs. [1, 0]), to_multinomial = (\<lambda>n xs. 0)\<rparr>"

definition ex_generate :: "int \<Rightarrow> inference_result result" where
  "ex_generate eos = generate ex_net Map.empty ex_torch (ex_tokenizer eos) 1 ex_model ex_tail ''2:4''
     [(Some ''user'', Some ''hi'')] 3 0 1 (Some ex_manifest)"

lemma generate_bounded_witness:
  "\<exists>res. ex_generate 9 = Inr res \<and> ir_completion_tokens res = 3 \<and> ir_finish_reason res = ''length''
     \<and> (\<exists>toks. ir_text res = tk_decode (ex_tokenizer 9) toks \<and> ir_completion_tokens res = length toks)"
proof -
  have "(case ex_generate 9 of Inr res \<Rightarrow> ir_completion_tokens res = 3 \<and> ir_finish_reason res = ''length'' | Inl _ \<Rightarrow> False)"
    by code_simp
  then obtain res where r: "ex_generate 9 = Inr res" "ir_completion_tokens res = 3" "ir_finish_reason res = ''length''"
    by (auto split: sum.splits)
  from generate_bounded [OF r(1) [unfolded ex_generate_def]] r show ?thesis by blast
qed

section \<open>The nucleus\<close>

fun kept_from :: "'a::linordered_field \<Rightarrow> bool \<Rightarrow> 'a \<Rightarrow> 'a list \<Rightarrow> 'a list" where
  "kept_from bnd m acc [] = []"
| "kept_from bnd m acc (p # ps) = (if m then 0 else p) # kept_from bnd (acc + p > bnd) (acc + p) ps"

lemma nucleus_kept:
  "map2 (\<lambda>m p. if m then 0 else p) (m # butlast (map (\<lambda>c. c > bnd) (cumsum_from acc ps))) ps = kept_from bnd m acc ps"
proof (induction ps arbitrary: m acc)
  case (Cons p ps)
  show ?case
  proof (cases ps)
    case (Cons p' ps')
    then show ?thesis using Cons.IH [of "acc + p > bnd" "acc + p"] by simp
  qed simp
qed simp

lemma kept_from_masked:
  "bnd < acc \<Longrightarrow> \<forall>p \<in> set ps. 0 \<le> p \<Longrightarrow> kept_from bnd True acc ps = replicate (length ps) 0"
  by (induction ps arbitrary: acc) (auto simp: add_strict_increasing2)

lemma kept_from_prefix:
  "\<forall>p \<in> set ps. 0 \<le> p \<Longrightarrow> ps \<noteq> [] \<Longrightarrow>
   \<exists>k. 1 \<le> k \<and> k \<le> length ps \<and> kept_from bnd False acc ps = take k ps @ replicate (length ps - k) 0
     \<and> (k = length ps \<or> bnd < acc + sum_list (take k ps))
     \<and> (\<forall>j. 1 \<le> j \<and> j < k \<longrightarrow> acc + sum_list (take j ps) \<le> bnd)"
proof (induction ps arbitrary: acc)
  case (Cons p ps)
  show ?case
  proof (cases "bnd < acc + p \<or> ps = []")
    case True
    then have "kept_from bnd (acc + p > bnd) (acc + p) ps = replicate (length ps) 0"
      using kept_from_masked [of bnd "acc + p" ps] Cons.prems(1) by auto
    then show ?thesis using True by (intro exI [of _ 1]) auto
  next
    case False
    obtain k where k: "1 \<le> k" "k \<le> length ps"
      "kept_from bnd False (acc + p) ps = take k ps @ replicate (length ps - k) 0"
      "k = length ps \<or> bnd < acc + p + sum_list (take k ps)"
      "\<forall>j. 1 \<le> j \<and> j < k \<longrightarrow> acc + p + sum_list (take j ps) \<le> bnd"
      using Cons.IH [of "acc + p"] Cons.prems False by auto
    have "acc + sum_list (take j (p # ps)) \<le> bnd" if "1 \<le> j" "j < Suc k" for j
      using that False k(5) by (cases j; cases "j = 1") (auto simp: add.assoc)
    then show ?thesis
      using k False by (intro exI [of _ "Suc k"]) (auto simp: add.assoc)
  qed
qed simp

text \<open>Nucleus sampling keeps a shortest leading part of the sorted probabilities whose sum exceeds
  \<open>top_p\<close> (all of them when none does), never less than one token, and renormalises it to sum one.\<close>

lemma nucleus_shortest_prefix:
  fixes ps :: "'a::linordered_field list"
  assumes nn: "\<forall>p \<in> set ps. 0 \<le> p" and ne: "ps \<noteq> []" and pos: "0 < hd ps"
  shows "\<exists>k. 1 \<le> k \<and> k \<le> length ps
    \<and> nucleus_weights bnd ps = map (\<lambda>p. p / sum_list (take k ps)) (take k ps) @ replicate (length ps - k) 0
    \<and> sum_list (nucleus_weights bnd ps) = 1
    \<and> (k = length ps \<or> bnd < sum_list (take k ps))
    \<and> (\<forall>j. 1 \<le> j \<and> j < k \<longrightarrow> sum_list (take j ps) \<le> bnd)"
proof -
  obtain k where k: "1 \<le> k" "k \<le> length ps" "kept_from bnd False 0 ps = take k ps @ replicate (length ps - k) 0"
    "k = length ps \<or> bnd < sum_list (take k ps)" "\<forall>j. 1 \<le> j \<and> j < k \<longrightarrow> sum_list (take j ps) \<le> bnd"
    using kept_from_prefix [OF nn ne, of bnd 0] by auto
  have zeros: "sum_list (replicate n 0) = (0 :: 'a)" for n by (induction n) auto
  have "nucleus_mask bnd ps = False # butlast (map (\<lambda>c. c > bnd) (cumsum_from 0 ps))"
    using ne by (cases ps) (auto simp: nucleus_mask_def)
  then have w: "nucleus_weights bnd ps = map (\<lambda>p. p / sum_list (take k ps)) (take k ps) @ replicate (length ps - k) 0"
    using nucleus_kept [of False bnd 0 ps] k(3) zeros by (simp add: nucleus_weights_def)
  have "hd ps \<le> sum_list (take k ps)"
  proof -
    obtain p ps' where "ps = p # ps'" using ne by (cases ps) auto
    moreover obtain k' where "k = Suc k'" using k(1) by (cases k) auto
    moreover have "0 \<le> sum_list (take k' ps')" using nn calculation by (intro sum_list_nonneg) (auto dest: in_set_takeD)
    ultimately show ?thesis by simp
  qed
  then have "sum_list (take k ps) \<noteq> 0" using pos by auto
  moreover have "sum_list (map (\<lambda>p. p / s) xs) = sum_list xs / s" for s :: 'a and xs
    by (induction xs) (auto simp: add_divide_distrib)
  ultimately have "sum_list (nucleus_weights bnd ps) = 1" by (simp add: w zeros)
  with w k show ?thesis by blast
qed

lemma nucleus_shortest_prefix_witness:
  "\<exists>k. 1 \<le> k \<and> nucleus_weights (7 / 10) [1 / 2, 3 / 10, 1 / 5 :: rat] =
     map (\<lambda>p. p / sum_list (take k [1 / 2, 3 / 10, 1 / 5])) (take k [1 / 2, 3 / 10, 1 / 5]) @ replicate (3 - k) 0
     \<and> sum_list (nucleus_weights (7 / 10) [1 / 2, 3 / 10, 1 / 5 :: rat]) = 1"
  using nucleus_shortest_prefix [of "[1 / 2, 3 / 10, 1 / 5 :: rat]" "7 / 10"] by auto

end
