(* ===== verification/RegistryFile.thy ===== *)
theory RegistryFile
  imports Registry
begin

text \<open>
  The registry file: what \<open>persist\<close> writes is read back field by field, through the text of the
  file. A host of the file may lack its optional fields; one that lacks another field, or has an
  unknown one, makes \<open>load_persisted\<close> raise, and the start goes on with a fresh registry.
\<close>

section \<open>Fields and hosts\<close>

lemma read_role_json [simp]: "read_role (role_json x) = Inr x"
  by (cases x) (simp_all add: read_role_def)

lemma read_state_json [simp]: "read_state (state_json x) = Inr x"
  by (cases x) (simp_all add: read_state_def)

lemma read_opt_json [simp]:
  "read_opt read_str (opt_json JStr x) = Inr x"
  "read_opt read_bool (opt_json JBool b) = Inr b"
  by (cases x, simp_all) (cases b, simp_all)

lemma json_ok_role [simp]: "json_ok (role_json x)"
  by (cases x) simp_all

lemma json_ok_state [simp]: "json_ok (state_json x)"
  by (cases x) simp_all

lemma json_ok_opt [simp]: "(\<And>x. json_ok (f x)) \<Longrightarrow> json_ok (opt_json f y)"
  by (cases y) simp_all

definition asdict_fields :: "host_record \<Rightarrow> (string \<times> json) list" where
  "asdict_fields h = (case host_asdict h of JObj kvs \<Rightarrow> kvs | _ \<Rightarrow> [])"

lemma host_asdict_fields: "host_asdict h = JObj (asdict_fields h)"
  by (simp add: host_asdict_def asdict_fields_def)

lemma json_ok_asdict: "json_ok (host_asdict h)"
  by (simp add: host_asdict_def)

lemma kwargs_ok_asdict: "kwargs_ok (host_asdict h)"
  by (simp add: host_asdict_def kwargs_ok_def required_fields_def optional_fields_def)

lemma host_of_kwargs_asdict: "host_of_kwargs ev (asdict_fields h) = Inr h"
  by (cases h) (simp add: asdict_fields_def host_asdict_def host_of_kwargs_def kw_needed_def kw_default_def)

lemma host_of_asdict: "host_of_json ev (host_asdict h) = Inr h"
  using kwargs_ok_asdict [of h] host_of_kwargs_asdict [of ev h] by (simp add: host_asdict_fields)

section \<open>The whole file\<close>

lemma hosts_of_asdict: "hosts_of ev (map (\<lambda>(hid, h). (hid, host_asdict h)) hs) = Inr hs"
  unfolding hosts_of_def by (induction hs) (auto simp: host_of_asdict)

lemma read_strs: "rmap read_str (map JStr ps) = Inr ps"
  by (induction ps) simp_all

lemma raw_hosts_payload:
  "raw_hosts (persist_payload r) = Inr (map (\<lambda>(hid, h). (hid, host_asdict h)) (hosts r))"
  by (auto simp: raw_hosts_def persist_payload_def json_get_def list_all_iff kwargs_ok_asdict)

lemma raw_peers_payload: "raw_peers (persist_payload r) = Inr (map JStr (bootstrap_peers r))"
  by (simp add: raw_peers_def persist_payload_def json_get_def)

lemma json_ok_payload: "dict_ok (hosts r) \<Longrightarrow> json_ok (persist_payload r)"
  by (auto simp: persist_payload_def dict_ok_def json_ok_asdict comp_def case_prod_unfold)

lemma file_text_reads:
  assumes "dict_ok (hosts r)"
  shows "read_file (json_dumps (persist_payload r)) = Inr (Saved (persist_payload r))"
  using loads_dumps [OF json_ok_payload [OF assms]] by (simp add: read_file_def)

lemma load_payload:
  "load_persisted ev (Saved (persist_payload r)) model layers url account =
     rbind (swarm_registry_init ev model layers url account (Saved (persist_payload r))) (\<lambda>reg. Inr
       (modify_host ''mother''
          (\<lambda>m. m\<lparr>shard_manager_url := rstrip_slash url, role := Mother, status := Online\<rparr>)
          (reg\<lparr>hosts := hosts r, bootstrap_peers := bootstrap_peers r\<rparr>)))"
  by (simp add: load_persisted_def raw_hosts_payload raw_peers_payload hosts_of_asdict read_strs)

text \<open>A file \<open>load_persisted\<close> cannot read is given up: the start goes on as if there were none, and the
  fresh registry is written over it.\<close>

lemma bad_file_starts_fresh:
  assumes "raw_hosts data = Inl e \<or> raw_peers data = Inl e"
    and "swarm_registry_init ev model layers url account (Saved data) = Inr reg"
  shows "init_registry ev (Saved data) model layers url account = Inr (persist ev reg)"
proof -
  have "raw_hosts data = Inl e' \<Longrightarrow> e' \<noteq> OutsideModel" for e'
    by (auto simp: raw_hosts_def json_get_def rbind_Inl_iff split: json.splits if_splits elim!: json_items.elims)
  moreover have "raw_peers data = Inl e' \<Longrightarrow> e' \<noteq> OutsideModel" for e'
    by (auto simp: raw_peers_def json_get_def rbind_Inl_iff split: json.splits elim!: json_list.elims)
  ultimately show ?thesis
    using assms
    by (cases "raw_hosts data"; cases "raw_peers data") (auto simp: init_registry_def load_persisted_def)
qed

end
