(* ===== verification/RegistryProps.thy ===== *)
theory RegistryProps
  imports SwarmCover RegistryFile
begin

text \<open>
  The properties of the registry and of the layer map, each with a concrete run that applies it,
  and the runs in which the coverage is lost: a departure while a join is pending, a reclaim
  whose reload fails, a heartbeat that reports another range.
\<close>

section \<open>Concrete runs\<close>

definition ex_env :: "int \<Rightarrow> string \<Rightarrow> env" where
  "ex_env t u = \<lparr>now = t, uuid_hex = u, write_fault = None\<rparr>"

text \<open>A shard manager that records the calls it gets and answers with success or failure.\<close>

definition ex_svc :: "bool \<Rightarrow> (string \<times> string) list reload_svc" where
  "ex_svc ok w url body = (w @ [(url, fst body)], ok)"

definition ex_start :: swarm_registry where
  "ex_start = (case init_registry (ex_env 0 []) NoFile ''m'' 32 ''http://mother:8001/'' None of
                 Inr r \<Rightarrow> r | Inl _ \<Rightarrow> undefined)"

definition ex_joined :: swarm_registry where
  "ex_joined = snd (registry_join (ex_env 1 ''aaaa'') 16 ''ip'' ''http://c:8001'' ''0.0.7'' ex_start)"

definition ex_ready :: swarm_registry where
  "ex_ready = fst (snd (mark_ready (ex_svc True) (ex_env 2 []) ''host-aaaa'' None ex_joined []))"

definition ex_second :: swarm_registry where
  "ex_second = snd (registry_join (ex_env 3 ''bbbb'') 8 ''ip'' ''http://d:8001'' ''0.0.8'' ex_ready)"

lemma ex_start_init: "init_registry (ex_env 0 []) NoFile ''m'' 32 ''http://mother:8001/'' None = Inr ex_start"
  by code_simp

lemma init_fresh: "init_registry ev NoFile model n url account = Inr r \<Longrightarrow> 0 < n \<Longrightarrow> reg_cover r"
  using reg_cover_init by (auto simp: init_registry_def Let_def rbind_Inr_iff)

lemma triple_collapse: "p = (fst p, fst (snd p), snd (snd p))"
  by simp

lemma triple_fst: "fst p = x \<Longrightarrow> p = (x, fst (snd p), snd (snd p))"
  by auto

lemma ex_cover: "reg_cover ex_start" "reg_cover ex_joined" "reg_cover ex_ready" "reg_cover ex_second"
proof -
  show 0: "reg_cover ex_start" by (rule init_fresh [OF ex_start_init]) simp
  have fresh: "dget (hosts ex_start) (join_host_id (ex_env 1 ''aaaa'')) = None"
    "dget (hosts ex_ready) (join_host_id (ex_env 3 ''bbbb'')) = None" by code_simp+
  show 1: "reg_cover ex_joined"
    unfolding ex_joined_def by (rule reg_cover_join [OF 0 fresh(1)]) (rule surjective_pairing)
  show 2: "reg_cover ex_ready"
    unfolding ex_ready_def by (rule reg_cover_mark_ready [OF 1]) (rule triple_collapse)
  show "reg_cover ex_second"
    unfolding ex_second_def by (rule reg_cover_join [OF 2 fresh(2)]) (rule surjective_pairing)
qed

section \<open>Invariants over all runs\<close>

lemma reg_wf_init_registry:
  assumes i: "init_registry ev dsk model n url account = Inr r"
    and d: "\<forall>data hs. dsk = Saved data \<longrightarrow> file_hosts ev data = Inr hs \<longrightarrow> hosts_wf hs"
  shows "reg_wf r"
proof (cases "load_persisted ev dsk model n url account = Inr r")
  case True
  then obtain data where "dsk = Saved data" by (cases dsk) (auto simp: load_persisted_def)
  with True d reg_wf_load show ?thesis by blast
next
  case False
  then show ?thesis
    using i reg_wf_init by (auto simp: init_registry_def Let_def rbind_Inr_iff split: if_splits sum.splits)
qed

lemma steps_machine_ok: "reg_step\<^sup>*\<^sup>* m m' \<Longrightarrow> machine_ok m \<Longrightarrow> machine_ok m'"
  by (induction rule: rtranclp_induct) (auto dest: reg_step_ok)

text \<open>C5. Whatever interleaving of joins, hand-offs, departures, reclaims, heartbeats and reconciliations
  runs (two locked sections of one request may have any other sections between them, and any
  reload may fail), the registry keeps its type invariant: the mother is there and online, keys
  agree with records, every range parses and agrees with the layer count, and at most one join
  is pending.\<close>

theorem registry_interleaving_wf:
  assumes "init_registry ev dsk model n url account = Inr r0"
    and "\<forall>data hs. dsk = Saved data \<longrightarrow> file_hosts ev data = Inr hs \<longrightarrow> hosts_wf hs"
    and "reg_step\<^sup>*\<^sup>* \<lparr>reg = r0, jobs = []\<rparr> m"
  shows "reg_wf (reg m)"
  using steps_machine_ok [OF assms(3)] reg_wf_init_registry [OF assms(1,2)]
  by (simp add: machine_ok_def)

lemma registry_interleaving_wf_witness: "reg_wf ex_joined"
proof -
  have "reg_step \<lparr>reg = ex_start, jobs = []\<rparr> (\<lparr>reg = ex_start, jobs = []\<rparr>\<lparr>reg := ex_joined\<rparr>)"
    unfolding ex_joined_def by (rule step_join) (simp add: prod_eq_iff)
  then have "reg_step\<^sup>*\<^sup>* \<lparr>reg = ex_start, jobs = []\<rparr> \<lparr>reg = ex_joined, jobs = []\<rparr>" by simp
  from registry_interleaving_wf [OF ex_start_init _ this] show ?thesis by simp
qed

lemma reg_cover_pos: "reg_cover r \<Longrightarrow> 0 < total_layers r"
proof -
  assume cov: "reg_cover r"
  then have wf: "hosts_wf (hosts r)" by (simp add: reg_cover_def reg_wf_def)
  then obtain m where "dget (hosts r) ''mother'' = Some m" "status m = Online"
    using hosts_wf_mother by blast
  moreover obtain a b where "host_span m = (a, b)" by fastforce
  ultimately have "(a, b) \<in># range_mset (hosts r)" using in_range_mset [OF wf] by blast
  then show ?thesis
    using mcovers_bounds [OF reg_cover_mcovers [OF cov]] mcovers_nonempty [OF reg_cover_mcovers [OF cov]]
    by fastforce
qed

lemma cover_steps_cover: "(cover_step svc)\<^sup>*\<^sup>* s s' \<Longrightarrow> reg_cover (fst s) \<Longrightarrow> reg_cover (fst s')"
  by (induction rule: rtranclp_induct) (auto dest: cover_step_cover)

lemma cover_manifest:
  assumes "reg_cover r"
  shows "exact_cover (online_ranges r) (total_layers r)
    \<and> (\<exists>m. build_manifest r = Inr m \<and> validate_manifest m = (True, ManifestOk))"
  using manifest_of_cover [OF assms reg_cover_pos [OF assms]] build_manifest_wf [OF reg_cover_wf [OF assms]]
    assms by (simp add: reg_cover_def)

text \<open>C6. In every run of whole requests (joins with fresh ids, hand-offs with any outcome, heartbeats
  that report the registered range, departures of pending hosts, departures of online hosts that
  return normally while no join is pending, the reapers under the same conditions) the ranges of
  the online hosts cover the layers of the model exactly, without gap or overlap, and the
  manifest the mother routes by passes its own check.\<close>

theorem coverage_kept:
  assumes "init_registry ev NoFile model n url account = Inr r0" and "0 < n"
    and "(cover_step svc)\<^sup>*\<^sup>* (r0, w0) (r, w)"
  shows "exact_cover (online_ranges r) (total_layers r)
    \<and> (\<exists>m. build_manifest r = Inr m \<and> validate_manifest m = (True, ManifestOk))"
  using cover_steps_cover [OF assms(3)] init_fresh [OF assms(1,2)] cover_manifest by simp

lemma ex_cover_steps: "(cover_step (ex_svc True))\<^sup>*\<^sup>* (ex_start, []) (ex_ready, [(''http://mother:8001/reload'', ''0:16'')])"
proof -
  have "cover_step (ex_svc True) (ex_start, []) (ex_joined, [])"
    unfolding ex_joined_def by (rule cover_join [OF _ surjective_pairing]) code_simp
  moreover have "mark_ready (ex_svc True) (ex_env 2 []) ''host-aaaa'' None ex_joined []
      = (fst (mark_ready (ex_svc True) (ex_env 2 []) ''host-aaaa'' None ex_joined []), ex_ready,
         [(''http://mother:8001/reload'', ''0:16'')])"
    unfolding ex_ready_def prod_eq_iff fst_conv snd_conv by (intro conjI refl) code_simp
  then have "cover_step (ex_svc True) (ex_joined, []) (ex_ready, [(''http://mother:8001/reload'', ''0:16'')])"
    by (rule cover_ready)
  ultimately show ?thesis by (meson converse_rtranclp_into_rtranclp rtranclp.rtrancl_refl)
qed

lemma coverage_kept_witness: "exact_cover (online_ranges ex_ready) 32"
proof -
  have "total_layers ex_ready = 32" by code_simp
  with coverage_kept [OF ex_start_init _ ex_cover_steps] show ?thesis by simp
qed

text \<open>C8. The completeness check decides exactly: for a model with layers it accepts a manifest if and
  only if the non-empty spans cover every layer once.\<close>

theorem is_complete_iff_cover:
  assumes "0 < man_total_layers m"
  shows "is_complete m \<longleftrightarrow>
    exact_cover (span_ranges (filter (\<lambda>s. span_start s < span_end s) (man_spans m))) (man_total_layers m)"
  by (rule is_complete_cover [OF assms])

lemma is_complete_iff_cover_witness:
  "\<not> exact_cover [(0, 16), (20, 32)] 32"
proof -
  let ?s = "\<lambda>a b. \<lparr>span_host_id = [], span_role = Contributor, span_block_indices = [],
      span_start = a, span_end = b, span_url = [], span_peer = None, span_running = None\<rparr>"
  let ?m = "\<lparr>man_model = [], man_total_layers = 32, man_spans = [?s 0 16, ?s 20 32]\<rparr>"
  have "\<not> is_complete ?m" by code_simp
  moreover have "span_ranges (filter (\<lambda>s. span_start s < span_end s) (man_spans ?m)) = [(0, 16), (20, 32)]"
    by (simp add: span_ranges_def)
  ultimately show ?thesis using is_complete_iff_cover [of ?m] by simp
qed

text \<open>In a covered registry the layers of the online hosts add up to the layers of the model, and
  the hosts that are paid hold no more than that.\<close>

lemma online_layers_add_up:
  assumes "reg_cover r"
  shows "sum_list (map layers_hosted (filter (\<lambda>h. status h = Online) (list_hosts r))) = total_layers r
    \<and> sum_list (map layers_hosted (online_payout_hosts r)) \<le> total_layers r"
  using online_layers_sum [OF assms] payout_layers_le [OF assms] reg_cover_pos [OF assms] by simp_all

lemma online_layers_add_up_witness:
  "sum_list (map layers_hosted (filter (\<lambda>h. status h = Online) (list_hosts ex_ready))) = 32
   \<and> sum_list (map layers_hosted (online_payout_hosts ex_ready)) \<le> 32"
proof -
  have "total_layers ex_ready = 32" by code_simp
  with online_layers_add_up [OF ex_cover(3)] show ?thesis by simp
qed

section \<open>Joining and handing off\<close>

lemma largest_donor_cover:
  assumes cov: "reg_cover r"
  obtains donor s e where "largest_donor r = Some donor" "dget (hosts r) (host_id donor) = Some donor"
    "status donor = Online" "host_span donor = (s, e)" "s < e" "0 \<le> s" "e \<le> total_layers r"
    "layers_hosted donor = e - s"
proof -
  have wf: "hosts_wf (hosts r)" using cov by (simp add: reg_cover_def reg_wf_def)
  obtain m where "dget (hosts r) ''mother'' = Some m" "status m = Online" using hosts_wf_mother [OF wf] by blast
  then have "m \<in> set (list_hosts r)" "status m = Online"
    using dvalues_iff [OF hosts_wf_dict [OF wf]] by (auto simp: list_hosts_def)
  then obtain donor where ld: "largest_donor r = Some donor"
    by (cases "largest_donor r") (auto simp: largest_donor_def filter_empty_conv)
  note d = largest_donor_Some [OF ld]
  have g: "dget (hosts r) (host_id donor) = Some donor" using d hosts_wf_values [OF wf] by (simp add: list_hosts_def)
  obtain s e where span: "host_span donor = (s, e)" by fastforce
  have "(s, e) \<in># range_mset (hosts r)" using in_range_mset [OF wf] g d span by blast
  then have "s < e" "0 \<le> s" "e \<le> total_layers r"
    using mcovers_bounds [OF reg_cover_mcovers [OF cov]] mcovers_nonempty [OF reg_cover_mcovers [OF cov]]
    by blast+
  moreover have "layers_hosted donor = e - s"
    using layers_hosted_span [OF reg_cover_wf [OF cov], of donor] d span by simp
  ultimately show thesis using ld g d span that by blast
qed

lemma effective_no_pending:
  assumes "no_pending r" and "parse_range (block_indices donor) = Inr (s, e)"
  shows "effective_donor_range r donor = Inr (s, e)"
  using assms effective_end_none [of "list_hosts r" donor e]
  by (simp add: effective_donor_range_def no_pending_def)

lemma max_carveable_cover:
  assumes cov: "reg_cover r" and np: "no_pending r"
  shows "\<exists>donor s e. largest_donor r = Some donor \<and> effective_donor_range r donor = Inr (s, e)
     \<and> host_span donor = (s, e) \<and> max_carveable r = Inr (e - s - 1) \<and> s < e \<and> e - s \<le> total_layers r
     \<and> dget (hosts r) (host_id donor) = Some donor \<and> status donor = Online \<and> layers_hosted donor = e - s"
proof -
  obtain donor s e where *: "largest_donor r = Some donor" "dget (hosts r) (host_id donor) = Some donor"
    "status donor = Online" "host_span donor = (s, e)" "s < e" "0 \<le> s" "e \<le> total_layers r"
    "layers_hosted donor = e - s"
    by (rule largest_donor_cover [OF cov])
  have "parse_range (block_indices donor) = Inr (s, e)"
    using * host_ok_span hosts_wf_ok cov by (metis reg_cover_def reg_wf_def)
  from effective_no_pending [OF np this] * show ?thesis by (simp add: max_carveable_def)
qed

text \<open>C11. \<open>max_carveable\<close>, the number the API reports, is exact: while no join is pending, a join with a
  valid account is accepted for just the layer counts from one to that number, and one that is
  refused changes nothing.\<close>

theorem join_accepts_iff:
  assumes "reg_cover r" and "no_pending r" and "validate_hedera_account_id account = Inr wallet"
  shows "\<exists>k. max_carveable r = Inr k \<and>
    (if 1 \<le> n \<and> n \<le> k then \<exists>resp r'. registry_join ev n ip url account r = (Inr resp, r')
     else registry_join ev n ip url account r = (Inl ValueError, r))"
proof -
  obtain donor s e where *: "largest_donor r = Some donor" "effective_donor_range r donor = Inr (s, e)"
    "max_carveable r = Inr (e - s - 1)" "e - s \<le> total_layers r"
    using max_carveable_cover [OF assms(1,2)] by blast
  have none: "filter (\<lambda>h. status h = Pending) (list_hosts r) = []"
    using assms(2) by (simp add: no_pending_def filter_empty_conv)
  show ?thesis
  proof (rule exI [of _ "e - s - 1"], rule conjI [OF *(3)], split if_split, intro conjI impI)
    assume n: "1 \<le> n \<and> n \<le> e - s - 1"
    then show "\<exists>resp r'. registry_join ev n ip url account r = (Inr resp, r')"
      using * none assms(3) by (simp add: registry_join_def Let_def)
  next
    assume "\<not> (1 \<le> n \<and> n \<le> e - s - 1)"
    then show "registry_join ev n ip url account r = (Inl ValueError, r)"
      using * none assms(3) by (simp add: registry_join_def Let_def) linarith
  qed
qed

lemma join_accepts_iff_witness:
  "max_carveable ex_ready = Inr 15 \<and>
   registry_join (ex_env 3 ''bbbb'') 16 ''ip'' ''http://d'' ''0.0.8'' ex_ready = (Inl ValueError, ex_ready)"
proof -
  have np: "no_pending ex_ready" unfolding no_pending_def by code_simp
  have v: "validate_hedera_account_id ''0.0.8'' = Inr ''0.0.8''" by code_simp
  have k: "max_carveable ex_ready = Inr 15" by code_simp
  from join_accepts_iff [OF ex_cover(3) np v, of 16 "ex_env 3 ''bbbb''" "''ip''" "''http://d''"] k
  show ?thesis by simp
qed

lemma join_then_ready_plan:
  assumes cov: "reg_cover r" and fresh: "dget (hosts r) (join_host_id ev) = None"
    and j: "registry_join ev n ip url account r = (Inr resp, r1)"
  shows "\<exists>donor s e. largest_donor r = Some donor \<and> dget (hosts r) (host_id donor) = Some donor
     \<and> status donor = Online \<and> host_id donor \<noteq> join_host_id ev
     \<and> host_span donor = (s, e) \<and> layers_hosted donor = e - s \<and> 1 \<le> n \<and> n < e - s
     \<and> j_host_id resp = join_host_id ev \<and> j_donor_host_id resp = host_id donor
     \<and> dget (hosts r1) (host_id donor) = Some donor
     \<and> (\<exists>rec. dget (hosts r1) (join_host_id ev) = Some rec \<and> status rec = Pending
          \<and> pending_range rec = Some (format_range (e - n) e)
          \<and> donor_host_id rec = Some (host_id donor)
          \<and> donor_shrink_to rec = Some (format_range s (e - n)))
     \<and> mark_ready_prepare (join_host_id ev) None r1 = (Inr (Inr
          \<lparr>plan_donor_id = host_id donor, plan_donor_url = shard_manager_url donor,
           plan_shrink_to = format_range s (e - n), plan_assigned = format_range (e - n) e\<rparr>), r1)"
proof -
  obtain wallet donor s e where *: "1 \<le> n" "n \<le> (e - s) - 1"
    and none: "filter (\<lambda>h. status h = Pending) (list_hosts r) = []"
    and ld: "largest_donor r = Some donor" "effective_donor_range r donor = Inr (s, e)"
    and resp: "j_host_id resp = join_host_id ev" "j_donor_host_id resp = host_id donor"
    and r1: "r1 = persist ev (r\<lparr>hosts := dset (join_host_id ev)
             (join_record ev r donor (s, e) n ip url wallet) (hosts r)\<rparr>)"
    using registry_join_ok [OF j] by blast
  have np: "no_pending r" using none by (auto simp: no_pending_def filter_empty_conv)
  have d: "host_span donor = (s, e)" "dget (hosts r) (host_id donor) = Some donor" "status donor = Online"
      "layers_hosted donor = e - s"
    using max_carveable_cover [OF cov np] ld by auto
  have wf: "hosts_wf (hosts r)" using cov by (simp add: reg_cover_def reg_wf_def)
  have ne: "host_id donor \<noteq> join_host_id ev" "host_id donor \<noteq> []"
    using fresh d(2) hosts_wf_key [OF wf d(2)] by auto
  let ?rec = "join_record ev r donor (s, e) n ip url wallet"
  have g: "dget (hosts r1) (host_id donor) = Some donor" "dget (hosts r1) (join_host_id ev) = Some ?rec"
    using r1 ne d(2) by (simp_all add: dget_dset)
  have "list_hosts r1 = list_hosts r @ [?rec]"
    using r1 fresh by (simp add: list_hosts_def dset_new)
  moreover have "check_pending_conflict (join_host_id ev) k q hs = Inr ()"
    if "\<forall>h \<in> set hs. status h \<noteq> Pending \<or> host_id h = join_host_id ev" for k q hs
    using that by (induction hs) (cases q; auto)+
  ultimately have "check_pending_conflict (join_host_id ev) (host_id donor) (s, e - n) (list_hosts r1) = Inr ()"
    using np by (auto simp: no_pending_def)
  then have "mark_ready_prepare (join_host_id ev) None r1 = (Inr (Inr
          \<lparr>plan_donor_id = host_id donor, plan_donor_url = shard_manager_url donor,
           plan_shrink_to = format_range s (e - n), plan_assigned = format_range (e - n) e\<rparr>), r1)"
    using g ne by (simp add: mark_ready_prepare_def)
  then show ?thesis using * ld d ne resp g by (intro exI [of _ donor] exI [of _ s] exI [of _ e]) simp
qed

text \<open>C9. A join that is followed by its hand-off, with a shard manager that reloads, moves exactly the
  requested layers: the new host is online on the high end of the donor's range and the donor
  keeps the rest, which is what its shard manager was told to serve.\<close>

theorem join_handoff:
  assumes cov: "reg_cover r" and fresh: "dget (hosts r) (join_host_id ev) = None"
    and j: "registry_join ev n ip url account r = (Inr resp, r1)"
    and svc: "\<And>w u b. snd (svc w u b)"
  shows "\<exists>donor host r2 donor'. dget (hosts r) (j_donor_host_id resp) = Some donor
    \<and> mark_ready svc ev' (j_host_id resp) None r1 w = (Inr host, r2,
        fst (svc w (rstrip_slash (shard_manager_url donor) @ ''/reload'') (block_indices donor', None)))
    \<and> dget (hosts r2) (j_host_id resp) = Some host \<and> status host = Online \<and> layers_hosted host = n
    \<and> dget (hosts r2) (j_donor_host_id resp) = Some donor'
    \<and> layers_hosted donor' = layers_hosted donor - n
    \<and> fst (host_span donor') = fst (host_span donor) \<and> snd (host_span donor') = fst (host_span host)
    \<and> snd (host_span host) = snd (host_span donor)"
proof -
  obtain donor s e rec where d: "dget (hosts r) (host_id donor) = Some donor" "status donor = Online"
      "host_id donor \<noteq> join_host_id ev" "host_span donor = (s, e)" "layers_hosted donor = e - s"
    and resp: "j_host_id resp = join_host_id ev" "j_donor_host_id resp = host_id donor"
    and g: "dget (hosts r1) (host_id donor) = Some donor" "dget (hosts r1) (join_host_id ev) = Some rec"
    and prep: "mark_ready_prepare (join_host_id ev) None r1 = (Inr (Inr
          \<lparr>plan_donor_id = host_id donor, plan_donor_url = shard_manager_url donor,
           plan_shrink_to = format_range s (e - n), plan_assigned = format_range (e - n) e\<rparr>), r1)"
    using join_then_ready_plan [OF cov fresh j] by blast
  let ?plan = "\<lparr>plan_donor_id = host_id donor, plan_donor_url = shard_manager_url donor,
           plan_shrink_to = format_range s (e - n), plan_assigned = format_range (e - n) e\<rparr>"
  let ?donor' = "donor\<lparr>block_indices := format_range s (e - n), layers_hosted := e - n - s\<rparr>"
  let ?host = "rec\<lparr>block_indices := format_range (e - n) e, layers_hosted := n, status := Online,
       last_heartbeat := now ev', pending_range := None, donor_shrink_to := None\<rparr>"
  obtain res2 r2 where c: "mark_ready_commit ev' (join_host_id ev) None ?plan r1 = (res2, r2)" by fastforce
  have ok: "hosts r2 = hosts (handed_off ev' ?plan (join_host_id ev) (s, e - n) (e - n, e) r1)
      \<and> res2 = Inr (the (dget (hosts r2) (join_host_id ev)))"
    using mark_ready_commit_ok [OF g(2) _ _ _ c] g(1) by simp
  then have h2: "dget (hosts r2) (join_host_id ev) = Some ?host" "dget (hosts r2) (host_id donor) = Some ?donor'"
    using g d(3) by (simp_all add: handed_off_def dget_modify_host)
  have spans: "host_span ?host = (e - n, e)" "host_span ?donor' = (s, e - n)"
    by (auto intro!: host_span_eq)
  have "mark_ready svc ev' (j_host_id resp) None r1 w = (Inr ?host, r2,
        fst (svc w (rstrip_slash (shard_manager_url donor) @ ''/reload'') (block_indices ?donor', None)))"
    using prep c ok h2 svc resp
    by (simp add: mark_ready_def reload_shard_manager_def Let_def case_prod_unfold)
  then show ?thesis
    using d resp h2 spans by (intro exI [of _ donor] exI [of _ ?host] exI [of _ r2] exI [of _ ?donor']) simp
qed

lemma join_handoff_witness:
  "\<exists>donor host r2 donor'. dget (hosts ex_start) ''mother'' = Some donor
    \<and> mark_ready (ex_svc True) (ex_env 2 []) ''host-aaaa'' None ex_joined [] = (Inr host, r2,
        fst (ex_svc True [] (rstrip_slash (shard_manager_url donor) @ ''/reload'') (block_indices donor', None)))
    \<and> dget (hosts r2) ''host-aaaa'' = Some host \<and> status host = Online \<and> layers_hosted host = 16
    \<and> dget (hosts r2) ''mother'' = Some donor'
    \<and> layers_hosted donor' = layers_hosted donor - 16
    \<and> fst (host_span donor') = fst (host_span donor) \<and> snd (host_span donor') = fst (host_span host)
    \<and> snd (host_span host) = snd (host_span donor)"
proof -
  let ?j = "registry_join (ex_env 1 ''aaaa'') 16 ''ip'' ''http://c:8001'' ''0.0.7'' ex_start"
  obtain resp where j: "?j = (Inr resp, ex_joined)" and resp: "j_host_id resp = ''host-aaaa''" "j_donor_host_id resp = ''mother''"
  proof -
    have "(case fst ?j of Inr x \<Rightarrow> j_host_id x = ''host-aaaa'' \<and> j_donor_host_id x = ''mother'' | Inl _ \<Rightarrow> False)"
      by code_simp
    then show thesis using that by (cases "fst ?j") (auto simp: ex_joined_def prod_eq_iff)
  qed
  have fresh: "dget (hosts ex_start) (join_host_id (ex_env 1 ''aaaa'')) = None" by code_simp
  have "snd (ex_svc True w u b)" for w u b by (simp add: ex_svc_def)
  from join_handoff [OF ex_cover(1) fresh j, of "ex_svc True" "ex_env 2 []" "[]", OF this] resp
  show ?thesis by simp
qed

text \<open>C12. A hand-off that raises, wherever it does, leaves every range, layer count and status as it was:
  only the peer address of the joining host may have been recorded.\<close>

theorem failed_handoff_changes_nothing:
  assumes "reg_wf r" and m: "mark_ready svc ev hid peer r w = (Inl e, r', w')"
  shows "total_layers r' = total_layers r \<and> (\<forall>k. map_option (\<lambda>h. h\<lparr>peer_multiaddr := None\<rparr>) (dget (hosts r') k)
    = map_option (\<lambda>h. h\<lparr>peer_multiaddr := None\<rparr>) (dget (hosts r) k))"
proof (cases "\<exists>plan r1. mark_ready_prepare hid peer r = (Inr (Inr plan), r1)")
  case False
  then obtain pr r1 where p: "mark_ready_prepare hid peer r = (pr, r1)" "\<nexists>plan. pr = Inr (Inr plan)"
    by (metis surj_pair)
  then have "r1 = r" using mark_ready_prepare_other by blast
  with p m show ?thesis by (auto simp: mark_ready_def split: sum.splits)
next
  case True
  then obtain plan r1 where p: "mark_ready_prepare hid peer r = (Inr (Inr plan), r1)" by blast
  obtain host donor shrink where h: "dget (hosts r) hid = Some host"
    and d: "dget (hosts r) (plan_donor_id plan) = Some donor"
    and sr: "parse_range (plan_shrink_to plan) = Inr shrink"
    and r1: "r1 = (if truthy_str peer then modify_host hid (\<lambda>h. h\<lparr>peer_multiaddr := peer\<rparr>) r else r)"
    using mark_ready_prepare_plan [OF p] by blast
  obtain ar where ar: "parse_range (plan_assigned plan) = Inr ar"
    using plan_assigned_parses [OF assms(1) p] by (auto simp: parses_def)
  have g: "\<exists>h1. dget (hosts r1) hid = Some h1" "\<exists>d1. dget (hosts r1) (plan_donor_id plan) = Some d1"
    using h d r1 by (auto simp: dget_modify_host)
  obtain rl w1 where rl: "reload_shard_manager svc (plan_donor_url plan) (plan_shrink_to plan) None w = (rl, w1)"
    by fastforce
  have "r' = r1"
  proof (cases rl)
    case (Inl e)
    with m p rl show ?thesis by (simp add: mark_ready_def)
  next
    case (Inr u)
    obtain res2 r2 where c: "mark_ready_commit ev hid peer plan r1 = (res2, r2)" by fastforce
    obtain h1 d1 where "dget (hosts r1) hid = Some h1" "dget (hosts r1) (plan_donor_id plan) = Some d1"
      using g by blast
    from mark_ready_commit_ok [OF this sr ar c] m p rl Inr c show ?thesis by (simp add: mark_ready_def)
  qed
  then show ?thesis using r1 by (auto simp: dget_modify_host option.map_comp comp_def)
qed

lemma failed_handoff_changes_nothing_witness:
  "\<exists>r'. mark_ready (ex_svc False) (ex_env 2 []) ''host-aaaa'' (Some ''p'') ex_joined [] =
          (Inl HTTPError, r', [(''http://mother:8001/reload'', ''0:16'')])
     \<and> total_layers r' = total_layers ex_joined"
proof -
  let ?m = "mark_ready (ex_svc False) (ex_env 2 []) ''host-aaaa'' (Some ''p'') ex_joined []"
  have "fst ?m = Inl HTTPError" "snd (snd ?m) = [(''http://mother:8001/reload'', ''0:16'')]" by code_simp+
  then have m: "?m = (Inl HTTPError, fst (snd ?m), [(''http://mother:8001/reload'', ''0:16'')])"
    by (simp add: prod_eq_iff)
  from failed_handoff_changes_nothing [OF reg_cover_wf [OF ex_cover(2)] m] m show ?thesis by blast
qed

section \<open>Leaving\<close>

text \<open>C10. When an online contributor leaves while no join is pending and the reload succeeds, the request
  succeeds, the host is gone, one adjacent online host has the union of the two ranges and was
  told so, and the layers are covered again.\<close>

theorem leave_hands_back:
  assumes cov: "reg_cover r" and np: "no_pending r"
    and g: "dget (hosts r) hid = Some host" and rl: "role host = Contributor"
    and svc: "\<And>w u b. snd (svc w u b)"
  shows "\<exists>d s e r' w'. leave svc ev hid r w = (Inr (), r', w')
    \<and> dget (hosts r) (host_id d) = Some d \<and> host_id d \<noteq> hid \<and> status d = Online
    \<and> (host_span d = (s, fst (host_span host)) \<and> e = snd (host_span host)
       \<or> host_span d = (snd (host_span host), e) \<and> s = fst (host_span host))
    \<and> hosts r' = dset (host_id d) (d\<lparr>block_indices := format_range s e, layers_hosted := e - s\<rparr>)
                   (ddel hid (hosts r))
    \<and> w' = fst (svc w (rstrip_slash (shard_manager_url d) @ ''/reload'') (format_range s e, None))
    \<and> reg_cover r'"
proof -
  let ?r1 = "r\<lparr>hosts := ddel hid (hosts r)\<rparr>"
  have wf: "reg_wf r" using cov by (rule reg_cover_wf)
  have on: "status host = Online"
    using cov np g by (cases "status host") (auto simp: reg_cover_def no_pending_get [OF wf])
  obtain a b where span: "host_span host = (a, b)" by fastforce
  have p: "parse_range (block_indices host) = Inr (a, b)"
    using wf g hosts_wf_ok host_ok_span span by (metis reg_wf_def)
  have rl': "role host \<noteq> Mother" using rl by simp
  have h: "hole ?r1 a b" by (rule leave_opens_hole [OF cov g on rl' span])
  obtain d nr where ch: "reclaim_choice (block_indices host) ?r1 = Inr (Some (d, nr))"
    and ab: "absorbs ?r1 (a, b) d nr"
    using reclaim_choice_hole [OF h p] by blast
  obtain c f where dspan: "host_span d = (c, f)" by fastforce
  have g1: "dget (hosts ?r1) (host_id d) = Some d"
    using ab hole_values [OF h] by (simp add: absorbs_def)
  have "(c, f) \<in># range_mset (hosts ?r1)" using ab dspan hole_mem [OF h] by (auto simp: absorbs_def)
  note ap = hole_apart [OF h this]
  define s where "s = min a c"
  define e where "e = max b f"
  have nr: "nr = format_range s e" using ab dspan by (simp add: absorbs_def s_def e_def)
  have ne: "host_id d \<noteq> hid" "dget (hosts r) (host_id d) = Some d" using g1 by (auto simp: dget_ddel split: if_splits)
  have tr: "block_indices host \<noteq> []" using p parse_range_no_colon [of "[]"] by auto
  let ?r2 = "?r1\<lparr>hosts := dset (host_id d) (d\<lparr>block_indices := nr, layers_hosted := e - s\<rparr>) (hosts ?r1)\<rparr>"
  let ?w = "fst (svc w (rstrip_slash (shard_manager_url d) @ ''/reload'') (nr, None))"
  have "reclaim_range svc (block_indices host) ?r1 w = (Inr (), ?r2, ?w)"
    using ch g1 svc nr
    by (simp add: reclaim_range_def reload_shard_manager_def reclaim_commit_def modify_host_def Let_def
        case_prod_unfold)
  then have l: "leave svc ev hid r w = (Inr (), persist ev ?r2, ?w)"
    using g rl' on tr by (simp add: leave_def leave_range_def Let_def)
  from reg_cover_leave_online [OF cov np l] have "reg_cover (persist ev ?r2)" .
  moreover have "host_span d = (s, a) \<and> e = b \<or> host_span d = (b, e) \<and> s = a"
    using ab dspan ap by (auto simp: absorbs_def adjacent_def s_def e_def)
  moreover have "status d = Online" using ab by (simp add: absorbs_def)
  ultimately show ?thesis
    using l ne nr span by (intro exI [of _ d] exI [of _ s] exI [of _ e] exI [of _ "persist ev ?r2"] exI [of _ ?w]) simp
qed

lemma leave_hands_back_witness:
  "\<exists>r' w'. leave (ex_svc True) (ex_env 9 []) ''host-aaaa'' ex_ready [] = (Inr (), r', w') \<and> reg_cover r'"
proof -
  have np: "no_pending ex_ready" unfolding no_pending_def by code_simp
  have "(case dget (hosts ex_ready) ''host-aaaa'' of Some h \<Rightarrow> role h = Contributor | None \<Rightarrow> False)" by code_simp
  then obtain host where "dget (hosts ex_ready) ''host-aaaa'' = Some host" "role host = Contributor"
    by (auto split: option.splits)
  moreover have "snd (ex_svc True w u b)" for w u b by (simp add: ex_svc_def)
  ultimately show ?thesis
    using leave_hands_back [OF ex_cover(3) np, of "''host-aaaa''" host "ex_svc True" "ex_env 9 []" "[]"] by blast
qed

lemma leave_all_subset: "leave_all svc ev hids r w = (ids, r', w') \<Longrightarrow> set ids \<subseteq> set hids"
proof (induction hids arbitrary: r w ids r' w')
  case Nil
  then show ?case by simp
next
  case (Cons hid hids)
  obtain res1 r1 w1 where l: "leave svc ev hid r w = (res1, r1, w1)" by (rule prod_cases3)
  obtain ids2 r2 w2 where la: "leave_all svc ev hids r1 w1 = (ids2, r2, w2)" by (rule prod_cases3)
  from Cons.IH [OF la] Cons.prems l la show ?case by (auto split: sum.splits)
qed

text \<open>The reaper of pending joins removes only hosts that were pending for longer than the limit,
  calls no shard manager, and keeps the coverage.\<close>

lemma pending_reaper_safe:
  assumes "reg_cover r" and "reap_stale_pending svc ev ttl r w = (ids, r', w')"
  shows "reg_cover r' \<and> w' = w
    \<and> (\<forall>k \<in> set ids. \<exists>h. dget (hosts r) k = Some h \<and> status h = Pending \<and> now ev - joined_at h > ttl)"
proof -
  let ?stale = "map host_id (filter (\<lambda>h. role h \<noteq> Mother \<and> status h = Pending
                              \<and> now ev - joined_at h > ttl) (list_hosts r))"
  obtain ids2 r2 w2 where la: "leave_all svc ev ?stale r w = (ids2, r2, w2)" by (rule prod_cases3)
  have eq: "ids = ids2" "w' = w2" using assms(2) la by (simp_all add: reap_stale_pending_def Let_def)
  have wf: "hosts_wf (hosts r)" using assms(1) by (simp add: reg_cover_def reg_wf_def)
  have st: "\<exists>h. dget (hosts r) k = Some h \<and> status h = Pending \<and> now ev - joined_at h > ttl"
    if k: "k \<in> set ?stale" for k
  proof -
    obtain h where h: "h \<in> set (list_hosts r)" "k = host_id h" "status h = Pending" "now ev - joined_at h > ttl"
      using k by auto
    have "dget (hosts r) k = Some h"
      using hosts_wf_values [OF wf, of h] h(1,2) by (simp only: list_hosts_def)
    with h(3,4) show ?thesis by blast
  qed
  have "\<forall>k \<in> set ?stale. \<forall>h. dget (hosts r) k = Some h \<longrightarrow> status h = Pending"
  proof (intro ballI allI impI)
    fix k h
    assume "k \<in> set ?stale" "dget (hosts r) k = Some h"
    from st [OF this(1)] this(2) show "status h = Pending" by (elim exE conjE) simp
  qed
  from reg_cover_leave_all_pending [OF assms(1) this la] have "w2 = w" by (rule conjunct2)
  moreover have "set ids \<subseteq> set ?stale" using leave_all_subset [OF la] eq by simp
  ultimately show ?thesis using reg_cover_reap_pending [OF assms] eq st by blast
qed

lemma pending_reaper_safe_witness:
  "\<exists>r'. reap_stale_pending (ex_svc True) (ex_env 99 []) 60 ex_joined [] = ([''host-aaaa''], r', []) \<and> reg_cover r'"
proof -
  let ?p = "reap_stale_pending (ex_svc True) (ex_env 99 []) 60 ex_joined []"
  have "fst ?p = [''host-aaaa'']" by code_simp
  then have p: "?p = ([''host-aaaa''], fst (snd ?p), snd (snd ?p))" by (simp add: prod_eq_iff)
  from pending_reaper_safe [OF ex_cover(2) p] p show ?thesis by metis
qed

section \<open>Restarting\<close>

lemma cover_same_total:
  assumes "reg_cover r" and "reg_cover r'" and "range_mset (hosts r') = range_mset (hosts r)"
  shows "total_layers r' = total_layers r"
proof -
  have m: "mcovers (range_mset (hosts r)) 0 (total_layers r)" "mcovers (range_mset (hosts r)) 0 (total_layers r')"
    using reg_cover_mcovers [OF assms(1)] reg_cover_mcovers [OF assms(2)] assms(3) by simp_all
  have "(0 \<le> x \<and> x < total_layers r) = (0 \<le> x \<and> x < total_layers r')" for x
    using mcovers_iff_ex [OF m(1), of x] mcovers_iff_ex [OF m(2), of x] by simp
  from this [of "total_layers r"] this [of "total_layers r'"] show ?thesis
    using reg_cover_pos [OF assms(1)] reg_cover_pos [OF assms(2)] by simp
qed

text \<open>C13. A registry with exact coverage survives a restart through the text of its file. The text that
  a successful \<open>persist\<close> leaves is JSON that reads back, and the next start loads from it every host
  with all its fields, in the same order, and the bootstrap peers; only the mother's shard manager
  address is the new process's. The model and the number of layers are those of the new process's
  settings (what the file says of them is not read), so the coverage is kept exactly when the
  number of layers is the old one. The account setting is empty or valid.\<close>

theorem restart_keeps_registry:
  assumes cov: "reg_cover r" and "write_fault ev = None"
    and acc: "\<not> truthy_str account \<or> (\<exists>a. validate_hedera_account_id (the account) = Inr a)"
  shows "\<exists>txt dsk r'. file_text (disk (persist ev r)) = Some txt \<and> read_file txt = Inr dsk
    \<and> init_registry ev' dsk model layers url account = Inr r'
    \<and> reg_model r' = model \<and> total_layers r' = layers \<and> bootstrap_peers r' = bootstrap_peers r
    \<and> map fst (hosts r') = map fst (hosts r)
    \<and> (\<forall>k. dget (hosts r') k = (if k = ''mother''
          then map_option (\<lambda>m. m\<lparr>shard_manager_url := rstrip_slash url\<rparr>) (dget (hosts r) k)
          else dget (hosts r) k))
    \<and> (reg_cover r' \<longleftrightarrow> layers = total_layers r)"
proof -
  let ?dsk = "Saved (persist_payload r)"
  have wf: "hosts_wf (hosts r)" using cov by (simp add: reg_cover_def reg_wf_def)
  then have dict: "dict_ok (hosts r)" by (simp add: hosts_wf_def)
  obtain m where m: "dget (hosts r) ''mother'' = Some m" "status m = Online"
    using hosts_wf_mother [OF wf] by blast
  have "role m = Mother" using hosts_wf_role [OF wf m(1)] by simp
  then have mod: "m\<lparr>shard_manager_url := rstrip_slash url, role := Mother, status := Online\<rparr>
      = m\<lparr>shard_manager_url := rstrip_slash url\<rparr>" using m(2) by simp
  have ft: "file_text (disk (persist ev r)) = Some (json_dumps (persist_payload r))"
    using assms(2) by (simp add: persist_def file_text_def)
  obtain reg where reg: "swarm_registry_init ev' model layers url account ?dsk = Inr reg"
      "total_layers reg = layers" "reg_model reg = model"
    using acc by (cases "truthy_str account") (auto simp: swarm_registry_init_def)
  let ?f = "\<lambda>m. m\<lparr>shard_manager_url := rstrip_slash url, role := Mother, status := Online\<rparr>"
  let ?g = "\<lambda>m. m\<lparr>shard_manager_url := rstrip_slash url\<rparr> :: host_record"
  let ?r0 = "reg\<lparr>hosts := hosts r, bootstrap_peers := bootstrap_peers r\<rparr>"
  let ?r' = "modify_host ''mother'' ?g ?r0"
  have eq: "modify_host ''mother'' ?f ?r0 = ?r'" using m(1) mod by (simp add: modify_host_def)
  have init: "init_registry ev' ?dsk model layers url account = Inr ?r'"
    using reg(1) eq by (simp add: init_registry_def load_payload)
  have keys: "map fst (hosts ?r') = map fst (hosts r)"
    using m(1) map_of_SomeD [OF m(1)] by (force simp: modify_host_def update_keys)
  have "reg_cover ?r'" if "layers = total_layers r"
  proof -
    have "reg_cover ?r0" using cov reg_cover_hosts [of ?r0 r] reg(2) that by simp
    then show ?thesis by (rule reg_cover_heartbeat_frame) simp_all
  qed
  moreover have "layers = total_layers r" if c: "reg_cover ?r'"
  proof -
    have "range_mset (hosts ?r') = range_mset (hosts r)"
      using range_mset_frame [OF dict m(1), of "?g m"] m(1) by (simp add: modify_host_def)
    then show ?thesis using cover_same_total [OF cov c] reg(2) by simp
  qed
  ultimately have "reg_cover ?r' \<longleftrightarrow> layers = total_layers r" by blast
  then show ?thesis
    using ft file_text_reads [OF dict] init keys reg(2,3)
    by (intro exI [of _ "json_dumps (persist_payload r)"] exI [of _ ?dsk] exI [of _ ?r'])
      (auto simp: dget_modify_host)
qed

lemma restart_keeps_registry_witness:
  "\<exists>txt dsk r'. file_text (disk (persist (ex_env 40 []) ex_second)) = Some txt \<and> read_file txt = Inr dsk
     \<and> init_registry (ex_env 50 []) dsk ''other'' 32 ''http://new/'' None = Inr r' \<and> reg_cover r'"
proof -
  have "write_fault (ex_env 40 []) = None" "total_layers ex_second = 32" by code_simp+
  with restart_keeps_registry [OF ex_cover(4), of "ex_env 40 []" None "ex_env 50 []" "''other''" 32 "''http://new/''"]
  show ?thesis by fastforce
qed

section \<open>Where the coverage is lost\<close>

text \<open>A departure while a join is pending breaks the coverage for good, although every shard manager
  answers: here the contributor of layers 16 to 32 leaves while a join has 8 to 16 reserved on the
  mother; the mother absorbs 16 to 32, and the hand-off then shrinks it to the plan stored at the
  join, so no online host holds 16 to 32.\<close>

lemma leave_during_join_loses_layers:
  "reg_cover ex_second \<and>
   (\<exists>r1 w1 host r2 w2. leave (ex_svc True) (ex_env 4 []) ''host-aaaa'' ex_second [] = (Inr (), r1, w1)
      \<and> mark_ready (ex_svc True) (ex_env 5 []) ''host-bbbb'' None r1 w1 = (Inr host, r2, w2)
      \<and> online_ranges r2 = [(0, 8), (8, 16)] \<and> total_layers r2 = 32)"
proof -
  let ?l = "leave (ex_svc True) (ex_env 4 []) ''host-aaaa'' ex_second []"
  let ?m = "mark_ready (ex_svc True) (ex_env 5 []) ''host-bbbb'' None (fst (snd ?l)) (snd (snd ?l))"
  have "fst ?l = Inr ()" by code_simp
  then have l: "?l = (Inr (), fst (snd ?l), snd (snd ?l))" by (rule triple_fst)
  have "(case fst ?m of Inr _ \<Rightarrow> True | Inl _ \<Rightarrow> False)" by code_simp
  then obtain host where "fst ?m = Inr host" by (cases "fst ?m") auto
  then have m: "?m = (Inr host, fst (snd ?m), snd (snd ?m))" by (rule triple_fst)
  have "online_ranges (fst (snd ?m)) = [(0, 8), (8, 16)]" "total_layers (fst (snd ?m)) = 32"
    by code_simp+
  with l m ex_cover(4) show ?thesis by blast
qed

text \<open>A departure deletes the host before it asks for the reload: when the reload fails, the request
  fails, but the host is gone from memory and its layers are held by nobody.\<close>

lemma failed_reclaim_loses_layers:
  "reg_cover ex_ready \<and>
   (\<exists>r' w'. leave (ex_svc False) (ex_env 4 []) ''host-aaaa'' ex_ready [] = (Inl HTTPError, r', w')
      \<and> dget (hosts r') ''host-aaaa'' = None \<and> online_ranges r' = [(0, 16)] \<and> total_layers r' = 32
      \<and> disk r' = disk ex_ready)"
proof -
  let ?l = "leave (ex_svc False) (ex_env 4 []) ''host-aaaa'' ex_ready []"
  have "fst ?l = Inl HTTPError" "dget (hosts (fst (snd ?l))) ''host-aaaa'' = None"
    "online_ranges (fst (snd ?l)) = [(0, 16)]" "total_layers (fst (snd ?l)) = 32"
    "disk (fst (snd ?l)) = disk ex_ready" by code_simp+
  moreover from this(1) have "?l = (Inl HTTPError, fst (snd ?l), snd (snd ?l))" by (rule triple_fst)
  ultimately show ?thesis using ex_cover(3) by blast
qed

text \<open>The range a contributor reports on a heartbeat is believed: any parsable range becomes its
  range, and the layers it is paid for are the ones it claims.\<close>

lemma heartbeat_range_believed:
  assumes "dget (hosts r) hid = Some h" and "a \<noteq> b" and "block_indices h \<noteq> format_range a b"
  shows "\<exists>host r'. apply_heartbeat_manifest ev hid
      \<lparr>hb_block_indices = Some (format_range a b), hb_petals_running = None, hb_peer_multiaddr = None,
       hb_shard_manager_url = None\<rparr> r = (Inr host, r')
    \<and> dget (hosts r') hid = Some host \<and> layers_hosted host = b - a \<and> host_span host = (a, b)"
  using assms
  by (auto simp: apply_heartbeat_manifest_def heartbeat_def heartbeat_extras_def Let_def modify_host_def
      dget_dset host_span_def)

lemma heartbeat_range_believed_witness:
  "\<exists>host r'. apply_heartbeat_manifest (ex_env 3 []) ''host-aaaa''
      \<lparr>hb_block_indices = Some (format_range 0 1000000), hb_petals_running = None, hb_peer_multiaddr = None,
       hb_shard_manager_url = None\<rparr> ex_ready = (Inr host, r')
    \<and> dget (hosts r') ''host-aaaa'' = Some host \<and> layers_hosted host = 1000000 - 0 \<and> host_span host = (0, 1000000)"
proof -
  have "(case dget (hosts ex_ready) ''host-aaaa'' of Some h \<Rightarrow> block_indices h = ''16:32'' | None \<Rightarrow> False)"
    by code_simp
  then obtain h where h: "dget (hosts ex_ready) ''host-aaaa'' = Some h" "block_indices h = ''16:32''"
    by (auto split: option.splits)
  have "format_range 16 32 = ''16:32''" by code_simp
  then have "block_indices h \<noteq> format_range 0 1000000" using h(2) format_range_inj [of 16 32 0 1000000] by simp
  from heartbeat_range_believed [OF h(1) _ this, of "ex_env 3 []"] show ?thesis by simp
qed

definition peers_extend :: "swarm_registry \<Rightarrow> swarm_registry \<Rightarrow> bool" where
  "peers_extend r r' \<longleftrightarrow> bootstrap_peers r' = bootstrap_peers r
     \<or> (\<exists>p. bootstrap_peers r' = bootstrap_peers r @ [p] \<and> is_public_multiaddr p \<and> p \<notin> set (bootstrap_peers r))"

lemma heartbeat_peers: "bootstrap_peers (snd (heartbeat ev hid r)) = bootstrap_peers r"
  by (auto simp: heartbeat_def Let_def split: option.splits)

lemma extras_peers: "peers_extend r (heartbeat_extras hid body r)"
  by (auto simp: heartbeat_extras_def Let_def peers_extend_def)

text \<open>The registry only ever adds public peer addresses to the bootstrap list, and never twice: after
  a hand-off or a heartbeat every new entry has a peer id and no private or loopback part.\<close>

lemma bootstrap_grows_public:
  "peers_extend r (fst (snd (mark_ready svc ev hid peer r w)))
   \<and> peers_extend r (snd (apply_heartbeat_manifest ev hid body r))"
proof
  have prep: "bootstrap_peers r1 = bootstrap_peers r" if "mark_ready_prepare hid peer r = (pr, r1)" for pr r1
    using that by (auto simp: mark_ready_prepare_def Let_def split: option.splits if_splits sum.splits)
  have commit: "peers_extend r1 r2" if "mark_ready_commit ev hid peer plan r1 = (res, r2)" for plan r1 res r2
    using that by (auto simp: mark_ready_commit_def Let_def peers_extend_def persist_def
        split: option.splits if_splits sum.splits prod.splits)
  show "peers_extend r (fst (snd (mark_ready svc ev hid peer r w)))"
    by (auto simp: mark_ready_def peers_extend_def split: prod.splits sum.splits
        dest!: prep commit)
  have "peers_extend r1 r2 \<Longrightarrow> bootstrap_peers r1 = bootstrap_peers r \<Longrightarrow> peers_extend r r2" for r1 r2
    by (simp add: peers_extend_def)
  moreover obtain res1 r1 where hb: "heartbeat ev hid r = (res1, r1)" by fastforce
  moreover have "bootstrap_peers r1 = bootstrap_peers r" using heartbeat_peers [of ev hid r] hb by simp
  moreover have "bootstrap_peers r = bootstrap_peers r1 \<Longrightarrow> peers_extend r (heartbeat_extras hid body (modify_host k f r1))" for k f
    using extras_peers [of "modify_host k f r1" hid body] by (simp add: peers_extend_def)
  ultimately show "peers_extend r (snd (apply_heartbeat_manifest ev hid body r))"
    using extras_peers [of r1 hid body]
    by (auto simp: apply_heartbeat_manifest_def Let_def peers_extend_def split: sum.splits prod.splits)
qed

end
