(* ===== verification/Cluster.thy ===== *)
theory Cluster
  imports ShardProps Agreement ChainProps RegistryProps
begin

text \<open>
  The mother and the shard managers together. The world of the registry's HTTP calls is the record
  \<open>cluster\<close>: the shard manager applications by base URL and, for the next reloads, what their
  operating systems answer and whether the background thread is done before the response (a server
  process does not exit on its own during a reload). On it the two interfaces of the development are interpreted: \<open>reload_contract\<close> of
  \<open>Agreement\<close>, between the registry and the managers' \<open>/reload\<close>, and \<open>chain_provider\<close> of \<open>ChainProps\<close>,
  between the tail host and the managers' chain routes.
\<close>

section \<open>The cluster\<close>

record 'l cluster =
  cl_apps :: "(string, (tensor, 'l) shard_app) pydict"
  cl_os :: "(os_answer \<times> string option) list"

text \<open>The base a route was posted to, or \<open>None\<close> when the URL does not end in the route.\<close>

definition route_base :: "string \<Rightarrow> string \<Rightarrow> string option" where
  "route_base suffix url =
     (if endswith url suffix then Some (take (length url - length suffix) url) else None)"

lemma startswith_append [simp]: "startswith (s @ t) s"
  by (simp add: startswith_def)

lemma route_base_append [simp]: "route_base suffix (base @ suffix) = Some base"
  by (simp add: route_base_def endswith_def)

lemma route_base_Some: "route_base suffix url = Some base \<Longrightarrow> url = base @ suffix"
proof -
  assume "route_base suffix url = Some base"
  then have "drop (length url - length suffix) url = suffix" "base = take (length url - length suffix) url"
    by (auto simp: route_base_def endswith_def startswith_def take_rev split: if_splits)
  then show ?thesis by (metis append_take_drop_id)
qed

text \<open>A POST to \<open>/reload\<close>: no answer without an application behind the base.\<close>

definition cluster_reload :: "environ \<Rightarrow> 'l cluster reload_svc" where
  "cluster_reload env w url body =
     (case route_base ''/reload'' url of None \<Rightarrow> (w, False) | Some base \<Rightarrow>
      case dget (cl_apps w) base of None \<Rightarrow> (w, False) | Some a \<Rightarrow>
      case cl_os w of [] \<Rightarrow> (w, False) | (os, prewarm) # rest \<Rightarrow>
      case route_reload env os \<lparr>mw_prewarm = prewarm, mw_exit = None\<rparr>
             \<lparr>rr_block_indices = fst body, rr_initial_peers = snd body\<rparr> a of
        (res, a') \<Rightarrow> (w\<lparr>cl_apps := dset base a' (cl_apps w), cl_os := rest\<rparr>,
                    (case res of Inr _ \<Rightarrow> True | Inl _ \<Rightarrow> False)))"

definition cluster_served :: "'l cluster \<Rightarrow> string \<Rightarrow> string option" where
  "cluster_served w base =
     (case dget (cl_apps w) base of None \<Rightarrow> None | Some a \<Rightarrow> serving (manager a))"

lemma route_reload_ok:
  assumes r: "route_reload env os mw body a = (Inr st, a')" and x: "mw_exit mw = None"
  shows "serving (manager a') = Some (rr_block_indices body) \<and> st_running st
    \<and> st_block_indices st = rr_block_indices body \<and> sm_block_indices (manager a') = rr_block_indices body"
proof -
  from r obtain s e m m' where v: "valid_block_indices (rr_block_indices body)"
    and m: "sm_reload env os (rr_block_indices body) (rr_initial_peers body) (manager a) = (Inr (), m)"
    and st: "sm_status (manager (let_pass mw ((reset_inference_caches a)\<lparr>manager := m\<rparr>))) = (st, m')"
    and a': "a' = (let_pass mw ((reset_inference_caches a)\<lparr>manager := m\<rparr>))\<lparr>manager := m'\<rparr>"
    by (rule route_reload_parts)
  note ok = sm_reload_ok [OF m valid_not_empty [OF v]]
  have "proc_running m" using ok by (auto simp: serving_def split: if_splits)
  with ok sm_status_same [OF st] a' x show ?thesis by (simp add: let_pass_manager)
qed

interpretation cluster: reload_contract "cluster_reload env" cluster_served for env
proof
  fix w w' :: "'l cluster" and base blocks :: string and peers
  assume "cluster_reload env w (base @ ''/reload'') (blocks, peers) = (w', True)"
  then show "cluster_served w' base = Some blocks"
    using route_reload_ok [where mw = "\<lparr>mw_prewarm = _, mw_exit = None\<rparr>"]
    by (fastforce simp: cluster_reload_def cluster_served_def dget_dset split: option.splits list.splits prod.splits sum.splits)
next
  fix w w' :: "'l cluster" and base other :: string and body ok
  assume "cluster_reload env w (base @ ''/reload'') body = (w', ok)" "other \<noteq> base"
  then show "cluster_served w' other = cluster_served w other"
    by (auto simp: cluster_reload_def cluster_served_def dget_dset split: option.splits list.splits prod.splits)
qed

section \<open>The chain over the cluster\<close>

text \<open>
  What one node brings to a chain request: the loading of the model through its own server, the log
  texts it polls for the server's address, and the path of that log. \<open>fwd\<close> is the forwarding of
  public addresses: the mother's gateway passes the chain routes on to the mother's shard manager.
\<close>

record 'l chain_node =
  ch_load :: "string \<Rightarrow> (tensor, 'l) petals_model result"
  ch_polls :: "string option list"
  ch_log :: string

definition http_answer :: "'a result \<Rightarrow> 'a result" where
  "http_answer res = (case res of Inr x \<Rightarrow> Inr x | Inl _ \<Rightarrow> Inl HTTPError)"

definition cluster_post ::
  "(string \<Rightarrow> string) \<Rightarrow> 'l cluster \<Rightarrow> string \<Rightarrow> string
     \<Rightarrow> (string \<Rightarrow> (tensor, 'l) shard_app \<Rightarrow> payload result) \<Rightarrow> payload result" where
  "cluster_post fwd w suffix url act =
     (case route_base suffix url of None \<Rightarrow> Inl HTTPError | Some base \<Rightarrow>
      case dget (cl_apps w) (fwd base) of None \<Rightarrow> Inl HTTPError | Some a \<Rightarrow> http_answer (act (fwd base) a))"

definition cluster_net ::
  "(string \<Rightarrow> string) \<Rightarrow> (string \<Rightarrow> 'l chain_node) \<Rightarrow> (string \<Rightarrow> nat option) \<Rightarrow> 'l cluster \<Rightarrow> chain_net" where
  "cluster_net fwd nodes itemsize w =
     \<lparr>net_prefix = (\<lambda>url ids. cluster_post fwd w ''/v1/chain/prefix'' url
        (\<lambda>base a. fst (route_chain_prefix (ch_load (nodes base)) (ch_polls (nodes base)) (ch_log (nodes base)) ids a))),
      net_continue = (\<lambda>url body. cluster_post fwd w ''/v1/chain/continue'' url
        (\<lambda>base a. fst (route_chain_continue itemsize (ch_load (nodes base)) (ch_polls (nodes base)) (ch_log (nodes base))
           body a))),
      net_itemsize = itemsize\<rparr>"

text \<open>A node that runs the layers of a range of the model \<open>pm\<close> once its runner is loaded.\<close>

definition node_runs ::
  "(tensor, 'l) petals_model \<Rightarrow> 'l chain_node \<Rightarrow> (tensor, 'l) shard_app \<Rightarrow> range \<Rightarrow> bool" where
  "node_runs pm n a q \<longleftrightarrow>
     proc_running (manager a) \<and> parse_range (sm_block_indices (manager a)) = Inr q
     \<and> (\<exists>r a1 pm' r'. get_local_runner (ch_log n) a = (Inr r, a1) \<and> ensure_loaded (ch_load n) (ch_polls n) r = (Inr pm', r')
          \<and> slice_of pm pm' (fst q) (snd q))"

definition cluster_runs ::
  "(string \<Rightarrow> string) \<Rightarrow> (string \<Rightarrow> 'l chain_node) \<Rightarrow> (tensor, 'l) petals_model \<Rightarrow> 'l cluster \<Rightarrow> string \<Rightarrow> range \<Rightarrow> bool" where
  "cluster_runs fwd nodes pm w url q \<longleftrightarrow>
     (\<exists>a. dget (cl_apps w) (fwd (rstrip_slash url)) = Some a \<and> node_runs pm (nodes (fwd (rstrip_slash url))) a q)"

lemma as_503_answer: "http_answer (as_503 res) = (case res of Inr x \<Rightarrow> Inr x | Inl _ \<Rightarrow> Inl HTTPError)"
  by (auto simp: http_answer_def as_503_def split: sum.splits)

lemma answer_tensor:
  assumes "\<And>h. res = Inr h \<Longrightarrow> tensor_ok itemsize h"
  shows "rbind (http_answer (as_503 (rbind res (\<lambda>h. Inr (tensor_to_payload h))))) (tensor_from_payload itemsize) = Inr h
    \<longleftrightarrow> res = Inr h"
  using assms tensor_payload_back by (cases res) (auto simp: as_503_answer)

text \<open>The two routes on a node that runs: the runner has the manager's range.\<close>

lemma status_running:
  "proc_running (manager a) \<Longrightarrow> \<exists>st. route_status a = (st, a) \<and> st_running st"
  by (auto simp: route_status_def sm_status_def Let_def proc_running_def split: option.splits)

lemma with_runner_runs:
  assumes "node_runs pm n a (s, e)"
  shows "\<exists>pm' r'. fst (with_runner (ch_load n) (ch_polls n) (ch_log n) a act) = act pm' r'
    \<and> slice_of pm pm' s e \<and> lr_block_start r' = s \<and> lr_block_end r' = e"
proof -
  obtain r a1 pm' r' where g: "get_local_runner (ch_log n) a = (Inr r, a1)"
    and l: "ensure_loaded (ch_load n) (ch_polls n) r = (Inr pm', r')" and sl: "slice_of pm pm' s e"
    and p: "parse_range (sm_block_indices (manager a)) = Inr (s, e)"
    using assms by (auto simp: node_runs_def)
  have "lr_block_start r' = s \<and> lr_block_end r' = e"
    using get_local_runner_current [OF g] ensure_loaded_fields [OF l] p by simp
  then show ?thesis using g l sl by (intro exI [of _ pm'] exI [of _ r']) (simp add: with_runner_def)
qed

lemma route_prefix_running:
  "route_status a = (st, a) \<Longrightarrow> st_running st \<Longrightarrow>
   fst (route_chain_prefix load polls log_path ids a) = as_503 (fst (with_runner load polls log_path a
     (\<lambda>pm r. rbind (forward_prefix pm r ids) (\<lambda>h. Inr (tensor_to_payload h)))))"
  by (simp add: route_chain_prefix_def case_prod_unfold)

lemma route_continue_running:
  "route_status a = (st, a) \<Longrightarrow> st_running st \<Longrightarrow>
   fst (route_chain_continue itemsize load polls log_path body a) = as_503 (fst (with_runner load polls log_path a
     (\<lambda>pm r. rbind (tensor_from_payload itemsize body) (\<lambda>h.
        rbind (forward_tail pm r h) (\<lambda>h'. Inr (tensor_to_payload h'))))))"
  by (simp add: route_chain_continue_def case_prod_unfold)

lemma prefix_answer:
  assumes n: "node_runs pm n a (0, b)" and keeps: "keeps_tensors itemsize pm"
  shows "rbind (http_answer (fst (route_chain_prefix (ch_load n) (ch_polls n) (ch_log n) ids a)))
      (tensor_from_payload itemsize) = Inr h \<longleftrightarrow> rbind (runner_embed pm ids) (run_layers pm 0 b) = Inr h"
proof -
  let ?act = "\<lambda>pm r. rbind (forward_prefix pm r ids) (\<lambda>h. Inr (tensor_to_payload h))"
  obtain st where st: "route_status a = (st, a)" "st_running st"
    using status_running n by (auto simp: node_runs_def)
  obtain pm' r' where w: "fst (with_runner (ch_load n) (ch_polls n) (ch_log n) a ?act) = ?act pm' r'"
    and sl: "slice_of pm pm' 0 b" and lr: "lr_block_start r' = 0" "lr_block_end r' = b"
    using with_runner_runs [OF n, of ?act] by blast
  have fp: "forward_prefix pm' r' ids = rbind (runner_embed pm ids) (run_layers pm 0 b)"
    using sl lr slice_run [OF sl] by (simp add: forward_prefix_run slice_of_def)
  have ok: "tensor_ok itemsize h'" if emb: "rbind (runner_embed pm ids) (run_layers pm 0 b) = Inr h'" for h'
  proof -
    obtain he where he: "runner_embed pm ids = Inr he" "run_layers pm 0 b he = Inr h'"
      using emb by (auto simp: rbind_Inr_iff)
    have "tensor_ok itemsize he" using he(1) keeps by (simp add: keeps_tensors_def)
    from run_layers_keeps [OF keeps this he(2)] show ?thesis .
  qed
  show ?thesis
    unfolding route_prefix_running [OF st] w fp by (rule answer_tensor) (rule ok)
qed

lemma continue_answer:
  assumes n: "node_runs pm n a (s, e)" and keeps: "keeps_tensors itemsize pm" and ok: "tensor_ok itemsize t"
  shows "rbind (http_answer (fst (route_chain_continue itemsize (ch_load n) (ch_polls n) (ch_log n)
      (tensor_to_payload t) a))) (tensor_from_payload itemsize) = Inr h \<longleftrightarrow> run_layers pm s e t = Inr h"
proof -
  let ?act = "\<lambda>pm r. rbind (tensor_from_payload itemsize (tensor_to_payload t)) (\<lambda>h.
      rbind (forward_tail pm r h) (\<lambda>h'. Inr (tensor_to_payload h')))"
  obtain st where st: "route_status a = (st, a)" "st_running st"
    using status_running n by (auto simp: node_runs_def)
  obtain pm' r' where w: "fst (with_runner (ch_load n) (ch_polls n) (ch_log n) a ?act) = ?act pm' r'"
    and sl: "slice_of pm pm' s e" and lr: "lr_block_start r' = s" "lr_block_end r' = e"
    using with_runner_runs [OF n, of ?act] by blast
  have ft: "forward_tail pm' r' t = run_layers pm s e t"
    using lr slice_run [OF sl] by (simp add: forward_tail_run)
  have ok': "tensor_ok itemsize h'" if "run_layers pm s e t = Inr h'" for h'
    using that ok run_layers_keeps [OF keeps] by blast
  show ?thesis
    unfolding route_continue_running [OF st] w
    unfolding tensor_payload_back [OF ok] rbind.simps ft
    by (rule answer_tensor) (rule ok')
qed

interpretation chain: chain_provider "cluster_net fwd nodes itemsize w" pm "cluster_runs fwd nodes pm w"
  for fwd nodes itemsize w pm
proof
  fix url b ids h
  assume r: "cluster_runs fwd nodes pm w url (0, b)" and "keeps_tensors (net_itemsize (cluster_net fwd nodes itemsize w)) pm"
  then have k: "keeps_tensors itemsize pm" by (simp add: cluster_net_def)
  obtain a where a: "dget (cl_apps w) (fwd (rstrip_slash url)) = Some a"
    "node_runs pm (nodes (fwd (rstrip_slash url))) a (0, b)"
    using r by (auto simp: cluster_runs_def)
  from prefix_answer [OF a(2) k, of ids h] a(1)
  show "remote_prefix (cluster_net fwd nodes itemsize w) url ids = Inr h
      \<longleftrightarrow> rbind (runner_embed pm ids) (run_layers pm 0 b) = Inr h"
    by (simp add: remote_prefix_def cluster_net_def cluster_post_def)
next
  fix url s e t h
  assume r: "cluster_runs fwd nodes pm w url (s, e)" and "keeps_tensors (net_itemsize (cluster_net fwd nodes itemsize w)) pm"
    and "tensor_ok (net_itemsize (cluster_net fwd nodes itemsize w)) t"
  then have k: "keeps_tensors itemsize pm" and t: "tensor_ok itemsize t" by (simp_all add: cluster_net_def)
  obtain a where a: "dget (cl_apps w) (fwd (rstrip_slash url)) = Some a"
    "node_runs pm (nodes (fwd (rstrip_slash url))) a (s, e)"
    using r by (auto simp: cluster_runs_def)
  from continue_answer [OF a(2) k t, of h] a(1)
  show "remote_continue (cluster_net fwd nodes itemsize w) url t = Inr h \<longleftrightarrow> run_layers pm s e t = Inr h"
    by (simp add: remote_continue_def cluster_net_def cluster_post_def)
qed

end
