(* ===== verification/Engine.thy ===== *)
theory Engine
  imports HttpChain
begin

text \<open>
  orchestrator/app/engine.py and orchestrator/app/http\_inference.py: the mother's own Petals
  client and the choice between it and the HTTP chain. The loaded tokenizer and model are the
  parameter \<open>hf_model\<close>; \<open>load\<close> is what loading with a list of peers gives; \<open>post\<close> the answer of a
  contributor to a chat request.
\<close>

section \<open>State and parameters\<close>

record 'a gen_kwargs =
  gk_max_new_tokens :: int
  gk_do_sample :: bool
  gk_temperature :: "'a option"
  gk_top_p :: "'a option"

text \<open>
  \<open>hf_generate\<close> is the ids of prompt and completion; \<open>hf_stream\<close> is the texts the streamer yields
  before generation ends, and the exception it ends with; \<open>hf_count_tokens\<close> counts the tokens of a
  text without special tokens.
\<close>

record 'a hf_model =
  hf_tok :: "'a tokenizer"
  hf_generate :: "'a gen_kwargs \<Rightarrow> int list \<Rightarrow> int list result"
  hf_stream :: "'a gen_kwargs \<Rightarrow> int list \<Rightarrow> string list \<times> py_error option"
  hf_count_tokens :: "string \<Rightarrow> int"

type_synonym message = "string option \<times> string option"

record 'a engine =
  en_model :: "'a hf_model option"
  en_load_error :: "py_error option"
  en_extra_peers :: "string list"

type_synonym 'a loader = "string list \<Rightarrow> 'a hf_model result"

record gen_result =
  gr_text :: string
  gr_prompt_tokens :: int
  gr_completion_tokens :: int
  gr_finish_reason :: string

definition engine_init :: "'a engine" where
  "engine_init = \<lparr>en_model = None, en_load_error = None, en_extra_peers = []\<rparr>"

section \<open>Peers and loading\<close>

definition is_loaded :: "'a engine \<Rightarrow> bool" where
  "is_loaded en \<longleftrightarrow> (case en_model en of Some _ \<Rightarrow> True | None \<Rightarrow> False)"

definition get_effective_peers :: "settings \<Rightarrow> 'a engine \<Rightarrow> string list" where
  "get_effective_peers s en = add_peers (initial_peers s) (en_extra_peers en)"

definition add_peer :: "string \<Rightarrow> 'a engine \<Rightarrow> 'a engine" where
  "add_peer p en =
     (if p \<noteq> [] \<and> p \<notin> set (en_extra_peers en) then en\<lparr>en_extra_peers := en_extra_peers en @ [p]\<rparr> else en)"

definition set_peers :: "string list \<Rightarrow> 'a engine \<Rightarrow> 'a engine" where
  "set_peers ps en = en\<lparr>en_extra_peers := filter (\<lambda>p. p \<noteq> []) ps\<rparr>"

definition engine_load :: "settings \<Rightarrow> 'a loader \<Rightarrow> 'a engine \<Rightarrow> unit result \<times> 'a engine" where
  "engine_load s load en =
     (if is_loaded en then (Inr (), en)
      else let peers = get_effective_peers s en in
      if peers = [] then (Inl RuntimeError, en)
      else case load peers of
        Inr m \<Rightarrow> (Inr (), en\<lparr>en_model := Some m, en_load_error := None\<rparr>)
      | Inl e \<Rightarrow> (Inl e, en\<lparr>en_model := None, en_load_error := Some e\<rparr>))"

definition unload :: "'a engine \<Rightarrow> 'a engine" where
  "unload en = en\<lparr>en_model := None, en_load_error := None\<rparr>"

definition engine_reload :: "settings \<Rightarrow> 'a loader \<Rightarrow> 'a engine \<Rightarrow> unit result \<times> 'a engine" where
  "engine_reload s load en = engine_load s load (unload en)"

text \<open>The background reload: one loader answer per attempt, until one succeeds.\<close>

fun reload_attempts :: "settings \<Rightarrow> 'a loader list \<Rightarrow> 'a engine \<Rightarrow> bool \<times> 'a engine" where
  "reload_attempts s [] en = (False, en)"
| "reload_attempts s (l # ls) en =
     (case engine_reload s l en of
        (Inr _, en') \<Rightarrow> (True, en')
      | (Inl _, en') \<Rightarrow> reload_attempts s ls en')"

definition schedule_reload :: "settings \<Rightarrow> nat \<Rightarrow> (nat \<Rightarrow> 'a loader) \<Rightarrow> 'a engine \<Rightarrow> bool \<times> 'a engine" where
  "schedule_reload s max_attempts load_at en = reload_attempts s (map load_at [0..<max_attempts]) en"

section \<open>One generation\<close>

definition cap_max_tokens :: "settings \<Rightarrow> int option \<Rightarrow> int" where
  "cap_max_tokens s max_tokens =
     (let v = (case max_tokens of Some n \<Rightarrow> n | None \<Rightarrow> default_max_tokens s)
      in min (max 1 v) (hard_max_tokens s))"

definition generation_kwargs ::
  "'a::linordered_field option \<Rightarrow> 'a option \<Rightarrow> int \<Rightarrow> 'a gen_kwargs" where
  "generation_kwargs temperature top_p max_new =
     (let sample = (case temperature of Some t \<Rightarrow> \<not> t \<le> 0 | None \<Rightarrow> True)
      in \<lparr>gk_max_new_tokens = max_new, gk_do_sample = sample,
          gk_temperature = (if sample then temperature else None),
          gk_top_p = (if sample then top_p else None)\<rparr>)"

definition length_or_stop :: "int \<Rightarrow> int \<Rightarrow> string" where
  "length_or_stop completion max_new = (if completion \<ge> max_new then ''length'' else ''stop'')"

definition generate_once ::
  "settings \<Rightarrow> 'a::linordered_field loader \<Rightarrow> message list \<Rightarrow> int option \<Rightarrow> 'a option \<Rightarrow> 'a option \<Rightarrow> 'a engine
     \<Rightarrow> gen_result result \<times> 'a engine" where
  "generate_once s load msgs max_tokens temperature top_p en =
     (case engine_load s load en of (Inl e, en') \<Rightarrow> (Inl e, en') | (Inr _, en') \<Rightarrow>
      case en_model en' of None \<Rightarrow> (Inl AssertionError, en') | Some m \<Rightarrow>
      let ids = tk_encode (hf_tok m) (chat_prompt (hf_tok m) msgs);
          max_new = cap_max_tokens s max_tokens
      in case hf_generate m (generation_kwargs temperature top_p max_new) ids of
           Inl e \<Rightarrow> (Inl e, en')
         | Inr out \<Rightarrow>
             (let completion = drop (length ids) out in
              (Inr \<lparr>gr_text = tk_decode (hf_tok m) completion, gr_prompt_tokens = int (length ids),
                    gr_completion_tokens = int (length completion),
                    gr_finish_reason = length_or_stop (int (length completion)) max_new\<rparr>, en')))"

text \<open>
  A generation that misses blocks is repeated once, after a reload of the client. \<open>load\<close> is for the
  first loading, \<open>load2\<close> for the reload and after.
\<close>

definition retry_missing_blocks ::
  "('a engine \<Rightarrow> 'r result \<times> 'a engine) \<Rightarrow> ('a engine \<Rightarrow> 'r result \<times> 'a engine)
     \<Rightarrow> settings \<Rightarrow> 'a loader \<Rightarrow> 'a engine \<Rightarrow> 'r result \<times> 'a engine" where
  "retry_missing_blocks first second s load2 en =
     (case first en of
        (Inl MissingBlocksError, en1) \<Rightarrow>
          (case engine_reload s load2 en1 of
             (Inl e, en2) \<Rightarrow> (Inl e, en2)
           | (Inr _, en2) \<Rightarrow>
               (case second en2 of
                  (Inl MissingBlocksError, en3) \<Rightarrow> (Inl MissingBlocksServiceError, en3)
                | (res, en3) \<Rightarrow> (res, en3)))
      | (res, en1) \<Rightarrow> (res, en1))"

section \<open>Generation through a contributor\<close>

record 'a chat_request =
  cr_messages :: "message list"
  cr_max_tokens :: int
  cr_temperature :: 'a
  cr_top_p :: 'a
  cr_manifest :: manifest_dict

definition chat_payload ::
  "environ \<Rightarrow> 'a::linordered_field \<times> 'a \<Rightarrow> swarm_manifest \<Rightarrow> message list \<Rightarrow> int option \<Rightarrow> 'a option \<Rightarrow> 'a option
     \<Rightarrow> 'a chat_request" where
  "chat_payload env dflt m msgs max_tokens temperature top_p =
     \<lparr>cr_messages = msgs,
      cr_max_tokens = (case max_tokens of Some n \<Rightarrow> if n = 0 then 64 else n | None \<Rightarrow> 64),
      cr_temperature = (case temperature of Some t \<Rightarrow> t | None \<Rightarrow> fst dflt),
      cr_top_p = (case top_p of Some p \<Rightarrow> p | None \<Rightarrow> snd dflt),
      cr_manifest = to_dict (env ''MOTHER_PUBLIC_GATEWAY_URL'') m\<rparr>"

text \<open>\<open>dflt\<close> stands for the two constants 0.7 and 0.9.\<close>

definition generate_via_contributor_http ::
  "(string \<Rightarrow> 'a chat_request \<Rightarrow> gen_result result) \<Rightarrow> environ \<Rightarrow> 'a::linordered_field \<times> 'a
     \<Rightarrow> layer_span \<Rightarrow> swarm_manifest \<Rightarrow> message list \<Rightarrow> int option \<Rightarrow> 'a option \<Rightarrow> 'a option \<Rightarrow> gen_result result" where
  "generate_via_contributor_http post env dflt c m msgs max_tokens temperature top_p =
     post (rstrip_slash (span_url c) @ ''/v1/chat/completions'')
       (chat_payload env dflt m msgs max_tokens temperature top_p)"

definition engine_generate ::
  "(string \<Rightarrow> 'a chat_request \<Rightarrow> gen_result result) \<Rightarrow> environ \<Rightarrow> 'a::linordered_field \<times> 'a \<Rightarrow> settings
     \<Rightarrow> (string \<Rightarrow> shard_status option) \<Rightarrow> env \<Rightarrow> 'a loader \<Rightarrow> 'a loader
     \<Rightarrow> message list \<Rightarrow> int option \<Rightarrow> 'a option \<Rightarrow> 'a option \<Rightarrow> swarm_registry \<times> 'a engine
     \<Rightarrow> gen_result result \<times> swarm_registry \<times> 'a engine" where
  "engine_generate post env dflt s probe ev load load2 msgs max_tokens temperature top_p x =
     (case refresh_live_status probe ev (fst x) of
        (Inl e, r1) \<Rightarrow> (Inl e, r1, snd x)
      | (Inr m, r1) \<Rightarrow>
          (case sync_peers_to_engine r1 of
             Inl e \<Rightarrow> (Inl e, r1, snd x)
           | Inr peers \<Rightarrow>
               (let en = set_peers peers (snd x) in
                case pick_http_inference_host m of
                  Some c \<Rightarrow>
                    (case generate_via_contributor_http post env dflt c m msgs max_tokens temperature top_p of
                       Inr res \<Rightarrow> (Inr res, r1, en)
                     | Inl _ \<Rightarrow> (Inl HttpInferenceError, r1, en))
                | None \<Rightarrow>
                    (case retry_missing_blocks (generate_once s load msgs max_tokens temperature top_p)
                            (generate_once s load2 msgs max_tokens temperature top_p) s load2 en of
                       (res, en') \<Rightarrow> (res, r1, en')))))"

section \<open>Streaming\<close>

text \<open>
  A generator is the list of the texts it yields and how it ends: with an exception or with a
  return value.
\<close>

definition stream_once ::
  "settings \<Rightarrow> 'a::linordered_field loader \<Rightarrow> message list \<Rightarrow> int option \<Rightarrow> 'a option \<Rightarrow> 'a option \<Rightarrow> 'a engine
     \<Rightarrow> (string list \<times> gen_result result) \<times> 'a engine" where
  "stream_once s load msgs max_tokens temperature top_p en =
     (case engine_load s load en of (Inl e, en') \<Rightarrow> (([], Inl e), en') | (Inr _, en') \<Rightarrow>
      case en_model en' of None \<Rightarrow> (([], Inl AssertionError), en') | Some m \<Rightarrow>
      let ids = tk_encode (hf_tok m) (chat_prompt (hf_tok m) msgs);
          max_new = cap_max_tokens s max_tokens
      in case hf_stream m (generation_kwargs temperature top_p max_new) ids of
           (pieces, Some e) \<Rightarrow> ((pieces, Inl e), en')
         | (pieces, None) \<Rightarrow>
             (let text = concat pieces; n = hf_count_tokens m text in
              ((pieces, Inr \<lparr>gr_text = text, gr_prompt_tokens = int (length ids), gr_completion_tokens = n,
                             gr_finish_reason = length_or_stop n max_new\<rparr>), en')))"

text \<open>
  \<open>stream_generate\<close> passes the texts on with \<open>yield from\<close> and has no \<open>return\<close>: its own value is
  \<open>None\<close> whatever the inner generator returns.
\<close>

definition stream_generate ::
  "settings \<Rightarrow> 'a::linordered_field loader \<Rightarrow> 'a loader \<Rightarrow> message list \<Rightarrow> int option \<Rightarrow> 'a option \<Rightarrow> 'a option
     \<Rightarrow> 'a engine \<Rightarrow> (string list \<times> gen_result option result) \<times> 'a engine" where
  "stream_generate s load load2 msgs max_tokens temperature top_p en =
     (case stream_once s load msgs max_tokens temperature top_p en of
        ((pieces, Inr _), en1) \<Rightarrow> ((pieces, Inr None), en1)
      | ((pieces, Inl e), en1) \<Rightarrow>
          if e \<noteq> MissingBlocksError then ((pieces, Inl e), en1)
          else case engine_reload s load2 en1 of
            (Inl e2, en2) \<Rightarrow> ((pieces, Inl e2), en2)
          | (Inr _, en2) \<Rightarrow>
              (case stream_once s load2 msgs max_tokens temperature top_p en2 of
                 ((pieces2, Inr _), en3) \<Rightarrow> ((pieces @ pieces2, Inr None), en3)
               | ((pieces2, Inl e2), en3) \<Rightarrow>
                   ((pieces @ pieces2,
                     Inl (if e2 = MissingBlocksError then MissingBlocksServiceError else e2)), en3)))"

end
