(* ===== verification/PeerVerify.thy ===== *)
theory PeerVerify
  imports Engine ShardManager
begin

text \<open>
  The checks the mother makes before a hand-off and the report a contributor sends:
  orchestrator/app/peer\_verify.py, orchestrator/app/swarm\_verify.py and
  shard\_manager/heartbeat.py. What an HTTP GET, a TCP connection and an update of the swarm view
  answer are parameters.
\<close>

section \<open>The host name of a URL\<close>

text \<open>\<open>urlparse(url).hostname\<close>: the network location after \<open>//\<close>, without user, port and brackets.\<close>

definition scheme_char :: "char \<Rightarrow> bool" where
  "scheme_char c \<longleftrightarrow> is_alnum c \<or> c = CHR ''+'' \<or> c = CHR ''-'' \<or> c = CHR ''.''"

definition is_alpha :: "char \<Rightarrow> bool" where
  "is_alpha c \<longleftrightarrow> is_alnum c \<and> \<not> is_digit c"

definition after_scheme :: "string \<Rightarrow> string" where
  "after_scheme url =
     (let s = takeWhile (\<lambda>c. c \<noteq> CHR '':'') url
      in if length s < length url \<and> s \<noteq> [] \<and> is_alpha (hd s) \<and> list_all scheme_char s
         then drop (Suc (length s)) url else url)"

definition netloc :: "string \<Rightarrow> string" where
  "netloc url =
     (let rest = after_scheme url
      in if startswith rest ''//''
         then takeWhile (\<lambda>c. c \<noteq> CHR ''/'' \<and> c \<noteq> CHR ''?'' \<and> c \<noteq> CHR ''#'') (drop 2 rest) else [])"

definition url_hostname :: "string \<Rightarrow> string" where
  "url_hostname url =
     (let hostinfo = last (py_split CHR ''@'' (netloc url));
          host = (if CHR ''['' \<in> set hostinfo
                  then takeWhile (\<lambda>c. c \<noteq> CHR '']'') (drop 1 (dropWhile (\<lambda>c. c \<noteq> CHR ''['') hostinfo))
                  else takeWhile (\<lambda>c. c \<noteq> CHR '':'') hostinfo)
      in py_lower host)"

text \<open>The pattern of the private addresses, matched at the start.\<close>

definition private_host :: "string \<Rightarrow> bool" where
  "private_host h \<longleftrightarrow> startswith h ''127.'' \<or> startswith h ''10.'' \<or> startswith h ''192.168.''
     \<or> (startswith h ''172.'' \<and>
        (case drop 4 h of
           a # b # c # _ \<Rightarrow>
             c = CHR ''.'' \<and> ((a = CHR ''1'' \<and> b \<in> set ''6789'') \<or> (a = CHR ''2'' \<and> is_digit b) \<or> (a = CHR ''3'' \<and> b \<in> set ''01''))
         | _ \<Rightarrow> False))"

definition peer_is_public_http_url :: "string \<Rightarrow> bool" where
  "peer_is_public_http_url url =
     (let host = url_hostname url
      in if host = [] \<or> host = ''localhost'' \<or> host = ''127.0.0.1'' then False else \<not> private_host host)"

section \<open>The two reachability checks\<close>

definition verify_contributor_http :: "(string \<Rightarrow> shard_status option) \<Rightarrow> string \<Rightarrow> string \<Rightarrow> bool result" where
  "verify_contributor_http probe url blocks =
     (if url = [] \<or> \<not> peer_is_public_http_url url then Inr False
      else rbind (parse_range blocks) (\<lambda>assigned.
        case probe (rstrip_slash url @ ''/status'') of
          None \<Rightarrow> Inl HTTPError
        | Some st \<Rightarrow>
            if \<not> ss_running st then Inl RuntimeError
            else if truthy_str (ss_block_indices st)
              then rbind (parse_range (the (ss_block_indices st)))
                     (\<lambda>reported. if reported \<noteq> assigned then Inl RuntimeError else Inr True)
            else Inr True))"

text \<open>The scan keeps the last host and the last port; a part at the end has no value after it.\<close>

fun peer_parts :: "string list \<Rightarrow> string option \<Rightarrow> int option \<Rightarrow> (string option \<times> int option) result" where
  "peer_parts (p # v # rest) host port =
     (if p \<in> {''dns4'', ''dns6'', ''dnsaddr'', ''ip4'', ''ip6''} then peer_parts (v # rest) (Some v) port
      else if p = ''tcp'' then rbind (py_int v) (\<lambda>n. peer_parts (v # rest) host (Some n))
      else peer_parts (v # rest) host port)"
| "peer_parts parts host port = Inr (host, port)"

definition parse_peer_tcp :: "string \<Rightarrow> (string \<times> int) result" where
  "parse_peer_tcp addr =
     rbind (peer_parts (py_split CHR ''/'' (py_strip addr)) None None) (\<lambda>(host, port).
       case port of
         None \<Rightarrow> Inl ValueError
       | Some n \<Rightarrow> if truthy_str host then Inr (the host, n) else Inl ValueError)"

definition verify_peer_tcp :: "(string \<times> int \<Rightarrow> bool) \<Rightarrow> string \<Rightarrow> bool result" where
  "verify_peer_tcp connect addr =
     (if addr = [] then Inr False
      else rbind (parse_peer_tcp addr) (\<lambda>ep. if connect ep then Inr True else Inl TimeoutError))"

definition contributor_precheck_passed ::
  "(string \<Rightarrow> shard_status option) \<Rightarrow> (string \<times> int \<Rightarrow> bool) \<Rightarrow> string \<Rightarrow> string \<Rightarrow> string option \<Rightarrow> string list \<Rightarrow> bool" where
  "contributor_precheck_passed probe connect url blocks peer bootstrap =
     (let peer' = (if truthy_str peer \<and> the peer \<in> set bootstrap then None else peer);
          http_ok = (case verify_contributor_http probe url blocks of Inr b \<Rightarrow> b | Inl _ \<Rightarrow> False);
          tcp_ok = (if truthy_str peer'
                    then (case verify_peer_tcp connect (the peer') of Inr b \<Rightarrow> b | Inl _ \<Rightarrow> False) else False)
      in http_ok \<or> tcp_ok)"

section \<open>Blocks in the swarm\<close>

text \<open>
  \<open>views\<close> are the views of the swarm at the polls before the deadline: per block, whether a span
  holds it, or \<open>None\<close> where the look-up raised.
\<close>

fun poll_blocks :: "int list \<Rightarrow> (int \<Rightarrow> bool) option list \<Rightarrow> unit result" where
  "poll_blocks idxs [] = Inl RuntimeError"
| "poll_blocks idxs (v # vs) =
     (case v of
        None \<Rightarrow> poll_blocks idxs vs
      | Some held \<Rightarrow> if filter (\<lambda>i. \<not> held i) idxs = [] then Inr () else poll_blocks idxs vs)"

definition verify_blocks_visible ::
  "settings \<Rightarrow> 'a loader \<Rightarrow> (int \<Rightarrow> bool) option list \<Rightarrow> string \<Rightarrow> 'a engine \<Rightarrow> unit result \<times> 'a engine" where
  "verify_blocks_visible s load views blocks en =
     (case parse_range blocks of Inl e \<Rightarrow> (Inl e, en) | Inr (a, b) \<Rightarrow>
      case engine_load s load en of
        (Inl e, en') \<Rightarrow> (Inl e, en')
      | (Inr _, en') \<Rightarrow> (poll_blocks [a..b - 1] views, en'))"

section \<open>The heartbeat of a contributor\<close>

text \<open>The report \<open>_status\<close> builds, and the body the loop posts from it.\<close>

definition heartbeat_report :: "environ \<Rightarrow> string option \<Rightarrow> shard_manager \<Rightarrow> heartbeat_body \<times> shard_manager" where
  "heartbeat_report env log_content m =
     (case sm_status m of (st, m') \<Rightarrow>
      (let url = py_strip (getenv_or env ''BLITZWING_SHARD_MANAGER_URL'' [])
       in (\<lparr>hb_block_indices = (if st_block_indices st \<noteq> [] then Some (st_block_indices st) else None),
            hb_petals_running = Some (st_running st),
            hb_peer_multiaddr = peer_from_log log_content (st_port st),
            hb_shard_manager_url = (if url \<noteq> [] then Some url else None)\<rparr>, m')))"

definition heartbeat_target :: "environ \<Rightarrow> (string \<times> string) option" where
  "heartbeat_target env =
     (let hid = py_strip (str_or (env ''BLITZWING_HOST_ID'') []);
          url = py_strip (str_or (env ''BLITZWING_MOTHER_URL'') (str_or (env ''MOTHER_URL'') []))
      in if hid = [] \<or> url = [] then None else Some (rstrip_slash url @ ''/v1/hosts/heartbeat'', hid))"

end
