(* ===== verification/System.thy ===== *)
theory System
  imports Cluster PeerVerify
begin

text \<open>
  The properties of the mother and the shard managers together: the registry and what the managers
  really serve stay in agreement, and then one pass of the chain along the manifest is one pass of
  the whole model.
\<close>

section \<open>Registry and managers in agreement\<close>

definition managers_agree :: "swarm_registry \<Rightarrow> 'l cluster \<Rightarrow> bool" where
  "managers_agree r w \<longleftrightarrow> (\<forall>k h. dget (hosts r) k = Some h \<longrightarrow> status h = Online \<longrightarrow>
     cluster_served w (base_url h) = Some (block_indices h))"

lemma managers_agree_eq: "managers_agree r w = cluster.agrees r w"
  by (simp add: managers_agree_def cluster.agrees_def)

text \<open>
  The requests that change the registry or a manager. A join comes from an address no host has; a
  contributor reports ready after its own server runs on its range (\<open>sys_manager\<close> is anything that
  happens to the manager of a host that is not online, as the start of that server); a departure of
  an online host, by request or by the reaper, returns normally and no join is pending; a heartbeat
  or a status probe names no range or the registered one, and no other address
  (\<open>online_manager_reports_registered\<close>: an online host's manager does so); \<open>sys_same\<close> is any request to any manager that leaves
  the range it serves: status, the chain routes, the background thread, a start while the server
  runs, a reload of the range that is served (\<open>routes_keep_serving\<close>, \<open>reload_same_range\<close>).
  What is left out are a stop, a reload of another range or the end of the process at an online
  host's manager: nobody tells the mother before the next heartbeat or probe.
\<close>

definition probe_registered :: "(string \<Rightarrow> shard_status option) \<Rightarrow> host_record \<Rightarrow> bool" where
  "probe_registered probe h \<longleftrightarrow>
     (case fetch_shard_status probe (shard_manager_url h) of
        None \<Rightarrow> True
      | Some st \<Rightarrow> \<not> truthy_str (ss_block_indices st) \<or> ss_block_indices st = Some (block_indices h))"

inductive sys_step :: "environ \<Rightarrow> swarm_registry \<times> 'l cluster \<Rightarrow> swarm_registry \<times> 'l cluster \<Rightarrow> bool"
  for penv where
  sys_join:
    "dget (hosts r) (join_host_id ev) = None \<Longrightarrow>
     (\<And>k h. dget (hosts r) k = Some h \<Longrightarrow> base_url h \<noteq> rstrip_slash url) \<Longrightarrow>
     registry_join ev n ip url account r = (res, r') \<Longrightarrow> sys_step penv (r, w) (r', w)"
| sys_manager:
    "(\<And>k h. dget (hosts r) k = Some h \<Longrightarrow> status h = Online \<Longrightarrow> base_url h \<noteq> base) \<Longrightarrow>
     (\<And>other. other \<noteq> base \<Longrightarrow> cluster_served w' other = cluster_served w other) \<Longrightarrow>
     sys_step penv (r, w) (r, w')"
| sys_same:
    "(\<And>base. cluster_served w' base = cluster_served w base) \<Longrightarrow> sys_step penv (r, w) (r, w')"
| sys_ready:
    "(\<And>h. dget (hosts r) hid = Some h \<Longrightarrow> status h \<noteq> Online \<Longrightarrow>
        cluster_served w (base_url h) = Some (str_or (pending_range h) (block_indices h))) \<Longrightarrow>
     mark_ready (cluster_reload penv) ev hid peer r w = (Inr host, r', w') \<Longrightarrow> sys_step penv (r, w) (r', w')"
| sys_leave:
    "no_pending r \<Longrightarrow> leave (cluster_reload penv) ev hid r w = (Inr (), r', w') \<Longrightarrow> sys_step penv (r, w) (r', w')"
| sys_leave_pending:
    "dget (hosts r) hid = Some host \<Longrightarrow> status host = Pending \<Longrightarrow>
     leave (cluster_reload penv) ev hid r w = (res, r', w') \<Longrightarrow> sys_step penv (r, w) (r', w')"
| sys_reap:
    "no_pending r \<Longrightarrow> reap_stale (cluster_reload penv) ev ttl r w = (ids, r', w') \<Longrightarrow>
     ids = map host_id (filter (\<lambda>h. role h \<noteq> Mother \<and> status h = Online
             \<and> now ev - last_heartbeat h > ttl) (list_hosts r)) \<Longrightarrow> sys_step penv (r, w) (r', w')"
| sys_reap_pending:
    "reap_stale_pending (cluster_reload penv) ev ttl r w = (ids, r', w') \<Longrightarrow> sys_step penv (r, w) (r', w')"
| sys_heartbeat:
    "reports_registered hid body r \<Longrightarrow>
     (\<And>h. dget (hosts r) hid = Some h \<Longrightarrow> truthy_str (hb_shard_manager_url body) \<Longrightarrow>
        rstrip_slash (the (hb_shard_manager_url body)) = base_url h) \<Longrightarrow>
     apply_heartbeat_manifest ev hid body r = (res, r') \<Longrightarrow> sys_step penv (r, w) (r', w)"
| sys_refresh:
    "(\<And>h. h \<in> set (list_hosts r) \<Longrightarrow> status h = Online \<Longrightarrow> probe_registered probe h) \<Longrightarrow>
     refresh_live_status probe ev r = (man, r') \<Longrightarrow> sys_step penv (r, w) (r', w)"
| sys_ens: "set_ens_name ev hid name r = (res, r') \<Longrightarrow> sys_step penv (r, w) (r', w)"
| sys_peers: "sys_step penv (r, w) (set_bootstrap_peers ps r, w)"

definition sys_ok :: "swarm_registry \<times> 'l cluster \<Rightarrow> bool" where
  "sys_ok s \<longleftrightarrow> reg_cover (fst s) \<and> distinct_urls (fst s) \<and> managers_agree (fst s) (snd s)"

lemma join_distinct_agree:
  assumes du: "distinct_urls r" and ag: "managers_agree r w" and fresh: "dget (hosts r) (join_host_id ev) = None"
    and url: "\<And>k h. dget (hosts r) k = Some h \<Longrightarrow> base_url h \<noteq> rstrip_slash url"
    and j: "registry_join ev n ip url account r = (res, r')"
  shows "distinct_urls r' \<and> managers_agree r' w"
proof (cases res)
  case (Inl e)
  then have "r' = r" using j registry_join_error by blast
  with du ag show ?thesis by simp
next
  case (Inr resp)
  obtain wallet donor s e where r': "r' = persist ev (r\<lparr>hosts := dset (join_host_id ev)
      (join_record ev r donor (s, e) n ip url wallet) (hosts r)\<rparr>)"
    using registry_join_ok [OF j [unfolded Inr]] by blast
  let ?rec = "join_record ev r donor (s, e) n ip url wallet"
  have rec: "base_url ?rec = rstrip_slash url" "status ?rec = Pending" by (simp_all add: join_record_def Let_def)
  have cases: "(k = join_host_id ev \<and> h = ?rec) \<or> (k \<noteq> join_host_id ev \<and> dget (hosts r) k = Some h)"
    if "dget (hosts r') k = Some h" for k h
    using that r' by (auto simp: dget_dset split: if_splits)
  have "base_url h \<noteq> base_url h'"
    if "dget (hosts r') k = Some h" "dget (hosts r') k' = Some h'" "k \<noteq> k'" for k h k' h'
    using cases [OF that(1)] cases [OF that(2)] that(3) url rec(1) distinct_urlsD [OF du, of k h k' h'] by metis
  moreover have "cluster_served w (base_url h) = Some (block_indices h)"
    if "dget (hosts r') k = Some h" "status h = Online" for k h
    using cases [OF that(1)] that(2) rec(2) ag by (auto simp: managers_agree_def)
  ultimately show ?thesis unfolding distinct_urls_def managers_agree_def by blast
qed

text \<open>Changes that leave every online host its address and its range.\<close>

definition same_ranges :: "swarm_registry \<Rightarrow> swarm_registry \<Rightarrow> bool" where
  "same_ranges r r' \<longleftrightarrow> (\<forall>k x. dget (hosts r') k = Some x \<longrightarrow> (\<exists>y. dget (hosts r) k = Some y \<and> base_url x = base_url y
     \<and> (status x = Online \<longrightarrow> status y = Online \<and> block_indices x = block_indices y)))"

lemma same_ranges_refl [simp]: "same_ranges r r"
  by (simp add: same_ranges_def)

lemma same_ranges_trans [trans]: "same_ranges r r1 \<Longrightarrow> same_ranges r1 r2 \<Longrightarrow> same_ranges r r2"
  unfolding same_ranges_def by metis

lemma same_ranges_hosts: "hosts r1 = hosts r2 \<Longrightarrow> same_ranges r r1 = same_ranges r r2"
  by (simp add: same_ranges_def)

lemma same_ranges_modify:
  assumes "\<And>h. dget (hosts r) k = Some h \<Longrightarrow> base_url (f h) = base_url h
      \<and> (status (f h) = Online \<longrightarrow> status h = Online \<and> block_indices (f h) = block_indices h)"
  shows "same_ranges r (modify_host k f r)"
  using assms by (auto simp: same_ranges_def dget_modify_host split: if_splits)

lemma sys_ok_same_ranges:
  assumes ok: "sys_ok (r, w)" and same: "same_ranges r r'" and cov: "reg_cover r'"
  shows "sys_ok (r', w)"
proof -
  have orig: "\<exists>y. dget (hosts r) k = Some y \<and> base_url x = base_url y
      \<and> (status x = Online \<longrightarrow> status y = Online \<and> block_indices x = block_indices y)"
    if "dget (hosts r') k = Some x" for k x
    using same that unfolding same_ranges_def by blast
  have "base_url x \<noteq> base_url x'"
    if "dget (hosts r') k = Some x" "dget (hosts r') k' = Some x'" "k \<noteq> k'" for k x k' x'
  proof -
    have "distinct_urls r" using ok by (simp add: sys_ok_def)
    with orig [OF that(1)] orig [OF that(2)] that(3) show ?thesis by (metis distinct_urlsD)
  qed
  moreover have "cluster_served w (base_url x) = Some (block_indices x)"
    if "dget (hosts r') k = Some x" "status x = Online" for k x
    using orig [OF that(1)] that(2) ok by (auto simp: sys_ok_def managers_agree_def)
  ultimately show ?thesis using cov by (auto simp: sys_ok_def distinct_urls_def managers_agree_def)
qed

lemma same_ranges_extras:
  assumes "\<And>h. dget (hosts r) hid = Some h \<Longrightarrow> truthy_str (hb_shard_manager_url body) \<Longrightarrow>
      rstrip_slash (the (hb_shard_manager_url body)) = base_url h"
  shows "same_ranges r (heartbeat_extras hid body r)"
proof -
  have url: "same_ranges r (modify_host hid
      (\<lambda>h. h\<lparr>shard_manager_url := rstrip_slash (the (hb_shard_manager_url body))\<rparr>) r)"
    if "truthy_str (hb_shard_manager_url body)"
    using assms that by (intro same_ranges_modify) simp
  have peer: "same_ranges r (modify_host hid (\<lambda>h. h\<lparr>peer_multiaddr := p\<rparr>) r1)" if "same_ranges r r1" for r1 p
    using that by (rule same_ranges_trans) (rule same_ranges_modify, simp)
  have running: "same_ranges r (modify_host hid (\<lambda>h. h\<lparr>petals_running := b\<rparr>) r1)" if "same_ranges r r1" for r1 b
    using that by (rule same_ranges_trans) (rule same_ranges_modify, simp)
  have boot: "same_ranges r (r1\<lparr>bootstrap_peers := ps\<rparr>)" if "same_ranges r r1" for r1 ps
    using that by (simp add: same_ranges_def)
  show ?thesis
    unfolding heartbeat_extras_def Let_def
    by (auto simp del: not_None_eq intro!: url peer running boot)
qed

lemma same_ranges_heartbeat:
  assumes cov: "reg_cover r" and h: "heartbeat ev hid r = (res, r')"
  shows "same_ranges r r'"
proof (cases "dget (hosts r) hid")
  case None
  with h show ?thesis by (simp add: heartbeat_def)
next
  case (Some x)
  then have "status x \<noteq> Offline" using cov by (auto simp: reg_cover_def)
  then show ?thesis
    using h Some by (auto simp: heartbeat_def Let_def intro!: same_ranges_modify)
qed

lemma same_ranges_apply_heartbeat:
  assumes cov: "reg_cover r" and rep: "reports_registered hid body r"
    and url: "\<And>h. dget (hosts r) hid = Some h \<Longrightarrow> truthy_str (hb_shard_manager_url body) \<Longrightarrow>
        rstrip_slash (the (hb_shard_manager_url body)) = base_url h"
    and h: "apply_heartbeat_manifest ev hid body r = (res, r')"
  shows "same_ranges r r'"
proof -
  obtain res1 r1 where hb: "heartbeat ev hid r = (res1, r1)" by fastforce
  have s1: "same_ranges r r1" using same_ranges_heartbeat [OF cov hb] .
  show ?thesis
  proof (cases res1)
    case (Inl e)
    with h hb s1 show ?thesis by (simp add: apply_heartbeat_manifest_def)
  next
    case (Inr host)
    then have "\<not> (truthy_str (hb_block_indices body) \<and> the (hb_block_indices body) \<noteq> block_indices host)"
      using heartbeat_blocks [of ev hid r host r1] hb rep by (auto simp: reports_registered_def)
    then have r': "r' = heartbeat_extras hid body r1"
      using h hb Inr by (auto simp: apply_heartbeat_manifest_def Let_def)
    have "same_ranges r1 (heartbeat_extras hid body r1)"
    proof (rule same_ranges_extras)
      fix x
      assume "dget (hosts r1) hid = Some x" and t: "truthy_str (hb_shard_manager_url body)"
      with s1 obtain y where "dget (hosts r) hid = Some y" "base_url x = base_url y"
        unfolding same_ranges_def by blast
      with url t show "rstrip_slash (the (hb_shard_manager_url body)) = base_url x" by simp
    qed
    with s1 r' show ?thesis using same_ranges_trans by blast
  qed
qed

lemma refresh_loop_registered:
  assumes "\<forall>h \<in> set hs. probe_registered probe h" and "refresh_loop probe hs drift r = (res, r')"
  shows "res = Inr drift \<and> same_ranges r r' \<and> (reg_cover r \<longrightarrow> reg_cover r')"
  using assms
proof (induction hs arbitrary: r)
  case (Cons h hs)
  show ?case
  proof (cases "fetch_shard_status probe (shard_manager_url h)")
    case None
    with Cons show ?thesis by simp
  next
    case (Some st)
    let ?r1 = "modify_host (host_id h) (\<lambda>h. h\<lparr>petals_running := Some (ss_running st)\<rparr>) r"
    have "\<not> (truthy_str (ss_block_indices st) \<and> the (ss_block_indices st) \<noteq> block_indices h)"
      using Cons.prems(1) Some by (auto simp: probe_registered_def)
    with Some Cons.prems(2) have "refresh_loop probe hs drift ?r1 = (res, r')" by auto
    with Cons have *: "res = Inr drift" "same_ranges ?r1 r'" "reg_cover ?r1 \<longrightarrow> reg_cover r'" by auto
    have "same_ranges r ?r1" by (rule same_ranges_modify) simp
    with *(2) have "same_ranges r r'" by (rule same_ranges_trans [rotated])
    moreover have "reg_cover r \<Longrightarrow> reg_cover ?r1" by (rule reg_cover_heartbeat_frame) simp_all
    ultimately show ?thesis using * by blast
  qed
qed simp

lemma refresh_registered:
  assumes cov: "reg_cover r"
    and pr: "\<And>h. h \<in> set (list_hosts r) \<Longrightarrow> status h = Online \<Longrightarrow> probe_registered probe h"
    and r: "refresh_live_status probe ev r = (man, r')"
  shows "same_ranges r r' \<and> reg_cover r'"
proof -
  obtain res r1 where l: "refresh_loop probe (filter (\<lambda>h. status h = Online) (list_hosts r)) [] r = (res, r1)"
    by fastforce
  have "res = Inr [] \<and> same_ranges r r1 \<and> (reg_cover r \<longrightarrow> reg_cover r1)"
    by (rule refresh_loop_registered [OF _ l]) (use pr in auto)
  with cov r l show ?thesis by (simp add: refresh_live_status_def)
qed

text \<open>Departures, one after the other.\<close>

lemma sys_ok_leave:
  assumes ok: "sys_ok (r, w)" and np: "no_pending r" and l: "leave (cluster_reload penv) ev hid r w = (Inr (), r', w')"
  shows "sys_ok (r', w')"
proof -
  from ok have *: "reg_cover r" "distinct_urls r" "cluster.agrees r w" by (simp_all add: sys_ok_def managers_agree_eq)
  show ?thesis
    using cluster.agrees_leave [OF *(1) np *(3,2) l] reg_cover_leave_online [OF *(1) np l]
      urls_from_distinct [OF *(2) urls_from_leave [OF l]]
    by (simp add: sys_ok_def managers_agree_eq)
qed

lemma sys_ok_leave_pending:
  assumes ok: "sys_ok (r, w)" and p: "dget (hosts r) hid = Some host" "status host = Pending"
    and l: "leave (cluster_reload penv) ev hid r w = (res, r', w')"
  shows "sys_ok (r', w')" "w' = w" "hosts r' = ddel hid (hosts r) \<or> hosts r' = hosts r"
proof -
  have cov: "reg_cover r" using ok by (simp add: sys_ok_def)
  note lp = reg_cover_leave_pending [OF cov p l]
  have "same_ranges r r'" using lp(3) by (auto simp: same_ranges_def dget_ddel split: if_splits)
  with ok lp show "sys_ok (r', w')" "w' = w" "hosts r' = ddel hid (hosts r) \<or> hosts r' = hosts r"
    using sys_ok_same_ranges by blast+
qed

lemma sys_ok_leave_all:
  "sys_ok (r, w) \<Longrightarrow> no_pending r \<Longrightarrow> leave_all (cluster_reload penv) ev hids r w = (hids, r', w') \<Longrightarrow> sys_ok (r', w')"
proof (induction hids arbitrary: r w)
  case Nil
  then show ?case by simp
next
  case (Cons hid hids)
  obtain res1 r1 w1 where l: "leave (cluster_reload penv) ev hid r w = (res1, r1, w1)" by (rule prod_cases3)
  obtain ids2 r2 w2 where la: "leave_all (cluster_reload penv) ev hids r1 w1 = (ids2, r2, w2)" by (rule prod_cases3)
  have "length ids2 \<le> length hids" using la by (rule leave_all_length)
  then have res: "res1 = Inr ()" and ids: "ids2 = hids" and eq: "r2 = r'" "w2 = w'"
    using Cons.prems(3) l la by (auto split: sum.splits)
  have l': "leave (cluster_reload penv) ev hid r w = (Inr (), r1, w1)" using l res by simp
  have "reg_wf r" using Cons.prems(1) by (simp add: sys_ok_def reg_cover_def)
  from Cons.IH [OF sys_ok_leave [OF Cons.prems(1,2) l'] leave_no_pending [OF this Cons.prems(2) l']] la ids eq
  show ?case by simp
qed

lemma sys_ok_leave_all_pending:
  "sys_ok (r, w) \<Longrightarrow> \<forall>hid \<in> set hids. \<forall>h. dget (hosts r) hid = Some h \<longrightarrow> status h = Pending \<Longrightarrow>
   leave_all (cluster_reload penv) ev hids r w = (ids, r', w') \<Longrightarrow> sys_ok (r', w')"
proof (induction hids arbitrary: r w ids r' w')
  case Nil
  then show ?case by simp
next
  case (Cons hid hids)
  obtain res1 r1 w1 where l: "leave (cluster_reload penv) ev hid r w = (res1, r1, w1)" by (rule prod_cases3)
  obtain ids2 r2 w2 where la: "leave_all (cluster_reload penv) ev hids r1 w1 = (ids2, r2, w2)" by (rule prod_cases3)
  have step: "sys_ok (r1, w1) \<and> (hosts r1 = ddel hid (hosts r) \<or> hosts r1 = hosts r)"
  proof (cases "dget (hosts r) hid")
    case None
    then show ?thesis using l Cons.prems(1) by (simp add: leave_def)
  next
    case (Some host)
    then have "status host = Pending" using Cons.prems(2) by simp
    then show ?thesis using sys_ok_leave_pending [OF Cons.prems(1) Some _ l] by simp
  qed
  then have "\<forall>k \<in> set hids. \<forall>h. dget (hosts r1) k = Some h \<longrightarrow> status h = Pending"
    using Cons.prems(2) by (auto simp: dget_ddel split: if_splits)
  with step have "sys_ok (r2, w2)" using Cons.IH [OF _ _ la] by blast
  with Cons.prems(3) l la show ?case by simp
qed

lemma sys_ok_persist: "sys_ok (persist ev r, w) = sys_ok (r, w)"
  by (simp add: sys_ok_def distinct_urls_def managers_agree_def)

lemma sys_ok_reap:
  assumes ok: "sys_ok (r, w)" and np: "no_pending r" and rp: "reap_stale (cluster_reload penv) ev ttl r w = (ids, r', w')"
    and all: "ids = map host_id (filter (\<lambda>h. role h \<noteq> Mother \<and> status h = Online
             \<and> now ev - last_heartbeat h > ttl) (list_hosts r))"
  shows "sys_ok (r', w')"
proof -
  obtain ids2 r2 w2 where la: "leave_all (cluster_reload penv) ev ids r w = (ids2, r2, w2)" by (rule prod_cases3)
  then have *: "ids2 = ids" "w2 = w'" "r' = r2 \<or> r' = persist ev r2"
    using rp by (auto simp: reap_stale_def Let_def all split: if_splits)
  with la have "leave_all (cluster_reload penv) ev ids r w = (ids, r2, w')" by simp
  from sys_ok_leave_all [OF ok np this] *(3) show ?thesis by (auto simp: sys_ok_persist)
qed

lemma sys_ok_reap_pending:
  assumes ok: "sys_ok (r, w)" and rp: "reap_stale_pending (cluster_reload penv) ev ttl r w = (ids, r', w')"
  shows "sys_ok (r', w')"
proof -
  let ?stale = "map host_id (filter (\<lambda>h. role h \<noteq> Mother \<and> status h = Pending
                              \<and> now ev - joined_at h > ttl) (list_hosts r))"
  obtain ids2 r2 w2 where la: "leave_all (cluster_reload penv) ev ?stale r w = (ids2, r2, w2)" by (rule prod_cases3)
  have wf: "hosts_wf (hosts r)" using ok by (simp add: sys_ok_def reg_cover_def reg_wf_def)
  have "\<forall>k \<in> set ?stale. \<forall>h. dget (hosts r) k = Some h \<longrightarrow> status h = Pending"
    using hosts_wf_values [OF wf] by (auto simp: list_hosts_def)
  from sys_ok_leave_all_pending [OF ok this la] have "sys_ok (r2, w2)" .
  then show ?thesis using rp la by (auto simp: reap_stale_pending_def Let_def sys_ok_persist split: if_splits)
qed

lemma sys_step_ok: "sys_step penv s s' \<Longrightarrow> sys_ok s \<Longrightarrow> sys_ok s'"
proof (induction rule: sys_step.induct)
  case (sys_join r ev url n ip account res r' w)
  then have "reg_cover r'" using reg_cover_join [OF _ sys_join(1) sys_join(3)] by (simp add: sys_ok_def)
  moreover have "distinct_urls r' \<and> managers_agree r' w"
    by (rule join_distinct_agree [OF _ _ sys_join(1) _ sys_join(3)]) (use sys_join in \<open>auto simp: sys_ok_def\<close>)
  ultimately show ?case by (simp add: sys_ok_def)
next
  case (sys_manager r base w' w)
  then show ?case by (fastforce simp: sys_ok_def managers_agree_def)
next
  case (sys_same w' w r)
  then show ?case by (simp add: sys_ok_def managers_agree_def)
next
  case (sys_ready r hid w ev peer host r' w')
  then have *: "reg_cover r" "distinct_urls r" "cluster.agrees r w" by (simp_all add: sys_ok_def managers_agree_eq)
  have "cluster.agrees r' w'"
    by (rule cluster.agrees_mark_ready [OF *(1,3,2) _ sys_ready(2)]) (rule sys_ready(1))
  with * show ?case
    using reg_cover_mark_ready [OF *(1) sys_ready(2)] urls_from_distinct [OF *(2) urls_from_mark_ready [OF sys_ready(2)]]
    by (simp add: sys_ok_def managers_agree_eq)
next
  case (sys_leave r ev hid w r' w')
  then show ?case using sys_ok_leave by blast
next
  case (sys_leave_pending r hid host ev w res r' w')
  then show ?case using sys_ok_leave_pending(1) by blast
next
  case (sys_reap r ev ttl w ids r' w')
  then show ?case using sys_ok_reap by blast
next
  case (sys_reap_pending ev ttl r w ids r' w')
  then show ?case using sys_ok_reap_pending by blast
next
  case (sys_heartbeat hid body r ev res r' w)
  then have cov: "reg_cover r" by (simp add: sys_ok_def)
  show ?case
    by (rule sys_ok_same_ranges [OF sys_heartbeat.prems same_ranges_apply_heartbeat [OF cov sys_heartbeat(1) _ sys_heartbeat(3)]
        reg_cover_apply_heartbeat [OF cov sys_heartbeat(1,3)]]) (rule sys_heartbeat(2))
next
  case (sys_refresh r probe ev man r' w)
  then have cov: "reg_cover r" by (simp add: sys_ok_def)
  have "same_ranges r r' \<and> reg_cover r'" by (rule refresh_registered [OF cov _ sys_refresh(2)]) (rule sys_refresh(1))
  then show ?case using sys_ok_same_ranges [OF sys_refresh.prems] by blast
next
  case (sys_ens ev hid name r res r' w)
  have "same_ranges r (modify_host hid (\<lambda>h. h\<lparr>ens_name := Some name\<rparr>) r)"
    by (rule same_ranges_modify) simp
  then have "same_ranges r r'"
    using sys_ens(1) by (auto simp: set_ens_name_def same_ranges_def split: option.splits)
  moreover have "reg_cover r'" using sys_ens reg_cover_set_ens by (auto simp: sys_ok_def)
  ultimately show ?case using sys_ok_same_ranges [OF sys_ens.prems] by blast
next
  case (sys_peers r w ps)
  then show ?case by (simp add: sys_ok_def set_bootstrap_peers_def distinct_urls_def managers_agree_def)
qed

text \<open>What leaves the served range of a manager alone, and what an online host's manager reports.\<close>

lemma with_runner_manager: "manager (snd (with_runner load polls log_path a act)) = manager a"
proof -
  obtain res a1 where g: "get_local_runner log_path a = (res, a1)" by fastforce
  have "manager a1 = manager a" using g prewarm_manager [of log_path a] by (simp add: prewarm_local_runner_def)
  then show ?thesis using g by (auto simp: with_runner_def split: sum.splits prod.splits)
qed

lemma routes_keep_serving:
  "serving (manager (snd (route_status a))) = serving (manager a)"
  "serving (manager (snd (route_chain_prefix load polls log_path ids a))) = serving (manager a)"
  "serving (manager (snd (route_chain_continue itemsize load polls log_path body a))) = serving (manager a)"
  "serving (manager (prewarm_local_runner log_path a)) = serving (manager a)"
  "proc_running (manager a) \<Longrightarrow> serving (manager (snd (route_start env os b a))) = serving (manager a)"
proof -
  show st: "serving (manager (snd (route_status a))) = serving (manager a)"
    using sm_status_same by (auto simp: route_status_def split: prod.splits)
  obtain st0 a0 where s0: "route_status a = (st0, a0)" by fastforce
  with st show "serving (manager (snd (route_chain_prefix load polls log_path ids a))) = serving (manager a)"
    "serving (manager (snd (route_chain_continue itemsize load polls log_path body a))) = serving (manager a)"
    by (simp_all add: route_chain_prefix_def route_chain_continue_def with_runner_manager case_prod_unfold)
  show "serving (manager (prewarm_local_runner log_path a)) = serving (manager a)" by (simp add: prewarm_manager)
  show "serving (manager (snd (route_start env os b a))) = serving (manager a)" if "proc_running (manager a)"
    using that by (auto simp: route_start_def sm_start_def serving_def proc_running_def Let_def split: option.splits)
qed

lemma reload_same_range:
  assumes "cluster_served w base = Some blocks"
    and "cluster_reload env w (base @ ''/reload'') (blocks, peers) = (w', True)"
  shows "cluster_served w' other = cluster_served w other"
  using assms cluster.reload_ok [OF assms(2)] cluster.reload_other [OF assms(2)] by (cases "other = base") auto

lemma online_manager_reports_registered:
  assumes "sys_ok (r, w)" and "dget (hosts r) hid = Some h" and "status h = Online"
    and "dget (cl_apps w) (base_url h) = Some a" and "serving (manager a) = Some (sm_block_indices (manager a))"
    and "hb_block_indices (fst (heartbeat_report env log_content (manager a))) = hb_block_indices body"
  shows "reports_registered hid body r"
proof -
  have "cluster_served w (base_url h) = Some (block_indices h)"
    using assms(1-3) by (auto simp: sys_ok_def managers_agree_def)
  then have "sm_block_indices (manager a) = block_indices h" using assms(4,5) by (simp add: cluster_served_def)
  then show ?thesis
    using assms(2,6) sm_status_same
    by (auto simp: reports_registered_def heartbeat_report_def Let_def split: prod.splits if_splits)
qed

lemma sys_steps_ok: "(sys_step penv)\<^sup>*\<^sup>* s s' \<Longrightarrow> sys_ok s \<Longrightarrow> sys_ok s'"
  by (induction rule: rtranclp_induct) (auto dest: sys_step_ok)

lemma init_one_host:
  assumes "init_registry ev NoFile model n url account = Inr r" "dget (hosts r) k = Some h"
  shows "k = ''mother'' \<and> base_url h = rstrip_slash url \<and> block_indices h = format_range 0 n"
  using assms by (auto simp: init_registry_def swarm_registry_init_def Let_def rbind_Inr_iff split: if_splits)


text \<open>A run over four layers: the mother's manager serves all, a contributor takes the upper half.\<close>

definition sx_env :: "string \<Rightarrow> environ" where
  "sx_env blocks = [''PETALS_PORT'' \<mapsto> ''7'', ''BLOCK_INDICES'' \<mapsto> blocks, ''MOTHER_URL'' \<mapsto> ''http://gw.io'']"

definition sx_app :: "string \<Rightarrow> int \<Rightarrow> (tensor, rat list) shard_app" where
  "sx_app blocks pid = (case shard_manager_init (sx_env blocks) ''/root'' of
     Inr m \<Rightarrow> on_startup (sx_env blocks) (ex_os pid) quiet \<lparr>manager = m, cached_runner = None, cached_chain = None\<rparr>
   | Inl _ \<Rightarrow> undefined)"

definition sx_world :: "rat list cluster" where
  "sx_world = \<lparr>cl_apps = [(''http://m.io'', sx_app ''0:4'' 1)], cl_os = [(ex_os 3, None)]\<rparr>"

definition sx_world1 :: "rat list cluster" where
  "sx_world1 = sx_world\<lparr>cl_apps := dset ''http://c.io'' (sx_app ''2:4'' 2) (cl_apps sx_world)\<rparr>"

definition sx_start :: swarm_registry where
  "sx_start = (case init_registry (ex_env 0 []) NoFile ''m'' 4 ''http://m.io/'' None of Inr r \<Rightarrow> r | Inl _ \<Rightarrow> undefined)"

definition sx_joined :: swarm_registry where
  "sx_joined = snd (registry_join (ex_env 1 ''aaaa'') 2 ''ip'' ''http://c.io'' ''0.0.7'' sx_start)"

definition sx_handoff :: "host_record result \<times> swarm_registry \<times> rat list cluster" where
  "sx_handoff = mark_ready (cluster_reload (sx_env [])) (ex_env 2 []) ''host-aaaa'' None sx_joined sx_world1"

abbreviation sx_reg :: swarm_registry where
  "sx_reg \<equiv> fst (snd sx_handoff)"

abbreviation sx_final :: "rat list cluster" where
  "sx_final \<equiv> snd (snd sx_handoff)"

lemma sx_start_init: "init_registry (ex_env 0 []) NoFile ''m'' 4 ''http://m.io/'' None = Inr sx_start"
  by code_simp

lemma sx_strings: "format_range 0 4 = ''0:4''" "rstrip_slash ''http://m.io/'' = ''http://m.io''"
  by code_simp+

lemma sx_hosts:
  "map (\<lambda>(k, h). (k, base_url h, status h)) (hosts sx_start) = [(''mother'', ''http://m.io'', Online)]"
  "map (\<lambda>(k, h). (k, base_url h, status h)) (hosts sx_joined)
     = [(''mother'', ''http://m.io'', Online), (''host-aaaa'', ''http://c.io'', Pending)]"
  by code_simp+

lemma sx_served:
  "cluster_served sx_world ''http://m.io'' = Some ''0:4''"
  "cluster_served sx_world1 other = (if other = ''http://c.io'' then Some ''2:4'' else cluster_served sx_world other)"
proof -
  have "serving (manager (sx_app ''2:4'' 2)) = Some ''2:4''" unfolding serving_def by code_simp
  then show "cluster_served sx_world1 other = (if other = ''http://c.io'' then Some ''2:4'' else cluster_served sx_world other)"
    by (simp add: cluster_served_def sx_world1_def dget_dset)
  have "serving (manager (sx_app ''0:4'' 1)) = Some ''0:4''" unfolding serving_def by code_simp
  then show "cluster_served sx_world ''http://m.io'' = Some ''0:4''" by (simp add: cluster_served_def sx_world_def)
qed

lemma sx_handoff_ok: "\<exists>h. sx_handoff = (Inr h, sx_reg, sx_final)"
proof -
  have "(case fst sx_handoff of Inr _ \<Rightarrow> True | Inl _ \<Rightarrow> False)" by code_simp
  then show ?thesis by (cases "fst sx_handoff") (auto simp: prod_eq_iff)
qed

lemma dict_entry: "dget d k = Some h \<Longrightarrow> (k, f h, g h) \<in> set (map (\<lambda>(k, h). (k, f h, g h)) d)"
  by (force dest: map_of_SomeD)

lemma sx_steps: "(sys_step (sx_env []))\<^sup>*\<^sup>* (sx_start, sx_world) (sx_reg, sx_final)"
proof -
  have 1: "sys_step (sx_env []) (sx_start, sx_world) (sx_joined, sx_world)"
    unfolding sx_joined_def
  proof (rule sys_join [OF _ _ surjective_pairing])
    show "dget (hosts sx_start) (join_host_id (ex_env 1 ''aaaa'')) = None" by code_simp
    fix k h
    assume "dget (hosts sx_start) k = Some h"
    from dict_entry [OF this, of base_url status] have "base_url h = ''http://m.io''" by (auto simp: sx_hosts)
    then show "base_url h \<noteq> rstrip_slash ''http://c.io''" by (simp add: py_rstrip_by_def)
  qed
  have 2: "sys_step (sx_env []) (sx_joined, sx_world) (sx_joined, sx_world1)"
  proof (rule sys_manager)
    show "cluster_served sx_world1 other = cluster_served sx_world other" if "other \<noteq> ''http://c.io''" for other
      using that by (simp add: sx_served)
    fix k h
    assume "dget (hosts sx_joined) k = Some h" "status h = Online"
    from dict_entry [OF this(1), of base_url status] this(2) show "base_url h \<noteq> ''http://c.io''" by (auto simp: sx_hosts)
  qed
  have 3: "sys_step (sx_env []) (sx_joined, sx_world1) (sx_reg, sx_final)"
  proof -
    obtain h where h: "mark_ready (cluster_reload (sx_env [])) (ex_env 2 []) ''host-aaaa'' None sx_joined sx_world1
        = (Inr h, sx_reg, sx_final)" using sx_handoff_ok unfolding sx_handoff_def by blast
    have "(case dget (hosts sx_joined) ''host-aaaa'' of Some h \<Rightarrow>
        str_or (pending_range h) (block_indices h) = ''2:4'' \<and> base_url h = ''http://c.io'' | None \<Rightarrow> False)" by code_simp
    then show ?thesis by (intro sys_ready [OF _ h]) (auto simp: sx_served split: option.splits)
  qed
  from 1 2 3 show ?thesis by (meson converse_rtranclp_into_rtranclp rtranclp.rtrancl_refl)
qed

lemma sx_final_hosts:
  "map (\<lambda>(k, h). (k, block_indices h, status h)) (hosts sx_reg)
     = [(''mother'', ''0:2'', Online), (''host-aaaa'', ''2:4'', Online)]"
  "map (\<lambda>(k, h). (k, base_url h, status h)) (hosts sx_reg)
     = [(''mother'', ''http://m.io'', Online), (''host-aaaa'', ''http://c.io'', Online)]"
  by code_simp+


section \<open>From the registry to the chain\<close>

definition manifest_entry :: "string option \<Rightarrow> layer_span \<Rightarrow> manifest_host" where
  "manifest_entry gateway_env s = hd (md_hosts (to_dict gateway_env \<lparr>man_model = [], man_total_layers = 0, man_spans = [s]\<rparr>))"

lemma md_hosts_entries: "md_hosts (to_dict g m) = map (manifest_entry g) (man_spans m)"
  by (simp add: to_dict_def manifest_entry_def Let_def)

lemma md_total [simp]: "md_total_layers (to_dict g m) = Some (man_total_layers m)"
  by (simp add: to_dict_def Let_def)

lemma entry_blocks [simp]: "mh_block_indices (manifest_entry g s) = Some (span_block_indices s)"
  by (simp add: to_dict_def manifest_entry_def Let_def)

lemma entry_span:
  assumes "reg_wf r" and "h \<in> set (list_hosts r)"
  shows "mh_range (manifest_entry g (span_record h)) = Inr (host_span h)"
    "truthy_str (mh_block_indices (manifest_entry g (span_record h)))"
proof -
  have p: "parse_range (block_indices h) = Inr (host_span h)"
    using assms online_host_span [of "hosts r" h] by (simp add: list_hosts_def reg_wf_def)
  then show "mh_range (manifest_entry g (span_record h)) = Inr (host_span h)"
    by (simp add: mh_range_def span_record_def)
  have "block_indices h \<noteq> []" using p parse_range_no_colon [of "[]"] by auto
  then show "truthy_str (mh_block_indices (manifest_entry g (span_record h)))" by (simp add: span_record_def)
qed

text \<open>The manifest of a covered registry is in the order of the chain already.\<close>

lemma cover_chain:
  assumes cov: "reg_cover r" and b: "build_manifest r = Inr m"
  shows "ordered_hosts (to_dict g m) = Inr (md_hosts (to_dict g m))"
    "list_all2 (\<lambda>mh h. mh = manifest_entry g (span_record h) \<and> h \<in> set (list_hosts r) \<and> status h = Online
        \<and> mh_range mh = Inr (host_span h))
      (md_hosts (to_dict g m)) (sort_key (\<lambda>h. fst (host_span h)) (filter (\<lambda>h. status h = Online) (list_hosts r)))"
    "scan_chain 0 (map host_span (sort_key (\<lambda>h. fst (host_span h)) (filter (\<lambda>h. status h = Online) (list_hosts r))))
      = Inr (total_layers r)"
proof -
  let ?on = "filter (\<lambda>h. status h = Online) (list_hosts r)"
  let ?hs = "sort_key (\<lambda>h. fst (host_span h)) ?on"
  have wf: "reg_wf r" using cov by (rule reg_cover_wf)
  have "man_spans m = sort_key span_start (map span_record ?on)" using build_manifest_wf [OF wf] b by auto
  also have "\<dots> = map span_record (sort_key (\<lambda>h. span_start (span_record h)) ?on)" by (rule sort_key_map)
  also have "(\<lambda>h. span_start (span_record h)) = (\<lambda>h. fst (host_span h))" by (auto simp: span_record_def)
  finally have spans: "man_spans m = map span_record ?hs" .
  have md: "md_hosts (to_dict g m) = map (\<lambda>h. manifest_entry g (span_record h)) ?hs"
    by (simp add: md_hosts_entries spans)
  have hs: "h \<in> set ?hs \<longleftrightarrow> h \<in> set (list_hosts r) \<and> status h = Online" for h by auto
  show all: "list_all2 (\<lambda>mh h. mh = manifest_entry g (span_record h) \<and> h \<in> set (list_hosts r) \<and> status h = Online
        \<and> mh_range mh = Inr (host_span h)) (md_hosts (to_dict g m)) ?hs"
    unfolding md list_all2_map1 using hs entry_span(1) [OF wf] by (auto simp: list_all2_same)
  let ?md = "md_hosts (to_dict g m)"
  have truthy: "filter (\<lambda>h. truthy_str (mh_block_indices h)) ?md = ?md"
    unfolding md using hs entry_span(2) [OF wf] by (intro filter_True) auto
  let ?k = "\<lambda>mh. (fst (mh_span mh), mh)"
  have key: "rbind (mh_range mh) (\<lambda>(s, e). Inr (s, mh)) = Inr (?k mh)" if "mh \<in> set ?md" for mh
    using that entry_span(1) [OF wf] unfolding md by (auto simp: mh_span_def case_prod_unfold)
  have srt: "sorted (map fst (map ?k ?md))"
  proof -
    have "map fst (map ?k ?md) = map (\<lambda>h. fst (host_span h)) ?hs"
      unfolding md using hs entry_span(1) [OF wf] by (auto simp: mh_span_def)
    then show ?thesis by simp
  qed
  have keyed: "rmap (\<lambda>h. rbind (mh_range h) (\<lambda>(s, e). Inr (s, h))) ?md = Inr (map ?k ?md)"
    using key by (rule rmap_total)
  have "map snd (map ?k ?md) = ?md" by (simp add: comp_def)
  then show "ordered_hosts (to_dict g m) = Inr ?md"
    unfolding ordered_hosts_def Let_def truthy keyed rbind.simps sort_key_id_if_sorted [OF srt] by (rule arg_cong)
  have ms: "mset (map host_span ?hs) = mset (online_ranges r)" by (simp add: online_ranges_def)
  have "exact_cover (map host_span ?hs) (total_layers r)"
    unfolding covers_mset [OF ms] using cov by (simp add: reg_cover_def)
  moreover have "sorted (map fst (map host_span ?hs))" by (simp add: comp_def)
  ultimately show "scan_chain 0 (map host_span ?hs) = Inr (total_layers r)"
    using covers_scan_chain reg_cover_pos [OF cov] by simp
qed

text \<open>
  A node of the cluster whose manager has not been refused a start, whose runner loads, and whose
  model is the whole model on the range it serves.
\<close>

definition node_ready ::
  "(tensor, 'l) petals_model \<Rightarrow> (string \<Rightarrow> 'l chain_node) \<Rightarrow> 'l cluster \<Rightarrow> string \<Rightarrow> bool" where
  "node_ready pm nodes w base \<longleftrightarrow>
     (\<forall>a. dget (cl_apps w) base = Some a \<longrightarrow> serving (manager a) = Some (sm_block_indices (manager a)) \<and>
        (\<forall>s e. parse_range (sm_block_indices (manager a)) = Inr (s, e) \<longrightarrow>
          (\<exists>r a1 pm' r'. get_local_runner (ch_log (nodes base)) a = (Inr r, a1)
             \<and> ensure_loaded (ch_load (nodes base)) (ch_polls (nodes base)) r = (Inr pm', r') \<and> slice_of pm pm' s e)))"

lemma ready_runs:
  assumes n: "node_ready pm nodes w (fwd (rstrip_slash url))"
    and s: "cluster_served w (fwd (rstrip_slash url)) = Some blocks" and p: "parse_range blocks = Inr q"
  shows "cluster_runs fwd nodes pm w url q"
proof -
  obtain a where a: "dget (cl_apps w) (fwd (rstrip_slash url)) = Some a" "serving (manager a) = Some blocks"
    using s by (auto simp: cluster_served_def split: option.splits)
  have "sm_block_indices (manager a) = blocks" "proc_running (manager a)"
    using n a by (auto simp: node_ready_def serving_def split: if_splits)
  with n a p show ?thesis by (cases q) (fastforce simp: cluster_runs_def node_runs_def node_ready_def)
qed

lemma list_all2_butlast: "list_all2 P (xs @ [x]) (ys @ [y]) \<Longrightarrow> list_all2 P xs ys"
  and list_all2_last: "list_all2 P (xs @ [x]) (ys @ [y]) \<Longrightarrow> P x y"
  by (auto simp: list_all2_conv_all_nth nth_append split: if_splits dest: spec [of _ "length ys"] less_SucI)

text \<open>Where the addresses of the manifest lead: back to the manager of the same host.\<close>

definition addresses_lead ::
  "(string \<Rightarrow> string) \<Rightarrow> environ \<Rightarrow> string option \<Rightarrow> swarm_registry \<Rightarrow> manifest_dict \<Rightarrow> bool" where
  "addresses_lead fwd env g r md \<longleftrightarrow> (\<forall>h \<in> set (list_hosts r). status h = Online \<longrightarrow>
     (\<exists>url. host_http_url env (manifest_entry g (span_record h)) md = Inr url \<and> fwd (rstrip_slash url) = base_url h))"

text \<open>C14. With registry and managers in agreement, every online host ready and reachable under the
  address the manifest gives it, and the request at the host of the last range, one pass along the
  chain of the manifest gives exactly what the whole model gives: the embedding and then all
  layers in order, each once; and it fails exactly when that does.\<close>

theorem chain_pass_is_whole_model:
  assumes cov: "reg_cover r" and ag: "managers_agree r w" and b: "build_manifest r = Inr m"
    and keeps: "keeps_tensors itemsize pm"
    and ready: "\<forall>h \<in> set (list_hosts r). status h = Online \<longrightarrow> node_ready pm nodes w (base_url h)"
    and addr: "addresses_lead fwd env g r (to_dict g m)"
    and tail: "mh_range (last (md_hosts (to_dict g m))) = Inr (lr_block_start lr, lr_block_end lr)"
    and own: "slice_of pm pmt (lr_block_start lr) (lr_block_end lr)"
  shows "ordered_hosts (to_dict g m) = Inr (md_hosts (to_dict g m))
    \<and> (chain_forward (cluster_net fwd nodes itemsize w) env (to_dict g m) pmt lr (butlast (md_hosts (to_dict g m))) ids = Inr h
      \<longleftrightarrow> rbind (runner_embed pm ids) (run_layers pm 0 (total_layers r)) = Inr h)"
proof (rule conjI)
  let ?md = "to_dict g m" and ?net = "cluster_net fwd nodes itemsize w"
  let ?hs = "sort_key (\<lambda>h. fst (host_span h)) (filter (\<lambda>h. status h = Online) (list_hosts r))"
  note cc = cover_chain(1,2) [OF cov b, of g] cover_chain(3) [OF cov b]
  show "ordered_hosts ?md = Inr (md_hosts ?md)" by (rule cc(1))
  have wf: "reg_wf r" using cov by (rule reg_cover_wf)
  have routed: "routed (cluster_runs fwd nodes pm w) env ?md mh (host_span h)"
    if on: "mh = manifest_entry g (span_record h)" "h \<in> set (list_hosts r)" "status h = Online" for mh h
  proof -
    obtain url where url: "host_http_url env mh ?md = Inr url" "fwd (rstrip_slash url) = base_url h"
      using addr on by (auto simp: addresses_lead_def)
    have "dget (hosts r) (host_id h) = Some h" using on(2) wf hosts_wf_values by (simp add: list_hosts_def reg_wf_def)
    then have s: "cluster_served w (base_url h) = Some (block_indices h)" using ag on(3) by (auto simp: managers_agree_def)
    have p: "parse_range (block_indices h) = Inr (host_span h)"
      using online_host_span [of "hosts r" h] wf on(2) by (simp add: list_hosts_def reg_wf_def)
    have "cluster_runs fwd nodes pm w url (host_span h)"
      using ready on(2,3) url(2) s by (intro ready_runs [OF _ _ p]) auto
    with url(1) show ?thesis by (auto simp: routed_def)
  qed
  have all: "list_all2 (\<lambda>mh h. routed (cluster_runs fwd nodes pm w) env ?md mh (host_span h)) (md_hosts ?md) ?hs"
    by (rule list_all2_mono [OF cc(2)]) (use routed in auto)
  have ne: "?hs \<noteq> []"
  proof
    assume "?hs = []"
    then show False using cc(3) reg_cover_pos [OF cov] by simp
  qed
  obtain hs h1 where hs: "?hs = hs @ [h1]" using ne by (metis rev_exhaust)
  have "length (md_hosts ?md) = length ?hs" using cc(2) by (rule list_all2_lengthD)
  then have "md_hosts ?md \<noteq> []" using ne by (simp only: flip: length_0_conv) simp
  then obtain mds md1 where mds: "md_hosts ?md = mds @ [md1]" by (metis rev_exhaust)
  have "list_all2 (\<lambda>mh h. routed (cluster_runs fwd nodes pm w) env ?md mh (host_span h)) mds hs"
    using all unfolding hs mds by (rule list_all2_butlast)
  then have up: "list_all2 (routed (cluster_runs fwd nodes pm w) env ?md) (butlast (md_hosts ?md)) (map host_span hs)"
    unfolding mds butlast_snoc list_all2_map2 .
  have "mh_range md1 = Inr (host_span h1)" using list_all2_last [OF cc(2) [unfolded hs mds]] by blast
  then have last: "host_span h1 = (lr_block_start lr, lr_block_end lr)" using tail mds by simp
  have scan: "scan_chain 0 (map host_span hs @ [(lr_block_start lr, lr_block_end lr)]) = Inr (total_layers r)"
    using cc(3) unfolding hs using last by simp
  have "set (map host_span hs @ [(lr_block_start lr, lr_block_end lr)]) = set (map host_span ?hs)"
    unfolding hs using last by simp
  also have "\<dots> = set (online_ranges r)" by (simp add: online_ranges_def)
  finally have pos: "\<forall>(s, e) \<in> set (map host_span hs @ [(lr_block_start lr, lr_block_end lr)]). s < e"
    using covers_nonempty cov by (fastforce simp: reg_cover_def)
  show "chain_forward ?net env ?md pmt lr (butlast (md_hosts ?md)) ids = Inr h
      \<longleftrightarrow> rbind (runner_embed pm ids) (run_layers pm 0 (total_layers r)) = Inr h"
    by (rule chain.chain_is_model [OF _ up scan pos refl refl own]) (simp add: keeps cluster_net_def)
qed

lemma fresh_ready:
  assumes "dget (cl_apps w) base = Some a" and "cached_runner a = None"
    and "serving (manager a) = Some (sm_block_indices (manager a))"
    and "ch_polls (nodes base) = [content]" "peer_from_log content (sm_port (manager a)) \<noteq> None"
    and "ch_load (nodes base) = (\<lambda>_. Inr pm)" and "runner_layers pm = Inr f"
  shows "node_ready pm nodes w base"
  using assms
  by (auto simp: node_ready_def get_local_runner_def local_runner_init_def ensure_loaded_def slice_of_def)

definition sx_node :: "rat list chain_node" where
  "sx_node = \<lparr>ch_load = (\<lambda>_. Inr ex_model),
     ch_polls = [Some (''Running a server on ['' @ [CHR 0x27] @ ''/ip4/1/p2p/Qm'' @ [CHR 0x27] @ '']'')], ch_log = ''log''\<rparr>"

definition sx_fwd :: "string \<Rightarrow> string" where
  "sx_fwd url = (if url = ''http://gw.io'' then ''http://m.io'' else url)"

definition sx_manifest :: swarm_manifest where
  "sx_manifest = (case build_manifest sx_reg of Inr m \<Rightarrow> m | Inl _ \<Rightarrow> undefined)"

lemma sx_apps:
  "list_all (\<lambda>(k, a). case cached_runner a of None \<Rightarrow> peer_from_log (hd (ch_polls sx_node)) (sm_port (manager a)) \<noteq> None
      | Some _ \<Rightarrow> False) (cl_apps sx_final)"
  "list_all (\<lambda>(k, a). proc_running (manager a) \<and> pr_args (the (sm_proc (manager a))) ! 9 = sm_block_indices (manager a))
     (cl_apps sx_final)"
  by code_simp+

lemma sx_ready: "node_ready ex_model (\<lambda>_. sx_node) sx_final base"
proof (cases "dget (cl_apps sx_final) base")
  case None
  then show ?thesis by (simp add: node_ready_def)
next
  case (Some a)
  then have "(base, a) \<in> set (cl_apps sx_final)" by (rule map_of_SomeD)
  with sx_apps have a: "cached_runner a = None" "peer_from_log (hd (ch_polls sx_node)) (sm_port (manager a)) \<noteq> None"
    "serving (manager a) = Some (sm_block_indices (manager a))"
    by (fastforce simp: list_all_iff serving_def split: option.splits)+
  show ?thesis
    by (rule fresh_ready [where content = "hd (ch_polls sx_node)" and f = "the (pm_layers ex_model)", OF Some a(1,3)])
      (use a(2) in \<open>simp_all add: sx_node_def ex_model_def runner_layers_def\<close>)
qed

lemma ex_model_keeps: "keeps_tensors ex_itemsize ex_model"
  by (auto simp: keeps_tensors_def ex_model_def ex_tensor_of_def ex_itemsize_def runner_layers_def runner_embed_def
      tensor_ok_def split: option.splits if_splits)

lemma chain_pass_is_whole_model_witness:
  "chain_forward (cluster_net sx_fwd (\<lambda>_. sx_node) ex_itemsize sx_final) (sx_env []) (to_dict None sx_manifest) ex_model
     ex_tail (butlast (md_hosts (to_dict None sx_manifest))) [3, 4] = Inr (ex_tensor_of 11)"
proof -
  have ok: "sys_ok (sx_reg, sx_final)"
  proof (rule sys_steps_ok [OF sx_steps])
    have one: "k = ''mother'' \<and> base_url h = ''http://m.io'' \<and> block_indices h = ''0:4''"
      if "dget (hosts sx_start) k = Some h" for k h
      using init_one_host [OF sx_start_init that] dict_entry [OF that, of base_url status]
      by (simp add: sx_strings sx_hosts)
    have "distinct_urls sx_start" unfolding distinct_urls_def using one by metis
    moreover have "managers_agree sx_start sx_world" unfolding managers_agree_def using one sx_served(1) by metis
    ultimately show "sys_ok (sx_start, sx_world)" using init_fresh [OF sx_start_init] by (simp add: sys_ok_def)
  qed
  have b: "build_manifest sx_reg = Inr sx_manifest" by code_simp
  have addr: "addresses_lead sx_fwd (sx_env []) None sx_reg (to_dict None sx_manifest)"
  proof -
    have "list_all (\<lambda>h. case host_http_url (sx_env []) (manifest_entry None (span_record h)) (to_dict None sx_manifest) of
        Inr url \<Rightarrow> sx_fwd (rstrip_slash url) = base_url h | Inl _ \<Rightarrow> False) (list_hosts sx_reg)"
      unfolding manifest_entry_def span_record_def host_span_def by code_simp
    then have "\<exists>url. host_http_url (sx_env []) (manifest_entry None (span_record h)) (to_dict None sx_manifest) = Inr url
        \<and> sx_fwd (rstrip_slash url) = base_url h" if "h \<in> set (list_hosts sx_reg)" for h
      using that unfolding list_all_iff
      by (cases "host_http_url (sx_env []) (manifest_entry None (span_record h)) (to_dict None sx_manifest)") force+
    then show ?thesis unfolding addresses_lead_def by blast
  qed
  have tail: "mh_range (last (md_hosts (to_dict None sx_manifest))) = Inr (lr_block_start ex_tail, lr_block_end ex_tail)"
    by code_simp
  have own: "slice_of ex_model ex_model a b" for a b by (simp add: slice_of_def ex_model_def runner_layers_def)
  have "total_layers sx_reg = 4" by code_simp
  moreover have "rbind (runner_embed ex_model [3, 4]) (run_layers ex_model 0 4) = Inr (ex_tensor_of 11)" by code_simp
  ultimately show ?thesis
    using ok sx_ready chain_pass_is_whole_model [OF _ _ b ex_model_keeps _ addr tail own, of sx_final "\<lambda>_. sx_node" "[3, 4]" "ex_tensor_of 11"]
    by (auto simp: sys_ok_def)
qed

end
