(* ===== verification/EnsClient.thy ===== *)
theory EnsClient
  imports Registry Config
begin

text \<open>
  orchestrator/app/ens\_client.py: the client of the ENS service. The service is the parameter
  \<open>ens_service\<close>: what a POST or GET answers, and the world after it. The client's own state is the
  file of pending operations and the cache of verification verdicts (\<open>ens_state\<close>).
\<close>

section \<open>The service and the state\<close>

record ens_payload =
  ep_ens_name :: "string option"
  ep_host_id :: "string option"
  ep_account :: "string option"
  ep_blocks :: "string option"
  ep_layers :: "int option"
  ep_model :: "string option"
  ep_role :: "role option"
  ep_status :: "host_state option"

record ens_record =
  er_account :: "string option"
  er_blocks :: "string option"
  er_host_id :: "string option"

record ens_body =
  eb_ens_name :: string
  eb_tx_hashes :: "string list"
  eb_retryable :: bool
  eb_record :: "ens_record option"

datatype http_reply = Unreachable | Reply int ens_body

record 'w ens_service =
  es_post :: "string \<Rightarrow> ens_payload \<Rightarrow> 'w \<Rightarrow> http_reply \<times> 'w"
  es_get :: "string \<Rightarrow> string \<Rightarrow> 'w \<Rightarrow> http_reply \<times> 'w"

datatype ens_action = Provision | Update

record pending_op =
  op_action :: ens_action
  op_host_id :: string
  op_ens_name :: "string option"
  op_ts :: int

record ens_state =
  es_pending :: "pending_op list"
  es_cache :: "(string, bool \<times> int) pydict"

definition enqueue_pending :: "int \<Rightarrow> ens_action \<Rightarrow> string \<Rightarrow> string option \<Rightarrow> ens_state \<Rightarrow> ens_state" where
  "enqueue_pending ts act hid name st =
     st\<lparr>es_pending := es_pending st @ [\<lparr>op_action = act, op_host_id = hid, op_ens_name = name, op_ts = ts\<rparr>]\<rparr>"

definition clear_pending_matching :: "string \<Rightarrow> ens_action \<Rightarrow> ens_state \<Rightarrow> ens_state" where
  "clear_pending_matching hid act st =
     st\<lparr>es_pending := filter (\<lambda>p. \<not> (op_host_id p = hid \<and> op_action p = act)) (es_pending st)\<rparr>"

section \<open>Calls\<close>

definition ens_base :: "settings \<Rightarrow> string" where
  "ens_base s = rstrip_slash (ens_service_url s)"

definition ens_post :: "'w ens_service \<Rightarrow> settings \<Rightarrow> string \<Rightarrow> ens_payload \<Rightarrow> 'w \<Rightarrow> ens_body result \<times> 'w" where
  "ens_post S s path p w =
     (case es_post S (ens_base s @ path) p w of
        (Unreachable, w') \<Rightarrow> (Inl (EnsClientError True), w')
      | (Reply code body, w') \<Rightarrow>
          (if code \<ge> 400 then Inl (EnsClientError (eb_retryable body)) else Inr body, w'))"

definition ens_get :: "'w ens_service \<Rightarrow> settings \<Rightarrow> string \<Rightarrow> string \<Rightarrow> 'w \<Rightarrow> ens_body result \<times> 'w" where
  "ens_get S s path name w =
     (case es_get S (ens_base s @ path) name w of
        (Unreachable, w') \<Rightarrow> (Inl (EnsClientError True), w')
      | (Reply code body, w') \<Rightarrow>
          (if code = 404 then Inr body else if code \<ge> 400 then Inl (EnsClientError True) else Inr body, w'))"

definition provision_payload :: "host_record \<Rightarrow> ens_payload" where
  "provision_payload h =
     \<lparr>ep_ens_name = None, ep_host_id = Some (host_id h), ep_account = hedera_account_id h,
      ep_blocks = Some (block_indices h), ep_layers = Some (layers_hosted h), ep_model = Some (host_model h),
      ep_role = Some (role h), ep_status = Some (if status h = Pending then Online else status h)\<rparr>"

definition provision_host ::
  "'w ens_service \<Rightarrow> settings \<Rightarrow> host_record \<Rightarrow> ens_state \<Rightarrow> 'w \<Rightarrow> string result \<times> ens_state \<times> 'w" where
  "provision_host S s h st w =
     (case ens_post S s ''/v1/hosts/provision'' (provision_payload h) w of
        (Inl e, w') \<Rightarrow> (Inl e, st, w')
      | (Inr body, w') \<Rightarrow>
          if eb_ens_name body = [] then (Inl (EnsClientError True), st, w')
          else (Inr (eb_ens_name body), clear_pending_matching (host_id h) Provision st, w'))"

definition update_payload :: "string \<Rightarrow> host_state \<Rightarrow> host_record \<Rightarrow> ens_payload" where
  "update_payload name stat h =
     \<lparr>ep_ens_name = Some name, ep_host_id = Some (host_id h), ep_account = hedera_account_id h,
      ep_blocks = Some (block_indices h), ep_layers = Some (layers_hosted h), ep_model = Some (host_model h),
      ep_role = Some (role h), ep_status = Some stat\<rparr>"

definition update_host ::
  "'w ens_service \<Rightarrow> settings \<Rightarrow> string \<Rightarrow> host_state \<Rightarrow> host_record \<Rightarrow> 'w \<Rightarrow> string list result \<times> 'w" where
  "update_host S s name stat h w =
     (case ens_post S s ''/v1/hosts/update'' (update_payload name stat h) w of
        (Inl e, w') \<Rightarrow> (Inl e, w')
      | (Inr body, w') \<Rightarrow> (Inr (eb_tx_hashes body), w'))"

definition deactivate_host :: "'w ens_service \<Rightarrow> settings \<Rightarrow> string \<Rightarrow> 'w \<Rightarrow> string list result \<times> 'w" where
  "deactivate_host S s name w =
     (case ens_post S s ''/v1/hosts/deactivate''
             \<lparr>ep_ens_name = Some name, ep_host_id = None, ep_account = None, ep_blocks = None, ep_layers = None,
              ep_model = None, ep_role = None, ep_status = None\<rparr> w of
        (Inl e, w') \<Rightarrow> (Inl e, w')
      | (Inr body, w') \<Rightarrow> (Inr (eb_tx_hashes body), w'))"

definition resolve_name :: "'w ens_service \<Rightarrow> settings \<Rightarrow> string \<Rightarrow> 'w \<Rightarrow> ens_record option result \<times> 'w" where
  "resolve_name S s name w =
     (case ens_get S s ''/v1/hosts/resolve'' name w of
        (Inl e, w') \<Rightarrow> (Inl e, w')
      | (Inr body, w') \<Rightarrow> (Inr (eb_record body), w'))"

section \<open>Verification\<close>

definition record_matches :: "host_record \<Rightarrow> ens_record \<Rightarrow> bool" where
  "record_matches h rec \<longleftrightarrow> er_account rec = hedera_account_id h \<and> er_blocks rec = Some (block_indices h)
     \<and> er_host_id rec = Some (host_id h)"

definition verify_host ::
  "'w ens_service \<Rightarrow> settings \<Rightarrow> int \<Rightarrow> host_record \<Rightarrow> ens_state \<Rightarrow> 'w \<Rightarrow> bool result \<times> ens_state \<times> 'w" where
  "verify_host S s t h st w =
     (if \<not> ens_enabled s then (Inr True, st, w)
      else if \<not> truthy_str (ens_name h) then (Inr (\<not> ens_strict s), st, w)
      else case (case dget (es_cache st) (host_id h) of
                   Some (ok, seen) \<Rightarrow> if t - seen < 30 then Some ok else None
                 | None \<Rightarrow> None) of
        Some ok \<Rightarrow> (Inr ok, st, w)
      | None \<Rightarrow>
          (case resolve_name S s (the (ens_name h)) w of
             (Inl e, w') \<Rightarrow> (Inl e, st, w')
           | (Inr rec, w') \<Rightarrow>
               (let ok = (case rec of Some r \<Rightarrow> record_matches h r | None \<Rightarrow> False)
                in (Inr ok, st\<lparr>es_cache := dset (host_id h) (ok, t) (es_cache st)\<rparr>, w'))))"

section \<open>Keeping registry and names in step\<close>

text \<open>\<open>provision_named\<close> is the provisioning of a host with the write of its name to the registry.\<close>

definition provision_named ::
  "'w ens_service \<Rightarrow> settings \<Rightarrow> env \<Rightarrow> host_record \<Rightarrow> swarm_registry \<times> ens_state \<times> 'w
     \<Rightarrow> string result \<times> swarm_registry \<times> ens_state \<times> 'w" where
  "provision_named S s ev h x =
     (case x of (r, st, w) \<Rightarrow>
      case provision_host S s h st w of
        (Inl e, st', w') \<Rightarrow> (Inl e, r, st', w')
      | (Inr name, st', w') \<Rightarrow>
          (case set_ens_name ev (host_id h) name r of
             (Inl e, r') \<Rightarrow> (Inl e, r', st', w')
           | (Inr _, r') \<Rightarrow> (Inr name, r', st', w')))"

definition online_or_offline :: "host_record \<Rightarrow> host_state" where
  "online_or_offline h = (if status h = Online then Online else Offline)"

definition reconcile_host ::
  "'w ens_service \<Rightarrow> settings \<Rightarrow> env \<Rightarrow> host_record \<Rightarrow> swarm_registry \<times> ens_state \<times> 'w
     \<Rightarrow> unit result \<times> swarm_registry \<times> ens_state \<times> 'w" where
  "reconcile_host S s ev h x =
     (case x of (r, st, w) \<Rightarrow>
      if truthy_str (ens_name h)
      then (case verify_host S s (now ev) h st w of
              (Inl e, st', w') \<Rightarrow> (Inl e, r, st', w')
            | (Inr True, st', w') \<Rightarrow> (Inr (), r, st', w')
            | (Inr False, st', w') \<Rightarrow>
                (case update_host S s (the (ens_name h)) (online_or_offline h) h w' of
                   (Inl e, w2) \<Rightarrow> (Inl e, r, st', w2)
                 | (Inr _, w2) \<Rightarrow> (Inr (), r, st', w2)))
      else (case provision_named S s ev h (r, st, w) of
              (Inl e, x') \<Rightarrow> (Inl e, x')
            | (Inr _, x') \<Rightarrow> (Inr (), x')))"

fun is_ens_error :: "py_error \<Rightarrow> bool" where
  "is_ens_error (EnsClientError retryable) = True"
| "is_ens_error e = False"

fun reconcile_loop ::
  "'w ens_service \<Rightarrow> settings \<Rightarrow> env \<Rightarrow> host_record list \<Rightarrow> swarm_registry \<times> ens_state \<times> 'w
     \<Rightarrow> unit result \<times> swarm_registry \<times> ens_state \<times> 'w" where
  "reconcile_loop S s ev [] x = (Inr (), x)"
| "reconcile_loop S s ev (h # hs) x =
     (if \<not> truthy_str (hedera_account_id h) \<or> layers_hosted h \<le> 0 then reconcile_loop S s ev hs x
      else case reconcile_host S s ev h x of
        (Inr _, x') \<Rightarrow> reconcile_loop S s ev hs x'
      | (Inl e, r, st, w) \<Rightarrow>
          if is_ens_error e
          then reconcile_loop S s ev hs
                 (r, enqueue_pending (now ev) (if \<not> truthy_str (ens_name h) then Provision else Update)
                       (host_id h) (ens_name h) st, w)
          else (Inl e, r, st, w))"

definition reconcile_registry ::
  "'w ens_service \<Rightarrow> settings \<Rightarrow> env \<Rightarrow> swarm_registry \<times> ens_state \<times> 'w
     \<Rightarrow> unit result \<times> swarm_registry \<times> ens_state \<times> 'w" where
  "reconcile_registry S s ev x =
     (if \<not> ens_enabled s then (Inr (), x) else reconcile_loop S s ev (list_hosts (fst x)) x)"

text \<open>
  One pending operation again. The callers pass the registry's own host objects, so a host that was
  named by an earlier operation of the replay is looked up in the registry.
\<close>

definition replay_op ::
  "'w ens_service \<Rightarrow> settings \<Rightarrow> env \<Rightarrow> pending_op \<Rightarrow> host_record \<Rightarrow> swarm_registry \<times> ens_state \<times> 'w
     \<Rightarrow> unit result \<times> swarm_registry \<times> ens_state \<times> 'w" where
  "replay_op S s ev op h x =
     (if op_action op = Provision \<or> \<not> truthy_str (ens_name h)
      then (case provision_named S s ev h x of (Inl e, x') \<Rightarrow> (Inl e, x') | (Inr _, x') \<Rightarrow> (Inr (), x'))
      else case x of (r, st, w) \<Rightarrow>
        (case update_host S s (the (ens_name h)) (online_or_offline h) h w of
           (Inl e, w') \<Rightarrow> (Inl e, r, st, w') | (Inr _, w') \<Rightarrow> (Inr (), r, st, w')))"

fun replay_loop ::
  "'w ens_service \<Rightarrow> settings \<Rightarrow> env \<Rightarrow> pending_op list \<Rightarrow> swarm_registry \<times> ens_state \<times> 'w
     \<Rightarrow> unit result \<times> swarm_registry \<times> ens_state \<times> 'w" where
  "replay_loop S s ev [] x = (Inr (), x)"
| "replay_loop S s ev (op # ops) x =
     (case dget (hosts (fst x)) (op_host_id op) of
        None \<Rightarrow> replay_loop S s ev ops x
      | Some h \<Rightarrow>
          (case replay_op S s ev op h x of
             (Inr _, x') \<Rightarrow> replay_loop S s ev ops x'
           | (Inl e, x') \<Rightarrow> if is_ens_error e then replay_loop S s ev ops x' else (Inl e, x')))"

definition replay_pending ::
  "'w ens_service \<Rightarrow> settings \<Rightarrow> env \<Rightarrow> swarm_registry \<times> ens_state \<times> 'w
     \<Rightarrow> unit result \<times> swarm_registry \<times> ens_state \<times> 'w" where
  "replay_pending S s ev x =
     (if \<not> ens_enabled s then (Inr (), x) else replay_loop S s ev (es_pending (fst (snd x))) x)"

definition sync_host_ens_after_ready ::
  "'w ens_service \<Rightarrow> settings \<Rightarrow> env \<Rightarrow> host_record \<Rightarrow> host_record option \<Rightarrow> swarm_registry \<times> ens_state \<times> 'w
     \<Rightarrow> string result \<times> swarm_registry \<times> ens_state \<times> 'w" where
  "sync_host_ens_after_ready S s ev h donor x =
     (if \<not> ens_enabled s then (Inr (str_or (ens_name h) []), x)
      else case provision_named S s ev h x of
        (Inl e, x') \<Rightarrow> (Inl e, x')
      | (Inr name, r, st, w) \<Rightarrow>
          (case donor of
             Some d \<Rightarrow>
               if truthy_str (ens_name d)
               then (case update_host S s (the (ens_name d)) Online d w of
                       (Inl e, w') \<Rightarrow> (Inl e, r, st, w') | (Inr _, w') \<Rightarrow> (Inr name, r, st, w'))
               else (Inr name, r, st, w)
           | None \<Rightarrow> (Inr name, r, st, w)))"

definition sync_mother_ens ::
  "'w ens_service \<Rightarrow> settings \<Rightarrow> env \<Rightarrow> host_record \<Rightarrow> swarm_registry \<times> ens_state \<times> 'w
     \<Rightarrow> string result \<times> swarm_registry \<times> ens_state \<times> 'w" where
  "sync_mother_ens S s ev m x =
     (if \<not> ens_enabled s then (Inr (str_or (ens_name m) []), x) else provision_named S s ev m x)"

definition sync_leave_ens ::
  "'w ens_service \<Rightarrow> settings \<Rightarrow> host_record \<Rightarrow> host_record option \<Rightarrow> 'w \<Rightarrow> unit result \<times> 'w" where
  "sync_leave_ens S s leaver reclaim w =
     (if \<not> ens_enabled s then (Inr (), w)
      else case (if truthy_str (ens_name leaver) then deactivate_host S s (the (ens_name leaver)) w else (Inr [], w)) of
        (Inl e, w') \<Rightarrow> (Inl e, w')
      | (Inr _, w') \<Rightarrow>
          (case reclaim of
             Some h \<Rightarrow>
               if truthy_str (ens_name h)
               then (case update_host S s (the (ens_name h)) Online h w' of
                       (Inl e, w2) \<Rightarrow> (Inl e, w2) | (Inr _, w2) \<Rightarrow> (Inr (), w2))
               else (Inr (), w')
           | None \<Rightarrow> (Inr (), w')))"

end
