(* ===== verification/Payouts.thy ===== *)
theory Payouts
  imports Registry Config
begin

text \<open>
  orchestrator/app/hedera\_payouts.py and hedera\_escrow.py: the redistribution of a request's
  payment to the hosts by layers, through the escrow contract when one is configured and by a
  direct transfer from the mother's account otherwise, and the audit record on the consensus
  service. The Hedera SDK, the mirror node and SHA-256 are the parameters gathered in the record
  \<open>hedera\<close>; they act on a world \<open>'w\<close> and may fail. The service's own state (cached client, topic
  id, topic file, cached escrow service) is the record \<open>pay_state\<close>.
\<close>

section \<open>Data\<close>

record host_payout =
  po_host_id :: string
  po_account :: string
  po_layers :: int
  po_amount :: int
  po_ens_name :: "string option"

record payout_row =
  row_host_id :: string
  row_ens_name :: "string option"
  row_account :: string
  row_layers :: int
  row_amount :: int
  row_evm :: "string option"

record payout_receipt =
  rc_request_id :: string
  rc_x402_tx_id :: "string option"
  rc_payout_tx_id :: "string option"
  rc_hcs_topic_id :: "string option"
  rc_hcs_sequence :: "string option"
  rc_cost_per_layer :: int
  rc_total :: int
  rc_hosts :: "payout_row list"

record hcs_payload =
  hp_request_id :: string
  hp_x402_tx_id :: "string option"
  hp_payout_tx_id :: "string option"
  hp_contract_id :: "string option"
  hp_cost_per_layer :: int
  hp_hosts :: "payout_row list"

record 'k hedera_client =
  cl_mainnet :: bool
  cl_account :: string
  cl_key :: 'k

record escrow_call =
  ec_contract :: string
  ec_request :: string
  ec_addresses :: "string list"
  ec_amounts :: "int list"

section \<open>The outside\<close>

text \<open>
  \<open>sdk_transfer\<close> is the building of the transfer, its execution and the wait for the receipt; the
  world it returns is the ledger after it. \<open>sdk_new_topic\<close> returns the \<open>toString\<close> and the \<open>str\<close> form
  of the new topic's id. \<open>mirror\<close> is the \<open>evm_address\<close> of an account on the mirror node (empty when
  the node has none), \<open>None\<close> for a failed lookup.
\<close>

record ('w, 'k) hedera =
  sdk_ecdsa :: "string \<Rightarrow> 'k option"
  sdk_key :: "string \<Rightarrow> 'k option"
  sdk_account_ok :: "string \<Rightarrow> bool"
  sdk_transfer :: "'k hedera_client \<Rightarrow> (string \<times> int) list \<Rightarrow> 'w \<Rightarrow> string result \<times> 'w"
  sdk_new_topic :: "'k hedera_client \<Rightarrow> string \<Rightarrow> 'w \<Rightarrow> (string \<times> string) result \<times> 'w"
  sdk_submit :: "'k hedera_client \<Rightarrow> string \<Rightarrow> hcs_payload \<Rightarrow> 'w \<Rightarrow> string result \<times> 'w"
  sdk_contract :: "'k hedera_client \<Rightarrow> escrow_call \<Rightarrow> 'w \<Rightarrow> string result \<times> 'w"
  sdk_long_zero :: "string \<Rightarrow> string"
  mirror :: "bool \<Rightarrow> string \<Rightarrow> string option"
  sha256 :: "string \<Rightarrow> string"

record 'k pay_state =
  ps_client :: "'k hedera_client option"
  ps_topic :: "string option"
  ps_topic_file :: "string option"
  ps_file_writable :: bool
  ps_escrow :: "settings option"

section \<open>Topic ids and the client\<close>

definition is_valid_topic_id :: "string option \<Rightarrow> bool" where
  "is_valid_topic_id topic =
     (case topic of
        None \<Rightarrow> False
      | Some t \<Rightarrow>
          (case py_split CHR ''.'' (py_strip t) of
             [a, b, c] \<Rightarrow> a = ''0'' \<and> b = ''0'' \<and> py_isdigit c
           | _ \<Rightarrow> False))"

definition payouts_enabled :: "settings \<Rightarrow> bool" where
  "payouts_enabled s \<longleftrightarrow> x402_enabled s \<and> truthy_str (mother_account_id s)
     \<and> truthy_str (mother_private_key s) \<and> cost_per_layer_tinybars s > 0"

definition strip_0x :: "string \<Rightarrow> string" where
  "strip_0x key = (if startswith key ''0x'' then drop 2 key else key)"

definition ensure_client ::
  "('w, 'k) hedera \<Rightarrow> settings \<Rightarrow> 'k pay_state \<Rightarrow> 'k hedera_client result \<times> 'k pay_state" where
  "ensure_client H s ps =
     (case ps_client ps of
        Some c \<Rightarrow> (Inr c, ps)
      | None \<Rightarrow>
          (let network = py_lower (if hedera_network s = [] then ''hedera-testnet'' else hedera_network s);
               key_raw = strip_0x (str_or (mother_private_key s) []);
               account = str_or (mother_account_id s) []
           in case (case sdk_ecdsa H key_raw of Some k \<Rightarrow> Some k | None \<Rightarrow> sdk_key H key_raw) of
                None \<Rightarrow> (Inl ValueError, ps)
              | Some k \<Rightarrow>
                  if \<not> sdk_account_ok H account then (Inl ValueError, ps)
                  else (let c = \<lparr>cl_mainnet = contains_str ''mainnet'' network, cl_account = account, cl_key = k\<rparr>
                        in (Inr c, ps\<lparr>ps_client := Some c\<rparr>))))"

definition persist_topic_id :: "string \<Rightarrow> 'k pay_state \<Rightarrow> 'k pay_state" where
  "persist_topic_id t ps =
     (let ps' = ps\<lparr>ps_topic := Some t\<rparr>
      in if ps_file_writable ps then ps'\<lparr>ps_topic_file := Some (t @ [CHR 0x0A])\<rparr> else ps')"

definition create_topic ::
  "('w, 'k) hedera \<Rightarrow> settings \<Rightarrow> 'k pay_state \<Rightarrow> 'w \<Rightarrow> string option \<times> 'k pay_state \<times> 'w" where
  "create_topic H s ps w =
     (case ensure_client H s ps of
        (Inl _, ps1) \<Rightarrow> (None, ps1, w)
      | (Inr c, ps1) \<Rightarrow>
          (case sdk_new_topic H c ''blitzwing-payouts'' w of
             (Inl _, w1) \<Rightarrow> (None, ps1, w1)
           | (Inr (shown, raw), w1) \<Rightarrow>
               (let t = (if is_valid_topic_id (Some shown) then shown else raw)
                in (Some t, persist_topic_id t ps1, w1))))"

definition ensure_hcs_topic ::
  "('w, 'k) hedera \<Rightarrow> settings \<Rightarrow> 'k pay_state \<Rightarrow> 'w \<Rightarrow> string option \<times> 'k pay_state \<times> 'w" where
  "ensure_hcs_topic H s ps w =
     (if \<not> payouts_enabled s then (None, ps, w)
      else if truthy_str (ps_topic ps) \<and> is_valid_topic_id (ps_topic ps) then (ps_topic ps, ps, w)
      else case map_option py_strip (ps_topic_file ps) of
             Some tid \<Rightarrow>
               if tid \<noteq> [] \<and> is_valid_topic_id (Some tid)
               then (Some tid, ps\<lparr>ps_topic := Some tid\<rparr>, w)
               else create_topic H s ps w
           | None \<Rightarrow> create_topic H s ps w)"

section \<open>Planning\<close>

fun ens_failures :: "settings \<Rightarrow> (host_record \<Rightarrow> bool result) \<Rightarrow> host_record list \<Rightarrow> string list result" where
  "ens_failures s verify [] = Inr []"
| "ens_failures s verify (h # hs) =
     (if \<not> truthy_str (hedera_account_id h) \<or> layers_hosted h \<le> 0 then ens_failures s verify hs
      else if ens_strict s \<and> \<not> truthy_str (ens_name h)
        then rbind (ens_failures s verify hs) (\<lambda>fs. Inr (host_id h # fs))
      else if truthy_str (ens_name h)
        then rbind (verify h) (\<lambda>ok. rbind (ens_failures s verify hs)
               (\<lambda>fs. Inr (if ok then fs else host_id h # fs)))
      else ens_failures s verify hs)"

definition verify_hosts_for_payout ::
  "settings \<Rightarrow> (host_record \<Rightarrow> bool result) \<Rightarrow> host_record list \<Rightarrow> unit result" where
  "verify_hosts_for_payout s verify hs =
     (if \<not> ens_enabled s then Inr ()
      else rbind (ens_failures s verify hs)
             (\<lambda>failures. if failures \<noteq> [] then Inl RuntimeError else Inr ()))"

definition payout_of :: "settings \<Rightarrow> host_record \<Rightarrow> host_payout" where
  "payout_of s h =
     \<lparr>po_host_id = host_id h, po_account = the (hedera_account_id h), po_layers = layers_hosted h,
      po_amount = layers_hosted h * cost_per_layer_tinybars s, po_ens_name = ens_name h\<rparr>"

definition plan_payouts ::
  "settings \<Rightarrow> (host_record \<Rightarrow> bool result) \<Rightarrow> host_record list \<Rightarrow> host_payout list result" where
  "plan_payouts s verify hs =
     rbind (verify_hosts_for_payout s verify hs) (\<lambda>_. Inr
       (map (payout_of s)
          (filter (\<lambda>h. \<not> (\<not> truthy_str (hedera_account_id h) \<or> layers_hosted h \<le> 0)) hs)))"

definition row_of :: "host_payout \<Rightarrow> payout_row" where
  "row_of p = \<lparr>row_host_id = po_host_id p, row_ens_name = po_ens_name p, row_account = po_account p,
     row_layers = po_layers p, row_amount = po_amount p, row_evm = None\<rparr>"

section \<open>The escrow contract\<close>

definition escrow_enabled :: "settings \<Rightarrow> bool" where
  "escrow_enabled s \<longleftrightarrow> truthy_str (escrow_contract_id s) \<and> truthy_str (escrow_evm_address s)"

definition resolve_evm_address :: "('w, 'k) hedera \<Rightarrow> string \<Rightarrow> string \<Rightarrow> string" where
  "resolve_evm_address H account network =
     (let with_0x = (\<lambda>a. if startswith a ''0x'' then a else ''0x'' @ a);
          evm = (case mirror H (contains_str ''mainnet'' (py_lower network)) account of
                   Some a \<Rightarrow> py_strip a | None \<Rightarrow> [])
      in if evm \<noteq> [] then with_0x evm else with_0x (sdk_long_zero H account))"

fun remove_0x :: "string \<Rightarrow> string" where
  "remove_0x [] = []"
| "remove_0x [c] = [c]"
| "remove_0x (c # d # s) = (if c = CHR ''0'' \<and> d = CHR ''x'' then remove_0x s else c # remove_0x (d # s))"

record escrow_out =
  eo_payout_tx_id :: string
  eo_contract_id :: "string option"
  eo_total :: int
  eo_hosts :: "payout_row list"

definition escrow_rows :: "host_record list \<Rightarrow> int \<Rightarrow> payout_row list" where
  "escrow_rows hs cost =
     map (\<lambda>h. \<lparr>row_host_id = host_id h, row_ens_name = ens_name h, row_account = the (hedera_account_id h),
               row_layers = layers_hosted h, row_amount = layers_hosted h * cost, row_evm = None\<rparr>)
       (filter (\<lambda>h. \<not> (\<not> truthy_str (hedera_account_id h) \<or> layers_hosted h \<le> 0)
                    \<and> \<not> layers_hosted h * cost \<le> 0) hs)"

definition release ::
  "('w, 'k) hedera \<Rightarrow> settings \<Rightarrow> string \<Rightarrow> host_record list \<Rightarrow> int \<Rightarrow> 'w \<Rightarrow> escrow_out option result \<times> 'w" where
  "release H s request_id hs cost w =
     (if \<not> escrow_enabled s then (Inr None, w)
      else let rows = escrow_rows hs cost in
      if rows = [] then (Inr None, w)
      else let network = py_lower (if hedera_network s = [] then ''hedera-testnet'' else hedera_network s);
               key_raw = remove_0x (str_or (escrow_operator_private_key s) []);
               account = str_or (mother_account_id s) []
      in case sdk_ecdsa H key_raw of None \<Rightarrow> (Inl ValueError, w) | Some k \<Rightarrow>
      if \<not> sdk_account_ok H account then (Inl ValueError, w)
      else let c = \<lparr>cl_mainnet = \<not> contains_str ''testnet'' network, cl_account = account, cl_key = k\<rparr>;
               addrs = map (\<lambda>r. resolve_evm_address H (row_account r) network) rows
      in case sdk_contract H c
                \<lparr>ec_contract = the (escrow_contract_id s), ec_request = sha256 H request_id,
                 ec_addresses = addrs, ec_amounts = map row_amount rows\<rparr> w of
           (Inl e, w') \<Rightarrow> (Inl e, w')
         | (Inr tx, w') \<Rightarrow>
             (Inr (Some \<lparr>eo_payout_tx_id = tx, eo_contract_id = escrow_contract_id s,
                         eo_total = sum_list (map row_amount rows),
                         eo_hosts = map2 (\<lambda>r a. r\<lparr>row_evm := Some a\<rparr>) rows addrs\<rparr>), w'))"

definition get_escrow_service :: "settings \<Rightarrow> 'k pay_state \<Rightarrow> settings \<times> 'k pay_state" where
  "get_escrow_service current ps =
     (case ps_escrow ps of
        Some cached \<Rightarrow>
          if escrow_contract_id cached \<noteq> escrow_contract_id current
          then (current, ps\<lparr>ps_escrow := Some current\<rparr>) else (cached, ps)
      | None \<Rightarrow> (current, ps\<lparr>ps_escrow := Some current\<rparr>))"

section \<open>Redistribution\<close>

text \<open>The audit record: every failure on the way leaves the sequence number out and goes on.\<close>

definition audit_log ::
  "('w, 'k) hedera \<Rightarrow> settings \<Rightarrow> string option \<Rightarrow> hcs_payload \<Rightarrow> 'k pay_state \<Rightarrow> 'w
     \<Rightarrow> string option \<times> 'k pay_state \<times> 'w" where
  "audit_log H s topic payload ps w =
     (if truthy_str topic \<and> is_valid_topic_id topic
      then (case ensure_client H s ps of
              (Inl _, ps1) \<Rightarrow> (None, ps1, w)
            | (Inr c, ps1) \<Rightarrow>
                (case sdk_submit H c (the topic) payload w of
                   (Inl _, w1) \<Rightarrow> (None, ps1, w1)
                 | (Inr sq, w1) \<Rightarrow> (Some sq, ps1, w1)))
      else (None, ps, w))"

definition transfers_of :: "settings \<Rightarrow> host_payout list \<Rightarrow> host_payout list" where
  "transfers_of s planned =
     filter (\<lambda>p. Some (po_account p) \<noteq> mother_account_id s \<and> po_amount p > 0) planned"

definition transfer_batch :: "string \<Rightarrow> host_payout list \<Rightarrow> (string \<times> int) list" where
  "transfer_batch mother transfers =
     (mother, - sum_list (map po_amount transfers)) # map (\<lambda>p. (po_account p, po_amount p)) transfers"

definition redistribute_escrow ::
  "('w, 'k) hedera \<Rightarrow> settings \<Rightarrow> string \<Rightarrow> string option \<Rightarrow> escrow_out \<Rightarrow> 'k pay_state \<Rightarrow> 'w
     \<Rightarrow> payout_receipt \<times> 'k pay_state \<times> 'w" where
  "redistribute_escrow H s request_id x402 out ps w =
     (case ensure_hcs_topic H s ps w of (topic, ps1, w1) \<Rightarrow>
      case audit_log H s topic
             \<lparr>hp_request_id = request_id, hp_x402_tx_id = x402, hp_payout_tx_id = Some (eo_payout_tx_id out),
              hp_contract_id = eo_contract_id out, hp_cost_per_layer = cost_per_layer_tinybars s,
              hp_hosts = eo_hosts out\<rparr> ps1 w1 of (sq, ps2, w2) \<Rightarrow>
      (\<lparr>rc_request_id = request_id, rc_x402_tx_id = x402, rc_payout_tx_id = Some (eo_payout_tx_id out),
        rc_hcs_topic_id = (if is_valid_topic_id topic then topic else None), rc_hcs_sequence = sq,
        rc_cost_per_layer = cost_per_layer_tinybars s, rc_total = eo_total out,
        rc_hosts = eo_hosts out\<rparr>, ps2, w2))"

definition redistribute_direct ::
  "('w, 'k) hedera \<Rightarrow> settings \<Rightarrow> (host_record \<Rightarrow> bool result) \<Rightarrow> string \<Rightarrow> host_record list \<Rightarrow> string option
     \<Rightarrow> 'k pay_state \<Rightarrow> 'w \<Rightarrow> payout_receipt result \<times> 'k pay_state \<times> 'w" where
  "redistribute_direct H s verify request_id hs x402 ps w =
     (case ensure_client H s ps of (Inl e, ps1) \<Rightarrow> (Inl e, ps1, w) | (Inr c, ps1) \<Rightarrow>
      case plan_payouts s verify hs of Inl e \<Rightarrow> (Inl e, ps1, w) | Inr planned \<Rightarrow>
      let transfers = transfers_of s planned; total = sum_list (map po_amount transfers)
      in case (if total > 0
               then (case sdk_transfer H c (transfer_batch (the (mother_account_id s)) transfers) w of
                       (Inl e, w1) \<Rightarrow> (Inl e, w1) | (Inr tx, w1) \<Rightarrow> (Inr (Some tx), w1))
               else (Inr None, w)) of
           (Inl e, w1) \<Rightarrow> (Inl e, ps1, w1)
         | (Inr tx_id, w1) \<Rightarrow>
             (case ensure_hcs_topic H s ps1 w1 of (topic, ps2, w2) \<Rightarrow>
              case audit_log H s topic
                     \<lparr>hp_request_id = request_id, hp_x402_tx_id = x402, hp_payout_tx_id = tx_id,
                      hp_contract_id = None, hp_cost_per_layer = cost_per_layer_tinybars s,
                      hp_hosts = map row_of planned\<rparr> ps2 w2 of (sq, ps3, w3) \<Rightarrow>
              (Inr \<lparr>rc_request_id = request_id, rc_x402_tx_id = x402, rc_payout_tx_id = tx_id,
                    rc_hcs_topic_id = topic, rc_hcs_sequence = sq,
                    rc_cost_per_layer = cost_per_layer_tinybars s,
                    rc_total = sum_list (map po_amount planned), rc_hosts = map row_of planned\<rparr>,
               ps3, w3)))"

definition redistribute ::
  "('w, 'k) hedera \<Rightarrow> settings \<Rightarrow> (host_record \<Rightarrow> bool result) \<Rightarrow> string \<Rightarrow> host_record list \<Rightarrow> string option
     \<Rightarrow> 'k pay_state \<Rightarrow> 'w \<Rightarrow> payout_receipt result \<times> 'k pay_state \<times> 'w" where
  "redistribute H s verify request_id hs x402 ps w =
     (case get_escrow_service s ps of (svc, ps0) \<Rightarrow>
      case (if escrow_enabled svc then release H svc request_id hs (cost_per_layer_tinybars s) w
            else (Inr None, w)) of
        (Inl e, w1) \<Rightarrow> (Inl e, ps0, w1)
      | (Inr (Some out), w1) \<Rightarrow>
          (case redistribute_escrow H s request_id x402 out ps0 w1 of (rc, ps1, w2) \<Rightarrow> (Inr rc, ps1, w2))
      | (Inr None, w1) \<Rightarrow>
          if \<not> payouts_enabled s
          then (Inr \<lparr>rc_request_id = request_id, rc_x402_tx_id = x402, rc_payout_tx_id = None,
                     rc_hcs_topic_id = ps_topic ps0, rc_hcs_sequence = None,
                     rc_cost_per_layer = cost_per_layer_tinybars s, rc_total = 0, rc_hosts = []\<rparr>, ps0, w1)
          else redistribute_direct H s verify request_id hs x402 ps0 w1)"

end
