(* ===== verification/MotherApi.thy ===== *)
theory MotherApi
  imports PeerVerify EnsClient Payouts
begin

text \<open>
  orchestrator/app/main.py: the mother's HTTP application. \<open>mother\<close> is everything the process
  keeps (registry, Petals client, ENS client, payout service, background tasks not yet run) with
  the world outside; \<open>outside\<close> gathers what the outside answers. A handler is a function from the
  state to a response, \<open>Inl (HTTPException code)\<close> for an error response, and the state after it.
  A handler runs as one step: requests that overlap inside \<open>mark_ready\<close> and \<open>leave\<close> are the subject
  of the theory RegistryMachine.
\<close>

section \<open>State and parameters\<close>

datatype bg_task = ReloadClient nat | VerifyBlocks string

record ('w, 'k, 'a) mother =
  mo_reg :: swarm_registry
  mo_engine :: "'a engine"
  mo_ens :: ens_state
  mo_pay :: "'k pay_state"
  mo_tasks :: "bg_task list"
  mo_world :: 'w

text \<open>
  \<open>out_views\<close> are the views of the swarm at the polls of a block verification; \<open>out_load\<close> and
  \<open>out_load2\<close> are the two loadings one request can make; \<open>out_late\<close> says that the answer of a
  generation comes after the time limit; \<open>out_str\<close> is the text of an exception.
\<close>

record ('w, 'k, 'a) outside =
  out_svc :: "'w reload_svc"
  out_ens :: "'w ens_service"
  out_hedera :: "('w, 'k) hedera"
  out_probe :: "string \<Rightarrow> shard_status option"
  out_connect :: "string \<times> int \<Rightarrow> bool"
  out_views :: "(int \<Rightarrow> bool) option list"
  out_post :: "string \<Rightarrow> 'a chat_request \<Rightarrow> gen_result result"
  out_load :: "'a loader"
  out_load2 :: "'a loader"
  out_late :: bool
  out_ev :: env
  out_env :: environ
  out_dflt :: "'a \<times> 'a"
  out_str :: "py_error \<Rightarrow> string"

definition http_error :: "int \<Rightarrow> 'r result" where
  "http_error code = Inl (HTTPException code)"

text \<open>The classes an \<open>except RuntimeError\<close> catches.\<close>

fun is_runtime_error :: "py_error \<Rightarrow> bool" where
  "is_runtime_error RuntimeError = True"
| "is_runtime_error MissingBlocksError = True"
| "is_runtime_error (EnsClientError retryable) = True"
| "is_runtime_error e = False"

definition add_task :: "bg_task \<Rightarrow> ('w, 'k, 'a) mother \<Rightarrow> ('w, 'k, 'a) mother" where
  "add_task t m = m\<lparr>mo_tasks := mo_tasks m @ [t]\<rparr>"

section \<open>Background work\<close>

definition sync_mother_shard_blocks ::
  "(string \<Rightarrow> shard_status option) \<Rightarrow> string \<Rightarrow> swarm_registry \<Rightarrow> swarm_registry" where
  "sync_mother_shard_blocks probe url r =
     (case probe (rstrip_slash url @ ''/status'') of
        None \<Rightarrow> r
      | Some st \<Rightarrow>
          if truthy_str (ss_block_indices st)
          then snd (sync_mother_from_shard (the (ss_block_indices st)) r) else r)"

text \<open>One round of the reaper, also the sweep at start-up.\<close>

definition reaper_round ::
  "('w, 'k, 'a) outside \<Rightarrow> settings \<Rightarrow> ('w, 'k, 'a) mother \<Rightarrow> ('w, 'k, 'a) mother" where
  "reaper_round X s m =
     (case reap_stale_pending (out_svc X) (out_ev X) (pending_ttl_seconds s) (mo_reg m) (mo_world m) of
        (removed, r1, w1) \<Rightarrow>
      case reap_stale (out_svc X) (out_ev X) (heartbeat_ttl_seconds s) r1 w1 of
        (reaped, r2, w2) \<Rightarrow>
          (let m' = m\<lparr>mo_reg := r2, mo_world := w2\<rparr>
           in if reaped \<noteq> [] then add_task (ReloadClient 6) m' else m'))"

text \<open>
  A background task run to its end; \<open>loads\<close> is what the loadings of its attempts give. Its failures
  are logged only.
\<close>

definition run_task ::
  "('w, 'k, 'a) outside \<Rightarrow> settings \<Rightarrow> (nat \<Rightarrow> 'a loader) \<Rightarrow> bg_task \<Rightarrow> 'a engine \<Rightarrow> 'a engine" where
  "run_task X s loads t en =
     (case t of
        ReloadClient n \<Rightarrow> snd (schedule_reload s n loads en)
      | VerifyBlocks blocks \<Rightarrow> snd (verify_blocks_visible s (out_load X) (out_views X) blocks en))"

section \<open>Start-up\<close>

definition ens_bootstrap ::
  "('w, 'k, 'a) outside \<Rightarrow> settings \<Rightarrow> swarm_registry \<times> ens_state \<times> 'w \<Rightarrow> swarm_registry \<times> ens_state \<times> 'w" where
  "ens_bootstrap X s x =
     (case get_host ''mother'' (fst x) of Inl _ \<Rightarrow> x | Inr mother \<Rightarrow>
      case sync_mother_ens (out_ens X) s (out_ev X) mother x of (Inl _, x1) \<Rightarrow> x1 | (Inr _, x1) \<Rightarrow>
      case replay_pending (out_ens X) s (out_ev X) x1 of (Inl _, x2) \<Rightarrow> x2 | (Inr _, x2) \<Rightarrow>
      snd (reconcile_registry (out_ens X) s (out_ev X) x2))"

text \<open>
  The application before \<open>yield\<close>, part by part: \<open>dsk\<close> is the registry file, \<open>st\<close> and \<open>ps\<close> what the ENS
  client and the payout service find on disk.
\<close>

definition startup_registry ::
  "('w, 'k, 'a) outside \<Rightarrow> settings \<Rightarrow> ens_state \<Rightarrow> 'k pay_state \<Rightarrow> 'w \<Rightarrow> swarm_registry \<Rightarrow> ('w, 'k, 'a) mother" where
  "startup_registry X s st ps w r0 =
     (let r1 = (if announce_peers s \<noteq> [] then set_bootstrap_peers (announce_peers s) r0
                else if initial_peers s \<noteq> [] then set_bootstrap_peers (initial_peers s) r0 else r0);
          r2 = sync_mother_shard_blocks (out_probe X) (mother_shard_manager_url s) r1
      in case (if ens_enabled s then ens_bootstrap X s (r2, st, w) else (r2, st, w)) of
           (r3, st3, w3) \<Rightarrow>
             \<lparr>mo_reg = r3, mo_engine = engine_init, mo_ens = st3, mo_pay = ps, mo_tasks = [], mo_world = w3\<rparr>)"

definition startup_payouts :: "('w, 'k, 'a) outside \<Rightarrow> settings \<Rightarrow> ('w, 'k, 'a) mother \<Rightarrow> ('w, 'k, 'a) mother" where
  "startup_payouts X s m =
     (if x402_enabled s \<and> truthy_str (mother_account_id s) \<and> truthy_str (mother_private_key s)
         \<and> cost_per_layer_tinybars s > 0
      then (case ensure_hcs_topic (out_hedera X) s (mo_pay m) (mo_world m) of
              (_, ps, w) \<Rightarrow> m\<lparr>mo_pay := ps, mo_world := w\<rparr>)
      else m)"

definition startup_client :: "('w, 'k, 'a) outside \<Rightarrow> settings \<Rightarrow> ('w, 'k, 'a) mother \<Rightarrow> ('w, 'k, 'a) mother" where
  "startup_client X s m =
     (if load_at_startup s \<and> initial_peers s \<noteq> []
      then m\<lparr>mo_engine := snd (engine_load s (out_load X) (mo_engine m))\<rparr> else m)"

definition startup ::
  "('w, 'k, 'a) outside \<Rightarrow> settings \<Rightarrow> disk_file \<Rightarrow> ens_state \<Rightarrow> 'k pay_state \<Rightarrow> 'w \<Rightarrow> ('w, 'k, 'a) mother result" where
  "startup X s dsk st ps w =
     rbind (init_registry (out_ev X) dsk (model_name s) (cfg_total_layers s) (mother_shard_manager_url s)
              (mother_account_id s))
       (\<lambda>r0. Inr (startup_client X s (startup_payouts X s (reaper_round X s (startup_registry X s st ps w r0)))))"

section \<open>Reading handlers\<close>

record health_response =
  hr_ok :: bool
  hr_model :: string
  hr_initial_peers :: "string list"
  hr_detail :: "py_error option"
  hr_max_layers :: "int option"
  hr_total_layers :: int
  hr_cost :: "int option"
  hr_x402 :: bool

definition int_or_none :: "int \<Rightarrow> int option" where
  "int_or_none n = (if n = 0 then None else Some n)"

definition mother_health :: "settings \<Rightarrow> ('w, 'k, 'a) mother \<Rightarrow> health_response" where
  "mother_health s m =
     \<lparr>hr_ok = is_loaded (mo_engine m), hr_model = model_name s, hr_initial_peers = initial_peers s,
      hr_detail = en_load_error (mo_engine m),
      hr_max_layers = (case max_carveable (mo_reg m) of Inr n \<Rightarrow> Some n | Inl _ \<Rightarrow> None),
      hr_total_layers = cfg_total_layers s, hr_cost = int_or_none (cost_per_layer_tinybars s),
      hr_x402 = x402_enabled s\<rparr>"

definition list_models :: "settings \<Rightarrow> string list" where
  "list_models s = [model_name s]"

record host_public =
  hpub_id :: string
  hpub_role :: role
  hpub_model :: string
  hpub_blocks :: string
  hpub_layers :: int
  hpub_status :: host_state
  hpub_ip :: "string option"
  hpub_heartbeat :: int
  hpub_account :: "string option"
  hpub_ens_name :: "string option"
  hpub_ens_verified :: "bool option"
  hpub_running :: "bool option"

definition public_of :: "host_record \<Rightarrow> bool option \<Rightarrow> host_public" where
  "public_of h verified =
     \<lparr>hpub_id = host_id h, hpub_role = role h, hpub_model = host_model h, hpub_blocks = block_indices h,
      hpub_layers = layers_hosted h, hpub_status = status h, hpub_ip = public_ip h,
      hpub_heartbeat = last_heartbeat h, hpub_account = hedera_account_id h, hpub_ens_name = ens_name h,
      hpub_ens_verified = verified, hpub_running = petals_running h\<rparr>"

fun list_hosts_loop ::
  "'w ens_service \<Rightarrow> settings \<Rightarrow> int \<Rightarrow> host_record list \<Rightarrow> ens_state \<Rightarrow> 'w
     \<Rightarrow> host_public list result \<times> ens_state \<times> 'w" where
  "list_hosts_loop S s t [] st w = (Inr [], st, w)"
| "list_hosts_loop S s t (h # hs) st w =
     (case (if ens_enabled s \<and> truthy_str (ens_name h)
            then (case verify_host S s t h st w of
                    (Inl e, st', w') \<Rightarrow> (Inl e, st', w') | (Inr b, st', w') \<Rightarrow> (Inr (Some b), st', w'))
            else (Inr None, st, w)) of
        (Inl e, st', w') \<Rightarrow> (Inl e, st', w')
      | (Inr verified, st', w') \<Rightarrow>
          (case list_hosts_loop S s t hs st' w' of
             (Inl e, st2, w2) \<Rightarrow> (Inl e, st2, w2)
           | (Inr rows, st2, w2) \<Rightarrow> (Inr (public_of h verified # rows), st2, w2)))"

record host_list_response =
  hl_model :: string
  hl_total_layers :: int
  hl_max_layers :: int
  hl_cost :: "int option"
  hl_hosts :: "host_public list"

text \<open>An exception nobody catches is a response 500.\<close>

definition hosts_list ::
  "('w, 'k, 'a) outside \<Rightarrow> settings \<Rightarrow> ('w, 'k, 'a) mother \<Rightarrow> host_list_response result \<times> ('w, 'k, 'a) mother" where
  "hosts_list X s m =
     (case list_hosts_loop (out_ens X) s (now (out_ev X)) (list_hosts (mo_reg m)) (mo_ens m) (mo_world m) of
        (rows, st, w) \<Rightarrow>
          (let m' = m\<lparr>mo_ens := st, mo_world := w\<rparr>
           in case rows of Inl _ \<Rightarrow> (http_error 500, m') | Inr hs \<Rightarrow>
              case max_carveable (mo_reg m) of Inl _ \<Rightarrow> (http_error 500, m') | Inr n \<Rightarrow>
              (Inr \<lparr>hl_model = model_name s, hl_total_layers = cfg_total_layers s, hl_max_layers = n,
                    hl_cost = int_or_none (cost_per_layer_tinybars s), hl_hosts = hs\<rparr>, m')))"

record manifest_response =
  mr_model :: string
  mr_total_layers :: int
  mr_complete :: bool
  mr_detail :: "manifest_detail option"
  mr_hosts :: "host_public list"

definition public_of_span :: "string \<Rightarrow> layer_span \<Rightarrow> host_public" where
  "public_of_span model sp =
     \<lparr>hpub_id = span_host_id sp, hpub_role = span_role sp, hpub_model = model,
      hpub_blocks = span_block_indices sp, hpub_layers = span_end sp - span_start sp, hpub_status = Online,
      hpub_ip = None, hpub_heartbeat = 0, hpub_account = None, hpub_ens_name = None,
      hpub_ens_verified = None, hpub_running = span_running sp\<rparr>"

definition swarm_manifest_route ::
  "('w, 'k, 'a) outside \<Rightarrow> settings \<Rightarrow> ('w, 'k, 'a) mother \<Rightarrow> manifest_response result \<times> ('w, 'k, 'a) mother" where
  "swarm_manifest_route X s m =
     (case refresh_live_status (out_probe X) (out_ev X) (mo_reg m) of
        (res, r1) \<Rightarrow>
          (let m' = m\<lparr>mo_reg := r1\<rparr>
           in case res of Inl _ \<Rightarrow> (http_error 500, m') | Inr man \<Rightarrow>
              (case validate_manifest man of (ok, detail) \<Rightarrow>
               (Inr \<lparr>mr_model = model_name s, mr_total_layers = cfg_total_layers s, mr_complete = ok,
                     mr_detail = (if ok then None else Some detail),
                     mr_hosts = map (public_of_span (man_model man)) (man_spans man)\<rparr>, m'))))"

section \<open>Joining, readiness, heartbeats and departure\<close>

record join_body =
  jb_model :: string
  jb_layers :: int
  jb_public_ip :: string
  jb_shard_manager_url :: string
  jb_account :: string

definition hosts_join ::
  "('w, 'k, 'a) outside \<Rightarrow> settings \<Rightarrow> join_body \<Rightarrow> ('w, 'k, 'a) mother \<Rightarrow> join_response result \<times> ('w, 'k, 'a) mother" where
  "hosts_join X s body m =
     (if jb_model body \<noteq> model_name s then (http_error 400, m)
      else case registry_join (out_ev X) (jb_layers body) (jb_public_ip body) (jb_shard_manager_url body)
                  (jb_account body) (mo_reg m) of
        (Inr resp, r1) \<Rightarrow> (Inr resp, m\<lparr>mo_reg := r1\<rparr>)
      | (Inl e, r1) \<Rightarrow>
          (if e = ValueError \<and> (case max_carveable r1 of Inr _ \<Rightarrow> True | Inl _ \<Rightarrow> False)
           then http_error 400 else http_error 500, m\<lparr>mo_reg := r1\<rparr>))"

record ready_response =
  rr_host_id :: string
  rr_status :: host_state
  rr_block_indices :: string
  rr_layers_hosted :: int
  rr_account :: "string option"
  rr_ens_name :: "string option"

definition ready_response_of :: "host_record \<Rightarrow> ready_response" where
  "ready_response_of h =
     \<lparr>rr_host_id = host_id h, rr_status = status h, rr_block_indices = block_indices h,
      rr_layers_hosted = layers_hosted h, rr_account = hedera_account_id h, rr_ens_name = ens_name h\<rparr>"

text \<open>
  The peer of the request: ignored when it is one of the mother's own, otherwise given to the
  client for its next loading.
\<close>

definition ready_peer ::
  "settings \<Rightarrow> string option \<Rightarrow> ('w, 'k, 'a) mother \<Rightarrow> string option \<times> ('w, 'k, 'a) mother" where
  "ready_peer s peer m =
     (if \<not> truthy_str peer then (peer, m)
      else if the peer \<in> set (initial_peers s) \<or> the peer \<in> set (bootstrap_peers (mo_reg m)) then (None, m)
      else (peer, m\<lparr>mo_engine := add_peer (the peer) (mo_engine m)\<rparr>))"

definition call_mark_ready ::
  "('w, 'k, 'a) outside \<Rightarrow> string \<Rightarrow> string option \<Rightarrow> ('w, 'k, 'a) mother \<Rightarrow> host_record result \<times> ('w, 'k, 'a) mother" where
  "call_mark_ready X hid peer m =
     (case mark_ready (out_svc X) (out_ev X) hid peer (mo_reg m) (mo_world m) of
        (res, r1, w1) \<Rightarrow>
          (let m' = m\<lparr>mo_reg := r1, mo_world := w1\<rparr>
           in (res, case res of Inr _ \<Rightarrow> add_task (ReloadClient 6) m' | Inl _ \<Rightarrow> m')))"

text \<open>The two ways to a hand-off: without a blocking check, and after the peer is seen in the swarm.\<close>

definition handoff_now ::
  "('w, 'k, 'a) outside \<Rightarrow> settings \<Rightarrow> bool \<Rightarrow> string \<Rightarrow> string \<Rightarrow> string option \<Rightarrow> ('w, 'k, 'a) mother
     \<Rightarrow> host_record result \<times> ('w, 'k, 'a) mother" where
  "handoff_now X s relay_only hid blocks peer m =
     (case call_mark_ready X hid peer m of
        (Inl e, m1) \<Rightarrow> (Inl e, m1)
      | (Inr host, m1) \<Rightarrow>
          (Inr host, if \<not> skip_ready_verify s \<and> \<not> relay_only then add_task (VerifyBlocks blocks) m1 else m1))"

definition handoff_verified ::
  "('w, 'k, 'a) outside \<Rightarrow> settings \<Rightarrow> string \<Rightarrow> string \<Rightarrow> string option \<Rightarrow> ('w, 'k, 'a) mother
     \<Rightarrow> host_record result \<times> ('w, 'k, 'a) mother" where
  "handoff_verified X s hid blocks peer m =
     (case engine_reload s (out_load X) (mo_engine m) of
        (Inl _, en) \<Rightarrow> (Inl RuntimeError, m\<lparr>mo_engine := en\<rparr>)
      | (Inr _, en) \<Rightarrow>
          (case verify_blocks_visible s (out_load2 X) (out_views X) blocks en of
             (Inl e, en') \<Rightarrow> (Inl e, m\<lparr>mo_engine := en'\<rparr>)
           | (Inr _, en') \<Rightarrow> call_mark_ready X hid peer (m\<lparr>mo_engine := en'\<rparr>)))"

definition ready_ens ::
  "('w, 'k, 'a) outside \<Rightarrow> settings \<Rightarrow> string option \<Rightarrow> host_record \<Rightarrow> ('w, 'k, 'a) mother
     \<Rightarrow> host_record result \<times> ('w, 'k, 'a) mother" where
  "ready_ens X s donor_id host m =
     (if \<not> ens_enabled s then (Inr host, m)
      else case (if truthy_str donor_id
                 then (case get_host (the donor_id) (mo_reg m) of Inl e \<Rightarrow> Inl e | Inr d \<Rightarrow> Inr (Some d))
                 else Inr None) of
        Inl e \<Rightarrow> (Inl e, m)
      | Inr donor \<Rightarrow>
          (case sync_host_ens_after_ready (out_ens X) s (out_ev X) host donor (mo_reg m, mo_ens m, mo_world m) of
             (Inl e, r1, st, w) \<Rightarrow>
               (let m1 = m\<lparr>mo_reg := r1, mo_ens := st, mo_world := w\<rparr>
                in if is_ens_error e
                   then (if ens_strict s then (http_error 500, m1)
                         else (case get_host (host_id host) r1 of Inr h \<Rightarrow> Inr h | Inl _ \<Rightarrow> Inr host, m1))
                   else (Inl e, m1))
           | (Inr name, r1, st, w) \<Rightarrow>
               (let m1 = m\<lparr>mo_reg := r1, mo_ens := st, mo_world := w\<rparr>
                in case get_host (host_id host) r1 of
                     Inl e \<Rightarrow> (Inl e, m1)
                   | Inr h \<Rightarrow>
                       (let named = (\<lambda>h. h\<lparr>ens_name := (if name \<noteq> [] then Some name else ens_name h)\<rparr>)
                        in (Inr (named h), m1\<lparr>mo_reg := modify_host (host_id host) named r1\<rparr>)))))"

definition ready_body ::
  "('w, 'k, 'a) outside \<Rightarrow> settings \<Rightarrow> string \<Rightarrow> string option \<Rightarrow> ('w, 'k, 'a) mother
     \<Rightarrow> ready_response result \<times> ('w, 'k, 'a) mother" where
  "ready_body X s hid body_peer m =
     (case get_host hid (mo_reg m) of Inl e \<Rightarrow> (Inl e, m) | Inr pending \<Rightarrow>
      if status pending = Online then (Inr (ready_response_of pending), m)
      else (case ready_peer s body_peer m of (peer, m1) \<Rightarrow>
        (let blocks = str_or (pending_range pending) (block_indices pending);
             fast_path = contributor_precheck_passed (out_probe X) (out_connect X) (shard_manager_url pending) blocks
                           peer (initial_peers s @ bootstrap_peers (mo_reg m1));
             relay_only = (\<not> truthy_str peer \<and> \<not> fast_path)
         in case (if fast_path \<or> relay_only \<or> skip_ready_verify s
                  then handoff_now X s relay_only hid blocks peer m1
                  else handoff_verified X s hid blocks peer m1) of
              (Inl e, m2) \<Rightarrow> (Inl e, m2)
            | (Inr host, m2) \<Rightarrow>
                (case ready_ens X s (donor_host_id pending) host m2 of
                   (Inl e, m3) \<Rightarrow> (Inl e, m3)
                 | (Inr host', m3) \<Rightarrow> (Inr (ready_response_of host'), m3)))))"

text \<open>What the \<open>except\<close> clauses answer; a runtime error also releases the pending host.\<close>

definition hosts_ready ::
  "('w, 'k, 'a) outside \<Rightarrow> settings \<Rightarrow> string \<Rightarrow> string option \<Rightarrow> ('w, 'k, 'a) mother
     \<Rightarrow> ready_response result \<times> ('w, 'k, 'a) mother" where
  "hosts_ready X s hid body_peer m =
     (case ready_body X s hid body_peer m of
        (Inr resp, m1) \<Rightarrow> (Inr resp, m1)
      | (Inl e, m1) \<Rightarrow>
          if e = KeyError then (http_error 404, m1)
          else if is_runtime_error e
            then (case leave (out_svc X) (out_ev X) hid (mo_reg m1) (mo_world m1) of
                    (_, r2, w2) \<Rightarrow> (http_error 503, m1\<lparr>mo_reg := r2, mo_world := w2\<rparr>))
          else (http_error 500, m1))"

record heartbeat_ack =
  ack_host_id :: string
  ack_last_heartbeat :: int
  ack_block_indices :: string

definition hosts_heartbeat ::
  "('w, 'k, 'a) outside \<Rightarrow> string \<Rightarrow> heartbeat_body \<Rightarrow> ('w, 'k, 'a) mother \<Rightarrow> heartbeat_ack result \<times> ('w, 'k, 'a) mother" where
  "hosts_heartbeat X hid body m =
     (case apply_heartbeat_manifest (out_ev X) hid body (mo_reg m) of
        (Inl e, r1) \<Rightarrow> (http_error (if e = KeyError then 404 else 500), m\<lparr>mo_reg := r1\<rparr>)
      | (Inr host, r1) \<Rightarrow>
          (Inr \<lparr>ack_host_id = host_id host, ack_last_heartbeat = last_heartbeat host,
                ack_block_indices = block_indices host\<rparr>, m\<lparr>mo_reg := persist (out_ev X) r1\<rparr>))"

definition hosts_leave ::
  "('w, 'k, 'a) outside \<Rightarrow> settings \<Rightarrow> string \<Rightarrow> ('w, 'k, 'a) mother \<Rightarrow> string result \<times> ('w, 'k, 'a) mother" where
  "hosts_leave X s hid m =
     (case get_host hid (mo_reg m) of Inl _ \<Rightarrow> (http_error 404, m) | Inr leaver \<Rightarrow>
      case leave (out_svc X) (out_ev X) hid (mo_reg m) (mo_world m) of
        (Inl e, r1, w1) \<Rightarrow>
          (http_error (if e = KeyError then 404 else if e = ValueError then 400 else 500),
           m\<lparr>mo_reg := r1, mo_world := w1\<rparr>)
      | (Inr _, r1, w1) \<Rightarrow>
          (let m1 = m\<lparr>mo_reg := r1, mo_world := w1\<rparr>
           in if \<not> ens_enabled s then (Inr hid, m1)
              else case get_host ''mother'' r1 of Inl _ \<Rightarrow> (http_error 404, m1) | Inr mother \<Rightarrow>
              case sync_leave_ens (out_ens X) s leaver (Some mother) w1 of
                (Inl _, w2) \<Rightarrow> (http_error 500, m1\<lparr>mo_world := w2\<rparr>)
              | (Inr _, w2) \<Rightarrow> (Inr hid, m1\<lparr>mo_world := w2\<rparr>)))"

section \<open>Payouts\<close>

text \<open>
  The identity checks of a direct payout, one host after the other, with the cache of the ENS client
  passed along; an exception ends them.
\<close>

fun identity_verdicts ::
  "'w ens_service \<Rightarrow> settings \<Rightarrow> int \<Rightarrow> host_record list \<Rightarrow> ens_state \<Rightarrow> 'w
     \<Rightarrow> (string, bool result) pydict \<times> ens_state \<times> 'w" where
  "identity_verdicts S s t [] st w = ([], st, w)"
| "identity_verdicts S s t (h # hs) st w =
     (if \<not> truthy_str (hedera_account_id h) \<or> layers_hosted h \<le> 0 \<or> \<not> truthy_str (ens_name h)
      then identity_verdicts S s t hs st w
      else case verify_host S s t h st w of
        (Inl e, st1, w1) \<Rightarrow> ([(host_id h, Inl e)], st1, w1)
      | (Inr b, st1, w1) \<Rightarrow>
          (case identity_verdicts S s t hs st1 w1 of
             (vs, st2, w2) \<Rightarrow> ((host_id h, Inr b) # vs, st2, w2)))"

text \<open>Whether \<open>redistribute\<close> comes to the plan of a direct payout.\<close>

definition reaches_plan :: "('w, 'k) hedera \<Rightarrow> settings \<Rightarrow> host_record list \<Rightarrow> 'k pay_state \<Rightarrow> bool" where
  "reaches_plan H s hs ps \<longleftrightarrow>
     (case get_escrow_service s ps of (svc, ps0) \<Rightarrow>
        \<not> (escrow_enabled svc \<and> escrow_rows hs (cost_per_layer_tinybars s) \<noteq> [])
        \<and> (case ensure_client H s ps0 of (Inr _, _) \<Rightarrow> True | (Inl _, _) \<Rightarrow> False))"

definition run_payout ::
  "('w, 'k, 'a) outside \<Rightarrow> settings \<Rightarrow> string \<Rightarrow> string option \<Rightarrow> ('w, 'k, 'a) mother
     \<Rightarrow> payout_receipt option result \<times> ('w, 'k, 'a) mother" where
  "run_payout X s completion_id x402_tx m =
     (if \<not> payouts_enabled s then (Inr None, m)
      else let hs = online_payout_hosts (mo_reg m) in
      case (if ens_enabled s \<and> reaches_plan (out_hedera X) s hs (mo_pay m)
            then identity_verdicts (out_ens X) s (now (out_ev X)) hs (mo_ens m) (mo_world m)
            else ([], mo_ens m, mo_world m)) of
        (verdicts, st, w1) \<Rightarrow>
          (case redistribute (out_hedera X) s
                  (\<lambda>h. case dget verdicts (host_id h) of Some v \<Rightarrow> v | None \<Rightarrow> Inr True)
                  completion_id hs x402_tx (mo_pay m) w1 of
             (res, ps, w2) \<Rightarrow>
               (case res of Inl e \<Rightarrow> Inl e | Inr rc \<Rightarrow> Inr (Some rc),
                m\<lparr>mo_ens := st, mo_pay := ps, mo_world := w2\<rparr>)))"

definition internal_payout ::
  "('w, 'k, 'a) outside \<Rightarrow> settings \<Rightarrow> string \<Rightarrow> string option \<Rightarrow> string option \<Rightarrow> ('w, 'k, 'a) mother
     \<Rightarrow> payout_receipt result \<times> ('w, 'k, 'a) mother" where
  "internal_payout X s request_id x402_tx paid m =
     (if x402_enabled s \<and> paid \<noteq> Some ''1'' then (http_error 403, m)
      else case run_payout X s request_id x402_tx m of
        (Inl _, m') \<Rightarrow> (http_error 500, m')
      | (Inr None, m') \<Rightarrow> (http_error 503, m')
      | (Inr (Some rc), m') \<Rightarrow> (Inr rc, m'))"

section \<open>Chat\<close>

record 'a chat_body =
  cb_model :: string
  cb_messages :: "message list"
  cb_max_tokens :: "int option"
  cb_temperature :: "'a option"
  cb_top_p :: "'a option"
  cb_stream :: bool

text \<open>
  A server-sent event: a chunk with the role and content of its delta and its finish reason, or the
  closing mark.
\<close>

datatype sse = SseChunk "string option" "string option" "string option" | SseDone

record chat_completion =
  cc_id :: string
  cc_model :: string
  cc_text :: string
  cc_finish_reason :: string
  cc_prompt_tokens :: int
  cc_completion_tokens :: int
  cc_total_tokens :: int
  cc_payment :: "payout_receipt option"

datatype chat_response = Completion chat_completion | EventStream "sse list"

definition ensure_model_or_400 :: "settings \<Rightarrow> 'a chat_body \<Rightarrow> unit result" where
  "ensure_model_or_400 s body =
     (if cb_model body \<noteq> [] \<and> cb_model body \<noteq> model_name s then http_error 400
      else if cb_messages body = [] then http_error 400 else Inr ())"

definition error_content :: "(py_error \<Rightarrow> string) \<Rightarrow> py_error \<Rightarrow> string" where
  "error_content str e = [CHR 0x0A, CHR 0x0A] @ ''[error] '' @ str e"

definition stream_sse :: "(py_error \<Rightarrow> string) \<Rightarrow> string list \<times> gen_result option result \<Rightarrow> sse list" where
  "stream_sse str gen =
     SseChunk (Some ''assistant'') (Some []) None # map (\<lambda>p. SseChunk None (Some p) None) (fst gen) @
     (case snd gen of
        Inl e \<Rightarrow> [SseChunk None (Some (error_content str e)) (Some ''stop''), SseDone]
      | Inr payload \<Rightarrow>
          [SseChunk None None (Some (case payload of Some g \<Rightarrow> gr_finish_reason g | None \<Rightarrow> ''stop'')), SseDone])"

definition paid_stream ::
  "('w, 'k, 'a::linordered_field) outside \<Rightarrow> settings \<Rightarrow> bool \<Rightarrow> string \<Rightarrow> string option \<Rightarrow> 'a chat_body
     \<Rightarrow> ('w, 'k, 'a) mother \<Rightarrow> sse list \<times> ('w, 'k, 'a) mother" where
  "paid_stream X s pay completion_id x402_tx body m =
     (case stream_generate s (out_load X) (out_load2 X) (cb_messages body) (cb_max_tokens body)
             (cb_temperature body) (cb_top_p body) (mo_engine m) of
        (gen, en) \<Rightarrow>
          (let m1 = m\<lparr>mo_engine := en\<rparr>
           in (stream_sse (out_str X) gen,
               if pay then snd (run_payout X s completion_id x402_tx m1) else m1)))"

definition generate_error_status :: "py_error \<Rightarrow> int" where
  "generate_error_status e =
     (if e = MissingBlocksServiceError \<or> e = HttpInferenceError \<or> is_runtime_error e then 503 else 500)"

definition chat_completions ::
  "('w, 'k, 'a::linordered_field) outside \<Rightarrow> settings \<Rightarrow> string \<Rightarrow> string option \<Rightarrow> string option \<Rightarrow> 'a chat_body
     \<Rightarrow> ('w, 'k, 'a) mother \<Rightarrow> chat_response result \<times> ('w, 'k, 'a) mother" where
  "chat_completions X s completion_id x402_tx paid body m =
     (if x402_enabled s \<and> paid \<notin> {Some ''1'', Some ''verified''} then (http_error 403, m)
      else let pay = (x402_enabled s \<and> paid = Some ''1'')
      in case ensure_model_or_400 s body of Inl e \<Rightarrow> (Inl e, m) | Inr _ \<Rightarrow>
      if cb_stream body
      then (case paid_stream X s pay completion_id x402_tx body m of (evs, m') \<Rightarrow> (Inr (EventStream evs), m'))
      else case engine_generate (out_post X) (out_env X) (out_dflt X) s (out_probe X) (out_ev X) (out_load X)
                  (out_load2 X) (cb_messages body) (cb_max_tokens body) (cb_temperature body) (cb_top_p body)
                  (mo_reg m, mo_engine m) of
             (res, r1, en) \<Rightarrow>
               (let m1 = m\<lparr>mo_reg := r1, mo_engine := en\<rparr>
                in if out_late X then (http_error 503, m1)
                   else case res of Inl e \<Rightarrow> (http_error (generate_error_status e), m1) | Inr g \<Rightarrow>
                   case (if pay
                         then (case run_payout X s completion_id x402_tx m1 of
                                 (Inr rc, m2) \<Rightarrow> (rc, m2) | (Inl _, m2) \<Rightarrow> (None, m2))
                         else (None, m1)) of
                     (receipt, m2) \<Rightarrow>
                       (Inr (Completion
                          \<lparr>cc_id = completion_id, cc_model = model_name s, cc_text = gr_text g,
                           cc_finish_reason = gr_finish_reason g, cc_prompt_tokens = gr_prompt_tokens g,
                           cc_completion_tokens = gr_completion_tokens g,
                           cc_total_tokens = gr_prompt_tokens g + gr_completion_tokens g,
                           cc_payment = receipt\<rparr>), m2)))"

end
