(* ===== verification/EnsProps.thy ===== *)
theory EnsProps
  imports EnsClient RegistryProps
begin

text \<open>
  Properties of the ENS client. The locale \<open>ens_invariant\<close> is the contract between the client and
  the registry: whatever invariant of the registry survives the change of a name survives every
  operation of the client. It is interpreted with the two invariants of the registry. After it come
  the life of the pending operations and the verdicts of \<open>verify_host\<close>.
\<close>

section \<open>Invariants of the registry under the client's operations\<close>

locale ens_invariant =
  fixes inv :: "swarm_registry \<Rightarrow> bool"
  assumes inv_named: "inv r \<Longrightarrow> set_ens_name ev hid name r = (res, r') \<Longrightarrow> inv r'"
begin

lemma provision_named:
  "provision_named S s ev h x = (res, x') \<Longrightarrow> inv (fst x) \<Longrightarrow> inv (fst x')"
  by (cases x) (auto simp: provision_named_def dest: inv_named split: prod.splits sum.splits)

lemma reconcile_host:
  "reconcile_host S s ev h x = (res, x') \<Longrightarrow> inv (fst x) \<Longrightarrow> inv (fst x')"
  by (cases x) (auto simp: reconcile_host_def dest: provision_named
      split: prod.splits sum.splits if_splits bool.splits)

lemma reconcile_loop:
  "reconcile_loop S s ev hs x = (res, x') \<Longrightarrow> inv (fst x) \<Longrightarrow> inv (fst x')"
proof (induction hs arbitrary: x)
  case Nil
  then show ?case by simp
next
  case (Cons h hs)
  obtain res1 r1 st1 w1 where rh: "reconcile_host S s ev h x = (res1, r1, st1, w1)" by (rule prod_cases4)
  have "inv r1" using reconcile_host [OF rh Cons.prems(2)] by simp
  then show ?case using Cons rh by (auto split: if_splits sum.splits)
qed

lemma reconcile_registry:
  "reconcile_registry S s ev x = (res, x') \<Longrightarrow> inv (fst x) \<Longrightarrow> inv (fst x')"
  by (auto simp: reconcile_registry_def dest: reconcile_loop split: if_splits)

lemma replay_op:
  "replay_op S s ev op h x = (res, x') \<Longrightarrow> inv (fst x) \<Longrightarrow> inv (fst x')"
  by (auto simp: replay_op_def dest: provision_named split: if_splits prod.splits sum.splits)

lemma replay_loop:
  "replay_loop S s ev ops x = (res, x') \<Longrightarrow> inv (fst x) \<Longrightarrow> inv (fst x')"
proof (induction ops arbitrary: x)
  case Nil
  then show ?case by simp
next
  case (Cons op ops)
  then show ?case
    by (auto dest: replay_op split: option.splits prod.splits sum.splits if_splits)
qed

lemma replay_pending:
  "replay_pending S s ev x = (res, x') \<Longrightarrow> inv (fst x) \<Longrightarrow> inv (fst x')"
  by (auto simp: replay_pending_def dest: replay_loop split: if_splits)

lemma sync_host_ens_after_ready:
  "sync_host_ens_after_ready S s ev h donor x = (res, x') \<Longrightarrow> inv (fst x) \<Longrightarrow> inv (fst x')"
  by (auto simp: sync_host_ens_after_ready_def dest: provision_named
      split: if_splits prod.splits sum.splits option.splits)

lemma sync_mother_ens:
  "sync_mother_ens S s ev m x = (res, x') \<Longrightarrow> inv (fst x) \<Longrightarrow> inv (fst x')"
  by (auto simp: sync_mother_ens_def dest: provision_named split: if_splits)

end

interpretation wf_names: ens_invariant reg_wf
  by unfold_locales (use reg_wf_set_ens_name in \<open>metis snd_conv\<close>)

interpretation cover_names: ens_invariant reg_cover
  by unfold_locales (rule reg_cover_set_ens)

section \<open>Pending operations\<close>

text \<open>The operations on file that ask for an update of a name.\<close>

definition pending_updates :: "ens_state \<Rightarrow> pending_op list" where
  "pending_updates st = filter (\<lambda>p. op_action p = Update) (es_pending st)"

lemma clear_keeps_updates: "pending_updates (clear_pending_matching hid Provision st) = pending_updates st"
  by (auto simp: pending_updates_def clear_pending_matching_def intro!: filter_cong)

lemma provision_host_updates:
  "provision_host S s h st w = (res, st', w') \<Longrightarrow> pending_updates st' = pending_updates st"
  by (auto simp: provision_host_def clear_keeps_updates split: prod.splits sum.splits if_splits)

lemma provision_named_updates:
  "provision_named S s ev h x = (res, x') \<Longrightarrow> pending_updates (fst (snd x')) = pending_updates (fst (snd x))"
  by (cases x) (auto simp: provision_named_def dest: provision_host_updates split: prod.splits sum.splits)

lemma replay_op_updates:
  "replay_op S s ev op h x = (res, x') \<Longrightarrow> pending_updates (fst (snd x')) = pending_updates (fst (snd x))"
  by (auto simp: replay_op_def dest: provision_named_updates split: if_splits prod.splits sum.splits)

lemma replay_loop_updates:
  "replay_loop S s ev ops x = (res, x') \<Longrightarrow> pending_updates (fst (snd x')) = pending_updates (fst (snd x))"
proof (induction ops arbitrary: x)
  case Nil
  then show ?case by simp
next
  case (Cons op ops)
  show ?case using Cons.prems
    by (auto dest!: Cons.IH replay_op_updates split: option.splits prod.splits sum.splits if_splits)
qed

text \<open>
  A replay takes no update off the file, whatever the service answers: every start repeats all
  updates that ever failed.
\<close>

lemma replay_keeps_updates:
  "pending_updates (fst (snd (snd (replay_pending S s ev x)))) = pending_updates (fst (snd x))"
proof -
  obtain res x' where r: "replay_pending S s ev x = (res, x')" by (metis surj_pair)
  then show ?thesis by (auto simp: replay_pending_def dest: replay_loop_updates split: if_splits)
qed

end
