(* ===== verification/PayoutProps.thy ===== *)
theory PayoutProps
  imports Payouts
begin

text \<open>
  The properties of the redistribution: every transfer balances and credits only hosts, at most
  one transfer is made, amounts follow the layers, a failed audit record does not lose a payout,
  and the identity check stops a direct payout but not one through the escrow contract.
\<close>

section \<open>Plans and batches\<close>

definition paid :: "host_record \<Rightarrow> bool" where
  "paid h \<longleftrightarrow> truthy_str (hedera_account_id h) \<and> 0 < layers_hosted h"

lemma plan_payouts_Inr:
  "plan_payouts s verify hs = Inr planned \<Longrightarrow>
   verify_hosts_for_payout s verify hs = Inr () \<and> planned = map (payout_of s) (filter paid hs)"
  by (auto simp: plan_payouts_def rbind_Inr_iff paid_def not_le intro!: arg_cong [where f = "map (payout_of s)"] filter_cong)

lemma payout_of_fields [simp]:
  "po_amount (payout_of s h) = layers_hosted h * cost_per_layer_tinybars s"
  "po_account (payout_of s h) = the (hedera_account_id h)"
  "po_layers (payout_of s h) = layers_hosted h" "po_host_id (payout_of s h) = host_id h"
  by (simp_all add: payout_of_def)

lemma sum_payouts:
  "sum_list (map po_amount (map (payout_of s) hs)) = cost_per_layer_tinybars s * sum_list (map layers_hosted hs)"
  by (induction hs) (simp_all add: algebra_simps)

lemma sum_transfers_le:
  assumes "\<forall>p \<in> set planned. 0 \<le> po_amount p"
  shows "sum_list (map po_amount (transfers_of s planned)) \<le> sum_list (map po_amount planned)"
  unfolding transfers_of_def using assms by (intro sum_list_filter_le) auto

lemma batch_balanced: "sum_list (map snd (transfer_batch mother transfers)) = 0"
  by (simp add: transfer_batch_def comp_def)

lemma batch_credits:
  "(a, x) \<in> set (tl (transfer_batch mother (transfers_of s planned))) \<Longrightarrow>
   x > 0 \<and> Some a \<noteq> mother_account_id s \<and> (\<exists>p \<in> set planned. po_account p = a \<and> po_amount p = x)"
  by (auto simp: transfer_batch_def transfers_of_def)

section \<open>What reaches the ledger\<close>

text \<open>
  A ledger that only records the transfer batches it is given. Topics, messages and contract
  calls leave it alone, and every call may answer with anything.
\<close>

definition records_transfers :: "((string \<times> int) list list, 'k) hedera \<Rightarrow> bool" where
  "records_transfers H \<longleftrightarrow> (\<forall>c b w. snd (sdk_transfer H c b w) = w @ [b])
     \<and> (\<forall>c m w. snd (sdk_new_topic H c m w) = w) \<and> (\<forall>c t p w. snd (sdk_submit H c t p w) = w)
     \<and> (\<forall>c e w. snd (sdk_contract H c e w) = w)"

lemma create_topic_world: "records_transfers H \<Longrightarrow> snd (snd (create_topic H s ps w)) = w"
  by (auto simp: create_topic_def records_transfers_def Let_def split: prod.splits sum.splits) (metis snd_conv)+

lemma ensure_hcs_topic_world: "records_transfers H \<Longrightarrow> ensure_hcs_topic H s ps w = (t, ps', w') \<Longrightarrow> w' = w"
  using create_topic_world [of H s ps w]
  by (auto simp: ensure_hcs_topic_def split: if_splits option.splits)

lemma audit_log_world: "records_transfers H \<Longrightarrow> audit_log H s t p ps w = (sq, ps', w') \<Longrightarrow> w' = w"
  by (auto simp: audit_log_def records_transfers_def split: prod.splits sum.splits if_splits)
    (metis snd_conv)+

lemma release_world:
  assumes "records_transfers H"
  shows "snd (release H s rid hs cost w) = w"
proof -
  have "snd (sdk_contract H c e w) = w" for c e using assms by (simp add: records_transfers_def)
  then show ?thesis
    by (auto simp: release_def Let_def split: option.splits prod.splits sum.splits) (metis snd_conv)+
qed

lemma redistribute_escrow_world:
  assumes H: "records_transfers H" and "redistribute_escrow H s rid x out ps w = (rc, ps', w')"
  shows "w' = w"
  using assms(2) by (auto simp: redistribute_escrow_def split: prod.splits
      dest!: ensure_hcs_topic_world [OF H] audit_log_world [OF H])

lemma redistribute_direct_world:
  assumes H: "records_transfers H" and m: "mother_account_id s = Some mother"
    and rd: "redistribute_direct H s verify rid hs x ps w = (res, ps', w')"
  shows "w' = w \<or> (\<exists>planned. plan_payouts s verify hs = Inr planned
    \<and> w' = w @ [transfer_batch mother (transfers_of s planned)])"
proof -
  have tr: "w1 = w @ [b]" if "sdk_transfer H c b w = (r, w1)" for c b r w1
    using H that by (metis records_transfers_def snd_conv)
  show ?thesis
    using rd m by (auto simp: redistribute_direct_def Let_def split: prod.splits sum.splits if_splits
        dest!: tr ensure_hcs_topic_world [OF H] audit_log_world [OF H])
qed

lemma redistribute_world:
  assumes H: "records_transfers H" and m: "mother_account_id s = Some mother"
    and rd: "redistribute H s verify rid hs x ps w = (res, ps', w')"
  shows "w' = w \<or> (\<exists>planned. plan_payouts s verify hs = Inr planned
    \<and> w' = w @ [transfer_batch mother (transfers_of s planned)])"
proof -
  obtain svc ps0 where g: "get_escrow_service s ps = (svc, ps0)" by fastforce
  obtain rel w1 where r: "(if escrow_enabled svc then release H svc rid hs (cost_per_layer_tinybars s) w
      else (Inr None, w)) = (rel, w1)" by fastforce
  then have w1: "w1 = w" using release_world [OF H, of svc rid hs "cost_per_layer_tinybars s" w]
    by (auto split: if_splits)
  show ?thesis
  proof (cases "rel = Inr None \<and> payouts_enabled s")
    case True
    then have "redistribute_direct H s verify rid hs x ps0 w = (res, ps', w')"
      using rd g r w1 by (simp add: redistribute_def)
    then show ?thesis by (rule redistribute_direct_world [OF H m])
  next
    case False
    then show ?thesis
      using rd g r w1 redistribute_escrow_world [OF H]
      by (auto simp: redistribute_def split: sum.splits option.splits prod.splits if_splits)
  qed
qed

text \<open>C16. A redistribution makes at most one transfer. Its entries add up to zero: the mother is debited what
  the hosts are credited, every credit is positive, goes to another account than the mother's,
  and is the layer count of a paid host times the price of a layer.\<close>

theorem redistribute_transfers_once:
  assumes "records_transfers H" and "mother_account_id s = Some mother"
    and "redistribute H s verify rid hs x ps [] = (res, ps', log)"
  shows "log = [] \<or> (\<exists>total credits. log = [(mother, - total) # credits] \<and> total = sum_list (map snd credits)
    \<and> (\<forall>(a, v) \<in> set credits. 0 < v \<and> a \<noteq> mother
        \<and> (\<exists>h \<in> set hs. paid h \<and> hedera_account_id h = Some a \<and> v = layers_hosted h * cost_per_layer_tinybars s)))"
proof -
  from redistribute_world [OF assms] show ?thesis
  proof (elim disjE exE conjE)
    fix planned
    assume p: "plan_payouts s verify hs = Inr planned" and l: "log = [] @ [transfer_batch mother (transfers_of s planned)]"
    let ?credits = "map (\<lambda>p. (po_account p, po_amount p)) (transfers_of s planned)"
    have planned: "planned = map (payout_of s) (filter paid hs)" using plan_payouts_Inr [OF p] by simp
    have "\<forall>(a, v) \<in> set ?credits. 0 < v \<and> a \<noteq> mother
        \<and> (\<exists>h \<in> set hs. paid h \<and> hedera_account_id h = Some a \<and> v = layers_hosted h * cost_per_layer_tinybars s)"
      using assms(2) by (auto simp: planned transfers_of_def paid_def truthy_str_iff)
    moreover have "log = [(mother, - sum_list (map snd ?credits)) # ?credits]"
      using l by (simp add: transfer_batch_def comp_def)
    ultimately show ?thesis by blast
  qed simp
qed

section \<open>A concrete service\<close>

definition ex_hedera :: "bool \<Rightarrow> ((string \<times> int) list list, string) hedera" where
  "ex_hedera audit =
     \<lparr>sdk_ecdsa = Some, sdk_key = Some, sdk_account_ok = (\<lambda>a. a \<noteq> []),
      sdk_transfer = (\<lambda>c b w. (Inr ''tx-1'', w @ [b])),
      sdk_new_topic = (\<lambda>c m w. if audit then (Inr (''0.0.9'', ''0.0.9''), w) else (Inl RuntimeError, w)),
      sdk_submit = (\<lambda>c t p w. if audit then (Inr ''1'', w) else (Inl RuntimeError, w)),
      sdk_contract = (\<lambda>c e w. (Inr ''esc-1'', w)),
      sdk_long_zero = (\<lambda>a. a), mirror = (\<lambda>m a. Some ''ab''), sha256 = (\<lambda>r. r)\<rparr>"

definition ex_settings :: settings where
  "ex_settings =
     \<lparr>model_name = ''m'', initial_peers = [], announce_peers = [], api_host = ''0.0.0.0'', api_port = 8000,
      default_max_tokens = 256, hard_max_tokens = 512, load_at_startup = True, cfg_total_layers = 32,
      mother_shard_manager_url = ''http://mother:8001'', heartbeat_ttl_seconds = 60, pending_ttl_seconds = 60,
      reaper_interval_seconds = 15, heartbeat_interval_seconds = 20, ready_verify_timeout_seconds = 120,
      skip_ready_verify = False, inference_timeout_seconds = 180, petals_use_auto_relay = True,
      x402_enabled = True, cost_per_layer_tinybars = 5, mother_account_id = Some ''0.0.2'',
      mother_private_key = Some ''0xkey'', facilitator_url = [], hedera_network = ''hedera-testnet'',
      hcs_topic_id = None, escrow_contract_id = None, escrow_evm_address = None,
      escrow_operator_private_key = Some ''0xkey'', ens_enabled = True, ens_strict = True,
      ens_service_url = [], ens_parent_name = ''blitzwing.eth''\<rparr>"

definition ex_ps :: "string pay_state" where
  "ex_ps = \<lparr>ps_client = None, ps_topic = None, ps_topic_file = None, ps_file_writable = True, ps_escrow = None\<rparr>"

definition ex_host :: "string \<Rightarrow> int \<Rightarrow> string \<Rightarrow> string option \<Rightarrow> host_record" where
  "ex_host hid layers account ens =
     \<lparr>host_id = hid, role = (if hid = ''mother'' then Mother else Contributor), host_model = ''m'',
      block_indices = format_range 0 layers, layers_hosted = layers, public_ip = None,
      shard_manager_url = [], peer_multiaddr = None, status = Online, joined_at = 0, last_heartbeat = 0,
      pending_range = None, donor_host_id = None, donor_shrink_to = None,
      hedera_account_id = Some account, ens_name = ens, petals_running = None\<rparr>"

definition ex_hosts :: "host_record list" where
  "ex_hosts = [ex_host ''mother'' 16 ''0.0.2'' (Some ''mother.blitzwing.eth''),
               ex_host ''host-a'' 16 ''0.0.7'' (Some ''host-a.blitzwing.eth'')]"

lemma ex_hedera_records: "records_transfers (ex_hedera audit)"
  by (simp add: records_transfers_def ex_hedera_def)

lemma ex_settings_facts:
  "mother_account_id ex_settings = Some ''0.0.2''" "cost_per_layer_tinybars ex_settings = 5"
  "payouts_enabled ex_settings" "ens_enabled ex_settings" "ens_strict ex_settings"
  "cfg_total_layers ex_settings = 32" "\<not> escrow_enabled ex_settings"
  by (simp_all add: ex_settings_def payouts_enabled_def escrow_enabled_def)

lemma redistribute_transfers_once_witness:
  "let log = snd (snd (redistribute (ex_hedera True) ex_settings (\<lambda>_. Inr True) ''r1'' ex_hosts None ex_ps [])) in
     log = [[(''0.0.2'', -80), (''0.0.7'', 80)]]
     \<and> (log = [] \<or> (\<exists>total credits. log = [(''0.0.2'', - total) # credits] \<and> total = sum_list (map snd credits)
       \<and> (\<forall>(a, v) \<in> set credits. 0 < v \<and> a \<noteq> ''0.0.2'' \<and> (\<exists>h \<in> set ex_hosts. paid h
            \<and> hedera_account_id h = Some a \<and> v = layers_hosted h * cost_per_layer_tinybars ex_settings))))"
  unfolding Let_def
proof (rule conjI)
  let ?p = "redistribute (ex_hedera True) ex_settings (\<lambda>_. Inr True) ''r1'' ex_hosts None ex_ps []"
  show "snd (snd ?p) = [[(''0.0.2'', -80), (''0.0.7'', 80)]]" by code_simp
  have p: "?p = (fst ?p, fst (snd ?p), snd (snd ?p))" by simp
  show "snd (snd ?p) = [] \<or> (\<exists>total credits. snd (snd ?p) = [(''0.0.2'', - total) # credits]
       \<and> total = sum_list (map snd credits)
       \<and> (\<forall>(a, v) \<in> set credits. 0 < v \<and> a \<noteq> ''0.0.2'' \<and> (\<exists>h \<in> set ex_hosts. paid h
            \<and> hedera_account_id h = Some a \<and> v = layers_hosted h * cost_per_layer_tinybars ex_settings)))"
    by (rule redistribute_transfers_once [OF ex_hedera_records ex_settings_facts(1) p])
qed

section \<open>Amounts, receipts and failures\<close>

text \<open>The plan pays every host with an account and layers, in order, its layers times the price of a
  layer, nobody else, and nothing is planned unless the identity check passed; so a plan costs
  the price of a layer times the layers of the paid hosts.\<close>

lemma plan_follows_layers:
  assumes "plan_payouts s verify hs = Inr planned"
  shows "map po_host_id planned = map host_id (filter paid hs)
    \<and> map po_amount planned = map (\<lambda>h. layers_hosted h * cost_per_layer_tinybars s) (filter paid hs)
    \<and> sum_list (map po_amount planned) = cost_per_layer_tinybars s * sum_list (map layers_hosted (filter paid hs))
    \<and> verify_hosts_for_payout s verify hs = Inr ()"
  using plan_payouts_Inr [OF assms] sum_payouts [of s "filter paid hs"] by simp

lemma plan_follows_layers_witness:
  "\<exists>planned. plan_payouts ex_settings (\<lambda>_. Inr True) ex_hosts = Inr planned \<and> map po_amount planned = [80, 80]"
proof -
  have "(case plan_payouts ex_settings (\<lambda>_. Inr True) ex_hosts of Inr _ \<Rightarrow> True | Inl _ \<Rightarrow> False)" by code_simp
  then obtain planned where p: "plan_payouts ex_settings (\<lambda>_. Inr True) ex_hosts = Inr planned"
    by (auto split: sum.splits)
  have "map (\<lambda>h. layers_hosted h * cost_per_layer_tinybars ex_settings) (filter paid ex_hosts) = [80, 80]"
    unfolding paid_def by code_simp
  with plan_follows_layers [OF p] p show ?thesis by simp
qed

text \<open>Once the transfer is made the payout is reported, whatever happens to the audit record: a topic
  that cannot be created or a message that cannot be sent costs the sequence number, not the
  receipt.\<close>

lemma audit_failure_keeps_receipt:
  assumes "ensure_client H s ps = (Inr c, ps1)" and "plan_payouts s verify hs = Inr planned"
    and "sum_list (map po_amount (transfers_of s planned)) > 0"
    and "sdk_transfer H c (transfer_batch (the (mother_account_id s)) (transfers_of s planned)) w = (Inr tx, w1)"
  shows "\<exists>rc ps' w'. redistribute_direct H s verify rid hs x ps w = (Inr rc, ps', w')
    \<and> rc_payout_tx_id rc = Some tx \<and> rc_hosts rc = map row_of planned \<and> rc_request_id rc = rid"
  using assms by (auto simp: redistribute_direct_def Let_def split: prod.splits)

lemma audit_failure_keeps_receipt_witness:
  "\<exists>rc ps' w'. redistribute_direct (ex_hedera False) ex_settings (\<lambda>_. Inr True) ''r1'' ex_hosts None ex_ps []
     = (Inr rc, ps', w') \<and> rc_payout_tx_id rc = Some ''tx-1''"
proof -
  let ?e = "ensure_client (ex_hedera False) ex_settings ex_ps"
  let ?pl = "plan_payouts ex_settings (\<lambda>_. Inr True) ex_hosts"
  have "(case fst ?e of Inr _ \<Rightarrow> True | Inl _ \<Rightarrow> False)" "(case ?pl of Inr _ \<Rightarrow> True | Inl _ \<Rightarrow> False)" by code_simp+
  then obtain c planned where c: "?e = (Inr c, snd ?e)" and p: "?pl = Inr planned"
    by (auto simp: prod_eq_iff split: sum.splits)
  have "(case ?pl of Inr pl \<Rightarrow> sum_list (map po_amount (transfers_of ex_settings pl)) > 0 | Inl _ \<Rightarrow> False)" by code_simp
  then have pos: "sum_list (map po_amount (transfers_of ex_settings planned)) > 0" using p by simp
  have "\<exists>w1. sdk_transfer (ex_hedera False) c b [] = (Inr ''tx-1'', w1)" for b by (simp add: ex_hedera_def)
  then obtain w1 where "sdk_transfer (ex_hedera False) c
      (transfer_batch (the (mother_account_id ex_settings)) (transfers_of ex_settings planned)) [] = (Inr ''tx-1'', w1)"
    by blast
  from audit_failure_keeps_receipt [OF c p pos this] show ?thesis by blast
qed

lemma ens_failures_missing:
  "h \<in> set hs \<Longrightarrow> paid h \<Longrightarrow> ens_strict s \<Longrightarrow> \<not> truthy_str (ens_name h) \<Longrightarrow>
   ens_failures s verify hs \<noteq> Inr []"
  by (induction hs) (auto simp: paid_def rbind_Inr_iff)

text \<open>With strict identities, one paid host without a name stops a direct payout before any transfer.\<close>

lemma strict_ens_blocks_direct_payout:
  assumes "records_transfers H" and "ens_enabled s" and "ens_strict s"
    and "h \<in> set hs" and "paid h" and "\<not> truthy_str (ens_name h)" and "mother_account_id s = Some mother"
    and "redistribute_direct H s verify rid hs x ps w = (res, ps', w')"
  shows "w' = w \<and> (\<exists>e. res = Inl e)"
proof -
  have nf: "ens_failures s verify hs \<noteq> Inr []" by (rule ens_failures_missing [OF assms(4,5,3,6)])
  have "\<exists>e. plan_payouts s verify hs = Inl e"
  proof (cases "ens_failures s verify hs")
    case (Inl e)
    then show ?thesis using assms(2) by (simp add: plan_payouts_def verify_hosts_for_payout_def)
  next
    case (Inr fs)
    with nf assms(2) show ?thesis by (simp add: plan_payouts_def verify_hosts_for_payout_def)
  qed
  with assms(8) show ?thesis by (auto simp: redistribute_direct_def split: prod.splits sum.splits)
qed

lemma strict_ens_blocks_direct_payout_witness:
  "let p = redistribute_direct (ex_hedera True) ex_settings (\<lambda>_. Inr True) ''r1''
             [ex_host ''host-b'' 4 ''0.0.8'' None] None ex_ps [] in snd (snd p) = [] \<and> (\<exists>e. fst p = Inl e)"
proof -
  let ?h = "ex_host ''host-b'' 4 ''0.0.8'' None"
  let ?p = "redistribute_direct (ex_hedera True) ex_settings (\<lambda>_. Inr True) ''r1'' [?h] None ex_ps []"
  have h: "?h \<in> set [?h]" "paid ?h" "\<not> truthy_str (ens_name ?h)" by (simp_all add: paid_def ex_host_def)
  have p: "?p = (fst ?p, fst (snd ?p), snd (snd ?p))" by simp
  from strict_ens_blocks_direct_payout [OF ex_hedera_records ex_settings_facts(4,5) h ex_settings_facts(1) p]
  show ?thesis by (simp add: Let_def)
qed

text \<open>The escrow path never runs the identity check: when the contract releases, the outcome is the
  same for every answer the check would have given.\<close>

lemma escrow_skips_identity_check:
  assumes "get_escrow_service s ps = (svc, ps0)" and "escrow_enabled svc"
    and "release H svc rid hs (cost_per_layer_tinybars s) w = (Inr (Some out), w1)"
  shows "redistribute H s verify rid hs x ps w = redistribute H s verify' rid hs x ps w
    \<and> (\<exists>rc ps' w'. redistribute H s verify rid hs x ps w = (Inr rc, ps', w') \<and> rc_hosts rc = eo_hosts out)"
  using assms by (auto simp: redistribute_def redistribute_escrow_def split: prod.splits)

definition ex_escrow_settings :: settings where
  "ex_escrow_settings = ex_settings\<lparr>escrow_contract_id := Some ''0.0.5'', escrow_evm_address := Some ''0xe''\<rparr>"

lemma escrow_skips_identity_check_witness:
  "\<exists>rc ps' w'. redistribute (ex_hedera True) ex_escrow_settings (\<lambda>_. Inr False) ''r1''
     [ex_host ''host-b'' 4 ''0.0.8'' None] None ex_ps [] = (Inr rc, ps', w')
     \<and> map row_amount (rc_hosts rc) = [20]"
proof -
  let ?hs = "[ex_host ''host-b'' 4 ''0.0.8'' None]"
  let ?rel = "release (ex_hedera True) ex_escrow_settings ''r1'' ?hs (cost_per_layer_tinybars ex_escrow_settings) []"
  have g: "get_escrow_service ex_escrow_settings ex_ps = (ex_escrow_settings, ex_ps\<lparr>ps_escrow := Some ex_escrow_settings\<rparr>)"
    by (simp add: get_escrow_service_def ex_ps_def)
  have en: "escrow_enabled ex_escrow_settings" by code_simp
  have "(case fst ?rel of Inr (Some out) \<Rightarrow> map row_amount (eo_hosts out) = [20] | _ \<Rightarrow> False)" by code_simp
  then obtain out where out: "fst ?rel = Inr (Some out)" "map row_amount (eo_hosts out) = [20]"
    by (auto split: sum.splits option.splits)
  then have "?rel = (Inr (Some out), snd ?rel)" by (simp add: prod_eq_iff)
  from escrow_skips_identity_check [OF g en this] out(2) show ?thesis by metis
qed

text \<open>The total on a direct receipt is the planned total, so it exceeds what was transferred by the
  share planned for the mother's own account.\<close>

lemma receipt_total_counts_mother:
  assumes "redistribute_direct H s verify rid hs x ps w = (Inr rc, ps', w')"
    and "0 < cost_per_layer_tinybars s"
  shows "\<exists>planned. plan_payouts s verify hs = Inr planned
    \<and> rc_total rc = sum_list (map po_amount (transfers_of s planned))
        + sum_list (map po_amount (filter (\<lambda>p. Some (po_account p) = mother_account_id s) planned))"
proof -
  obtain planned where p: "plan_payouts s verify hs = Inr planned"
    and t: "rc_total rc = sum_list (map po_amount planned)"
    using assms(1) by (auto simp: redistribute_direct_def Let_def split: prod.splits sum.splits if_splits)
  have pos: "\<forall>q \<in> set planned. 0 < po_amount q"
    using plan_payouts_Inr [OF p] assms(2) by (auto simp: paid_def)
  have "sum_list (map po_amount qs) = sum_list (map po_amount (transfers_of s qs))
        + sum_list (map po_amount (filter (\<lambda>p. Some (po_account p) = mother_account_id s) qs))"
    if "\<forall>q \<in> set qs. 0 < po_amount q" for qs
    using that by (induction qs) (auto simp: transfers_of_def)
  from this [OF pos] p t show ?thesis by (intro exI [of _ planned]) (simp only:)
qed

lemma receipt_total_counts_mother_witness:
  "\<exists>rc ps' w' planned. redistribute_direct (ex_hedera True) ex_settings (\<lambda>_. Inr True) ''r1'' ex_hosts None ex_ps []
     = (Inr rc, ps', w') \<and> rc_total rc = sum_list (map po_amount (transfers_of ex_settings planned))
        + sum_list (map po_amount (filter (\<lambda>p. Some (po_account p) = mother_account_id ex_settings) planned))
     \<and> rc_total rc = 160"
proof -
  let ?p = "redistribute_direct (ex_hedera True) ex_settings (\<lambda>_. Inr True) ''r1'' ex_hosts None ex_ps []"
  have "(case fst ?p of Inr rc \<Rightarrow> rc_total rc = 160 | Inl _ \<Rightarrow> False)" by code_simp
  then obtain rc where rc: "fst ?p = Inr rc" "rc_total rc = 160" by (auto split: sum.splits)
  then have p: "?p = (Inr rc, fst (snd ?p), snd (snd ?p))" by (simp add: prod_eq_iff)
  have "0 < cost_per_layer_tinybars ex_settings" using ex_settings_facts(2) by simp
  from receipt_total_counts_mother [OF p this] p rc(2) show ?thesis by metis
qed

section \<open>The escrow call\<close>

text \<open>A release calls the contract with one address per amount, positive amounts only, in the order
  of the hosts, and reports their sum.\<close>

lemma release_call_matches:
  assumes "release H s rid hs cost w = (Inr (Some out), w')"
  shows "eo_total out = sum_list (map row_amount (eo_hosts out))
    \<and> (\<forall>r \<in> set (eo_hosts out). 0 < row_amount r \<and> row_amount r = row_layers r * cost
         \<and> row_evm r = Some (resolve_evm_address H (row_account r)
              (py_lower (if hedera_network s = [] then ''hedera-testnet'' else hedera_network s))))
    \<and> map row_host_id (eo_hosts out) = map row_host_id (escrow_rows hs cost) \<and> eo_hosts out \<noteq> []"
proof -
  let ?rows = "escrow_rows hs cost"
  let ?net = "py_lower (if hedera_network s = [] then ''hedera-testnet'' else hedera_network s)"
  have rows: "?rows \<noteq> []" and out: "eo_total out = sum_list (map row_amount ?rows)"
    "eo_hosts out = map2 (\<lambda>r a. r\<lparr>row_evm := Some a\<rparr>) ?rows (map (\<lambda>r. resolve_evm_address H (row_account r) ?net) ?rows)"
    using assms by (auto simp: release_def Let_def split: if_splits option.splits prod.splits sum.splits)
  have m2: "map2 f xs (map g xs) = map (\<lambda>x. f x (g x)) xs" for f :: "payout_row \<Rightarrow> string \<Rightarrow> payout_row" and g xs
    by (induction xs) auto
  have amt: "0 < row_amount r \<and> row_amount r = row_layers r * cost" if "r \<in> set ?rows" for r
    using that by (auto simp: escrow_rows_def)
  then have "\<forall>r \<in> set ?rows. 0 < row_layers r * cost \<and> row_amount r = row_layers r * cost" by metis
  then show ?thesis unfolding out m2 using rows by (simp add: comp_def)
qed

lemma release_call_matches_witness:
  "\<exists>out w'. release (ex_hedera True) ex_escrow_settings ''r1'' ex_hosts 5 [] = (Inr (Some out), w')
     \<and> eo_total out = sum_list (map row_amount (eo_hosts out)) \<and> eo_total out = 160"
proof -
  let ?rel = "release (ex_hedera True) ex_escrow_settings ''r1'' ex_hosts 5 []"
  have "(case fst ?rel of Inr (Some out) \<Rightarrow> eo_total out = 160 | _ \<Rightarrow> False)" by code_simp
  then obtain out where out: "fst ?rel = Inr (Some out)" "eo_total out = 160"
    by (auto split: sum.splits option.splits)
  then have p: "?rel = (Inr (Some out), snd ?rel)" by (simp add: prod_eq_iff)
  from release_call_matches [OF p] p out(2) show ?thesis by blast
qed

end
