(* ===== verification/MotherProps.thy ===== *)
theory MotherProps
  imports MotherApi EnsProps PayoutProps
begin

text \<open>
  Properties of the mother's application: the invariant every request keeps, the hand-off, and who
  is paid when.
\<close>

section \<open>Requests and runs\<close>

text \<open>A request, or a turn of a background activity; each comes with what the outside answers then.\<close>

datatype 'a request =
    Join join_body
  | Ready string "string option"
  | Heartbeat string heartbeat_body
  | Leave string
  | ListHosts
  | Manifest
  | Chat string "string option" "string option" "'a chat_body"
  | InternalPayout string "string option" "string option"
  | Reaper
  | RunTask "nat \<Rightarrow> 'a loader"

fun serve ::
  "settings \<Rightarrow> ('w, 'k, 'a::linordered_field) outside \<times> 'a request \<Rightarrow> ('w, 'k, 'a) mother \<Rightarrow> ('w, 'k, 'a) mother" where
  "serve s (X, Join body) m = snd (hosts_join X s body m)"
| "serve s (X, Ready hid peer) m = snd (hosts_ready X s hid peer m)"
| "serve s (X, Heartbeat hid body) m = snd (hosts_heartbeat X hid body m)"
| "serve s (X, Leave hid) m = snd (hosts_leave X s hid m)"
| "serve s (X, ListHosts) m = snd (hosts_list X s m)"
| "serve s (X, Manifest) m = snd (swarm_manifest_route X s m)"
| "serve s (X, Chat cid tx hdr body) m = snd (chat_completions X s cid tx hdr body m)"
| "serve s (X, InternalPayout rid tx hdr) m = snd (internal_payout X s rid tx hdr m)"
| "serve s (X, Reaper) m = reaper_round X s m"
| "serve s (X, RunTask loads) m =
     (case mo_tasks m of
        [] \<Rightarrow> m
      | t # ts \<Rightarrow> m\<lparr>mo_tasks := ts, mo_engine := run_task X s loads t (mo_engine m)\<rparr>)"

definition serve_all ::
  "settings \<Rightarrow> (('w, 'k, 'a::linordered_field) outside \<times> 'a request) list \<Rightarrow> ('w, 'k, 'a) mother \<Rightarrow> ('w, 'k, 'a) mother" where
  "serve_all s reqs m = fold (serve s) reqs m"

section \<open>The client\<close>

text \<open>A loaded client has no load error, and its extra peers are real addresses.\<close>

definition engine_ok :: "'a engine \<Rightarrow> bool" where
  "engine_ok en \<longleftrightarrow> (is_loaded en \<longrightarrow> en_load_error en = None) \<and> [] \<notin> set (en_extra_peers en)"

named_theorems engine_intros

lemma engine_ok_init [engine_intros]: "engine_ok engine_init"
  by (simp add: engine_ok_def engine_init_def is_loaded_def)

lemma engine_ok_add_peer [engine_intros]: "engine_ok en \<Longrightarrow> engine_ok (add_peer p en)"
  by (auto simp: engine_ok_def add_peer_def is_loaded_def)

lemma engine_ok_set_peers [engine_intros]: "engine_ok en \<Longrightarrow> engine_ok (set_peers ps en)"
  by (auto simp: engine_ok_def set_peers_def is_loaded_def)

lemma engine_ok_load: "engine_load s load en = (res, en') \<Longrightarrow> engine_ok en \<Longrightarrow> engine_ok en'"
  by (auto simp: engine_load_def engine_ok_def is_loaded_def Let_def split: if_splits sum.splits option.splits)

lemma engine_ok_reload: "engine_reload s load en = (res, en') \<Longrightarrow> engine_ok en \<Longrightarrow> engine_ok en'"
  unfolding engine_reload_def by (erule engine_ok_load) (simp add: engine_ok_def unload_def is_loaded_def)

lemma engine_ok_attempts: "engine_ok en \<Longrightarrow> engine_ok (snd (reload_attempts s ls en))"
  by (induction ls arbitrary: en) (auto split: prod.splits sum.splits dest: engine_ok_reload)

lemma engine_ok_generate_once:
  "generate_once s load msgs mt t p en = (res, en') \<Longrightarrow> engine_ok en \<Longrightarrow> engine_ok en'"
  by (auto simp: generate_once_def Let_def dest: engine_ok_load split: prod.splits sum.splits option.splits)

lemma engine_ok_retry:
  assumes "\<And>en res en'. first en = (res, en') \<Longrightarrow> engine_ok en \<Longrightarrow> engine_ok en'"
    and "\<And>en res en'. second en = (res, en') \<Longrightarrow> engine_ok en \<Longrightarrow> engine_ok en'"
    and "retry_missing_blocks first second s load2 en = (res, en')" and "engine_ok en"
  shows "engine_ok en'"
proof -
  obtain r1 en1 where f: "first en = (r1, en1)" by fastforce
  then have ok1: "engine_ok en1" using assms(1,4) by blast
  obtain r2 en2 where rl: "engine_reload s load2 en1 = (r2, en2)" by fastforce
  then have ok2: "engine_ok en2" using ok1 engine_ok_reload by blast
  obtain r3 en3 where sc: "second en2 = (r3, en3)" by fastforce
  then have ok3: "engine_ok en3" using ok2 assms(2) by blast
  show ?thesis using assms(3) f rl sc ok1 ok2 ok3
    by (auto simp: retry_missing_blocks_def split: sum.splits py_error.splits)
qed

lemma engine_ok_generate:
  assumes "engine_generate post env dflt s probe ev load load2 msgs mt t p x = (res, r', en')"
    and "engine_ok (snd x)"
  shows "engine_ok en'"
proof -
  have ok: "engine_ok (set_peers ps (snd x))" for ps using assms(2) by (rule engine_ok_set_peers)
  have "engine_ok en2" if "retry_missing_blocks (generate_once s load msgs mt t p)
      (generate_once s load2 msgs mt t p) s load2 (set_peers ps (snd x)) = (res2, en2)" for ps res2 en2
    by (rule engine_ok_retry [OF _ _ that ok]) (blast intro: engine_ok_generate_once)+
  with assms ok show ?thesis
    by (auto simp: engine_generate_def Let_def split: prod.splits sum.splits option.splits)
qed

lemma engine_ok_stream_once:
  "stream_once s load msgs mt t p en = (g, en') \<Longrightarrow> engine_ok en \<Longrightarrow> engine_ok en'"
  by (auto simp: stream_once_def Let_def dest: engine_ok_load split: prod.splits sum.splits option.splits)

lemma engine_ok_stream:
  "stream_generate s load load2 msgs mt t p en = (g, en') \<Longrightarrow> engine_ok en \<Longrightarrow> engine_ok en'"
  by (auto simp: stream_generate_def dest!: engine_ok_stream_once engine_ok_reload
      split: prod.splits sum.splits if_splits)

lemma engine_ok_verify:
  "verify_blocks_visible s load views blocks en = (res, en') \<Longrightarrow> engine_ok en \<Longrightarrow> engine_ok en'"
  by (auto simp: verify_blocks_visible_def dest: engine_ok_load split: prod.splits sum.splits)

lemma engine_ok_task: "engine_ok en \<Longrightarrow> engine_ok (run_task X s loads t en)"
  by (cases t) (auto simp: run_task_def schedule_reload_def engine_ok_attempts
      intro: engine_ok_verify [OF surjective_pairing])

section \<open>The registry\<close>

definition mother_ok :: "('w, 'k, 'a) mother \<Rightarrow> bool" where
  "mother_ok m \<longleftrightarrow> reg_wf (mo_reg m) \<and> engine_ok (mo_engine m)"

named_theorems mother_fields

lemma add_task_fields [simp]:
  "mo_reg (add_task t m) = mo_reg m" "mo_engine (add_task t m) = mo_engine m"
  "mo_world (add_task t m) = mo_world m" "mo_pay (add_task t m) = mo_pay m" "mo_ens (add_task t m) = mo_ens m"
  by (simp_all add: add_task_def)

lemma run_payout_frame [mother_fields]:
  "run_payout X s cid tx m = (res, m') \<Longrightarrow> mo_reg m' = mo_reg m \<and> mo_engine m' = mo_engine m"
  by (auto simp: run_payout_def Let_def split: if_splits prod.splits)

lemma mother_ok_payout: "mother_ok m \<Longrightarrow> mother_ok (snd (run_payout X s cid tx m))"
  using run_payout_frame [OF surjective_pairing, of X s cid tx m] by (simp add: mother_ok_def)

lemma mother_ok_join: "hosts_join X s body m = (res, m') \<Longrightarrow> mother_ok m \<Longrightarrow> mother_ok m'"
  using reg_wf_join [of "mo_reg m" "out_ev X" "jb_layers body" "jb_public_ip body" "jb_shard_manager_url body"
      "jb_account body"]
  by (auto simp: hosts_join_def mother_ok_def split: if_splits prod.splits sum.splits)

lemma mother_ok_ready_peer: "ready_peer s peer m = (p, m') \<Longrightarrow> mother_ok m \<Longrightarrow> mother_ok m'"
  by (auto simp: ready_peer_def mother_ok_def intro: engine_intros split: if_splits)

lemma mother_ok_call_mark_ready: "call_mark_ready X hid peer m = (res, m') \<Longrightarrow> mother_ok m \<Longrightarrow> mother_ok m'"
  by (auto simp: call_mark_ready_def mother_ok_def Let_def dest: reg_wf_mark_ready split: prod.splits sum.splits)

lemma mother_ok_handoff_now: "handoff_now X s ro hid blocks peer m = (res, m') \<Longrightarrow> mother_ok m \<Longrightarrow> mother_ok m'"
  by (auto simp: handoff_now_def dest!: mother_ok_call_mark_ready split: prod.splits sum.splits if_splits)
    (simp_all add: mother_ok_def)

lemma mother_ok_handoff_verified:
  assumes h: "handoff_verified X s hid blocks peer m = (res, m')" and ok: "mother_ok m"
  shows "mother_ok m'"
proof -
  obtain r1 en1 where rl: "engine_reload s (out_load X) (mo_engine m) = (r1, en1)" by fastforce
  obtain r2 en2 where v: "verify_blocks_visible s (out_load2 X) (out_views X) blocks en1 = (r2, en2)" by fastforce
  have ok1: "engine_ok en1" using engine_ok_reload [OF rl] ok by (simp add: mother_ok_def)
  have ok2: "engine_ok en2" using engine_ok_verify [OF v ok1] .
  have m2: "mother_ok (m\<lparr>mo_engine := en1\<rparr>)" "mother_ok (m\<lparr>mo_engine := en2\<rparr>)"
    using ok ok1 ok2 by (simp_all add: mother_ok_def)
  show ?thesis
    using h rl v m2 by (auto simp: handoff_verified_def dest: mother_ok_call_mark_ready split: sum.splits)
qed

lemma reg_wf_ens_named: "reg_wf r \<Longrightarrow> reg_wf (modify_host k (\<lambda>h. h\<lparr>ens_name := f h\<rparr>) r)"
  by (rule reg_wf_frame) auto

lemma reg_wf_touch: "reg_wf r \<Longrightarrow> reg_wf (modify_host k (\<lambda>h. h) r)"
  by (rule reg_wf_frame) auto

lemma mother_ok_ready_ens: "ready_ens X s donor_id host m = (res, m') \<Longrightarrow> mother_ok m \<Longrightarrow> mother_ok m'"
  by (auto simp: ready_ens_def Let_def mother_ok_def dest: wf_names.sync_host_ens_after_ready
      intro!: reg_wf_ens_named reg_wf_touch split: if_splits sum.splits prod.splits)

lemma mother_ok_ready_body: "ready_body X s hid peer m = (res, m') \<Longrightarrow> mother_ok m \<Longrightarrow> mother_ok m'"
  by (auto simp: ready_body_def Let_def
      dest!: mother_ok_ready_peer mother_ok_handoff_now mother_ok_handoff_verified mother_ok_ready_ens
      split: if_splits sum.splits prod.splits)

lemma mother_ok_ready:
  assumes "hosts_ready X s hid peer m = (res, m')" and "mother_ok m"
  shows "mother_ok m'"
proof -
  obtain res1 m1 where b: "ready_body X s hid peer m = (res1, m1)" by (metis surj_pair)
  have "mother_ok m1" using mother_ok_ready_body [OF b assms(2)] .
  then show ?thesis using assms(1) b
    by (auto simp: hosts_ready_def mother_ok_def dest: reg_wf_leave split: sum.splits prod.splits if_splits)
qed

lemma mother_ok_heartbeat: "hosts_heartbeat X hid body m = (res, m') \<Longrightarrow> mother_ok m \<Longrightarrow> mother_ok m'"
  using reg_wf_apply_heartbeat [of "mo_reg m" "out_ev X" hid body]
  by (auto simp: hosts_heartbeat_def mother_ok_def split: prod.splits sum.splits)

lemma mother_ok_leave: "hosts_leave X s hid m = (res, m') \<Longrightarrow> mother_ok m \<Longrightarrow> mother_ok m'"
  by (auto simp: hosts_leave_def Let_def mother_ok_def dest: reg_wf_leave split: prod.splits sum.splits if_splits)

lemma mother_ok_list: "hosts_list X s m = (res, m') \<Longrightarrow> mother_ok m \<Longrightarrow> mother_ok m'"
  by (auto simp: hosts_list_def Let_def mother_ok_def split: prod.splits sum.splits)

lemma mother_ok_manifest: "swarm_manifest_route X s m = (res, m') \<Longrightarrow> mother_ok m \<Longrightarrow> mother_ok m'"
  using reg_wf_refresh [of "mo_reg m" "out_probe X" "out_ev X"]
  by (auto simp: swarm_manifest_route_def Let_def mother_ok_def split: prod.splits sum.splits)

lemma reg_wf_engine_generate:
  "engine_generate post env dflt s probe ev load load2 msgs mt t p x = (res, r', en') \<Longrightarrow>
   r' = snd (refresh_live_status probe ev (fst x))"
  by (auto simp: engine_generate_def Let_def split: prod.splits sum.splits option.splits)

lemma mother_ok_chat:
  assumes c: "chat_completions X s cid tx hdr body m = (res, m')" and ok: "mother_ok m"
  shows "mother_ok m'"
proof -
  have okp: "mother_ok (snd (paid_stream X s pay cid tx body m))" for pay
  proof -
    obtain g en1 where sg: "stream_generate s (out_load X) (out_load2 X) (cb_messages body) (cb_max_tokens body)
        (cb_temperature body) (cb_top_p body) (mo_engine m) = (g, en1)" by (metis surj_pair)
    have "mother_ok (m\<lparr>mo_engine := en1\<rparr>)" using engine_ok_stream [OF sg] ok by (simp add: mother_ok_def)
    then show ?thesis using sg by (simp add: paid_stream_def Let_def mother_ok_payout)
  qed
  obtain gres r1 en2 where eg: "engine_generate (out_post X) (out_env X) (out_dflt X) s (out_probe X) (out_ev X)
      (out_load X) (out_load2 X) (cb_messages body) (cb_max_tokens body) (cb_temperature body) (cb_top_p body)
      (mo_reg m, mo_engine m) = (gres, r1, en2)" by (rule prod_cases3)
  let ?m1 = "m\<lparr>mo_reg := r1, mo_engine := en2\<rparr>"
  have ok1: "mother_ok ?m1"
    using reg_wf_engine_generate [OF eg] engine_ok_generate [OF eg] ok reg_wf_refresh
    by (simp add: mother_ok_def)
  then have ok2: "mother_ok (snd (run_payout X s cid tx ?m1))" by (rule mother_ok_payout)
  show ?thesis
    using c eg ok okp [of "x402_enabled s \<and> hdr = Some ''1''"] ok1 ok2
    by (auto simp: chat_completions_def Let_def split: if_splits sum.splits prod.splits)
qed

lemma mother_ok_internal: "internal_payout X s rid tx hdr m = (res, m') \<Longrightarrow> mother_ok m \<Longrightarrow> mother_ok m'"
  using mother_ok_payout [of m X s rid tx]
  by (auto simp: internal_payout_def split: if_splits prod.splits sum.splits option.splits)

lemma mother_ok_reaper:
  assumes "mother_ok m"
  shows "mother_ok (reaper_round X s m)"
proof -
  obtain ids1 r1 w1 where p: "reap_stale_pending (out_svc X) (out_ev X) (pending_ttl_seconds s) (mo_reg m) (mo_world m)
    = (ids1, r1, w1)" by (rule prod_cases3)
  obtain ids2 r2 w2 where q: "reap_stale (out_svc X) (out_ev X) (heartbeat_ttl_seconds s) r1 w1 = (ids2, r2, w2)"
    by (rule prod_cases3)
  have "reg_wf r2" using assms reg_wf_reap_stale [OF reg_wf_reap_stale_pending [OF _ p] q]
    by (simp add: mother_ok_def)
  with p q assms show ?thesis by (simp add: reaper_round_def Let_def mother_ok_def)
qed

lemmas mother_ok_handlers =
  mother_ok_join [OF surjective_pairing] mother_ok_ready [OF surjective_pairing]
  mother_ok_heartbeat [OF surjective_pairing] mother_ok_leave [OF surjective_pairing]
  mother_ok_list [OF surjective_pairing] mother_ok_manifest [OF surjective_pairing]
  mother_ok_chat [OF surjective_pairing] mother_ok_internal [OF surjective_pairing] mother_ok_reaper

lemma mother_ok_serve: "mother_ok m \<Longrightarrow> mother_ok (serve s xr m)"
proof (cases xr)
  case (Pair X req)
  assume ok: "mother_ok m"
  show ?thesis
  proof (cases req)
    case (RunTask loads)
    then show ?thesis using Pair ok by (simp add: mother_ok_def engine_ok_task split: list.split)
  qed (simp_all add: Pair ok mother_ok_handlers)
qed

lemma mother_ok_serve_all: "mother_ok m \<Longrightarrow> mother_ok (serve_all s reqs m)"
  unfolding serve_all_def by (induction reqs arbitrary: m) (simp_all add: mother_ok_serve)

section \<open>Start-up\<close>

lemma reg_wf_ens_bootstrap:
  assumes "reg_wf (fst x)"
  shows "reg_wf (fst (ens_bootstrap X s x))"
proof (cases "get_host ''mother'' (fst x)")
  case (Inl e)
  with assms show ?thesis by (simp add: ens_bootstrap_def)
next
  case (Inr mother)
  obtain res1 x1 where 1: "sync_mother_ens (out_ens X) s (out_ev X) mother x = (res1, x1)" by (metis surj_pair)
  obtain res2 x2 where 2: "replay_pending (out_ens X) s (out_ev X) x1 = (res2, x2)" by (metis surj_pair)
  obtain res3 x3 where 3: "reconcile_registry (out_ens X) s (out_ev X) x2 = (res3, x3)" by (metis surj_pair)
  have wf1: "reg_wf (fst x1)" using wf_names.sync_mother_ens [OF 1 assms] .
  have wf2: "reg_wf (fst x2)" using wf_names.replay_pending [OF 2 wf1] .
  have "reg_wf (fst x3)" using wf_names.reconcile_registry [OF 3 wf2] .
  with 1 2 3 Inr wf1 wf2 show ?thesis by (auto simp: ens_bootstrap_def split: sum.splits)
qed

lemma mother_ok_startup_registry:
  assumes "reg_wf r0"
  shows "mother_ok (startup_registry X s st ps w r0)"
proof -
  define r1 where "r1 = (if announce_peers s \<noteq> [] then set_bootstrap_peers (announce_peers s) r0
    else if initial_peers s \<noteq> [] then set_bootstrap_peers (initial_peers s) r0 else r0)"
  define r2 where "r2 = sync_mother_shard_blocks (out_probe X) (mother_shard_manager_url s) r1"
  have "reg_wf r1" using assms by (simp add: r1_def)
  then have "reg_wf r2" using reg_wf_sync_mother
    by (auto simp: r2_def sync_mother_shard_blocks_def split: option.splits)
  then have "reg_wf (fst (if ens_enabled s then ens_bootstrap X s (r2, st, w) else (r2, st, w)))"
    by (simp add: reg_wf_ens_bootstrap)
  then show ?thesis
    unfolding startup_registry_def Let_def r1_def [symmetric] r2_def [symmetric]
    by (auto simp: mother_ok_def engine_ok_init split: prod.splits if_splits)
qed

lemma mother_ok_startup:
  assumes s: "startup X s dsk st ps w = Inr m" and d: "\<forall>data hs. dsk = Saved data \<longrightarrow> file_hosts (out_ev X) data = Inr hs \<longrightarrow> hosts_wf hs"
  shows "mother_ok m"
proof -
  obtain r0 where r0: "init_registry (out_ev X) dsk (model_name s) (cfg_total_layers s)
      (mother_shard_manager_url s) (mother_account_id s) = Inr r0"
    using s by (auto simp: startup_def rbind_Inr_iff)
  have pay: "mother_ok m1 \<Longrightarrow> mother_ok (startup_payouts X s m1)" for m1
    by (simp add: startup_payouts_def mother_ok_def split: prod.splits)
  have client: "mother_ok m1 \<Longrightarrow> mother_ok (startup_client X s m1)" for m1
    by (simp add: startup_client_def mother_ok_def engine_ok_load [OF surjective_pairing])
  have "mother_ok (reaper_round X s (startup_registry X s st ps w r0))"
    by (intro mother_ok_reaper mother_ok_startup_registry reg_wf_init_registry [OF r0 d])
  then have "mother_ok (startup_client X s (startup_payouts X s (reaper_round X s (startup_registry X s st ps w r0))))"
    by (intro pay client)
  with s r0 show ?thesis by (simp add: startup_def)
qed

end
