(* ===== verification/MotherTheorems.thy ===== *)
theory MotherTheorems
  imports MotherProps Complex_Main
begin

text \<open>
  The theorems on the mother's application: the invariant over all runs, the hand-off from the
  contributor's report to the registry, and the payments.
\<close>

section \<open>Every run of requests\<close>

text \<open>C19. Whatever requests come in whatever order after a start, and whatever the outside answers
  (shard managers, ENS, ledger, probes, model loading), the registry keeps its type invariant and
  a client that health reports as loaded has no load error to report.\<close>

theorem mother_app_invariant:
  assumes "startup X s dsk st ps w = Inr m0" and "\<forall>data hs. dsk = Saved data \<longrightarrow> file_hosts (out_ev X) data = Inr hs \<longrightarrow> hosts_wf hs"
  shows "reg_wf (mo_reg (serve_all s reqs m0)) \<and>
    (hr_ok (mother_health s (serve_all s reqs m0)) \<longrightarrow> hr_detail (mother_health s (serve_all s reqs m0)) = None)"
  using mother_ok_serve_all [OF mother_ok_startup [OF assms], of s reqs]
  by (simp add: mother_ok_def engine_ok_def mother_health_def)

section \<open>Readiness\<close>

text \<open>
  A hand-off that fails with a runtime error fails before anything is changed: the registry and the
  world are as before, and the host is there and not online.
\<close>

lemma sync_after_ready_error:
  "sync_host_ens_after_ready S s ev h donor x = (Inl e, x') \<Longrightarrow> is_ens_error e \<or> e = KeyError"
  by (cases x) (auto simp: sync_host_ens_after_ready_def provision_named_def provision_host_def update_host_def
      ens_post_def set_ens_name_def split: if_splits prod.splits sum.splits option.splits http_reply.splits)

lemma ready_ens_error: "ready_ens X s donor_id host m = (Inl e, m') \<Longrightarrow> \<not> is_runtime_error e"
  by (auto simp: ready_ens_def Let_def get_host_def http_error_def dest!: sync_after_ready_error
      split: if_splits sum.splits prod.splits option.splits)

lemma mark_ready_prepare_same: "mark_ready_prepare hid peer r = (Inl e, r') \<Longrightarrow> r' = r"
  using mark_ready_prepare_other by blast

lemma mark_ready_commit_error:
  "mark_ready_commit ev hid peer plan r = (Inl e, r') \<Longrightarrow> \<not> is_runtime_error e"
  by (auto simp: mark_ready_commit_def Let_def dest: parse_range_error
      split: option.splits sum.splits prod.splits)

lemma mark_ready_runtime:
  "mark_ready svc ev hid peer r w = (Inl e, r', w') \<Longrightarrow> is_runtime_error e \<Longrightarrow> r' = r \<and> w' = w"
  by (auto simp: mark_ready_def reload_shard_manager_def Let_def
      dest: mark_ready_prepare_same mark_ready_commit_error split: sum.splits prod.splits if_splits)

lemma ready_peer_frame:
  "ready_peer s peer m = (p, m') \<Longrightarrow> mo_reg m' = mo_reg m \<and> mo_world m' = mo_world m"
  by (auto simp: ready_peer_def split: if_splits)

lemma call_mark_ready_runtime:
  "call_mark_ready X hid peer m = (Inl e, m') \<Longrightarrow> is_runtime_error e \<Longrightarrow>
   mo_reg m' = mo_reg m \<and> mo_world m' = mo_world m"
  by (auto simp: call_mark_ready_def Let_def dest: mark_ready_runtime split: prod.splits)

lemma handoff_runtime:
  "handoff_now X s ro hid blocks peer m = (Inl e, m') \<Longrightarrow> is_runtime_error e \<Longrightarrow>
     mo_reg m' = mo_reg m \<and> mo_world m' = mo_world m"
  "handoff_verified X s hid blocks peer m = (Inl e, m') \<Longrightarrow> is_runtime_error e \<Longrightarrow>
     mo_reg m' = mo_reg m \<and> mo_world m' = mo_world m"
  by (auto simp: handoff_now_def handoff_verified_def dest!: call_mark_ready_runtime
      split: prod.splits sum.splits)

lemma ready_body_runtime:
  assumes b: "ready_body X s hid peer m = (Inl e, m')" and e: "is_runtime_error e"
  shows "mo_reg m' = mo_reg m \<and> mo_world m' = mo_world m
    \<and> (\<exists>h. dget (hosts (mo_reg m)) hid = Some h \<and> status h \<noteq> Online)"
proof (cases "get_host hid (mo_reg m)")
  case (Inl e')
  then show ?thesis using b e by (auto simp: ready_body_def get_host_def split: option.splits)
next
  case (Inr pending)
  then have g: "dget (hosts (mo_reg m)) hid = Some pending" by (simp add: get_host_def split: option.splits)
  have on: "status pending \<noteq> Online" using b Inr by (auto simp: ready_body_def)
  obtain p m1 where rp: "ready_peer s peer m = (p, m1)" by (metis surj_pair)
  show ?thesis
    using b Inr on rp ready_peer_frame [OF rp] e g
    by (auto simp: ready_body_def Let_def dest!: handoff_runtime ready_ens_error
        split: prod.splits sum.splits if_splits)
qed

text \<open>A response 503 is always the answer to a runtime error.\<close>

lemma hosts_ready_503:
  assumes "hosts_ready X s hid peer m = (Inl (HTTPException 503), m')"
  obtains e m1 where "ready_body X s hid peer m = (Inl e, m1)" "is_runtime_error e"
    "leave (out_svc X) (out_ev X) hid (mo_reg m1) (mo_world m1)
       = (fst (leave (out_svc X) (out_ev X) hid (mo_reg m1) (mo_world m1)), mo_reg m', mo_world m')"
  using assms
  by (auto simp: hosts_ready_def http_error_def split: prod.splits sum.splits if_splits)

lemma cover_pending:
  assumes "reg_cover r" and "dget (hosts r) hid = Some h" and "status h \<noteq> Online"
  shows "status h = Pending" "role h \<noteq> Mother"
proof -
  show p: "status h = Pending" using assms by (cases "status h") (auto simp: reg_cover_def)
  have wf: "reg_wf r" using assms(1) by (rule reg_cover_wf)
  show "role h \<noteq> Mother" using assms(2) p reg_wf_mother_status [OF wf] wf
    by (auto simp: reg_wf_def dest: hosts_wf_role)
qed

lemma leave_pending_removes:
  assumes "reg_cover r" and "dget (hosts r) hid = Some h" and "status h \<noteq> Online"
    and "leave svc ev hid r w = (res, r', w')"
  shows "hosts r' = ddel hid (hosts r)" "w' = w" "reg_cover r'"
proof -
  note p = cover_pending [OF assms(1-3)]
  show "hosts r' = ddel hid (hosts r)"
    using assms(4) assms(2) p pending_leave_range [OF assms(1,2) p(1)] by (auto simp: leave_def Let_def)
  show "w' = w" "reg_cover r'" using reg_cover_leave_pending [OF assms(1,2) p(1) assms(4)] by auto
qed

lemma reg_cover_call_mark_ready:
  "call_mark_ready X hid peer m = (res, m') \<Longrightarrow> reg_cover (mo_reg m) \<Longrightarrow> reg_cover (mo_reg m')"
  by (auto simp: call_mark_ready_def Let_def dest: reg_cover_mark_ready split: prod.splits sum.splits)

lemma reg_cover_handoff:
  "handoff_now X s ro hid blocks peer m = (res, m') \<Longrightarrow> reg_cover (mo_reg m) \<Longrightarrow> reg_cover (mo_reg m')"
  "handoff_verified X s hid blocks peer m = (res, m') \<Longrightarrow> reg_cover (mo_reg m) \<Longrightarrow> reg_cover (mo_reg m')"
  by (auto simp: handoff_now_def handoff_verified_def dest!: reg_cover_call_mark_ready
      split: prod.splits sum.splits if_splits)

lemma reg_cover_ens_named: "reg_cover r \<Longrightarrow> reg_cover (modify_host k (\<lambda>h. h\<lparr>ens_name := f h\<rparr>) r)"
  by (rule reg_cover_heartbeat_frame) auto

lemma reg_cover_touch: "reg_cover r \<Longrightarrow> reg_cover (modify_host k (\<lambda>h. h) r)"
  by (rule reg_cover_heartbeat_frame) auto

lemma reg_cover_ready_ens:
  "ready_ens X s donor_id host m = (res, m') \<Longrightarrow> reg_cover (mo_reg m) \<Longrightarrow> reg_cover (mo_reg m')"
  by (auto simp: ready_ens_def Let_def dest: cover_names.sync_host_ens_after_ready
      intro!: reg_cover_ens_named reg_cover_touch split: if_splits sum.splits prod.splits)

lemma reg_cover_ready_body:
  assumes "ready_body X s hid peer m = (res, m')" and "reg_cover (mo_reg m)"
  shows "reg_cover (mo_reg m')"
proof -
  obtain p m1 where rp: "ready_peer s peer m = (p, m1)" by (metis surj_pair)
  then show ?thesis using assms ready_peer_frame [OF rp]
    by (auto simp: ready_body_def Let_def dest!: reg_cover_handoff reg_cover_ready_ens
        split: if_splits sum.splits prod.splits)
qed

lemma reg_cover_hosts_ready:
  assumes h: "hosts_ready X s hid peer m = (res, m')" and cov: "reg_cover (mo_reg m)"
  shows "reg_cover (mo_reg m')"
proof -
  obtain res1 m1 where b: "ready_body X s hid peer m = (res1, m1)" by (metis surj_pair)
  have cov1: "reg_cover (mo_reg m1)" using reg_cover_ready_body [OF b cov] .
  obtain lres r2 w2 where l: "leave (out_svc X) (out_ev X) hid (mo_reg m1) (mo_world m1) = (lres, r2, w2)"
    by (rule prod_cases3)
  have "reg_cover r2" if e: "res1 = Inl e" "is_runtime_error e" for e
  proof -
    from ready_body_runtime [OF b [unfolded e(1)] e(2)] obtain host
      where "mo_reg m1 = mo_reg m" "dget (hosts (mo_reg m)) hid = Some host" "status host \<noteq> Online" by blast
    then show ?thesis using leave_pending_removes(3) [OF cov1 _ _ l] by simp
  qed
  then show ?thesis using h b l cov1 by (auto simp: hosts_ready_def split: sum.splits if_splits)
qed

text \<open>C20. A readiness report keeps the coverage invariant whatever happens on the way: the peer may be
  unreachable, the client may fail to load, a shard manager or the ENS service may refuse. After
  the request the online ranges still cover the layers exactly, and the manifest is complete.\<close>

theorem ready_request_keeps_cover:
  assumes "reg_cover (mo_reg m)" and "hosts_ready X s hid peer m = (res, m')"
  shows "exact_cover (online_ranges (mo_reg m')) (total_layers (mo_reg m'))
    \<and> (\<exists>man. build_manifest (mo_reg m') = Inr man \<and> validate_manifest man = (True, ManifestOk))"
proof -
  have cov: "reg_cover (mo_reg m')" using reg_cover_hosts_ready [OF assms(2,1)] .
  then show ?thesis using cover_manifest [OF cov] by (auto simp: reg_cover_def)
qed

lemma ready_runtime_releases:
  assumes b: "ready_body X s hid peer m = (Inl e, m1)" and e: "is_runtime_error e" and cov: "reg_cover (mo_reg m)"
    and h: "hosts_ready X s hid peer m = (res, m')"
  shows "res = Inl (HTTPException 503) \<and> hosts (mo_reg m') = ddel hid (hosts (mo_reg m)) \<and> mo_world m' = mo_world m"
proof -
  from ready_body_runtime [OF b e] obtain host where same: "mo_reg m1 = mo_reg m" "mo_world m1 = mo_world m"
    and g: "dget (hosts (mo_reg m)) hid = Some host" "status host \<noteq> Online" by blast
  obtain lres r2 w2 where l: "leave (out_svc X) (out_ev X) hid (mo_reg m) (mo_world m) = (lres, r2, w2)"
    by (rule prod_cases3)
  have "e \<noteq> KeyError" using e by auto
  then show ?thesis
    using h b e l same leave_pending_removes [OF cov g l] by (auto simp: hosts_ready_def http_error_def)
qed

text \<open>A readiness report that is answered 503 has called no shard manager and no other service that
  changes the world, and has changed nothing in the registry but the removal of the reporting
  host, which was pending; no layer has moved.\<close>

lemma ready_503_only_releases:
  assumes "reg_cover (mo_reg m)" and "hosts_ready X s hid peer m = (Inl (HTTPException 503), m')"
  shows "mo_world m' = mo_world m \<and> hosts (mo_reg m') = ddel hid (hosts (mo_reg m))
    \<and> (\<exists>h. dget (hosts (mo_reg m)) hid = Some h \<and> status h = Pending)"
proof -
  obtain e m1 where b: "ready_body X s hid peer m = (Inl e, m1)" "is_runtime_error e"
    using hosts_ready_503 [OF assms(2)] by metis
  obtain h where "dget (hosts (mo_reg m)) hid = Some h" "status h \<noteq> Online"
    using ready_body_runtime [OF b] by blast
  with cover_pending(1) [OF assms(1)] ready_runtime_releases [OF b assms] show ?thesis by blast
qed

text \<open>A poll that always misses a block ends with a runtime error.\<close>

lemma poll_blocks_missing:
  assumes "\<forall>held. Some held \<in> set vs \<longrightarrow> (\<exists>i \<in> set idxs. \<not> held i)"
  shows "poll_blocks idxs vs = Inl RuntimeError"
  using assms
proof (induction vs)
  case Nil
  then show ?case by simp
next
  case (Cons v vs)
  then show ?case by (cases v) (auto simp: filter_empty_conv)
qed

lemma reload_then_verify:
  "engine_reload s load en = (Inr (), en1) \<Longrightarrow> parse_range blocks = Inr (a, b) \<Longrightarrow>
   verify_blocks_visible s load2 views blocks en1 = (poll_blocks [a..b - 1] views, en1)"
  by (auto simp: verify_blocks_visible_def engine_reload_def engine_load_def unload_def is_loaded_def Let_def
      split: if_splits sum.splits option.splits)

text \<open>A contributor with a public address that fails the precheck, and whose blocks never show up in the
  swarm, never gets its donor shrunk: the request is answered 503, no shard manager is called, and
  the pending host is removed while every other host stays as it is.\<close>

lemma unverified_handoff_keeps_donor:
  assumes cov: "reg_cover (mo_reg m)"
    and host: "dget (hosts (mo_reg m)) hid = Some pending" "status pending = Pending"
    and peer: "peer \<noteq> []" "peer \<notin> set (initial_peers s)" "peer \<notin> set (bootstrap_peers (mo_reg m))"
    and range: "parse_range (str_or (pending_range pending) (block_indices pending)) = Inr (a, b)"
    and precheck: "\<not> contributor_precheck_passed (out_probe X) (out_connect X) (shard_manager_url pending)
      (str_or (pending_range pending) (block_indices pending)) (Some peer) (initial_peers s @ bootstrap_peers (mo_reg m))"
    and unseen: "\<forall>held. Some held \<in> set (out_views X) \<longrightarrow> (\<exists>i. a \<le> i \<and> i < b \<and> \<not> held i)"
    and strict: "\<not> skip_ready_verify s"
  shows "\<exists>m'. hosts_ready X s hid (Some peer) m = (Inl (HTTPException 503), m')
    \<and> hosts (mo_reg m') = ddel hid (hosts (mo_reg m)) \<and> mo_world m' = mo_world m"
proof -
  let ?blocks = "str_or (pending_range pending) (block_indices pending)"
  let ?m1 = "m\<lparr>mo_engine := add_peer peer (mo_engine m)\<rparr>"
  have rp: "ready_peer s (Some peer) m = (Some peer, ?m1)"
    using peer by (simp add: ready_peer_def truthy_str_iff)
  have poll: "poll_blocks [a..b - 1] (out_views X) = Inl RuntimeError"
    by (rule poll_blocks_missing) (use unseen in force)
  have "\<exists>m2. handoff_verified X s hid ?blocks (Some peer) ?m1 = (Inl RuntimeError, m2)"
  proof (cases "engine_reload s (out_load X) (mo_engine ?m1)")
    case (Pair rl en1)
    show ?thesis
    proof (cases rl)
      case (Inl e)
      with Pair show ?thesis by (simp add: handoff_verified_def)
    next
      case (Inr u)
      with Pair have "verify_blocks_visible s (out_load2 X) (out_views X) ?blocks en1 = (Inl RuntimeError, en1)"
        by (subst reload_then_verify [of s "out_load X" "mo_engine ?m1", OF _ range]) (simp_all add: poll)
      with Pair Inr show ?thesis by (simp add: handoff_verified_def)
    qed
  qed
  then obtain m2 where ho: "handoff_verified X s hid ?blocks (Some peer) ?m1 = (Inl RuntimeError, m2)" ..
  have b: "ready_body X s hid (Some peer) m = (Inl RuntimeError, m2)"
    using host rp ho precheck strict peer(1)
    by (simp add: ready_body_def Let_def get_host_def truthy_str_iff)
  obtain res m' where h: "hosts_ready X s hid (Some peer) m = (res, m')" by (metis surj_pair)
  with ready_runtime_releases [OF b _ cov h] show ?thesis by simp
qed

section \<open>Payments\<close>

lemma run_payout_needs_x402:
  "run_payout X s cid tx m = (res, m') \<Longrightarrow> \<not> x402_enabled s \<Longrightarrow> m' = m"
  by (simp add: run_payout_def payouts_enabled_def)

lemma chat_unpaid_frame:
  assumes c: "chat_completions X s cid tx hdr body m = (res, m')" and n: "\<not> (x402_enabled s \<and> hdr = Some ''1'')"
  shows "mo_world m' = mo_world m \<and> mo_pay m' = mo_pay m \<and> mo_ens m' = mo_ens m"
proof -
  have "(x402_enabled s \<and> hdr = Some ''1'') = False" using n by simp
  then show ?thesis using c
    unfolding chat_completions_def Let_def paid_stream_def
    by (auto split: if_splits prod.splits sum.splits)
qed

text \<open>C21. Money moves, and the payout service's state changes, only for a request that the gateway marked as
  settled while payments are on: an unpaid or merely verified chat request, and an internal payout
  request without the mark, touch neither the ledger nor the payout service. A chat completion
  carries a receipt only in the same case.\<close>

theorem pays_only_when_settled:
  fixes m :: "('w, 'k, 'a::linordered_field) mother"
  assumes "\<not> (x402_enabled s \<and> hdr = Some ''1'')"
    and "chat_completions X s cid tx hdr body m = (res, m')"
    and "internal_payout X s rid tx2 hdr m = (res2, m2)"
  shows "mo_world m' = mo_world m \<and> mo_pay m' = mo_pay m \<and> m2 = m
    \<and> (\<forall>c. res = Inr (Completion c) \<longrightarrow> cc_payment c = None)"
proof -
  have "m2 = m" using assms(1,3)
    by (cases "x402_enabled s") (auto simp: internal_payout_def split: if_splits prod.splits sum.splits option.splits
        dest: run_payout_needs_x402)
  moreover have "cc_payment c = None" if r: "res = Inr (Completion c)" for c
  proof -
    have "(x402_enabled s \<and> hdr = Some ''1'') = False" using assms(1) by simp
    then show ?thesis using assms(2) r unfolding chat_completions_def Let_def paid_stream_def
      by (auto simp: http_error_def split: if_splits prod.splits sum.splits)
  qed
  ultimately show ?thesis using chat_unpaid_frame [OF assms(2,1)] by simp
qed

text \<open>An ENS service whose look-ups change nothing.\<close>

definition reads_only :: "'w ens_service \<Rightarrow> bool" where
  "reads_only S \<longleftrightarrow> (\<forall>url name w. snd (es_get S url name w) = w)"

lemma verify_host_world: "reads_only S \<Longrightarrow> verify_host S s t h st w = (b, st', w') \<Longrightarrow> w' = w"
  by (auto simp: verify_host_def resolve_name_def ens_get_def reads_only_def Let_def
      split: if_splits prod.splits sum.splits option.splits http_reply.splits) (metis snd_conv)+

lemma identity_verdicts_world:
  "reads_only S \<Longrightarrow> identity_verdicts S s t hs st w = (vs, st', w') \<Longrightarrow> w' = w"
proof (induction hs arbitrary: st w vs)
  case Nil
  then show ?case by simp
next
  case (Cons h hs)
  then show ?case
    by (auto split: if_splits prod.splits sum.splits dest: verify_host_world)
qed

lemma run_payout_world:
  assumes H: "records_transfers (out_hedera X)" and E: "reads_only (out_ens X)"
    and acc: "mother_account_id s = Some mother" and p: "run_payout X s cid tx m = (res, m')"
  shows "mo_world m' = mo_world m \<or> (\<exists>verify planned. payouts_enabled s
    \<and> plan_payouts s verify (online_payout_hosts (mo_reg m)) = Inr planned
    \<and> mo_world m' = mo_world m @ [transfer_batch mother (transfers_of s planned)])"
  using p by (auto simp: run_payout_def Let_def split: if_splits prod.splits
      dest!: redistribute_world [OF H acc] identity_verdicts_world [OF E]) blast+

lemma planned_total:
  assumes cov: "reg_cover r" and n: "total_layers r = cfg_total_layers s" and c: "0 \<le> cost_per_layer_tinybars s"
    and p: "plan_payouts s verify (online_payout_hosts r) = Inr planned"
  shows "sum_list (map po_amount (transfers_of s planned)) \<le> request_price_tinybars s"
proof -
  have planned: "planned = map (payout_of s) (filter paid (online_payout_hosts r))" using plan_payouts_Inr [OF p] by simp
  have paid_all: "filter paid (online_payout_hosts r) = online_payout_hosts r"
    by (auto simp: filter_id_conv online_payout_hosts_def paid_def)
  have "\<forall>q \<in> set planned. 0 \<le> po_amount q" using c by (auto simp: planned paid_def)
  then have "sum_list (map po_amount (transfers_of s planned)) \<le> sum_list (map po_amount planned)"
    by (rule sum_transfers_le)
  also have "\<dots> = cost_per_layer_tinybars s * sum_list (map layers_hosted (online_payout_hosts r))"
    using sum_payouts [of s] by (simp add: planned paid_all)
  also have "\<dots> \<le> cost_per_layer_tinybars s * total_layers r"
    using payout_layers_le [OF cov] reg_cover_pos [OF cov] c by (intro mult_left_mono) simp_all
  finally show ?thesis using n by (simp add: request_price_tinybars_def mult.commute)
qed

text \<open>C22. The payout of a request never costs the mother more than the price the request was charged: while
  the online ranges cover the layers exactly, the transfer's debit is at most the number of layers
  times the price of a layer, whoever is verified and whatever the ledger answers.\<close>

theorem payout_within_price:
  assumes "records_transfers (out_hedera X)" and "reads_only (out_ens X)"
    and "mother_account_id s = Some mother" and "reg_cover (mo_reg m)"
    and "total_layers (mo_reg m) = cfg_total_layers s" and "mo_world m = []"
    and "run_payout X s cid tx m = (res, m')"
  shows "mo_world m' = [] \<or> (\<exists>total credits. mo_world m' = [(mother, - total) # credits]
    \<and> total = sum_list (map snd credits) \<and> total \<le> request_price_tinybars s)"
proof -
  from run_payout_world [OF assms(1,2,3,7)] show ?thesis
  proof (elim disjE exE conjE)
    fix verify planned
    assume en: "payouts_enabled s" and p: "plan_payouts s verify (online_payout_hosts (mo_reg m)) = Inr planned"
      and w: "mo_world m' = mo_world m @ [transfer_batch mother (transfers_of s planned)]"
    have "0 \<le> cost_per_layer_tinybars s" using en by (simp add: payouts_enabled_def)
    from planned_total [OF assms(4,5) this p] w assms(6) show ?thesis
      by (simp add: transfer_batch_def comp_def)
  qed (use assms(6) in simp)
qed

section \<open>Streams\<close>

text \<open>A chat stream opens with the role, passes the texts on in order and closes with one chunk that
  carries a finish reason and the end mark; that reason is always the word stop, also after an error and
  also when the generation ran into its token limit.\<close>

lemma stream_always_says_stop:
  "\<exists>pieces last_content. fst (paid_stream X s pay cid tx body m) =
     [SseChunk (Some ''assistant'') (Some []) None] @ map (\<lambda>p. SseChunk None (Some p) None) pieces
       @ [SseChunk None last_content (Some ''stop''), SseDone]"
proof -
  obtain pieces r en where g: "stream_generate s (out_load X) (out_load2 X) (cb_messages body) (cb_max_tokens body)
      (cb_temperature body) (cb_top_p body) (mo_engine m) = ((pieces, r), en)" by (metis surj_pair)
  then have "r = Inr None \<or> (\<exists>e. r = Inl e)"
    by (auto simp: stream_generate_def Let_def split: prod.splits sum.splits if_splits)
  then show ?thesis using g by (auto simp: paid_stream_def stream_sse_def Let_def)
qed

section \<open>Concrete runs\<close>

text \<open>A model whose stream breaks off for want of blocks at the first loading.\<close>

definition mx_model :: "bool \<Rightarrow> rat hf_model" where
  "mx_model broken =
     \<lparr>hf_tok = \<lparr>tk_template = (\<lambda>_. None), tk_encode = (\<lambda>t. [3, 4]), tk_decode = map (\<lambda>_. CHR ''x''), tk_eos = 0\<rparr>,
      hf_generate = (\<lambda>k ids. Inr (ids @ [1, 2])),
      hf_stream = (\<lambda>k ids. if broken then ([''Hel''], Some MissingBlocksError) else ([''Hel'', ''lo''], None)),
      hf_count_tokens = (\<lambda>t. 2)\<rparr>"

definition mx_settings :: settings where
  "mx_settings = ex_settings\<lparr>ens_enabled := False, ens_strict := False, initial_peers := [''/ip4/9.9.9.9/tcp/1/p2p/M'']\<rparr>"

text \<open>Nothing answers, except the model loading.\<close>

definition mx_out :: "'w reload_svc \<Rightarrow> ('w, string) hedera \<Rightarrow> int \<Rightarrow> ('w, string, rat) outside" where
  "mx_out svc H t =
     \<lparr>out_svc = svc, out_ens = \<lparr>es_post = (\<lambda>url p w. (Unreachable, w)), es_get = (\<lambda>url n w. (Unreachable, w))\<rparr>,
      out_hedera = H, out_probe = (\<lambda>_. None), out_connect = (\<lambda>_. False),
      out_views = [None, Some (\<lambda>i. i < 20)], out_post = (\<lambda>url req. Inl HTTPError),
      out_load = (\<lambda>peers. Inr (mx_model True)), out_load2 = (\<lambda>peers. Inr (mx_model False)), out_late = False,
      out_ev = ex_env t ''aaaa'', out_env = Map.empty, out_dflt = (7 / 10, 9 / 10), out_str = (\<lambda>e. ''failed'')\<rparr>"

definition mx_mother :: "swarm_registry \<Rightarrow> 'w \<Rightarrow> ('w, string, rat) mother" where
  "mx_mother r w = \<lparr>mo_reg = r, mo_engine = engine_init, mo_ens = \<lparr>es_pending = [], es_cache = []\<rparr>, mo_pay = ex_ps,
     mo_tasks = [], mo_world = w\<rparr>"

text \<open>A ledger that is not there.\<close>

definition mx_no_ledger :: "('w, string) hedera" where
  "mx_no_ledger =
     \<lparr>sdk_ecdsa = (\<lambda>k. None), sdk_key = (\<lambda>k. None), sdk_account_ok = (\<lambda>a. False),
      sdk_transfer = (\<lambda>c b w. (Inl RuntimeError, w)), sdk_new_topic = (\<lambda>c n w. (Inl RuntimeError, w)),
      sdk_submit = (\<lambda>c t p w. (Inl RuntimeError, w)), sdk_contract = (\<lambda>c e w. (Inl RuntimeError, w)),
      sdk_long_zero = (\<lambda>a. a), mirror = (\<lambda>b a. None), sha256 = (\<lambda>r. r)\<rparr>"

text \<open>A contributor that reports ready with a public peer nobody can reach.\<close>

lemma precheck_unreachable: "\<not> contributor_precheck_passed (\<lambda>_. None) (\<lambda>_. False) url blocks peer bootstrap"
proof -
  have "verify_contributor_http (\<lambda>_. None) url blocks \<noteq> Inr True"
    by (auto simp: verify_contributor_http_def rbind_Inr_iff)
  moreover have "verify_peer_tcp (\<lambda>_. False) p \<noteq> Inr True" for p
    by (auto simp: verify_peer_tcp_def rbind_Inr_iff)
  ultimately show ?thesis
    by (auto simp: contributor_precheck_passed_def Let_def split: sum.splits if_splits bool.splits)
qed

abbreviation mx_peer :: string where
  "mx_peer \<equiv> ''/ip4/8.8.8.8/tcp/31337/p2p/C''"

abbreviation mx_X :: "((string \<times> string) list, string, rat) outside" where
  "mx_X \<equiv> mx_out (ex_svc True) mx_no_ledger 2"

abbreviation mx_m :: "((string \<times> string) list, string, rat) mother" where
  "mx_m \<equiv> mx_mother ex_joined []"

lemma mother_app_invariant_witness:
  "\<exists>m0. startup mx_X mx_settings NoFile \<lparr>es_pending = [], es_cache = []\<rparr> ex_ps [] = Inr m0
     \<and> reg_wf (mo_reg (serve_all mx_settings [(mx_X, Join \<lparr>jb_model = ''m'', jb_layers = 16, jb_public_ip = [],
          jb_shard_manager_url = ''http://c:8001'', jb_account = ''0.0.7''\<rparr>), (mx_X, Ready ''host-aaaa'' None)] m0))"
proof -
  have "case startup mx_X mx_settings NoFile \<lparr>es_pending = [], es_cache = []\<rparr> ex_ps [] of Inr _ \<Rightarrow> True | Inl _ \<Rightarrow> False"
    by code_simp
  then obtain m0 where m0: "startup mx_X mx_settings NoFile \<lparr>es_pending = [], es_cache = []\<rparr> ex_ps [] = Inr m0"
    by (auto split: sum.splits)
  have "\<forall>data hs. NoFile = Saved data \<longrightarrow> file_hosts (out_ev mx_X) data = Inr hs \<longrightarrow> hosts_wf hs" by simp
  from mother_app_invariant [OF m0 this] m0 show ?thesis by blast
qed

lemma ready_request_keeps_cover_witness:
  "let m' = snd (hosts_ready mx_X mx_settings ''host-aaaa'' None mx_m) in
     map (\<lambda>h. (host_id h, block_indices h)) (list_hosts (mo_reg m')) = [(''mother'', ''0:16''), (''host-aaaa'', ''16:32'')]
     \<and> exact_cover (online_ranges (mo_reg m')) (total_layers (mo_reg m'))"
  unfolding Let_def
proof (rule conjI)
  show "map (\<lambda>h. (host_id h, block_indices h)) (list_hosts (mo_reg (snd (hosts_ready mx_X mx_settings ''host-aaaa'' None mx_m))))
      = [(''mother'', ''0:16''), (''host-aaaa'', ''16:32'')]" by code_simp
  have "reg_cover (mo_reg mx_m)" using ex_cover(2) by (simp add: mx_mother_def)
  from ready_request_keeps_cover [OF this surjective_pairing]
  show "exact_cover (online_ranges (mo_reg (snd (hosts_ready mx_X mx_settings ''host-aaaa'' None mx_m))))
      (total_layers (mo_reg (snd (hosts_ready mx_X mx_settings ''host-aaaa'' None mx_m))))" by blast
qed

lemma ready_503_only_releases_witness:
  "mo_world (snd (hosts_ready mx_X mx_settings ''host-aaaa'' (Some mx_peer) mx_m)) = mo_world mx_m"
proof -
  let ?p = "hosts_ready mx_X mx_settings ''host-aaaa'' (Some mx_peer) mx_m"
  have "fst ?p = Inl (HTTPException 503)" by code_simp
  then have "?p = (Inl (HTTPException 503), snd ?p)" by (simp add: prod_eq_iff)
  moreover have "reg_cover (mo_reg mx_m)" using ex_cover(2) by (simp add: mx_mother_def)
  ultimately show ?thesis using ready_503_only_releases by blast
qed

lemma unverified_handoff_keeps_donor_witness:
  "\<exists>m'. hosts_ready mx_X mx_settings ''host-aaaa'' (Some mx_peer) mx_m = (Inl (HTTPException 503), m')
     \<and> hosts (mo_reg m') = ddel ''host-aaaa'' (hosts (mo_reg mx_m)) \<and> mo_world m' = mo_world mx_m"
proof (rule unverified_handoff_keeps_donor)
  let ?h = "the (dget (hosts ex_joined) ''host-aaaa'')"
  show "reg_cover (mo_reg mx_m)" using ex_cover(2) by (simp add: mx_mother_def)
  show "dget (hosts (mo_reg mx_m)) ''host-aaaa'' = Some ?h" by code_simp
  show "status ?h = Pending" by code_simp
  show "mx_peer \<noteq> []" by simp
  show "mx_peer \<notin> set (initial_peers mx_settings)" by code_simp
  show "mx_peer \<notin> set (bootstrap_peers (mo_reg mx_m))" by code_simp
  show "parse_range (str_or (pending_range ?h) (block_indices ?h)) = Inr (16, 32)" by code_simp
  show "\<not> contributor_precheck_passed (out_probe mx_X) (out_connect mx_X) (shard_manager_url ?h)
      (str_or (pending_range ?h) (block_indices ?h)) (Some mx_peer)
      (initial_peers mx_settings @ bootstrap_peers (mo_reg mx_m))"
    by (simp add: mx_out_def precheck_unreachable)
  show "\<forall>held. Some held \<in> set (out_views mx_X) \<longrightarrow> (\<exists>i. 16 \<le> i \<and> i < 32 \<and> \<not> held i)"
    by (auto simp: mx_out_def intro!: exI [of _ 20])
  show "\<not> skip_ready_verify mx_settings" by code_simp
qed

lemma pays_only_when_settled_witness:
  "let body = \<lparr>cb_model = ''m'', cb_messages = [(Some ''user'', Some ''hi'')], cb_max_tokens = None,
         cb_temperature = None, cb_top_p = None, cb_stream = False\<rparr>;
       m' = snd (chat_completions mx_X mx_settings ''c1'' None (Some ''verified'') body mx_m)
   in mo_world m' = mo_world mx_m \<and> mo_pay m' = mo_pay mx_m"
  unfolding Let_def
proof -
  have n: "\<not> (x402_enabled mx_settings \<and> Some ''verified'' = Some ''1'')" by simp
  show "mo_world (snd (chat_completions mx_X mx_settings ''c1'' None (Some ''verified'')
        \<lparr>cb_model = ''m'', cb_messages = [(Some ''user'', Some ''hi'')], cb_max_tokens = None,
         cb_temperature = None, cb_top_p = None, cb_stream = False\<rparr> mx_m)) = mo_world mx_m
    \<and> mo_pay (snd (chat_completions mx_X mx_settings ''c1'' None (Some ''verified'')
        \<lparr>cb_model = ''m'', cb_messages = [(Some ''user'', Some ''hi'')], cb_max_tokens = None,
         cb_temperature = None, cb_top_p = None, cb_stream = False\<rparr> mx_m)) = mo_pay mx_m"
    by (intro conjI; insert pays_only_when_settled [OF n surjective_pairing surjective_pairing]; blast)
qed

text \<open>A paid payout for the two hosts of a finished hand-off: 16 layers each, the mother's own share stays.\<close>

abbreviation mx_pay_X :: "((string \<times> int) list list, string, rat) outside" where
  "mx_pay_X \<equiv> mx_out (\<lambda>w url body. (w, True)) (ex_hedera True) 2"

lemma payout_within_price_witness:
  "let log = mo_world (snd (run_payout mx_pay_X mx_settings ''c1'' None (mx_mother ex_ready []))) in
     log = [[(''0.0.2'', -80), (''0.0.7'', 80)]]
     \<and> (log = [] \<or> (\<exists>total credits. log = [(''0.0.2'', - total) # credits] \<and> total = sum_list (map snd credits)
          \<and> total \<le> request_price_tinybars mx_settings))"
  unfolding Let_def
proof (rule conjI)
  show "mo_world (snd (run_payout mx_pay_X mx_settings ''c1'' None (mx_mother ex_ready [])))
      = [[(''0.0.2'', -80), (''0.0.7'', 80)]]" by code_simp
  have H: "records_transfers (out_hedera mx_pay_X)" using ex_hedera_records by (simp add: mx_out_def)
  have E: "reads_only (out_ens mx_pay_X)" by (simp add: mx_out_def reads_only_def)
  have acc: "mother_account_id mx_settings = Some ''0.0.2''" by code_simp
  have cov: "reg_cover (mo_reg (mx_mother ex_ready []))" using ex_cover(3) by (simp add: mx_mother_def)
  have n: "total_layers (mo_reg (mx_mother ex_ready [])) = cfg_total_layers mx_settings" by code_simp
  have w: "mo_world (mx_mother ex_ready []) = []" by (simp add: mx_mother_def)
  from payout_within_price [OF H E acc cov n w surjective_pairing]
  show "mo_world (snd (run_payout mx_pay_X mx_settings ''c1'' None (mx_mother ex_ready []))) = [] \<or>
    (\<exists>total credits. mo_world (snd (run_payout mx_pay_X mx_settings ''c1'' None (mx_mother ex_ready [])))
        = [(''0.0.2'', - total) # credits] \<and> total = sum_list (map snd credits)
      \<and> total \<le> request_price_tinybars mx_settings)" .
qed

text \<open>
  A stream that misses blocks half-way: the client gets the text from the beginning again, and a
  stream that ends in an error is paid for all the same.
\<close>

definition mx_stream_body :: "rat chat_body" where
  "mx_stream_body = \<lparr>cb_model = ''m'', cb_messages = [(Some ''user'', Some ''hi'')], cb_max_tokens = Some 2,
     cb_temperature = None, cb_top_p = None, cb_stream = True\<rparr>"

lemma stream_retry_repeats_text:
  "fst (paid_stream mx_pay_X mx_settings False ''c1'' None mx_stream_body (mx_mother ex_ready [])) =
     [SseChunk (Some ''assistant'') (Some []) None, SseChunk None (Some ''Hel'') None, SseChunk None (Some ''Hel'') None,
      SseChunk None (Some ''lo'') None, SseChunk None None (Some ''stop''), SseDone]"
  by code_simp

lemma failed_stream_still_pays:
  "let X = mx_pay_X\<lparr>out_load2 := \<lambda>peers. Inl RuntimeError\<rparr>;
       (evs, m') = paid_stream X mx_settings True ''c1'' None mx_stream_body (mx_mother ex_ready [])
   in SseChunk None (Some (error_content (out_str X) RuntimeError)) (Some ''stop'') \<in> set evs
      \<and> mo_world m' = [[(''0.0.2'', -80), (''0.0.7'', 80)]]"
  by code_simp

end
