(* ===== verification/PetalsSpans.thy ===== *)
theory PetalsSpans
  imports PyString
begin

text \<open>
  What the Petals client and server know of a swarm: petals/data\_structures.py,
  petals/utils/dht.py and petals/client/routing/sequence\_info.py. A peer id is a value of a linear
  order \<open>'p\<close>; throughputs and round-trip times are exact numbers of an ordered field \<open>'a\<close> (the
  rounding of floats is not modelled). What the DHT has stored is a parameter.
\<close>

section \<open>Servers\<close>

datatype server_state = S_OFFLINE | S_JOINING | S_ONLINE

fun state_value :: "server_state \<Rightarrow> nat" where
  "state_value S_OFFLINE = 0"
| "state_value S_JOINING = 1"
| "state_value S_ONLINE = 2"

text \<open>States compare by their values.\<close>

instantiation server_state :: linorder
begin

definition less_eq_server_state :: "server_state \<Rightarrow> server_state \<Rightarrow> bool" where
  "less_eq_server_state s t \<longleftrightarrow> state_value s \<le> state_value t"

definition less_server_state :: "server_state \<Rightarrow> server_state \<Rightarrow> bool" where
  "less_server_state s t \<longleftrightarrow> state_value s < state_value t"

instance
proof
  fix s t u :: server_state
  show "s < t \<longleftrightarrow> s \<le> t \<and> \<not> t \<le> s" by (auto simp: less_server_state_def less_eq_server_state_def)
  show "s \<le> s" by (simp add: less_eq_server_state_def)
  show "s \<le> t \<Longrightarrow> t \<le> u \<Longrightarrow> s \<le> u" by (simp add: less_eq_server_state_def)
  show "s \<le> t \<Longrightarrow> t \<le> s \<Longrightarrow> s = t" by (cases s; cases t; simp add: less_eq_server_state_def)
  show "s \<le> t \<or> t \<le> s" by (auto simp: less_eq_server_state_def)
qed

end

fun state_of_value :: "int \<Rightarrow> server_state result" where
  "state_of_value n = (if n = 0 then Inr S_OFFLINE else if n = 1 then Inr S_JOINING
     else if n = 2 then Inr S_ONLINE else Inl ValueError)"

text \<open>A round-trip time may be infinite.\<close>

datatype 'a rtt = Finite 'a | Infinite

fun rtt_nonneg :: "'a::linordered_idom rtt \<Rightarrow> bool" where
  "rtt_nonneg (Finite r) = (0 \<le> r)"
| "rtt_nonneg Infinite = True"

text \<open>The optional fields of a server's announcement.\<close>

record ('p, 'a) server_extra =
  sx_start_block :: "int option"
  sx_end_block :: "int option"
  sx_public_name :: "string option"
  sx_version :: "string option"
  sx_network_rps :: "'a option"
  sx_forward_rps :: "'a option"
  sx_inference_rps :: "'a option"
  sx_adapters :: "string list"
  sx_torch_dtype :: "string option"
  sx_quant_type :: "string option"
  sx_using_relay :: "bool option"
  sx_cache_tokens_left :: "int option"
  sx_next_pings :: "('p \<times> 'a rtt) list option"

definition no_extra :: "('p, 'a) server_extra" where
  "no_extra = \<lparr>sx_start_block = None, sx_end_block = None, sx_public_name = None, sx_version = None,
     sx_network_rps = None, sx_forward_rps = None, sx_inference_rps = None, sx_adapters = [],
     sx_torch_dtype = None, sx_quant_type = None, sx_using_relay = None, sx_cache_tokens_left = None,
     sx_next_pings = None\<rparr>"

record ('p, 'a) server_info =
  si_state :: server_state
  si_throughput :: 'a
  si_extra :: "('p, 'a) server_extra"

text \<open>The field validators: counts and rates are not negative.\<close>

definition opt_nonneg :: "'a::linordered_idom option \<Rightarrow> bool" where
  "opt_nonneg x = (case x of Some v \<Rightarrow> 0 \<le> v | None \<Rightarrow> True)"

definition valid_info :: "('p, 'a::linordered_field) server_info \<Rightarrow> bool" where
  "valid_info i \<longleftrightarrow> 0 \<le> si_throughput i
     \<and> opt_nonneg (sx_start_block (si_extra i)) \<and> opt_nonneg (sx_end_block (si_extra i))
     \<and> opt_nonneg (sx_network_rps (si_extra i)) \<and> opt_nonneg (sx_forward_rps (si_extra i))
     \<and> opt_nonneg (sx_inference_rps (si_extra i)) \<and> opt_nonneg (sx_cache_tokens_left (si_extra i))
     \<and> (case sx_next_pings (si_extra i) of Some d \<Rightarrow> list_all (\<lambda>(_, v). rtt_nonneg v) d | None \<Rightarrow> True)"

type_synonym ('p, 'a) info_tuple = "int \<times> 'a \<times> ('p, 'a) server_extra option"

definition to_tuple :: "('p, 'a) server_info \<Rightarrow> ('p, 'a) info_tuple" where
  "to_tuple i = (int (state_value (si_state i)), si_throughput i, Some (si_extra i))"

definition from_tuple :: "('p, 'a::linordered_field) info_tuple \<Rightarrow> ('p, 'a) server_info result" where
  "from_tuple t =
     (case t of (st, thr, extra) \<Rightarrow>
      rbind (state_of_value st) (\<lambda>s.
        let i = \<lparr>si_state = s, si_throughput = thr, si_extra = (case extra of Some x \<Rightarrow> x | None \<Rightarrow> no_extra)\<rparr>
        in if valid_info i then Inr i else Inl ValueError))"

lemma from_to_tuple: "valid_info i \<Longrightarrow> from_tuple (to_tuple i) = Inr i"
proof (cases i)
  case (fields st thr ex)
  assume "valid_info i"
  with fields show ?thesis by (cases st) (simp_all add: from_tuple_def to_tuple_def)
qed

section \<open>Modules and spans\<close>

definition parse_uid :: "string \<Rightarrow> (string \<times> int) result" where
  "parse_uid uid =
     (if CHR '' '' \<in> set uid then Inl AssertionError
      else case py_split CHR ''.'' uid of
        [dht_prefix, index] \<Rightarrow> rbind (py_int index) (\<lambda>i. Inr (dht_prefix, i))
      | _ \<Rightarrow> Inl ValueError)"

record ('p, 'a) module_info =
  mi_uid :: string
  mi_servers :: "('p \<times> ('p, 'a) server_info) list"

record ('p, 'a) span_info =
  sp_peer :: 'p
  sp_start :: int
  sp_end :: int
  sp_info :: "('p, 'a) server_info"

definition sp_length :: "('p, 'a) span_info \<Rightarrow> int" where
  "sp_length s = sp_end s - sp_start s"

definition sp_state :: "('p, 'a) span_info \<Rightarrow> server_state" where
  "sp_state s = si_state (sp_info s)"

definition sp_throughput :: "('p, 'a) span_info \<Rightarrow> 'a" where
  "sp_throughput s = si_throughput (sp_info s)"

section \<open>Reading the DHT\<close>

text \<open>
  The value under a key: nothing, something that is not a dictionary, or a dictionary from peer ids
  in base 58 to announcements; \<open>peer_of\<close> decodes a peer id and \<open>None\<close> is its \<open>ValueError\<close>.
\<close>

datatype ('p, 'a) dht_value = NotADict | Announced "(string \<times> ('p, 'a) info_tuple) list"

fun read_servers ::
  "(string \<Rightarrow> 'p option) \<Rightarrow> string option \<Rightarrow> (string \<times> ('p, 'a::linordered_field) info_tuple) list
     \<Rightarrow> ('p \<times> ('p, 'a) server_info) list \<Rightarrow> ('p \<times> ('p, 'a) server_info) list" where
  "read_servers peer_of adapter [] servers = servers"
| "read_servers peer_of adapter ((key, t) # entries) servers =
     (case peer_of key of
        None \<Rightarrow> read_servers peer_of adapter entries servers
      | Some p \<Rightarrow>
          (case from_tuple t of
             Inl _ \<Rightarrow> read_servers peer_of adapter entries servers
           | Inr i \<Rightarrow>
               if truthy_str adapter \<and> the adapter \<notin> set (sx_adapters (si_extra i))
               then read_servers peer_of adapter entries servers
               else read_servers peer_of adapter entries (dset p i servers)))"

definition get_remote_module_infos ::
  "(string \<Rightarrow> 'p option) \<Rightarrow> (string \<Rightarrow> ('p, 'a::linordered_field) dht_value option) \<Rightarrow> string list \<Rightarrow> string option
     \<Rightarrow> ('p, 'a) module_info list" where
  "get_remote_module_infos peer_of found uids adapter =
     map (\<lambda>uid. \<lparr>mi_uid = uid,
            mi_servers = (case found uid of Some (Announced entries) \<Rightarrow> read_servers peer_of adapter entries [] | _ \<Rightarrow> [])\<rparr>)
       uids"

section \<open>compute\_spans\<close>

definition new_span :: "int \<Rightarrow> int \<Rightarrow> int \<Rightarrow> 'p \<Rightarrow> ('p, 'a) server_info \<Rightarrow> ('p, 'a) span_info" where
  "new_span offset n idx p i =
     (case (sx_start_block (si_extra i), sx_end_block (si_extra i)) of
        (Some s, Some e) \<Rightarrow> \<lparr>sp_peer = p, sp_start = max (s - offset) 0, sp_end = min (e - offset) n, sp_info = i\<rparr>
      | _ \<Rightarrow> \<lparr>sp_peer = p, sp_start = idx, sp_end = idx + 1, sp_info = i\<rparr>)"

definition add_server ::
  "server_state \<Rightarrow> int \<Rightarrow> int \<Rightarrow> int \<Rightarrow> 'p \<times> ('p, 'a) server_info \<Rightarrow> ('p \<times> ('p, 'a) span_info) list
     \<Rightarrow> ('p \<times> ('p, 'a) span_info) list" where
  "add_server min_state offset n idx pi spans =
     (case pi of (p, i) \<Rightarrow>
      if si_state i < min_state then spans
      else case dget spans p of
        None \<Rightarrow> dset p (new_span offset n idx p i) spans
      | Some sp \<Rightarrow>
          if sp_state sp < si_state i then dset p (new_span offset n idx p i) spans
          else if sp_state sp = si_state i then dset p (sp\<lparr>sp_end := max (sp_end sp) (idx + 1)\<rparr>) spans
          else spans)"

fun span_loop ::
  "server_state \<Rightarrow> int \<Rightarrow> int \<Rightarrow> int \<Rightarrow> ('p::linorder, 'a) module_info list \<Rightarrow> ('p \<times> ('p, 'a) span_info) list
     \<Rightarrow> ('p \<times> ('p, 'a) span_info) list" where
  "span_loop min_state offset n idx [] spans = spans"
| "span_loop min_state offset n idx (m # ms) spans =
     span_loop min_state offset n (idx + 1) ms
       (fold (add_server min_state offset n idx) (sort_key fst (mi_servers m)) spans)"

definition compute_spans ::
  "('p::linorder, 'a) module_info list \<Rightarrow> server_state \<Rightarrow> ('p \<times> ('p, 'a) span_info) list result" where
  "compute_spans infos min_state =
     rbind (case infos of [] \<Rightarrow> Inr 0 | m # _ \<Rightarrow> rbind (parse_uid (mi_uid m)) (\<lambda>(_, i). Inr i))
       (\<lambda>offset. Inr (span_loop min_state offset (int (length infos)) 0 infos []))"

section \<open>Sequence information\<close>

text \<open>\<open>xs[i].append(v)\<close> on a list of lists; an index out of range raises.\<close>

definition append_at :: "int \<Rightarrow> 'v \<Rightarrow> 'v list list \<Rightarrow> 'v list list result" where
  "append_at i v xss =
     (if 0 \<le> i \<and> i < int (length xss) then Inr (xss[nat i := xss ! nat i @ [v]])
      else if - int (length xss) \<le> i \<and> i < 0
        then Inr (xss[nat (i + int (length xss)) := xss ! nat (i + int (length xss)) @ [v]])
      else Inl IndexError)"

fun append_all :: "int list \<Rightarrow> 'v \<Rightarrow> 'v list list \<Rightarrow> 'v list list result" where
  "append_all [] v xss = Inr xss"
| "append_all (i # is) v xss = rbind (append_at i v xss) (append_all is v)"

fun place_spans :: "('p, 'a) span_info list \<Rightarrow> ('p, 'a) span_info list list \<Rightarrow> ('p, 'a) span_info list list result" where
  "place_spans [] xss = Inr xss"
| "place_spans (s # ss) xss = rbind (append_all [sp_start s..sp_end s - 1] s xss) (place_spans ss)"

definition sort_spans ::
  "('p::linorder, 'a) module_info list \<Rightarrow> (('p, 'a) span_info list \<times> ('p, 'a) span_info list list) result" where
  "sort_spans infos =
     rbind (compute_spans infos S_ONLINE) (\<lambda>spans.
       let by_priority = sort_key (\<lambda>s. - sp_length s) (dvalues spans)
       in rbind (place_spans by_priority (replicate (length infos) [])) (\<lambda>containing. Inr (by_priority, containing)))"

record ('p, 'a) sequence_info =
  sq_block_uids :: "string list"
  sq_block_infos :: "('p, 'a) module_info list"
  sq_by_priority :: "('p, 'a) span_info list"
  sq_containing :: "('p, 'a) span_info list list"
  sq_updated :: "'a option"

definition make_empty :: "string list \<Rightarrow> ('p, 'a) sequence_info" where
  "make_empty uids =
     \<lparr>sq_block_uids = uids, sq_block_infos = map (\<lambda>u. \<lparr>mi_uid = u, mi_servers = []\<rparr>) uids,
      sq_by_priority = [], sq_containing = replicate (length uids) [], sq_updated = None\<rparr>"

text \<open>The slice \<open>seq[a:b]\<close> for \<open>0 \<le> a\<close> and \<open>0 \<le> b\<close>.\<close>

definition sub_sequence ::
  "nat \<Rightarrow> nat \<Rightarrow> ('p::linorder, 'a) sequence_info \<Rightarrow> ('p, 'a) sequence_info result" where
  "sub_sequence a b sq =
     (let uids = drop a (take b (sq_block_uids sq)); infos = drop a (take b (sq_block_infos sq))
      in rbind (sort_spans infos) (\<lambda>(by_priority, containing). Inr
           \<lparr>sq_block_uids = uids, sq_block_infos = infos, sq_by_priority = by_priority,
            sq_containing = containing, sq_updated = sq_updated sq\<rparr>))"

fun replace_servers ::
  "string list \<Rightarrow> ('p, 'a) module_info list \<Rightarrow> ('p, 'a) module_info list
     \<Rightarrow> ('p, 'a) module_info list result" where
  "replace_servers (u # us) (old # olds) (new # news) =
     (if u \<noteq> mi_uid new then Inl AssertionError
      else rbind (replace_servers us olds news) (\<lambda>rest. Inr (old\<lparr>mi_servers := mi_servers new\<rparr> # rest)))"
| "replace_servers us olds news = Inr olds"

definition update_sequence ::
  "'a \<Rightarrow> ('p::linorder, 'a) module_info list \<Rightarrow> ('p, 'a) sequence_info \<Rightarrow> ('p, 'a) sequence_info result" where
  "update_sequence t news sq =
     (if length news \<noteq> length (sq_block_uids sq) then Inl AssertionError
      else rbind (replace_servers (sq_block_uids sq) (sq_block_infos sq) news) (\<lambda>infos.
        rbind (sort_spans infos) (\<lambda>(by_priority, containing). Inr
          (sq\<lparr>sq_block_infos := infos, sq_by_priority := by_priority, sq_containing := containing,
              sq_updated := Some t\<rparr>))))"

end
