(* ===== verification/PetalsBackend.thy ===== *)
theory PetalsBackend
  imports PetalsSpans
begin

text \<open>
  The inference step of a Petals server: petals/server/backend.py and the loop of
  petals/server/block\_functions.py over the requests of one session, with the order of requests of
  \<open>_iterate_inference_steps\<close> in petals/server/handler.py. A tensor \<open>[batch, tokens, hidden]\<close> is the list of
  its token columns \<open>'h\<close>; the attention cache of a block is the list of its columns \<open>'k\<close>. What a
  block computes from the cache and new columns is the parameter \<open>bk_module\<close> (PyTorch), which returns
  the outputs and the old cache with the new columns after it.
\<close>

section \<open>One block\<close>

record ('h, 'k, 'y) backend =
  bk_module :: "string \<Rightarrow> 'k list \<Rightarrow> 'h list \<Rightarrow> 'h list \<times> 'k list"
  bk_heads :: "nat list"
  bk_dtype_bytes :: nat
  bk_max_chunk_bytes :: nat
  bk_reorder :: "'y \<Rightarrow> 'k list \<Rightarrow> 'k list"
  bk_plus :: "'h \<Rightarrow> 'h \<Rightarrow> 'h"
  bk_zero :: 'k

definition estimate_max_chunk_length ::
  "('h, 'k, 'y) backend \<Rightarrow> nat \<Rightarrow> nat \<Rightarrow> nat \<Rightarrow> nat result" where
  "estimate_max_chunk_length B batch prefix n =
     (let worst_case_length = prefix + n;
          attn_bytes_per_token = fold max (bk_heads B) 0 * batch * bk_dtype_bytes B * worst_case_length
      in if attn_bytes_per_token = 0 then Inl ZeroDivisionError
         else Inr (max 1 (bk_max_chunk_bytes B div attn_bytes_per_token)))"

text \<open>
  The loop over chunks of the input: each chunk attends to the cache of the chunks before. The last
  component is \<open>new_kvs\<close>, not assigned when there was no chunk.
\<close>

function chunk_loop ::
  "('k list \<Rightarrow> 'h list \<Rightarrow> 'h list \<times> 'k list) \<Rightarrow> nat \<Rightarrow> 'k list \<Rightarrow> 'h list \<Rightarrow> 'h list \<Rightarrow> 'k list option
     \<Rightarrow> 'h list \<times> 'k list option" where
  "chunk_loop f c layer_past hs out new_kvs =
     (if hs = [] \<or> c = 0 then (out, new_kvs)
      else case f layer_past (take c hs) of
        (o_chunk, kvs) \<Rightarrow> chunk_loop f c kvs (drop c hs) (out @ o_chunk) (Some kvs))"
  by pat_completeness auto

termination by (relation "measure (\<lambda>(f, c, layer_past, hs, out, new_kvs). length hs)") auto

declare chunk_loop.simps [simp del]

definition inference_step ::
  "('h, 'k, 'y) backend \<Rightarrow> string \<Rightarrow> nat \<Rightarrow> nat \<Rightarrow> 'y option \<Rightarrow> 'k list \<Rightarrow> 'h list \<Rightarrow> 'h list result \<times> 'k list" where
  "inference_step B uid batch prefix hypo cache hs =
     (let cache1 = (case hypo of None \<Rightarrow> cache | Some y \<Rightarrow> bk_reorder B y cache)
      in case estimate_max_chunk_length B batch prefix (length hs) of
           Inl e \<Rightarrow> (Inl e, cache1)
         | Inr c \<Rightarrow>
             (case chunk_loop (bk_module B uid) c (take prefix cache1) hs [] None of
                (out, None) \<Rightarrow> (Inl NameError, cache1)
              | (out, Some kvs) \<Rightarrow>
                  if length cache1 < length kvs then (Inl RuntimeError, cache1)
                  else (Inr out, take prefix cache1 @ drop prefix kvs @ drop (length kvs) cache1)))"

section \<open>A chain of blocks\<close>

definition add_prompt :: "('h, 'k, 'y) backend \<Rightarrow> 'h list option \<Rightarrow> 'h list \<Rightarrow> 'h list result" where
  "add_prompt B prompt hs =
     (case prompt of
        None \<Rightarrow> Inr hs
      | Some ps \<Rightarrow>
          if length hs < length ps then Inl RuntimeError
          else Inr (map2 (bk_plus B) (take (length ps) hs) ps @ drop (length ps) hs))"

text \<open>\<open>_MergedInferenceStep\<close>: each block has its uid, its cache and its prompt. The caches are returned, too.\<close>

fun run_blocks ::
  "('h, 'k, 'y) backend \<Rightarrow> nat \<Rightarrow> nat \<Rightarrow> 'y option \<Rightarrow> (string \<times> 'k list \<times> 'h list option) list \<Rightarrow> 'h list
     \<Rightarrow> 'h list result \<times> 'k list list" where
  "run_blocks B batch prefix hypo [] hs = (Inr hs, [])"
| "run_blocks B batch prefix hypo ((uid, cache, prompt) # bs) hs =
     (case add_prompt B prompt hs of
        Inl e \<Rightarrow> (Inl e, cache # map (\<lambda>(_, c, _). c) bs)
      | Inr hs1 \<Rightarrow>
          (case inference_step B uid batch prefix hypo cache hs1 of
             (Inl e, cache') \<Rightarrow> (Inl e, cache' # map (\<lambda>(_, c, _). c) bs)
           | (Inr out, cache') \<Rightarrow>
               (case run_blocks B batch prefix hypo bs out of (res, caches) \<Rightarrow> (res, cache' # caches))))"

text \<open>Long requests go through the pool of each block in turn.\<close>

fun run_separately ::
  "('h, 'k, 'y) backend \<Rightarrow> nat \<Rightarrow> nat \<Rightarrow> 'y option \<Rightarrow> (string \<times> 'k list \<times> 'h list option) list \<Rightarrow> 'h list
     \<Rightarrow> 'h list result \<times> 'k list list" where
  "run_separately B batch prefix hypo [] hs = (Inr hs, [])"
| "run_separately B batch prefix hypo (b # bs) hs =
     (case run_blocks B batch prefix hypo [b] hs of
        (Inl e, cs) \<Rightarrow> (Inl e, cs @ map (\<lambda>(_, c, _). c) bs)
      | (Inr out, cs) \<Rightarrow>
          (case run_separately B batch prefix hypo bs out of (res, caches) \<Rightarrow> (res, cs @ caches)))"

lemma run_separately_eq: "run_separately B batch prefix hypo bs hs = run_blocks B batch prefix hypo bs hs"
proof (induction bs arbitrary: hs)
  case (Cons b bs)
  obtain uid cache prompt where b: "b = (uid, cache, prompt)" by (cases b)
  show ?case
    unfolding b by (auto simp: Cons.IH split: sum.splits prod.splits)
qed simp

section \<open>One session of a server\<close>

record ('h, 'y) request =
  rq_uids :: "string list"
  rq_step_id :: "nat option"
  rq_max_length :: "nat option"
  rq_position :: "nat option"
  rq_batch :: nat
  rq_inputs :: "'h list"
  rq_prompts :: "'h list list option"
  rq_hypo :: "'y option"

record 'k serving =
  sv_uids :: "string list"
  sv_max_length :: nat
  sv_prefix :: nat
  sv_caches :: "'k list list"
  sv_done_ids :: "nat list"

text \<open>
  The first request of a session: the blocks must be served and the cache allocated. \<open>alloc\<close> says
  whether the memory cache grants the allocation.
\<close>

definition open_serving ::
  "('h, 'k, 'y) backend \<Rightarrow> (string \<Rightarrow> bool) \<Rightarrow> nat \<Rightarrow> bool \<Rightarrow> ('h, 'y) request \<Rightarrow> 'k serving result" where
  "open_serving B serves inference_max_length alloc rq =
     (if list_ex (\<lambda>u. \<not> serves u) (rq_uids rq) then Inl RuntimeError
      else case rq_max_length rq of None \<Rightarrow> Inl AssertionError | Some max_length \<Rightarrow>
      if inference_max_length < max_length then Inl ValueError
      else if \<not> alloc then Inl AllocationFailed
      else Inr \<lparr>sv_uids = rq_uids rq, sv_max_length = max_length, sv_prefix = 0,
                sv_caches = map (\<lambda>_. replicate max_length (bk_zero B)) (rq_uids rq), sv_done_ids = []\<rparr>)"

text \<open>
  One turn of \<open>iterate_rpc_inference\<close>. The position of a request replaces the prefix length whatever it
  is: the assertion on it is a non-empty tuple, which is true.
\<close>

definition serve_step ::
  "('h, 'k, 'y) backend \<Rightarrow> nat \<Rightarrow> ('h, 'y) request \<Rightarrow> 'k serving \<Rightarrow> 'h list result \<times> 'k serving" where
  "serve_step B merge_max_tokens rq sv =
     (let prefix = (case rq_position rq of Some p \<Rightarrow> p | None \<Rightarrow> sv_prefix sv);
          n = length (rq_inputs rq);
          prompts = (case rq_prompts rq of
             None \<Rightarrow> map (\<lambda>_. None) (sv_uids sv) | Some ps \<Rightarrow> map (\<lambda>p. if p = [] then None else Some p) ps);
          sv1 = sv\<lparr>sv_prefix := prefix\<rparr>
      in if length prompts \<noteq> length (sv_uids sv) then (Inl ValueError, sv1)
         else if prefix + n > sv_max_length sv then (Inl ValueError, sv1)
         else if rq_batch rq * n = 0 then (Inr (rq_inputs rq), sv1\<lparr>sv_prefix := prefix + n\<rparr>)
         else let blocks = zip (sv_uids sv) (zip (sv_caches sv) prompts)
         in case (if rq_batch rq * n \<le> merge_max_tokens
                  then run_blocks B (rq_batch rq) prefix (rq_hypo rq) blocks (rq_inputs rq)
                  else run_separately B (rq_batch rq) prefix (rq_hypo rq) blocks (rq_inputs rq)) of
              (Inl e, caches) \<Rightarrow> (Inl e, sv1\<lparr>sv_caches := caches\<rparr>)
            | (Inr out, caches) \<Rightarrow> (Inr out, sv1\<lparr>sv_caches := caches, sv_prefix := prefix + n\<rparr>))"

text \<open>
  \<open>_iterate_inference_steps\<close> over the requests in the order in which they arrive, from the client and
  from the previous server: an empty request ends the session, a step id that was processed is
  skipped, and an exception ends the session. The step ids and responses of the processed requests
  are returned.
\<close>

fun serve_requests ::
  "('h, 'k, 'y) backend \<Rightarrow> nat \<Rightarrow> ('h, 'y) request option list \<Rightarrow> 'k serving
     \<Rightarrow> (nat option \<times> 'h list result) list \<times> 'k serving" where
  "serve_requests B merge_max [] sv = ([], sv)"
| "serve_requests B merge_max (None # rqs) sv = ([], sv)"
| "serve_requests B merge_max (Some rq # rqs) sv =
     (if rq_step_id rq \<noteq> None \<and> the (rq_step_id rq) \<in> set (sv_done_ids sv)
      then serve_requests B merge_max rqs sv
      else case serve_step B merge_max rq sv of
        (Inl e, sv1) \<Rightarrow> ([(rq_step_id rq, Inl e)], sv1)
      | (Inr out, sv1) \<Rightarrow>
          (let sv2 = (case rq_step_id rq of None \<Rightarrow> sv1 | Some i \<Rightarrow> sv1\<lparr>sv_done_ids := sv_done_ids sv1 @ [i]\<rparr>)
           in case serve_requests B merge_max rqs sv2 of
                (rs, sv3) \<Rightarrow> ((rq_step_id rq, Inr out) # rs, sv3)))"

end
