(* ===== verification/PetalsSession.thy ===== *)
theory PetalsSession
  imports PetalsBackend
begin

text \<open>
  The client's inference session over a chain of servers, petals/client/inference\_session.py:
  \<open>_ServerInferenceSession\<close> for the blocks of one server and \<open>InferenceSession\<close>, which routes, retries
  and replaces failed servers. The record \<open>net\<close> holds what the client calls: the router, the
  connections to servers and the notifications of the sequence manager, all on a world \<open>'w\<close>. Batches,
  devices and the serialization of tensors are not modelled.
\<close>

section \<open>State\<close>

record ('p, 'a, 'h) server_session =
  ss_span :: "('p, 'a) span_info"
  ss_id :: nat
  ss_stepped :: bool
  ss_closed :: bool
  ss_position :: nat
  ss_history :: "'h list option"
  ss_next :: "nat option"

record ('p, 'a, 'h) client_session =
  cs_uids :: "string list"
  cs_sessions :: "('p, 'a, 'h) server_session list"
  cs_position :: nat
  cs_max_length :: nat
  cs_closed :: bool

record ('w, 'p, 'a, 'h, 'y) net =
  net_route :: "int \<Rightarrow> int \<Rightarrow> nat \<Rightarrow> 'w \<Rightarrow> ('p, 'a) span_info list result \<times> 'w"
  net_open :: "'p \<Rightarrow> 'w \<Rightarrow> nat result \<times> 'w"
  net_step :: "nat \<Rightarrow> ('h, 'y) request \<Rightarrow> 'w \<Rightarrow> 'h list result \<times> 'w"
  net_close :: "nat \<Rightarrow> bool \<Rightarrow> 'w \<Rightarrow> bool \<times> 'w"
  net_failure :: "'p option \<Rightarrow> 'w \<Rightarrow> 'w"
  net_success :: "'p \<Rightarrow> 'w \<Rightarrow> 'w"
  net_max_retries :: "nat option"

definition new_session :: "('p, 'a) span_info \<Rightarrow> nat \<Rightarrow> ('p, 'a, 'h) server_session" where
  "new_session sp sid =
     \<lparr>ss_span = sp, ss_id = sid, ss_stepped = False, ss_closed = False, ss_position = 0, ss_history = None,
      ss_next = None\<rparr>"

definition new_client_session :: "string list \<Rightarrow> nat \<Rightarrow> ('p, 'a, 'h) client_session" where
  "new_client_session uids max_length =
     \<lparr>cs_uids = uids, cs_sessions = [], cs_position = 0, cs_max_length = max_length, cs_closed = False\<rparr>"

definition num_blocks :: "('p, 'a, 'h) client_session \<Rightarrow> int" where
  "num_blocks cs = int (length (cs_uids cs))"

section \<open>One server\<close>

text \<open>The last \<open>n\<close> tokens, \<open>xs[:, -n:]\<close>: everything for \<open>n = 0\<close>.\<close>

definition last_tokens :: "nat \<Rightarrow> 'h list \<Rightarrow> 'h list" where
  "last_tokens n xs = (if n = 0 then xs else drop (length xs - n) xs)"

text \<open>The position setter: going back cuts the history.\<close>

definition set_position :: "nat \<Rightarrow> ('p, 'a, 'h) server_session \<Rightarrow> unit result \<times> ('p, 'a, 'h) server_session" where
  "set_position start s =
     (if ss_position s < start then (Inl AssertionError, s)
      else (Inr (), s\<lparr>ss_position := start,
              ss_history := (case ss_history s of
                 None \<Rightarrow> None
               | Some h \<Rightarrow> if start \<le> length h then (if 0 < start then Some (take start h) else None) else Some h)\<rparr>))"

definition step_history :: "'h list \<Rightarrow> ('p, 'a, 'h) server_session \<Rightarrow> 'h list" where
  "step_history inputs s =
     (case ss_history s of
        None \<Rightarrow> inputs
      | Some h \<Rightarrow> if length h = ss_position s then h @ last_tokens (length inputs) inputs else h)"

text \<open>The uids of a span, \<open>block_uids[start:end]\<close> for \<open>0 \<le> start\<close> and \<open>0 \<le> end\<close>.\<close>

definition uids_between :: "string list \<Rightarrow> int \<Rightarrow> int \<Rightarrow> string list" where
  "uids_between uids a b = drop (nat a) (take (nat b) uids)"

text \<open>
  One step: the first request of a session carries the whole history and the maximal length. The
  position is never \<open>None\<close>, so it is always sent, and the branch that would send the next servers is
  not taken.
\<close>

definition step_request ::
  "nat \<Rightarrow> string list \<Rightarrow> nat \<Rightarrow> 'h list \<Rightarrow> 'h list list option \<Rightarrow> 'y option \<Rightarrow> nat \<Rightarrow> ('p, 'a, 'h) server_session
     \<Rightarrow> ('h, 'y) request" where
  "step_request batch uids max_length sent prompts hypo step_id s =
     \<lparr>rq_uids = uids_between uids (sp_start (ss_span s)) (sp_end (ss_span s)), rq_step_id = Some step_id,
      rq_max_length = (if ss_stepped s then None else Some max_length), rq_position = Some (ss_position s),
      rq_batch = batch, rq_inputs = sent, rq_prompts = prompts, rq_hypo = hypo\<rparr>"

definition server_session_step ::
  "('w, 'p, 'a, 'h, 'y) net \<Rightarrow> nat \<Rightarrow> string list \<Rightarrow> nat \<Rightarrow> 'h list list option \<Rightarrow> 'y option \<Rightarrow> nat \<Rightarrow> 'h list
     \<Rightarrow> ('p, 'a, 'h) server_session \<Rightarrow> 'w \<Rightarrow> 'h list result \<times> ('p, 'a, 'h) server_session \<times> 'w" where
  "server_session_step N batch uids max_length prompts hypo step_id inputs s w =
     (if ss_closed s then (Inl GenericException, s, w)
      else let n = length inputs; hist = step_history inputs s; s1 = s\<lparr>ss_history := Some hist\<rparr>
      in if length hist \<noteq> ss_position s + n then (Inl AssertionError, s1, w)
      else let sent = (if \<not> ss_stepped s then hist else last_tokens n inputs)
      in case net_step N (ss_id s) (step_request batch uids max_length sent prompts hypo step_id s) w of
           (Inl e, w1) \<Rightarrow> (Inl e, s1\<lparr>ss_stepped := True\<rparr>, w1)
         | (Inr out, w1) \<Rightarrow>
             if length out \<noteq> length sent then (Inl AssertionError, s1\<lparr>ss_stepped := True\<rparr>, w1)
             else (Inr out, s1\<lparr>ss_stepped := True, ss_position := ss_position s + n\<rparr>, w1))"

text \<open>Closing: an error on the way leaves the session open, and the caller swallows it.\<close>

definition close_session ::
  "('w, 'p, 'a, 'h, 'y) net \<Rightarrow> ('p, 'a, 'h) server_session \<Rightarrow> 'w \<Rightarrow> ('p, 'a, 'h) server_session \<times> 'w" where
  "close_session N s w =
     (if ss_closed s then (s, w)
      else case net_close N (ss_id s) (ss_stepped s) w of (ok, w1) \<Rightarrow> (s\<lparr>ss_closed := ok\<rparr>, w1))"

text \<open>In reverse order.\<close>

fun exit_sessions ::
  "('w, 'p, 'a, 'h, 'y) net \<Rightarrow> ('p, 'a, 'h) server_session list \<Rightarrow> 'w \<Rightarrow> ('p, 'a, 'h) server_session list \<times> 'w" where
  "exit_sessions N [] w = ([], w)"
| "exit_sessions N (s # ss) w =
     (case exit_sessions N ss w of (ss', w1) \<Rightarrow> (case close_session N s w1 of (s', w2) \<Rightarrow> (s' # ss', w2)))"

section \<open>The chain of servers\<close>

text \<open>A connection that cannot be made closes those made before.\<close>

fun enter_sessions ::
  "('w, 'p, 'a, 'h, 'y) net \<Rightarrow> ('p, 'a) span_info list \<Rightarrow> ('p, 'a, 'h) server_session list \<Rightarrow> 'w
     \<Rightarrow> ('p, 'a, 'h) server_session list result \<times> 'w" where
  "enter_sessions N [] made w = (Inr made, w)"
| "enter_sessions N (sp # sps) made w =
     (case net_open N (sp_peer sp) w of
        (Inl e, w1) \<Rightarrow> (Inl e, snd (exit_sessions N made w1))
      | (Inr sid, w1) \<Rightarrow> enter_sessions N sps (made @ [new_session sp sid]) w1)"

definition link_sessions ::
  "nat \<Rightarrow> nat \<Rightarrow> ('p, 'a, 'h) server_session list \<Rightarrow> ('p, 'a, 'h) server_session list" where
  "link_sessions lo hi ss =
     map (\<lambda>i. if lo \<le> i \<and> i < hi then (ss ! i)\<lparr>ss_next := Some (ss_id (ss ! (i + 1)))\<rparr> else ss ! i) [0..<length ss]"

text \<open>
  \<open>_update_sequence\<close>: the session at \<open>si\<close> (if there is one) is closed, a route from the block \<open>bi\<close> to
  the end of its span (to the last block, if there is none) is made, and the new sessions take its
  place. The first of them gets its history.
\<close>

definition update_end :: "nat \<Rightarrow> ('p, 'a, 'h) client_session \<Rightarrow> int" where
  "update_end si cs =
     (if si < length (cs_sessions cs) then sp_end (ss_span (cs_sessions cs ! si)) else num_blocks cs)"

definition splice_sessions ::
  "nat \<Rightarrow> ('p, 'a, 'h) server_session list \<Rightarrow> ('p, 'a, 'h) server_session list \<Rightarrow> ('p, 'a, 'h) server_session list" where
  "splice_sessions si news ss =
     (let news1 = (if si < length ss then (hd news)\<lparr>ss_history := ss_history (ss ! si)\<rparr> # tl news else news);
          ss1 = take si ss @ news1 @ drop (si + 1) ss
      in link_sessions (si - 1) (min (si + length news) (length ss1 - 1)) ss1)"

definition session_update ::
  "('w, 'p, 'a, 'h, 'y) net \<Rightarrow> nat \<Rightarrow> int \<Rightarrow> ('p, 'a, 'h) client_session \<Rightarrow> 'w
     \<Rightarrow> unit result \<times> ('p, 'a, 'h) client_session \<times> 'w" where
  "session_update N si bi cs w =
     (let ss = cs_sessions cs
      in case exit_sessions N (take 1 (drop si ss)) w of (olds, w1) \<Rightarrow>
      let cs1 = cs\<lparr>cs_sessions := take si ss @ olds @ drop (si + 1) ss\<rparr>
      in case net_route N bi (update_end si cs) (cs_max_length cs) w1 of
           (Inl e, w2) \<Rightarrow> (Inl e, cs1, w2)
         | (Inr spans, w2) \<Rightarrow>
             if spans = [] then (Inl IndexError, cs1, w2)
             else let spans1 = butlast spans @ [(last spans)\<lparr>sp_end := min (sp_end (last spans)) (update_end si cs)\<rparr>]
             in case enter_sessions N spans1 [] w2 of
                  (Inl e, w3) \<Rightarrow> (Inl e, cs1, w3)
                | (Inr news, w3) \<Rightarrow> (Inr (), cs1\<lparr>cs_sessions := splice_sessions si news (cs_sessions cs1)\<rparr>, w3))"

section \<open>A step through the chain\<close>

text \<open>\<open>prompts[start:end]\<close>; the dummy tensor stays the dummy.\<close>

definition span_prompts :: "'h list list option \<Rightarrow> ('p, 'a) span_info \<Rightarrow> 'h list list option" where
  "span_prompts prompts sp = map_option (\<lambda>ps. drop (nat (sp_start sp)) (take (nat (sp_end sp)) ps)) prompts"

text \<open>
  One attempt at the server \<open>si\<close>: the outputs and the block after its span; with an error, the peer
  to blame, if the session was chosen.
\<close>

definition session_attempt ::
  "('w, 'p, 'a, 'h, 'y) net \<Rightarrow> nat \<Rightarrow> 'h list list option \<Rightarrow> 'y option \<Rightarrow> nat \<Rightarrow> nat \<Rightarrow> int \<Rightarrow> nat \<Rightarrow> 'h list
     \<Rightarrow> ('p, 'a, 'h) client_session \<Rightarrow> 'w
     \<Rightarrow> (py_error \<times> 'p option + 'h list \<times> int \<times> 'p) \<times> ('p, 'a, 'h) client_session \<times> 'w" where
  "session_attempt N batch prompts hypo step_id si bi attempt inputs cs w =
     (case (if cs_sessions cs = [] \<or> 1 \<le> attempt then session_update N si bi cs w else (Inr (), cs, w)) of
        (Inl e, cs1, w1) \<Rightarrow> (Inl (e, None), cs1, w1)
      | (Inr _, cs1, w1) \<Rightarrow>
          if length (cs_sessions cs1) \<le> si then (Inl (IndexError, None), cs1, w1)
          else let s = cs_sessions cs1 ! si; peer = sp_peer (ss_span s)
          in if ss_position s \<noteq> cs_position cs1 then (Inl (AssertionError, Some peer), cs1, w1)
          else case server_session_step N batch (cs_uids cs1) (cs_max_length cs1)
                      (span_prompts prompts (ss_span s)) hypo step_id inputs s w1 of
                 (res, s1, w2) \<Rightarrow>
                   ((case res of Inl e \<Rightarrow> Inl (e, Some peer) | Inr out \<Rightarrow> Inr (out, sp_end (ss_span s), peer)),
                    cs1\<lparr>cs_sessions := (cs_sessions cs1)[si := s1]\<rparr>, w2))"

text \<open>\<open>None\<close>: the loop does not return. The waiting times between attempts are left out.\<close>

partial_function (option) session_loop ::
  "('w, 'p, 'a, 'h, 'y) net \<Rightarrow> nat \<Rightarrow> 'h list list option \<Rightarrow> 'y option \<Rightarrow> nat \<Rightarrow> nat \<Rightarrow> int \<Rightarrow> nat \<Rightarrow> 'h list
     \<Rightarrow> ('p, 'a, 'h) client_session \<Rightarrow> 'w \<Rightarrow> ('h list result \<times> ('p, 'a, 'h) client_session \<times> 'w) option" where
  "session_loop N batch prompts hypo step_id si bi attempt inputs cs w =
     (if \<not> bi < num_blocks cs then Some (Inr inputs, cs, w)
      else case session_attempt N batch prompts hypo step_id si bi attempt inputs cs w of
        (Inr (out, e, peer), cs1, w1) \<Rightarrow>
          session_loop N batch prompts hypo step_id (si + 1) e 0 out cs1 (net_success N peer w1)
      | (Inl (err, peer), cs1, w1) \<Rightarrow>
          if net_max_retries N = Some (attempt + 1) then Some (Inl err, cs1, net_failure N peer w1)
          else session_loop N batch prompts hypo step_id si bi (attempt + 1) inputs cs1 (net_failure N peer w1))"

declare session_loop.simps [code]

definition prompts_fit :: "('p, 'a, 'h) client_session \<Rightarrow> 'h list \<Rightarrow> 'h list list option \<Rightarrow> bool" where
  "prompts_fit cs inputs prompts =
     (case prompts of
        None \<Rightarrow> True
      | Some ps \<Rightarrow> int (length ps) = num_blocks cs \<and> list_all (\<lambda>p. length p \<le> length inputs) ps)"

definition session_step ::
  "('w, 'p, 'a, 'h, 'y) net \<Rightarrow> nat \<Rightarrow> 'h list list option \<Rightarrow> 'y option \<Rightarrow> nat \<Rightarrow> 'h list
     \<Rightarrow> ('p, 'a, 'h) client_session \<Rightarrow> 'w \<Rightarrow> ('h list result \<times> ('p, 'a, 'h) client_session \<times> 'w) option" where
  "session_step N batch prompts hypo step_id inputs cs w =
     (if cs_closed cs \<or> \<not> prompts_fit cs inputs prompts then Some (Inl AssertionError, cs, w)
      else if cs_max_length cs < cs_position cs + length inputs then Some (Inl ValueError, cs, w)
      else map_option
        (\<lambda>(res, cs1, w1). (case res of
            Inl e \<Rightarrow> (Inl e, cs1, w1)
          | Inr out \<Rightarrow> (Inr (last_tokens (length inputs) out),
                         cs1\<lparr>cs_position := cs_position cs1 + length inputs\<rparr>, w1)))
        (session_loop N batch prompts hypo step_id 0 0 0 inputs cs w))"

text \<open>The position setter of the chain stops at the first server that refuses.\<close>

fun set_positions ::
  "nat \<Rightarrow> ('p, 'a, 'h) server_session list \<Rightarrow> unit result \<times> ('p, 'a, 'h) server_session list" where
  "set_positions start [] = (Inr (), [])"
| "set_positions start (s # ss) =
     (case set_position start s of
        (Inl e, s1) \<Rightarrow> (Inl e, s1 # ss)
      | (Inr _, s1) \<Rightarrow> (case set_positions start ss of (res, ss1) \<Rightarrow> (res, s1 # ss1)))"

definition session_set_position ::
  "nat \<Rightarrow> ('p, 'a, 'h) client_session \<Rightarrow> unit result \<times> ('p, 'a, 'h) client_session" where
  "session_set_position start cs =
     (case set_positions start (cs_sessions cs) of
        (res, ss) \<Rightarrow> (res, cs\<lparr>cs_position := start, cs_sessions := ss\<rparr>))"

definition session_close ::
  "('w, 'p, 'a, 'h, 'y) net \<Rightarrow> ('p, 'a, 'h) client_session \<Rightarrow> 'w \<Rightarrow> ('p, 'a, 'h) client_session \<times> 'w" where
  "session_close N cs w =
     (if cs_closed cs then (cs, w)
      else case exit_sessions N (cs_sessions cs) w of (_, w1) \<Rightarrow> (cs\<lparr>cs_sessions := [], cs_closed := True\<rparr>, w1))"

end
