(* ===== verification/PetalsRouting.thy ===== *)
theory PetalsRouting
  imports PetalsSpans
begin

text \<open>
  petals/client/routing/sequence\_manager.py: how a client chooses the servers of a chain. The
  shortest-path search of the dijkstar package is the parameter \<open>find_path\<close>, the random choices are
  the parameter \<open>pick\<close>, the temporary bans of hivemind's \<open>Blacklist\<close> are a predicate. A peer's next
  pings are keyed by the peer itself.
\<close>

section \<open>Configuration and delays\<close>

record ('p, 'a) client_config =
  cc_allowed :: "'p list option"
  cc_blocked :: "'p list option"
  cc_max_pinged :: nat
  cc_min_backoff :: 'a
  cc_max_backoff :: 'a

type_synonym ('p, 'a) rtts = "('p \<times> 'a rtt) list"

definition rtt_to_delay :: "'a::linordered_field rtt option \<Rightarrow> 'a" where
  "rtt_to_delay r = (case r of None \<Rightarrow> 15 / 100 | Some (Finite t) \<Rightarrow> min (t / 2) 5 | Some Infinite \<Rightarrow> 5)"

definition has_cache_for :: "int option \<Rightarrow> ('p, 'a) span_info \<Rightarrow> bool" where
  "has_cache_for needed sp =
     (case (needed, sx_cache_tokens_left (si_extra (sp_info sp))) of
        (Some n, Some left_tokens) \<Rightarrow> n * 2 * sp_length sp \<le> left_tokens
      | _ \<Rightarrow> True)"

definition get_retry_delay :: "('p, 'a::linordered_field) client_config \<Rightarrow> nat \<Rightarrow> 'a" where
  "get_retry_delay cfg attempt =
     (if attempt = 0 then 0 else min (cc_min_backoff cfg * 2 ^ (attempt - 1)) (cc_max_backoff cfg))"

section \<open>The inference graph\<close>

datatype 'p node = StartNode | EndNode | At 'p int

type_synonym ('p, 'a) graph = "(('p node \<times> 'p node) \<times> 'a) list"

definition add_edge :: "'p node \<Rightarrow> 'p node \<Rightarrow> 'a \<Rightarrow> ('p, 'a) graph \<Rightarrow> ('p, 'a) graph" where
  "add_edge u v w g = dset (u, v) w g"

definition spans_at :: "('p, 'a) sequence_info \<Rightarrow> int \<Rightarrow> ('p, 'a) span_info list" where
  "spans_at sq i = (if 0 \<le> i \<and> i < int (length (sq_containing sq)) then sq_containing sq ! nat i else [])"

definition missing_blocks :: "('p, 'a) sequence_info \<Rightarrow> int \<Rightarrow> int \<Rightarrow> int list" where
  "missing_blocks sq a b = filter (\<lambda>i. spans_at sq i = []) [a..b - 1]"

definition entry_delay ::
  "int option \<Rightarrow> 'a::linordered_field rtt option \<Rightarrow> ('p, 'a) span_info \<Rightarrow> 'a" where
  "entry_delay needed r sp = rtt_to_delay r + 18 / 1000 + (if has_cache_for needed sp then 0 else 10)"

definition start_edges ::
  "('p, 'a::linordered_field) rtts \<Rightarrow> int option \<Rightarrow> ('p, 'a) sequence_info \<Rightarrow> int \<Rightarrow> ('p, 'a) graph \<Rightarrow> ('p, 'a) graph" where
  "start_edges rt needed sq a g =
     fold (\<lambda>sp. add_edge StartNode (At (sp_peer sp) a) (entry_delay needed (dget rt (sp_peer sp)) sp)) (spans_at sq a) g"

definition end_edges ::
  "('p, 'a::linordered_field) rtts \<Rightarrow> ('p, 'a) sequence_info \<Rightarrow> int \<Rightarrow> ('p, 'a) graph \<Rightarrow> ('p, 'a) graph" where
  "end_edges rt sq b g =
     fold (\<lambda>sp. add_edge (At (sp_peer sp) b) EndNode (rtt_to_delay (dget rt (sp_peer sp)))) (spans_at sq (b - 1)) g"

definition hop_rtt :: "('p, 'a) span_info \<Rightarrow> 'p \<Rightarrow> 'a rtt option" where
  "hop_rtt sp q = (case sx_next_pings (si_extra (sp_info sp)) of None \<Rightarrow> None | Some d \<Rightarrow> dget d q)"

definition switch_edges_from ::
  "int option \<Rightarrow> ('p, 'a::linordered_field) sequence_info \<Rightarrow> int \<Rightarrow> ('p, 'a) span_info \<Rightarrow> ('p, 'a) graph \<Rightarrow> ('p, 'a) graph" where
  "switch_edges_from needed sq i cur g =
     (if sp_end cur \<noteq> i then g
      else fold (\<lambda>nxt. add_edge (At (sp_peer cur) i) (At (sp_peer nxt) i)
                   (entry_delay needed (hop_rtt cur (sp_peer nxt)) nxt)) (spans_at sq i) g)"

definition switch_edges ::
  "int option \<Rightarrow> ('p, 'a::linordered_field) sequence_info \<Rightarrow> int \<Rightarrow> int \<Rightarrow> ('p, 'a) graph \<Rightarrow> ('p, 'a) graph" where
  "switch_edges needed sq a b g =
     fold (\<lambda>i. fold (switch_edges_from needed sq i) (spans_at sq (i - 1))) [a + 1..b - 1] g"

definition rate_of :: "('p, 'a::linordered_field) span_info \<Rightarrow> 'a" where
  "rate_of sp = (case sx_inference_rps (si_extra (sp_info sp)) of Some r \<Rightarrow> r | None \<Rightarrow> 300)"

definition rate_edges ::
  "('p, 'a::linordered_field) sequence_info \<Rightarrow> int \<Rightarrow> int \<Rightarrow> ('p, 'a) graph \<Rightarrow> ('p, 'a) graph" where
  "rate_edges sq a b g =
     fold (\<lambda>sp. fold (\<lambda>i. add_edge (At (sp_peer sp) i) (At (sp_peer sp) (i + 1))
                       (1 / rate_of sp))
                  [max (sp_start sp) a..min (sp_end sp) b - 1]) (sq_by_priority sq) g"

text \<open>A span with a block in the range whose server announces the rate 0 stops the loop: \<open>1.0 / 0\<close> raises.\<close>

definition compute_edges ::
  "('p, 'a::linordered_field) sequence_info \<Rightarrow> int \<Rightarrow> int \<Rightarrow> ('p, 'a) graph \<Rightarrow> ('p, 'a) graph result" where
  "compute_edges sq a b g =
     (if list_ex (\<lambda>sp. max (sp_start sp) a < min (sp_end sp) b \<and> rate_of sp = 0) (sq_by_priority sq)
      then Inl ZeroDivisionError else Inr (rate_edges sq a b g))"

definition build_inference_graph ::
  "('p, 'a::linordered_field) rtts \<Rightarrow> int option \<Rightarrow> ('p, 'a) sequence_info \<Rightarrow> int \<Rightarrow> int \<Rightarrow> ('p, 'a) graph result" where
  "build_inference_graph rt needed sq a b =
     (if missing_blocks sq a b \<noteq> [] then Inl MissingBlocksError
      else compute_edges sq a b (switch_edges needed sq a b (end_edges rt sq b (start_edges rt needed sq a []))))"

section \<open>The route with the least latency\<close>

definition server_infos_of ::
  "('p, 'a) sequence_info \<Rightarrow> int \<Rightarrow> int \<Rightarrow> ('p \<times> ('p, 'a) server_info) list" where
  "server_infos_of sq a b =
     fold (\<lambda>i. fold (\<lambda>sp. dset (sp_peer sp) (sp_info sp)) (spans_at sq i)) [a..b - 1] []"

text \<open>The spans along the inner nodes of a path; the last span grows while the peer stays the same.\<close>

fun spans_of_nodes ::
  "('p \<times> ('p, 'a) server_info) list \<Rightarrow> 'p node list \<Rightarrow> ('p, 'a) span_info list \<Rightarrow> ('p, 'a) span_info list result" where
  "spans_of_nodes infos [] spans = Inr spans"
| "spans_of_nodes infos (At p i # ns) spans =
     (if spans = [] \<or> sp_peer (last spans) \<noteq> p
      then (case dget infos p of
              None \<Rightarrow> Inl KeyError
            | Some si \<Rightarrow>
                spans_of_nodes infos ns (spans @ [\<lparr>sp_peer = p, sp_start = i, sp_end = i, sp_info = si\<rparr>]))
      else spans_of_nodes infos ns (butlast spans @ [(last spans)\<lparr>sp_end := i\<rparr>]))"
| "spans_of_nodes infos (StartNode # ns) spans = Inl TypeError"
| "spans_of_nodes infos (EndNode # ns) spans = Inl TypeError"

definition make_sequence_with_min_latency ::
  "(('p, 'a::linordered_field) graph \<Rightarrow> 'p node list result) \<Rightarrow> ('p, 'a) rtts \<Rightarrow> int option \<Rightarrow> ('p, 'a) sequence_info
     \<Rightarrow> int \<Rightarrow> int \<Rightarrow> ('p, 'a) span_info list result" where
  "make_sequence_with_min_latency find_path rt needed sq a b =
     (if a = b then Inr []
      else if missing_blocks sq a b \<noteq> [] then Inl MissingBlocksError
      else rbind (build_inference_graph rt needed sq a b) (\<lambda>g.
        rbind (find_path g) (\<lambda>nodes.
          rbind (spans_of_nodes (server_infos_of sq a b) (butlast (drop 1 nodes)) [])
            (\<lambda>spans. Inr (filter (\<lambda>s. sp_length s > 0) spans)))))"

section \<open>The route with the most throughput\<close>

text \<open>\<open>pick i spans weights\<close> is the random choice at block \<open>i\<close>.\<close>

definition span_weights :: "('p, 'a::linordered_field) rtts \<Rightarrow> ('p, 'a) span_info list \<Rightarrow> 'a list" where
  "span_weights rt spans =
     map (\<lambda>sp. if dget rt (sp_peer sp) \<noteq> Some Infinite then of_int (sp_length sp) else 1 / 1000000) spans"

function max_throughput_loop ::
  "(int \<Rightarrow> ('p, 'a::linordered_field) span_info list \<Rightarrow> 'a list \<Rightarrow> ('p, 'a) span_info) \<Rightarrow> ('p, 'a) rtts
     \<Rightarrow> ('p, 'a) sequence_info \<Rightarrow> int \<Rightarrow> int \<Rightarrow> ('p, 'a) span_info list result" where
  "max_throughput_loop pick rt sq b i =
     (if \<not> i < b then Inr []
      else let cands = spans_at sq i in
      if cands = [] then Inl MissingBlocksError
      else let sp = pick i cands (map (\<lambda>w. w / sum_list (span_weights rt cands)) (span_weights rt cands)) in
      if \<not> (sp_start sp \<le> i \<and> i < sp_end sp) then Inl AssertionError
      else rbind (max_throughput_loop pick rt sq b (sp_end sp)) (\<lambda>rest. Inr (sp\<lparr>sp_start := i\<rparr> # rest)))"
  by pat_completeness auto

termination by (relation "measure (\<lambda>(pick, rt, sq, b, i). nat (b - i))") auto

declare max_throughput_loop.simps [simp del]

definition make_sequence_with_max_throughput ::
  "(int \<Rightarrow> ('p, 'a::linordered_field) span_info list \<Rightarrow> 'a list \<Rightarrow> ('p, 'a) span_info) \<Rightarrow> ('p, 'a) rtts
     \<Rightarrow> ('p, 'a) sequence_info \<Rightarrow> int \<Rightarrow> int \<Rightarrow> ('p, 'a) span_info list result" where
  "make_sequence_with_max_throughput pick rt sq a b = max_throughput_loop pick rt sq b a"

datatype route_mode = MinLatency | MaxThroughput | OtherMode string

definition make_sequence ::
  "(('p, 'a::linordered_field) graph \<Rightarrow> 'p node list result)
     \<Rightarrow> (int \<Rightarrow> ('p, 'a) span_info list \<Rightarrow> 'a list \<Rightarrow> ('p, 'a) span_info) \<Rightarrow> ('p, 'a) rtts \<Rightarrow> int option
     \<Rightarrow> ('p, 'a) sequence_info \<Rightarrow> int \<Rightarrow> int option \<Rightarrow> route_mode \<Rightarrow> ('p, 'a) span_info list result" where
  "make_sequence find_path pick rt needed sq a end_index mode =
     (let b = (case end_index of Some e \<Rightarrow> e | None \<Rightarrow> int (length (sq_block_uids sq)))
      in case mode of
           MinLatency \<Rightarrow> make_sequence_with_min_latency find_path rt needed sq a b
         | MaxThroughput \<Rightarrow> make_sequence_with_max_throughput pick rt sq a b
         | OtherMode _ \<Rightarrow> Inl RuntimeError)"

section \<open>Updates and failures\<close>

definition server_permitted :: "('p, 'a) client_config \<Rightarrow> 'p \<Rightarrow> bool" where
  "server_permitted cfg p \<longleftrightarrow>
     (case cc_allowed cfg of None \<Rightarrow> True | Some ps \<Rightarrow> p \<in> set ps)
     \<and> (case cc_blocked cfg of None \<Rightarrow> True | Some ps \<Rightarrow> p \<notin> set ps)"

definition filter_servers ::
  "('p, 'a) client_config \<Rightarrow> ('p \<Rightarrow> bool) \<Rightarrow> ('p, 'a) module_info \<Rightarrow> ('p, 'a) module_info" where
  "filter_servers cfg banned m =
     (let permitted = filter (\<lambda>(p, _). server_permitted cfg p) (mi_servers m);
          valid = filter (\<lambda>(p, _). \<not> banned p) permitted
      in m\<lparr>mi_servers := (if length valid < length permitted \<and> valid \<noteq> [] then valid else permitted)\<rparr>)"

text \<open>
  The servers whose round-trip time is measured after an update; \<open>sample ps n\<close> is a random sample of
  at most \<open>n\<close> of them. The sample of the servers of the first block is overwritten.
\<close>

definition pinged_servers ::
  "('p list \<Rightarrow> nat \<Rightarrow> 'p list) \<Rightarrow> ('p, 'a) client_config \<Rightarrow> ('p, 'a) sequence_info \<Rightarrow> 'p list" where
  "pinged_servers sample cfg sq =
     (let middle = concat (map (map sp_peer) (butlast (drop 1 (sq_containing sq))));
          final = map sp_peer (last (sq_containing sq))
      in remdups (sample middle (cc_max_pinged cfg) @ sample final (cc_max_pinged cfg)))"

definition manager_update ::
  "('p \<Rightarrow> bool) \<Rightarrow> ('p list \<Rightarrow> nat \<Rightarrow> 'p list) \<Rightarrow> ('p::linorder, 'a) client_config \<Rightarrow> 'a \<Rightarrow> ('p, 'a) module_info list
     \<Rightarrow> ('p, 'a) sequence_info \<Rightarrow> (('p, 'a) sequence_info \<times> 'p list) result" where
  "manager_update banned sample cfg t found sq =
     rbind (update_sequence t (map (filter_servers cfg banned) found) sq) (\<lambda>sq'.
       if sq_containing sq' = [] then Inl IndexError else Inr (sq', pinged_servers sample cfg sq'))"

text \<open>
  A failed request takes the peer out of the blocks (not out of the spans) and asks for an update
  when a block has no server left.
\<close>

definition on_request_failure :: "'p \<Rightarrow> ('p, 'a) sequence_info \<Rightarrow> ('p, 'a) sequence_info \<times> bool" where
  "on_request_failure p sq =
     (let infos = map (\<lambda>m. m\<lparr>mi_servers := ddel p (mi_servers m)\<rparr>) (sq_block_infos sq)
      in (sq\<lparr>sq_block_infos := infos\<rparr>, list_ex (\<lambda>m. mi_servers m = []) infos))"

definition active_servers :: "('p, 'a) sequence_info \<Rightarrow> 'p list result" where
  "active_servers sq =
     (case sq_block_infos sq of
        [] \<Rightarrow> Inl IndexError
      | m # _ \<Rightarrow>
          (let ps = map fst (filter (\<lambda>(_, i). si_state i = S_ONLINE) (mi_servers m))
           in if ps = [] then Inl MissingBlocksError else Inr ps))"

end
