(* ===== verification/PetalsProps.thy ===== *)
theory PetalsProps
  imports PetalsRouting "HOL-Library.Multiset"
begin

text \<open>
  Properties of the client's view of the swarm and of its routes: the spans computed from the DHT,
  the index from blocks to spans, and the two ways to make a sequence.
\<close>

section \<open>Spans\<close>

text \<open>A span lies inside the sequence and belongs to its key.\<close>

definition span_ok :: "server_state \<Rightarrow> int \<Rightarrow> 'p \<times> ('p, 'a) span_info \<Rightarrow> bool" where
  "span_ok min_state n ps \<longleftrightarrow> (case ps of (p, sp) \<Rightarrow>
     sp_peer sp = p \<and> 0 \<le> sp_start sp \<and> sp_end sp \<le> n \<and> min_state \<le> sp_state sp)"

definition spans_wf :: "server_state \<Rightarrow> int \<Rightarrow> ('p \<times> ('p, 'a) span_info) list \<Rightarrow> bool" where
  "spans_wf min_state n spans \<longleftrightarrow> dict_ok spans \<and> list_all (span_ok min_state n) spans"

lemma set_dset: "x \<in> set (dset k v d) \<Longrightarrow> x = (k, v) \<or> x \<in> set d"
  by (induction d) (auto split: if_splits)

lemma spans_wf_dset:
  "spans_wf ms n spans \<Longrightarrow> span_ok ms n (p, sp) \<Longrightarrow> spans_wf ms n (dset p sp spans)"
  by (auto simp: spans_wf_def list_all_iff dest!: set_dset)

lemma spans_wf_get: "spans_wf ms n spans \<Longrightarrow> dget spans p = Some sp \<Longrightarrow> span_ok ms n (p, sp)"
  by (auto simp: spans_wf_def list_all_iff dest!: map_of_SomeD)

lemma spans_wf_add_server:
  assumes wf: "spans_wf ms n spans" and i: "0 \<le> idx" "idx < n"
  shows "spans_wf ms n (add_server ms off n idx pi spans)"
proof (cases pi)
  case (Pair p info)
  have new: "span_ok ms n (p, new_span off n idx p info)" if "\<not> si_state info < ms"
    using that i by (auto simp: span_ok_def new_span_def sp_state_def not_less split: option.splits)
  show ?thesis
  proof (cases "dget spans p")
    case None
    with Pair wf new show ?thesis by (simp add: add_server_def spans_wf_dset)
  next
    case (Some sp)
    have ok: "span_ok ms n (p, sp)" using spans_wf_get [OF wf Some] .
    then have "span_ok ms n (p, sp\<lparr>sp_end := max (sp_end sp) (idx + 1)\<rparr>)"
      using i by (simp add: span_ok_def sp_state_def)
    with Pair Some wf new show ?thesis by (simp add: add_server_def spans_wf_dset)
  qed
qed

lemma spans_wf_fold:
  "spans_wf ms n spans \<Longrightarrow> 0 \<le> idx \<Longrightarrow> idx < n \<Longrightarrow> spans_wf ms n (fold (add_server ms off n idx) ps spans)"
  by (induction ps arbitrary: spans) (simp_all add: spans_wf_add_server)

lemma spans_wf_loop:
  "spans_wf ms n spans \<Longrightarrow> 0 \<le> idx \<Longrightarrow> idx + int (length infos) \<le> n \<Longrightarrow>
   spans_wf ms n (span_loop ms off n idx infos spans)"
  by (induction infos arbitrary: idx spans) (simp_all add: spans_wf_fold)

lemma spans_wf_compute:
  "compute_spans infos ms = Inr spans \<Longrightarrow> spans_wf ms (int (length infos)) spans"
  by (auto simp: compute_spans_def rbind_Inr_iff intro!: spans_wf_loop)
    (simp add: spans_wf_def dict_ok_def)

section \<open>The index of blocks\<close>

lemma append_all_eq:
  "distinct is \<Longrightarrow> \<forall>i \<in> set is. 0 \<le> i \<and> i < int (length xss) \<Longrightarrow>
   append_all is v xss = Inr (map (\<lambda>j. xss ! j @ (if int j \<in> set is then [v] else [])) [0..<length xss])"
proof (induction "is" arbitrary: xss)
  case Nil
  show ?case by (simp add: map_nth)
next
  case (Cons i "is")
  let ?xss = "xss[nat i := xss ! nat i @ [v]]"
  have i: "0 \<le> i" "i < int (length xss)" using Cons.prems(2) by auto
  have "append_all (i # is) v xss = append_all is v ?xss" using i by (simp add: append_at_def)
  also have "\<dots> = Inr (map (\<lambda>j. ?xss ! j @ (if int j \<in> set is then [v] else [])) [0..<length xss])"
    using Cons.IH [of ?xss] Cons.prems by simp
  also have "map (\<lambda>j. ?xss ! j @ (if int j \<in> set is then [v] else [])) [0..<length xss] =
      map (\<lambda>j. xss ! j @ (if int j \<in> set (i # is) then [v] else [])) [0..<length xss]"
    using Cons.prems(1) i by (auto simp: nth_list_update)
  finally show ?case .
qed

definition holds_block :: "int \<Rightarrow> ('p, 'a) span_info \<Rightarrow> bool" where
  "holds_block i s \<longleftrightarrow> sp_start s \<le> i \<and> i < sp_end s"

lemma place_spans_eq:
  "\<forall>s \<in> set ss. 0 \<le> sp_start s \<and> sp_end s \<le> int (length xss) \<Longrightarrow>
   place_spans ss xss = Inr (map (\<lambda>j. xss ! j @ filter (holds_block (int j)) ss) [0..<length xss])"
proof (induction ss arbitrary: xss)
  case Nil
  show ?case by (simp add: map_nth)
next
  case (Cons s ss)
  let ?xss = "map (\<lambda>j. xss ! j @ (if int j \<in> set [sp_start s..sp_end s - 1] then [s] else [])) [0..<length xss]"
  have "append_all [sp_start s..sp_end s - 1] s xss = Inr ?xss"
    by (rule append_all_eq) (use Cons.prems in auto)
  then have "place_spans (s # ss) xss = place_spans ss ?xss" by simp
  also have "\<dots> = Inr (map (\<lambda>j. ?xss ! j @ filter (holds_block (int j)) ss) [0..<length xss])"
    using Cons.IH [of ?xss] Cons.prems by simp
  also have "map (\<lambda>j. ?xss ! j @ filter (holds_block (int j)) ss) [0..<length xss] =
      map (\<lambda>j. xss ! j @ filter (holds_block (int j)) (s # ss)) [0..<length xss]"
    by (auto simp: holds_block_def)
  finally show ?case .
qed

text \<open>What \<open>_sort_spans\<close> promises the routing code.\<close>

definition index_ok :: "nat \<Rightarrow> ('p, 'a) span_info list \<Rightarrow> ('p, 'a) span_info list list \<Rightarrow> bool" where
  "index_ok n by_priority containing \<longleftrightarrow>
     containing = map (\<lambda>j. filter (holds_block (int j)) by_priority) [0..<n]
     \<and> distinct (map sp_peer by_priority)
     \<and> (\<forall>s \<in> set by_priority. 0 \<le> sp_start s \<and> sp_end s \<le> int n \<and> sp_state s = S_ONLINE)"

lemma online_greatest: "S_ONLINE \<le> st \<longleftrightarrow> st = S_ONLINE"
  by (cases st) (simp_all add: less_eq_server_state_def)

lemma spans_wf_values:
  assumes "spans_wf S_ONLINE n spans"
  shows "distinct (map sp_peer (dvalues spans))"
    "\<forall>s \<in> set (dvalues spans). 0 \<le> sp_start s \<and> sp_end s \<le> n \<and> sp_state s = S_ONLINE"
proof -
  have *: "\<forall>(p, sp) \<in> set spans. sp_peer sp = p \<and> 0 \<le> sp_start sp \<and> sp_end sp \<le> n \<and> S_ONLINE \<le> sp_state sp"
    using assms by (auto simp: spans_wf_def list_all_iff span_ok_def)
  then have "map (sp_peer \<circ> snd) spans = map fst spans" by auto
  moreover have "distinct (map fst spans)" using assms by (simp add: spans_wf_def dict_ok_def)
  ultimately show "distinct (map sp_peer (dvalues spans))" by (metis map_map)
  show "\<forall>s \<in> set (dvalues spans). 0 \<le> sp_start s \<and> sp_end s \<le> n \<and> sp_state s = S_ONLINE"
    using * by (auto simp: online_greatest)
qed

lemma sort_spans_index:
  assumes "compute_spans infos S_ONLINE = Inr spans"
  shows "\<exists>bp. sort_spans infos = Inr (bp, map (\<lambda>j. filter (holds_block (int j)) bp) [0..<length infos])
    \<and> index_ok (length infos) bp (map (\<lambda>j. filter (holds_block (int j)) bp) [0..<length infos])
    \<and> mset bp = mset (dvalues spans) \<and> sorted (map (\<lambda>s. - sp_length s) bp)"
proof -
  let ?bp = "sort_key (\<lambda>s. - sp_length s) (dvalues spans)"
  note wf = spans_wf_values [OF spans_wf_compute [OF assms]]
  have "place_spans ?bp (replicate (length infos) []) =
      Inr (map (\<lambda>j. filter (holds_block (int j)) ?bp) [0..<length infos])"
    by (subst place_spans_eq) (use wf(2) in \<open>auto simp: set_sort\<close>)
  moreover have "distinct (map sp_peer ?bp)"
    using wf(1) by (metis mset_map mset_eq_imp_distinct_iff mset_sort)
  ultimately show ?thesis
    using wf(2) assms
    by (intro exI [of _ ?bp]) (simp add: sort_spans_def index_ok_def Let_def)
qed

section \<open>Edges of the inference graph\<close>

definition edges :: "('p, 'a) graph \<Rightarrow> ('p node \<times> 'p node) set" where
  "edges g = fst ` set g"

lemma edges_add [simp]: "edges (add_edge u v w g) = insert (u, v) (edges g)"
  unfolding edges_def add_edge_def by (simp add: AList.dom_update flip: dom_map_of_conv_image_fst)
    (simp add: AList.update_conv' dom_map_of_conv_image_fst)

lemma edges_Nil [simp]: "edges [] = {}"
  by (simp add: edges_def)

lemma edges_fold_add:
  "edges (fold (\<lambda>x. add_edge (u x) (v x) (w x)) xs g) = edges g \<union> (\<lambda>x. (u x, v x)) ` set xs"
  by (induction xs arbitrary: g) auto

lemma edges_start: "edges (start_edges rt needed sq a g) = edges g \<union> {(StartNode, At (sp_peer s) a) | s. s \<in> set (spans_at sq a)}"
  unfolding start_edges_def edges_fold_add by auto

lemma edges_end: "edges (end_edges rt sq b g) = edges g \<union> {(At (sp_peer s) b, EndNode) | s. s \<in> set (spans_at sq (b - 1))}"
  unfolding end_edges_def edges_fold_add by auto

lemma edges_switch_from:
  "edges (switch_edges_from needed sq i cur g) = edges g \<union>
     {(At (sp_peer cur) i, At (sp_peer nxt) i) | nxt. sp_end cur = i \<and> nxt \<in> set (spans_at sq i)}"
  unfolding switch_edges_from_def edges_fold_add by (auto simp: edges_fold_add)

lemma edges_fold:
  "(\<And>x g. edges (f x g) = edges g \<union> E x) \<Longrightarrow> edges (fold f xs g) = edges g \<union> (\<Union>x \<in> set xs. E x)"
  by (induction xs arbitrary: g) auto

lemma edges_switch:
  "edges (switch_edges needed sq a b g) = edges g \<union>
     {(At (sp_peer cur) i, At (sp_peer nxt) i) | i cur nxt. a < i \<and> i < b \<and> cur \<in> set (spans_at sq (i - 1))
        \<and> sp_end cur = i \<and> nxt \<in> set (spans_at sq i)}"
proof -
  have "set [a + 1..b - 1] = {i. a < i \<and> i < b}" by auto
  then show ?thesis
    unfolding switch_edges_def by (subst edges_fold [OF edges_fold [OF edges_switch_from]]) blast
qed

lemma edges_compute:
  "edges (rate_edges sq a b g) = edges g \<union>
     {(At (sp_peer s) i, At (sp_peer s) (i + 1)) | s i. s \<in> set (sq_by_priority sq) \<and> a \<le> i \<and> i < b \<and> holds_block i s}"
  unfolding rate_edges_def
  by (subst edges_fold [OF edges_fold_add]) (auto simp: holds_block_def)

text \<open>A sequence whose index is the one \<open>_sort_spans\<close> builds.\<close>

definition sequence_ok :: "('p, 'a) sequence_info \<Rightarrow> bool" where
  "sequence_ok sq \<longleftrightarrow> index_ok (length (sq_block_uids sq)) (sq_by_priority sq) (sq_containing sq)"

lemma spans_at_iff:
  assumes "sequence_ok sq"
  shows "s \<in> set (spans_at sq i) \<longleftrightarrow> s \<in> set (sq_by_priority sq) \<and> holds_block i s"
proof -
  have idx: "sq_containing sq = map (\<lambda>j. filter (holds_block (int j)) (sq_by_priority sq)) [0..<length (sq_block_uids sq)]"
    and bnd: "\<forall>s \<in> set (sq_by_priority sq). 0 \<le> sp_start s \<and> sp_end s \<le> int (length (sq_block_uids sq))"
    using assms by (auto simp: sequence_ok_def index_ok_def)
  show ?thesis
  proof (cases "0 \<le> i \<and> i < int (length (sq_block_uids sq))")
    case True
    then show ?thesis by (simp add: spans_at_def idx nat_less_iff)
  next
    case False
    then have "spans_at sq i = []" by (auto simp: spans_at_def idx)
    moreover have "\<not> holds_block i s" if "s \<in> set (sq_by_priority sq)" for s
      using that bnd False by (force simp: holds_block_def)
    ultimately show ?thesis by auto
  qed
qed

lemma missing_blocks_iff: "missing_blocks sq a b = [] \<longleftrightarrow> (\<forall>i. a \<le> i \<and> i < b \<longrightarrow> spans_at sq i \<noteq> [])"
  by (auto simp: missing_blocks_def filter_empty_conv)

inductive graph_edge :: "('p, 'a) sequence_info \<Rightarrow> int \<Rightarrow> int \<Rightarrow> 'p node \<Rightarrow> 'p node \<Rightarrow> bool"
  for sq a b where
  enter: "s \<in> set (sq_by_priority sq) \<Longrightarrow> holds_block a s \<Longrightarrow> graph_edge sq a b StartNode (At (sp_peer s) a)"
| leave: "s \<in> set (sq_by_priority sq) \<Longrightarrow> holds_block (b - 1) s \<Longrightarrow> graph_edge sq a b (At (sp_peer s) b) EndNode"
| switch: "cur \<in> set (sq_by_priority sq) \<Longrightarrow> holds_block (i - 1) cur \<Longrightarrow> sp_end cur = i \<Longrightarrow> a < i \<Longrightarrow> i < b \<Longrightarrow>
    nxt \<in> set (sq_by_priority sq) \<Longrightarrow> holds_block i nxt \<Longrightarrow>
    graph_edge sq a b (At (sp_peer cur) i) (At (sp_peer nxt) i)"
| compute: "s \<in> set (sq_by_priority sq) \<Longrightarrow> a \<le> i \<Longrightarrow> i < b \<Longrightarrow> holds_block i s \<Longrightarrow>
    graph_edge sq a b (At (sp_peer s) i) (At (sp_peer s) (i + 1))"

inductive_cases graph_edge_from_at: "graph_edge sq a b (At p i) v"
inductive_cases graph_edge_from_start: "graph_edge sq a b StartNode v"
inductive_cases graph_edge_from_end: "graph_edge sq a b EndNode v"

text \<open>The graph has exactly these edges.\<close>

lemma graph_edges:
  assumes "sequence_ok sq" and "build_inference_graph rt needed sq a b = Inr g"
  shows "(u, v) \<in> edges g \<longleftrightarrow> graph_edge sq a b u v"
proof -
  have g: "g = rate_edges sq a b (switch_edges needed sq a b (end_edges rt sq b (start_edges rt needed sq a [])))"
    using assms(2) by (simp add: build_inference_graph_def compute_edges_def split: if_splits)
  have "edges g =
      {(At (sp_peer s) i, At (sp_peer s) (i + 1)) | s i. s \<in> set (sq_by_priority sq) \<and> a \<le> i \<and> i < b \<and> holds_block i s}
    \<union> {(At (sp_peer cur) i, At (sp_peer nxt) i) | i cur nxt. a < i \<and> i < b \<and> cur \<in> set (spans_at sq (i - 1))
        \<and> sp_end cur = i \<and> nxt \<in> set (spans_at sq i)}
    \<union> {(At (sp_peer s) b, EndNode) | s. s \<in> set (spans_at sq (b - 1))}
    \<union> {(StartNode, At (sp_peer s) a) | s. s \<in> set (spans_at sq a)}"
    unfolding g edges_compute edges_switch edges_end edges_start by auto
  then show ?thesis
    unfolding spans_at_iff [OF assms(1)] by (auto simp: graph_edge.simps)
qed

section \<open>Routes\<close>

definition is_route :: "('p, 'a) graph \<Rightarrow> 'p node list \<Rightarrow> bool" where
  "is_route g nodes \<longleftrightarrow> nodes \<noteq> [] \<and> hd nodes = StartNode \<and> last nodes = EndNode
     \<and> successively (\<lambda>u v. (u, v) \<in> edges g) nodes"

text \<open>Spans that follow each other from block \<open>a\<close> to block \<open>b\<close>.\<close>

fun linked :: "int \<Rightarrow> int \<Rightarrow> ('p, 'a) span_info list \<Rightarrow> bool" where
  "linked a b [] \<longleftrightarrow> a = b"
| "linked a b (s # ss) \<longleftrightarrow> sp_start s = a \<and> a \<le> sp_end s \<and> linked (sp_end s) b ss"

lemma linked_append: "linked a b (xs @ ys) \<longleftrightarrow> (\<exists>m. linked a m xs \<and> linked m b ys)"
  by (induction xs arbitrary: a) auto

lemma linked_le: "linked a b ss \<Longrightarrow> a \<le> b"
  by (induction ss arbitrary: a) (auto intro: order_trans)

lemma linked_filter: "linked a b ss \<Longrightarrow> linked a b (filter (\<lambda>s. sp_length s > 0) ss)"
  by (induction ss arbitrary: a) (auto simp: sp_length_def)

lemma linked_extend:
  "spans \<noteq> [] \<Longrightarrow> linked a i spans \<Longrightarrow> i \<le> j \<Longrightarrow> linked a j (butlast spans @ [(last spans)\<lparr>sp_end := j\<rparr>])"
  by (induction spans rule: rev_induct) (auto simp: linked_append)

text \<open>The peer of a span holds every block of it.\<close>

definition served :: "('p, 'a) sequence_info \<Rightarrow> ('p, 'a) span_info \<Rightarrow> bool" where
  "served sq x \<longleftrightarrow> (\<forall>j. sp_start x \<le> j \<and> j < sp_end x \<longrightarrow>
     (\<exists>h \<in> set (sq_by_priority sq). sp_peer h = sp_peer x \<and> holds_block j h))"

lemma served_extend:
  assumes "served sq x" and "sp_end x = i" and "h \<in> set (sq_by_priority sq)" "sp_peer h = sp_peer x" "holds_block i h"
  shows "served sq (x\<lparr>sp_end := i + 1\<rparr>)"
  using assms unfolding served_def by simp (metis order_le_less zless_add1_eq)

lemma linked_last_end: "spans \<noteq> [] \<Longrightarrow> linked a i spans \<Longrightarrow> sp_end (last spans) = i"
  by (induction spans rule: rev_induct) (auto simp: linked_append)

lemma walk_spans:
  assumes infos: "\<And>s j. s \<in> set (sq_by_priority sq) \<Longrightarrow> a \<le> j \<Longrightarrow> j < b \<Longrightarrow> holds_block j s \<Longrightarrow> dget infos (sp_peer s) \<noteq> None"
  shows "spans \<noteq> [] \<Longrightarrow> sp_peer (last spans) = p \<Longrightarrow> linked a i spans \<Longrightarrow> list_all (served sq) spans \<Longrightarrow>
    successively (graph_edge sq a b) (At p i # ns @ [EndNode]) \<Longrightarrow>
    \<exists>out. spans_of_nodes infos ns spans = Inr out \<and> linked a b out \<and> list_all (served sq) out"
proof (induction ns arbitrary: p i spans)
  case Nil
  then have "graph_edge sq a b (At p i) EndNode" by simp
  then have "i = b" by (auto elim: graph_edge_from_at)
  with Nil show ?case by simp
next
  case (Cons n ns)
  have edge: "graph_edge sq a b (At p i) n" and rest: "successively (graph_edge sq a b) (n # ns @ [EndNode])"
    using Cons.prems(5) by simp_all
  have "n \<noteq> EndNode"
  proof
    assume "n = EndNode"
    with rest obtain v where "graph_edge sq a b EndNode v" by (cases ns) auto
    then show False by (auto elim: graph_edge_from_end)
  qed
  with edge consider
    (switch) q nxt where "n = At q i" "nxt \<in> set (sq_by_priority sq)" "holds_block i nxt" "sp_peer nxt = q" "a < i" "i < b"
    | (compute) h where "n = At p (i + 1)" "h \<in> set (sq_by_priority sq)" "sp_peer h = p" "holds_block i h"
    by (cases rule: graph_edge_from_at) auto
  then show ?case
  proof cases
    case switch
    show ?thesis
    proof (cases "q = p")
      case True
      let ?spans = "butlast spans @ [(last spans)\<lparr>sp_end := i\<rparr>]"
      have "?spans = spans" using Cons.prems(1) linked_last_end [OF Cons.prems(1,3)]
        by (metis append_butlast_last_id span_info.surjective span_info.update_convs(3))
      with switch True Cons.prems Cons.IH [OF Cons.prems(1-4), of] rest show ?thesis by simp
    next
      case False
      obtain si where si: "dget infos q = Some si" using infos [OF switch(2) _ switch(6,3)] switch(4,5) by auto
      let ?spans = "spans @ [\<lparr>sp_peer = q, sp_start = i, sp_end = i, sp_info = si\<rparr>]"
      have "linked a i ?spans" using Cons.prems(3) by (auto simp: linked_append)
      moreover have "served sq \<lparr>sp_peer = q, sp_start = i, sp_end = i, sp_info = si\<rparr>" by (auto simp: served_def)
      then have "list_all (served sq) ?spans" using Cons.prems(4) by simp
      ultimately have "\<exists>out. spans_of_nodes infos ns ?spans = Inr out \<and> linked a b out \<and> list_all (served sq) out"
        using Cons.IH [of ?spans q i] rest switch(1) by simp
      with switch(1) si Cons.prems(1,2) False show ?thesis by simp
    qed
  next
    case compute
    let ?spans = "butlast spans @ [(last spans)\<lparr>sp_end := i + 1\<rparr>]"
    have "linked a (i + 1) ?spans" using linked_extend [OF Cons.prems(1,3)] by simp
    moreover have "served sq (last spans)" "list_all (served sq) (butlast spans)"
      using Cons.prems(1,4) by (auto simp: list_all_iff dest: in_set_butlastD)
    then have "list_all (served sq) ?spans"
      using served_extend [OF _ linked_last_end [OF Cons.prems(1,3)] compute(2)] compute(3,4) Cons.prems(2) by simp
    ultimately have "\<exists>out. spans_of_nodes infos ns ?spans = Inr out \<and> linked a b out \<and> list_all (served sq) out"
      using Cons.IH [of ?spans p "i + 1"] rest compute(1) Cons.prems(2) by simp
    with compute(1) Cons.prems(1,2) show ?thesis by simp
  qed
qed

lemma server_infos_dset:
  "dom (dget (fold (\<lambda>sp. dset (sp_peer sp) (sp_info sp)) ss d)) = dom (dget d) \<union> sp_peer ` set ss"
  by (induction ss arbitrary: d) (auto simp: update_conv')

lemma server_infos_dom: "dom (dget (server_infos_of sq a b)) = (\<Union>i \<in> {a..b - 1}. sp_peer ` set (spans_at sq i))"
proof -
  have "dom (dget (fold (\<lambda>i. fold (\<lambda>sp. dset (sp_peer sp) (sp_info sp)) (spans_at sq i)) is d)) =
      dom (dget d) \<union> (\<Union>i \<in> set is. sp_peer ` set (spans_at sq i))" for "is" and d
    by (induction "is" arbitrary: d) (auto simp only: server_infos_dset fold_simps comp_apply list.set UN_insert)
  then show ?thesis by (simp add: server_infos_of_def)
qed

lemma route_spans:
  assumes ok: "sequence_ok sq" and ab: "a < b" and g: "build_inference_graph rt needed sq a b = Inr g"
    and route: "is_route g nodes"
  shows "\<exists>out. spans_of_nodes (server_infos_of sq a b) (butlast (drop 1 nodes)) [] = Inr out
    \<and> linked a b out \<and> list_all (served sq) out"
proof -
  have E: "(u, v) \<in> edges g \<longleftrightarrow> graph_edge sq a b u v" for u v by (rule graph_edges [OF ok g])
  obtain rest where n: "nodes = StartNode # rest" using route by (cases nodes) (auto simp: is_route_def)
  then obtain v ns where r: "rest = v # ns" using route by (cases rest) (auto simp: is_route_def)
  have "graph_edge sq a b StartNode v" using route n r E by (simp add: is_route_def)
  then obtain s where v: "v = At (sp_peer s) a" "s \<in> set (sq_by_priority sq)" "holds_block a s"
    by (auto elim: graph_edge_from_start)
  have lastn: "last (v # ns) = EndNode" using route n r by (simp add: is_route_def)
  then obtain ms where ns: "ns = ms @ [EndNode]" using v by (cases ns rule: rev_cases) auto
  have succ: "successively (graph_edge sq a b) (v # ms @ [EndNode])"
    using route n r ns E by (simp add: is_route_def)
  have infos: "dget (server_infos_of sq a b) (sp_peer h) \<noteq> None"
    if "h \<in> set (sq_by_priority sq)" "a \<le> j" "j < b" "holds_block j h" for h j
  proof -
    have "h \<in> set (spans_at sq j)" using that spans_at_iff [OF ok] by blast
    then have "sp_peer h \<in> dom (dget (server_infos_of sq a b))" using that unfolding server_infos_dom by force
    then show ?thesis by (simp add: domIff)
  qed
  obtain si where si: "dget (server_infos_of sq a b) (sp_peer s) = Some si" using infos [OF v(2) _ ab v(3)] by auto
  have "\<exists>out. spans_of_nodes (server_infos_of sq a b) ms [\<lparr>sp_peer = sp_peer s, sp_start = a, sp_end = a, sp_info = si\<rparr>]
      = Inr out \<and> linked a b out \<and> list_all (served sq) out"
    by (rule walk_spans [OF infos, where p = "sp_peer s" and i = a]) (use succ v in \<open>auto simp: served_def\<close>)
  with n r ns v si show ?thesis by simp
qed

lemma route_none_missing: "build_inference_graph rt needed sq a b = Inr g \<Longrightarrow> missing_blocks sq a b = []"
  by (simp add: build_inference_graph_def split: if_splits)

lemma served_filter: "list_all (served sq) ss \<Longrightarrow> list_all (served sq) (filter P ss)"
  by (auto simp: list_all_iff)

lemma min_latency_route_aux:
  assumes "sequence_ok sq" and "a < b" and "build_inference_graph rt needed sq a b = Inr g"
    and "find_path g = Inr nodes" and "is_route g nodes"
  shows "\<exists>spans. make_sequence_with_min_latency find_path rt needed sq a b = Inr spans
    \<and> linked a b spans \<and> (\<forall>s \<in> set spans. sp_start s < sp_end s \<and> served sq s)"
proof -
  obtain out where out: "spans_of_nodes (server_infos_of sq a b) (butlast (drop 1 nodes)) [] = Inr out"
    "linked a b out" "list_all (served sq) out"
    using route_spans [OF assms(1,2,3,5)] by blast
  let ?out = "filter (\<lambda>s. sp_length s > 0) out"
  have "make_sequence_with_min_latency find_path rt needed sq a b = Inr ?out"
    using assms(2,3,4) out(1) route_none_missing [OF assms(3)]
    by (simp add: make_sequence_with_min_latency_def)
  moreover have "\<forall>s \<in> set ?out. sp_start s < sp_end s \<and> served sq s"
    using out(3) by (auto simp: sp_length_def list_all_iff)
  ultimately show ?thesis using linked_filter [OF out(2)] by blast
qed

text \<open>C23. When the search returns a path of the inference graph, the route made from it is a chain of
  non-empty spans from the first block to the last, each starting where the one before ends, and
  every block of a span lies in the range the index has for the span's server: running the route
  runs every block once, in order, on a server that is taken to hold it.\<close>

theorem min_latency_route:
  assumes "sequence_ok sq" and "a < b" and "build_inference_graph rt needed sq a b = Inr g"
    and "find_path g = Inr nodes" and "is_route g nodes"
  shows "\<exists>spans. make_sequence_with_min_latency find_path rt needed sq a b = Inr spans
    \<and> linked a b spans \<and> (\<forall>s \<in> set spans. sp_start s < sp_end s \<and> served sq s)"
  using assms by (rule min_latency_route_aux [where g = g and nodes = nodes])

section \<open>There is a route\<close>

lemma compute_walk:
  assumes s: "s \<in> set (sq_by_priority sq)" and i: "a \<le> i" "sp_start s \<le> i"
    and rest: "successively (graph_edge sq a b) (At (sp_peer s) (i + int n) # ns)"
    and n: "i + int n \<le> b" "i + int n \<le> sp_end s"
  shows "\<exists>ns'. successively (graph_edge sq a b) (At (sp_peer s) i # ns' @ ns)
    \<and> (n > 0 \<or> ns' = [])"
  using i n rest
proof (induction n arbitrary: i)
  case 0
  then show ?case by (intro exI [of _ "[]"]) simp
next
  case (Suc n)
  have e: "graph_edge sq a b (At (sp_peer s) i) (At (sp_peer s) (i + 1))"
    by (rule compute [OF s]) (use Suc.prems in \<open>auto simp: holds_block_def\<close>)
  obtain ns' where "successively (graph_edge sq a b) (At (sp_peer s) (i + 1) # ns' @ ns)"
    using Suc.IH [of "i + 1"] Suc.prems by (auto simp: algebra_simps)
  with e show ?case by (intro exI [of _ "At (sp_peer s) (i + 1) # ns'"]) simp
qed

lemma route_from:
  assumes ok: "sequence_ok sq" and full: "\<forall>i. a \<le> i \<and> i < b \<longrightarrow> spans_at sq i \<noteq> []"
  shows "s \<in> set (sq_by_priority sq) \<Longrightarrow> holds_block i s \<Longrightarrow> a \<le> i \<Longrightarrow> i < b \<Longrightarrow>
    \<exists>ns. successively (graph_edge sq a b) (At (sp_peer s) i # ns @ [EndNode])"
proof (induction "nat (b - i)" arbitrary: i s rule: less_induct)
  case less
  let ?e = "min (sp_end s) b"
  have ie: "i < ?e" using less.prems by (auto simp: holds_block_def)
  have "\<exists>ns. successively (graph_edge sq a b) (At (sp_peer s) ?e # ns @ [EndNode])"
  proof (cases "b \<le> sp_end s")
    case True
    have "graph_edge sq a b (At (sp_peer s) b) EndNode"
      by (rule leave [OF less.prems(1)]) (use True less.prems in \<open>auto simp: holds_block_def\<close>)
    with True show ?thesis by (intro exI [of _ "[]"]) (simp add: min_def)
  next
    case False
    then have e: "?e = sp_end s" "sp_end s < b" by auto
    obtain nxt where "nxt \<in> set (spans_at sq (sp_end s))"
      using full less.prems(3) ie e by (metis ie e(1) hd_in_set order_less_imp_le order_trans)
    then have nxt: "nxt \<in> set (sq_by_priority sq)" "holds_block (sp_end s) nxt"
      using spans_at_iff [OF ok] by auto
    have sw: "graph_edge sq a b (At (sp_peer s) (sp_end s)) (At (sp_peer nxt) (sp_end s))"
      by (rule switch [OF less.prems(1) _ _ _ e(2) nxt])
        (use ie e less.prems in \<open>auto simp: holds_block_def\<close>)
    have "\<exists>ns. successively (graph_edge sq a b) (At (sp_peer nxt) (sp_end s) # ns @ [EndNode])"
      by (rule less.hyps [OF _ nxt]) (use ie e less.prems in auto)
    with sw e(1) show ?thesis by (metis append_Cons successively.simps(3))
  qed
  then obtain ns where ns: "successively (graph_edge sq a b) (At (sp_peer s) ?e # ns @ [EndNode])" ..
  have "i + int (nat (?e - i)) = ?e" using ie by simp
  then show ?case
    using compute_walk [OF less.prems(1,3), of b "nat (?e - i)" "ns @ [EndNode]"] ns less.prems(2)
    by (auto simp: holds_block_def) (metis append_assoc)
qed

lemma no_zero_rate:
  "\<forall>s \<in> set (sq_by_priority sq). sx_inference_rps (si_extra (sp_info s)) \<noteq> Some 0
     \<Longrightarrow> \<not> list_ex (\<lambda>s. max (sp_start s) a < min (sp_end s) b \<and> rate_of s = 0) (sq_by_priority sq)"
  by (force simp: list_ex_iff rate_of_def split: option.splits)

lemma route_exists_aux:
  assumes "sequence_ok sq" and "a < b" and "missing_blocks sq a b = []"
    and "\<forall>s \<in> set (sq_by_priority sq). sx_inference_rps (si_extra (sp_info s)) \<noteq> Some 0"
  shows "\<exists>g nodes. build_inference_graph rt needed sq a b = Inr g \<and> is_route g nodes"
proof -
  obtain g where g: "build_inference_graph rt needed sq a b = Inr g"
    using assms(3) no_zero_rate [OF assms(4)] by (simp add: build_inference_graph_def compute_edges_def)
  have full: "\<forall>i. a \<le> i \<and> i < b \<longrightarrow> spans_at sq i \<noteq> []" using assms(3) by (simp add: missing_blocks_iff)
  then obtain s where "s \<in> set (spans_at sq a)" using assms(2) by (metis hd_in_set order_refl)
  then have s: "s \<in> set (sq_by_priority sq)" "holds_block a s" using spans_at_iff [OF assms(1)] by auto
  obtain ns where "successively (graph_edge sq a b) (At (sp_peer s) a # ns @ [EndNode])"
    using route_from [OF assms(1) full s _ assms(2)] by auto
  with enter [OF s, of b]
  have "successively (graph_edge sq a b) (StartNode # At (sp_peer s) a # ns @ [EndNode])" by simp
  then have "is_route g (StartNode # At (sp_peer s) a # ns @ [EndNode])"
    using graph_edges [OF assms(1) g] by (simp add: is_route_def)
  with g show ?thesis by blast
qed

text \<open>When every block has a server and no online server announces the inference rate 0, the inference
  graph is built and has a path from the client through servers back to the client: a search that
  finds paths finds a route.\<close>

lemma route_exists:
  assumes "sequence_ok sq" and "a < b" and "missing_blocks sq a b = []"
    and "\<forall>s \<in> set (sq_by_priority sq). sx_inference_rps (si_extra (sp_info s)) \<noteq> Some 0"
  shows "\<exists>g nodes. build_inference_graph rt needed sq a b = Inr g \<and> is_route g nodes"
  by (rule route_exists_aux [OF assms])

section \<open>The route for throughput\<close>

definition picks_candidate :: "(int \<Rightarrow> ('p, 'a) span_info list \<Rightarrow> 'a list \<Rightarrow> ('p, 'a) span_info) \<Rightarrow> bool" where
  "picks_candidate pick \<longleftrightarrow> (\<forall>i cands ws. cands \<noteq> [] \<longrightarrow> pick i cands ws \<in> set cands)"

lemma max_throughput_ok:
  assumes ok: "sequence_ok sq" and pick: "picks_candidate pick"
  shows "\<forall>j. i \<le> j \<and> j < b \<longrightarrow> spans_at sq j \<noteq> [] \<Longrightarrow>
    \<exists>spans e. max_throughput_loop pick rt sq b i = Inr spans \<and> linked i e spans
      \<and> (if i < b then b \<le> e else e = i) \<and> list_all (served sq) spans
      \<and> (\<forall>s \<in> set spans. sp_start s < sp_end s) \<and> (\<forall>s \<in> set spans. sp_start s < b)"
proof (induction "nat (b - i)" arbitrary: i rule: less_induct)
  case less
  show ?case
  proof (cases "i < b")
    case False
    then show ?thesis by (subst max_throughput_loop.simps) simp
  next
    case True
    let ?c = "spans_at sq i"
    let ?sp = "pick i ?c (map (\<lambda>w. w / sum_list (span_weights rt ?c)) (span_weights rt ?c))"
    have c: "?c \<noteq> []" using less.prems True by simp
    then have "?sp \<in> set ?c" using pick by (simp add: picks_candidate_def)
    then have sp: "?sp \<in> set (sq_by_priority sq)" "holds_block i ?sp" using spans_at_iff [OF ok] by auto
    then have fwd: "i < sp_end ?sp" by (simp add: holds_block_def)
    obtain spans e where rec: "max_throughput_loop pick rt sq b (sp_end ?sp) = Inr spans" "linked (sp_end ?sp) e spans"
      "if sp_end ?sp < b then b \<le> e else e = sp_end ?sp" "list_all (served sq) spans"
      "\<forall>s \<in> set spans. sp_start s < sp_end s" "\<forall>s \<in> set spans. sp_start s < b"
      using less.hyps [of "sp_end ?sp"] less.prems True fwd by auto
    have "max_throughput_loop pick rt sq b i = Inr (?sp\<lparr>sp_start := i\<rparr> # spans)"
      by (subst max_throughput_loop.simps) (use True c sp rec(1) in \<open>simp add: Let_def holds_block_def\<close>)
    moreover have "served sq (?sp\<lparr>sp_start := i\<rparr>)" using sp by (auto simp: served_def holds_block_def)
    moreover have "b \<le> e" using rec(2,3) linked_le [OF rec(2)] by (auto split: if_splits)
    ultimately show ?thesis using rec True fwd by (intro exI [of _ "?sp\<lparr>sp_start := i\<rparr> # spans"] exI [of _ e]) auto
  qed
qed

text \<open>When every block has a server, the throughput route is made, whatever candidates the random choices
  take: it is a chain of non-empty spans from the first block on, each on a server that holds its
  blocks, and only its last span may go beyond the last block that was asked for.\<close>

lemma max_throughput_route:
  assumes "sequence_ok sq" and "picks_candidate pick" and "a < b" and "missing_blocks sq a b = []"
  shows "\<exists>spans e. make_sequence_with_max_throughput pick rt sq a b = Inr spans \<and> linked a e spans \<and> b \<le> e
    \<and> (\<forall>s \<in> set spans. sp_start s < sp_end s \<and> served sq s \<and> sp_start s < b)"
proof -
  obtain spans e where "max_throughput_loop pick rt sq b a = Inr spans" "linked a e spans" "if a < b then b \<le> e else e = a"
    "list_all (served sq) spans" "\<forall>s \<in> set spans. sp_start s < sp_end s" "\<forall>s \<in> set spans. sp_start s < b"
    using max_throughput_ok [OF assms(1,2), of a b rt] assms(4) missing_blocks_iff by blast
  with assms(3) show ?thesis
    by (intro exI [of _ spans] exI [of _ e]) (simp add: make_sequence_with_max_throughput_def list_all_iff)
qed

section \<open>Updates\<close>

text \<open>Bans alone leave no block without a server, and the client's own lists are always respected.\<close>

lemma filter_servers_keeps:
  "mi_servers (filter_servers cfg banned m) = [] \<longleftrightarrow> \<not> list_ex (\<lambda>(p, _). server_permitted cfg p) (mi_servers m)"
  "(p, i) \<in> set (mi_servers (filter_servers cfg banned m)) \<Longrightarrow> server_permitted cfg p \<and> (p, i) \<in> set (mi_servers m)"
  by (auto simp: filter_servers_def Let_def filter_empty_conv list_ex_iff split: if_splits)

lemma replace_servers_eq:
  "length us = length olds \<Longrightarrow> map mi_uid news = us \<Longrightarrow>
   replace_servers us olds news = Inr (map2 (\<lambda>old new. old\<lparr>mi_servers := mi_servers new\<rparr>) olds news)"
  by (induction us olds news rule: replace_servers.induct) auto

lemma replace_servers_uid:
  "replace_servers us olds news = Inr infos \<Longrightarrow> map mi_uid infos = map mi_uid olds"
  by (induction us olds news arbitrary: infos rule: replace_servers.induct) (auto simp: rbind_Inr_iff split: if_splits)

lemma compute_spans_total:
  assumes "infos \<noteq> [] \<Longrightarrow> \<exists>x. parse_uid (mi_uid (hd infos)) = Inr x"
  shows "\<exists>spans. compute_spans infos ms = Inr spans"
  using assms by (cases infos) (auto simp: compute_spans_def)

text \<open>After an update that returns, the sequence's index is consistent: the spans over a block are
  exactly the online spans that contain it, longest first, one per server, all inside the
  sequence; so the routes above can be made. The update returns whenever the DHT answers for the
  blocks asked and the first uid is well formed.\<close>

lemma update_makes_index:
  assumes "length (sq_block_infos sq) = length (sq_block_uids sq)"
    and "map mi_uid (sq_block_infos sq) = sq_block_uids sq" and "sq_block_uids sq \<noteq> []"
    and "map mi_uid found = sq_block_uids sq" and "parse_uid (hd (sq_block_uids sq)) = Inr x"
  shows "\<exists>sq' pinged. manager_update banned sample cfg t found sq = Inr (sq', pinged) \<and> sequence_ok sq'
    \<and> sq_block_uids sq' = sq_block_uids sq \<and> sorted (map (\<lambda>s. - sp_length s) (sq_by_priority sq'))"
proof -
  let ?news = "map (filter_servers cfg banned) found"
  have uid: "mi_uid (filter_servers cfg banned m) = mi_uid m" for m by (simp add: filter_servers_def Let_def)
  have news: "map mi_uid ?news = sq_block_uids sq" using assms(4) uid by (simp add: comp_def)
  let ?infos = "map2 (\<lambda>old new. old\<lparr>mi_servers := mi_servers new\<rparr>) (sq_block_infos sq) ?news"
  have rs: "replace_servers (sq_block_uids sq) (sq_block_infos sq) ?news = Inr ?infos"
    by (rule replace_servers_eq) (use assms(1) news in auto)
  have uids: "map mi_uid ?infos = sq_block_uids sq" using replace_servers_uid [OF rs] assms(2) by simp
  have len: "length ?infos = length (sq_block_uids sq)" using uids by (metis length_map)
  then have ne: "?infos \<noteq> []" using assms(3) by (metis length_0_conv)
  have "mi_uid (hd ?infos) = hd (sq_block_uids sq)" using uids ne by (metis hd_map)
  then obtain spans where "compute_spans ?infos S_ONLINE = Inr spans"
    using compute_spans_total [of ?infos S_ONLINE] assms(5) by auto
  from sort_spans_index [OF this] obtain bp where bp:
    "sort_spans ?infos = Inr (bp, map (\<lambda>j. filter (holds_block (int j)) bp) [0..<length ?infos])"
    "index_ok (length ?infos) bp (map (\<lambda>j. filter (holds_block (int j)) bp) [0..<length ?infos])"
    "sorted (map (\<lambda>s. - sp_length s) bp)" by blast
  let ?sq = "sq\<lparr>sq_block_infos := ?infos, sq_by_priority := bp,
      sq_containing := map (\<lambda>j. filter (holds_block (int j)) bp) [0..<length ?infos], sq_updated := Some t\<rparr>"
  have "length ?news = length (sq_block_uids sq)" using news by (metis length_map)
  then have "update_sequence t ?news sq = Inr ?sq"
    using rs bp(1) by (simp add: update_sequence_def)
  moreover have "sq_containing ?sq \<noteq> []" using ne by simp
  moreover have "sequence_ok ?sq" using bp(2) len by (simp add: sequence_ok_def)
  ultimately show ?thesis using bp(3) by (simp add: manager_update_def)
qed

end
