(* ===== verification/PetalsSessionProps.thy ===== *)
theory PetalsSessionProps
  imports PetalsSession PetalsProps
begin

text \<open>
  The client's inference session over any servers that keep the contract \<open>block_sessions\<close>: a step that
  returns has computed the model on the new tokens, whatever failed on the way.
\<close>

section \<open>Sessions without their servers\<close>

lemma last_tokens_all [simp]: "last_tokens (length xs) xs = xs"
  by (simp add: last_tokens_def)

lemma close_session_fields:
  assumes "close_session N s w = (s', w')"
  shows "ss_span s' = ss_span s" "ss_id s' = ss_id s" "ss_history s' = ss_history s" "ss_position s' = ss_position s"
  using assms by (auto simp: close_session_def split: if_splits prod.splits)

lemma exit_one:
  "exit_sessions N (take 1 (s # ss)) w = (case close_session N s w of (s', w1) \<Rightarrow> ([s'], w1))"
  by (simp split: prod.splits)

lemma link_sessions_length [simp]: "length (link_sessions lo hi ss) = length ss"
  by (simp add: link_sessions_def)

text \<open>Fields other than the links are not touched by linking.\<close>

definition unlink :: "('p, 'a, 'h) server_session \<Rightarrow> ('p, 'a, 'h) server_session" where
  "unlink s = s\<lparr>ss_next := None\<rparr>"

lemma unlink_fields [simp]:
  "ss_span (unlink s) = ss_span s" "ss_id (unlink s) = ss_id s" "ss_stepped (unlink s) = ss_stepped s"
  "ss_closed (unlink s) = ss_closed s" "ss_position (unlink s) = ss_position s" "ss_history (unlink s) = ss_history s"
  by (simp_all add: unlink_def)

lemma link_sessions_unlink: "map unlink (link_sessions lo hi ss) = map unlink ss"
  by (rule nth_equalityI) (auto simp: link_sessions_def unlink_def)

lemma map_unlink_cong:
  assumes "map unlink xs = map unlink ys" and "\<And>s. f (unlink s) = f s"
  shows "map f xs = map f ys"
proof -
  have "map f xs = map f (map unlink xs)" "map f ys = map f (map unlink ys)" using assms(2) by simp_all
  with assms(1) show ?thesis by simp
qed

text \<open>New sessions start at position 0.\<close>

lemma enter_sessions_new:
  "enter_sessions N spans made w = (Inr news, w') \<Longrightarrow>
     \<exists>sids. length sids = length spans \<and> news = made @ map2 new_session spans sids"
proof (induction spans arbitrary: made w)
  case (Cons sp sps)
  then obtain sid w1 where s: "net_open N (sp_peer sp) w = (Inr sid, w1)"
    and e: "enter_sessions N sps (made @ [new_session sp sid]) w1 = (Inr news, w')"
    by (auto split: prod.splits sum.splits)
  from Cons.IH [OF e] obtain sids where "length sids = length sps"
    "news = made @ new_session sp sid # map2 new_session sps sids" by auto
  then show ?case by (intro exI [of _ "sid # sids"]) simp
qed simp

section \<open>A failure after the first tokens\<close>

lemma splice_sessions_head:
  assumes "ns \<noteq> []" and "si \<le> length ss"
  shows "si < length (splice_sessions si ns ss)"
    "ss_position (splice_sessions si ns ss ! si) = ss_position (hd ns)"
proof -
  let ?news1 = "if si < length ss then (hd ns)\<lparr>ss_history := ss_history (ss ! si)\<rparr> # tl ns else ns"
  let ?all = "take si ss @ ?news1 @ drop (si + 1) ss"
  have un: "map unlink (splice_sessions si ns ss) = map unlink ?all"
    unfolding splice_sessions_def Let_def by (rule link_sessions_unlink)
  have len: "si < length ?all" using assms by (cases ns) auto
  have pos: "ss_position (?all ! si) = ss_position (hd ns)"
    using assms by (cases ns) (auto simp: nth_append)
  have l: "length (splice_sessions si ns ss) = length ?all" using un by (metis length_map)
  then show "si < length (splice_sessions si ns ss)" using len by simp
  have "unlink (splice_sessions si ns ss ! si) = unlink (?all ! si)"
    using un len l by (metis nth_map)
  then show "ss_position (splice_sessions si ns ss ! si) = ss_position (hd ns)"
    using pos by (metis unlink_fields(5))
qed

lemma session_update_late:
  assumes "session_update N si bi cs w = (res, cs1, w1)" and "si \<le> length (cs_sessions cs)"
  shows "cs_position cs1 = cs_position cs \<and> cs_uids cs1 = cs_uids cs \<and> si \<le> length (cs_sessions cs1)
    \<and> (res = Inr () \<longrightarrow> si < length (cs_sessions cs1) \<and> ss_position (cs_sessions cs1 ! si) = 0)"
proof -
  let ?ss = "cs_sessions cs"
  obtain olds w0 where ex: "exit_sessions N (take 1 (drop si ?ss)) w = (olds, w0)" by (metis surj_pair)
  let ?cs1 = "cs\<lparr>cs_sessions := take si ?ss @ olds @ drop (si + 1) ?ss\<rparr>"
  have si: "si \<le> length (cs_sessions ?cs1)" using assms(2) by simp
  obtain route w2 where r: "net_route N bi (update_end si cs) (cs_max_length cs) w0 = (route, w2)" by (metis surj_pair)
  show ?thesis
  proof (cases route)
    case (Inl e)
    with assms(1) ex r si show ?thesis by (auto simp: session_update_def Let_def)
  next
    case (Inr spans)
    let ?spans = "butlast spans @ [(last spans)\<lparr>sp_end := min (sp_end (last spans)) (update_end si cs)\<rparr>]"
    obtain news w3 where en: "enter_sessions N ?spans [] w2 = (news, w3)" by (metis surj_pair)
    show ?thesis
    proof (cases "spans = []")
      case True
      with Inr assms(1) ex r si show ?thesis by (auto simp: session_update_def Let_def)
    next
      case False
      show ?thesis
      proof (cases news)
        case (Inl e)
        with Inr False assms(1) ex r en si show ?thesis by (auto simp: session_update_def Let_def)
      next
        case (Inr ns)
        from enter_sessions_new [OF en [unfolded Inr]] obtain sids where
          sids: "length sids = length ?spans" "ns = map2 new_session ?spans sids" by auto
        then have ne: "ns \<noteq> []" by (cases sids) auto
        have "list_all (\<lambda>s. ss_position s = 0) ns"
          unfolding sids(2) by (auto simp: list_all_iff new_session_def dest: set_zip_leftD)
        then have p0: "ss_position (hd ns) = 0" using ne by (cases ns) auto
        have res: "res = Inr ()" "cs_sessions cs1 = splice_sessions si ns (cs_sessions ?cs1)"
          "cs_position cs1 = cs_position cs" "cs_uids cs1 = cs_uids cs"
          using \<open>route = Inr spans\<close> Inr False assms(1) ex r en by (auto simp: session_update_def Let_def)
        with res splice_sessions_head [OF ne si] p0 show ?thesis by simp
      qed
    qed
  qed
qed

text \<open>
  Once tokens were processed, a second attempt at a server makes a session at position 0, which the
  check of the positions refuses.
\<close>

lemma attempt_late:
  assumes "0 < cs_position cs" and "1 \<le> attempt" and "si \<le> length (cs_sessions cs)"
  shows "\<exists>err peer cs1 w1. session_attempt N batch prompts hypo step_id si bi attempt inputs cs w
      = (Inl (err, peer), cs1, w1)
    \<and> cs_position cs1 = cs_position cs \<and> cs_uids cs1 = cs_uids cs \<and> si \<le> length (cs_sessions cs1)"
proof -
  obtain res cs1 w1 where u: "session_update N si bi cs w = (res, cs1, w1)" by (metis surj_pair)
  note late = session_update_late [OF u assms(3)]
  show ?thesis
  proof (cases res)
    case (Inl e)
    with u late assms(2) show ?thesis by (simp add: session_attempt_def)
  next
    case (Inr x)
    with u late assms(1,2) show ?thesis by (simp add: session_attempt_def)
  qed
qed

lemma late_failure_aux:
  assumes "session_loop N batch prompts hypo step_id si bi attempt inputs cs w = Some r"
  shows "0 < cs_position cs \<longrightarrow> 1 \<le> attempt \<longrightarrow> si \<le> length (cs_sessions cs) \<longrightarrow> bi < num_blocks cs \<longrightarrow>
    (\<exists>e m. fst r = Inl e \<and> net_max_retries N = Some m \<and> attempt < m)"
proof (rule session_loop.raw_induct [where P = "\<lambda>N batch prompts hypo step_id si bi attempt inputs cs w r.
    0 < cs_position cs \<longrightarrow> 1 \<le> attempt \<longrightarrow> si \<le> length (cs_sessions cs) \<longrightarrow> bi < num_blocks cs \<longrightarrow>
    (\<exists>e m. fst r = Inl e \<and> net_max_retries N = Some m \<and> attempt < m)", OF _ assms], intro impI, goal_cases)
  case (1 loop N batch prompts hypo step_id si bi attempt inputs cs w r)
  from attempt_late [OF 1(3,4,5)] obtain err peer cs1 w1 where
    a: "session_attempt N batch prompts hypo step_id si bi attempt inputs cs w = (Inl (err, peer), cs1, w1)"
    "cs_position cs1 = cs_position cs" "cs_uids cs1 = cs_uids cs" "si \<le> length (cs_sessions cs1)" by metis
  show ?case
  proof (cases "net_max_retries N = Some (attempt + 1)")
    case True
    with 1(2,6) a(1) show ?thesis by (auto split: if_splits)
  next
    case False
    with 1(2,6) a(1) have "loop N batch prompts hypo step_id si bi (attempt + 1) inputs cs1 (net_failure N peer w1) = Some r"
      by simp
    from 1(1) [OF this] 1(3,6) a(2-4) show ?thesis by (auto simp: num_blocks_def)
  qed
qed

text \<open>C26. When tokens were already processed in a session, a second attempt at a server cannot succeed: with a
  limit of retries the step ends with an error, without one it never returns. The recovery of a failed
  server works only before the first token.\<close>

theorem late_failure_is_final:
  assumes "0 < cs_position cs" and "1 \<le> attempt" and "si \<le> length (cs_sessions cs)" and "bi < num_blocks cs"
  shows "case session_loop N batch prompts hypo step_id si bi attempt inputs cs w of
      None \<Rightarrow> True
    | Some (res, _) \<Rightarrow> (\<exists>e m. res = Inl e \<and> net_max_retries N = Some m \<and> attempt < m)"
  using late_failure_aux [of N batch prompts hypo step_id si bi attempt inputs cs w] assms
  by (fastforce split: option.splits)

end
