(* ===== verification/PetalsContract.thy ===== *)
theory PetalsContract
  imports PetalsSessionProps
begin

text \<open>
  What the client's session relies on of the router and of the servers, as the locale
  \<open>block_sessions\<close>, and what it then guarantees: a step that returns outputs has computed the model on
  the new tokens, whatever failed on the way.
\<close>

lemma last_tokens_Nil [simp]: "last_tokens n [] = []"
  by (simp add: last_tokens_def)

section \<open>The contract\<close>

text \<open>
  \<open>run a b\<close> is the effect of the blocks from \<open>a\<close> to \<open>b\<close> on a token sequence; \<open>sess w sid a b hs\<close> says
  that the server session \<open>sid\<close> can go on with these blocks after the sequence \<open>hs\<close>.
\<close>

definition keeps :: "('w \<Rightarrow> nat \<Rightarrow> int \<Rightarrow> int \<Rightarrow> 'h list \<Rightarrow> bool) \<Rightarrow> nat set \<Rightarrow> 'w \<Rightarrow> 'w \<Rightarrow> bool" where
  "keeps sess X w w' \<longleftrightarrow> (\<forall>sid a b hs. sid \<notin> X \<longrightarrow> sess w sid a b hs \<longrightarrow> sess w' sid a b hs)"

lemma keepsD: "keeps sess X w w' \<Longrightarrow> sid \<notin> X \<Longrightarrow> sess w sid a b hs \<Longrightarrow> sess w' sid a b hs"
  by (auto simp: keeps_def)

lemma keeps_refl [simp]: "keeps sess X w w"
  by (simp add: keeps_def)

lemma keeps_trans: "keeps sess X w w1 \<Longrightarrow> keeps sess Y w1 w2 \<Longrightarrow> keeps sess (X \<union> Y) w w2"
  by (auto simp: keeps_def)

locale block_sessions =
  fixes N :: "('w, 'p, 'a, 'h, 'y) net"
    and uids :: "string list"
    and maxlen :: nat
    and run :: "int \<Rightarrow> int \<Rightarrow> 'h list \<Rightarrow> 'h list"
    and good :: "'w \<Rightarrow> bool"
    and sess :: "'w \<Rightarrow> nat \<Rightarrow> int \<Rightarrow> int \<Rightarrow> 'h list \<Rightarrow> bool"
  assumes run_length: "good w \<Longrightarrow> length (run a b hs) = length hs"
    and run_take: "good w \<Longrightarrow> take k (run a b hs) = run a b (take k hs)"
    and run_split: "good w \<Longrightarrow> 0 \<le> a \<Longrightarrow> a \<le> b \<Longrightarrow> b \<le> c \<Longrightarrow> run b c (run a b hs) = run a c hs"
    and run_nothing: "run a a hs = hs"
    and route_good: "good w \<Longrightarrow> net_route N a b m w = (routed, w') \<Longrightarrow> good w' \<and> keeps sess {} w w'"
    and route_linked: "good w \<Longrightarrow> 0 \<le> a \<Longrightarrow> a < b \<Longrightarrow> b \<le> int (length uids) \<Longrightarrow> net_route N a b m w = (Inr spans, w')
      \<Longrightarrow> linked a b spans \<and> (\<forall>s \<in> set spans. sp_start s < sp_end s)"
    and open_good: "good w \<Longrightarrow> net_open N p w = (opened, w') \<Longrightarrow> good w' \<and> keeps sess {} w w'"
    and open_fresh: "good w \<Longrightarrow> net_open N p w = (Inr sid, w') \<Longrightarrow> \<not> sess w sid a b hs \<and> sess w' sid a b []"
    and step_good: "good w \<Longrightarrow> net_step N sid rq w = (reply, w') \<Longrightarrow> good w' \<and> keeps sess {sid} w w'"
    and step_runs: "good w \<Longrightarrow> sess w sid a b hs \<Longrightarrow> 0 \<le> a \<Longrightarrow> a < b \<Longrightarrow> b \<le> int (length uids)
      \<Longrightarrow> rq_uids rq = uids_between uids a b \<Longrightarrow> rq_max_length rq \<in> {None, Some maxlen}
      \<Longrightarrow> rq_position rq = Some k \<Longrightarrow> k \<le> length hs \<Longrightarrow> 0 < rq_batch rq \<Longrightarrow> rq_prompts rq = None \<Longrightarrow> rq_hypo rq = None
      \<Longrightarrow> net_step N sid rq w = (Inr out, w')
      \<Longrightarrow> sess w' sid a b (take k hs @ rq_inputs rq) \<and> out = drop k (run a b (take k hs @ rq_inputs rq))"
    and close_good: "good w \<Longrightarrow> net_close N sid stepped w = (ok, w') \<Longrightarrow> good w' \<and> keeps sess {sid} w w'"
    and failure_good: "good w \<Longrightarrow> good (net_failure N peer w) \<and> keeps sess {} w (net_failure N peer w)"
    and success_good: "good w \<Longrightarrow> good (net_success N p w) \<and> keeps sess {} w (net_success N p w)"

section \<open>One server\<close>

context block_sessions
begin

text \<open>A session that has processed \<open>h\<close>, and one that has not been used, whose history may have been handed over.\<close>

definition settled :: "'w \<Rightarrow> ('p, 'a, 'h) server_session \<Rightarrow> 'h list \<Rightarrow> bool" where
  "settled w s h \<longleftrightarrow> \<not> ss_closed s \<and> ss_stepped s \<and> ss_position s = length h
     \<and> (ss_history s = Some h \<or> h = [] \<and> ss_history s = None)
     \<and> (\<exists>hs. sess w (ss_id s) (sp_start (ss_span s)) (sp_end (ss_span s)) hs \<and> take (length h) hs = h \<and> length h \<le> length hs)"

definition unused :: "'w \<Rightarrow> ('p, 'a, 'h) server_session \<Rightarrow> 'h list \<Rightarrow> bool" where
  "unused w s x \<longleftrightarrow> \<not> ss_closed s \<and> \<not> ss_stepped s \<and> ss_position s = 0 \<and> (ss_history s = None \<or> ss_history s = Some x)
     \<and> sess w (ss_id s) (sp_start (ss_span s)) (sp_end (ss_span s)) []"

definition in_range :: "('p, 'a, 'h) server_session \<Rightarrow> bool" where
  "in_range s \<longleftrightarrow> 0 \<le> sp_start (ss_span s) \<and> sp_start (ss_span s) < sp_end (ss_span s) \<and> sp_end (ss_span s) \<le> int (length uids)"

lemma settled_keeps: "settled w s h \<Longrightarrow> keeps sess X w w' \<Longrightarrow> ss_id s \<notin> X \<Longrightarrow> settled w' s h"
  unfolding settled_def by (blast dest: keepsD)

lemma unused_keeps: "unused w s x \<Longrightarrow> keeps sess X w w' \<Longrightarrow> ss_id s \<notin> X \<Longrightarrow> unused w' s x"
  unfolding unused_def by (blast dest: keepsD)

text \<open>
  A step of a session: on success it has run its blocks on the whole sequence and returns the part
  that belongs to the input; on an error a session without tokens still has the input as its history.
\<close>

lemma server_step:
  assumes g: "good w" and r: "in_range s" and b: "0 < batch"
    and s: "settled w s h \<or> h = [] \<and> unused w s x"
    and st: "server_session_step N batch uids maxlen None None step_id x s w = (res, s', w')"
  shows "good w' \<and> keeps sess {ss_id s} w w' \<and> ss_span s' = ss_span s \<and> ss_id s' = ss_id s
    \<and> (h = [] \<longrightarrow> ss_history s' = None \<or> ss_history s' = Some x)
    \<and> (\<forall>out. res = Inr out \<longrightarrow> settled w' s' (h @ x)
          \<and> out = drop (length h) (run (sp_start (ss_span s)) (sp_end (ss_span s)) (h @ x)))"
proof -
  let ?a = "sp_start (ss_span s)" and ?b = "sp_end (ss_span s)"
  have hist: "step_history x s = h @ x"
    using s by (auto simp: settled_def unused_def step_history_def)
  have pos: "ss_position s = length h" and cl: "\<not> ss_closed s"
    using s by (auto simp: settled_def unused_def)
  let ?sent = "if \<not> ss_stepped s then h @ x else last_tokens (length x) x"
  have sent: "?sent = x" using s by (auto simp: settled_def unused_def)
  obtain hs where hs: "sess w (ss_id s) ?a ?b hs" "take (length h) hs = h" "length h \<le> length hs"
    using s by (auto simp: settled_def unused_def)
  let ?rq = "step_request batch uids maxlen x (None :: 'h list list option) (None :: 'y option) step_id s"
  obtain reply w1 where n: "net_step N (ss_id s) ?rq w = (reply, w1)" by (metis surj_pair)
  have good: "good w1 \<and> keeps sess {ss_id s} w w1" by (rule step_good [OF g n])
  let ?s1 = "s\<lparr>ss_history := Some (h @ x), ss_stepped := True\<rparr>"
  show ?thesis
  proof (cases reply)
    case (Inl e)
    with st n sent hist pos cl have "res = Inl e" "s' = ?s1" "w' = w1"
      by (auto simp: server_session_step_def Let_def)
    with good show ?thesis by auto
  next
    case (Inr out)
    have rq: "rq_uids ?rq = uids_between uids ?a ?b" "rq_max_length ?rq \<in> {None, Some maxlen}" "rq_position ?rq = Some (length h)"
      "0 < rq_batch ?rq" "rq_prompts ?rq = None" "rq_hypo ?rq = None" "rq_inputs ?rq = x"
      using pos b by (simp_all add: step_request_def)
    have run: "sess w1 (ss_id s) ?a ?b (h @ x)" "out = drop (length h) (run ?a ?b (h @ x))"
      using step_runs [OF g hs(1) _ _ _ rq(1,2,3) hs(3) rq(4,5,6) n [unfolded Inr]] r hs(2) rq(7)
      by (simp_all add: in_range_def)
    have "length out = length x" using run(2) run_length [OF g] by simp
    with st n sent hist pos cl Inr
    have "res = Inr out" "s' = ?s1\<lparr>ss_position := length h + length x\<rparr>" "w' = w1"
      by (auto simp: server_session_step_def Let_def)
    moreover have "settled w1 (?s1\<lparr>ss_position := length h + length x\<rparr>) (h @ x)"
      using run(1) cl unfolding settled_def by simp (metis order_refl take_all_iff length_append)
    ultimately show ?thesis using good run(2) by auto
  qed
qed

section \<open>Making and closing sessions\<close>

lemma close_keeps:
  assumes "good w" and "close_session N s w = (s', w')"
  shows "good w' \<and> keeps sess {ss_id s} w w'"
  using assms close_good [of w "ss_id s" "ss_stepped s"] by (auto simp: close_session_def split: if_splits prod.splits)

lemma exit_keeps:
  "good w \<Longrightarrow> exit_sessions N ss w = (ss', w') \<Longrightarrow> good w' \<and> keeps sess (ss_id ` set ss) w w'"
proof (induction ss arbitrary: ss' w')
  case (Cons s ss)
  obtain ss1 w1 where e: "exit_sessions N ss w = (ss1, w1)" by (metis surj_pair)
  obtain s1 w2 where c: "close_session N s w1 = (s1, w2)" by (metis surj_pair)
  have w': "w' = w2" using Cons.prems(2) e c by simp
  have "good w1" "keeps sess (ss_id ` set ss) w w1" using Cons.IH [OF Cons.prems(1) e] by auto
  with close_keeps [OF _ c] keeps_trans [of sess "ss_id ` set ss" w w1 "{ss_id s}" w2] w' show ?case by simp
qed simp

lemma keeps_mono: "keeps sess X w w' \<Longrightarrow> X \<subseteq> Y \<Longrightarrow> keeps sess Y w w'"
  by (auto simp: keeps_def)

lemma keeps_comp: "keeps sess X w w1 \<Longrightarrow> keeps sess X w1 w2 \<Longrightarrow> keeps sess X w w2"
  using keeps_trans [of sess X w w1 X w2] by simp

definition known :: "'w \<Rightarrow> nat set \<Rightarrow> bool" where
  "known w L \<longleftrightarrow> (\<forall>i \<in> L. \<exists>a b h. sess w i a b h)"

lemma known_keeps: "known w L \<Longrightarrow> keeps sess (- L) w w' \<Longrightarrow> known w' L"
  unfolding known_def keeps_def by blast

lemma enter_sessions_ok:
  "good w \<Longrightarrow> enter_sessions N spans made w = (res, w') \<Longrightarrow> known w L \<Longrightarrow> ss_id ` set made \<inter> L = {}
    \<Longrightarrow> (\<forall>s \<in> set made. unused w s x \<and> ss_history s = None) \<Longrightarrow> distinct (map ss_id made)
    \<Longrightarrow> good w' \<and> keeps sess (- L) w w'
      \<and> (\<forall>news. res = Inr news \<longrightarrow> map ss_span news = map ss_span made @ spans \<and> ss_id ` set news \<inter> L = {}
          \<and> (\<forall>s \<in> set news. unused w' s x \<and> ss_history s = None) \<and> distinct (map ss_id news))"
proof (induction spans arbitrary: made w)
  case Nil
  then show ?case by auto
next
  case (Cons sp sps)
  obtain opened w1 where o: "net_open N (sp_peer sp) w = (opened, w1)" by (metis surj_pair)
  have w1: "good w1" "keeps sess {} w w1" using open_good [OF Cons.prems(1) o] by auto
  have kL: "keeps sess (- L) w w1" by (rule keeps_mono [OF w1(2)]) simp
  show ?case
  proof (cases opened)
    case (Inl e)
    obtain ss' w2 where ex: "exit_sessions N made w1 = (ss', w2)" by (metis surj_pair)
    have "keeps sess (- L) w1 w2"
      by (rule keeps_mono [OF exit_keeps [OF w1(1) ex, THEN conjunct2]]) (use Cons.prems(4) in blast)
    with keeps_comp [OF kL this] exit_keeps [OF w1(1) ex] Cons.prems(2) o Inl ex show ?thesis by auto
  next
    case (Inr sid)
    note fresh = open_fresh [OF Cons.prems(1) o [unfolded Inr]]
    have e: "enter_sessions N sps (made @ [new_session sp sid]) w1 = (res, w')"
      using Cons.prems(2) o Inr by simp
    have sidL: "sid \<notin> L" using fresh Cons.prems(3) unfolding known_def by blast
    have "sid \<notin> ss_id ` set made" using fresh Cons.prems(5) unfolding unused_def by blast
    then have d: "distinct (map ss_id (made @ [new_session sp sid]))"
      using Cons.prems(6) by (auto simp: new_session_def)
    have un: "\<forall>s \<in> set (made @ [new_session sp sid]). unused w1 s x \<and> ss_history s = None"
    proof
      fix s assume "s \<in> set (made @ [new_session sp sid])"
      then consider "s \<in> set made" | "s = new_session sp sid" by auto
      then show "unused w1 s x \<and> ss_history s = None"
      proof cases
        case 1
        then show ?thesis using Cons.prems(5) unused_keeps [OF _ w1(2)] by blast
      next
        case 2
        then show ?thesis using fresh by (simp add: unused_def new_session_def)
      qed
    qed
    have dis: "ss_id ` set (made @ [new_session sp sid]) \<inter> L = {}"
      using Cons.prems(4) sidL by (auto simp: new_session_def)
    have sp: "ss_span (new_session sp sid) = sp" by (simp add: new_session_def)
    from Cons.IH [OF w1(1) e known_keeps [OF Cons.prems(3) kL] dis un d] keeps_comp [OF kL]
    show ?thesis by (simp add: sp)
  qed
qed

end

end
