(* ===== verification/PetalsLoop.thy ===== *)
theory PetalsLoop
  imports PetalsContract
begin

text \<open>
  The loop of \<open>InferenceSession.step\<close> over the contract of PetalsContract: its invariant, and that
  every attempt keeps it.
\<close>

context block_sessions
begin

section \<open>The invariant\<close>

abbreviation nblocks :: int where
  "nblocks \<equiv> int (length uids)"

text \<open>
  \<open>H\<close> is the sequence of the session before the step and \<open>inp\<close> the input of the step. A session ahead
  of the loop has the old sequence, or is unused in the first step.
\<close>

definition ahead :: "'h list \<Rightarrow> 'h list \<Rightarrow> 'w \<Rightarrow> ('p, 'a, 'h) server_session \<Rightarrow> bool" where
  "ahead H inp w s \<longleftrightarrow> settled w s (run 0 (sp_start (ss_span s)) H)
     \<or> H = [] \<and> unused w s (run 0 (sp_start (ss_span s)) inp)"

definition passed :: "'h list \<Rightarrow> 'h list \<Rightarrow> 'w \<Rightarrow> ('p, 'a, 'h) server_session \<Rightarrow> bool" where
  "passed H inp w s \<longleftrightarrow> settled w s (run 0 (sp_start (ss_span s)) (H @ inp))"

definition chain_ok :: "nat \<Rightarrow> int \<Rightarrow> ('p, 'a, 'h) server_session list \<Rightarrow> ('p, 'a, 'h) server_session list \<Rightarrow> bool" where
  "chain_ok si bi as bs \<longleftrightarrow> length as = si \<and> linked 0 bi (map ss_span as) \<and> linked bi nblocks (map ss_span bs)
     \<and> (\<forall>s \<in> set (as @ bs). in_range s) \<and> distinct (map ss_id (as @ bs))"

definition base_ok :: "'h list \<Rightarrow> 'h list \<Rightarrow> int \<Rightarrow> 'h list \<Rightarrow> ('p, 'a, 'h) client_session \<Rightarrow> 'w \<Rightarrow> bool" where
  "base_ok H inp bi x cs w \<longleftrightarrow> good w \<and> cs_uids cs = uids \<and> cs_max_length cs = maxlen \<and> cs_position cs = length H
     \<and> \<not> cs_closed cs \<and> 0 \<le> bi \<and> bi \<le> nblocks \<and> x = drop (length H) (run 0 bi (H @ inp))"

text \<open>Before an attempt at a server that has not failed in this step.\<close>

definition ready :: "'h list \<Rightarrow> 'h list \<Rightarrow> nat \<Rightarrow> int \<Rightarrow> 'h list \<Rightarrow> ('p, 'a, 'h) client_session \<Rightarrow> 'w \<Rightarrow> bool" where
  "ready H inp si bi x cs w \<longleftrightarrow> base_ok H inp bi x cs w \<and>
     (\<exists>as bs. map unlink (cs_sessions cs) = as @ bs \<and> chain_ok si bi as bs
        \<and> (\<forall>s \<in> set as. passed H inp w s) \<and> (\<forall>s \<in> set bs. ahead H inp w s))"

text \<open>After a failed attempt in the first step: there is no session yet, or the one at \<open>si\<close> is to be replaced.\<close>

definition broken :: "'h list \<Rightarrow> nat \<Rightarrow> int \<Rightarrow> 'h list \<Rightarrow> ('p, 'a, 'h) client_session \<Rightarrow> 'w \<Rightarrow> bool" where
  "broken inp si bi x cs w \<longleftrightarrow> base_ok [] inp bi x cs w \<and>
     (cs_sessions cs = [] \<and> si = 0 \<and> bi = 0
      \<or> (\<exists>as s bs. map unlink (cs_sessions cs) = as @ s # bs \<and> chain_ok si bi as (s # bs)
        \<and> (\<forall>t \<in> set as. passed [] inp w t) \<and> (\<forall>t \<in> set bs. ahead [] inp w t)
        \<and> (ss_history s = None \<or> ss_history s = Some x)))"

lemma unlink_simps [simp]:
  "settled w (unlink s) h = settled w s h" "unused w (unlink s) x = unused w s x" "in_range (unlink s) = in_range s"
  "passed H inp w (unlink s) = passed H inp w s" "ahead H inp w (unlink s) = ahead H inp w s"
  by (simp_all add: settled_def unused_def in_range_def passed_def ahead_def)

lemma unlink_unlink [simp]: "unlink (unlink s) = unlink s"
  by (simp add: unlink_def)

lemma ahead_keeps: "ahead H inp w s \<Longrightarrow> keeps sess X w w' \<Longrightarrow> ss_id s \<notin> X \<Longrightarrow> ahead H inp w' s"
  unfolding ahead_def by (blast intro: settled_keeps unused_keeps)

lemma passed_keeps: "passed H inp w s \<Longrightarrow> keeps sess X w w' \<Longrightarrow> ss_id s \<notin> X \<Longrightarrow> passed H inp w' s"
  unfolding passed_def by (blast intro: settled_keeps)

lemma all_ahead_keeps:
  "\<forall>s \<in> set ss. ahead H inp w s \<Longrightarrow> keeps sess X w w' \<Longrightarrow> ss_id ` set ss \<inter> X = {} \<Longrightarrow> \<forall>s \<in> set ss. ahead H inp w' s"
  using ahead_keeps by blast

lemma all_passed_keeps:
  "\<forall>s \<in> set ss. passed H inp w s \<Longrightarrow> keeps sess X w w' \<Longrightarrow> ss_id ` set ss \<inter> X = {} \<Longrightarrow> \<forall>s \<in> set ss. passed H inp w' s"
  using passed_keeps by blast

lemma base_ok_good: "base_ok H inp bi x cs w \<Longrightarrow> good w' \<Longrightarrow> base_ok H inp bi x cs w'"
  by (simp add: base_ok_def)

lemma base_ok_sessions [simp]: "base_ok H inp bi x (cs\<lparr>cs_sessions := ss\<rparr>) w = base_ok H inp bi x cs w"
  by (simp add: base_ok_def)

lemma ready_world:
  assumes "ready H inp si bi x cs w" and "good w'" and "keeps sess {} w w'"
  shows "ready H inp si bi x cs w'"
proof -
  from assms(1) obtain as bs where *: "map unlink (cs_sessions cs) = as @ bs" "chain_ok si bi as bs"
    "\<forall>s \<in> set as. passed H inp w s" "\<forall>s \<in> set bs. ahead H inp w s" "base_ok H inp bi x cs w"
    by (auto simp: ready_def)
  then show ?thesis
    unfolding ready_def using all_passed_keeps [OF *(3) assms(3)] all_ahead_keeps [OF *(4) assms(3)]
      base_ok_good [OF *(5) assms(2)] by blast
qed

lemma broken_world:
  assumes "broken inp si bi x cs w" and "good w'" and "keeps sess {} w w'"
  shows "broken inp si bi x cs w'"
proof -
  have b: "base_ok [] inp bi x cs w" using assms(1) by (simp add: broken_def)
  show ?thesis
  proof (cases "cs_sessions cs = [] \<and> si = 0 \<and> bi = 0")
    case True
    with base_ok_good [OF b assms(2)] show ?thesis by (simp add: broken_def)
  next
    case False
    with assms(1) obtain as s bs where *: "map unlink (cs_sessions cs) = as @ s # bs" "chain_ok si bi as (s # bs)"
      "\<forall>t \<in> set as. passed [] inp w t" "\<forall>t \<in> set bs. ahead [] inp w t" "ss_history s = None \<or> ss_history s = Some x"
      unfolding broken_def by blast
    then show ?thesis
      unfolding broken_def using all_passed_keeps [OF *(3) assms(3)] all_ahead_keeps [OF *(4) assms(3)]
        base_ok_good [OF b assms(2)] by blast
  qed
qed

section \<open>An attempt at a server that is ready\<close>

lemma step_parts:
  assumes "good w" and "0 \<le> bi"
  shows "run 0 bi H @ drop (length H) (run 0 bi (H @ inp)) = run 0 bi (H @ inp)"
    "length (run 0 bi H) = length H"
proof -
  show l: "length (run 0 bi H) = length H" by (rule run_length [OF assms(1)])
  have "take (length H) (run 0 bi (H @ inp)) = run 0 bi H" using run_take [OF assms(1)] by simp
  then show "run 0 bi H @ drop (length H) (run 0 bi (H @ inp)) = run 0 bi (H @ inp)" by (metis append_take_drop_id)
qed

lemma chain_split:
  assumes "chain_ok si bi as bs" and "bi < nblocks"
  obtains s ss where "bs = s # ss" "sp_start (ss_span s) = bi" "in_range s"
    "linked (sp_end (ss_span s)) nblocks (map ss_span ss)"
  using assms by (cases bs) (auto simp: chain_ok_def)

lemma chain_advance:
  assumes "chain_ok si bi as (s # ss)" and "ss_span s' = ss_span s" and "ss_id s' = ss_id s"
  shows "chain_ok (si + 1) (sp_end (ss_span s)) (as @ [s']) ss" "chain_ok si bi as (s' # ss)"
  using assms by (auto simp: chain_ok_def linked_append in_range_def)

lemma attempt_ready:
  assumes rd: "ready H inp si bi x cs w" and bi: "bi < nblocks" and b: "0 < batch"
    and at: "session_attempt N batch None None step_id si bi 0 x cs w = (r, cs1, w1)"
  shows "case r of
      Inr (out, e, peer) \<Rightarrow> ready H inp (si + 1) e out cs1 w1
    | Inl (err, peer) \<Rightarrow> (if H = [] then broken inp si bi x cs1 w1
        else cs_position cs1 = length H \<and> si \<le> length (cs_sessions cs1) \<and> cs_uids cs1 = uids)"
proof -
  from rd obtain as bs where S: "map unlink (cs_sessions cs) = as @ bs" and ch: "chain_ok si bi as bs"
    and as: "\<forall>s \<in> set as. passed H inp w s" and bs: "\<forall>s \<in> set bs. ahead H inp w s" and base: "base_ok H inp bi x cs w"
    by (auto simp: ready_def)
  from chain_split [OF ch bi] obtain s ss where s: "bs = s # ss" "sp_start (ss_span s) = bi" "in_range s" by metis
  have si: "length as = si" using ch by (simp add: chain_ok_def)
  have len: "si < length (cs_sessions cs)" using S si s(1) by (metis length_map length_append length_Cons less_add_Suc1 add_Suc_right)
  let ?t = "cs_sessions cs ! si"
  have t: "unlink ?t = s" using S si s(1) len by (metis nth_append_length nth_map)
  then have tf: "ss_span ?t = ss_span s" "ss_id ?t = ss_id s" "in_range ?t" using s(3) by (metis unlink_fields unlink_simps)+
  have g: "good w" and bi0: "0 \<le> bi" and x: "x = drop (length H) (run 0 bi (H @ inp))" and pos: "cs_position cs = length H"
    and cu: "cs_uids cs = uids" "cs_max_length cs = maxlen" "\<not> cs_closed cs"
    using base by (auto simp: base_ok_def)
  let ?h = "run 0 bi H"
  have "ahead H inp w ?t" using bs s(1) t by (metis unlink_simps(5) list.set_intros(1))
  then have pre: "settled w ?t ?h \<or> ?h = [] \<and> unused w ?t x"
    using run_length [OF g, of 0 bi "[]"] by (auto simp: ahead_def tf(1) s(2) x)
  then have tpos: "ss_position ?t = length H"
    using pre step_parts(2) [OF g bi0, of H] by (auto simp: settled_def unused_def)
  obtain res t' w2 where st: "server_session_step N batch uids maxlen None None step_id x ?t w = (res, t', w2)"
    by (metis surj_pair)
  note out = server_step [OF g tf(3) b pre st]
  have "cs_sessions cs \<noteq> []" using len by auto
  with at len tpos pos cu st
  have r: "cs1 = cs\<lparr>cs_sessions := (cs_sessions cs)[si := t']\<rparr>" "w1 = w2"
    "r = (case res of Inl e \<Rightarrow> Inl (e, Some (sp_peer (ss_span ?t))) | Inr o1 \<Rightarrow> Inr (o1, sp_end (ss_span ?t), sp_peer (ss_span ?t)))"
    by (auto simp: session_attempt_def span_prompts_def Let_def)
  have S1: "map unlink (cs_sessions cs1) = as @ unlink t' # ss"
    using S s(1) si by (simp add: r(1) map_update list_update_append flip: si)
  have t': "ss_span (unlink t') = ss_span s" "ss_id (unlink t') = ss_id s" using out tf by simp_all
  have k: "keeps sess {ss_id s} w w2" and g2: "good w2" using out tf by auto
  have dis: "ss_id ` set as \<inter> {ss_id s} = {}" "ss_id ` set ss \<inter> {ss_id s} = {}"
    using ch s(1) by (auto simp: chain_ok_def)
  note as2 = all_passed_keeps [OF as k dis(1)]
  have ss2: "\<forall>u \<in> set ss. ahead H inp w2 u" by (rule all_ahead_keeps [OF _ k dis(2)]) (use bs s(1) in auto)
  have base2: "base_ok H inp bi x cs1 w2" using base_ok_good [OF base g2] by (simp add: r(1))
  show ?thesis
  proof (cases res)
    case (Inl e)
    show ?thesis
    proof (cases "H = []")
      case True
      have "?h = []" using step_parts(2) [OF g bi0, of H] True by simp
      then have "ss_history (unlink t') = None \<or> ss_history (unlink t') = Some x" using out by simp
      moreover have "chain_ok si bi as (unlink t' # ss)" using chain_advance(2) [OF ch [unfolded s(1)] t'] .
      ultimately have "broken inp si bi x cs1 w2"
        unfolding broken_def using base2 S1 as2 ss2 True by blast
      with Inl r True show ?thesis by simp
    next
      case False
      with Inl r pos cu len show ?thesis by simp
    qed
  next
    case (Inr o1)
    have join: "?h @ x = run 0 bi (H @ inp)" unfolding x by (rule step_parts(1) [OF g bi0])
    have "passed H inp w2 (unlink t')"
      using out Inr join tf(1) s(2) by (simp add: passed_def)
    moreover have "o1 = drop (length H) (run 0 (sp_end (ss_span s)) (H @ inp))"
      using out Inr join tf(1) s(2,3) step_parts(2) [OF g bi0, of H] run_split [OF g, of 0 bi "sp_end (ss_span s)"] bi0
      by (simp add: in_range_def)
    then have "base_ok H inp (sp_end (ss_span s)) o1 cs1 w2"
      using base2 s(3) bi0 s(2) by (simp add: base_ok_def in_range_def)
    moreover have "chain_ok (si + 1) (sp_end (ss_span s)) (as @ [unlink t']) ss"
      by (rule chain_advance(1) [OF ch [unfolded s(1)] t'])
    moreover have "map unlink (cs_sessions cs1) = (as @ [unlink t']) @ ss" using S1 by simp
    moreover have "\<forall>u \<in> set (as @ [unlink t']). passed H inp w2 u" using as2 calculation(1) by auto
    ultimately have "ready H inp (si + 1) (sp_end (ss_span s)) o1 cs1 w2"
      unfolding ready_def using ss2 by blast
    with Inr r tf(1) show ?thesis by simp
  qed
qed

section \<open>Replacing a server\<close>

lemma clip_same: "sp_end s \<le> e \<Longrightarrow> s\<lparr>sp_end := min (sp_end s) e\<rparr> = s"
  by (cases s) (simp add: min_def)

lemma linked_in: "linked a b spans \<Longrightarrow> s \<in> set spans \<Longrightarrow> a \<le> sp_start s \<and> sp_end s \<le> b"
proof (induction spans arbitrary: a)
  case (Cons t ts)
  then show ?case using linked_le [of "sp_end t" b ts] by (auto dest: order_trans)
qed simp

lemma unused_any: "unused w s y \<Longrightarrow> ss_history s = None \<Longrightarrow> unused w s x"
  by (simp add: unused_def)

lemma spliced:
  assumes "map unlink S = as @ mid @ bs" and "length as = si" and "length mid \<le> 1" and "mid = [] \<longrightarrow> bs = []"
    and "exit_sessions N (take 1 (drop si S)) w = (olds, w1)" and "news \<noteq> []"
  shows "map unlink (splice_sessions si news (take si S @ olds @ drop (si + 1) S)) =
        as @ map unlink (case mid of [] \<Rightarrow> news | s # _ \<Rightarrow> (hd news)\<lparr>ss_history := ss_history s\<rparr> # tl news) @ bs
    \<and> map unlink (take si S @ olds @ drop (si + 1) S) = as @ map (\<lambda>s. s\<lparr>ss_closed := ss_closed (hd olds)\<rparr>) mid @ bs
    \<and> (good w \<longrightarrow> good w1 \<and> keeps sess (ss_id ` set mid) w w1)"
proof -
  have si: "map unlink (take si S) = as" "map unlink (drop si S) = mid @ bs"
    using assms(1,2) by (metis append_eq_conv_conj take_map, metis append_eq_conv_conj drop_map)
  have l: "length (take si S) = si" using si(1) assms(2) by (metis length_map)
  show ?thesis
  proof (cases mid)
    case Nil
    then have d: "drop si S = []" using si(2) assms(4) by simp
    then have "olds = []" "w1 = w" "drop (si + 1) S = []" using assms(5) by simp_all
    then show ?thesis
      using Nil si(1) l assms(4) by (simp add: splice_sessions_def link_sessions_unlink)
  next
    case (Cons s rest)
    then have rest: "rest = []" using assms(3) by simp
    obtain t ts where S2: "drop si S = t # ts" "unlink t = s" "map unlink ts = bs"
      using si(2) Cons rest by (cases "drop si S") auto
    have ts: "drop (si + 1) S = ts" using S2(1) by (metis Suc_eq_plus1 drop_Suc list.sel(3) tl_drop)
    obtain t' where c: "close_session N t w = (t', w1)" "olds = [t']"
      using assms(5) S2(1) by (simp split: prod.splits)
    have f: "ss_id t = ss_id s" "ss_history t' = ss_history s"
      using S2(2) close_session_fields [OF c(1)] by (metis unlink_fields(2), metis unlink_fields(6))
    have t': "unlink t' = s\<lparr>ss_closed := ss_closed t'\<rparr>"
      using c(1) S2(2) by (auto simp: close_session_def unlink_def split: if_splits prod.splits)
    have k: "good w \<Longrightarrow> good w1 \<and> keeps sess {ss_id s} w w1" using close_keeps [OF _ c(1)] f(1) by simp
    have "(take si S @ olds @ drop (si + 1) S) ! si = t'" using l c(2) by (simp add: nth_append)
    then have "map unlink (splice_sessions si news (take si S @ olds @ drop (si + 1) S))
        = map unlink (take si S @ ((hd news)\<lparr>ss_history := ss_history t'\<rparr> # tl news) @ ts)"
      using l c(2) ts unfolding splice_sessions_def Let_def link_sessions_unlink by simp
    then show ?thesis
      using Cons rest si(1) S2(3) ts f(2) c(2) t' k by auto
  qed
qed

text \<open>The parts of a chain that is to be repaired: at most one session is in the gap.\<close>

lemma broken_parts:
  assumes "broken inp si bi x cs w" and "bi < nblocks"
  obtains as mid bs where "map unlink (cs_sessions cs) = as @ mid @ bs" "length as = si" "length mid \<le> 1"
    "mid = [] \<longrightarrow> bs = []" "linked 0 bi (map ss_span as)" "linked (update_end si cs) nblocks (map ss_span bs)"
    "bi < update_end si cs" "\<forall>t \<in> set (as @ mid @ bs). in_range t" "distinct (map ss_id (as @ mid @ bs))"
    "\<forall>t \<in> set as. passed [] inp w t" "\<forall>t \<in> set bs. ahead [] inp w t"
    "\<forall>s \<in> set mid. ss_history s = None \<or> ss_history s = Some x" "\<forall>s \<in> set mid. sp_start (ss_span s) = bi"
    "mid = [] \<longrightarrow> cs_sessions cs = [] \<and> si = 0 \<and> bi = 0" "\<forall>s \<in> set mid. sp_end (ss_span s) = update_end si cs"
proof (cases "cs_sessions cs = [] \<and> si = 0 \<and> bi = 0")
  case True
  have "update_end si cs = nblocks" using assms(1) True by (simp add: broken_def base_ok_def update_end_def num_blocks_def)
  with True assms(2) show ?thesis by (intro that [of "[]" "[]" "[]"]) simp_all
next
  case False
  with assms(1) obtain as s bs where *: "map unlink (cs_sessions cs) = as @ s # bs" "chain_ok si bi as (s # bs)"
    "\<forall>t \<in> set as. passed [] inp w t" "\<forall>t \<in> set bs. ahead [] inp w t" "ss_history s = None \<or> ss_history s = Some x"
    unfolding broken_def by blast
  have si: "length as = si" using *(2) by (simp add: chain_ok_def)
  then have len: "si < length (cs_sessions cs)" using *(1) by (metis length_map length_append length_Cons less_add_Suc1 add_Suc_right)
  have "unlink (cs_sessions cs ! si) = s" using *(1) si len by (metis nth_append_length nth_map)
  then have ue: "update_end si cs = sp_end (ss_span s)" using len unlink_fields(1) [of "cs_sessions cs ! si"] by (simp add: update_end_def)
  from * si show ?thesis
    by (intro that [of as "[s]" bs]) (auto simp: chain_ok_def ue in_range_def)
qed

lemma update_broken:
  assumes br: "broken inp si bi x cs w" and bi: "bi < nblocks" and u: "session_update N si bi cs w = (res, cs1, w1)"
  shows "case res of Inl e \<Rightarrow> broken inp si bi x cs1 w1 | Inr _ \<Rightarrow> ready [] inp si bi x cs1 w1"
proof -
  let ?S = "cs_sessions cs" and ?ue = "update_end si cs"
  obtain as mid bs where p: "map unlink ?S = as @ mid @ bs" "length as = si" "length mid \<le> 1"
    "mid = [] \<longrightarrow> bs = []" "linked 0 bi (map ss_span as)" "linked ?ue nblocks (map ss_span bs)"
    "bi < ?ue" "\<forall>t \<in> set (as @ mid @ bs). in_range t" "distinct (map ss_id (as @ mid @ bs))"
    "\<forall>t \<in> set as. passed [] inp w t" "\<forall>t \<in> set bs. ahead [] inp w t"
    "\<forall>s \<in> set mid. ss_history s = None \<or> ss_history s = Some x" "\<forall>s \<in> set mid. sp_start (ss_span s) = bi"
    "mid = [] \<longrightarrow> ?S = [] \<and> si = 0 \<and> bi = 0" "\<forall>s \<in> set mid. sp_end (ss_span s) = ?ue"
    by (rule broken_parts [OF br bi])
  have base: "base_ok [] inp bi x cs w" using br by (simp add: broken_def)
  then have g: "good w" and bi0: "0 \<le> bi" and x: "x = run 0 bi inp" and cm: "cs_max_length cs = maxlen"
    by (auto simp: base_ok_def)
  let ?L = "ss_id ` set (as @ bs)"
  obtain olds wa where ex: "exit_sessions N (take 1 (drop si ?S)) w = (olds, wa)" by (metis surj_pair)
  let ?cs = "cs\<lparr>cs_sessions := take si ?S @ olds @ drop (si + 1) ?S\<rparr>"
  note sp = spliced [OF p(1,2,3,4) ex]
  have ga: "good wa" and ka: "keeps sess (- ?L) w wa"
  proof -
    have k: "good wa" "keeps sess (ss_id ` set mid) w wa" using sp [of "[undefined]"] g by simp_all
    then show "good wa" by simp
    show "keeps sess (- ?L) w wa" by (rule keeps_mono [OF k(2)]) (use p(9) in auto)
  qed
  obtain routed wb where ro: "net_route N bi ?ue (cs_max_length cs) wa = (routed, wb)" by (metis surj_pair)
  have gb: "good wb" and kb: "keeps sess (- ?L) w wb"
    using route_good [OF ga ro] keeps_comp [OF ka] by (auto intro: keeps_mono)
  have ue: "?ue \<le> nblocks" using linked_le [OF p(6)] .
  have known: "known wb ?L"
  proof (rule known_keeps [OF _ kb], unfold known_def, rule ballI)
    fix i assume "i \<in> ?L"
    then obtain t where "t \<in> set as \<or> t \<in> set bs" "i = ss_id t" by auto
    then have "settled w t (run 0 (sp_start (ss_span t)) ([] @ inp)) \<or> ahead [] inp w t"
      using p(10,11) by (auto simp: passed_def)
    then show "\<exists>a b h. sess w i a b h"
      using \<open>i = ss_id t\<close> by (auto simp: settled_def unused_def ahead_def)
  qed
  text \<open>When it stops on the way, the session in the gap is closed and nothing else has changed.\<close>
  have stop: "broken inp si bi x ?cs w'" if "good w'" and k: "keeps sess (- ?L) w w'" for w'
  proof -
    have as: "\<forall>t \<in> set as. passed [] inp w' t" and bs: "\<forall>t \<in> set bs. ahead [] inp w' t"
      using all_passed_keeps [OF p(10) k] all_ahead_keeps [OF p(11) k] by auto
    have b': "base_ok [] inp bi x ?cs w'" using base_ok_good [OF base that(1)] by simp
    note S = sp [of "[undefined]", THEN conjunct2, THEN conjunct1, simplified]
    show ?thesis
    proof (cases mid)
      case Nil
      with p(14) have "?S = []" "si = 0" "bi = 0" by simp_all
      then show ?thesis using b' ex by (simp add: broken_def)
    next
      case (Cons s rest)
      then have rest: "rest = []" using p(3) by simp
      let ?s = "s\<lparr>ss_closed := ss_closed (hd olds)\<rparr>"
      have "map unlink (cs_sessions ?cs) = as @ ?s # bs" using S Cons rest by simp
      moreover have "chain_ok si bi as (?s # bs)"
        using p(2,5,6,8,9,13,15) Cons rest by (auto simp: chain_ok_def in_range_def)
      moreover have "ss_history ?s = None \<or> ss_history ?s = Some x" using p(12) Cons by simp
      ultimately show ?thesis unfolding broken_def using b' as bs by blast
    qed
  qed
  show ?thesis
  proof (cases routed)
    case (Inl e)
    with u ex ro stop [OF gb kb] show ?thesis by (auto simp: session_update_def Let_def)
  next
    case (Inr spans)
    have li: "linked bi ?ue spans" "\<forall>s \<in> set spans. sp_start s < sp_end s"
      using route_linked [OF ga bi0 p(7) ue ro [unfolded Inr]] by auto
    then have ne: "spans \<noteq> []" using p(7) by auto
    have clip: "butlast spans @ [(last spans)\<lparr>sp_end := min (sp_end (last spans)) ?ue\<rparr>] = spans"
      
      by (subst clip_same) (use linked_last_end [OF ne li(1)] ne in simp_all)
    obtain made wc where en: "enter_sessions N spans [] wb = (made, wc)" by (metis surj_pair)
    note ok = enter_sessions_ok [OF gb en known, of x, simplified]
    have gc: "good wc" and kc: "keeps sess (- ?L) w wc" using ok keeps_comp [OF kb] by auto
    show ?thesis
    proof (cases made)
      case (Inl e)
      with u ex ro Inr ne clip en stop [OF gc kc] show ?thesis
        by (auto simp: session_update_def Let_def)
    next
      case mk: (Inr news)
      have n: "map ss_span news = spans" "ss_id ` set news \<inter> ?L = {}" "\<forall>s \<in> set news. unused wc s x \<and> ss_history s = None"
        "distinct (map ss_id news)" using ok mk by auto
      have nne: "news \<noteq> []" using n(1) ne by auto
      let ?n1 = "case mid of [] \<Rightarrow> news | s # _ \<Rightarrow> (hd news)\<lparr>ss_history := ss_history s\<rparr> # tl news"
      have res: "res = Inr ()" "cs1 = cs\<lparr>cs_sessions := splice_sessions si news (take si ?S @ olds @ drop (si + 1) ?S)\<rparr>" "w1 = wc"
        using u ex ro Inr ne clip en mk by (auto simp: session_update_def Let_def)
      have S1: "map unlink (cs_sessions cs1) = as @ (map unlink ?n1 @ bs)" using sp [OF nne] by (simp add: res(2))
      have n1: "map ss_span ?n1 = spans" "map ss_id ?n1 = map ss_id news"
        using n(1) nne by (auto split: list.splits simp: neq_Nil_conv)
      have "\<forall>s \<in> set ?n1. unused wc s (run 0 (sp_start (ss_span s)) inp)"
      proof (cases mid)
        case Nil
        then show ?thesis using n(3) unused_any by auto
      next
        case (Cons s rest)
        obtain m ms where m: "news = m # ms" using nne by (cases news) auto
        then have "sp_start (ss_span m) = bi" using n(1) li(1) by auto
        then have "unused wc (m\<lparr>ss_history := ss_history s\<rparr>) (run 0 (sp_start (ss_span m)) inp)"
          using n(3) m p(12) Cons by (auto simp: unused_def x)
        then show ?thesis using Cons m n(3) unused_any by auto
      qed
      then have ah: "\<forall>s \<in> set (map unlink ?n1 @ bs). ahead [] inp wc s"
        using all_ahead_keeps [OF p(11) kc] by (auto simp: ahead_def)
      have "\<forall>s \<in> set news. in_range s"
      proof
        fix s assume "s \<in> set news"
        then have "ss_span s \<in> set spans" using n(1) by auto
        with li(2) linked_in [OF li(1) this] bi0 ue show "in_range s" by (auto simp: in_range_def)
      qed
      then have "\<forall>sp \<in> set spans. 0 \<le> sp_start sp \<and> sp_start sp < sp_end sp \<and> sp_end sp \<le> nblocks"
        unfolding n(1) [symmetric] by (auto simp: in_range_def)
      then have "\<forall>s \<in> set (map unlink ?n1). in_range s"
        unfolding in_range_def n1(1) [symmetric] by auto
      then have "chain_ok si bi as (map unlink ?n1 @ bs)"
        using p(2,5,6,8,9) li(1) n(2,4) n1 by (auto simp: chain_ok_def linked_append comp_def)
      moreover have "base_ok [] inp bi x cs1 wc" using base_ok_good [OF base gc] by (simp add: res(2))
      moreover have "\<forall>t \<in> set as. passed [] inp wc t" by (rule all_passed_keeps [OF p(10) kc]) auto
      ultimately have "ready [] inp si bi x cs1 wc" unfolding ready_def using S1 ah by blast
      then show ?thesis using res(1,3) by simp
    qed
  qed
qed

section \<open>The loop\<close>

lemma attempt_after_update:
  assumes "cs_sessions cs = [] \<or> 1 \<le> attempt"
    and "session_update N si bi cs w = (res, cs1, w1)" and "res = Inr () \<longrightarrow> cs_sessions cs1 \<noteq> []"
  shows "session_attempt N batch prompts hypo step_id si bi attempt x cs w =
    (case res of Inl e \<Rightarrow> (Inl (e, None), cs1, w1)
     | Inr _ \<Rightarrow> session_attempt N batch prompts hypo step_id si bi 0 x cs1 w1)"
  using assms by (auto simp: session_attempt_def split: sum.splits)

lemma ready_sessions: "ready H inp si bi x cs w \<Longrightarrow> bi < nblocks \<Longrightarrow> cs_sessions cs \<noteq> []"
  by (auto simp: ready_def chain_ok_def)

definition loop_inv :: "'h list \<Rightarrow> 'h list \<Rightarrow> nat \<Rightarrow> int \<Rightarrow> nat \<Rightarrow> 'h list \<Rightarrow> ('p, 'a, 'h) client_session \<Rightarrow> 'w \<Rightarrow> bool" where
  "loop_inv H inp si bi attempt x cs w \<longleftrightarrow>
     (attempt = 0 \<and> ready H inp si bi x cs w) \<or> (H = [] \<and> (1 \<le> attempt \<or> cs_sessions cs = []) \<and> broken inp si bi x cs w)"

definition too_late :: "'h list \<Rightarrow> nat \<Rightarrow> int \<Rightarrow> nat \<Rightarrow> ('p, 'a, 'h) client_session \<Rightarrow> bool" where
  "too_late H si bi attempt cs \<longleftrightarrow> H \<noteq> [] \<and> 1 \<le> attempt \<and> cs_position cs = length H \<and> si \<le> length (cs_sessions cs)
     \<and> cs_uids cs = uids \<and> bi < nblocks"

lemma attempt_inv:
  assumes inv: "loop_inv H inp si bi attempt x cs w" and bi: "bi < nblocks" and b: "0 < batch"
    and at: "session_attempt N batch None None step_id si bi attempt x cs w = (r, cs1, w1)"
  shows "case r of
      Inr (out, e, peer) \<Rightarrow> ready H inp (si + 1) e out cs1 w1
    | Inl (err, peer) \<Rightarrow> (if H = [] then broken inp si bi x cs1 w1
        else cs_position cs1 = length H \<and> si \<le> length (cs_sessions cs1) \<and> cs_uids cs1 = uids)"
proof (cases "attempt = 0 \<and> ready H inp si bi x cs w")
  case True
  with attempt_ready [OF _ bi b] at show ?thesis by blast
next
  case False
  then have H: "H = []" "1 \<le> attempt \<or> cs_sessions cs = []" and br: "broken inp si bi x cs w"
    using inv by (auto simp: loop_inv_def)
  obtain res cs2 w2 where u: "session_update N si bi cs w = (res, cs2, w2)" by (metis surj_pair)
  note up = update_broken [OF br bi u]
  have a: "session_attempt N batch None None step_id si bi attempt x cs w =
    (case res of Inl e \<Rightarrow> (Inl (e, None), cs2, w2)
     | Inr _ \<Rightarrow> session_attempt N batch None None step_id si bi 0 x cs2 w2)"
    by (rule attempt_after_update [OF _ u]) (use H(2) up ready_sessions [OF _ bi] in auto)
  show ?thesis
  proof (cases res)
    case (Inl e)
    with a at up H(1) show ?thesis by simp
  next
    case (Inr y)
    with a at have "session_attempt N batch None None step_id si bi 0 x cs2 w2 = (r, cs1, w1)" by simp
    from attempt_ready [OF _ bi b this, of "[]" inp] up Inr show ?thesis unfolding H(1) by simp
  qed
qed

lemma loop_partial:
  assumes "session_loop N' batch prompts hypo step_id si bi attempt x cs w = Some r"
  shows "N' = N \<longrightarrow> prompts = None \<longrightarrow> hypo = None \<longrightarrow> 0 < batch \<longrightarrow>
      loop_inv H inp si bi attempt x cs w \<or> too_late H si bi attempt cs \<longrightarrow>
      (\<forall>out cs' w'. r = (Inr out, cs', w') \<longrightarrow> (\<exists>si' at'. loop_inv H inp si' nblocks at' out cs' w'))"
proof (rule session_loop.raw_induct [where P = "\<lambda>N' batch prompts hypo step_id si bi attempt x cs w r.
      N' = N \<longrightarrow> prompts = None \<longrightarrow> hypo = None \<longrightarrow> 0 < batch \<longrightarrow>
      loop_inv H inp si bi attempt x cs w \<or> too_late H si bi attempt cs \<longrightarrow>
      (\<forall>out cs' w'. r = (Inr out, cs', w') \<longrightarrow> (\<exists>si' at'. loop_inv H inp si' nblocks at' out cs' w'))",
      OF _ assms], intro impI, goal_cases)
  case (1 loop N' batch prompts hypo step_id si bi attempt x cs w r)
  note [simp] = 1(3,4,5)
  have nb: "num_blocks cs = nblocks" and le: "loop_inv H inp si bi attempt x cs w \<longrightarrow> bi \<le> nblocks"
    using 1(7) by (auto simp: loop_inv_def too_late_def ready_def broken_def base_ok_def num_blocks_def)
  show ?case
  proof (cases "bi < nblocks")
    case False
    then have "r = (Inr x, cs, w)" using 1(2) nb by simp
    moreover have "loop_inv H inp si nblocks attempt x cs w"
      using 1(7) False le by (auto simp: too_late_def)
    ultimately show ?thesis by blast
  next
    case bi: True
    obtain ra cs1 w1 where at: "session_attempt N batch None None step_id si bi attempt x cs w = (ra, cs1, w1)"
      by (metis surj_pair)
    show ?thesis
    proof (cases "loop_inv H inp si bi attempt x cs w")
      case True
      note inv = attempt_inv [OF True bi 1(6) at]
      show ?thesis
      proof (cases ra)
        case (Inr oep)
        obtain out e peer where oep: "oep = (out, e, peer)" by (metis surj_pair)
        have rd: "ready H inp (si + 1) e out cs1 w1" using inv Inr oep by simp
        then have g1: "good w1" by (simp add: ready_def base_ok_def)
        have "loop_inv H inp (si + 1) e 0 out cs1 (net_success N peer w1)"
          using ready_world [OF rd] success_good [OF g1] by (simp add: loop_inv_def)
        moreover have "loop N batch None None step_id (si + 1) e 0 out cs1 (net_success N peer w1) = Some r"
          using 1(2) nb bi at Inr oep by simp
        ultimately show ?thesis using 1(1) [OF \<open>loop N batch None None step_id (si + 1) e 0 out cs1 (net_success N peer w1) = Some r\<close>] 1(6)
          by blast
      next
        case (Inl ep)
        obtain err peer where ep: "ep = (err, peer)" by (metis surj_pair)
        show ?thesis
        proof (cases "net_max_retries N = Some (attempt + 1)")
          case True
          then have "fst r = Inl err" using 1(2) nb bi at Inl ep by auto
          then show ?thesis by auto
        next
          case False
          have lp: "loop N batch None None step_id si bi (attempt + 1) x cs1 (net_failure N peer w1) = Some r"
            using 1(2) nb bi at Inl ep False by simp
          have "loop_inv H inp si bi (attempt + 1) x cs1 (net_failure N peer w1) \<or> too_late H si bi (attempt + 1) cs1"
          proof (cases "H = []")
            case True
            then have br: "broken inp si bi x cs1 w1" using inv Inl ep by simp
            then have "good w1" by (simp add: broken_def base_ok_def)
            with broken_world [OF br] failure_good True show ?thesis by (simp add: loop_inv_def)
          next
            case False
            with inv Inl ep bi show ?thesis by (simp add: too_late_def)
          qed
          with 1(1) [OF lp] 1(6) show ?thesis by blast
        qed
      qed
    next
      case False
      then have tl: "too_late H si bi attempt cs" using 1(7) by simp
      then have "0 < cs_position cs" "1 \<le> attempt" "si \<le> length (cs_sessions cs)" by (auto simp: too_late_def)
      from attempt_late [OF this, of N batch "None :: 'h list list option" "None :: 'y option" step_id bi x w] at
      obtain err peer where ra: "ra = Inl (err, peer)"
        and f: "cs_position cs1 = cs_position cs" "cs_uids cs1 = cs_uids cs" "si \<le> length (cs_sessions cs1)" by auto
      show ?thesis
      proof (cases "net_max_retries N = Some (attempt + 1)")
        case True
        then have "fst r = Inl err" using 1(2) nb bi at ra by auto
        then show ?thesis by auto
      next
        case False
        have lp: "loop N batch None None step_id si bi (attempt + 1) x cs1 (net_failure N peer w1) = Some r"
          using 1(2) nb bi at ra False by simp
        have "too_late H si bi (attempt + 1) cs1" using tl f by (simp add: too_late_def)
        with 1(1) [OF lp] 1(6) show ?thesis by blast
      qed
    qed
  qed
qed

end

end
