(* ===== verification/PetalsStep.thy ===== *)
theory PetalsStep
  imports PetalsLoop
begin

text \<open>
  A whole step of the client's session: what it returns, and, when the calls succeed, that it returns.
\<close>

context block_sessions
begin

section \<open>Partial correctness\<close>

text \<open>A session between steps, after the tokens \<open>H\<close>.\<close>

definition session_ok :: "'h list \<Rightarrow> ('p, 'a, 'h) client_session \<Rightarrow> 'w \<Rightarrow> bool" where
  "session_ok H cs w \<longleftrightarrow> good w \<and> cs_uids cs = uids \<and> cs_max_length cs = maxlen \<and> cs_position cs = length H
     \<and> \<not> cs_closed cs
     \<and> (cs_sessions cs = [] \<and> H = []
       \<or> chain_ok 0 0 [] (map unlink (cs_sessions cs))
         \<and> (\<forall>s \<in> set (cs_sessions cs). settled w s (run 0 (sp_start (ss_span s)) H)))"

lemma session_ok_new: "good w \<Longrightarrow> session_ok [] (new_client_session uids maxlen) w"
  by (simp add: session_ok_def new_client_session_def)

lemma session_start:
  assumes "session_ok H cs w"
  shows "loop_inv H inp 0 0 0 inp cs w"
proof (cases "cs_sessions cs = [] \<and> H = []")
  case True
  with assms have "broken inp 0 0 inp cs w"
    by (auto simp: broken_def base_ok_def session_ok_def run_nothing)
  with True show ?thesis by (simp add: loop_inv_def)
next
  case False
  with assms have "chain_ok 0 0 [] (map unlink (cs_sessions cs))"
    "\<forall>s \<in> set (cs_sessions cs). settled w s (run 0 (sp_start (ss_span s)) H)" "base_ok H inp 0 inp cs w"
    by (auto simp: base_ok_def session_ok_def run_nothing)
  then have "ready H inp 0 0 inp cs w"
    unfolding ready_def by (intro conjI exI [of _ "[]"] exI [of _ "map unlink (cs_sessions cs)"]) (auto simp: ahead_def)
  then show ?thesis by (simp add: loop_inv_def)
qed

lemma linked_empty: "linked a a spans \<Longrightarrow> (\<forall>s \<in> set spans. sp_start s < sp_end s) \<Longrightarrow> spans = []"
  using linked_le by (cases spans) force+

lemma session_finish:
  assumes inv: "loop_inv H inp si nblocks at out cs w" and "uids \<noteq> []"
  shows "out = drop (length H) (run 0 nblocks (H @ inp)) \<and> length out = length inp
    \<and> session_ok (H @ inp) (cs\<lparr>cs_position := cs_position cs + length inp\<rparr>) w"
proof (cases "ready H inp si nblocks out cs w")
  case False
  with inv have br: "broken inp si nblocks out cs w" by (auto simp: loop_inv_def)
  with assms(2) obtain as s bs where "chain_ok si nblocks as (s # bs)" by (auto simp: broken_def)
  then have False using linked_le [of "sp_end (ss_span s)" nblocks "map ss_span bs"] by (auto simp: chain_ok_def in_range_def)
  then show ?thesis ..
next
  case True
  then obtain as bs where S: "map unlink (cs_sessions cs) = as @ bs" and ch: "chain_ok si nblocks as bs"
    and as: "\<forall>s \<in> set as. passed H inp w s" and base: "base_ok H inp nblocks out cs w"
    by (auto simp: ready_def)
  have "linked nblocks nblocks (map ss_span bs)" "\<forall>s \<in> set (map ss_span bs). sp_start s < sp_end s"
    using ch by (auto simp: chain_ok_def in_range_def)
  then have bs: "bs = []" using linked_empty by blast
  have g: "good w" using base by (simp add: base_ok_def)
  have "\<forall>s \<in> set (cs_sessions cs). settled w s (run 0 (sp_start (ss_span s)) (H @ inp))"
  proof
    fix s assume "s \<in> set (cs_sessions cs)"
    then have "unlink s \<in> set as" using S bs by (metis append_Nil2 imageI list.set_map)
    with as show "settled w s (run 0 (sp_start (ss_span s)) (H @ inp))" by (metis passed_def unlink_fields(1) unlink_simps(1))
  qed
  moreover have "chain_ok 0 0 [] (map unlink (cs_sessions cs))" using ch S bs by (simp add: chain_ok_def)
  ultimately show ?thesis using base run_length [OF g] by (simp add: base_ok_def session_ok_def)
qed

lemma step_partial:
  assumes ok: "session_ok H cs w" and ne: "uids \<noteq> []" and b: "0 < batch"
    and st: "session_step N batch None None step_id inp cs w = Some (Inr out, cs', w')"
  shows "out = drop (length H) (run 0 nblocks (H @ inp)) \<and> session_ok (H @ inp) cs' w'"
proof -
  have "\<not> cs_closed cs" using ok by (simp add: session_ok_def)
  with st obtain res1 cs1 w1 where l1: "session_loop N batch None None step_id 0 0 0 inp cs w = Some (res1, cs1, w1)"
    by (auto simp: session_step_def prompts_fit_def split: if_splits)
  with st \<open>\<not> cs_closed cs\<close> obtain out1 where lp: "session_loop N batch None None step_id 0 0 0 inp cs w = Some (Inr out1, cs1, w')"
    and r: "out = last_tokens (length inp) out1" "cs' = cs1\<lparr>cs_position := cs_position cs1 + length inp\<rparr>"
    by (cases res1) (auto simp: session_step_def prompts_fit_def split: if_splits)
  from loop_partial [OF lp, rule_format, of H inp] session_start [OF ok] b
  obtain si at where "loop_inv H inp si nblocks at out1 cs1 w'" by auto
  from session_finish [OF this ne] r show ?thesis by (metis last_tokens_all)
qed

end

section \<open>When the calls succeed\<close>

text \<open>
  \<open>reach w p a b\<close>: the peer holds these blocks; \<open>can w sid stepped a b\<close>: the session takes a request for
  them, the first one if \<open>stepped\<close> is false.
\<close>

locale block_sessions_up = block_sessions N uids maxlen run good sess
  for N :: "('w, 'p, 'a, 'h, 'y) net" and uids :: "string list" and maxlen :: nat
    and run :: "int \<Rightarrow> int \<Rightarrow> 'h list \<Rightarrow> 'h list" and good :: "'w \<Rightarrow> bool"
    and sess :: "'w \<Rightarrow> nat \<Rightarrow> int \<Rightarrow> int \<Rightarrow> 'h list \<Rightarrow> bool" +
  fixes up :: "'w \<Rightarrow> bool"
    and reach :: "'w \<Rightarrow> 'p \<Rightarrow> int \<Rightarrow> int \<Rightarrow> bool"
    and can :: "'w \<Rightarrow> nat \<Rightarrow> bool \<Rightarrow> int \<Rightarrow> int \<Rightarrow> bool"
  assumes up_good: "up w \<Longrightarrow> good w"
    and route_up: "up w \<Longrightarrow> 0 \<le> a \<Longrightarrow> a < b \<Longrightarrow> b \<le> int (length uids) \<Longrightarrow>
      \<exists>spans w'. net_route N a b maxlen w = (Inr spans, w') \<and> up w'
        \<and> (\<forall>s \<in> set spans. reach w' (sp_peer s) (sp_start s) (sp_end s))"
    and open_up: "up w \<Longrightarrow> \<exists>sid w'. net_open N p w = (Inr sid, w') \<and> up w'
        \<and> (\<forall>q a b. reach w q a b \<longrightarrow> reach w' q a b) \<and> (\<forall>i f a b. can w i f a b \<longrightarrow> can w' i f a b)
        \<and> (\<forall>a b. reach w p a b \<longrightarrow> can w' sid False a b)"
    and step_up: "up w \<Longrightarrow> sess w sid a b hs \<Longrightarrow> 0 \<le> a \<Longrightarrow> a < b \<Longrightarrow> b \<le> int (length uids) \<Longrightarrow> can w sid f a b
      \<Longrightarrow> rq_uids rq = uids_between uids a b \<Longrightarrow> rq_max_length rq = (if f then None else Some maxlen)
      \<Longrightarrow> rq_position rq = Some k \<Longrightarrow> k \<le> length hs \<Longrightarrow> k + length (rq_inputs rq) \<le> maxlen \<Longrightarrow> 0 < rq_batch rq
      \<Longrightarrow> rq_prompts rq = None \<Longrightarrow> rq_hypo rq = None
      \<Longrightarrow> \<exists>out w'. net_step N sid rq w = (Inr out, w') \<and> up w' \<and> can w' sid True a b
        \<and> (\<forall>i f a b. i \<noteq> sid \<longrightarrow> can w i f a b \<longrightarrow> can w' i f a b)"
    and success_up: "up w \<Longrightarrow> up (net_success N p w) \<and> (\<forall>i f a b. can w i f a b \<longrightarrow> can (net_success N p w) i f a b)"

context block_sessions_up
begin

definition able :: "'w \<Rightarrow> ('p, 'a, 'h) server_session \<Rightarrow> bool" where
  "able w s \<longleftrightarrow> can w (ss_id s) (ss_stepped s) (sp_start (ss_span s)) (sp_end (ss_span s))"

lemma able_unlink [simp]: "able w (unlink s) = able w s"
  by (simp add: able_def)

lemma server_step_up:
  assumes up: "up w" and r: "in_range s" and b: "0 < batch"
    and s: "settled w s h \<or> h = [] \<and> unused w s x" and fits: "length h + length x \<le> maxlen" and ab: "able w s"
  shows "\<exists>out s' w'. server_session_step N batch uids maxlen None None step_id x s w = (Inr out, s', w') \<and> up w' \<and> able w' s'
    \<and> (\<forall>t. able w t \<longrightarrow> ss_id t \<noteq> ss_id s \<longrightarrow> able w' t)"
proof -
  have g: "good w" by (rule up_good [OF up])
  let ?a = "sp_start (ss_span s)" and ?b = "sp_end (ss_span s)"
  have hist: "step_history x s = h @ x"
    using s by (auto simp: settled_def unused_def step_history_def)
  have pos: "ss_position s = length h" and cl: "\<not> ss_closed s"
    using s by (auto simp: settled_def unused_def)
  have sent: "(if \<not> ss_stepped s then h @ x else last_tokens (length x) x) = x" using s by (auto simp: settled_def unused_def)
  obtain hs where hs: "sess w (ss_id s) ?a ?b hs" "take (length h) hs = h" "length h \<le> length hs"
    using s by (auto simp: settled_def unused_def)
  let ?rq = "step_request batch uids maxlen x (None :: 'h list list option) (None :: 'y option) step_id s"
  have rq: "rq_uids ?rq = uids_between uids ?a ?b" "rq_max_length ?rq = (if ss_stepped s then None else Some maxlen)"
    "rq_position ?rq = Some (length h)" "length h + length (rq_inputs ?rq) \<le> maxlen" "0 < rq_batch ?rq"
    "rq_prompts ?rq = None" "rq_hypo ?rq = None" "rq_inputs ?rq = x"
    using pos b fits by (simp_all add: step_request_def)
  from step_up [OF up hs(1) _ _ _ ab [unfolded able_def] rq(1,2,3) hs(3) rq(4,5,6,7)] r
  obtain out w1 where n: "net_step N (ss_id s) ?rq w = (Inr out, w1)" "up w1" "can w1 (ss_id s) True ?a ?b"
    "\<forall>i f a b. i \<noteq> ss_id s \<longrightarrow> can w i f a b \<longrightarrow> can w1 i f a b"
    unfolding in_range_def by blast
  have "out = drop (length h) (run ?a ?b (h @ x))"
    using step_runs [OF g hs(1) _ _ _ rq(1) _ rq(3) hs(3) rq(5,6,7) n(1)] r hs(2) rq(2,8) by (auto simp: in_range_def)
  then have "length out = length x" using run_length [OF g] by simp
  with n sent hist pos cl
  have "server_session_step N batch uids maxlen None None step_id x s w
    = (Inr out, s\<lparr>ss_history := Some (h @ x), ss_stepped := True, ss_position := length h + length x\<rparr>, w1)"
    by (simp add: server_session_step_def Let_def)
  with n(2-4) show ?thesis by (auto simp: able_def)
qed

text \<open>The invariant together with the chain's ability to go on.\<close>

definition ready_up :: "'h list \<Rightarrow> 'h list \<Rightarrow> nat \<Rightarrow> int \<Rightarrow> 'h list \<Rightarrow> ('p, 'a, 'h) client_session \<Rightarrow> 'w \<Rightarrow> bool" where
  "ready_up H inp si bi x cs w \<longleftrightarrow> ready H inp si bi x cs w \<and> up w \<and> (\<forall>s \<in> set (cs_sessions cs). able w s)"

lemma ready_distinct:
  assumes "ready H inp si bi x cs w" and "bi < nblocks"
  shows "si < length (cs_sessions cs)" "distinct (map ss_id (cs_sessions cs))"
    "in_range (cs_sessions cs ! si)" "sp_start (ss_span (cs_sessions cs ! si)) = bi" "ahead H inp w (cs_sessions cs ! si)"
proof -
  from assms(1) obtain as bs where S: "map unlink (cs_sessions cs) = as @ bs" and ch: "chain_ok si bi as bs"
    and ah: "\<forall>s \<in> set bs. ahead H inp w s" by (auto simp: ready_def)
  from chain_split [OF ch assms(2)] obtain s ss where s: "bs = s # ss" "sp_start (ss_span s) = bi" "in_range s" by metis
  have si: "length as = si" using ch by (simp add: chain_ok_def)
  show len: "si < length (cs_sessions cs)"
    using S si s(1) by (metis length_map length_append length_Cons less_add_Suc1 add_Suc_right)
  have "map ss_id (cs_sessions cs) = map ss_id (as @ bs)" unfolding S [symmetric] by simp
  then show "distinct (map ss_id (cs_sessions cs))" using ch by (simp add: chain_ok_def)
  have "unlink (cs_sessions cs ! si) = s" using S si s(1) len by (metis nth_append_length nth_map)
  then show "in_range (cs_sessions cs ! si)" "sp_start (ss_span (cs_sessions cs ! si)) = bi" "ahead H inp w (cs_sessions cs ! si)"
    using s ah by (metis unlink_simps(3), metis unlink_fields(1), metis unlink_simps(5) list.set_intros(1))
qed

lemma attempt_up:
  assumes rd: "ready_up H inp si bi x cs w" and bi: "bi < nblocks" and b: "0 < batch"
    and fits: "length H + length inp \<le> maxlen"
  shows "\<exists>out e peer cs1 w1. session_attempt N batch None None step_id si bi 0 x cs w = (Inr (out, e, peer), cs1, w1)
    \<and> ready_up H inp (si + 1) e out cs1 (net_success N peer w1) \<and> bi < e"
proof -
  have r: "ready H inp si bi x cs w" and up: "up w" and ab: "\<forall>s \<in> set (cs_sessions cs). able w s"
    using rd by (auto simp: ready_up_def)
  note S = ready_distinct [OF r bi]
  let ?t = "cs_sessions cs ! si" and ?h = "run 0 bi H"
  have g: "good w" and bi0: "0 \<le> bi" and x: "x = drop (length H) (run 0 bi (H @ inp))" and pos: "cs_position cs = length H"
    and cu: "cs_uids cs = uids" "cs_max_length cs = maxlen"
    using r by (auto simp: ready_def base_ok_def)
  have pre: "settled w ?t ?h \<or> ?h = [] \<and> unused w ?t x"
    using S(4,5) run_length [OF g, of 0 bi "[]"] by (auto simp: ahead_def x)
  have lh: "length ?h = length H" "length x = length inp" using run_length [OF g] by (simp_all add: x)
  have tpos: "ss_position ?t = length H" using pre lh(1) by (auto simp: settled_def unused_def)
  from server_step_up [OF up S(3) b pre _, of step_id] lh fits ab S(1)
  obtain out t' w2 where st: "server_session_step N batch uids maxlen None None step_id x ?t w = (Inr out, t', w2)"
    "up w2" "able w2 t'" "\<forall>u. able w u \<longrightarrow> ss_id u \<noteq> ss_id ?t \<longrightarrow> able w2 u" by auto
  let ?cs1 = "cs\<lparr>cs_sessions := (cs_sessions cs)[si := t']\<rparr>" and ?p = "sp_peer (ss_span ?t)" and ?e = "sp_end (ss_span ?t)"
  have at: "session_attempt N batch None None step_id si bi 0 x cs w = (Inr (out, ?e, ?p), ?cs1, w2)"
    using S(1) st(1) tpos pos cu by (auto simp: session_attempt_def span_prompts_def Let_def)
  have "ready H inp (si + 1) ?e out ?cs1 w2" using attempt_ready [OF r bi b at] by simp
  moreover have "\<forall>s \<in> set (cs_sessions ?cs1). able w2 s"
  proof
    fix s assume "s \<in> set (cs_sessions ?cs1)"
    then obtain j where j: "j < length (cs_sessions cs)" "s = (if j = si then t' else cs_sessions cs ! j)"
      by (auto simp: in_set_conv_nth nth_list_update)
    show "able w2 s"
    proof (cases "j = si")
      case False
      then have "ss_id (cs_sessions cs ! j) \<noteq> ss_id ?t" using S(1,2) j(1) by (simp add: distinct_conv_nth)
      then show ?thesis using st(4) ab j False by simp
    qed (use st(3) j in simp)
  qed
  ultimately have "ready_up H inp (si + 1) ?e out ?cs1 (net_success N ?p w2)"
    using success_up [OF st(2)] success_good [OF up_good [OF st(2)]] ready_world st(2)
    by (auto simp: ready_up_def able_def)
  moreover have "bi < ?e" using S(3,4) by (simp add: in_range_def)
  ultimately show ?thesis using at by blast
qed

lemma loop_up:
  assumes "0 < batch" and "length H + length inp \<le> maxlen"
  shows "ready_up H inp si bi x cs w \<Longrightarrow>
    \<exists>out cs' w'. session_loop N batch None None step_id si bi 0 x cs w = Some (Inr out, cs', w') \<and> up w'
      \<and> (\<forall>s \<in> set (cs_sessions cs'). able w' s)"
proof (induction "nat (nblocks - bi)" arbitrary: si bi x cs w rule: less_induct)
  case less
  have nb: "num_blocks cs = nblocks" using less.prems by (auto simp: ready_up_def ready_def base_ok_def num_blocks_def)
  show ?case
  proof (cases "bi < nblocks")
    case False
    with nb less.prems show ?thesis by (subst session_loop.simps) (auto simp: ready_up_def)
  next
    case True
    from attempt_up [OF less.prems True assms] obtain out e peer cs1 w1 where
      a: "session_attempt N batch None None step_id si bi 0 x cs w = (Inr (out, e, peer), cs1, w1)"
      "ready_up H inp (si + 1) e out cs1 (net_success N peer w1)" "bi < e" by metis
    have "nat (nblocks - e) < nat (nblocks - bi)" using a(3) True by simp
    from less.hyps [OF this a(2)] a(1) nb True show ?thesis by (subst session_loop.simps) simp
  qed
qed

lemma enter_up:
  "up w \<Longrightarrow> \<forall>s \<in> set spans. reach w (sp_peer s) (sp_start s) (sp_end s) \<Longrightarrow> \<forall>s \<in> set made. able w s
     \<Longrightarrow> \<exists>news w'. enter_sessions N spans made w = (Inr news, w') \<and> up w' \<and> (\<forall>s \<in> set news. able w' s)"
proof (induction spans arbitrary: made w)
  case (Cons sp sps)
  from open_up [OF Cons.prems(1), of "sp_peer sp"] obtain sid w1 where
    o: "net_open N (sp_peer sp) w = (Inr sid, w1)" "up w1" "\<forall>q a b. reach w q a b \<longrightarrow> reach w1 q a b"
    "\<forall>i f a b. can w i f a b \<longrightarrow> can w1 i f a b" "\<forall>a b. reach w (sp_peer sp) a b \<longrightarrow> can w1 sid False a b" by metis
  have "\<forall>s \<in> set (made @ [new_session sp sid]). able w1 s"
    using Cons.prems(2,3) o(4,5) by (auto simp: able_def new_session_def)
  moreover have "\<forall>s \<in> set sps. reach w1 (sp_peer s) (sp_start s) (sp_end s)" using Cons.prems(2) o(3) by simp
  ultimately show ?case using Cons.IH [OF o(2)] o(1) by simp
qed simp

lemma splice_empty: "news \<noteq> [] \<Longrightarrow> map unlink (splice_sessions 0 news []) = map unlink news"
  by (simp add: splice_sessions_def link_sessions_unlink)

lemma first_update_up:
  assumes ok: "session_ok [] cs w" and S: "cs_sessions cs = []" and up: "up w" and ne: "uids \<noteq> []"
  shows "\<exists>cs1 w1. session_update N 0 0 cs w = (Inr (), cs1, w1) \<and> ready_up [] inp 0 0 inp cs1 w1"
proof -
  have cm: "cs_max_length cs = maxlen" and ue: "update_end 0 cs = nblocks" "0 < nblocks"
    using ok S ne by (auto simp: session_ok_def update_end_def num_blocks_def)
  from route_up [OF up _ ue(2)] obtain spans w1 where
    r: "net_route N 0 nblocks maxlen w = (Inr spans, w1)" "up w1"
      "\<forall>s \<in> set spans. reach w1 (sp_peer s) (sp_start s) (sp_end s)" by blast
  have li: "linked 0 nblocks spans" using route_linked [OF up_good [OF up] _ ue(2) _ r(1)] by simp
  then have sn: "spans \<noteq> []" using ue(2) by auto
  have clip: "butlast spans @ [(last spans)\<lparr>sp_end := min (sp_end (last spans)) nblocks\<rparr>] = spans"
    by (subst clip_same) (use linked_last_end [OF sn li] sn in simp_all)
  from enter_up [OF r(2,3), of "[]"] obtain news w2 where
    en: "enter_sessions N spans [] w1 = (Inr news, w2)" "up w2" "\<forall>s \<in> set news. able w2 s" by auto
  from enter_sessions_new [OF en(1)] obtain sids where sids: "length sids = length spans" "news = map2 new_session spans sids" by auto
  then have nn: "news \<noteq> []" using sn by (cases spans; cases sids) auto
  let ?cs1 = "cs\<lparr>cs_sessions := splice_sessions 0 news []\<rparr>"
  have u: "session_update N 0 0 cs w = (Inr (), ?cs1, w2)"
    using S r(1) sn clip en(1) ue(1) cm by (simp add: session_update_def)
  have "broken inp 0 0 inp cs w" using session_start [OF ok, of inp] S ready_sessions [OF _ ue(2)] by (auto simp: loop_inv_def)
  from update_broken [OF this ue(2) u] have "ready [] inp 0 0 inp ?cs1 w2" by simp
  moreover have "\<forall>s \<in> set (cs_sessions ?cs1). able w2 s"
  proof
    fix s assume "s \<in> set (cs_sessions ?cs1)"
    then have "unlink s \<in> set (map unlink news)" using splice_empty [OF nn] by (simp flip: splice_empty [OF nn])
    then show "able w2 s" using en(3) by (metis able_unlink imageE list.set_map)
  qed
  ultimately show ?thesis using u en(2) by (auto simp: ready_up_def)
qed

lemma step_returns:
  assumes ok: "session_ok H cs w" and up: "up w" and ab: "\<forall>s \<in> set (cs_sessions cs). able w s"
    and ne: "uids \<noteq> []" and b: "0 < batch" and fits: "length H + length inp \<le> maxlen"
  shows "\<exists>out cs' w'. session_step N batch None None step_id inp cs w = Some (Inr out, cs', w') \<and> up w'
    \<and> (\<forall>s \<in> set (cs_sessions cs'). able w' s)"
proof -
  have "\<exists>out cs' w'. session_loop N batch None None step_id 0 0 0 inp cs w = Some (Inr out, cs', w') \<and> up w'
    \<and> (\<forall>s \<in> set (cs_sessions cs'). able w' s)"
  proof (cases "cs_sessions cs = []")
    case False
    then have "ready H inp 0 0 inp cs w" using session_start [OF ok, of inp] by (auto simp: loop_inv_def)
    with loop_up [OF b fits] up ab show ?thesis by (simp add: ready_up_def)
  next
    case True
    then have H: "H = []"
      using ok ne by (auto simp: session_ok_def chain_ok_def)
    from first_update_up [OF ok [unfolded H] True up ne] obtain cs1 w1 where
      u: "session_update N 0 0 cs w = (Inr (), cs1, w1)" "ready_up [] inp 0 0 inp cs1 w1" by blast
    have nb: "num_blocks cs = nblocks" "0 < nblocks" using ok ne by (auto simp: session_ok_def num_blocks_def)
    have nb1: "num_blocks cs1 = nblocks" using u(2) by (auto simp: ready_up_def ready_def base_ok_def num_blocks_def)
    have "cs_sessions cs1 \<noteq> []" using ready_sessions [OF _ nb(2)] u(2) by (auto simp: ready_up_def)
    then have at: "session_attempt N batch None None step_id 0 0 0 inp cs w = session_attempt N batch None None step_id 0 0 0 inp cs1 w1"
      using attempt_after_update [OF _ u(1)] True by simp
    have "session_loop N batch None None step_id 0 0 0 inp cs w = session_loop N batch None None step_id 0 0 0 inp cs1 w1"
      by (subst (1 2) session_loop.simps) (simp add: at nb nb1 ne)
    with loop_up [OF b, of "[]" inp 0 0 inp cs1 w1] u(2) fits H show ?thesis by simp
  qed
  then obtain out cs' w' where "session_loop N batch None None step_id 0 0 0 inp cs w = Some (Inr out, cs', w')" "up w'"
    "\<forall>s \<in> set (cs_sessions cs'). able w' s" by blast
  with ok fits show ?thesis by (simp add: session_step_def prompts_fit_def session_ok_def)
qed

end

end
