(* ===== verification/PetalsBackendProps.thy ===== *)
theory PetalsBackendProps
  imports PetalsBackend
begin

text \<open>
  A server session computes the blocks on the whole token sequence: chunks, caches and rollbacks of the
  position do not change the outputs.
\<close>

section \<open>Causal blocks\<close>

text \<open>
  What the code relies on of a block with an attention cache: one output and one new cache column per
  token, and running a sequence in two parts, the second on the cache of the first, is running it
  at once.
\<close>

definition causal :: "('k list \<Rightarrow> 'h list \<Rightarrow> 'h list \<times> 'k list) \<Rightarrow> bool" where
  "causal f \<longleftrightarrow>
     (\<forall>past xs. length (fst (f past xs)) = length xs
        \<and> take (length past) (snd (f past xs)) = past \<and> length (snd (f past xs)) = length past + length xs)
     \<and> (\<forall>past xs ys. fst (f past (xs @ ys)) = fst (f past xs) @ fst (f (snd (f past xs)) ys)
        \<and> snd (f past (xs @ ys)) = snd (f (snd (f past xs)) ys))"

lemma causal_length:
  assumes "causal f"
  shows "length (fst (f past xs)) = length xs" "length (snd (f past xs)) = length past + length xs"
    "take (length past) (snd (f past xs)) = past"
  using assms by (auto simp: causal_def)

lemma causal_append:
  assumes "causal f"
  shows "fst (f past (xs @ ys)) = fst (f past xs) @ fst (f (snd (f past xs)) ys)"
    "snd (f past (xs @ ys)) = snd (f (snd (f past xs)) ys)"
  using assms unfolding causal_def by blast+

lemma causal_take:
  assumes "causal f"
  shows "take p (fst (f [] xs)) = fst (f [] (take p xs))" "take p (snd (f [] xs)) = snd (f [] (take p xs))"
proof -
  have xs: "xs = take p xs @ drop p xs" by simp
  have l: "length (snd (f [] (take p xs))) = length (take p xs)" using causal_length(2) [OF assms, of "[]"] by simp
  have "take p (fst (f [] (take p xs @ drop p xs))) = fst (f [] (take p xs))"
  proof (cases "p \<le> length xs")
    case True
    then show ?thesis
      unfolding causal_append(1) [OF assms] by (simp add: causal_length [OF assms])
  qed (simp add: causal_length [OF assms])
  then show "take p (fst (f [] xs)) = fst (f [] (take p xs))" by simp
  have "take p (snd (f [] (take p xs @ drop p xs))) = snd (f [] (take p xs))"
  proof (cases "p \<le> length xs")
    case True
    then have "length (snd (f [] (take p xs))) = p" using l by simp
    then show ?thesis
      unfolding causal_append(2) [OF assms] using causal_length(3) [OF assms, of "snd (f [] (take p xs))"] by simp
  qed (simp add: causal_length [OF assms])
  then show "take p (snd (f [] xs)) = snd (f [] (take p xs))" by simp
qed

lemma causal_suffix:
  assumes "causal f"
  shows "fst (f (snd (f [] xs)) ys) = drop (length xs) (fst (f [] (xs @ ys)))"
    "snd (f (snd (f [] xs)) ys) = snd (f [] (xs @ ys))"
  using causal_append [OF assms, of "[]" xs ys] causal_length [OF assms, of "[]"] by simp_all

lemma chunk_loop_whole:
  assumes "causal f" and "0 < c"
  shows "hs \<noteq> [] \<Longrightarrow> chunk_loop f c past hs out kvs = (out @ fst (f past hs), Some (snd (f past hs)))"
proof (induction "length hs" arbitrary: past hs out kvs rule: less_induct)
  case less
  obtain o1 k1 where f1: "f past (take c hs) = (o1, k1)" by (metis surj_pair)
  have hs: "take c hs @ drop c hs = hs" by simp
  show ?case
  proof (cases "drop c hs = []")
    case True
    with less.prems assms(2) f1 have "f past hs = (o1, k1)" by simp
    with less.prems assms(2) True f1 show ?thesis
      by (subst chunk_loop.simps) (simp add: chunk_loop.simps)
  next
    case False
    have "length (drop c hs) < length hs" using less.prems assms(2) by simp
    from less.hyps [OF this False, of k1 "out @ o1" "Some k1"] f1
    show ?thesis
      using less.prems assms(2) causal_append [OF assms(1), of past "take c hs" "drop c hs"]
      by (subst chunk_loop.simps) simp
  qed
qed

lemma chunked_step_is_whole_aux:
  assumes "causal (bk_module B uid)" and "hs \<noteq> []" and "0 < batch" and "0 < fold max (bk_heads B) 0"
    and "0 < bk_dtype_bytes B" and "prefix + length hs \<le> length cache"
  shows "inference_step B uid batch prefix None cache hs =
    (Inr (fst (bk_module B uid (take prefix cache) hs)),
     snd (bk_module B uid (take prefix cache) hs) @ drop (prefix + length hs) cache)"
proof -
  let ?r = "bk_module B uid (take prefix cache) hs"
  obtain c where c: "estimate_max_chunk_length B batch prefix (length hs) = Inr c" "0 < c"
    using assms(2-5) by (auto simp: estimate_max_chunk_length_def Let_def)
  have kv: "length (snd ?r) = prefix + length hs" "take prefix (snd ?r) = take prefix cache"
    using causal_length [OF assms(1), of "take prefix cache" hs] assms(6) by simp_all
  have "take prefix cache @ drop prefix (snd ?r) = snd ?r" by (metis kv(2) append_take_drop_id)
  with assms(6) kv(1) show ?thesis
    by (simp add: inference_step_def c(1) chunk_loop_whole [OF assms(1) c(2) assms(2)] flip: append_assoc)
qed

text \<open>C24. An inference step, however its input is cut into chunks to save memory, computes the block on
  the new columns over the cached prefix in one go, and writes exactly the new columns into the
  cache.\<close>

theorem chunked_step_is_whole:
  assumes "causal (bk_module B uid)" and "hs \<noteq> []" and "0 < batch" and "0 < fold max (bk_heads B) 0"
    and "0 < bk_dtype_bytes B" and "prefix + length hs \<le> length cache"
  shows "inference_step B uid batch prefix None cache hs =
    (Inr (fst (bk_module B uid (take prefix cache) hs)),
     snd (bk_module B uid (take prefix cache) hs) @ drop (prefix + length hs) cache)"
  by (rule chunked_step_is_whole_aux [OF assms])

section \<open>The blocks of a session\<close>

text \<open>The reference: the blocks one after the other on the whole sequence, without caches.\<close>

fun whole_blocks :: "(string \<Rightarrow> 'k list \<Rightarrow> 'h list \<Rightarrow> 'h list \<times> 'k list) \<Rightarrow> string list \<Rightarrow> 'h list \<Rightarrow> 'h list" where
  "whole_blocks mods [] hs = hs"
| "whole_blocks mods (u # us) hs = whole_blocks mods us (fst (mods u [] hs))"

text \<open>The caches hold, at their beginning, the columns of a sequence.\<close>

fun caches_hold ::
  "(string \<Rightarrow> 'k list \<Rightarrow> 'h list \<Rightarrow> 'h list \<times> 'k list) \<Rightarrow> nat \<Rightarrow> string list \<Rightarrow> 'h list \<Rightarrow> 'k list list \<Rightarrow> bool" where
  "caches_hold mods cap [] hs cs \<longleftrightarrow> cs = []"
| "caches_hold mods cap (u # us) hs cs \<longleftrightarrow>
     (\<exists>c rest. cs = c # rest \<and> length c = cap \<and> take (length hs) c = snd (mods u [] hs)
        \<and> caches_hold mods cap us (fst (mods u [] hs)) rest)"

lemma whole_blocks_length:
  "(\<And>u. causal (mods u)) \<Longrightarrow> length (whole_blocks mods us hs) = length hs"
  by (induction us arbitrary: hs) (auto simp: causal_length)

lemma whole_blocks_take:
  "(\<And>u. causal (mods u)) \<Longrightarrow> take p (whole_blocks mods us hs) = whole_blocks mods us (take p hs)"
  by (induction us arbitrary: hs) (auto simp: causal_take)

lemma whole_blocks_append: "whole_blocks mods (us @ vs) hs = whole_blocks mods vs (whole_blocks mods us hs)"
  by (induction us arbitrary: hs) auto

lemma caches_hold_length: "caches_hold mods cap us hs cs \<Longrightarrow> length cs = length us"
  by (induction us arbitrary: hs cs) auto

lemma caches_hold_take:
  assumes "\<And>u. causal (mods u)"
  shows "caches_hold mods cap us hs cs \<Longrightarrow> caches_hold mods cap us (take p hs) cs"
proof (induction us arbitrary: hs cs)
  case (Cons u us)
  then obtain c rest where cs: "cs = c # rest" "length c = cap" "take (length hs) c = snd (mods u [] hs)"
    "caches_hold mods cap us (fst (mods u [] hs)) rest" by auto
  have "take (length (take p hs)) c = snd (mods u [] (take p hs))"
  proof -
    have "take (length (take p hs)) c = take p (take (length hs) c)" by (simp add: min.commute)
    then show ?thesis using cs(3) causal_take(2) [where f = "mods u", OF assms] by metis
  qed
  moreover have "caches_hold mods cap us (fst (mods u [] (take p hs))) rest"
    using Cons.IH [OF cs(4)] causal_take(1) [where f = "mods u", OF assms] by metis
  ultimately show ?case using cs(1,2) by auto
qed simp

lemma caches_hold_new:
  "(\<And>u. causal (mods u)) \<Longrightarrow> caches_hold mods cap us [] (map (\<lambda>_. replicate cap z) us)"
proof (induction us)
  case (Cons u us)
  have "fst (mods u [] []) = []" "snd (mods u [] []) = []"
    using causal_length [where f = "mods u" and past = "[]" and xs = "[]", OF Cons.prems] by auto
  with Cons show ?case by simp
qed simp

definition backend_ok :: "('h, 'k, 'y) backend \<Rightarrow> bool" where
  "backend_ok B \<longleftrightarrow> (\<forall>u. causal (bk_module B u)) \<and> 0 < fold max (bk_heads B) 0 \<and> 0 < bk_dtype_bytes B"

text \<open>A run of the blocks over caches that hold a sequence continues the sequence.\<close>

lemma run_blocks_continue:
  assumes B: "backend_ok B" and "0 < batch"
  shows "caches_hold (bk_module B) cap us hs cs \<Longrightarrow> xs \<noteq> [] \<Longrightarrow> length hs + length xs \<le> cap \<Longrightarrow>
    \<exists>cs'. run_blocks B batch (length hs) None (zip us (zip cs (map (\<lambda>_. None) us))) xs
        = (Inr (drop (length hs) (whole_blocks (bk_module B) us (hs @ xs))), cs')
      \<and> caches_hold (bk_module B) cap us (hs @ xs) cs'"
proof (induction us arbitrary: hs cs xs)
  case (Cons u us)
  let ?f = "bk_module B u"
  have f: "causal ?f" using B by (simp add: backend_ok_def)
  obtain c rest where cs: "cs = c # rest" "length c = cap" "take (length hs) c = snd (?f [] hs)"
    "caches_hold (bk_module B) cap us (fst (?f [] hs)) rest" using Cons.prems(1) by auto
  let ?out = "fst (?f (snd (?f [] hs)) xs)" and ?c' = "snd (?f [] (hs @ xs)) @ drop (length hs + length xs) c"
  have step: "inference_step B u batch (length hs) None c xs = (Inr ?out, ?c')"
    using chunked_step_is_whole_aux [OF f Cons.prems(2) assms(2)] B cs(2,3) Cons.prems(3)
    by (simp add: backend_ok_def causal_suffix(2) [OF f])
  have out: "length ?out = length xs" "fst (?f [] hs) @ ?out = fst (?f [] (hs @ xs))"
    using causal_length(1) [OF f] causal_append(1) [OF f, of "[]" hs xs] by simp_all
  have len: "length (fst (?f [] hs)) = length hs" using causal_length(1) [OF f] by simp
  have "?out \<noteq> []" "length (fst (?f [] hs)) + length ?out \<le> cap"
    using out(1) Cons.prems(2,3) len by (auto simp flip: length_greater_0_conv)
  from Cons.IH [OF cs(4) this]
  obtain cs' where cs': "run_blocks B batch (length hs) None (zip us (zip rest (map (\<lambda>_. None) us))) ?out
      = (Inr (drop (length hs) (whole_blocks (bk_module B) us (fst (?f [] (hs @ xs))))), cs')"
    "caches_hold (bk_module B) cap us (fst (?f [] (hs @ xs))) cs'"
    unfolding out(2) len by blast
  have "length ?c' = cap" "take (length (hs @ xs)) ?c' = snd (?f [] (hs @ xs))"
    using cs(2) Cons.prems(3) causal_length(2) [OF f, of "[]" "hs @ xs"] by simp_all
  then show ?case using step cs'(2) by (simp add: cs(1) add_prompt_def cs'(1))
qed simp

text \<open>
  A request at a position within what the session has seen continues it from there; one that is
  longer than the allocated cache is refused.
\<close>

definition session_holds ::
  "('h, 'k, 'y) backend \<Rightarrow> string list \<Rightarrow> 'h list \<Rightarrow> 'k serving \<Rightarrow> bool" where
  "session_holds B us hs sv \<longleftrightarrow> sv_uids sv = us \<and> caches_hold (bk_module B) (sv_max_length sv) us hs (sv_caches sv)"

lemma serve_step_continue:
  assumes B: "backend_ok B" and h: "session_holds B us hs sv" and p: "p \<le> length hs"
    and rq: "rq_position rq = Some p" "0 < rq_batch rq" "rq_prompts rq = None" "rq_hypo rq = None"
    and fits: "p + length (rq_inputs rq) \<le> sv_max_length sv"
  shows "\<exists>sv'. serve_step B merge_max rq sv
      = (Inr (drop p (whole_blocks (bk_module B) us (take p hs @ rq_inputs rq))), sv')
    \<and> session_holds B us (take p hs @ rq_inputs rq) sv' \<and> sv_max_length sv' = sv_max_length sv
    \<and> sv_prefix sv' = p + length (rq_inputs rq)"
proof -
  have c: "\<And>u. causal (bk_module B u)" using B by (simp add: backend_ok_def)
  have uids: "sv_uids sv = us" using h by (simp add: session_holds_def)
  have ch: "caches_hold (bk_module B) (sv_max_length sv) us (take p hs) (sv_caches sv)"
    using h caches_hold_take [OF c] by (simp add: session_holds_def)
  have len: "length (take p hs) = p" using p by simp
  show ?thesis
  proof (cases "rq_inputs rq = []")
    case True
    have "drop p (whole_blocks (bk_module B) us (take p hs)) = []"
      using whole_blocks_length [where us = us and hs = "take p hs", OF c] len by simp
    with True fits rq uids ch show ?thesis
      by (simp add: serve_step_def session_holds_def)
  next
    case False
    from run_blocks_continue [OF B rq(2) ch False] fits
    obtain cs' where "run_blocks B (rq_batch rq) p None (zip us (zip (sv_caches sv) (map (\<lambda>_. None) us))) (rq_inputs rq)
        = (Inr (drop p (whole_blocks (bk_module B) us (take p hs @ rq_inputs rq))), cs')"
      "caches_hold (bk_module B) (sv_max_length sv) us (take p hs @ rq_inputs rq) cs'"
      unfolding len by blast
    with False fits rq uids show ?thesis
      by (simp add: serve_step_def session_holds_def run_separately_eq Let_def)
  qed
qed

lemma serve_step_refuses:
  "p + length (rq_inputs rq) > sv_max_length sv \<Longrightarrow> rq_position rq = Some p \<Longrightarrow> rq_prompts rq = None
     \<Longrightarrow> fst (serve_step B merge_max rq sv) = Inl ValueError"
  by (simp add: serve_step_def)

section \<open>Pushed requests\<close>

text \<open>The responses of a session that carry a step id.\<close>

definition served_ids :: "(nat option \<times> 'h list result) list \<Rightarrow> nat list" where
  "served_ids rs = List.map_filter fst rs"

lemma served_ids_simps [simp]:
  "served_ids [] = []" "served_ids ((None, x) # rs) = served_ids rs" "served_ids ((Some i, x) # rs) = i # served_ids rs"
  by (simp_all add: served_ids_def List.map_filter_simps)

lemma serve_step_ids: "sv_done_ids (snd (serve_step B merge_max rq sv)) = sv_done_ids sv"
  by (auto simp: serve_step_def Let_def split: prod.splits sum.splits option.splits)

lemma served_fresh:
  "serve_requests B merge_max rqs sv = (rs, sv') \<Longrightarrow>
     distinct (served_ids rs) \<and> set (served_ids rs) \<inter> set (sv_done_ids sv) = {}"
proof (induction B merge_max rqs sv arbitrary: rs sv' rule: serve_requests.induct)
  case (3 B merge_max rq rqs sv)
  show ?case
  proof (cases "rq_step_id rq \<noteq> None \<and> the (rq_step_id rq) \<in> set (sv_done_ids sv)")
    case True
    with 3 show ?thesis by simp
  next
    case new: False
    obtain res sv1 where st: "serve_step B merge_max rq sv = (res, sv1)" by (metis surj_pair)
    have ids: "sv_done_ids sv1 = sv_done_ids sv" using serve_step_ids [of B merge_max rq sv] st by simp
    show ?thesis
    proof (cases res)
      case (Inl e)
      with new st "3.prems" show ?thesis by (cases "rq_step_id rq") auto
    next
      case (Inr out)
      let ?sv2 = "case rq_step_id rq of None \<Rightarrow> sv1 | Some i \<Rightarrow> sv1\<lparr>sv_done_ids := sv_done_ids sv1 @ [i]\<rparr>"
      obtain rs1 sv3 where r: "serve_requests B merge_max rqs ?sv2 = (rs1, sv3)" by (metis surj_pair)
      from "3.IH"(2) [OF new st [symmetric] Inr refl r]
      have "distinct (served_ids rs1) \<and> set (served_ids rs1) \<inter> set (sv_done_ids ?sv2) = {}" .
      moreover have "rs = (rq_step_id rq, Inr out) # rs1" using "3.prems" new st Inr r by (cases "rq_step_id rq") (auto simp: Let_def)
      ultimately show ?thesis using new ids by (cases "rq_step_id rq") auto
    qed
  qed
qed auto

text \<open>C25. However the requests of the client and the pushes of the previous server are interleaved, a session
  computes each step at most once: no step id gets two responses.\<close>

theorem steps_served_once:
  "distinct (served_ids (fst (serve_requests B merge_max rqs sv)))"
  using served_fresh [OF surjective_pairing] by blast

end
