(* ===== verification/PetalsServing.thy ===== *)
theory PetalsServing
  imports PetalsStep PetalsBackendProps
begin

text \<open>
  The client's session over the servers of the model: a swarm whose servers run \<open>open_serving\<close> and
  \<open>serve_step\<close>, whose routes come from \<open>make_sequence_with_min_latency\<close>, and whose calls may get lost
  on the way to a server or on the way back.
\<close>

section \<open>The swarm\<close>

datatype fault = Fine | Request_lost | Reply_lost

datatype 'k slot = Connected | Running "'k serving"

record ('p, 'a, 'k) swarm =
  sw_slots :: "(nat \<times> 'p \<times> 'k slot) list"
  sw_next :: nat
  sw_faults :: "fault list"
  sw_seq :: "('p, 'a) sequence_info"

text \<open>What does not change: the servers' blocks and limits, the search and the measured times of the client.\<close>

record ('p, 'a, 'h, 'k, 'y) swarm_env =
  se_backend :: "('h, 'k, 'y) backend"
  se_holds :: "'p \<Rightarrow> string \<Rightarrow> bool"
  se_merge_max :: nat
  se_inference_max :: nat
  se_find_path :: "('p, 'a) graph \<Rightarrow> 'p node list result"
  se_rtts :: "('p, 'a) rtts"
  se_uids :: "string list"
  se_max_retries :: "nat option"

text \<open>The fault of the next call; without an entry it works.\<close>

definition next_fault :: "('p, 'a, 'k) swarm \<Rightarrow> fault" where
  "next_fault w = (case sw_faults w of [] \<Rightarrow> Fine | f # _ \<Rightarrow> f)"

definition drop_fault :: "('p, 'a, 'k) swarm \<Rightarrow> ('p, 'a, 'k) swarm" where
  "drop_fault w = w\<lparr>sw_faults := tl (sw_faults w)\<rparr>"

definition swarm_open :: "'p \<Rightarrow> ('p, 'a, 'k) swarm \<Rightarrow> nat result \<times> ('p, 'a, 'k) swarm" where
  "swarm_open p w =
     (if next_fault w \<noteq> Fine then (Inl TimeoutError, drop_fault w)
      else (Inr (sw_next w),
            (drop_fault w)\<lparr>sw_slots := dset (sw_next w) (p, Connected) (sw_slots w), sw_next := sw_next w + 1\<rparr>))"

text \<open>A request that fails at the server ends the session there.\<close>

definition swarm_step ::
  "('p, 'a, 'h, 'k, 'y) swarm_env \<Rightarrow> nat \<Rightarrow> ('h, 'y) request \<Rightarrow> ('p, 'a, 'k) swarm \<Rightarrow> 'h list result \<times> ('p, 'a, 'k) swarm" where
  "swarm_step C sid rq w =
     (let w1 = drop_fault w
      in if next_fault w = Request_lost then (Inl TimeoutError, w1)
      else case dget (sw_slots w) sid of None \<Rightarrow> (Inl RuntimeError, w1) | Some (p, slot) \<Rightarrow>
      case (case slot of
              Connected \<Rightarrow> open_serving (se_backend C) (se_holds C p) (se_inference_max C) True rq
            | Running sv \<Rightarrow> Inr sv) of
        Inl e \<Rightarrow> (Inl e, w1\<lparr>sw_slots := ddel sid (sw_slots w)\<rparr>)
      | Inr sv \<Rightarrow>
          (case serve_step (se_backend C) (se_merge_max C) rq sv of
             (Inl e, _) \<Rightarrow> (Inl e, w1\<lparr>sw_slots := ddel sid (sw_slots w)\<rparr>)
           | (Inr out, sv') \<Rightarrow>
               (if next_fault w = Reply_lost then Inl TimeoutError else Inr out,
                w1\<lparr>sw_slots := dset sid (p, Running sv') (sw_slots w)\<rparr>)))"

definition swarm_close :: "nat \<Rightarrow> bool \<Rightarrow> ('p, 'a, 'k) swarm \<Rightarrow> bool \<times> ('p, 'a, 'k) swarm" where
  "swarm_close sid stepped w =
     (next_fault w = Fine, (drop_fault w)\<lparr>sw_slots := ddel sid (sw_slots w)\<rparr>)"

definition swarm_route ::
  "('p, 'a::linordered_field, 'h, 'k, 'y) swarm_env \<Rightarrow> int \<Rightarrow> int \<Rightarrow> nat \<Rightarrow> ('p, 'a, 'k) swarm
     \<Rightarrow> ('p, 'a) span_info list result \<times> ('p, 'a, 'k) swarm" where
  "swarm_route C a b m w =
     (make_sequence_with_min_latency (se_find_path C) (se_rtts C) (Some (int m)) (sw_seq w) a b, w)"

definition swarm_failure :: "'p option \<Rightarrow> ('p, 'a, 'k) swarm \<Rightarrow> ('p, 'a, 'k) swarm" where
  "swarm_failure peer w =
     (case peer of None \<Rightarrow> w | Some p \<Rightarrow> w\<lparr>sw_seq := fst (on_request_failure p (sw_seq w))\<rparr>)"

definition swarm_net ::
  "('p, 'a::linordered_field, 'h, 'k, 'y) swarm_env \<Rightarrow> (('p, 'a, 'k) swarm, 'p, 'a, 'h, 'y) net" where
  "swarm_net C =
     \<lparr>net_route = swarm_route C, net_open = swarm_open, net_step = swarm_step C, net_close = swarm_close,
      net_failure = swarm_failure, net_success = (\<lambda>p w. w), net_max_retries = se_max_retries C\<rparr>"

section \<open>The contract holds\<close>

definition swarm_run :: "('p, 'a, 'h, 'k, 'y) swarm_env \<Rightarrow> int \<Rightarrow> int \<Rightarrow> 'h list \<Rightarrow> 'h list" where
  "swarm_run C a b hs = whole_blocks (bk_module (se_backend C)) (uids_between (se_uids C) a b) hs"

text \<open>The search returns only paths of the graph.\<close>

definition search_ok :: "('p, 'a, 'h, 'k, 'y) swarm_env \<Rightarrow> bool" where
  "search_ok C \<longleftrightarrow> (\<forall>g nodes. se_find_path C g = Inr nodes \<longrightarrow> is_route g nodes)"

definition swarm_good :: "('p, 'a, 'h, 'k, 'y) swarm_env \<Rightarrow> ('p, 'a, 'k) swarm \<Rightarrow> bool" where
  "swarm_good C w \<longleftrightarrow> backend_ok (se_backend C) \<and> search_ok C \<and> sequence_ok (sw_seq w)
     \<and> sq_block_uids (sw_seq w) = se_uids C \<and> (\<forall>sid. dget (sw_slots w) sid \<noteq> None \<longrightarrow> sid < sw_next w)"

definition swarm_sess :: "('p, 'a, 'h, 'k, 'y) swarm_env \<Rightarrow> nat \<Rightarrow> ('p, 'a, 'k) swarm \<Rightarrow> nat \<Rightarrow> int \<Rightarrow> int \<Rightarrow> 'h list \<Rightarrow> bool" where
  "swarm_sess C maxlen w sid a b hs \<longleftrightarrow>
     (case dget (sw_slots w) sid of
        None \<Rightarrow> False
      | Some (p, Connected) \<Rightarrow> hs = []
      | Some (p, Running sv) \<Rightarrow>
          session_holds (se_backend C) (uids_between (se_uids C) a b) hs sv \<and> sv_max_length sv = maxlen)"

lemma drop_take_split:
  assumes "m \<le> n" and "n \<le> k"
  shows "drop m (take n us) @ drop n (take k us) = drop m (take k us)"
proof -
  have "take k us = take n us @ drop n (take k us)"
    using assms(2) append_take_drop_id [of n "take k us"] by (simp add: min_def)
  then have "drop m (take k us) = drop m (take n us) @ drop (m - length (take n us)) (drop n (take k us))"
    by (metis drop_append)
  moreover have "drop (m - length (take n us)) (drop n (take k us)) = drop n (take k us)"
    using assms(1) by (cases "n \<le> length us") auto
  ultimately show ?thesis by simp
qed

lemma uids_between_split:
  "0 \<le> a \<Longrightarrow> a \<le> b \<Longrightarrow> b \<le> c \<Longrightarrow> uids_between us a b @ uids_between us b c = uids_between us a c"
  unfolding uids_between_def by (intro drop_take_split nat_mono)

lemma uids_between_same [simp]: "uids_between us a a = []"
  by (simp add: uids_between_def)

lemma keeps_same: "(\<And>sid. sid \<notin> X \<Longrightarrow> dget (sw_slots w') sid = dget (sw_slots w) sid) \<Longrightarrow> keeps (swarm_sess C maxlen) X w w'"
  by (auto simp: keeps_def swarm_sess_def)

lemma drop_fault_simps [simp]:
  "sw_slots (drop_fault w) = sw_slots w" "sw_next (drop_fault w) = sw_next w" "sw_seq (drop_fault w) = sw_seq w"
  by (simp_all add: drop_fault_def)

lemma swarm_good_slots:
  assumes "swarm_good C w" and "sw_seq w' = sw_seq w" and "sw_next w \<le> sw_next w'"
    and "\<And>sid. dget (sw_slots w') sid \<noteq> None \<Longrightarrow> dget (sw_slots w) sid \<noteq> None \<or> sid < sw_next w'"
  shows "swarm_good C w'"
  using assms by (auto simp: swarm_good_def) (meson order_less_le_trans)

lemma swarm_good_drop [simp]: "swarm_good C (drop_fault w) = swarm_good C w"
  by (simp add: swarm_good_def)

lemma swarm_sess_known: "swarm_sess C maxlen w sid a b hs \<Longrightarrow> dget (sw_slots w) sid \<noteq> None"
  by (auto simp: swarm_sess_def split: option.splits)

lemma swarm_open_keeps:
  assumes g: "swarm_good C w" and o: "swarm_open p w = (opened, w')"
  shows "swarm_good C w' \<and> keeps (swarm_sess C maxlen) {} w w'"
proof (cases "next_fault w = Fine")
  case False
  then have "w' = drop_fault w" using o by (simp add: swarm_open_def)
  then show ?thesis using g by (auto intro: keeps_same)
next
  case True
  then have w': "w' = (drop_fault w)\<lparr>sw_slots := dset (sw_next w) (p, Connected) (sw_slots w), sw_next := sw_next w + 1\<rparr>"
    using o by (simp add: swarm_open_def)
  have "swarm_good C w'"
    by (rule swarm_good_slots [OF g]) (auto simp: w' dict_simps split: if_splits)
  moreover have "swarm_sess C maxlen w' sid a b hs" if "swarm_sess C maxlen w sid a b hs" for sid a b hs
  proof -
    have "sid < sw_next w" using swarm_sess_known [OF that] g unfolding swarm_good_def by blast
    then have "dget (sw_slots w') sid = dget (sw_slots w) sid" by (simp add: w' dict_simps)
    with that show ?thesis by (simp add: swarm_sess_def)
  qed
  ultimately show ?thesis by (auto simp: keeps_def)
qed

lemma swarm_close_keeps:
  assumes g: "swarm_good C w" and c: "swarm_close sid stepped w = (ok, w')"
  shows "swarm_good C w' \<and> keeps (swarm_sess C maxlen) {sid} w w'"
proof -
  have w': "sw_slots w' = ddel sid (sw_slots w)" "sw_seq w' = sw_seq w" "sw_next w' = sw_next w"
    using c by (auto simp: swarm_close_def)
  have "swarm_good C w'"
    by (rule swarm_good_slots [OF g]) (auto simp: w' dict_simps split: if_splits)
  moreover have "keeps (swarm_sess C maxlen) {sid} w w'" by (rule keeps_same) (simp add: w' dict_simps)
  ultimately show ?thesis by blast
qed

text \<open>What a call to a server can do to the slots of the servers.\<close>

lemma swarm_step_cases:
  assumes "swarm_step C sid rq w = (reply, w')"
  shows "sw_seq w' = sw_seq w \<and> sw_next w' = sw_next w \<and> (\<forall>i. i \<noteq> sid \<longrightarrow> dget (sw_slots w') i = dget (sw_slots w) i)
    \<and> (dget (sw_slots w) sid = None \<longrightarrow> dget (sw_slots w') sid = None)
    \<and> (\<forall>out. reply = Inr out \<longrightarrow> (\<exists>p slot sv sv'. dget (sw_slots w) sid = Some (p, slot)
        \<and> (case slot of Connected \<Rightarrow> open_serving (se_backend C) (se_holds C p) (se_inference_max C) True rq
             | Running sv \<Rightarrow> Inr sv) = Inr sv
        \<and> serve_step (se_backend C) (se_merge_max C) rq sv = (Inr out, sv')
        \<and> dget (sw_slots w') sid = Some (p, Running sv')))"
  using assms unfolding swarm_step_def Let_def
  by (auto simp: dict_simps split: if_splits option.splits prod.splits sum.splits)

lemma open_serving_holds:
  assumes "backend_ok B" and "open_serving B serves imax al rq = Inr sv" and "rq_max_length rq \<in> {None, Some maxlen}"
  shows "session_holds B (rq_uids rq) [] sv \<and> sv_max_length sv = maxlen"
  using assms caches_hold_new [where mods = "bk_module B" and cap = maxlen and z = "bk_zero B" and us = "rq_uids rq"]
  by (auto simp: open_serving_def session_holds_def backend_ok_def split: if_splits option.splits)

lemma route_of_search:
  assumes "sequence_ok sq" and "a < b" and "make_sequence_with_min_latency find_path rt needed sq a b = Inr spans"
    and "\<forall>g nodes. find_path g = Inr nodes \<longrightarrow> is_route g nodes"
  shows "linked a b spans \<and> (\<forall>s \<in> set spans. sp_start s < sp_end s \<and> served sq s)"
proof -
  from assms(2,3) obtain g nodes where "build_inference_graph rt needed sq a b = Inr g" "find_path g = Inr nodes"
    by (auto simp: make_sequence_with_min_latency_def rbind_Inr_iff split: if_splits)
  with min_latency_route_aux [where g = g and nodes = nodes and find_path = find_path, OF assms(1,2) this(1,2)] assms(3,4)
  show ?thesis by auto
qed

lemma swarm_step_continues:
  assumes g: "swarm_good C w" and s: "swarm_sess C maxlen w sid a b hs"
    and rq: "rq_uids rq = uids_between (se_uids C) a b" "rq_max_length rq \<in> {None, Some maxlen}"
      "rq_position rq = Some k" "k \<le> length hs" "0 < rq_batch rq" "rq_prompts rq = None" "rq_hypo rq = None"
    and st: "swarm_step C sid rq w = (Inr out, w')"
  shows "swarm_sess C maxlen w' sid a b (take k hs @ rq_inputs rq) \<and> out = drop k (swarm_run C a b (take k hs @ rq_inputs rq))"
proof -
  have B: "backend_ok (se_backend C)" using g by (simp add: swarm_good_def)
  from swarm_step_cases [OF st] obtain p slot sv sv' where sl: "dget (sw_slots w) sid = Some (p, slot)"
    and op: "(case slot of Connected \<Rightarrow> open_serving (se_backend C) (se_holds C p) (se_inference_max C) True rq
             | Running sv \<Rightarrow> Inr sv) = Inr sv"
    and sv: "serve_step (se_backend C) (se_merge_max C) rq sv = (Inr out, sv')"
    and sl': "dget (sw_slots w') sid = Some (p, Running sv')" by blast
  have h: "session_holds (se_backend C) (uids_between (se_uids C) a b) hs sv" "sv_max_length sv = maxlen"
    using s sl op open_serving_holds [OF B _ rq(2), of "se_holds C p" "se_inference_max C" True sv] rq(1)
    by (auto simp: swarm_sess_def split: slot.splits)
  have fits: "k + length (rq_inputs rq) \<le> sv_max_length sv"
    using serve_step_refuses [of sv k rq, OF _ rq(3,6)] sv by (metis fst_conv not_le sum.distinct(1))
  from serve_step_continue [OF B h(1) rq(4,3,5,6,7) fits, of "se_merge_max C"] sv
  have "out = drop k (whole_blocks (bk_module (se_backend C)) (uids_between (se_uids C) a b) (take k hs @ rq_inputs rq))"
    "session_holds (se_backend C) (uids_between (se_uids C) a b) (take k hs @ rq_inputs rq) sv'"
    "sv_max_length sv' = maxlen" using h(2) by auto
  with sl' show ?thesis by (simp add: swarm_sess_def swarm_run_def)
qed

lemma swarm_step_keeps:
  assumes g: "swarm_good C w" and st: "swarm_step C sid rq w = (reply, w')"
  shows "swarm_good C w' \<and> keeps (swarm_sess C maxlen) {sid} w w'"
proof -
  note s = swarm_step_cases [OF st]
  have "swarm_good C w'"
  proof (rule swarm_good_slots [OF g])
    fix i assume "dget (sw_slots w') i \<noteq> None"
    then show "dget (sw_slots w) i \<noteq> None \<or> i < sw_next w'" using s by (metis (no_types))
  qed (use s in auto)
  moreover have "keeps (swarm_sess C maxlen) {sid} w w'" by (rule keeps_same) (use s in auto)
  ultimately show ?thesis by blast
qed

interpretation swarm: block_sessions "swarm_net C" "se_uids C" maxlen "swarm_run C" "swarm_good C" "swarm_sess C maxlen"
  for C :: "('p, 'a::linordered_field, 'h, 'k, 'y) swarm_env" and maxlen :: nat
proof (unfold_locales, goal_cases)
  case (1 w a b hs)
  then show ?case by (simp add: swarm_run_def whole_blocks_length swarm_good_def backend_ok_def)
next
  case (2 w k a b hs)
  then show ?case by (simp add: swarm_run_def whole_blocks_take swarm_good_def backend_ok_def)
next
  case (3 w a b c hs)
  then show ?case by (simp add: swarm_run_def flip: whole_blocks_append uids_between_split [of a b c])
next
  case (4 a hs)
  then show ?case by (simp add: swarm_run_def)
next
  case (5 w a b m routed w')
  then show ?case by (auto simp: swarm_net_def swarm_route_def)
next
  case (6 w a b m spans w')
  then have m: "make_sequence_with_min_latency (se_find_path C) (se_rtts C) (Some (int m)) (sw_seq w) a b = Inr spans"
    unfolding swarm_net_def swarm_route_def by auto
  show ?case using route_of_search [OF _ \<open>a < b\<close> m] 6(1) by (auto simp: swarm_good_def search_ok_def)
next
  case (7 w p opened w')
  then show ?case using swarm_open_keeps [of C w p opened w' maxlen] by (simp add: swarm_net_def)
next
  case (8 w p sid w' a b hs)
  then show ?case by (auto simp: swarm_net_def swarm_open_def swarm_sess_def swarm_good_def dict_simps split: if_splits option.splits)
next
  case (9 w sid rq reply w')
  then show ?case using swarm_step_keeps [of C w sid rq reply w' maxlen] by (simp add: swarm_net_def)
next
  case (10 w sid a b hs rq k out w')
  then show ?case using swarm_step_continues [of C w maxlen sid a b hs rq k out w'] by (simp add: swarm_net_def)
next
  case (11 w sid stepped ok w')
  then show ?case using swarm_close_keeps [of C w sid stepped ok w' maxlen] by (simp add: swarm_net_def)
next
  case (12 w peer)
  then show ?case
    by (auto simp: swarm_net_def swarm_failure_def swarm_good_def on_request_failure_def sequence_ok_def Let_def
      intro!: keeps_same split: option.splits)
next
  case (13 w p)
  then show ?case by (simp add: swarm_net_def)
qed

section \<open>A swarm that works\<close>

text \<open>
  No call gets lost from now on, the search finds a path whenever there is one, every block has a
  server, the servers hold what the index says of them and allow sessions of the length asked, and
  none of them announces the inference rate 0: the client divides by that rate
  (sequence\_manager.py:276), although the announcement may hold it, and then every route it looks
  for raises (\<open>zero_rate_stops_routing\<close> in \<open>PetalsExamples\<close>).
\<close>

definition search_finds ::
  "('p, 'a::linordered_field, 'h, 'k, 'y) swarm_env \<Rightarrow> nat \<Rightarrow> ('p, 'a) sequence_info \<Rightarrow> bool" where
  "search_finds C maxlen sq \<longleftrightarrow>
     (\<forall>a b g nodes. 0 \<le> a \<and> a < b \<and> b \<le> int (length (se_uids C))
        \<and> build_inference_graph (se_rtts C) (Some (int maxlen)) sq a b = Inr g \<and> is_route g nodes
        \<longrightarrow> (\<exists>found. se_find_path C g = Inr found))"

definition swarm_reach :: "('p, 'a, 'h, 'k, 'y) swarm_env \<Rightarrow> 'p \<Rightarrow> int \<Rightarrow> int \<Rightarrow> bool" where
  "swarm_reach C p a b \<longleftrightarrow> (\<forall>u \<in> set (uids_between (se_uids C) a b). se_holds C p u)"

definition rates_nonzero :: "('p, 'a::linordered_field) sequence_info \<Rightarrow> bool" where
  "rates_nonzero sq \<longleftrightarrow> (\<forall>s \<in> set (sq_by_priority sq). sx_inference_rps (si_extra (sp_info s)) \<noteq> Some 0)"

definition index_true ::
  "('p, 'a::linordered_field, 'h, 'k, 'y) swarm_env \<Rightarrow> ('p, 'a) sequence_info \<Rightarrow> bool" where
  "index_true C sq \<longleftrightarrow> (\<forall>s \<in> set (sq_by_priority sq). \<forall>j.
     0 \<le> j \<and> j < int (length (se_uids C)) \<and> holds_block j s \<longrightarrow> se_holds C (sp_peer s) (se_uids C ! nat j))"

definition swarm_up ::
  "('p, 'a::linordered_field, 'h, 'k, 'y) swarm_env \<Rightarrow> nat \<Rightarrow> ('p, 'a, 'k) swarm \<Rightarrow> bool" where
  "swarm_up C maxlen w \<longleftrightarrow> swarm_good C w \<and> sw_faults w = [] \<and> search_finds C maxlen (sw_seq w) \<and> maxlen \<le> se_inference_max C
     \<and> missing_blocks (sw_seq w) 0 (int (length (se_uids C))) = []
     \<and> rates_nonzero (sw_seq w) \<and> index_true C (sw_seq w)"

definition swarm_can ::
  "('p, 'a, 'h, 'k, 'y) swarm_env \<Rightarrow> ('p, 'a, 'k) swarm \<Rightarrow> nat \<Rightarrow> bool \<Rightarrow> int \<Rightarrow> int \<Rightarrow> bool" where
  "swarm_can C w sid stepped a b \<longleftrightarrow>
     (case dget (sw_slots w) sid of
        None \<Rightarrow> False
      | Some (p, Connected) \<Rightarrow> \<not> stepped \<and> swarm_reach C p a b
      | Some (p, Running sv) \<Rightarrow> True)"

lemma uids_between_nth:
  assumes "u \<in> set (uids_between us a b)"
  shows "\<exists>j. max 0 a \<le> j \<and> j < b \<and> j < int (length us) \<and> u = us ! nat j"
proof -
  obtain i where i: "i < length (uids_between us a b)" "u = uids_between us a b ! i" using assms by (metis in_set_conv_nth)
  then have l: "nat a + i < nat b" "nat a + i < length us" by (auto simp: uids_between_def)
  then have "u = us ! (nat a + i)" using i by (simp add: uids_between_def)
  with l show ?thesis by (intro exI [of _ "int (nat a + i)"]) (auto simp: nat_add_distrib)
qed

lemma swarm_no_fault: "sw_faults w = [] \<Longrightarrow> next_fault w = Fine \<and> drop_fault w = w"
  by (simp add: next_fault_def drop_fault_def)

text \<open>A span of the index is on a server that holds its blocks, when the index is right about the servers.\<close>

lemma served_uids:
  assumes "\<forall>h \<in> set (sq_by_priority sq). \<forall>j. 0 \<le> j \<and> j < int (length us) \<and> holds_block j h \<longrightarrow> holds (sp_peer h) (us ! nat j)"
    and "served sq s"
  shows "\<forall>u \<in> set (uids_between us (sp_start s) (sp_end s)). holds (sp_peer s) u"
proof
  fix u assume "u \<in> set (uids_between us (sp_start s) (sp_end s))"
  then obtain j where j: "max 0 (sp_start s) \<le> j" "j < sp_end s" "j < int (length us)" "u = us ! nat j"
    using uids_between_nth by metis
  then obtain h where "h \<in> set (sq_by_priority sq)" "sp_peer h = sp_peer s" "holds_block j h"
    using assms(2) by (auto simp: served_def)
  with assms(1) j show "holds (sp_peer s) u" by auto
qed

lemma missing_blocks_part:
  "missing_blocks sq 0 n = [] \<Longrightarrow> 0 \<le> a \<Longrightarrow> b \<le> n \<Longrightarrow> missing_blocks sq a b = []"
  by (auto simp: missing_blocks_iff)

lemma swarm_route_up:
  assumes up: "swarm_up C maxlen w" and ab: "0 \<le> a" "a < b" "b \<le> int (length (se_uids C))"
  shows "\<exists>spans. make_sequence_with_min_latency (se_find_path C) (se_rtts C) (Some (int maxlen)) (sw_seq w) a b = Inr spans
    \<and> (\<forall>s \<in> set spans. swarm_reach C (sp_peer s) (sp_start s) (sp_end s))"
proof -
  have seq: "sequence_ok (sw_seq w)" and so: "search_ok C" and sf: "search_finds C maxlen (sw_seq w)"
    and mb: "missing_blocks (sw_seq w) a b = []"
    using up missing_blocks_part [OF _ ab(1,3)] by (auto simp: swarm_up_def swarm_good_def)
  obtain g nodes where g: "build_inference_graph (se_rtts C) (Some (int maxlen)) (sw_seq w) a b = Inr g" "is_route g nodes"
    using route_exists_aux [OF seq ab(2) mb, of "se_rtts C" "Some (int maxlen)"] up by (auto simp: swarm_up_def rates_nonzero_def)
  then obtain found where f: "se_find_path C g = Inr found" "is_route g found"
    using sf so ab unfolding search_finds_def search_ok_def by blast
  from min_latency_route_aux [where find_path = "se_find_path C" and nodes = found, OF seq ab(2) g(1) f]
  obtain spans where sp: "make_sequence_with_min_latency (se_find_path C) (se_rtts C) (Some (int maxlen)) (sw_seq w) a b = Inr spans"
    "linked a b spans" "\<forall>s \<in> set spans. sp_start s < sp_end s \<and> served (sw_seq w) s" by auto
  have "swarm_reach C (sp_peer s) (sp_start s) (sp_end s)" if "s \<in> set spans" for s
    unfolding swarm_reach_def
    by (rule served_uids [of "sw_seq w" _ "se_holds C"]) (use up sp(3) that in \<open>auto simp: swarm_up_def index_true_def\<close>)
  with sp(1) show ?thesis by blast
qed

lemma swarm_up_slots:
  "swarm_up C maxlen w \<Longrightarrow> swarm_good C w' \<Longrightarrow> sw_seq w' = sw_seq w \<Longrightarrow> sw_faults w' = [] \<Longrightarrow> swarm_up C maxlen w'"
  by (simp add: swarm_up_def)

lemma swarm_open_up:
  assumes "swarm_up C maxlen w"
  shows "\<exists>sid w'. swarm_open p w = (Inr sid, w') \<and> swarm_up C maxlen w'
    \<and> (\<forall>i f a b. swarm_can C w i f a b \<longrightarrow> swarm_can C w' i f a b)
    \<and> (\<forall>a b. swarm_reach C p a b \<longrightarrow> swarm_can C w' sid False a b)"
proof -
  let ?w = "w\<lparr>sw_slots := dset (sw_next w) (p, Connected) (sw_slots w), sw_next := sw_next w + 1\<rparr>"
  have f: "next_fault w = Fine" "drop_fault w = w" using assms swarm_no_fault by (auto simp: swarm_up_def)
  then have o: "swarm_open p w = (Inr (sw_next w), ?w)" by (simp add: swarm_open_def)
  have g: "swarm_good C w" "sw_faults w = []" using assms by (auto simp: swarm_up_def)
  have "swarm_up C maxlen ?w" by (rule swarm_up_slots [OF assms]) (use swarm_open_keeps [OF g(1) o] g(2) in auto)
  moreover have "swarm_can C ?w i s a b" if "swarm_can C w i s a b" for i s a b
  proof -
    have "dget (sw_slots w) i \<noteq> None" using that by (auto simp: swarm_can_def split: option.splits)
    then have "i < sw_next w" using g(1) unfolding swarm_good_def by blast
    then have "dget (sw_slots ?w) i = dget (sw_slots w) i" by (simp add: dict_simps)
    with that show ?thesis by (simp add: swarm_can_def swarm_reach_def)
  qed
  ultimately show ?thesis using o by (auto simp: swarm_can_def swarm_reach_def dict_simps)
qed

lemma swarm_step_up:
  assumes up: "swarm_up C maxlen w" and s: "swarm_sess C maxlen w sid a b hs" and can: "swarm_can C w sid f a b"
    and rq: "rq_uids rq = uids_between (se_uids C) a b" "rq_max_length rq = (if f then None else Some maxlen)"
      "rq_position rq = Some k" "k \<le> length hs" "k + length (rq_inputs rq) \<le> maxlen" "0 < rq_batch rq"
      "rq_prompts rq = None" "rq_hypo rq = None"
  shows "\<exists>out w'. swarm_step C sid rq w = (Inr out, w') \<and> swarm_up C maxlen w' \<and> swarm_can C w' sid True a b
    \<and> (\<forall>i f a b. i \<noteq> sid \<longrightarrow> swarm_can C w i f a b \<longrightarrow> swarm_can C w' i f a b)"
proof -
  have g: "swarm_good C w" "sw_faults w = []" and B: "backend_ok (se_backend C)"
    using up by (auto simp: swarm_up_def swarm_good_def)
  have fl: "next_fault w = Fine" "drop_fault w = w" using swarm_no_fault [OF g(2)] by auto
  obtain p slot where sl: "dget (sw_slots w) sid = Some (p, slot)" using swarm_sess_known [OF s] by auto
  have "\<exists>sv. (case slot of Connected \<Rightarrow> open_serving (se_backend C) (se_holds C p) (se_inference_max C) True rq
      | Running sv \<Rightarrow> Inr sv) = Inr sv"
    using can sl rq(1,2) up
    by (auto simp: swarm_can_def swarm_reach_def open_serving_def swarm_up_def list_ex_iff split: slot.splits)
  then obtain sv where sv: "(case slot of Connected \<Rightarrow> open_serving (se_backend C) (se_holds C p) (se_inference_max C) True rq
      | Running sv \<Rightarrow> Inr sv) = Inr sv" by blast
  have ml: "rq_max_length rq \<in> {None, Some maxlen}" using rq(2) by simp
  have h: "session_holds (se_backend C) (uids_between (se_uids C) a b) hs sv" "sv_max_length sv = maxlen"
    using s sl sv open_serving_holds [OF B _ ml, of "se_holds C p" "se_inference_max C" True sv] rq(1)
    by (auto simp: swarm_sess_def split: slot.splits)
  from serve_step_continue [OF B h(1) rq(4,3,6,7,8), of "se_merge_max C"] rq(5) h(2)
  obtain out sv' where st: "serve_step (se_backend C) (se_merge_max C) rq sv = (Inr out, sv')" by auto
  let ?w = "w\<lparr>sw_slots := dset sid (p, Running sv') (sw_slots w)\<rparr>"
  have r: "swarm_step C sid rq w = (Inr out, ?w)"
    using sl sv st fl by (simp add: swarm_step_def)
  have "swarm_up C maxlen ?w" by (rule swarm_up_slots [OF up]) (use swarm_step_keeps [OF g(1) r] g(2) in auto)
  moreover have "swarm_can C ?w i f a b" if "i \<noteq> sid" "swarm_can C w i f a b" for i f a b
    using that by (simp add: swarm_can_def swarm_reach_def dict_simps)
  ultimately show ?thesis using r by (auto simp: swarm_can_def dict_simps)
qed

interpretation swarm_works: block_sessions_up "swarm_net C" "se_uids C" maxlen "swarm_run C" "swarm_good C"
    "swarm_sess C maxlen" "swarm_up C maxlen" "\<lambda>w. swarm_reach C" "swarm_can C"
  for C :: "('p, 'a::linordered_field, 'h, 'k, 'y) swarm_env" and maxlen :: nat
proof (unfold_locales, goal_cases)
  case (1 w)
  then show ?case by (simp add: swarm_up_def)
next
  case (2 w a b)
  from swarm_route_up [OF this] show ?case using 2(1) by (auto simp: swarm_net_def swarm_route_def)
next
  case (3 w p)
  from swarm_open_up [OF this, of p] show ?case by (simp add: swarm_net_def)
next
  case (4 w sid a b hs f rq k)
  from swarm_step_up [OF 4(1,2,6,7,8,9,10,11,12,13,14)] show ?case by (simp add: swarm_net_def)
next
  case (5 w p)
  then show ?case by (simp add: swarm_net_def)
qed

section \<open>What a session computes\<close>

text \<open>The steps of a session with their outputs, up to the first that raises.\<close>

fun session_steps ::
  "('w, 'p, 'a, 'h, 'y) net \<Rightarrow> nat \<Rightarrow> nat \<Rightarrow> 'h list list \<Rightarrow> ('p, 'a, 'h) client_session \<Rightarrow> 'w
     \<Rightarrow> ('h list list result \<times> ('p, 'a, 'h) client_session \<times> 'w) option" where
  "session_steps N batch i [] cs w = Some (Inr [], cs, w)"
| "session_steps N batch i (inp # inps) cs w =
     (case session_step N batch None None i inp cs w of
        None \<Rightarrow> None
      | Some (Inl e, cs1, w1) \<Rightarrow> Some (Inl e, cs1, w1)
      | Some (Inr out, cs1, w1) \<Rightarrow>
          (case session_steps N batch (i + 1) inps cs1 w1 of
             None \<Rightarrow> None
           | Some (res, cs2, w2) \<Rightarrow> Some (rbind res (\<lambda>outs. Inr (out # outs)), cs2, w2)))"

lemma steps_partial:
  fixes C :: "('p, 'a::linordered_field, 'h, 'k, 'y) swarm_env"
  assumes "se_uids C \<noteq> []" and "0 < batch"
  shows "swarm.session_ok TYPE('y) C maxlen H cs w \<Longrightarrow> session_steps (swarm_net C) batch i inps cs w = Some (Inr outs, cs', w')
    \<Longrightarrow> concat outs = drop (length H) (swarm_run C 0 (int (length (se_uids C))) (H @ concat inps))"
proof (induction inps arbitrary: H i cs w outs)
  case Nil
  have "swarm_good C w" using Nil.prems(1) by (simp add: swarm.session_ok_def)
  with Nil.prems(2) show ?case using swarm.run_length [of C w] by simp
next
  case (Cons inp inps)
  from Cons.prems(2) obtain out outs1 cs1 w1 where s: "session_step (swarm_net C) batch None None i inp cs w = Some (Inr out, cs1, w1)"
    and r: "session_steps (swarm_net C) batch (i + 1) inps cs1 w1 = Some (Inr outs1, cs', w')" "outs = out # outs1"
    by (auto simp: rbind_Inr_iff split: option.splits sum.splits prod.splits)
  have g: "swarm_good C w" using Cons.prems(1) by (simp add: swarm.session_ok_def)
  let ?R = "swarm_run C 0 (int (length (se_uids C)))"
  from swarm.step_partial [OF Cons.prems(1) assms s]
  have o: "out = drop (length H) (?R (H @ inp))" and ok: "swarm.session_ok TYPE('y) C maxlen (H @ inp) cs1 w1" by auto
  have "concat outs1 = drop (length (H @ inp)) (?R ((H @ inp) @ concat inps))" by (rule Cons.IH [OF ok r(1)])
  moreover have "?R (H @ inp) = take (length (H @ inp)) (?R ((H @ inp) @ concat inps))"
    using swarm.run_take [OF g, of "length (H @ inp)"] by simp
  ultimately show ?case
    using o r(2) by (simp flip: append_assoc) (metis append_assoc append_take_drop_id drop_append drop_drop length_append
      add.commute take_drop drop_take add_diff_cancel_left')
qed

text \<open>C3. The inference session is the model. Whatever calls fail on the way, and whatever servers are replaced, if
  the steps of a session return outputs, these are the outputs of all blocks, in order, on the whole
  sequence of inputs: routing, retries, histories, positions and attention caches do not show.\<close>

theorem session_computes_model:
  assumes "swarm_good C w" and "se_uids C \<noteq> []" and "0 < batch"
    and "session_steps (swarm_net C) batch 0 inps (new_client_session (se_uids C) maxlen) w = Some (Inr outs, cs', w')"
  shows "concat outs = swarm_run C 0 (int (length (se_uids C))) (concat inps)"
  using steps_partial [OF assms(2,3) swarm.session_ok_new [OF assms(1)] assms(4)] by simp

lemma steps_return:
  fixes C :: "('p, 'a::linordered_field, 'h, 'k, 'y) swarm_env"
  assumes "se_uids C \<noteq> []" and "0 < batch"
  shows "swarm.session_ok TYPE('y) C maxlen H cs w \<Longrightarrow> swarm_up C maxlen w \<Longrightarrow> \<forall>s \<in> set (cs_sessions cs). swarm_works.able TYPE('y) C w s
    \<Longrightarrow> length H + length (concat inps) \<le> maxlen
    \<Longrightarrow> \<exists>outs cs' w'. session_steps (swarm_net C) batch i inps cs w = Some (Inr outs, cs', w')"
proof (induction inps arbitrary: H i cs w)
  case (Cons inp inps)
  have "length H + length inp \<le> maxlen" using Cons.prems(4) by simp
  from swarm_works.step_returns [OF Cons.prems(1,2,3) assms this, of i]
  obtain out cs1 w1 where s: "session_step (swarm_net C) batch None None i inp cs w = Some (Inr out, cs1, w1)"
    "swarm_up C maxlen w1" "\<forall>s \<in> set (cs_sessions cs1). swarm_works.able TYPE('y) C w1 s" by blast
  have "swarm.session_ok TYPE('y) C maxlen (H @ inp) cs1 w1" using swarm.step_partial [OF Cons.prems(1) assms s(1)] by blast
  from Cons.IH [OF this s(2,3), of "i + 1"] Cons.prems(4) s(1) show ?case by auto
qed simp

text \<open>C4. Every step of a session returns outputs as long as the tokens fit into the length that was
  allocated, under these conditions: every block has a server in the client's index, the index is
  right about what the servers hold, no server in it announces the inference rate 0, the search finds
  a path when there is one, no call gets lost, and the length is within the servers' limit.\<close>

theorem session_returns:
  assumes good: "swarm_good C w" and calls: "sw_faults w = []"
    and served: "missing_blocks (sw_seq w) 0 (int (length (se_uids C))) = []" and holds: "index_true C (sw_seq w)"
    and rates: "rates_nonzero (sw_seq w)" and search: "search_finds C maxlen (sw_seq w)"
    and limit: "maxlen \<le> se_inference_max C"
    and "se_uids C \<noteq> []" and "0 < batch" and "length (concat inps) \<le> maxlen"
  shows "\<exists>outs cs' w'. session_steps (swarm_net C) batch 0 inps (new_client_session (se_uids C) maxlen) w = Some (Inr outs, cs', w')"
proof -
  have "swarm_up C maxlen w" using assms by (simp add: swarm_up_def)
  from steps_return [OF assms(8,9) swarm.session_ok_new [OF good] this] assms(10)
  show ?thesis by (simp add: new_client_session_def)
qed

end
