(* ===== verification/PetalsExamples.thy ===== *)
theory PetalsExamples
  imports PetalsProps Complex_Main
begin

text \<open>
  A concrete swarm of four blocks and two servers on which the theorems on spans and routes are
  applied, and runs that show surprising behaviour.
\<close>

definition px_info :: "server_state \<Rightarrow> (int \<times> int) option \<Rightarrow> (nat, rat) server_info" where
  "px_info st rng = \<lparr>si_state = st, si_throughput = 1,
     si_extra = no_extra\<lparr>sx_start_block := map_option fst rng, sx_end_block := map_option snd rng\<rparr>\<rparr>"

definition px_uids :: "string list" where
  "px_uids = [''m.0'', ''m.1'', ''m.2'', ''m.3'']"

text \<open>Server 1 announces blocks 0 to 3; server 2 announces no range and is seen at blocks 2 and 3.\<close>

definition px_found :: "(nat, rat) module_info list" where
  "px_found =
     [\<lparr>mi_uid = ''m.0'', mi_servers = [(1, px_info S_ONLINE (Some (0, 3)))]\<rparr>,
      \<lparr>mi_uid = ''m.1'', mi_servers = [(1, px_info S_ONLINE (Some (0, 3)))]\<rparr>,
      \<lparr>mi_uid = ''m.2'', mi_servers = [(2, px_info S_ONLINE None), (1, px_info S_ONLINE (Some (0, 3)))]\<rparr>,
      \<lparr>mi_uid = ''m.3'', mi_servers = [(2, px_info S_ONLINE None), (3, px_info S_JOINING None)]\<rparr>]"

definition px_cfg :: "(nat, rat) client_config" where
  "px_cfg = \<lparr>cc_allowed = None, cc_blocked = Some [7], cc_max_pinged = 3, cc_min_backoff = 1, cc_max_backoff = 60\<rparr>"

definition px_update :: "((nat, rat) sequence_info \<times> nat list) result" where
  "px_update = manager_update (\<lambda>p. False) (\<lambda>ps n. take n ps) px_cfg 1 px_found (make_empty px_uids)"

definition px_sq :: "(nat, rat) sequence_info" where
  "px_sq = (case px_update of Inr (sq, _) \<Rightarrow> sq | Inl _ \<Rightarrow> make_empty [])"

lemma update_makes_index_witness:
  "\<exists>sq' pinged. px_update = Inr (sq', pinged) \<and> sequence_ok sq'
     \<and> map (\<lambda>s. (sp_peer s, sp_start s, sp_end s)) (sq_by_priority sq') = [(1, 0, 3), (2, 2, 4)]"
proof -
  have "length (sq_block_infos (make_empty px_uids :: (nat, rat) sequence_info)) = length (sq_block_uids (make_empty px_uids :: (nat, rat) sequence_info))"
    "map mi_uid (sq_block_infos (make_empty px_uids :: (nat, rat) sequence_info)) = sq_block_uids (make_empty px_uids :: (nat, rat) sequence_info)"
    "sq_block_uids (make_empty px_uids :: (nat, rat) sequence_info) \<noteq> []"
    "map mi_uid px_found = sq_block_uids (make_empty px_uids :: (nat, rat) sequence_info)"
    "parse_uid (hd (sq_block_uids (make_empty px_uids :: (nat, rat) sequence_info))) = Inr (''m'', 0)"
    by code_simp+
  from update_makes_index [OF this, of "\<lambda>p. False" "\<lambda>ps n. take n ps" px_cfg 1]
  obtain sq' pinged where u: "px_update = Inr (sq', pinged)" "sequence_ok sq'" by (auto simp: px_update_def)
  have sq: "px_sq = sq'" unfolding px_sq_def u(1) by simp
  have "map (\<lambda>s. (sp_peer s, sp_start s, sp_end s)) (sq_by_priority px_sq) = [(1, 0, 3), (2, 2, 4)]" by code_simp
  then show ?thesis unfolding sq using u by (intro exI [of _ sq'] exI [of _ pinged]) simp
qed

lemma px_sq_ok: "sequence_ok px_sq"
  by code_simp

definition px_route :: "nat node list" where
  "px_route = [StartNode, At 1 0, At 1 1, At 1 2, At 1 3, At 2 3, At 2 4, EndNode]"

definition px_graph :: "(nat, rat) graph" where
  "px_graph = (case build_inference_graph [(1, Finite (1 / 10)), (2, Infinite)] (Some 16) px_sq 0 4 of Inr g \<Rightarrow> g | Inl _ \<Rightarrow> [])"

lemma px_graph_built: "build_inference_graph [(1, Finite (1 / 10)), (2, Infinite)] (Some 16) px_sq 0 4 = Inr px_graph"
proof -
  have "missing_blocks px_sq 0 4 = []" by code_simp
  moreover have "\<not> list_ex (\<lambda>s. max (sp_start s) 0 < min (sp_end s) 4 \<and> rate_of s = 0) (sq_by_priority px_sq)"
    by code_simp
  ultimately show ?thesis by (simp add: px_graph_def build_inference_graph_def compute_edges_def)
qed

lemma min_latency_route_witness:
  "\<exists>spans. make_sequence_with_min_latency (\<lambda>_. Inr px_route) [(1, Finite (1 / 10)), (2, Infinite)] (Some 16) px_sq 0 4
      = Inr spans \<and> map (\<lambda>s. (sp_peer s, sp_start s, sp_end s)) spans = [(1, 0, 3), (2, 3, 4)] \<and> linked 0 4 spans"
proof -
  have "is_route px_graph px_route" unfolding is_route_def edges_def by code_simp
  from min_latency_route [OF px_sq_ok _ px_graph_built _ this, of "\<lambda>_. Inr px_route"]
  obtain spans where s: "make_sequence_with_min_latency (\<lambda>_. Inr px_route) [(1, Finite (1 / 10)), (2, Infinite)] (Some 16)
      px_sq 0 4 = Inr spans" "linked 0 4 spans" by auto
  have "(case make_sequence_with_min_latency (\<lambda>_. Inr px_route) [(1, Finite (1 / 10)), (2, Infinite)] (Some 16) px_sq 0 4 of
      Inr spans \<Rightarrow> map (\<lambda>s. (sp_peer s, sp_start s, sp_end s)) spans | Inl _ \<Rightarrow> []) = [(1, 0, 3), (2, 3, 4)]" by code_simp
  with s show ?thesis by auto
qed

lemma route_exists_witness:
  "\<exists>g nodes. build_inference_graph ([] :: (nat, rat) rtts) None px_sq 0 4 = Inr g \<and> is_route g nodes"
proof -
  have "missing_blocks px_sq 0 4 = []" by code_simp
  moreover have "\<forall>s \<in> set (sq_by_priority px_sq). sx_inference_rps (si_extra (sp_info s)) \<noteq> Some 0" by code_simp
  ultimately have "\<exists>g nodes. build_inference_graph ([] :: (nat, rat) rtts) None px_sq 0 4 = Inr g \<and> is_route g nodes"
    by (intro route_exists [OF px_sq_ok]) simp_all
  then show ?thesis by simp
qed

lemma max_throughput_route_witness:
  "\<exists>spans e. make_sequence_with_max_throughput (\<lambda>i cands ws. hd cands) ([] :: (nat, rat) rtts) px_sq 0 3 = Inr spans
     \<and> linked 0 e spans \<and> 3 \<le> e"
proof -
  have "picks_candidate (\<lambda>i cands ws. hd cands)" by (simp add: picks_candidate_def)
  moreover have "missing_blocks px_sq 0 3 = []" by code_simp
  ultimately show ?thesis using max_throughput_route [OF px_sq_ok] by (metis zero_less_numeral)
qed

section \<open>Surprises\<close>

text \<open>
  A server that announces no range and holds blocks 0 and 2 only is taken to hold block 1, too: the
  span that first covers block 0 is stretched to block 2.
\<close>

lemma gap_is_filled:
  "map_sum id (map (\<lambda>(p, s). (p, sp_start s, sp_end s)))
     (compute_spans
        [\<lparr>mi_uid = ''m.0'', mi_servers = [(1 :: nat, px_info S_ONLINE None)]\<rparr>,
         \<lparr>mi_uid = ''m.1'', mi_servers = []\<rparr>,
         \<lparr>mi_uid = ''m.2'', mi_servers = [(1, px_info S_ONLINE None)]\<rparr>] S_ONLINE)
   = Inr [(1, 0, 3)]"
  by code_simp

text \<open>
  The validator lets a server announce the inference rate 0, and one such server, although another
  server holds every block, stops every client that needs one of its blocks.
\<close>

lemma zero_rate_stops_routing:
  "valid_info ((px_info S_ONLINE None)\<lparr>si_extra := no_extra\<lparr>sx_inference_rps := Some 0\<rparr>\<rparr>)"
  "(case manager_update (\<lambda>p. False) (\<lambda>ps n. take n ps) px_cfg (1 :: rat)
      [\<lparr>mi_uid = ''m.0'', mi_servers = [(1 :: nat, px_info S_ONLINE (Some (0, 1))),
          (2, (px_info S_ONLINE None)\<lparr>si_extra := no_extra\<lparr>sx_inference_rps := Some 0\<rparr>\<rparr>)]\<rparr>]
      (make_empty [''m.0'']) of
      Inr (sq, _) \<Rightarrow> make_sequence_with_min_latency find_path [] None sq 0 1 | Inl e \<Rightarrow> Inl e) = Inl ZeroDivisionError"
proof -
  show "valid_info ((px_info S_ONLINE None)\<lparr>si_extra := no_extra\<lparr>sx_inference_rps := Some 0\<rparr>\<rparr>)" by code_simp
  let ?u = "manager_update (\<lambda>p. False) (\<lambda>ps n. take n ps) px_cfg (1 :: rat)
      [\<lparr>mi_uid = ''m.0'', mi_servers = [(1 :: nat, px_info S_ONLINE (Some (0, 1))),
          (2, (px_info S_ONLINE None)\<lparr>si_extra := no_extra\<lparr>sx_inference_rps := Some 0\<rparr>\<rparr>)]\<rparr>]
      (make_empty [''m.0''])"
  have "case ?u of Inr (sq, _) \<Rightarrow> missing_blocks sq 0 1 = [] \<and> build_inference_graph [] None sq 0 1 = Inl ZeroDivisionError
    | Inl e \<Rightarrow> False" by code_simp
  then show "(case ?u of Inr (sq, _) \<Rightarrow> make_sequence_with_min_latency find_path [] None sq 0 1 | Inl e \<Rightarrow> Inl e)
      = Inl ZeroDivisionError"
    by (auto simp: make_sequence_with_min_latency_def split: sum.splits prod.splits)
qed

text \<open>Servers of the first block alone are never measured: their sample is thrown away.\<close>

lemma first_servers_not_pinged:
  "map_sum id snd
     (manager_update (\<lambda>p. False) (\<lambda>ps n. take n ps) px_cfg (1 :: rat)
        [\<lparr>mi_uid = ''m.0'', mi_servers = [(1 :: nat, px_info S_ONLINE (Some (0, 1)))]\<rparr>,
         \<lparr>mi_uid = ''m.1'', mi_servers = [(2, px_info S_ONLINE (Some (1, 2)))]\<rparr>]
        (make_empty [''m.0'', ''m.1'']))
   = Inr [2]"
  by code_simp

end
