(* ===== verification/PetalsServingExamples.thy ===== *)
theory PetalsServingExamples
  imports PetalsServing PetalsExamples
begin

text \<open>
  A session over the concrete swarm of PetalsExamples, with calls that get lost, and the witnesses of
  the theorems on inference steps and sessions.
\<close>

section \<open>A block with a cache\<close>

text \<open>Every block adds up what it has seen.\<close>

fun running_sum :: "int \<Rightarrow> int list \<Rightarrow> int list" where
  "running_sum acc [] = []"
| "running_sum acc (x # xs) = (acc + x) # running_sum (acc + x) xs"

definition sum_block :: "string \<Rightarrow> int list \<Rightarrow> int list \<Rightarrow> int list \<times> int list" where
  "sum_block u past xs = (running_sum (sum_list past) xs, past @ xs)"

lemma running_sum_append:
  "running_sum acc (xs @ ys) = running_sum acc xs @ running_sum (acc + sum_list xs) ys"
  by (induction xs arbitrary: acc) (simp_all add: algebra_simps)

lemma running_sum_length [simp]: "length (running_sum acc xs) = length xs"
  by (induction xs arbitrary: acc) simp_all

lemma sum_block_causal: "causal (sum_block u)"
  by (simp add: causal_def sum_block_def running_sum_append)

definition px_backend :: "(int, int, unit) backend" where
  "px_backend = \<lparr>bk_module = sum_block, bk_heads = [4, 4], bk_dtype_bytes = 2, bk_max_chunk_bytes = 100,
     bk_reorder = (\<lambda>_ c. c), bk_plus = (+), bk_zero = 0\<rparr>"

lemma px_backend_ok: "backend_ok px_backend"
  by (simp add: backend_ok_def px_backend_def sum_block_causal)

text \<open>A step whose input of five tokens is cut into chunks of two.\<close>

lemma chunked_step_is_whole_witness:
  "inference_step px_backend ''m.0'' 1 1 None [7, 0, 0, 0, 0, 0, 0] [1, 2, 3, 4, 5]
     = (Inr [8, 10, 13, 17, 22], [7, 1, 2, 3, 4, 5, 0])"
proof -
  have "causal (bk_module px_backend ''m.0'')" by (simp add: px_backend_def sum_block_causal)
  moreover have "0 < fold max (bk_heads px_backend) 0" "0 < bk_dtype_bytes px_backend" by (simp_all add: px_backend_def)
  ultimately have "inference_step px_backend ''m.0'' 1 1 None [7, 0, 0, 0, 0, 0, 0] [1, 2, 3, 4, 5] =
      (Inr (fst (bk_module px_backend ''m.0'' (take 1 [7, 0, 0, 0, 0, 0, 0]) [1, 2, 3, 4, 5])),
       snd (bk_module px_backend ''m.0'' (take 1 [7, 0, 0, 0, 0, 0, 0]) [1, 2, 3, 4, 5])
         @ drop (1 + length [1, 2, 3, 4, 5 :: int]) [7, 0, 0, 0, 0, 0, 0])"
    by (intro chunked_step_is_whole) simp_all
  then show ?thesis by (simp add: px_backend_def sum_block_def)
qed

section \<open>The swarm\<close>

text \<open>The index of that swarm, evaluated once.\<close>

definition px_span :: "nat \<Rightarrow> int \<Rightarrow> int \<Rightarrow> (int \<times> int) option \<Rightarrow> (nat, rat) span_info" where
  "px_span p a b rng = \<lparr>sp_peer = p, sp_start = a, sp_end = b, sp_info = px_info S_ONLINE rng\<rparr>"

lemma px_sq_value [code]:
  "px_sq = (let s1 = px_span 1 0 3 (Some (0, 3)); s2 = px_span 2 2 4 None in
     \<lparr>sq_block_uids = px_uids, sq_block_infos = px_found, sq_by_priority = [s1, s2],
      sq_containing = [[s1], [s1], [s1, s2], [s2]], sq_updated = Some 1\<rparr>)"
  by code_simp

text \<open>A search that tries the routes of the concrete swarm.\<close>

definition px_candidates :: "nat node list list" where
  "px_candidates =
     map (\<lambda>inner. StartNode # inner @ [EndNode])
       (map (\<lambda>(a, b). map (At 1) [a..b]) [(0, 1), (0, 2), (0, 3), (1, 2), (1, 3), (2, 3)]
        @ map (\<lambda>(a, b). map (At 2) [a..b]) [(2, 4), (3, 4)]
        @ map (\<lambda>a. map (At 1) [a..3] @ map (At 2) [3..4]) [0, 1])"

definition px_find :: "(nat, rat) graph \<Rightarrow> nat node list result" where
  "px_find g = (case filter (is_route g) px_candidates of [] \<Rightarrow> Inl RuntimeError | p # _ \<Rightarrow> Inr p)"

definition px_env :: "(nat, rat, int, int, unit) swarm_env" where
  "px_env = \<lparr>se_backend = px_backend,
     se_holds = (\<lambda>p u. u \<in> set (if p = 1 then [''m.0'', ''m.1'', ''m.2''] else if p = 2 then [''m.2'', ''m.3''] else [])),
     se_merge_max = 4, se_inference_max = 32, se_find_path = px_find,
     se_rtts = [(1, Finite (1 / 10)), (2, Infinite)], se_uids = px_uids, se_max_retries = None\<rparr>"

definition px_world :: "fault list \<Rightarrow> (nat, rat, int) swarm" where
  "px_world fs = \<lparr>sw_slots = [], sw_next = 0, sw_faults = fs, sw_seq = px_sq\<rparr>"

lemma px_good: "swarm_good px_env (px_world fs)"
proof -
  have "search_ok px_env"
    by (auto simp: search_ok_def px_env_def px_find_def filter_eq_Cons_iff split: list.splits)
  moreover have "sq_block_uids px_sq = px_uids" by code_simp
  ultimately show ?thesis
    using px_sq_ok by (simp add: swarm_good_def px_world_def px_env_def px_backend_ok)
qed

text \<open>The second server loses the reply of the first step and is replaced.\<close>

definition px_result :: "(int list list result \<times> (nat, rat, int) client_session \<times> (nat, rat, int) swarm) option" where
  "px_result = session_steps (swarm_net px_env) 1 0 [[1, 2], [3], [4, 5]] (new_client_session px_uids 16)
     (px_world [Fine, Fine, Fine, Reply_lost])"

lemma px_result_eq: "map_option fst px_result = Some (Inr [[1, 6], [21], [56, 126]])"
  by code_simp

text \<open>The model on the concatenated inputs gives the same outputs.\<close>

lemma session_computes_model_witness:
  "swarm_run px_env 0 4 [1, 2, 3, 4, 5] = [1, 6, 21, 56, 126]"
proof -
  obtain cs' w' where "px_result = Some (Inr [[1, 6], [21], [56, 126]], cs', w')" using px_result_eq by auto
  then have run: "session_steps (swarm_net px_env) 1 0 [[1, 2], [3], [4, 5]] (new_client_session (se_uids px_env) 16)
      (px_world [Fine, Fine, Fine, Reply_lost]) = Some (Inr [[1, 6], [21], [56, 126]], cs', w')"
    by (simp add: px_result_def px_env_def)
  have "se_uids px_env \<noteq> []" by (simp add: px_env_def px_uids_def)
  from session_computes_model [OF px_good this _ run] show ?thesis by (simp add: px_env_def px_uids_def)
qed

text \<open>Between which blocks the search finds a route, and which blocks each server holds.\<close>

fun px_finds :: "int \<times> int \<Rightarrow> bool" where
  "px_finds (a, b) = (case build_inference_graph (se_rtts px_env) (Some 16) px_sq a b of
     Inl _ \<Rightarrow> True | Inr g \<Rightarrow> (case px_find g of Inr _ \<Rightarrow> True | Inl _ \<Rightarrow> False))"

fun px_holds :: "(nat, rat) span_info \<times> int \<Rightarrow> bool" where
  "px_holds (s, j) = (holds_block j s \<longrightarrow> se_holds px_env (sp_peer s) (se_uids px_env ! nat j))"

lemma px_serves:
  assumes "s \<in> set (sq_by_priority px_sq)" and "0 \<le> j" and "j < 4"
  shows "px_holds (s, j)"
proof -
  have "list_all px_holds (List.product (sq_by_priority px_sq) [0, 1, 2, 3])" by code_simp
  moreover have "j \<in> {0, 1, 2, 3}" using assms by auto
  ultimately show ?thesis using assms(1) by (auto simp: list_all_iff)
qed

lemma px_search_finds: "search_finds px_env 16 px_sq"
proof -
  have finds: "list_all px_finds [(0, 1), (0, 2), (0, 3), (0, 4), (1, 2), (1, 3), (1, 4), (2, 3), (2, 4), (3, 4)]"
    by code_simp
  have "px_finds (a, b)" if "0 \<le> a" "a < b" "b \<le> 4" for a b
  proof -
    have "a \<in> {0, 1, 2, 3}" "b \<in> {1, 2, 3, 4}" using that by auto
    with finds that(2) show ?thesis by auto
  qed
  moreover have "se_find_path px_env = px_find" "length (se_uids px_env) = 4" by (simp_all add: px_env_def px_uids_def)
  ultimately show ?thesis unfolding search_finds_def by (fastforce split: sum.splits)
qed

lemma session_returns_witness:
  "\<exists>outs cs' w'. session_steps (swarm_net px_env) 1 0 [[1, 2], [3], [4, 5]] (new_client_session (se_uids px_env) 16) (px_world [])
     = Some (Inr outs, cs', w')"
proof -
  have env: "length (se_uids px_env) = 4" "se_inference_max px_env = 32" by (simp_all add: px_env_def px_uids_def)
  have "missing_blocks px_sq 0 4 = []" by code_simp
  then have served: "missing_blocks (sw_seq (px_world [])) 0 (int (length (se_uids px_env))) = []"
    by (simp add: env px_world_def)
  have "list_all (\<lambda>s. sx_inference_rps (si_extra (sp_info s)) \<noteq> Some 0) (sq_by_priority px_sq)" by code_simp
  then have rates: "rates_nonzero (sw_seq (px_world []))"
    by (simp add: rates_nonzero_def list_all_iff px_world_def)
  have holds: "index_true px_env (sw_seq (px_world []))"
    using px_serves by (auto simp: index_true_def env px_world_def)
  show ?thesis
    by (rule session_returns [OF px_good _ served holds rates, of 16])
      (use px_search_finds in \<open>simp_all add: px_env_def px_uids_def px_world_def\<close>)
qed

text \<open>
  A server that is lost after the first step: no attempt of the three can succeed, and the error of
  the last one is raised.
\<close>

definition px_limited :: "nat option \<Rightarrow> ((nat, rat, int) swarm, nat, rat, int, unit) net" where
  "px_limited m = swarm_net (px_env\<lparr>se_max_retries := m\<rparr>)"

definition px_first :: "(int list result \<times> (nat, rat, int) client_session \<times> (nat, rat, int) swarm) option" where
  "px_first = session_step (px_limited None) 1 None None 0 [1, 2] (new_client_session px_uids 16) (px_world [])"

definition px_second :: "(py_error \<times> nat option + int list \<times> int \<times> nat) \<times> (nat, rat, int) client_session \<times> (nat, rat, int) swarm" where
  "px_second = (case px_first of
     Some (_, cs, w) \<Rightarrow> session_attempt (px_limited None) 1 None None 1 0 0 0 [3] cs (w\<lparr>sw_faults := [Request_lost]\<rparr>)
   | None \<Rightarrow> (Inl (IndexError, None), new_client_session px_uids 16, px_world []))"

definition px_cs :: "(nat, rat, int) client_session" where "px_cs = fst (snd px_second)"

definition px_w :: "(nat, rat, int) swarm" where "px_w = snd (snd px_second)"

lemma late_failure_is_final_witness:
  "map_option fst px_first = Some (Inr [1, 6])
   \<and> fst px_second = Inl (TimeoutError, Some 1)
   \<and> map_option fst (session_loop (px_limited (Some 3)) 1 None None 1 0 0 1 [3] px_cs px_w) = Some (Inl AssertionError)
   \<and> (case session_loop (px_limited None) 1 None None 1 0 0 1 [3] px_cs px_w of None \<Rightarrow> True | Some _ \<Rightarrow> False)"
proof -
  have "0 < cs_position px_cs" "0 \<le> length (cs_sessions px_cs)" "0 < num_blocks px_cs" by code_simp+
  from late_failure_is_final [OF this(1) _ this(2,3), of 1 "px_limited None" 1 None None 1 "[3]" px_w]
  have "case session_loop (px_limited None) 1 None None 1 0 0 1 [3] px_cs px_w of None \<Rightarrow> True | Some _ \<Rightarrow> False"
    by (auto simp: px_limited_def swarm_net_def split: option.splits)
  moreover have "map_option fst px_first = Some (Inr [1, 6])" by code_simp
  moreover have "fst px_second = Inl (TimeoutError, Some 1)" by code_simp
  moreover have "map_option fst (session_loop (px_limited (Some 3)) 1 None None 1 0 0 1 [3] px_cs px_w) = Some (Inl AssertionError)"
    by code_simp
  ultimately show ?thesis by blast
qed

end
