(* ===== verification/PetalsMemory.thy ===== *)
theory PetalsMemory
  imports Prelude Complex_Main
begin

text \<open>
  The attention cache of a Petals server, petals/server/memory\_cache.py, with the sizes that
  petals/server/backend.py asks of it. Handlers in several processes allocate and free; the runtime
  process owns the tensors and learns of both through a pipe. The state is what the processes share,
  and every operation below is a piece of the code that nothing interrupts, so a run is any
  interleaving of them. A tensor is kept as its descriptor; handles are unbounded integers (the
  counter of the code has 64 bits). A timeout may expire at any moment at which the task waits.
\<close>

section \<open>Sizes\<close>

record 'd tensor_descr =
  td_device :: 'd
  td_shape :: "nat list"
  td_dtype_bytes :: nat

definition descr_size :: "'d tensor_descr \<Rightarrow> nat" where
  "descr_size td = prod_list (td_shape td) * td_dtype_bytes td"

text \<open>The devices of a block with the attention heads on each.\<close>

record 'd cache_config =
  cg_hidden_size :: nat
  cg_attention_heads :: nat
  cg_kv_groups :: nat
  cg_kv_heads :: "nat option"
  cg_shards :: "('d \<times> nat) list"
  cg_dtype_bytes :: nat

definition cache_descriptors :: "'d cache_config \<Rightarrow> nat \<Rightarrow> nat \<Rightarrow> 'd tensor_descr list result" where
  "cache_descriptors cg batch max_length =
     (if cg_attention_heads cg = 0 \<or> cg_kv_groups cg = 0 \<and> cg_shards cg \<noteq> [] then Inl ZeroDivisionError
      else let head_dim = cg_hidden_size cg div cg_attention_heads cg
      in Inr (concat (map (\<lambda>(device, n).
           let heads = (case cg_kv_heads cg of Some k \<Rightarrow> k | None \<Rightarrow> n div cg_kv_groups cg)
           in [\<lparr>td_device = device, td_shape = [batch, heads, head_dim, max_length], td_dtype_bytes = cg_dtype_bytes cg\<rparr>,
               \<lparr>td_device = device, td_shape = [batch, heads, max_length, head_dim], td_dtype_bytes = cg_dtype_bytes cg\<rparr>])
         (cg_shards cg))))"

definition size_by_device :: "'d tensor_descr list \<Rightarrow> ('d, nat) pydict" where
  "size_by_device tds =
     fold (\<lambda>td d. dset (td_device td) ((case dget d (td_device td) of None \<Rightarrow> 0 | Some n \<Rightarrow> n) + descr_size td) d) tds []"

definition allocation_size :: "'d tensor_descr list \<Rightarrow> nat result" where
  "allocation_size tds =
     (case dvalues (size_by_device tds) of [] \<Rightarrow> Inl ValueError | n # ns \<Rightarrow> Inr (fold max ns n))"

section \<open>State\<close>

text \<open>
  Where an allocation is: after the announcement of its size (\<open>Entered\<close>), waiting for the lock, inside
  it (\<open>Locked\<close> before the first test, \<open>Looping\<close> before a test of the waiting loop, \<open>Blocked\<close> on the
  event, \<open>Admitted\<close> after a test that succeeded), after it (\<open>Unlocked\<close>, \<open>Granted\<close> when its size is
  taken out of the queue), failing (\<open>Refused\<close>, then \<open>Failed\<close>), or with tensors (\<open>Holding\<close>, then
  \<open>Freeing\<close> and \<open>Released\<close>).
\<close>

datatype phase =
    Entered | Queued | Locked | Looping | Blocked | Admitted | Unlocked | Granted | Refused | Failed
  | Holding "int list" | Freeing | Released

record 'd alloc =
  al_proc :: nat
  al_size :: nat
  al_descrs :: "'d tensor_descr list"
  al_timeout :: rat
  al_phase :: phase

record 'd memory =
  mc_max :: nat
  mc_max_timeout :: "rat option"
  mc_current :: int
  mc_enqueued :: int
  mc_counter :: int
  mc_tensors :: "(int, 'd tensor_descr) pydict"
  mc_pipe :: "(int list \<times> 'd tensor_descr list option) list"
  mc_lock :: "nat option"
  mc_event :: bool
  mc_tasks :: "(nat, 'd alloc) pydict"

definition memory_init :: "nat option \<Rightarrow> rat option \<Rightarrow> 'd memory" where
  "memory_init max_size max_timeout =
     \<lparr>mc_max = (case max_size of Some n \<Rightarrow> n | None \<Rightarrow> 2 ^ 64 - 1), mc_max_timeout = max_timeout, mc_current = 0,
      mc_enqueued = 0, mc_counter = 0, mc_tensors = [], mc_pipe = [], mc_lock = None, mc_event = False, mc_tasks = []\<rparr>"

definition bytes_left :: "'d memory \<Rightarrow> int" where
  "bytes_left m = int (mc_max m) - mc_current m"

definition set_phase :: "nat \<Rightarrow> phase \<Rightarrow> 'd memory \<Rightarrow> 'd memory" where
  "set_phase t ph m =
     (case dget (mc_tasks m) t of None \<Rightarrow> m | Some a \<Rightarrow> m\<lparr>mc_tasks := dset t (a\<lparr>al_phase := ph\<rparr>) (mc_tasks m)\<rparr>)"

text \<open>
  Between the release of the lock and the booking of the size the event loop of the process does not
  turn to another task.
\<close>

definition loop_taken :: "nat \<Rightarrow> nat \<Rightarrow> 'd memory \<Rightarrow> bool" where
  "loop_taken p t m \<longleftrightarrow> list_ex (\<lambda>(u, a). u \<noteq> t \<and> al_proc a = p \<and> al_phase a \<in> {Unlocked, Granted}) (mc_tasks m)"

section \<open>Operations\<close>

text \<open>\<open>None\<close>: the operation is not possible now.\<close>

definition mem_begin :: "nat \<Rightarrow> nat \<Rightarrow> 'd tensor_descr list \<Rightarrow> rat \<Rightarrow> 'd memory \<Rightarrow> 'd memory option" where
  "mem_begin t p tds timeout m =
     (if dget (mc_tasks m) t \<noteq> None \<or> loop_taken p t m then None
      else case allocation_size tds of
        Inl e \<Rightarrow> Some m
      | Inr n \<Rightarrow>
          let timeout1 = (case mc_max_timeout m of None \<Rightarrow> timeout | Some x \<Rightarrow> min timeout x)
          in Some (m\<lparr>mc_enqueued := mc_enqueued m + int n,
                     mc_tasks := dset t \<lparr>al_proc = p, al_size = n, al_descrs = tds, al_timeout = timeout1,
                                         al_phase = Entered\<rparr> (mc_tasks m)\<rparr>))"

text \<open>An allocation that must not wait is refused when the queue before it fills the cache.\<close>

definition mem_enter :: "nat \<Rightarrow> 'd alloc \<Rightarrow> 'd memory \<Rightarrow> 'd memory option" where
  "mem_enter t a m =
     (if al_phase a \<noteq> Entered then None
      else Some (set_phase t
        (if al_timeout a = 0 \<and> mc_current m + mc_enqueued m > int (mc_max m) then Refused else Queued) m))"

definition mem_acquire :: "nat \<Rightarrow> 'd alloc \<Rightarrow> 'd memory \<Rightarrow> 'd memory option" where
  "mem_acquire t a m =
     (if al_phase a \<noteq> Queued \<or> mc_lock m \<noteq> None then None else Some (set_phase t Locked (m\<lparr>mc_lock := Some t\<rparr>)))"

text \<open>An allocation larger than the cache is refused before it waits.\<close>

definition mem_check :: "nat \<Rightarrow> 'd alloc \<Rightarrow> 'd memory \<Rightarrow> 'd memory option" where
  "mem_check t a m =
     (if al_phase a \<noteq> Locked then None
      else Some
        (if mc_current m + int (al_size a) > int (mc_max m)
         then if al_timeout a = 0 \<or> al_size a > mc_max m then set_phase t Refused (m\<lparr>mc_lock := None\<rparr>)
              else set_phase t Looping m
         else set_phase t Admitted m))"

definition mem_loop :: "nat \<Rightarrow> 'd alloc \<Rightarrow> 'd memory \<Rightarrow> 'd memory option" where
  "mem_loop t a m =
     (if al_phase a \<noteq> Looping then None
      else Some (set_phase t (if mc_current m + int (al_size a) > int (mc_max m) then Blocked else Admitted) m))"

definition mem_wake :: "nat \<Rightarrow> 'd alloc \<Rightarrow> 'd memory \<Rightarrow> 'd memory option" where
  "mem_wake t a m =
     (if al_phase a \<noteq> Blocked \<or> \<not> mc_event m then None else Some (set_phase t Looping (m\<lparr>mc_event := False\<rparr>)))"

definition mem_expire :: "nat \<Rightarrow> 'd alloc \<Rightarrow> 'd memory \<Rightarrow> 'd memory option" where
  "mem_expire t a m =
     (if al_timeout a = 0 \<or> al_phase a \<notin> {Queued, Looping, Blocked} then None
      else Some (set_phase t Refused (if al_phase a = Queued then m else m\<lparr>mc_lock := None\<rparr>)))"

definition mem_unlock :: "nat \<Rightarrow> 'd alloc \<Rightarrow> 'd memory \<Rightarrow> 'd memory option" where
  "mem_unlock t a m =
     (if al_phase a \<noteq> Admitted then None else Some (set_phase t Unlocked (m\<lparr>mc_lock := None\<rparr>)))"

definition mem_dequeue :: "nat \<Rightarrow> 'd alloc \<Rightarrow> 'd memory \<Rightarrow> 'd memory option" where
  "mem_dequeue t a m =
     (if al_phase a \<notin> {Unlocked, Refused} then None
      else Some (set_phase t (if al_phase a = Unlocked then Granted else Failed)
                   (m\<lparr>mc_enqueued := mc_enqueued m - int (al_size a)\<rparr>)))"

definition mem_commit :: "nat \<Rightarrow> 'd alloc \<Rightarrow> 'd memory \<Rightarrow> 'd memory option" where
  "mem_commit t a m =
     (if al_phase a \<noteq> Granted then None
      else let handles = map (\<lambda>i. mc_counter m + int i) [0..<length (al_descrs a)]
      in Some (set_phase t (Holding handles)
           (m\<lparr>mc_current := mc_current m + int (al_size a), mc_counter := mc_counter m + int (length handles),
              mc_pipe := mc_pipe m @ [(handles, Some (al_descrs a))]\<rparr>)))"

definition mem_free :: "nat \<Rightarrow> 'd alloc \<Rightarrow> 'd memory \<Rightarrow> 'd memory option" where
  "mem_free t a m =
     (case al_phase a of
        Holding handles \<Rightarrow>
          Some (set_phase t Freeing
            (m\<lparr>mc_pipe := mc_pipe m @ [(handles, None)], mc_current := mc_current m - int (al_size a)\<rparr>))
      | _ \<Rightarrow> None)"

definition mem_signal :: "nat \<Rightarrow> 'd alloc \<Rightarrow> 'd memory \<Rightarrow> 'd memory option" where
  "mem_signal t a m =
     (if al_phase a \<noteq> Freeing then None else Some (set_phase t Released (m\<lparr>mc_event := True\<rparr>)))"

text \<open>The runtime reads the pipe to its end before it looks a tensor up.\<close>

definition apply_message ::
  "int list \<times> 'd tensor_descr list option \<Rightarrow> (int, 'd tensor_descr) pydict \<Rightarrow> (int, 'd tensor_descr) pydict" where
  "apply_message msg ts =
     (case msg of
        (handles, Some tds) \<Rightarrow> fold (\<lambda>(h, td). dset h td) (zip handles tds) ts
      | (handles, None) \<Rightarrow> fold ddel handles ts)"

definition drain_pipe :: "'d memory \<Rightarrow> 'd memory" where
  "drain_pipe m = m\<lparr>mc_tensors := fold apply_message (mc_pipe m) (mc_tensors m), mc_pipe := []\<rparr>"

definition use_cache :: "int list \<Rightarrow> 'd memory \<Rightarrow> 'd tensor_descr list result \<times> 'd memory" where
  "use_cache handles m =
     (let m1 = drain_pipe m
      in (rmap (\<lambda>h. case dget (mc_tensors m1) h of None \<Rightarrow> Inl KeyError | Some td \<Rightarrow> Inr td) handles, m1))"

section \<open>Runs\<close>

datatype 'd mem_op =
    Begin nat nat "'d tensor_descr list" rat
  | Enter nat | Acquire nat | Check nat | Loop nat | Wake nat | Expire nat | Unlock nat | Dequeue nat
  | Commit nat | Free nat | Signal nat | Use "int list"

text \<open>An operation of a task; those of the event loop wait while it is taken.\<close>

definition task_op :: "bool \<Rightarrow> (nat \<Rightarrow> 'd alloc \<Rightarrow> 'd memory \<Rightarrow> 'd memory option) \<Rightarrow> nat \<Rightarrow> 'd memory \<Rightarrow> 'd memory option" where
  "task_op in_loop f t m =
     (case dget (mc_tasks m) t of
        None \<Rightarrow> None
      | Some a \<Rightarrow> if in_loop \<and> loop_taken (al_proc a) t m then None else f t a m)"

fun mem_step :: "'d mem_op \<Rightarrow> 'd memory \<Rightarrow> 'd memory option" where
  "mem_step (Begin t p tds timeout) m = mem_begin t p tds timeout m"
| "mem_step (Enter t) m = task_op True mem_enter t m"
| "mem_step (Acquire t) m = task_op False mem_acquire t m"
| "mem_step (Check t) m = task_op True mem_check t m"
| "mem_step (Loop t) m = task_op False mem_loop t m"
| "mem_step (Wake t) m = task_op False mem_wake t m"
| "mem_step (Expire t) m = task_op True mem_expire t m"
| "mem_step (Unlock t) m = task_op True mem_unlock t m"
| "mem_step (Dequeue t) m = task_op True mem_dequeue t m"
| "mem_step (Commit t) m = task_op True mem_commit t m"
| "mem_step (Free t) m = task_op True mem_free t m"
| "mem_step (Signal t) m = task_op True mem_signal t m"
| "mem_step (Use handles) m = Some (snd (use_cache handles m))"

fun mem_run :: "'d mem_op list \<Rightarrow> 'd memory \<Rightarrow> 'd memory option" where
  "mem_run [] m = Some m"
| "mem_run (x # xs) m = (case mem_step x m of None \<Rightarrow> None | Some m1 \<Rightarrow> mem_run xs m1)"

end
