(* ===== verification/PetalsMemoryProps.thy ===== *)
theory PetalsMemoryProps
  imports PetalsMemory
begin

text \<open>
  In every interleaving of allocations the counters of the cache are exact, the tensors are those of the
  allocations that hold them, no wake-up is lost, and the size of the cache is exceeded by at most what
  other processes have in flight.
\<close>

section \<open>Sums over the allocations\<close>

definition task_sum :: "('d alloc \<Rightarrow> int) \<Rightarrow> 'd memory \<Rightarrow> int" where
  "task_sum f m = (\<Sum>a\<leftarrow>dvalues (mc_tasks m). f a)"

lemma set_phase_fields [simp]:
  "mc_max (set_phase t ph m) = mc_max m" "mc_current (set_phase t ph m) = mc_current m"
  "mc_enqueued (set_phase t ph m) = mc_enqueued m" "mc_counter (set_phase t ph m) = mc_counter m"
  "mc_tensors (set_phase t ph m) = mc_tensors m" "mc_pipe (set_phase t ph m) = mc_pipe m"
  "mc_lock (set_phase t ph m) = mc_lock m" "mc_event (set_phase t ph m) = mc_event m"
  "mc_max_timeout (set_phase t ph m) = mc_max_timeout m"
  by (simp_all add: set_phase_def split: option.splits)

lemma set_phase_get:
  "dget (mc_tasks (set_phase t ph m)) u =
     (if u = t then map_option (\<lambda>a. a\<lparr>al_phase := ph\<rparr>) (dget (mc_tasks m) t) else dget (mc_tasks m) u)"
  by (auto simp: set_phase_def dict_simps split: option.splits)

lemma set_phase_dict [simp]: "dict_ok (mc_tasks m) \<Longrightarrow> dict_ok (mc_tasks (set_phase t ph m))"
  by (simp add: set_phase_def split: option.splits)

lemma task_sum_cong [simp]:
  "task_sum f (m\<lparr>mc_current := c\<rparr>) = task_sum f m" "task_sum f (m\<lparr>mc_enqueued := c\<rparr>) = task_sum f m"
  "task_sum f (m\<lparr>mc_counter := c\<rparr>) = task_sum f m" "task_sum f (m\<lparr>mc_tensors := ts\<rparr>) = task_sum f m"
  "task_sum f (m\<lparr>mc_pipe := ps\<rparr>) = task_sum f m" "task_sum f (m\<lparr>mc_lock := l\<rparr>) = task_sum f m"
  "task_sum f (m\<lparr>mc_event := e\<rparr>) = task_sum f m" "task_sum f (drain_pipe m) = task_sum f m"
  by (simp_all add: task_sum_def drain_pipe_def)

lemma task_sum_phase:
  assumes "dict_ok (mc_tasks m)" and "dget (mc_tasks m) t = Some a"
  shows "task_sum f (set_phase t ph m) = task_sum f m - f a + f (a\<lparr>al_phase := ph\<rparr>)"
proof -
  from assms obtain xs ys where "mc_tasks m = xs @ (t, a) # ys" "dget xs t = None" "dget ys t = None"
    by (rule dict_split)
  with assms(2) show ?thesis by (simp add: task_sum_def set_phase_def dict_simps)
qed

lemma task_sum_new:
  assumes "dget (mc_tasks m) t = None"
  shows "task_sum f (m\<lparr>mc_enqueued := e, mc_tasks := dset t a (mc_tasks m)\<rparr>) = task_sum f m + f a"
  by (simp add: task_sum_def dset_new [OF assms])

section \<open>The invariant\<close>

fun holds :: "phase \<Rightarrow> bool" where
  "holds (Holding hs) = True"
| "holds _ = False"

definition in_queue :: "phase \<Rightarrow> bool" where
  "in_queue ph \<longleftrightarrow> ph \<in> {Entered, Queued, Locked, Looping, Blocked, Admitted, Unlocked, Refused}"

definition has_lock :: "phase \<Rightarrow> bool" where
  "has_lock ph \<longleftrightarrow> ph \<in> {Locked, Looping, Blocked, Admitted}"

definition in_flight :: "phase \<Rightarrow> bool" where
  "in_flight ph \<longleftrightarrow> ph \<in> {Admitted, Unlocked, Granted}"

definition sum_where :: "(phase \<Rightarrow> bool) \<Rightarrow> 'd memory \<Rightarrow> int" where
  "sum_where P = task_sum (\<lambda>a. if P (al_phase a) then int (al_size a) else 0)"

text \<open>The handles and descriptors of the allocations that hold tensors.\<close>

definition owned :: "'d memory \<Rightarrow> (int \<times> 'd tensor_descr) set" where
  "owned m = {(h, td). \<exists>t a hs. dget (mc_tasks m) t = Some a \<and> al_phase a = Holding hs \<and> (h, td) \<in> set (zip hs (al_descrs a))}"

definition accounts_ok :: "'d memory \<Rightarrow> bool" where
  "accounts_ok m \<longleftrightarrow> dict_ok (mc_tasks m) \<and> mc_current m = sum_where holds m \<and> mc_enqueued m = sum_where in_queue m"

definition lock_ok :: "'d memory \<Rightarrow> bool" where
  "lock_ok m \<longleftrightarrow> (\<forall>t. mc_lock m = Some t \<longleftrightarrow> (\<exists>a. dget (mc_tasks m) t = Some a \<and> has_lock (al_phase a)))"

definition handles_ok :: "'d memory \<Rightarrow> bool" where
  "handles_ok m \<longleftrightarrow>
     (\<forall>t a hs. dget (mc_tasks m) t = Some a \<and> al_phase a = Holding hs \<longrightarrow>
        length hs = length (al_descrs a) \<and> distinct hs \<and> (\<forall>h \<in> set hs. h < mc_counter m)
        \<and> (\<forall>u b hs'. dget (mc_tasks m) u = Some b \<and> al_phase b = Holding hs' \<and> u \<noteq> t \<longrightarrow> set hs \<inter> set hs' = {}))"

definition tensors_ok :: "'d memory \<Rightarrow> bool" where
  "tensors_ok m \<longleftrightarrow> (\<forall>h td. dget (mc_tensors (drain_pipe m)) h = Some td \<longleftrightarrow> (h, td) \<in> owned m)"

definition wakeup_ok :: "'d memory \<Rightarrow> bool" where
  "wakeup_ok m \<longleftrightarrow>
     (\<forall>t a. dget (mc_tasks m) t = Some a \<and> al_phase a = Blocked \<and> \<not> mc_event m
        \<and> (\<forall>u b. dget (mc_tasks m) u = Some b \<longrightarrow> al_phase b \<noteq> Freeing)
        \<longrightarrow> mc_current m + int (al_size a) > int (mc_max m))"

lemma mem_init_ok:
  "accounts_ok (memory_init n x)" "lock_ok (memory_init n x)" "handles_ok (memory_init n x)"
  "tensors_ok (memory_init n x)" "wakeup_ok (memory_init n x)"
  by (simp_all add: accounts_ok_def lock_ok_def handles_ok_def tensors_ok_def wakeup_ok_def memory_init_def
    sum_where_def task_sum_def owned_def drain_pipe_def)

lemmas op_defs = task_op_def mem_begin_def mem_enter_def mem_acquire_def mem_check_def mem_loop_def mem_wake_def
  mem_expire_def mem_unlock_def mem_dequeue_def mem_commit_def mem_free_def mem_signal_def Let_def

lemmas phase_defs = in_queue_def has_lock_def in_flight_def

lemma accounts_step:
  assumes "accounts_ok m" and "mem_step x m = Some m'"
  shows "accounts_ok m'"
  using assms
  by (cases x)
    (auto simp: accounts_ok_def op_defs phase_defs sum_where_def task_sum_phase task_sum_new use_cache_def drain_pipe_def
      split: option.splits sum.splits if_splits phase.splits)

section \<open>Transitions\<close>

text \<open>The steps of one allocation, with the shared state before and after.\<close>

inductive moves :: "'d memory \<Rightarrow> nat \<Rightarrow> 'd alloc \<Rightarrow> phase \<Rightarrow> 'd memory \<Rightarrow> bool" for m t a where
  enter: "al_phase a = Entered \<Longrightarrow> ph \<in> {Refused, Queued} \<Longrightarrow> moves m t a ph m"
| acquire: "al_phase a = Queued \<Longrightarrow> mc_lock m = None \<Longrightarrow> moves m t a Locked (m\<lparr>mc_lock := Some t\<rparr>)"
| refuse: "al_phase a \<in> {Locked, Looping, Blocked} \<Longrightarrow> moves m t a Refused (m\<lparr>mc_lock := None\<rparr>)"
| expire: "al_phase a = Queued \<Longrightarrow> moves m t a Refused m"
| look: "al_phase a = Locked \<Longrightarrow> \<not> loop_taken (al_proc a) t m \<Longrightarrow> moves m t a Looping m"
| admit: "al_phase a \<in> {Locked, Looping} \<Longrightarrow> mc_current m + int (al_size a) \<le> int (mc_max m) \<Longrightarrow>
    (al_phase a = Locked \<Longrightarrow> \<not> loop_taken (al_proc a) t m) \<Longrightarrow> moves m t a Admitted m"
| sleep: "al_phase a = Looping \<Longrightarrow> mc_current m + int (al_size a) > int (mc_max m) \<Longrightarrow> moves m t a Blocked m"
| wake: "al_phase a = Blocked \<Longrightarrow> moves m t a Looping (m\<lparr>mc_event := False\<rparr>)"
| unlock: "al_phase a = Admitted \<Longrightarrow> \<not> loop_taken (al_proc a) t m \<Longrightarrow> moves m t a Unlocked (m\<lparr>mc_lock := None\<rparr>)"
| grant: "al_phase a = Unlocked \<Longrightarrow> moves m t a Granted (m\<lparr>mc_enqueued := mc_enqueued m - int (al_size a)\<rparr>)"
| fail: "al_phase a = Refused \<Longrightarrow> moves m t a Failed (m\<lparr>mc_enqueued := mc_enqueued m - int (al_size a)\<rparr>)"
| commit: "al_phase a = Granted \<Longrightarrow> hs = map (\<lambda>i. mc_counter m + int i) [0..<length (al_descrs a)] \<Longrightarrow>
    moves m t a (Holding hs)
      (m\<lparr>mc_current := mc_current m + int (al_size a), mc_counter := mc_counter m + int (length (al_descrs a)),
         mc_pipe := mc_pipe m @ [(hs, Some (al_descrs a))]\<rparr>)"
| free: "al_phase a = Holding hs \<Longrightarrow>
    moves m t a Freeing (m\<lparr>mc_pipe := mc_pipe m @ [(hs, None)], mc_current := mc_current m - int (al_size a)\<rparr>)"
| signal: "al_phase a = Freeing \<Longrightarrow> moves m t a Released (m\<lparr>mc_event := True\<rparr>)"

lemma task_op_Some:
  assumes "task_op b f t m = Some m'"
  obtains a where "dget (mc_tasks m) t = Some a" and "b \<Longrightarrow> \<not> loop_taken (al_proc a) t m" and "f t a m = Some m'"
  using assms by (auto simp: task_op_def split: option.splits if_splits)

text \<open>The outcome of an operation of allocation \<open>t\<close>.\<close>

definition moved :: "nat \<Rightarrow> 'd alloc \<Rightarrow> 'd memory \<Rightarrow> 'd memory \<Rightarrow> bool" where
  "moved t a m m' \<longleftrightarrow> (\<exists>ph m1. moves m t a ph m1 \<and> m' = set_phase t ph m1)"

lemma movedI: "moves m t a ph m1 \<Longrightarrow> moved t a m (set_phase t ph m1)"
  by (auto simp: moved_def)

lemmas moved_intros = moves.intros [THEN movedI]

lemma op_moved:
  "mem_enter t a m = Some m' \<Longrightarrow> moved t a m m'"
  "mem_acquire t a m = Some m' \<Longrightarrow> moved t a m m'"
  "mem_loop t a m = Some m' \<Longrightarrow> moved t a m m'"
  "mem_wake t a m = Some m' \<Longrightarrow> moved t a m m'"
  "mem_expire t a m = Some m' \<Longrightarrow> moved t a m m'"
  "mem_dequeue t a m = Some m' \<Longrightarrow> moved t a m m'"
  "mem_commit t a m = Some m' \<Longrightarrow> moved t a m m'"
  "mem_free t a m = Some m' \<Longrightarrow> moved t a m m'"
  "mem_signal t a m = Some m' \<Longrightarrow> moved t a m m'"
  by (auto simp: mem_enter_def mem_acquire_def mem_loop_def mem_wake_def mem_expire_def mem_dequeue_def mem_commit_def
      mem_free_def mem_signal_def Let_def split: if_splits phase.splits intro: moved_intros)

lemma loop_op_moved:
  assumes "\<not> loop_taken (al_proc a) t m"
  shows "mem_check t a m = Some m' \<Longrightarrow> moved t a m m'" "mem_unlock t a m = Some m' \<Longrightarrow> moved t a m m'"
  using assms by (auto simp: mem_check_def mem_unlock_def split: if_splits intro: moved_intros)

lemma mem_step_cases:
  assumes "mem_step x m = Some m'"
  shows "m' = m \<or> (\<exists>hs. x = Use hs \<and> m' = drain_pipe m)
    \<or> (\<exists>t p tds timeout timeout1 n. x = Begin t p tds timeout \<and> dget (mc_tasks m) t = None \<and> allocation_size tds = Inr n
         \<and> m' = m\<lparr>mc_enqueued := mc_enqueued m + int n, mc_tasks := dset t \<lparr>al_proc = p, al_size = n, al_descrs = tds,
             al_timeout = timeout1, al_phase = Entered\<rparr> (mc_tasks m)\<rparr>)
    \<or> (\<exists>t a. dget (mc_tasks m) t = Some a \<and> moved t a m m')"
proof (cases x)
  case (Begin t p tds timeout)
  with assms show ?thesis
    by (cases "allocation_size tds") (auto simp: mem_begin_def Let_def split: if_splits)
qed (use assms in \<open>auto simp: use_cache_def Let_def elim!: task_op_Some dest: op_moved loop_op_moved\<close>)

lemma begin_get:
  "dget d t = None \<Longrightarrow> dget (dset t a d) s = Some b \<longleftrightarrow> s = t \<and> b = a \<or> dget d s = Some b"
  by (auto simp: dict_simps)

section \<open>The lock\<close>

lemma moves_lock:
  assumes "moves m t a ph m1"
  shows "mc_lock m1 = mc_lock m \<and> has_lock ph = has_lock (al_phase a)
    \<or> mc_lock m1 = None \<and> has_lock (al_phase a) \<and> \<not> has_lock ph
    \<or> mc_lock m = None \<and> mc_lock m1 = Some t \<and> has_lock ph"
  using assms by cases (auto simp: has_lock_def)

lemma moves_frame:
  assumes "moves m t a ph m1"
  shows "mc_tasks m1 = mc_tasks m" "mc_max m1 = mc_max m" "mc_tensors m1 = mc_tensors m"
  using assms by (cases; simp)+

lemma moved_get:
  assumes "moves m t a ph m1" and "dget (mc_tasks m) t = Some a"
  shows "dget (mc_tasks (set_phase t ph m1)) u = (if u = t then Some (a\<lparr>al_phase := ph\<rparr>) else dget (mc_tasks m) u)"
  using assms by (simp add: set_phase_get moves_frame)

lemma lock_step:
  assumes ok: "lock_ok m" and "mem_step x m = Some m'"
  shows "lock_ok m'"
  using mem_step_cases [OF assms(2)]
proof (elim disjE exE conjE)
  fix t a assume a: "dget (mc_tasks m) t = Some a" and "moved t a m m'"
  then obtain ph m1 where mv: "moves m t a ph m1" and m': "m' = set_phase t ph m1" by (auto simp: moved_def)
  have "has_lock (al_phase a) \<longleftrightarrow> mc_lock m = Some t" using ok a by (auto simp: lock_ok_def)
  note own = this
  show ?thesis unfolding lock_ok_def
  proof
    fix s
    have "mc_lock m = Some s \<longleftrightarrow> (\<exists>b. dget (mc_tasks m) s = Some b \<and> has_lock (al_phase b))"
      using ok by (simp add: lock_ok_def)
    with moves_lock [OF mv] own
    show "mc_lock m' = Some s \<longleftrightarrow> (\<exists>b. dget (mc_tasks m') s = Some b \<and> has_lock (al_phase b))"
      by (cases "s = t") (auto simp: m' moved_get [OF mv a])
  qed
qed (use ok in \<open>auto simp: lock_ok_def drain_pipe_def dict_simps has_lock_def\<close>)

section \<open>Handles and tensors\<close>

text \<open>What a step does to the handles of the allocation and to the tensors the runtime will see.\<close>

definition seen :: "'d memory \<Rightarrow> (int, 'd tensor_descr) pydict" where
  "seen m = mc_tensors (drain_pipe m)"

lemma moves_tensors:
  assumes "moves m t a ph m1"
  shows "\<not> holds ph \<and> \<not> holds (al_phase a) \<and> seen m1 = seen m \<and> mc_counter m1 = mc_counter m
    \<or> (\<exists>hs. hs = map (\<lambda>i. mc_counter m + int i) [0..<length (al_descrs a)] \<and> ph = Holding hs \<and> \<not> holds (al_phase a)
        \<and> seen m1 = fold (\<lambda>(h, td). dset h td) (zip hs (al_descrs a)) (seen m)
        \<and> mc_counter m1 = mc_counter m + int (length (al_descrs a)))
    \<or> (\<exists>hs. al_phase a = Holding hs \<and> \<not> holds ph \<and> seen m1 = fold ddel hs (seen m) \<and> mc_counter m1 = mc_counter m)"
  using assms by cases (auto simp: seen_def drain_pipe_def apply_message_def)

lemma holds_iff: "holds ph \<longleftrightarrow> (\<exists>hs. ph = Holding hs)"
  by (cases ph) auto

lemma handles_step:
  assumes ok: "handles_ok m" and "mem_step x m = Some m'"
  shows "handles_ok m'"
  using mem_step_cases [OF assms(2)]
proof (elim disjE exE conjE)
  fix t a assume a: "dget (mc_tasks m) t = Some a" and "moved t a m m'"
  then obtain ph m1 where mv: "moves m t a ph m1" and m': "m' = set_phase t ph m1" by (auto simp: moved_def)
  note get = moved_get [OF mv a]
  from moves_tensors [OF mv] show ?thesis
  proof (elim disjE exE conjE)
    assume "\<not> holds ph" "mc_counter m1 = mc_counter m"
    with ok show ?thesis unfolding handles_ok_def m' get by (auto simp: holds_iff)
  next
    fix hs assume "\<not> holds ph" "mc_counter m1 = mc_counter m"
    with ok show ?thesis unfolding handles_ok_def m' get by (auto simp: holds_iff)
  next
    fix hs assume hs: "hs = map (\<lambda>i. mc_counter m + int i) [0..<length (al_descrs a)]" "ph = Holding hs"
      and c: "mc_counter m1 = mc_counter m + int (length (al_descrs a))"
    have new: "length hs = length (al_descrs a)" "distinct hs" "\<And>h. h \<in> set hs \<Longrightarrow> mc_counter m \<le> h \<and> h < mc_counter m1"
      unfolding hs(1) c by (auto simp: distinct_map inj_on_def)
    have old: "\<And>u b hs' h. dget (mc_tasks m) u = Some b \<Longrightarrow> al_phase b = Holding hs' \<Longrightarrow> h \<in> set hs' \<Longrightarrow> h < mc_counter m"
      using ok unfolding handles_ok_def by blast
    have "set hs \<inter> set hs' = {}" if "dget (mc_tasks m) u = Some b" "al_phase b = Holding hs'" for u b hs'
      using new(3) old [OF that] by force
    moreover have "h < mc_counter m1" if "dget (mc_tasks m) u = Some b" "al_phase b = Holding hs'" "h \<in> set hs'" for u b hs' h
      using old [OF that] c by simp
    ultimately show ?thesis
      using ok new unfolding handles_ok_def m' get by (auto simp: hs(2) Int_commute)
  qed
qed (use ok in \<open>auto simp: handles_ok_def drain_pipe_def dict_simps\<close>)

lemma dget_fold_dset:
  "length hs = length tds \<Longrightarrow> distinct hs \<Longrightarrow>
     dget (fold (\<lambda>(h, td). dset h td) (zip hs tds) d) k = (case dget (zip hs tds) k of None \<Rightarrow> dget d k | Some td \<Rightarrow> Some td)"
  by (induction hs tds arbitrary: d rule: list_induct2) (auto simp: dict_simps split: option.splits dest: map_of_SomeD set_zip_leftD)

lemma dget_fold_ddel: "dget (fold ddel hs d) k = (if k \<in> set hs then None else dget d k)"
  by (induction hs arbitrary: d) (auto simp: dict_simps)

definition owned_by :: "phase \<Rightarrow> 'd alloc \<Rightarrow> (int \<times> 'd tensor_descr) set" where
  "owned_by ph a = (case ph of Holding hs \<Rightarrow> set (zip hs (al_descrs a)) | _ \<Rightarrow> {})"

definition owned_except :: "nat \<Rightarrow> 'd memory \<Rightarrow> (int \<times> 'd tensor_descr) set" where
  "owned_except t m = {x. \<exists>u b. u \<noteq> t \<and> dget (mc_tasks m) u = Some b \<and> x \<in> owned_by (al_phase b) b}"

lemma owned_by_simps [simp]:
  "owned_by (Holding hs) a = set (zip hs (al_descrs a))" "\<not> holds ph \<Longrightarrow> owned_by ph a = {}"
  "owned_by ph (a\<lparr>al_phase := ph'\<rparr>) = owned_by ph a"
  by (cases ph; simp add: owned_by_def)+

lemma owned_by_iff: "(h, td) \<in> owned_by ph b \<longleftrightarrow> (\<exists>hs. ph = Holding hs \<and> (h, td) \<in> set (zip hs (al_descrs b)))"
  by (cases ph) (auto simp: owned_by_def)

lemma owned_iff: "x \<in> owned m \<longleftrightarrow> (\<exists>u b. dget (mc_tasks m) u = Some b \<and> x \<in> owned_by (al_phase b) b)"
  by (cases x) (auto simp: owned_def owned_by_iff)

lemma owned_split: "dget (mc_tasks m) t = Some a \<Longrightarrow> owned m = owned_by (al_phase a) a \<union> owned_except t m"
  by (rule set_eqI) (auto simp: owned_iff owned_except_def, metis option.inject)

lemma owned_except_move:
  assumes "moves m t a ph m1" and "dget (mc_tasks m) t = Some a"
  shows "owned_except t (set_phase t ph m1) = owned_except t m"
  unfolding owned_except_def moved_get [OF assms] by auto

lemma tensors_step:
  assumes ok: "tensors_ok m" and hk: "handles_ok m" and "mem_step x m = Some m'"
  shows "tensors_ok m'"
  using mem_step_cases [OF assms(3)]
proof (elim disjE exE conjE)
  fix t a assume a: "dget (mc_tasks m) t = Some a" and "moved t a m m'"
  then obtain ph m1 where mv: "moves m t a ph m1" and m': "m' = set_phase t ph m1" by (auto simp: moved_def)
  have s: "seen m' = seen m1" by (simp add: m' seen_def drain_pipe_def)
  have T: "dget (seen m) h = Some td \<longleftrightarrow> (h, td) \<in> owned m" for h td using ok by (simp add: tensors_ok_def seen_def)
  have "dget (mc_tasks m') t = Some (a\<lparr>al_phase := ph\<rparr>)" by (simp add: m' moved_get [OF mv a])
  from owned_split [OF this] owned_except_move [OF mv a]
  have o': "owned m' = owned_by ph a \<union> owned_except t m" by (simp add: m')
  note o = owned_split [OF a]
  from moves_tensors [OF mv] show ?thesis
  proof (elim disjE exE conjE)
    assume n: "\<not> holds ph" "\<not> holds (al_phase a)" "seen m1 = seen m"
    then have "owned m' = owned m" by (simp add: o o')
    then show ?thesis using T n(3) s by (simp add: tensors_ok_def flip: seen_def)
  next
    fix hs assume hs: "hs = map (\<lambda>i. mc_counter m + int i) [0..<length (al_descrs a)]" "ph = Holding hs" "\<not> holds (al_phase a)"
      and sn: "seen m1 = fold (\<lambda>(h, td). dset h td) (zip hs (al_descrs a)) (seen m)"
    have l: "length hs = length (al_descrs a)" "distinct hs" unfolding hs(1) by (auto simp: distinct_map inj_on_def)
    have new: "owned m' = owned m \<union> set (zip hs (al_descrs a))" using hs(2,3) by (auto simp: o o')
    have fresh: "dget (seen m) h = None" if "h \<in> set hs" for h
    proof (rule ccontr)
      assume "dget (seen m) h \<noteq> None"
      then obtain td where "(h, td) \<in> owned m" using T by auto
      then obtain u b hs' where "dget (mc_tasks m) u = Some b" "al_phase b = Holding hs'" "h \<in> set hs'"
        by (auto simp: owned_def dest: set_zip_leftD)
      then have "h < mc_counter m" using hk unfolding handles_ok_def by blast
      with that show False unfolding hs(1) by auto
    qed
    have "dget (seen m') h = Some td \<longleftrightarrow> (h, td) \<in> owned m'" for h td
    proof (cases "h \<in> set hs")
      case True
      then have "(h, td) \<notin> owned m" using fresh T by (metis option.distinct(1))
      moreover obtain x where x: "dget (zip hs (al_descrs a)) h = Some x"
        using l True by (metis map_of_zip_is_Some)
      moreover have "(h, td) \<in> set (zip hs (al_descrs a)) \<longleftrightarrow> x = td"
        using l x by (metis map_of_eq_Some_iff map_fst_zip option.inject)
      ultimately show ?thesis unfolding s sn new using l by (simp add: dget_fold_dset)
    next
      case False
      then have none: "dget (zip hs (al_descrs a)) h = None" using l by (simp add: map_of_zip_is_None)
      have "dget (seen m') h = dget (seen m) h" unfolding s sn dget_fold_dset [OF l] none by simp
      moreover have "(h, td) \<notin> set (zip hs (al_descrs a))" using False by (auto dest: set_zip_leftD)
      ultimately show ?thesis using T by (simp add: new)
    qed
    then show ?thesis by (simp add: tensors_ok_def flip: seen_def)
  next
    fix hs assume hs: "al_phase a = Holding hs" "\<not> holds ph" and sn: "seen m1 = fold ddel hs (seen m)"
    have l: "length hs = length (al_descrs a)" using hk a hs(1) by (simp add: handles_ok_def)
    have apart: "h \<notin> set hs" if e: "(h, td) \<in> owned_except t m" for h td
    proof -
      from e obtain u b hs' where "u \<noteq> t" "dget (mc_tasks m) u = Some b" "al_phase b = Holding hs'" "h \<in> set hs'"
        by (auto simp: owned_except_def owned_by_iff dest: set_zip_leftD)
      then show ?thesis using hk a hs(1) unfolding handles_ok_def by blast
    qed
    have "(h, td) \<in> owned m' \<longleftrightarrow> (h, td) \<in> owned m \<and> h \<notin> set hs" for h td
      using apart hs by (auto simp: o o' dest: set_zip_leftD)
    then show ?thesis unfolding tensors_ok_def using T by (auto simp: s sn dget_fold_ddel simp flip: seen_def)
  qed
next
  fix t p tds timeout timeout1 n
  assume n: "dget (mc_tasks m) t = None" and m': "m' = m\<lparr>mc_enqueued := mc_enqueued m + int n, mc_tasks := dset t \<lparr>al_proc = p, al_size = n, al_descrs = tds,
             al_timeout = timeout1, al_phase = Entered\<rparr> (mc_tasks m)\<rparr>"
  have "owned m' = owned m" unfolding owned_def m' by (auto simp: begin_get [OF n])
  then show ?thesis using ok by (simp add: tensors_ok_def m' drain_pipe_def)
qed (use ok in \<open>auto simp: tensors_ok_def owned_def drain_pipe_def\<close>)

section \<open>Wake-ups\<close>

lemma moves_wakeup:
  assumes "moves m t a ph m1"
  shows "(ph = Blocked \<longrightarrow> mc_current m1 + int (al_size a) > int (mc_max m1)) \<and> (mc_current m \<le> mc_current m1 \<or> ph = Freeing)
    \<and> (al_phase a = Freeing \<longrightarrow> mc_event m1) \<and> (mc_event m \<longrightarrow> mc_event m1 \<or> al_phase a = Blocked)"
  using assms by cases auto

lemma wakeup_step:
  assumes ok: "wakeup_ok m" and lk: "lock_ok m" and "mem_step x m = Some m'"
  shows "wakeup_ok m'"
  using mem_step_cases [OF assms(3)]
proof (elim disjE exE conjE)
  fix t a assume a: "dget (mc_tasks m) t = Some a" and "moved t a m m'"
  then obtain ph m1 where mv: "moves m t a ph m1" and m': "m' = set_phase t ph m1" by (auto simp: moved_def)
  note get = moved_get [OF mv a] 
  from moves_wakeup [OF mv] have w: "ph = Blocked \<longrightarrow> mc_current m1 + int (al_size a) > int (mc_max m1)"
    "mc_current m \<le> mc_current m1 \<or> ph = Freeing" "al_phase a = Freeing \<longrightarrow> mc_event m1"
    "mc_event m \<longrightarrow> mc_event m1 \<or> al_phase a = Blocked" by blast+
  show ?thesis unfolding wakeup_ok_def
  proof (intro allI impI, elim conjE)
    fix s b assume b: "dget (mc_tasks m') s = Some b" "al_phase b = Blocked" and e: "\<not> mc_event m'"
      and nf: "\<forall>u c. dget (mc_tasks m') u = Some c \<longrightarrow> al_phase c \<noteq> Freeing"
    show "int (mc_max m') < mc_current m' + int (al_size b)"
    proof (cases "s = t")
      case True
      with b have "b = a\<lparr>al_phase := ph\<rparr>" "ph = Blocked" by (auto simp: m' get)
      with w(1) show ?thesis by (simp add: m')
    next
      case False
      then have s: "dget (mc_tasks m) s = Some b" using b by (simp add: m' get)
      then have "mc_lock m = Some s" using lk b(2) by (auto simp: lock_ok_def has_lock_def)
      then have "al_phase a \<noteq> Blocked" using lk a False by (auto simp: lock_ok_def has_lock_def)
      then have ne: "\<not> mc_event m" using w(4) e by (auto simp: m')
      have "al_phase a \<noteq> Freeing" using w(3) e by (auto simp: m')
      then have "\<forall>u c. dget (mc_tasks m) u = Some c \<longrightarrow> al_phase c \<noteq> Freeing"
        using nf a unfolding m' get by (metis option.inject)
      then have "int (mc_max m) < mc_current m + int (al_size b)" using ok s b(2) ne unfolding wakeup_ok_def by blast
      moreover have "ph \<noteq> Freeing" using nf [rule_format, of t] by (simp add: m' get)
      ultimately show ?thesis using w(2) by (simp add: m' moves_frame [OF mv])
    qed
  qed
next
  fix t p tds timeout timeout1 n
  assume n: "dget (mc_tasks m) t = None" and m': "m' = m\<lparr>mc_enqueued := mc_enqueued m + int n, mc_tasks := dset t \<lparr>al_proc = p, al_size = n, al_descrs = tds,
             al_timeout = timeout1, al_phase = Entered\<rparr> (mc_tasks m)\<rparr>"
  then have "\<forall>s b. al_phase b \<in> {Blocked, Freeing} \<longrightarrow> dget (mc_tasks m') s = Some b \<longleftrightarrow> dget (mc_tasks m) s = Some b"
    by (auto simp: begin_get)
  with ok show ?thesis unfolding wakeup_ok_def by (simp add: m') (metis insertCI)
qed (use ok in \<open>simp_all add: wakeup_ok_def drain_pipe_def\<close>)

section \<open>What is in flight\<close>

text \<open>Allocations that were or may be admitted are alone in the event loop of their process.\<close>

definition loops_ok :: "'d memory \<Rightarrow> bool" where
  "loops_ok m \<longleftrightarrow>
     (\<forall>t a u b. dget (mc_tasks m) t = Some a \<and> dget (mc_tasks m) u = Some b \<and> t \<noteq> u \<and> al_proc a = al_proc b
        \<and> al_phase a \<in> {Looping, Blocked, Admitted, Unlocked, Granted} \<longrightarrow> al_phase b \<notin> {Unlocked, Granted})"

lemma loop_taken_iff:
  assumes "dict_ok (mc_tasks m)"
  shows "loop_taken p t m \<longleftrightarrow> (\<exists>u b. u \<noteq> t \<and> dget (mc_tasks m) u = Some b \<and> al_proc b = p \<and> al_phase b \<in> {Unlocked, Granted})"
  using assms by (auto simp: loop_taken_def list_ex_iff dict_ok_def map_of_eq_Some_iff)

lemma moves_loops:
  assumes "moves m t a ph m1"
  shows "(ph \<in> {Looping, Blocked, Admitted, Unlocked, Granted} \<longrightarrow>
      al_phase a \<in> {Looping, Blocked, Admitted, Unlocked, Granted} \<or> \<not> loop_taken (al_proc a) t m)
    \<and> (ph \<in> {Unlocked, Granted} \<longrightarrow> al_phase a \<in> {Unlocked, Granted} \<or> al_phase a = Admitted \<and> \<not> loop_taken (al_proc a) t m)"
  using assms by cases auto

lemma loops_step:
  assumes ok: "loops_ok m" and lk: "lock_ok m" and d: "dict_ok (mc_tasks m)" and "mem_step x m = Some m'"
  shows "loops_ok m'"
  using mem_step_cases [OF assms(4)]
proof (elim disjE exE conjE)
  fix t a assume a: "dget (mc_tasks m) t = Some a" and "moved t a m m'"
  then obtain ph m1 where mv: "moves m t a ph m1" and m': "m' = set_phase t ph m1" by (auto simp: moved_def)
  note get = moved_get [OF mv a] 
  let ?W = "{Looping, Blocked, Admitted, Unlocked, Granted}" and ?G = "{Unlocked, Granted}"
  have old: "al_phase c \<notin> ?G" if "dget (mc_tasks m) s = Some b" "dget (mc_tasks m) u = Some c" "s \<noteq> u"
      "al_proc b = al_proc c" "al_phase b \<in> ?W" for s b u c
    using ok that unfolding loops_ok_def by blast
  have one: "al_phase c \<notin> ?G" if "ph \<in> ?W" "dget (mc_tasks m) u = Some c" "u \<noteq> t" "al_proc c = al_proc a" for u c
    using moves_loops [OF mv] old [OF a that(2)] that loop_taken_iff [OF d] by metis
  have two: "al_phase b \<notin> ?W" if "ph \<in> ?G" "dget (mc_tasks m) s = Some b" "s \<noteq> t" "al_proc b = al_proc a" for s b
  proof
    assume w: "al_phase b \<in> ?W"
    have "al_phase a \<in> ?G \<or> al_phase a = Admitted \<and> \<not> loop_taken (al_proc a) t m"
      using moves_loops [OF mv] that(1) by blast
    then show False
    proof
      assume "al_phase a \<in> ?G"
      with old [OF that(2) a that(3,4) w] show False by blast
    next
      assume ad: "al_phase a = Admitted \<and> \<not> loop_taken (al_proc a) t m"
      then have "mc_lock m = Some t" using lk a by (auto simp: lock_ok_def has_lock_def)
      then have "\<not> has_lock (al_phase b)" using lk that(2,3) by (metis lock_ok_def option.inject)
      then have "al_phase b \<in> ?G" using w by (auto simp: has_lock_def)
      with ad that loop_taken_iff [OF d] show False by metis
    qed
  qed
  show ?thesis unfolding loops_ok_def
  proof (intro allI impI, elim conjE)
    fix s b u c assume "dget (mc_tasks m') s = Some b" "dget (mc_tasks m') u = Some c" "s \<noteq> u" "al_proc b = al_proc c"
      "al_phase b \<in> ?W"
    then show "al_phase c \<notin> ?G"
      using old [of s b u c] one [of u c] two [of s b] by (auto simp: m' get split: if_splits)
  qed
next
  fix t p tds timeout timeout1 n
  assume m': "m' = m\<lparr>mc_enqueued := mc_enqueued m + int n, mc_tasks := dset t \<lparr>al_proc = p, al_size = n, al_descrs = tds,
             al_timeout = timeout1, al_phase = Entered\<rparr> (mc_tasks m)\<rparr>"
  then have get: "dget (mc_tasks m') s = Some b \<Longrightarrow> dget (mc_tasks m) s = Some b \<or> al_phase b = Entered" for s b
    by (auto simp: dict_simps split: if_splits)
  then show ?thesis using ok unfolding loops_ok_def by (metis insertE phase.distinct singletonD)
next
  fix hs assume "m' = drain_pipe m"
  then have "mc_tasks m' = mc_tasks m" by (simp add: drain_pipe_def)
  with ok show ?thesis unfolding loops_ok_def by metis
qed (use ok in simp)

section \<open>How far the cache overflows\<close>

definition in_flight_tasks :: "'d memory \<Rightarrow> nat set" where
  "in_flight_tasks m = {t. \<exists>a. dget (mc_tasks m) t = Some a \<and> in_flight (al_phase a)}"

text \<open>Allocations of at most \<open>M\<close> bytes in processes below \<open>k\<close>.\<close>

definition sizes_ok :: "nat \<Rightarrow> nat \<Rightarrow> 'd memory \<Rightarrow> bool" where
  "sizes_ok k M m \<longleftrightarrow> (\<forall>t a. dget (mc_tasks m) t = Some a \<longrightarrow> al_proc a < k \<and> al_size a \<le> M)"

definition overflow_ok :: "nat \<Rightarrow> nat \<Rightarrow> 'd memory \<Rightarrow> bool" where
  "overflow_ok k M m \<longleftrightarrow> mc_current m + sum_where in_flight m \<le> int (mc_max m) + int ((k - 1) * M)"

lemma task_sum_set:
  assumes "dict_ok (mc_tasks m)"
  shows "task_sum f m = (\<Sum>t \<in> dom (dget (mc_tasks m)). f (the (dget (mc_tasks m) t)))"
proof -
  have d: "distinct (map fst (mc_tasks m))" using assms by (simp add: dict_ok_def)
  have "task_sum f m = (\<Sum>t\<leftarrow>map fst (mc_tasks m). f (the (dget (mc_tasks m) t)))"
    using d unfolding task_sum_def by (simp cong: map_cong) (rule arg_cong [where f = sum_list], auto)
  also have "\<dots> = (\<Sum>t \<in> set (map fst (mc_tasks m)). f (the (dget (mc_tasks m) t)))"
    using d by (simp only: sum_list_distinct_conv_sum_set)
  finally show ?thesis by (simp add: dom_map_of_conv_image_fst)
qed

lemma in_flight_procs:
  assumes lk: "lock_ok m" and lp: "loops_ok m" and t: "t \<in> in_flight_tasks m" and u: "u \<in> in_flight_tasks m" and "t \<noteq> u"
    and a: "dget (mc_tasks m) t = Some a" and b: "dget (mc_tasks m) u = Some b"
  shows "al_proc a \<noteq> al_proc b"
proof
  assume p: "al_proc a = al_proc b"
  have fa: "in_flight (al_phase a)" "in_flight (al_phase b)" using t u a b by (auto simp: in_flight_tasks_def)
  have "al_phase b \<notin> {Unlocked, Granted}" "al_phase a \<notin> {Unlocked, Granted}"
    using lp a b p \<open>t \<noteq> u\<close> fa unfolding loops_ok_def in_flight_def by (metis insertCI insertE singletonD)+
  then have "has_lock (al_phase a)" "has_lock (al_phase b)" using fa by (auto simp: in_flight_def has_lock_def)
  with lk a b \<open>t \<noteq> u\<close> show False unfolding lock_ok_def by (metis option.inject)
qed

lemma in_flight_small:
  assumes "lock_ok m" and "loops_ok m" and sz: "sizes_ok k M m" and d: "dict_ok (mc_tasks m)"
    and t: "t \<in> in_flight_tasks m" and a: "dget (mc_tasks m) t = Some a"
  shows "sum_where in_flight m \<le> int (al_size a) + int ((k - 1) * M)"
proof -
  let ?D = "dom (dget (mc_tasks m))" and ?F = "in_flight_tasks m" and ?a = "\<lambda>u. the (dget (mc_tasks m) u)"
  have sub: "?F \<subseteq> ?D" by (auto simp: in_flight_tasks_def)
  have fin: "finite ?D" by (rule finite_dom_map_of)
  have "sum_where in_flight m = (\<Sum>u \<in> ?F. int (al_size (?a u)))"
    unfolding sum_where_def task_sum_set [OF d]
    by (rule sum.mono_neutral_cong_right [OF fin sub]) (auto simp: in_flight_tasks_def)
  also have "\<dots> = int (al_size a) + (\<Sum>u \<in> ?F - {t}. int (al_size (?a u)))"
    using t a finite_subset [OF sub fin] by (simp add: sum.remove [of _ t])
  finally have sum: "sum_where in_flight m = int (al_size a) + (\<Sum>u \<in> ?F - {t}. int (al_size (?a u)))" .
  have "inj_on (\<lambda>u. al_proc (?a u)) ?F"
  proof (rule inj_onI)
    fix u v assume u: "u \<in> ?F" and v: "v \<in> ?F" and e: "al_proc (?a u) = al_proc (?a v)"
    then obtain b c where "dget (mc_tasks m) u = Some b" "dget (mc_tasks m) v = Some c"
      by (auto simp: in_flight_tasks_def)
    with in_flight_procs [OF assms(1,2) u v] e show "u = v" by auto
  qed
  then have "card (?F - {t}) = card ((\<lambda>u. al_proc (?a u)) ` (?F - {t}))"
    by (metis card_image inj_on_diff)
  also have "\<dots> \<le> card ({..<k} - {al_proc a})"
  proof (rule card_mono)
    show "(\<lambda>u. al_proc (?a u)) ` (?F - {t}) \<subseteq> {..<k} - {al_proc a}"
    proof
      fix p assume "p \<in> (\<lambda>u. al_proc (?a u)) ` (?F - {t})"
      then obtain u where F: "u \<in> ?F" "u \<noteq> t" "p = al_proc (?a u)" by blast
      then obtain b where u: "u \<in> ?F" "u \<noteq> t" "dget (mc_tasks m) u = Some b" "p = al_proc b"
        by (auto simp: in_flight_tasks_def)
      with in_flight_procs [OF assms(1,2) t u(1) _ a u(3)] sz show "p \<in> {..<k} - {al_proc a}"
        by (auto simp: sizes_ok_def)
    qed
  qed simp
  also have "\<dots> = k - 1" using sz a by (auto simp: sizes_ok_def card_Diff_singleton)
  finally have card: "card (?F - {t}) \<le> k - 1" .
  have "(\<Sum>u \<in> ?F - {t}. int (al_size (?a u))) \<le> int (card (?F - {t})) * int M"
    using sz by (intro sum_bounded_above [THEN order_trans]) (auto simp: in_flight_tasks_def sizes_ok_def)
  also have "\<dots> \<le> int ((k - 1) * M)" using card by (simp add: mult_right_mono)
  finally show ?thesis using sum by simp
qed

lemma sizes_step:
  assumes ok: "sizes_ok k M m" and "mem_step x m = Some m'"
    and "\<And>t p tds timeout n. x = Begin t p tds timeout \<Longrightarrow> allocation_size tds = Inr n \<Longrightarrow> p < k \<and> n \<le> M"
  shows "sizes_ok k M m'"
  using mem_step_cases [OF assms(2)]
proof (elim disjE exE conjE)
  fix t a assume a: "dget (mc_tasks m) t = Some a" and "moved t a m m'"
  then obtain ph m1 where mv: "moves m t a ph m1" and m': "m' = set_phase t ph m1" by (auto simp: moved_def)
  show ?thesis using ok a unfolding sizes_ok_def m' moved_get [OF mv a] by auto
qed (use ok assms(3) in \<open>auto simp: sizes_ok_def drain_pipe_def dict_simps split: if_splits\<close>)

lemma moves_overflow:
  assumes "moves m t a ph m1"
  shows "ph = Admitted \<and> mc_current m1 = mc_current m \<and> mc_current m + int (al_size a) \<le> int (mc_max m)
    \<or> mc_current m1 + (if in_flight ph then int (al_size a) else 0)
        \<le> mc_current m + (if in_flight (al_phase a) then int (al_size a) else 0)"
  using assms by cases (auto simp: in_flight_def)

lemma moved_sum:
  assumes "moves m t a ph m1" and "dget (mc_tasks m) t = Some a" and "dict_ok (mc_tasks m)"
  shows "sum_where P (set_phase t ph m1) = sum_where P m - (if P (al_phase a) then int (al_size a) else 0)
    + (if P ph then int (al_size a) else 0)"
proof -
  have "sum_where P m1 = sum_where P m" by (simp add: sum_where_def task_sum_def moves_frame [OF assms(1)])
  then show ?thesis
    using task_sum_phase [of m1 t a] assms(2,3) by (simp add: sum_where_def moves_frame [OF assms(1)])
qed

lemma overflow_step:
  assumes ok: "overflow_ok k M m" and "mem_step x m = Some m'" and d: "dict_ok (mc_tasks m)"
    and inv: "lock_ok m'" "loops_ok m'" "sizes_ok k M m'" "dict_ok (mc_tasks m')"
  shows "overflow_ok k M m'"
  using mem_step_cases [OF assms(2)]
proof (elim disjE exE conjE)
  fix t a assume a: "dget (mc_tasks m) t = Some a" and "moved t a m m'"
  then obtain ph m1 where mv: "moves m t a ph m1" and m': "m' = set_phase t ph m1" by (auto simp: moved_def)
  have fr: "mc_current m' = mc_current m1" "mc_max m' = mc_max m" by (simp_all add: m' moves_frame [OF mv])
  have sum: "sum_where in_flight m' = sum_where in_flight m - (if in_flight (al_phase a) then int (al_size a) else 0)
    + (if in_flight ph then int (al_size a) else 0)"
    unfolding m' by (rule moved_sum [OF mv a d])
  from moves_overflow [OF mv] show ?thesis
  proof (elim disjE conjE)
    assume ad: "ph = Admitted" "mc_current m1 = mc_current m" "mc_current m + int (al_size a) \<le> int (mc_max m)"
    have t: "dget (mc_tasks m') t = Some (a\<lparr>al_phase := ph\<rparr>)" by (simp add: m' moved_get [OF mv a])
    then have "t \<in> in_flight_tasks m'" using ad(1) by (simp add: in_flight_tasks_def in_flight_def)
    from in_flight_small [OF inv this t] ad fr show ?thesis by (simp add: overflow_ok_def)
  next
    assume "mc_current m1 + (if in_flight ph then int (al_size a) else 0)
        \<le> mc_current m + (if in_flight (al_phase a) then int (al_size a) else 0)"
    with ok sum fr show ?thesis by (simp add: overflow_ok_def)
  qed
next
  fix t p tds timeout timeout1 n
  assume n: "dget (mc_tasks m) t = None" and m': "m' = m\<lparr>mc_enqueued := mc_enqueued m + int n, mc_tasks := dset t \<lparr>al_proc = p, al_size = n, al_descrs = tds,
             al_timeout = timeout1, al_phase = Entered\<rparr> (mc_tasks m)\<rparr>"
  then have "sum_where in_flight m' = sum_where in_flight m" by (simp add: sum_where_def task_sum_new in_flight_def)
  with ok show ?thesis by (simp add: overflow_ok_def m')
qed (use ok in \<open>simp_all add: overflow_ok_def sum_where_def drain_pipe_def task_sum_def\<close>)

section \<open>Every run\<close>

definition memory_ok :: "'d memory \<Rightarrow> bool" where
  "memory_ok m \<longleftrightarrow> accounts_ok m \<and> lock_ok m \<and> handles_ok m \<and> tensors_ok m \<and> wakeup_ok m \<and> loops_ok m"

lemma memory_ok_init: "memory_ok (memory_init n x)"
  using mem_init_ok [of n x] by (simp add: memory_ok_def loops_ok_def memory_init_def)

lemma memory_ok_step: "memory_ok m \<Longrightarrow> mem_step x m = Some m' \<Longrightarrow> memory_ok m'"
  unfolding memory_ok_def
  using accounts_step lock_step handles_step tensors_step wakeup_step loops_step by (metis accounts_ok_def)

lemma memory_ok_run: "memory_ok m \<Longrightarrow> mem_run xs m = Some m' \<Longrightarrow> memory_ok m'"
  by (induction xs arbitrary: m) (auto split: option.splits dest: memory_ok_step)

lemma use_cache_holding:
  assumes "memory_ok m" and "dget (mc_tasks m) t = Some a" and "al_phase a = Holding hs"
  shows "fst (use_cache hs m) = Inr (al_descrs a)"
proof -
  have l: "length hs = length (al_descrs a)" using assms by (auto simp: memory_ok_def handles_ok_def)
  have "dget (mc_tensors (drain_pipe m)) (hs ! i) = Some (al_descrs a ! i)" if "i < length hs" for i
  proof -
    have "(hs ! i, al_descrs a ! i) \<in> owned m"
      using assms(2,3) that l unfolding owned_def by (force simp: in_set_conv_nth)
    then show ?thesis using assms(1) by (simp add: memory_ok_def tensors_ok_def)
  qed
  then show ?thesis
    using l by (auto simp: use_cache_def Let_def rmap_Inr_iff list_all2_conv_all_nth)
qed

lemma owned_handles:
  assumes "\<And>t a hs. dget (mc_tasks m) t = Some a \<Longrightarrow> al_phase a = Holding hs \<Longrightarrow> length hs = length (al_descrs a)"
  shows "(\<exists>td. (h, td) \<in> owned m) \<longleftrightarrow> (\<exists>t a hs. dget (mc_tasks m) t = Some a \<and> al_phase a = Holding hs \<and> h \<in> set hs)"
proof
  assume "\<exists>td. (h, td) \<in> owned m"
  then show "\<exists>t a hs. dget (mc_tasks m) t = Some a \<and> al_phase a = Holding hs \<and> h \<in> set hs"
    unfolding owned_def by (blast dest: set_zip_leftD)
next
  assume "\<exists>t a hs. dget (mc_tasks m) t = Some a \<and> al_phase a = Holding hs \<and> h \<in> set hs"
  then obtain t a hs where h: "dget (mc_tasks m) t = Some a" "al_phase a = Holding hs" "h \<in> set hs" by blast
  then obtain td where "(h, td) \<in> set (zip hs (al_descrs a))"
    using assms by (metis in_set_impl_in_set_zip1)
  with h show "\<exists>td. (h, td) \<in> owned m" unfolding owned_def by blast
qed

text \<open>C27. In every interleaving of the allocations of all handlers, the size of the cache is the sum of the sizes
  of the allocations that hold tensors, the enqueued size that of the allocations that wait, and once
  the runtime has read the pipe its tensors are exactly those of the holding allocations, each of
  which gets its own. So tensors are deleted when their allocation is freed.\<close>

theorem cache_accounts:
  assumes "mem_run xs (memory_init max_size max_timeout) = Some m"
  shows "mc_current m = (\<Sum>a\<leftarrow>dvalues (mc_tasks m). if holds (al_phase a) then int (al_size a) else 0)
    \<and> mc_enqueued m = (\<Sum>a\<leftarrow>dvalues (mc_tasks m). if in_queue (al_phase a) then int (al_size a) else 0)
    \<and> (\<forall>h. dget (mc_tensors (drain_pipe m)) h \<noteq> None \<longleftrightarrow>
          (\<exists>t a hs. dget (mc_tasks m) t = Some a \<and> al_phase a = Holding hs \<and> h \<in> set hs))
    \<and> (\<forall>t a hs. dget (mc_tasks m) t = Some a \<and> al_phase a = Holding hs \<longrightarrow> fst (use_cache hs m) = Inr (al_descrs a))"
proof -
  have ok: "memory_ok m" using memory_ok_run [OF memory_ok_init assms] .
  then have T: "dget (mc_tensors (drain_pipe m)) h = Some td \<longleftrightarrow> (h, td) \<in> owned m" for h td
    by (simp add: memory_ok_def tensors_ok_def)
  have l: "length hs = length (al_descrs a)" if "dget (mc_tasks m) t = Some a" "al_phase a = Holding hs" for t a hs
    using ok that by (auto simp: memory_ok_def handles_ok_def)
  have "(\<exists>td. (h, td) \<in> owned m) \<longleftrightarrow> (\<exists>t a hs. dget (mc_tasks m) t = Some a \<and> al_phase a = Holding hs \<and> h \<in> set hs)" for h
    by (rule owned_handles [OF l])
  then have "dget (mc_tensors (drain_pipe m)) h \<noteq> None \<longleftrightarrow>
      (\<exists>t a hs. dget (mc_tasks m) t = Some a \<and> al_phase a = Holding hs \<and> h \<in> set hs)" for h
    unfolding not_None_eq T .
  moreover have "accounts_ok m" using ok by (simp add: memory_ok_def)
  ultimately show ?thesis
    using use_cache_holding [OF ok] unfolding accounts_ok_def sum_where_def task_sum_def by blast
qed

lemma overflow_run:
  assumes "memory_ok m" and "overflow_ok k M m" and "sizes_ok k M m"
    and "\<forall>t p tds timeout. Begin t p tds timeout \<in> set xs \<longrightarrow> p < k \<and> (\<forall>n. allocation_size tds = Inr n \<longrightarrow> n \<le> M)"
  shows "mem_run xs m = Some m' \<Longrightarrow> overflow_ok k M m'"
  using assms
proof (induction xs arbitrary: m)
  case (Cons x xs)
  then obtain m1 where m1: "mem_step x m = Some m1" "mem_run xs m1 = Some m'" by (auto split: option.splits)
  have ok: "memory_ok m1" using memory_ok_step Cons.prems(2) m1(1) .
  have sz: "sizes_ok k M m1" by (rule sizes_step [OF Cons.prems(4) m1(1)]) (use Cons.prems(5) in auto)
  have "overflow_ok k M m1"
    by (rule overflow_step [OF Cons.prems(3) m1(1)])
      (use Cons.prems(2) ok sz in \<open>auto simp: memory_ok_def accounts_ok_def\<close>)
  from Cons.IH [OF m1(2) ok this sz] Cons.prems(5) show ?case by (meson list.set_intros(2))
qed simp

lemma sum_where_nonneg: "0 \<le> sum_where P m"
  unfolding sum_where_def task_sum_def by (rule sum_list_nonneg) auto

text \<open>C28. With \<open>k\<close> handler processes and allocations of at most \<open>M\<close> bytes the cache holds at most \<open>(k - 1) * M\<close>
  bytes more than its maximum: the test and the booking of an allocation are not one step, but only
  another process can come in between. With one process the maximum is kept.\<close>

theorem cache_overflow_bounded:
  assumes "\<forall>t p tds timeout. Begin t p tds timeout \<in> set xs \<longrightarrow> p < k \<and> (\<forall>n. allocation_size tds = Inr n \<longrightarrow> n \<le> M)"
    and "mem_run xs (memory_init (Some max_size) max_timeout) = Some m"
  shows "mc_current m \<le> int max_size + int ((k - 1) * M)"
proof -
  have mx: "mem_run xs m0 = Some m \<Longrightarrow> mc_max m = mc_max m0" for m0
  proof (induction xs arbitrary: m0)
    case (Cons x xs)
    then obtain m1 where m1: "mem_step x m0 = Some m1" "mem_run xs m1 = Some m" by (auto split: option.splits)
    have "mc_max m1 = mc_max m0"
      using mem_step_cases [OF m1(1)] by (auto simp: drain_pipe_def moved_def dest: moves_frame(2))
    with Cons.IH [OF m1(2)] show ?case by simp
  qed simp
  have "overflow_ok k M m"
    by (rule overflow_run [OF memory_ok_init _ _ assms])
      (simp_all add: overflow_ok_def sizes_ok_def memory_init_def sum_where_def task_sum_def)
  then show ?thesis using sum_where_nonneg [of in_flight m] mx [OF assms(2)] by (simp add: overflow_ok_def memory_init_def)
qed

section \<open>Examples\<close>

definition mx_descr :: "nat \<Rightarrow> string tensor_descr list" where
  "mx_descr n = [\<lparr>td_device = ''cuda:0'', td_shape = [n], td_dtype_bytes = 1\<rparr>]"

text \<open>Two processes pass the test before either has booked its size; then both free.\<close>

definition mx_race :: "string mem_op list" where
  "mx_race =
     [Begin 1 0 (mx_descr 60) 5, Enter 1, Begin 2 1 (mx_descr 60) 5, Enter 2,
      Acquire 1, Check 1, Unlock 1, Acquire 2, Check 2, Unlock 2,
      Dequeue 1, Commit 1, Dequeue 2, Commit 2]"

lemma cache_overflows: "map_option mc_current (mem_run mx_race (memory_init (Some 100) None)) = Some 120"
  by code_simp

lemma mx_begins:
  "\<forall>t p tds timeout. Begin t p tds timeout \<in> set mx_race \<longrightarrow> p < 2 \<and> (\<forall>n. allocation_size tds = Inr n \<longrightarrow> n \<le> 60)"
proof -
  have "allocation_size (mx_descr 60) = Inr 60" by code_simp
  then show ?thesis by (auto simp: mx_race_def)
qed

lemma cache_overflow_bounded_witness:
  "\<exists>m. mem_run mx_race (memory_init (Some 100) None) = Some m \<and> mc_current m = 120 \<and> mc_current m \<le> int 100 + int ((2 - 1) * 60)"
proof -
  obtain m where m: "mem_run mx_race (memory_init (Some 100) None) = Some m" "mc_current m = 120"
    using cache_overflows by auto
  with cache_overflow_bounded [OF mx_begins m(1)] show ?thesis by blast
qed

text \<open>A third allocation waits until one of the others is freed.\<close>

definition mx_wait :: "string mem_op list" where
  "mx_wait = mx_race @
     [Begin 3 0 (mx_descr 40) 5, Enter 3, Acquire 3, Check 3, Loop 3, Use [0, 1], Free 1, Signal 1, Wake 3, Loop 3,
      Unlock 3, Dequeue 3, Commit 3]"

definition mx_end :: "string memory" where
  "mx_end = (case mem_run mx_wait (memory_init (Some 100) None) of Some m \<Rightarrow> m | None \<Rightarrow> memory_init None None)"

lemma cache_accounts_witness:
  "mem_run mx_wait (memory_init (Some 100) None) = Some mx_end \<and> mc_current mx_end = 100 \<and> mc_enqueued mx_end = 0
   \<and> fst (use_cache [2] mx_end) = Inr (mx_descr 40) \<and> fst (use_cache [0] mx_end) = Inl KeyError"
proof -
  have "mem_run mx_wait (memory_init (Some 100) None) \<noteq> None" by code_simp
  then have run: "mem_run mx_wait (memory_init (Some 100) None) = Some mx_end" by (auto simp: mx_end_def)
  have t: "map_option (\<lambda>a. (al_phase a, al_descrs a)) (dget (mc_tasks mx_end) 3) = Some (Holding [2], mx_descr 40)" by code_simp
  then obtain a where "dget (mc_tasks mx_end) 3 = Some a" "al_phase a = Holding [2]" "al_descrs a = mx_descr 40" by auto
  moreover have "\<forall>t a hs. dget (mc_tasks mx_end) t = Some a \<and> al_phase a = Holding hs \<longrightarrow> fst (use_cache hs mx_end) = Inr (al_descrs a)"
    using cache_accounts [OF run] by blast
  ultimately have "fst (use_cache [2] mx_end) = Inr (mx_descr 40)" by metis
  moreover have "mc_current mx_end = 100" "mc_enqueued mx_end = 0" "fst (use_cache [0] mx_end) = Inl KeyError" by code_simp+
  ultimately show ?thesis using run by blast
qed

end
