(* ===== verification/PetalsBlocks.thy ===== *)
theory PetalsBlocks
  imports PetalsSpans "HOL-Library.List_Lexorder" "HOL-Library.Product_Lexorder"
begin

text \<open>
  Which blocks a Petals server serves: petals/server/block\_selection.py, with the choice that Server in
  petals/server/server.py makes with it. The simulated moves update one array of throughputs in place,
  which in the code is one of floats: their definitions need no more of the numbers than an order and
  the operations, no law of them, and a float operation may round as it likes. Only the decisions
  that compare the results (\<open>should_choose_other_blocks\<close>) are taken with the numbers of an ordered
  field, without rounding. The random order in which a round visits the servers is the parameter \<open>shuffle\<close>.
\<close>

section \<open>Slices\<close>

text \<open>A bound of a slice of \<open>n\<close> elements: a negative one counts from the end.\<close>

definition slice_bound :: "nat \<Rightarrow> int \<Rightarrow> nat" where
  "slice_bound n i = (if i < 0 then nat (max 0 (i + int n)) else min (nat i) n)"

definition in_slice :: "nat \<Rightarrow> int \<Rightarrow> int \<Rightarrow> nat \<Rightarrow> bool" where
  "in_slice n a b j \<longleftrightarrow> slice_bound n a \<le> j \<and> j < slice_bound n b"

definition py_slice :: "int \<Rightarrow> int \<Rightarrow> 'a list \<Rightarrow> 'a list" where
  "py_slice a b xs = drop (slice_bound (length xs) a) (take (slice_bound (length xs) b) xs)"

text \<open>\<open>xs[a:b] += x\<close>\<close>

definition add_slice :: "int \<Rightarrow> int \<Rightarrow> 'a::plus \<Rightarrow> 'a list \<Rightarrow> 'a list" where
  "add_slice a b x xs = map (\<lambda>j. if in_slice (length xs) a b j then xs ! j + x else xs ! j) [0..<length xs]"

section \<open>Throughputs\<close>

definition add_span :: "('p, 'a::plus) span_info \<Rightarrow> 'a list \<Rightarrow> 'a list" where
  "add_span s ths = add_slice (sp_start s) (sp_end s) (sp_throughput s) ths"

definition compute_throughputs ::
  "('p::linorder \<times> ('p, 'a::linordered_field) span_info) list \<Rightarrow> nat \<Rightarrow> 'a list" where
  "compute_throughputs spans n = fold add_span (sort_key sp_peer (dvalues spans)) (replicate n 0)"

text \<open>\<open>_choose_best_start\<close>: the window with the least sorted throughputs, the first of several.\<close>

definition start_options :: "'a::linorder list \<Rightarrow> int \<Rightarrow> ('a list \<times> int) list" where
  "start_options ths k = map (\<lambda>i. (sort (py_slice i (i + k) ths), i)) [0..int (length ths) - k]"

definition choose_best_start :: "'a::linorder list \<Rightarrow> int \<Rightarrow> int result" where
  "choose_best_start ths k =
     (case start_options ths k of [] \<Rightarrow> Inl ValueError | w # ws \<Rightarrow> Inr (snd (fold min ws w)))"

definition choose_best_blocks ::
  "int \<Rightarrow> ('p::linorder, 'a::linordered_field) module_info list \<Rightarrow> int list result" where
  "choose_best_blocks k infos =
     rbind (compute_spans infos S_JOINING) (\<lambda>spans.
     rbind (choose_best_start (compute_throughputs spans (length infos)) k)
       (\<lambda>start. Inr [start..start + k - 1]))"

section \<open>Should this server move?\<close>

definition move_span :: "int \<Rightarrow> ('p, 'a) span_info \<Rightarrow> ('p, 'a) span_info" where
  "move_span start s = s\<lparr>sp_start := start, sp_end := start + sp_length s\<rparr>"

definition eps :: "'a::linordered_field" where
  "eps = 1 / 1000"

text \<open>One server looks for its best place; the first component says whether it moved. \<open>tol\<close> is the
  tolerance \<open>eps\<close> of the code.\<close>

definition rebalance_server ::
  "'a::{linorder,plus,uminus,times,one} \<Rightarrow> 'p \<Rightarrow> 'a list \<times> ('p \<times> ('p, 'a) span_info) list
     \<Rightarrow> (bool \<times> 'a list \<times> ('p \<times> ('p, 'a) span_info) list) result" where
  "rebalance_server tol p st =
     (case st of (ths, spans) \<Rightarrow>
      case dget spans p of
        None \<Rightarrow> Inl KeyError
      | Some s \<Rightarrow>
          let ths1 = add_slice (sp_start s) (sp_end s) (- (sp_throughput s * (1 + tol))) ths
          in case choose_best_start ths1 (sp_length s) of
               Inl e \<Rightarrow> Inl e
             | Inr start \<Rightarrow>
                 let ths2 = add_slice (sp_start s) (sp_end s) (sp_throughput s * tol) ths1;
                     s1 = (if sp_start s = start then s else move_span start s)
                 in Inr (sp_start s \<noteq> start, add_span s1 ths2, dset p s1 spans))"

fun rebalance_round ::
  "'a::{linorder,plus,uminus,times,one} \<Rightarrow> 'p list \<Rightarrow> 'a list \<times> ('p \<times> ('p, 'a) span_info) list
     \<Rightarrow> (bool \<times> 'a list \<times> ('p \<times> ('p, 'a) span_info) list) result" where
  "rebalance_round tol [] st = (case st of (ths, spans) \<Rightarrow> Inr (False, ths, spans))"
| "rebalance_round tol (p # ps) st =
     (case rebalance_server tol p st of
        Inl e \<Rightarrow> Inl e
      | Inr (moved, st1) \<Rightarrow>
          (case rebalance_round tol ps st1 of Inl e \<Rightarrow> Inl e | Inr (moved', st2) \<Rightarrow> Inr (moved \<or> moved', st2)))"

text \<open>Rounds until nobody moves; nothing in the code bounds their number.\<close>

partial_function (option) rebalance_loop ::
  "'a::{linorder,plus,uminus,times,one} \<Rightarrow> (nat \<Rightarrow> 'p list \<Rightarrow> 'p list) \<Rightarrow> nat \<Rightarrow> 'a list \<times> ('p \<times> ('p, 'a) span_info) list
     \<Rightarrow> ('a list \<times> ('p \<times> ('p, 'a) span_info) list) result option" where
  "rebalance_loop tol shuffle i st =
     (case rebalance_round tol (shuffle i (map fst (snd st))) st of
        Inl e \<Rightarrow> Some (Inl e)
      | Inr (moved, st1) \<Rightarrow> if moved then rebalance_loop tol shuffle (i + 1) st1 else Some (Inr st1))"

declare rebalance_loop.simps [code]

text \<open>\<open>ndarray.min()\<close> raises on an empty array.\<close>

definition array_min :: "'a::linorder list \<Rightarrow> 'a result" where
  "array_min xs = (case xs of [] \<Rightarrow> Inl ValueError | y # ys \<Rightarrow> Inr (fold min ys y))"

text \<open>The part after the first moves: simulate until the swarm is at rest and compare.\<close>

definition better_elsewhere ::
  "(nat \<Rightarrow> 'p list \<Rightarrow> 'p list) \<Rightarrow> 'a::linordered_field \<Rightarrow> 'a \<Rightarrow> 'a list \<times> ('p \<times> ('p, 'a) span_info) list
     \<Rightarrow> bool result option" where
  "better_elsewhere shuffle quality initial st =
     map_option (\<lambda>res. rbind res (\<lambda>(ths, spans). rbind (array_min ths) (\<lambda>new.
        if new < initial \<or> new < eps then Inr False
        else Inr (initial / new < quality - eps))))
       (rebalance_loop eps shuffle 0 st)"

definition should_choose_other_blocks ::
  "(nat \<Rightarrow> 'p list \<Rightarrow> 'p list) \<Rightarrow> 'p::linorder \<Rightarrow> ('p, 'a::linordered_field) module_info list \<Rightarrow> 'a
     \<Rightarrow> bool result option" where
  "should_choose_other_blocks shuffle me infos quality =
     (if quality > 1 then Some (Inr True)
      else case compute_spans infos S_JOINING of Inl e \<Rightarrow> Some (Inl e) | Inr spans \<Rightarrow>
      let ths = compute_throughputs spans (length infos)
      in case array_min ths of Inl e \<Rightarrow> Some (Inl e) | Inr initial \<Rightarrow>
      case dget spans me of
        None \<Rightarrow> Some (Inl AssertionError)
      | Some s \<Rightarrow>
          let ths1 = add_slice (sp_start s) (sp_end s) (- (sp_throughput s * (1 + eps))) ths
          in case array_min ths1 of Inl e \<Rightarrow> Some (Inl e) | Inr least \<Rightarrow>
          if initial > eps \<and> least \<le> 0 then Some (Inr False)
          else case choose_best_start ths1 (sp_length s) of Inl e \<Rightarrow> Some (Inl e) | Inr start \<Rightarrow>
          if sp_start s = start then Some (Inr False)
          else let ths2 = add_slice (sp_start s) (sp_end s) (sp_throughput s * eps) ths1;
                   s1 = move_span start s
               in better_elsewhere shuffle quality initial (add_span s1 ths2, dset me s1 spans))"

section \<open>The server\<close>

text \<open>\<open>Server._choose_blocks\<close> and \<open>_should_choose_other_blocks\<close>: indices given by the operator are kept.\<close>

definition server_choose_blocks ::
  "int list option \<Rightarrow> int \<Rightarrow> ('p::linorder, 'a::linordered_field) module_info list \<Rightarrow> int list result" where
  "server_choose_blocks strict k infos =
     (case strict of Some is \<Rightarrow> Inr is | None \<Rightarrow> choose_best_blocks k infos)"

definition server_should_move ::
  "(nat \<Rightarrow> 'p list \<Rightarrow> 'p list) \<Rightarrow> int list option \<Rightarrow> 'p::linorder \<Rightarrow> ('p, 'a::linordered_field) module_info list \<Rightarrow> 'a
     \<Rightarrow> bool result option" where
  "server_should_move shuffle strict me infos quality =
     (case strict of Some is \<Rightarrow> Some (Inr False) | None \<Rightarrow> should_choose_other_blocks shuffle me infos quality)"

end
