(* ===== verification/PetalsBlocksProps.thy ===== *)
theory PetalsBlocksProps
  imports PetalsBlocks PetalsProps
begin

text \<open>
  The chosen window holds a weakest block; the simulated moves keep every server's span and end where
  nobody wants to move, in any arithmetic, and without rounding they keep the array equal to the
  loads of the moved spans; a server that leaves a swarm that serves every block leaves every block
  served.
\<close>

section \<open>Slices\<close>

lemma add_slice_length [simp]: "length (add_slice a b x xs) = length xs"
  by (simp add: add_slice_def)

lemma add_slice_nth: "j < length xs \<Longrightarrow> add_slice a b x xs ! j = (if in_slice (length xs) a b j then xs ! j + x else xs ! j)"
  by (simp add: add_slice_def)

lemma add_slice_twice: "add_slice a b y (add_slice a b x xs) = add_slice a b (x + y) (xs :: 'a::semigroup_add list)"
  by (rule nth_equalityI) (auto simp: add_slice_nth add.assoc)

lemma add_slice_zero: "add_slice a b 0 (xs :: 'a::monoid_add list) = xs"
  by (rule nth_equalityI) (auto simp: add_slice_nth)

lemma add_span_length [simp]: "length (add_span s ths) = length ths"
  by (simp add: add_span_def)

lemma add_span_nth:
  "j < length ths \<Longrightarrow> add_span s ths ! j =
     (if in_slice (length ths) (sp_start s) (sp_end s) j then ths ! j + sp_throughput s else ths ! j)"
  by (simp add: add_span_def add_slice_nth)

section \<open>The load of a block\<close>

definition span_load :: "nat \<Rightarrow> nat \<Rightarrow> ('p, 'a::linordered_field) span_info \<Rightarrow> 'a" where
  "span_load n j s = (if in_slice n (sp_start s) (sp_end s) j then sp_throughput s else 0)"

definition block_load :: "('p \<times> ('p, 'a::linordered_field) span_info) list \<Rightarrow> nat \<Rightarrow> nat \<Rightarrow> 'a" where
  "block_load spans n j = (\<Sum>s\<leftarrow>dvalues spans. span_load n j s)"

lemma fold_add_span:
  "length (fold add_span ss ths) = length ths \<and>
   (\<forall>j < length ths. fold add_span ss ths ! j = ths ! j + (\<Sum>s\<leftarrow>ss. span_load (length ths) j s))"
  by (induction ss arbitrary: ths) (auto simp: add_span_nth span_load_def)

lemma compute_throughputs_length [simp]: "length (compute_throughputs spans n) = n"
  using fold_add_span [of "sort_key sp_peer (dvalues spans)" "replicate n 0"] by (simp add: compute_throughputs_def)

lemma compute_throughputs_nth:
  assumes "j < n"
  shows "compute_throughputs spans n ! j = block_load spans n j"
proof -
  let ?ss = "sort_key sp_peer (dvalues spans)"
  have "compute_throughputs spans n ! j = (\<Sum>s\<leftarrow>?ss. span_load n j s)"
    using fold_add_span [of ?ss "replicate n 0"] assms by (simp add: compute_throughputs_def)
  also have "\<dots> = block_load spans n j"
    unfolding block_load_def by (metis mset_map mset_sort sum_mset_sum_list)
  finally show ?thesis .
qed

lemma block_load_dset:
  assumes "dict_ok spans" and "dget spans p = Some s"
  shows "block_load (dset p s1 spans) n j = block_load spans n j - span_load n j s + span_load n j s1"
proof -
  from assms obtain xs ys where "spans = xs @ (p, s) # ys" "dget xs p = None" "dget ys p = None" by (rule dict_split)
  then show ?thesis by (simp add: block_load_def dict_simps)
qed

lemma block_load_ddel:
  assumes "dict_ok spans" and "dget spans p = Some s"
  shows "block_load (ddel p spans) n j = block_load spans n j - span_load n j s"
proof -
  from assms obtain xs ys where "spans = xs @ (p, s) # ys" "dget xs p = None" "dget ys p = None" by (rule dict_split)
  then show ?thesis by (simp add: block_load_def dict_simps)
qed

section \<open>The best window\<close>

lemma array_min_least:
  assumes "array_min xs = Inr m"
  shows "m \<in> set xs" "\<And>x. x \<in> set xs \<Longrightarrow> m \<le> x"
proof -
  obtain y ys where xs: "xs = y # ys" using assms by (cases xs) (auto simp: array_min_def)
  have "m = fold min ys y" using assms by (simp add: array_min_def xs)
  then have "m = Min (set xs)" unfolding xs by (simp only: Min.set_eq_fold)
  then show "m \<in> set xs" "\<And>x. x \<in> set xs \<Longrightarrow> m \<le> x" using xs Min_in [of "set xs"] by (auto simp del: set_simps)
qed

lemma start_options_eq: "start_options ths k = map (\<lambda>i. (sort (py_slice i (i + k) ths), i)) [0..int (length ths) - k]"
  by (simp add: start_options_def)

lemma choose_best_start_least:
  assumes "choose_best_start ths k = Inr i"
  shows "0 \<le> i" "i + k \<le> int (length ths)"
    "\<And>j. 0 \<le> j \<Longrightarrow> j + k \<le> int (length ths) \<Longrightarrow> (sort (py_slice i (i + k) ths), i) \<le> (sort (py_slice j (j + k) ths), j)"
proof -
  obtain w ws where o: "start_options ths k = w # ws" using assms by (auto simp: choose_best_start_def split: list.splits)
  let ?m = "fold min ws w"
  have m: "?m = Min (set (start_options ths k))" by (simp only: o Min.set_eq_fold)
  have "?m \<in> set (start_options ths k)" unfolding m by (rule Min_in) (simp_all add: o)
  moreover have "i = snd ?m" using assms o by (simp add: choose_best_start_def)
  ultimately have i: "?m = (sort (py_slice i (i + k) ths), i)" "0 \<le> i" "i \<le> int (length ths) - k"
    by (auto simp: start_options_eq)
  then show "0 \<le> i" "i + k \<le> int (length ths)" by auto
  fix j assume "0 \<le> j" "j + k \<le> int (length ths)"
  then have "(sort (py_slice j (j + k) ths), j) \<in> set (start_options ths k)" by (auto simp: start_options_eq)
  then show "(sort (py_slice i (i + k) ths), i) \<le> (sort (py_slice j (j + k) ths), j)"
    unfolding i(1) [symmetric] m by (rule Min_le [rotated]) simp
qed

lemma choose_best_start_total: "k \<le> int (length ths) \<Longrightarrow> \<exists>i. choose_best_start ths k = Inr i"
  by (auto simp: choose_best_start_def start_options_eq split: list.splits)

lemma py_slice_window:
  assumes "0 \<le> i" and "0 \<le> k" and "i + k \<le> int (length ths)"
  shows "py_slice i (i + k) ths = take (nat k) (drop (nat i) ths)"
proof -
  have "nat (i + k) = nat k + nat i" "nat k + nat i \<le> length ths" using assms by (auto simp: nat_add_distrib)
  with assms show ?thesis by (simp add: py_slice_def slice_bound_def take_drop)
qed

lemma py_slice_mem:
  assumes "0 \<le> i" and "0 \<le> k" and "i + k \<le> int (length ths)" and "i \<le> int j" and "int j < i + k"
  shows "ths ! j \<in> set (py_slice i (i + k) ths)"
proof -
  have "take (nat k) (drop (nat i) ths) ! (j - nat i) = ths ! j" and "j - nat i < nat k" using assms by auto
  moreover have "length (take (nat k) (drop (nat i) ths)) = nat k" using assms by simp
  ultimately show ?thesis unfolding py_slice_window [OF assms(1-3)] by (metis nth_mem)
qed

lemma hd_sort_least: "x \<in> set xs \<Longrightarrow> hd (sort xs) \<le> x"
  by (metis list.set_cases list.sel(1) set_sort sorted_simps(2) sorted_sort order_refl set_ConsD)

lemma list_le_hd: "xs \<noteq> [] \<Longrightarrow> ys \<noteq> [] \<Longrightarrow> xs \<le> ys \<Longrightarrow> hd xs \<le> hd (ys :: 'a::linorder list)"
  by (cases xs; cases ys) (auto simp: list_le_def)

lemma best_window_weakest:
  assumes best: "choose_best_start ths k = Inr i" and k: "1 \<le> k" and x: "x \<in> set ths"
  shows "\<exists>y \<in> set (py_slice i (i + k) ths). y \<le> x"
proof -
  obtain j where j: "j < length ths" "x = ths ! j" using x by (metis in_set_conv_nth)
  note b = choose_best_start_least [OF best]
  let ?i = "min (int j) (int (length ths) - k)"
  have i: "0 \<le> ?i" "?i + k \<le> int (length ths)" "?i \<le> int j" "int j < ?i + k" using j b(1,2) k by auto
  have x': "x \<in> set (py_slice ?i (?i + k) ths)" unfolding j(2) by (rule py_slice_mem) (use i k in auto)
  let ?w = "py_slice i (i + k) ths" and ?v = "py_slice ?i (?i + k) ths"
  have "length ?w = nat k" using b(1,2) k py_slice_window [of i k ths] by simp
  then have w: "?w \<noteq> []" using k by auto
  have "sort ?w \<le> sort ?v" using b(3) [OF i(1,2)] by (auto simp: less_eq_prod_def)
  then have "hd (sort ?w) \<le> hd (sort ?v)" using w x' by (intro list_le_hd) (auto simp flip: set_empty)
  also have "\<dots> \<le> x" by (rule hd_sort_least [OF x'])
  finally have "hd (sort ?w) \<le> x" .
  moreover have "hd (sort ?w) \<in> set ?w" using w by (metis hd_in_set set_sort set_empty)
  ultimately show ?thesis by blast
qed

text \<open>C29. A new server takes consecutive blocks of the model, and among them one that is served no better than
  any other block of the model.\<close>

theorem best_blocks_weakest:
  assumes "compute_spans infos S_JOINING = Inr spans" and "1 \<le> k" and "k \<le> int (length infos)"
  shows "\<exists>start. choose_best_blocks k infos = Inr [start..start + k - 1] \<and> 0 \<le> start \<and> start + k \<le> int (length infos)
    \<and> (\<exists>b \<in> {start..<start + k}. \<forall>j < length infos.
          block_load spans (length infos) (nat b) \<le> block_load spans (length infos) j)"
proof -
  let ?n = "length infos" and ?ths = "compute_throughputs spans (length infos)"
  obtain i where i: "choose_best_start ?ths k = Inr i" using choose_best_start_total [of k ?ths] assms(3) by auto
  note b = choose_best_start_least [OF i]
  have ne: "?ths \<noteq> []" using assms(2,3) by (metis compute_throughputs_length length_0_conv not_one_le_zero int_ops(1) order_trans)
  then obtain m where m: "m \<in> set ?ths" "\<And>x. x \<in> set ?ths \<Longrightarrow> m \<le> x" using Min_in [of "set ?ths"] Min_le [of "set ?ths"]
    by (metis List.finite_set set_empty)
  from best_window_weakest [OF i assms(2) m(1)] obtain y where y: "y \<in> set (py_slice i (i + k) ?ths)" "y \<le> m" by blast
  have w: "py_slice i (i + k) ?ths = take (nat k) (drop (nat i) ?ths)" using b(1,2) assms(2) by (intro py_slice_window) auto
  from y(1) obtain d where d: "d < nat k" "y = ?ths ! (nat i + d)"
    unfolding w using b(1,2) by (auto simp: in_set_conv_nth)
  let ?b = "i + int d"
  have bi: "?b \<in> {i..<i + k}" "nat ?b = nat i + d" "nat i + d < ?n" using d b(1,2) by auto
  have "block_load spans ?n (nat ?b) \<le> block_load spans ?n j" if "j < ?n" for j
  proof -
    have "y \<le> ?ths ! j" using y(2) m(2) [of "?ths ! j"] that by (simp add: order_trans)
    then show ?thesis using d(2) bi(2,3) that by (simp add: compute_throughputs_nth)
  qed
  then have "\<exists>b \<in> {i..<i + k}. \<forall>j < ?n. block_load spans ?n (nat b) \<le> block_load spans ?n j" using bi(1) by blast
  with b(1,2) show ?thesis using assms(1) i by (intro exI [of _ i]) (simp add: choose_best_blocks_def)
qed

section \<open>Simulated moves\<close>

text \<open>Moves change nothing but where spans start: in any arithmetic.\<close>

definition span_shape :: "('p \<times> ('p, 'a) span_info) list \<Rightarrow> ('p \<times> 'p \<times> int \<times> ('p, 'a) server_info) list" where
  "span_shape spans = map (\<lambda>(p, s). (p, sp_peer s, sp_length s, sp_info s)) spans"

lemma move_span_fields [simp]:
  "sp_peer (move_span i s) = sp_peer s" "sp_length (move_span i s) = sp_length s" "sp_info (move_span i s) = sp_info s"
  "sp_start (move_span i s) = i" "sp_throughput (move_span i s) = sp_throughput s"
  by (simp_all add: move_span_def sp_length_def sp_throughput_def)

lemma span_shape_dset:
  assumes "dict_ok spans" and "dget spans p = Some s"
    and "sp_peer s1 = sp_peer s" and "sp_length s1 = sp_length s" and "sp_info s1 = sp_info s"
  shows "span_shape (dset p s1 spans) = span_shape spans"
proof -
  from assms(1,2) obtain xs ys where "spans = xs @ (p, s) # ys" "dget xs p = None" "dget ys p = None" by (rule dict_split)
  with assms(3-5) show ?thesis by (simp add: span_shape_def dict_simps)
qed

lemma rebalance_server_parts:
  assumes "rebalance_server tol p (ths, spans) = Inr (moved, ths1, spans1)"
  obtains s start where "dget spans p = Some s"
    and "choose_best_start (add_slice (sp_start s) (sp_end s) (- (sp_throughput s * (1 + tol))) ths) (sp_length s) = Inr start"
    and "ths1 = add_span (if sp_start s = start then s else move_span start s)
      (add_slice (sp_start s) (sp_end s) (sp_throughput s * tol)
        (add_slice (sp_start s) (sp_end s) (- (sp_throughput s * (1 + tol))) ths))"
    and "spans1 = dset p (if sp_start s = start then s else move_span start s) spans"
    and "moved \<longleftrightarrow> sp_start s \<noteq> start"
  using assms by (auto simp: rebalance_server_def Let_def split: option.splits sum.splits)

definition shaped :: "nat \<Rightarrow> ('p \<times> 'p \<times> int \<times> ('p, 'a) server_info) list
    \<Rightarrow> 'a list \<times> ('p \<times> ('p, 'a) span_info) list \<Rightarrow> bool" where
  "shaped n shape st \<longleftrightarrow> dict_ok (snd st) \<and> length (fst st) = n \<and> span_shape (snd st) = shape"

lemma rebalance_server_shaped:
  assumes sh: "shaped n shape (ths, spans)" and r: "rebalance_server tol p (ths, spans) = Inr (moved, ths1, spans1)"
  shows "shaped n shape (ths1, spans1)"
proof -
  from r obtain s start where s: "dget spans p = Some s"
    and e: "ths1 = add_span (if sp_start s = start then s else move_span start s)
      (add_slice (sp_start s) (sp_end s) (sp_throughput s * tol)
        (add_slice (sp_start s) (sp_end s) (- (sp_throughput s * (1 + tol))) ths))"
      "spans1 = dset p (if sp_start s = start then s else move_span start s) spans"
    by (rule rebalance_server_parts)
  have d: "dict_ok spans" using sh by (simp add: shaped_def)
  then have "span_shape spans1 = span_shape spans" unfolding e(2) by (rule span_shape_dset [OF _ s]) auto
  then show ?thesis using sh d by (simp add: shaped_def e)
qed

lemma rebalance_round_shaped:
  assumes "shaped n shape st" and "rebalance_round tol ps st = Inr (moved, st1)"
  shows "shaped n shape st1"
  using assms
proof (induction ps arbitrary: st moved)
  case Nil
  then show ?case by (cases st) auto
next
  case (Cons p ps)
  from Cons.prems(2) obtain m1 st2 m2 where r: "rebalance_server tol p st = Inr (m1, st2)" "rebalance_round tol ps st2 = Inr (m2, st1)"
    by (auto split: sum.splits prod.splits)
  have "shaped n shape st2"
    using rebalance_server_shaped [of n shape "fst st" "snd st" tol p m1 "fst st2" "snd st2"] Cons.prems(1) r(1) by simp
  with Cons.IH [OF _ r(2)] show ?case by simp
qed

text \<open>A server that does not move is on its best place, as the array is when its turn comes.\<close>

definition at_rest ::
  "'a::{linorder,plus,uminus,times,one} \<Rightarrow> 'p \<Rightarrow> 'a list \<times> ('p \<times> ('p, 'a) span_info) list \<Rightarrow> bool" where
  "at_rest tol p st \<longleftrightarrow>
     (case dget (snd st) p of
        None \<Rightarrow> False
      | Some s \<Rightarrow> choose_best_start (add_slice (sp_start s) (sp_end s) (- (sp_throughput s * (1 + tol))) (fst st)) (sp_length s)
          = Inr (sp_start s))"

fun undisturbed ::
  "'a::{linorder,plus,uminus,times,one} \<Rightarrow> 'p list \<Rightarrow> 'a list \<times> ('p \<times> ('p, 'a) span_info) list \<Rightarrow> bool" where
  "undisturbed tol [] st = True"
| "undisturbed tol (p # ps) st =
     (at_rest tol p st \<and> (case rebalance_server tol p st of Inl e \<Rightarrow> False | Inr (moved, st1) \<Rightarrow> undisturbed tol ps st1))"

lemma dset_present: "dget d k = Some v \<Longrightarrow> dset k v d = d"
  by (induction d) auto

lemma rebalance_server_still:
  assumes "rebalance_server tol p (ths, spans) = Inr (False, ths1, spans1)"
  shows "spans1 = spans \<and> at_rest tol p (ths, spans)"
proof -
  from assms obtain s where "dget spans p = Some s"
    "choose_best_start (add_slice (sp_start s) (sp_end s) (- (sp_throughput s * (1 + tol))) ths) (sp_length s) = Inr (sp_start s)"
    "spans1 = dset p s spans"
    by (rule rebalance_server_parts) auto
  then show ?thesis by (simp add: at_rest_def dset_present)
qed

lemma rebalance_round_still:
  "rebalance_round tol ps st = Inr (False, st1) \<Longrightarrow> snd st1 = snd st \<and> undisturbed tol ps st"
proof (induction ps arbitrary: st)
  case Nil
  then show ?case by (cases st) auto
next
  case (Cons p ps)
  from Cons.prems obtain st2 where r: "rebalance_server tol p st = Inr (False, st2)" "rebalance_round tol ps st2 = Inr (False, st1)"
    by (auto split: sum.splits prod.splits)
  with rebalance_server_still [of tol p "fst st" "snd st" "fst st2" "snd st2"] Cons.IH [OF r(2)] show ?case by simp
qed

text \<open>A server on its best place lies within the model.\<close>

definition in_model :: "nat \<Rightarrow> ('p, 'a) span_info \<Rightarrow> bool" where
  "in_model n s \<longleftrightarrow> 0 \<le> sp_start s \<and> sp_end s \<le> int n"

lemma at_rest_within: "at_rest tol p (ths, spans) \<Longrightarrow> dget spans p = Some s \<Longrightarrow> in_model (length ths) s"
  using choose_best_start_least(1,2) [of "add_slice (sp_start s) (sp_end s) (- (sp_throughput s * (1 + tol))) ths" "sp_length s" "sp_start s"]
  by (simp add: at_rest_def in_model_def sp_length_def)

lemma undisturbed_within:
  assumes "undisturbed tol ps st" and "rebalance_round tol ps st = Inr (False, st1)"
    and "shaped n shape st" and "p \<in> set ps" and "dget (snd st) p = Some s"
  shows "in_model n s"
  using assms
proof (induction ps arbitrary: st)
  case (Cons q ps)
  from Cons.prems(2) obtain st2 where r: "rebalance_server tol q st = Inr (False, st2)" "rebalance_round tol ps st2 = Inr (False, st1)"
    by (auto split: sum.splits prod.splits)
  have sh: "shaped n shape st2"
    using rebalance_server_shaped [of n shape "fst st" "snd st" tol q False "fst st2" "snd st2"] Cons.prems(3) r(1) by simp
  have same: "snd st2 = snd st"
    using rebalance_server_still [of tol q "fst st" "snd st" "fst st2" "snd st2"] r(1) by simp
  show ?case
  proof (cases "p = q")
    case True
    then show ?thesis
      using at_rest_within [of tol p "fst st" "snd st" s] Cons.prems(1,3,5) by (simp add: shaped_def)
  next
    case False
    then show ?thesis using Cons.IH [OF _ r(2) sh] Cons.prems(1,4,5) r(1) same by simp
  qed
qed simp

text \<open>The last round of a simulation that ends.\<close>

definition last_round ::
  "'a::{linorder,plus,uminus,times,one} \<Rightarrow> 'p list \<Rightarrow> 'a list \<times> ('p \<times> ('p, 'a) span_info) list
     \<Rightarrow> 'a list \<times> ('p \<times> ('p, 'a) span_info) list \<Rightarrow> bool" where
  "last_round tol ps st st1 \<longleftrightarrow> rebalance_round tol ps st = Inr (False, st1) \<and> snd st = snd st1
     \<and> set ps = set (map fst (snd st1)) \<and> undisturbed tol ps st"

lemma rebalance_loop_aux:
  assumes "rebalance_loop tol shuffle i st = Some r"
  shows "shaped n shape st \<longrightarrow> (\<forall>i ps. set (shuffle i ps) = set ps) \<longrightarrow>
    (\<forall>st1. r = Inr st1 \<longrightarrow> (\<exists>ps st0. shaped n shape st0 \<and> shaped n shape st1 \<and> last_round tol ps st0 st1))"
proof (rule rebalance_loop.raw_induct [where P = "\<lambda>tol shuffle i st r. shaped n shape st \<longrightarrow> (\<forall>i ps. set (shuffle i ps) = set ps) \<longrightarrow>
    (\<forall>st1. r = Inr st1 \<longrightarrow> (\<exists>ps st0. shaped n shape st0 \<and> shaped n shape st1 \<and> last_round tol ps st0 st1))", OF _ assms],
    intro impI allI, goal_cases)
  case (1 loop tol shuffle i st r st1)
  let ?ps = "shuffle i (map fst (snd st))"
  obtain moved st2 where r: "rebalance_round tol ?ps st = Inr (moved, st2)"
    using 1(2,5) by (auto split: sum.splits)
  note ok = rebalance_round_shaped [OF 1(3) r]
  show ?case
  proof (cases moved)
    case True
    with 1(2) r have l: "loop tol shuffle (i + 1) st2 = Some r" by simp
    show ?thesis using 1(1) [OF l] ok 1(4,5) by blast
  next
    case False
    with 1(2,5) r have "st1 = st2" by simp
    moreover have "snd st2 = snd st" "undisturbed tol ?ps st"
      using rebalance_round_still [of tol ?ps st st2] r False by simp_all
    ultimately show ?thesis
      using ok 1(3,4) r False by (intro exI [of _ ?ps] exI [of _ st]) (simp add: last_round_def)
  qed
qed

text \<open>C30. The simulation of the other servers' moves, in any arithmetic (rounding floats included): when it
  ends, every span has kept its server, its length and its announcement and lies within the model,
  and there was a last round, over all servers, in which every server, when its turn came, found
  the place it has the best one of the array as it then was. So the simulation stops in an equilibrium only.\<close>

theorem rebalance_equilibrium:
  fixes ths :: "'a::{linorder,plus,uminus,times,one} list"
  assumes "dict_ok spans" and "\<forall>i ps. set (shuffle i ps) = set ps"
    and "rebalance_loop tol shuffle i (ths, spans) = Some (Inr (ths', spans'))"
  shows "span_shape spans' = span_shape spans \<and> length ths' = length ths
    \<and> (\<forall>p s. dget spans' p = Some s \<longrightarrow> in_model (length ths) s)
    \<and> (\<exists>order ths0. set order = set (map fst spans') \<and> undisturbed tol order (ths0, spans')
         \<and> rebalance_round tol order (ths0, spans') = Inr (False, ths', spans'))"
proof -
  have "shaped (length ths) (span_shape spans) (ths, spans)" using assms(1) by (simp add: shaped_def)
  then obtain ps st0 where l: "shaped (length ths) (span_shape spans) st0"
      "shaped (length ths) (span_shape spans) (ths', spans')" "last_round tol ps st0 (ths', spans')"
    using rebalance_loop_aux [OF assms(3)] assms(2) by blast
  then obtain ths0 where st0: "st0 = (ths0, spans')" by (cases st0) (simp add: last_round_def)
  have lr: "rebalance_round tol ps (ths0, spans') = Inr (False, ths', spans')" "set ps = set (map fst spans')"
    "undisturbed tol ps (ths0, spans')" using l(3) by (simp_all add: last_round_def st0)
  have "in_model (length ths) s" if "dget spans' p = Some s" for p s
  proof (rule undisturbed_within [OF lr(3,1) l(1) [unfolded st0]])
    show "p \<in> set ps" using map_of_SomeD [OF that] lr(2) by force
    show "dget (snd (ths0, spans')) p = Some s" using that by simp
  qed
  with l(2) lr show ?thesis unfolding shaped_def by auto
qed

section \<open>Simulated moves without rounding\<close>

text \<open>In exact arithmetic the array stays the one of the spans, so the equilibrium is one of the loads.\<close>

definition array_exact :: "nat \<Rightarrow> 'a::linordered_field list \<times> ('p \<times> ('p, 'a) span_info) list \<Rightarrow> bool" where
  "array_exact n st \<longleftrightarrow> dict_ok (snd st) \<and> length (fst st) = n \<and> (\<forall>j < n. fst st ! j = block_load (snd st) n j)"

text \<open>Taking a span out and putting it, or a moved one, back.\<close>

lemma array_exact_replace:
  assumes ex: "array_exact n (ths, spans)" and s: "dget spans p = Some s"
  shows "array_exact n (add_span s1 (add_slice (sp_start s) (sp_end s) (sp_throughput s * tol)
      (add_slice (sp_start s) (sp_end s) (- (sp_throughput s * (1 + tol))) ths)), dset p s1 spans)"
proof -
  have d: "dict_ok spans" "length ths = n" "\<And>j. j < n \<Longrightarrow> ths ! j = block_load spans n j"
    using ex by (auto simp: array_exact_def)
  have "- (sp_throughput s * (1 + tol)) + sp_throughput s * tol = - sp_throughput s" by (simp add: algebra_simps)
  then show ?thesis
    using d by (simp add: array_exact_def add_slice_twice add_span_nth add_slice_nth block_load_dset [OF d(1) s] span_load_def)
qed

lemma rebalance_server_exact:
  assumes ex: "array_exact n (ths, spans)" and r: "rebalance_server tol p (ths, spans) = Inr (moved, ths1, spans1)"
  shows "array_exact n (ths1, spans1)"
  using r by (rule rebalance_server_parts) (use array_exact_replace [OF ex] in auto)

lemma rebalance_round_exact:
  "array_exact n st \<Longrightarrow> rebalance_round tol ps st = Inr (moved, st1) \<Longrightarrow> array_exact n st1"
proof (induction ps arbitrary: st moved)
  case Nil
  then show ?case by (cases st) auto
next
  case (Cons p ps)
  from Cons.prems(2) obtain m1 st2 m2 where r: "rebalance_server tol p st = Inr (m1, st2)" "rebalance_round tol ps st2 = Inr (m2, st1)"
    by (auto split: sum.splits prod.splits)
  have "array_exact n st2"
    using rebalance_server_exact [of n "fst st" "snd st" tol p m1 "fst st2" "snd st2"] Cons.prems(1) r(1) by simp
  with Cons.IH [OF _ r(2)] show ?case by simp
qed

lemma array_exact_compute: "array_exact n (ths, spans) \<Longrightarrow> ths = compute_throughputs spans n"
  by (rule nth_equalityI) (auto simp: array_exact_def compute_throughputs_nth)

lemma array_exact_start: "dict_ok spans \<Longrightarrow> array_exact n (compute_throughputs spans n, spans)"
  by (simp add: array_exact_def compute_throughputs_nth)

lemma rebalance_loop_exact_aux:
  fixes st :: "'a::linordered_field list \<times> ('p \<times> ('p, 'a) span_info) list"
  assumes "rebalance_loop tol shuffle i st = Some r"
  shows "array_exact n st \<longrightarrow> (\<forall>st1. r = Inr st1 \<longrightarrow> array_exact n st1)"
proof (rule rebalance_loop.raw_induct [where P = "\<lambda>tol shuffle i st r. array_exact n st \<longrightarrow> (\<forall>st1. r = Inr st1 \<longrightarrow> array_exact n st1)",
    OF _ assms], intro impI allI, goal_cases)
  case (1 loop tol shuffle i st r st1)
  obtain moved st2 where r: "rebalance_round tol (shuffle i (map fst (snd st))) st = Inr (moved, st2)"
    using 1(2,4) by (auto split: sum.splits)
  have "array_exact n st2" using rebalance_round_exact [OF 1(3) r] .
  show ?case
  proof (cases moved)
    case True
    with 1(2) r have "loop tol shuffle (i + 1) st2 = Some r" by simp
    from 1(1) [OF this] \<open>array_exact n st2\<close> 1(4) show ?thesis by blast
  next
    case False
    with 1(2,4) r \<open>array_exact n st2\<close> show ?thesis by simp
  qed
qed

lemma rebalance_loop_exact:
  assumes "dict_ok spans" and "rebalance_loop tol shuffle i (compute_throughputs spans n, spans) = Some (Inr (ths', spans'))"
  shows "ths' = compute_throughputs spans' n"
  using rebalance_loop_exact_aux [OF assms(2), of n] array_exact_start [OF assms(1)] array_exact_compute by blast

section \<open>Leaving\<close>

definition loads_ok :: "('p \<times> ('p, 'a::linordered_field) span_info) list \<Rightarrow> bool" where
  "loads_ok spans \<longleftrightarrow> (\<forall>x \<in> set spans. 0 \<le> sp_throughput (snd x))"

lemma loads_ok_dset: "loads_ok spans \<Longrightarrow> 0 \<le> sp_throughput s \<Longrightarrow> loads_ok (dset p s spans)"
  by (auto simp: loads_ok_def dest!: set_dset)

lemma loads_ok_get: "loads_ok spans \<Longrightarrow> dget spans p = Some s \<Longrightarrow> 0 \<le> sp_throughput s"
  by (auto simp: loads_ok_def dest!: map_of_SomeD)

lemma new_span_throughput: "sp_throughput (new_span off n idx p i) = si_throughput i"
  by (auto simp: new_span_def sp_throughput_def split: option.splits)

lemma sp_throughput_end [simp]: "sp_throughput (s\<lparr>sp_end := e\<rparr>) = sp_throughput s"
  by (simp add: sp_throughput_def)

lemma loads_ok_add_server:
  assumes "loads_ok spans" and "0 \<le> si_throughput (snd pi)"
  shows "loads_ok (add_server ms off n idx pi spans)"
proof -
  obtain p i where pi: "pi = (p, i)" by (cases pi)
  show ?thesis
    using assms loads_ok_get [OF assms(1), of p]
    by (auto simp: add_server_def pi new_span_throughput intro!: loads_ok_dset split: option.splits)
qed

lemma loads_ok_fold:
  "loads_ok spans \<Longrightarrow> \<forall>x \<in> set ps. 0 \<le> si_throughput (snd x) \<Longrightarrow> loads_ok (fold (add_server ms off n idx) ps spans)"
  by (induction ps arbitrary: spans) (simp_all add: loads_ok_add_server)

lemma loads_ok_loop:
  "loads_ok spans \<Longrightarrow> \<forall>m \<in> set infos. \<forall>x \<in> set (mi_servers m). 0 \<le> si_throughput (snd x) \<Longrightarrow>
     loads_ok (span_loop ms off n idx infos spans)"
  by (induction infos arbitrary: spans idx) (simp_all add: loads_ok_fold)

lemma compute_spans_throughput:
  fixes infos :: "('p::linorder, 'a::linordered_field) module_info list"
  assumes "compute_spans infos ms = Inr spans" and "\<forall>m \<in> set infos. \<forall>x \<in> set (mi_servers m). 0 \<le> si_throughput (snd x)"
    and "dget spans p = Some s"
  shows "0 \<le> sp_throughput s"
proof -
  obtain off where "spans = span_loop ms off (int (length infos)) 0 infos []"
    using assms(1) by (auto simp: compute_spans_def rbind_Inr_iff)
  moreover have "loads_ok []" by (simp add: loads_ok_def)
  ultimately have "loads_ok spans" using loads_ok_loop [OF _ assms(2)] by blast
  then show ?thesis using assms(3) by (rule loads_ok_get)
qed

text \<open>C31. When every block of the model is served by more than the tolerance, a server that decides to leave
  its blocks (and is not forced to) leaves every block served without it. The condition is needed:
  the code refuses a move for this reason only when the least served block was above the
  tolerance (\<open>leaving_unserved_swarm\<close> in \<open>PetalsBlocksExamples\<close> is a move out of a swarm with a block that had no server).\<close>

theorem leaving_keeps_blocks_served:
  assumes "server_should_move shuffle strict me infos quality = Some (Inr True)" and "quality \<le> 1"
    and "\<forall>m \<in> set infos. \<forall>x \<in> set (mi_servers m). 0 \<le> si_throughput (snd x)"
    and spans: "compute_spans infos S_JOINING = Inr spans"
    and above: "\<forall>j < length infos. eps < block_load spans (length infos) j"
  shows "strict = None \<and> (\<exists>s. dget spans me = Some s) \<and> (\<forall>j < length infos. 0 < block_load (ddel me spans) (length infos) j)"
proof -
  let ?n = "length infos"
  have st: "strict = None" and sc: "should_choose_other_blocks shuffle me infos quality = Some (Inr True)"
    using assms(1) by (auto simp: server_should_move_def split: option.splits)
  let ?ths = "\<lambda>spans. compute_throughputs spans ?n"
  let ?ths1 = "\<lambda>spans s. add_slice (sp_start s) (sp_end s) (- (sp_throughput s * (1 + eps))) (?ths spans)"
  obtain initial s least where sp: "compute_spans infos S_JOINING = Inr spans" "dget spans me = Some s"
    and m: "array_min (?ths spans) = Inr initial" "array_min (?ths1 spans s) = Inr least" "\<not> (initial > eps \<and> least \<le> 0)"
    using sc assms(2) spans by (auto simp: should_choose_other_blocks_def Let_def split: sum.splits option.splits if_splits)
  have d: "dict_ok spans" using spans_wf_compute [OF sp(1)] by (simp add: spans_wf_def)
  have thr: "0 \<le> sp_throughput s" by (rule compute_spans_throughput [OF sp(1) assms(3) sp(2)])
  have "0 < block_load (ddel me spans) ?n j" if j: "j < ?n" for j
  proof -
    obtain i where "i < ?n" "initial = ?ths spans ! i"
      using array_min_least(1) [OF m(1)] by (metis in_set_conv_nth compute_throughputs_length)
    then have "eps < initial" using above by (simp add: compute_throughputs_nth)
    then have "0 < least" using m(3) by (simp add: not_le)
    also have "least \<le> ?ths1 spans s ! j" using array_min_least(2) [OF m(2)] j by (simp add: nth_mem)
    also have "\<dots> \<le> block_load spans ?n j - span_load ?n j s"
      using j thr by (auto simp: add_slice_nth compute_throughputs_nth span_load_def algebra_simps eps_def)
    finally show ?thesis by (simp add: block_load_ddel [OF d sp(2)])
  qed
  with st sp show ?thesis by blast
qed

end
