(* ===== verification/PetalsBlocksExamples.thy ===== *)
theory PetalsBlocksExamples
  imports PetalsBlocksProps PetalsExamples
begin

text \<open>
  Two blocks and three servers, the two strong ones on the first block: a new server takes the second
  block, and one of the strong servers moves there.
\<close>

definition bx_server :: "nat \<Rightarrow> int \<Rightarrow> rat \<Rightarrow> nat \<times> (nat, rat) server_info" where
  "bx_server p a thr = (p, (px_info S_ONLINE (Some (a, a + 1)))\<lparr>si_throughput := thr\<rparr>)"

definition bx_infos :: "(nat, rat) module_info list" where
  "bx_infos =
     [\<lparr>mi_uid = ''m.0'', mi_servers = [bx_server 5 0 1, bx_server 6 0 1]\<rparr>,
      \<lparr>mi_uid = ''m.1'', mi_servers = [bx_server 7 1 (1 / 2)]\<rparr>]"

text \<open>The span of a server that announced block \<open>a\<close> and is now placed at block \<open>b\<close>.\<close>

definition bx_span :: "nat \<Rightarrow> int \<Rightarrow> int \<Rightarrow> rat \<Rightarrow> nat \<times> (nat, rat) span_info" where
  "bx_span p a b thr = (p, \<lparr>sp_peer = p, sp_start = b, sp_end = b + 1, sp_info = snd (bx_server p a thr)\<rparr>)"

definition bx_spans :: "(nat \<times> (nat, rat) span_info) list" where
  "bx_spans = [bx_span 5 0 0 1, bx_span 6 0 0 1, bx_span 7 1 1 (1 / 2)]"

definition bx_moved :: "(nat \<times> (nat, rat) span_info) list" where
  "bx_moved = [bx_span 5 0 1 1, bx_span 6 0 0 1, bx_span 7 1 1 (1 / 2)]"

lemma bx_computed: "compute_spans bx_infos S_JOINING = Inr bx_spans" "compute_throughputs bx_spans 2 = [2, 1 / 2]"
  by code_simp+

lemma bx_steps:
  "rebalance_server eps 5 ([2, 1 / 2], bx_spans) = Inr (True, [1, 3 / 2], bx_moved)"
  "rebalance_server eps 5 ([1, 3 / 2], bx_moved) = Inr (False, [1, 3 / 2], bx_moved)"
  "rebalance_server eps 6 ([1, 3 / 2], bx_moved) = Inr (False, [1, 3 / 2], bx_moved)"
  "rebalance_server eps 7 ([1, 3 / 2], bx_moved) = Inr (False, [1, 3 / 2], bx_moved)"
  by code_simp+

lemma bx_keys: "map fst bx_spans = [5, 6, 7]" "map fst bx_moved = [5, 6, 7]"
  by (simp_all add: bx_spans_def bx_moved_def bx_span_def)

lemma bx_rest: "rebalance_loop eps (\<lambda>_ ps. ps) i ([1, 3 / 2], bx_moved) = Some (Inr ([1, 3 / 2], bx_moved))"
  by (subst rebalance_loop.simps) (simp add: bx_keys bx_steps)

lemma bx_run: "rebalance_loop eps (\<lambda>_ ps. ps) 0 ([2, 1 / 2], bx_spans) = Some (Inr ([1, 3 / 2], bx_moved))"
  by (subst rebalance_loop.simps) (simp add: bx_keys bx_steps bx_rest)

lemma best_blocks_weakest_witness:
  "choose_best_blocks 1 bx_infos = Inr [1]
   \<and> (\<exists>start. choose_best_blocks 1 bx_infos = Inr [start..start + 1 - 1] \<and> 0 \<le> start \<and> start + 1 \<le> int (length bx_infos))"
proof -
  have "(1 :: int) \<le> int (length bx_infos)" by (simp add: bx_infos_def)
  from best_blocks_weakest [OF bx_computed(1) _ this] have
    "\<exists>start. choose_best_blocks 1 bx_infos = Inr [start..start + 1 - 1] \<and> 0 \<le> start \<and> start + 1 \<le> int (length bx_infos)"
    by auto
  moreover have "choose_best_blocks 1 bx_infos = Inr [1]" by code_simp
  ultimately show ?thesis by blast
qed

lemma rebalance_equilibrium_witness:
  "span_shape bx_moved = span_shape bx_spans \<and> in_model 2 (snd (bx_span 5 0 1 1))
   \<and> (\<exists>order ths0. set order = {5, 6, 7} \<and> undisturbed eps order (ths0, bx_moved))"
proof -
  have "dict_ok bx_spans" by (simp add: dict_ok_def bx_keys)
  moreover have "dget bx_moved 5 = Some (snd (bx_span 5 0 1 1))" by (simp add: bx_moved_def bx_span_def)
  ultimately show ?thesis
    using rebalance_equilibrium [OF _ _ bx_run] by (simp add: bx_keys) (metis One_nat_def Suc_1 list.size(3,4) add_0)
qed

lemma leaving_keeps_blocks_served_witness:
  "server_should_move (\<lambda>_ ps. ps) None 5 bx_infos (3 / 4) = Some (Inr True)
   \<and> (\<exists>s. dget bx_spans 5 = Some s) \<and> 0 < block_load (ddel 5 bx_spans) 2 0 \<and> 0 < block_load (ddel 5 bx_spans) 2 1"
proof -
  have n: "length bx_infos = 2" by (simp add: bx_infos_def)
  have s: "dget bx_spans 5 = Some (snd (bx_span 5 0 0 1))" by (simp add: bx_spans_def bx_span_def)
  have minus: "add_slice 0 1 (- (1 * (1 + eps))) [2, 1 / 2 :: rat] = [999 / 1000, 1 / 2]" by code_simp
  have best: "choose_best_start [999 / 1000, 1 / 2 :: rat] 1 = Inr 1" by code_simp
  have put: "add_span (move_span 1 (snd (bx_span 5 0 0 1))) (add_slice 0 1 (1 * eps) [999 / 1000, 1 / 2 :: rat]) = [1, 3 / 2]"
    by code_simp
  have moved: "dset 5 (move_span 1 (snd (bx_span 5 0 0 1))) bx_spans = bx_moved" by code_simp
  have mins: "array_min [2, 1 / 2 :: rat] = Inr (1 / 2)" "array_min [999 / 1000, 1 / 2 :: rat] = Inr (1 / 2)"
    "array_min [1, 3 / 2 :: rat] = Inr 1" by code_simp+
  have f: "sp_start (snd (bx_span 5 0 0 1)) = 0" "sp_end (snd (bx_span 5 0 0 1)) = 1"
    "sp_length (snd (bx_span 5 0 0 1)) = 1" "sp_throughput (snd (bx_span 5 0 0 1)) = 1"
    by (simp_all add: bx_span_def sp_length_def sp_throughput_def bx_server_def)
  have "better_elsewhere (\<lambda>_ ps. ps) (3 / 4) (1 / 2) ([1, 3 / 2], bx_moved) = Some (Inr True)"
    unfolding better_elsewhere_def bx_rest by (simp add: mins) (simp add: eps_def)
  then have move: "server_should_move (\<lambda>_ ps. ps) None 5 bx_infos (3 / 4) = Some (Inr True)"
    by (simp add: server_should_move_def should_choose_other_blocks_def bx_computed s n f mins minus [simplified] best
        put [simplified] moved Let_def)
  have "\<forall>m \<in> set bx_infos. \<forall>x \<in> set (mi_servers m). 0 \<le> si_throughput (snd x)"
    by (auto simp: bx_infos_def bx_server_def px_info_def)
  moreover have "\<forall>j < length bx_infos. eps < block_load bx_spans (length bx_infos) j"
    unfolding n
  proof (intro allI impI)
    fix j :: nat assume "j < 2"
    then have "j = 0 \<or> j = 1" by auto
    then show "eps < block_load bx_spans 2 j"
      using compute_throughputs_nth [OF \<open>j < 2\<close>, of bx_spans] by (auto simp: bx_computed eps_def)
  qed
  ultimately have "\<forall>j < 2. 0 < block_load (ddel 5 bx_spans) 2 j"
    using leaving_keeps_blocks_served [OF move _ _ bx_computed(1)] by (simp add: n)
  then show ?thesis using move s by simp
qed

text \<open>
  In a swarm with a block that has no server the code does not ask what is lost without the server that
  moves: of three blocks the first has no server, and the server of the other two decides to leave,
  although the second is served by nobody else.
\<close>

definition lx_server :: "nat \<Rightarrow> int \<Rightarrow> int \<Rightarrow> nat \<times> (nat, rat) server_info" where
  "lx_server p a b = (p, (px_info S_ONLINE (Some (a, b)))\<lparr>si_throughput := 1\<rparr>)"

definition lx_infos :: "(nat, rat) module_info list" where
  "lx_infos =
     [\<lparr>mi_uid = ''m.0'', mi_servers = []\<rparr>,
      \<lparr>mi_uid = ''m.1'', mi_servers = [lx_server 5 1 3]\<rparr>,
      \<lparr>mi_uid = ''m.2'', mi_servers = [lx_server 5 1 3, lx_server 6 2 3]\<rparr>]"

definition lx_span :: "nat \<Rightarrow> int \<Rightarrow> int \<Rightarrow> int \<Rightarrow> nat \<times> (nat, rat) span_info" where
  "lx_span p a b c = (p, \<lparr>sp_peer = p, sp_start = c, sp_end = c + (b - a), sp_info = snd (lx_server p a b)\<rparr>)"

definition lx_spans :: "(nat \<times> (nat, rat) span_info) list" where
  "lx_spans = [lx_span 5 1 3 1, lx_span 6 2 3 2]"

definition lx_moved :: "(nat \<times> (nat, rat) span_info) list" where
  "lx_moved = [lx_span 5 1 3 0, lx_span 6 2 3 2]"

lemma lx_computed: "compute_spans lx_infos S_JOINING = Inr lx_spans" "compute_throughputs lx_spans 3 = [0, 1, 2]"
  by code_simp+

lemma lx_steps:
  "rebalance_server eps 5 ([1, 1, 1], lx_moved) = Inr (False, [1, 1, 1], lx_moved)"
  "rebalance_server eps 6 ([1, 1, 1], lx_moved) = Inr (False, [1, 1, 1], lx_moved)"
  by code_simp+

lemma lx_rest: "rebalance_loop eps (\<lambda>_ ps. ps) i ([1, 1, 1], lx_moved) = Some (Inr ([1, 1, 1], lx_moved))"
proof -
  have "map fst lx_moved = [5, 6]" by (simp add: lx_moved_def lx_span_def)
  then show ?thesis by (subst rebalance_loop.simps) (simp add: lx_steps)
qed

lemma leaving_unserved_swarm:
  "server_should_move (\<lambda>_ ps. ps) None 5 lx_infos (3 / 4) = Some (Inr True)
   \<and> map (block_load lx_spans 3) [0, 1, 2] = [0, 1, 2] \<and> map (block_load (ddel 5 lx_spans) 3) [0, 1, 2] = [0, 0, 1]"
proof (intro conjI)
  show "map (block_load lx_spans 3) [0, 1, 2] = [0, 1, 2]"
    "map (block_load (ddel 5 lx_spans) 3) [0, 1, 2] = [0, 0, 1]" by code_simp+
  have s: "dget lx_spans 5 = Some (snd (lx_span 5 1 3 1))" by (simp add: lx_spans_def lx_span_def)
  let ?s = "snd (lx_span 5 1 3 1)"
  have f: "sp_start ?s = 1" by (simp add: lx_span_def)
  have minus: "add_slice (sp_start ?s) (sp_end ?s) (- (sp_throughput ?s * (1 + eps))) [0, 1, 2] = [0, - 1 / 1000, 999 / 1000]"
    by code_simp
  have best: "choose_best_start [0, - 1 / 1000, 999 / 1000 :: rat] (sp_length ?s) = Inr 0" by code_simp
  have put: "add_span (move_span 0 ?s) (add_slice (sp_start ?s) (sp_end ?s) (sp_throughput ?s * eps) [0, - 1 / 1000, 999 / 1000])
      = [1, 1, 1]" by code_simp
  have moved: "dset 5 (move_span 0 ?s) lx_spans = lx_moved" by code_simp
  have mins: "array_min [0, 1, 2 :: rat] = Inr 0" "array_min [0, - 1 / 1000, 999 / 1000 :: rat] = Inr (- 1 / 1000)"
    "array_min [1, 1, 1 :: rat] = Inr 1" by code_simp+
  have better: "better_elsewhere (\<lambda>_ ps. ps) (3 / 4) 0 ([1, 1, 1], lx_moved) = Some (Inr True)"
    unfolding better_elsewhere_def lx_rest by (simp add: mins) (simp add: eps_def)
  have len: "length lx_infos = 3" by (simp add: lx_infos_def)
  have no: "(0 > (eps :: rat)) = False" "((3 / 4 :: rat) > 1) = False" "(sp_start ?s = 0) = False" by (simp_all add: eps_def f)
  show "server_should_move (\<lambda>_ ps. ps) None 5 lx_infos (3 / 4) = Some (Inr True)"
    unfolding server_should_move_def should_choose_other_blocks_def option.case len lx_computed sum.case s Let_def no if_False
      mins minus best
    unfolding put moved
    by (simp add: mins better f)
qed

end
