(* ===== verification/PetalsTraining.thy ===== *)
theory PetalsTraining
  imports PetalsSession
begin

text \<open>
  Forward and backward passes through the swarm: \<open>run_rpc_forward\<close> and \<open>run_rpc_backward\<close> of
  petals/server/block\_functions.py on one server, and petals/client/sequential\_autograd.py, which chains
  servers and replaces those that fail. A tensor \<open>[batch, tokens, hidden]\<close> is a list of rows, a row a
  list of tokens \<open>'h\<close>. What a block computes, forward and backward, is a parameter (PyTorch); adapters,
  priorities, devices and the serialization of tensors are not modelled.
\<close>

section \<open>One server\<close>

record 'h trainer =
  tr_forward :: "string \<Rightarrow> 'h list list \<Rightarrow> 'h list list"
  tr_backward :: "string \<Rightarrow> 'h list list \<Rightarrow> 'h list list \<Rightarrow> 'h list list"
  tr_plus :: "'h \<Rightarrow> 'h \<Rightarrow> 'h"
  tr_max_batch :: nat

definition row_length :: "'h list list \<Rightarrow> nat" where
  "row_length rows = (case rows of [] \<Rightarrow> 0 | r # _ \<Rightarrow> length r)"

definition task_size :: "'h list list \<Rightarrow> nat" where
  "task_size rows = length rows * row_length rows"

definition is_dummy :: "'h list list \<Rightarrow> bool" where
  "is_dummy rows \<longleftrightarrow> task_size rows = 0"

text \<open>\<open>submit_task\<close>: a task of too many tokens is answered with an exception.\<close>

definition submit_task :: "'h trainer \<Rightarrow> ('h list list \<Rightarrow> 'h list list) \<Rightarrow> 'h list list \<Rightarrow> 'h list list result" where
  "submit_task T f rows = (if tr_max_batch T < task_size rows then Inl ValueError else Inr (f rows))"

text \<open>\<open>hidden_states[:, :prompt.shape[1]] += prompt\<close>; a prompt of one row is added to every row.\<close>

definition add_prompts :: "'h trainer \<Rightarrow> 'h list list option \<Rightarrow> 'h list list \<Rightarrow> 'h list list result" where
  "add_prompts T prompt rows =
     (case prompt of
        None \<Rightarrow> Inr rows
      | Some ps \<Rightarrow>
          let k = row_length ps; qs = (if length ps = 1 then replicate (length rows) (hd ps) else ps)
          in if row_length rows < k \<and> k \<noteq> 1 \<or> length qs \<noteq> length rows then Inl RuntimeError
             else Inr (map2 (\<lambda>r p. map2 (tr_plus T) (take k r) p @ drop k r) rows qs))"

definition split_prompts :: "nat \<Rightarrow> 'h list list list option \<Rightarrow> 'h list list option list" where
  "split_prompts n prompts =
     (case prompts of
        None \<Rightarrow> replicate n None
      | Some ps \<Rightarrow>
          if list_all is_dummy ps then replicate n None else map (\<lambda>p. if is_dummy p then None else Some p) ps)"

fun forward_chain :: "'h trainer \<Rightarrow> (string \<times> 'h list list option) list \<Rightarrow> 'h list list \<Rightarrow> 'h list list result" where
  "forward_chain T [] rows = Inr rows"
| "forward_chain T ((u, p) # bs) rows =
     rbind (add_prompts T p rows) (\<lambda>x. rbind (submit_task T (tr_forward T u) x) (forward_chain T bs))"

text \<open>With fewer prompts than blocks \<open>zip\<close> leaves out the last blocks.\<close>

definition run_rpc_forward ::
  "'h trainer \<Rightarrow> string list \<Rightarrow> 'h list list list option \<Rightarrow> 'h list list \<Rightarrow> 'h list list result" where
  "run_rpc_forward T uids prompts rows =
     (if uids = [] then Inl IndexError
      else forward_chain T (zip uids (split_prompts (length uids) prompts)) rows)"

text \<open>The inputs of all blocks but the last, and what goes into the last.\<close>

fun collect_inputs ::
  "'h trainer \<Rightarrow> (string \<times> 'h list list option) list \<Rightarrow> 'h list list \<Rightarrow> ('h list list list \<times> 'h list list) result" where
  "collect_inputs T [] rows = Inr ([], rows)"
| "collect_inputs T ((u, p) # bs) rows =
     rbind (add_prompts T p rows) (\<lambda>x.
     rbind (submit_task T (tr_forward T u) x) (\<lambda>y.
     rbind (collect_inputs T bs y) (\<lambda>(xs, z). Inr (x # xs, z))))"

text \<open>From the last block to the first; the gradients of the prompts come out in the order of the blocks.\<close>

fun backward_chain ::
  "'h trainer \<Rightarrow> ('h list list \<times> 'h list list option \<times> string) list \<Rightarrow> 'h list list \<Rightarrow> 'h list list list
     \<Rightarrow> ('h list list \<times> 'h list list list) result" where
  "backward_chain T [] g gps = Inr (g, gps)"
| "backward_chain T ((x, p, u) # bs) g gps =
     rbind (submit_task T (\<lambda>x. tr_backward T u x g) x) (\<lambda>g1.
       backward_chain T bs g1 (case p of None \<Rightarrow> gps | Some q \<Rightarrow> map (take (row_length q)) g1 # gps))"

definition run_rpc_backward ::
  "'h trainer \<Rightarrow> string list \<Rightarrow> 'h list list list option \<Rightarrow> 'h list list \<Rightarrow> 'h list list
     \<Rightarrow> ('h list list \<times> 'h list list list) result" where
  "run_rpc_backward T uids prompts rows grads =
     (if uids = [] then Inl IndexError
      else let ps = split_prompts (length uids) prompts
      in rbind (collect_inputs T (zip (butlast uids) (butlast ps)) rows) (\<lambda>(xs, y).
         rbind (add_prompts T (last ps) y) (\<lambda>x.
           let inter = xs @ [x]
           in if length inter \<noteq> length ps \<or> length ps \<noteq> length uids then Inl AssertionError
              else backward_chain T (rev (zip inter (zip ps uids))) grads [])))"

text \<open>The handlers answer for blocks of this server only.\<close>

definition rpc_forward ::
  "(string \<Rightarrow> bool) \<Rightarrow> 'h trainer \<Rightarrow> string list \<Rightarrow> 'h list list list option \<Rightarrow> 'h list list \<Rightarrow> 'h list list result" where
  "rpc_forward serves T uids prompts rows =
     (if list_ex (\<lambda>u. \<not> serves u) uids then Inl RuntimeError else run_rpc_forward T uids prompts rows)"

definition rpc_backward ::
  "(string \<Rightarrow> bool) \<Rightarrow> 'h trainer \<Rightarrow> string list \<Rightarrow> 'h list list list option \<Rightarrow> 'h list list \<Rightarrow> 'h list list
     \<Rightarrow> ('h list list \<times> 'h list list list) result" where
  "rpc_backward serves T uids prompts rows grads =
     (if list_ex (\<lambda>u. \<not> serves u) uids then Inl RuntimeError else run_rpc_backward T uids prompts rows grads)"

section \<open>The client\<close>

record ('w, 'p, 'a, 'h) train_net =
  tn_uids :: "string list"
  tn_route :: "int \<Rightarrow> int \<Rightarrow> 'w \<Rightarrow> ('p, 'a) span_info list result \<times> 'w"
  tn_forward :: "'p \<Rightarrow> string list \<Rightarrow> 'h list list list option \<Rightarrow> 'h list list \<Rightarrow> 'w \<Rightarrow> 'h list list result \<times> 'w"
  tn_backward :: "'p \<Rightarrow> string list \<Rightarrow> 'h list list list option \<Rightarrow> 'h list list \<Rightarrow> 'h list list \<Rightarrow> 'w
     \<Rightarrow> ('h list list \<times> 'h list list list) result \<times> 'w"
  tn_failure :: "'p option \<Rightarrow> 'w \<Rightarrow> 'w"
  tn_success :: "'p \<Rightarrow> 'w \<Rightarrow> 'w"
  tn_max_retries :: "nat option"

definition rows_of_span :: "('w, 'p, 'a, 'h) train_net \<Rightarrow> ('p, 'a) span_info \<Rightarrow> string list" where
  "rows_of_span N s = uids_between (tn_uids N) (sp_start s) (sp_end s)"

definition slice_prompts :: "'h list list list option \<Rightarrow> ('p, 'a) span_info \<Rightarrow> 'h list list list option" where
  "slice_prompts prompts s = map_option (\<lambda>ps. drop (nat (sp_start s)) (take (nat (sp_end s)) ps)) prompts"

text \<open>
  The route is made anew after a failure. It may be longer than asked: it is cut at the last block.
\<close>

definition cut_route :: "int \<Rightarrow> ('p, 'a) span_info list \<Rightarrow> ('p, 'a) span_info list" where
  "cut_route e spans = butlast spans @ [(last spans)\<lparr>sp_end := min (sp_end (last spans)) e\<rparr>]"

definition take_route ::
  "('w, 'p, 'a, 'h) train_net \<Rightarrow> int \<Rightarrow> int \<Rightarrow> nat \<Rightarrow> ('p, 'a) span_info list \<Rightarrow> 'w
     \<Rightarrow> unit result \<times> ('p, 'a) span_info list \<times> 'w" where
  "take_route N b e attempt seqs w =
     (if seqs = [] \<or> 1 \<le> attempt
      then (case tn_route N b e w of
              (Inl err, w1) \<Rightarrow> (Inl err, seqs, w1)
            | (Inr spans, w1) \<Rightarrow> if spans = [] then (Inl IndexError, [], w1) else (Inr (), cut_route e spans, w1))
      else (Inr (), seqs, w))"

text \<open>One attempt: the first server of the route is called. A failure comes with the server to blame.\<close>

definition forward_attempt ::
  "('w, 'p, 'a, 'h) train_net \<Rightarrow> 'h list list list option \<Rightarrow> int \<Rightarrow> int \<Rightarrow> nat \<Rightarrow> ('p, 'a) span_info list \<Rightarrow> 'h list list \<Rightarrow> 'w
     \<Rightarrow> (py_error \<times> 'p option + 'h list list \<times> ('p, 'a) span_info) \<times> ('p, 'a) span_info list \<times> 'w" where
  "forward_attempt N prompts b e attempt seqs inp w =
     (case take_route N b e attempt seqs w of
        (Inl err, seqs1, w1) \<Rightarrow> (Inl (err, None), seqs1, w1)
      | (Inr _, seqs1, w1) \<Rightarrow>
          let s = hd seqs1; rest = tl seqs1
          in case tn_forward N (sp_peer s) (rows_of_span N s) (slice_prompts prompts s) inp w1 of
               (Inl err, w2) \<Rightarrow> (Inl (err, Some (sp_peer s)), rest, w2)
             | (Inr y, w2) \<Rightarrow>
                 if map length y \<noteq> map length inp then (Inl (AssertionError, Some (sp_peer s)), rest, w2)
                 else (Inr (y, s), rest, w2))"

text \<open>The inputs that are kept for the backward pass, and the spans they went to.\<close>

type_synonym ('p, 'a, 'h) stacks = "'h list list list \<times> ('p, 'a) span_info list"

partial_function (option) forward_loop ::
  "('w, 'p, 'a, 'h) train_net \<Rightarrow> 'h list list list option \<Rightarrow> int \<Rightarrow> int \<Rightarrow> nat \<Rightarrow> ('p, 'a) span_info list \<Rightarrow> 'h list list
     \<Rightarrow> ('p, 'a, 'h) stacks \<Rightarrow> 'w \<Rightarrow> (('h list list \<times> ('p, 'a, 'h) stacks) result \<times> 'w) option" where
  "forward_loop N prompts e b attempt seqs inp st w =
     (if \<not> b < e then Some (Inr (inp, st), w)
      else case forward_attempt N prompts b e attempt seqs inp w of
        (Inr (y, s), seqs1, w1) \<Rightarrow>
          forward_loop N prompts e (sp_end s) 0 seqs1 y (fst st @ [inp], snd st @ [s]) (tn_success N (sp_peer s) w1)
      | (Inl (err, peer), seqs1, w1) \<Rightarrow>
          if tn_max_retries N = Some (attempt + 1) then Some (Inl err, tn_failure N peer w1)
          else forward_loop N prompts e b (attempt + 1) seqs1 inp st (tn_failure N peer w1))"

declare forward_loop.simps [code]

definition sequential_forward ::
  "('w, 'p, 'a, 'h) train_net \<Rightarrow> 'h list list list option \<Rightarrow> int \<Rightarrow> int \<Rightarrow> 'h list list \<Rightarrow> 'w
     \<Rightarrow> (('h list list \<times> ('p, 'a, 'h) stacks) result \<times> 'w) option" where
  "sequential_forward N prompts a e x w =
     (if a < 0 \<or> e > int (length (tn_uids N)) \<or> (case prompts of None \<Rightarrow> False | Some ps \<Rightarrow> length ps \<noteq> length (tn_uids N))
      then Some (Inl AssertionError, w)
      else forward_loop N prompts e a 0 [] x ([], []) w)"

text \<open>
  After a failure the forward pass of the span is repeated on other servers, and the last piece of it is
  taken up. The result is the piece to work on, with the stacks.
\<close>

definition backward_resume ::
  "('w, 'p, 'a, 'h) train_net \<Rightarrow> 'h list list list option \<Rightarrow> nat \<Rightarrow> 'h list list \<Rightarrow> ('p, 'a) span_info
     \<Rightarrow> ('p, 'a, 'h) stacks \<Rightarrow> 'w
     \<Rightarrow> ((('h list list \<times> ('p, 'a) span_info) \<times> ('p, 'a, 'h) stacks) result \<times> 'w) option" where
  "backward_resume N prompts attempt x s st w =
     (if attempt = 0 then Some (Inr ((x, s), st), w)
      else case sequential_forward N prompts (sp_start s) (sp_end s) x w of None \<Rightarrow> None | Some (res, w1) \<Rightarrow>
        Some (case res of Inl err \<Rightarrow> Inl err | Inr (_, xs, ss) \<Rightarrow>
            if length xs \<noteq> length ss then Inl AssertionError
            else if ss = [] then Inl IndexError
            else if sp_start (hd ss) \<noteq> sp_start s \<or> sp_end (last ss) \<noteq> sp_end s then Inl AssertionError
            else Inr ((last xs, last ss), (fst st @ butlast xs, snd st @ butlast ss)), w1))"

partial_function (option) backward_loop ::
  "('w, 'p, 'a, 'h) train_net \<Rightarrow> 'h list list list option \<Rightarrow> nat \<Rightarrow> ('h list list \<times> ('p, 'a) span_info) option
     \<Rightarrow> 'h list list \<Rightarrow> 'h list list list \<Rightarrow> ('p, 'a, 'h) stacks \<Rightarrow> 'w
     \<Rightarrow> (('h list list \<times> 'h list list list) result \<times> 'w) option" where
  "backward_loop N prompts attempt cur g gps st w =
     (case cur of
        None \<Rightarrow>
          if fst st = [] \<or> snd st = [] then Some (Inr (g, gps), w)
          else backward_loop N prompts 0 (Some (last (fst st), last (snd st))) g gps (butlast (fst st), butlast (snd st)) w
      | Some (x, s) \<Rightarrow>
          (case backward_resume N prompts attempt x s st w of None \<Rightarrow> None | Some (resumed, w1) \<Rightarrow>
            (case (case resumed of
                     Inl err \<Rightarrow> (Inl (err, sp_peer s, x, s, st), w1)
                   | Inr ((x1, s1), st1) \<Rightarrow>
                       (case tn_backward N (sp_peer s1) (rows_of_span N s1) (slice_prompts prompts s1) x1 g w1 of
                          (Inl err, w2) \<Rightarrow> (Inl (err, sp_peer s1, x1, s1, st1), w2)
                        | (Inr (g1, gp), w2) \<Rightarrow> (Inr (g1, gp, sp_peer s1, st1), w2))) of
               (Inr (g1, gp, peer, st1), w2) \<Rightarrow>
                 backward_loop N prompts 0 None g1 (gp @ gps) st1 (tn_success N peer w2)
             | (Inl (err, peer, x1, s1, st1), w2) \<Rightarrow>
                 if tn_max_retries N = Some (attempt + 1) then Some (Inl err, tn_failure N (Some peer) w2)
                 else backward_loop N prompts (attempt + 1) (Some (x1, s1)) g gps st1 (tn_failure N (Some peer) w2))))"

declare backward_loop.simps [code]

definition sequential_backward ::
  "('w, 'p, 'a, 'h) train_net \<Rightarrow> 'h list list list option \<Rightarrow> 'h list list list \<Rightarrow> ('p, 'a) span_info list \<Rightarrow> 'h list list
     \<Rightarrow> 'w \<Rightarrow> (('h list list \<times> 'h list list list) result \<times> 'w) option" where
  "sequential_backward N prompts inters spans g w =
     (if length inters \<noteq> length spans then Some (Inl AssertionError, w)
      else backward_loop N prompts 0 None g [] (inters, spans) w)"

end
