(* ===== verification/PetalsTrainingContract.thy ===== *)
theory PetalsTrainingContract
  imports PetalsTraining PetalsProps
begin

text \<open>
  What the chained passes rely on of the router and the servers, as the locale \<open>remote_blocks\<close>, and what
  follows: the outputs are those of all blocks in order, and the gradients those of the composed blocks,
  whatever calls fail and whatever servers are replaced on the way.
\<close>

section \<open>Routes\<close>

lemma linked_mem_le: "linked a b ss \<Longrightarrow> s \<in> set ss \<Longrightarrow> a \<le> sp_start s"
  by (induction ss arbitrary: a) fastforce+

lemma linked_snoc: "linked a b (ss @ [s]) \<longleftrightarrow> linked a (sp_start s) ss \<and> sp_start s \<le> sp_end s \<and> sp_end s = b"
  by (induction ss arbitrary: a) auto

text \<open>Spans of a route that stops at the block asked, or just after it.\<close>

definition forward_spans :: "int \<Rightarrow> ('p, 'a) span_info list \<Rightarrow> bool" where
  "forward_spans e spans \<longleftrightarrow> (\<forall>s \<in> set spans. sp_start s < sp_end s \<and> sp_start s < e)"

lemma cut_route_linked:
  assumes "linked b c spans" and "e \<le> c" and "forward_spans e spans" and "spans \<noteq> []"
  shows "linked b e (cut_route e spans)" "forward_spans e (cut_route e spans)" "cut_route e spans \<noteq> []"
proof -
  obtain ss s where s: "spans = ss @ [s]" using assms(4) by (cases spans rule: rev_cases) auto
  have l: "linked b (sp_start s) ss" "sp_end s = c" using assms(1) by (auto simp: s linked_snoc)
  have f: "sp_start s < e" using assms(3) by (auto simp: forward_spans_def s)
  have "cut_route e spans = ss @ [s\<lparr>sp_end := e\<rparr>]" using l(2) assms(2) by (simp add: cut_route_def s min_def)
  then show "linked b e (cut_route e spans)" "forward_spans e (cut_route e spans)" "cut_route e spans \<noteq> []"
    using l f assms(3) by (auto simp: linked_snoc forward_spans_def s)
qed

section \<open>The contract\<close>

text \<open>
  \<open>fwd a b P x\<close> is the effect of the blocks from \<open>a\<close> to \<open>b\<close> with prompts \<open>P\<close>, and \<open>bwd a b P x g\<close> the
  gradients of their input and prompts for the gradient \<open>g\<close> of their output.
\<close>

locale remote_blocks =
  fixes N :: "('w, 'p, 'a, 'h) train_net"
    and fwd :: "int \<Rightarrow> int \<Rightarrow> 'h list list list option \<Rightarrow> 'h list list \<Rightarrow> 'h list list"
    and bwd :: "int \<Rightarrow> int \<Rightarrow> 'h list list list option \<Rightarrow> 'h list list \<Rightarrow> 'h list list \<Rightarrow> 'h list list \<times> 'h list list list"
    and good :: "'w \<Rightarrow> bool"
  assumes fwd_same: "fwd a a P x = x"
    and fwd_split: "0 \<le> a \<Longrightarrow> a \<le> b \<Longrightarrow> b \<le> c \<Longrightarrow> fwd a c P x = fwd b c P (fwd a b P x)"
    and bwd_same: "bwd a a P x g = (g, [])"
    and bwd_split: "0 \<le> a \<Longrightarrow> a \<le> b \<Longrightarrow> b \<le> c \<Longrightarrow> bwd b c P (fwd a b P x) g = (g1, gp1)
      \<Longrightarrow> bwd a b P x g1 = (g2, gp2) \<Longrightarrow> bwd a c P x g = (g2, gp2 @ gp1)"
    and route_good: "good w \<Longrightarrow> tn_route N a b w = (routed, w') \<Longrightarrow> good w'"
    and route_spans: "good w \<Longrightarrow> 0 \<le> a \<Longrightarrow> a < b \<Longrightarrow> b \<le> int (length (tn_uids N)) \<Longrightarrow> tn_route N a b w = (Inr spans, w')
      \<Longrightarrow> \<exists>c. linked a c spans \<and> b \<le> c \<and> forward_spans b spans"
    and forward_good: "good w \<Longrightarrow> tn_forward N p us ps x w = (reply, w') \<Longrightarrow> good w'"
    and forward_runs: "good w \<Longrightarrow> 0 \<le> sp_start s \<Longrightarrow> sp_start s < sp_end s \<Longrightarrow> sp_end s \<le> int (length (tn_uids N))
      \<Longrightarrow> (\<forall>qs. P = Some qs \<longrightarrow> length qs = length (tn_uids N))
      \<Longrightarrow> tn_forward N p (rows_of_span N s) (slice_prompts P s) x w = (Inr y, w') \<Longrightarrow> y = fwd (sp_start s) (sp_end s) P x"
    and backward_good: "good w \<Longrightarrow> tn_backward N p us ps x g w = (reply', w') \<Longrightarrow> good w'"
    and backward_runs: "good w \<Longrightarrow> 0 \<le> sp_start s \<Longrightarrow> sp_start s < sp_end s \<Longrightarrow> sp_end s \<le> int (length (tn_uids N))
      \<Longrightarrow> (\<forall>qs. P = Some qs \<longrightarrow> length qs = length (tn_uids N))
      \<Longrightarrow> tn_backward N p (rows_of_span N s) (slice_prompts P s) x g w = (Inr r, w') \<Longrightarrow> r = bwd (sp_start s) (sp_end s) P x g"
    and failure_good: "good w \<Longrightarrow> good (tn_failure N peer w)"
    and success_good: "good w \<Longrightarrow> good (tn_success N p w)"

context remote_blocks
begin

definition blocks :: int where
  "blocks = int (length (tn_uids N))"

definition prompts_ok :: "'h list list list option \<Rightarrow> bool" where
  "prompts_ok P \<longleftrightarrow> (\<forall>qs. P = Some qs \<longrightarrow> length qs = length (tn_uids N))"

section \<open>Forward\<close>

text \<open>Servers that go on from block \<open>b\<close>, if there are any.\<close>

definition queued_from :: "int \<Rightarrow> int \<Rightarrow> ('p, 'a) span_info list \<Rightarrow> bool" where
  "queued_from b e seqs \<longleftrightarrow> seqs \<noteq> [] \<longrightarrow> linked b e seqs \<and> forward_spans e seqs"

lemma route_taken:
  assumes g: "good w" and b: "0 \<le> b" "b < e" "e \<le> blocks" and q: "queued_from b e seqs \<or> 1 \<le> attempt"
    and tr: "take_route N b e attempt seqs w = (res, seqs', w')"
  shows "good w' \<and> (res = Inr () \<longrightarrow> seqs' \<noteq> [] \<and> linked b e seqs' \<and> forward_spans e seqs')"
proof (cases "seqs = [] \<or> 1 \<le> attempt")
  case True
  obtain routed w1 where r: "tn_route N b e w = (routed, w1)" by (metis surj_pair)
  have g1: "good w1" by (rule route_good [OF g r])
  show ?thesis
  proof (cases "\<exists>spans. routed = Inr spans \<and> spans \<noteq> []")
    case False
    with True r g1 tr show ?thesis by (cases routed) (auto simp: take_route_def)
  next
    case t: True
    then obtain spans where sp: "routed = Inr spans" "spans \<noteq> []" by blast
    from route_spans [OF g b(1,2) _ r [unfolded sp(1)]] b(3)
    obtain c where "linked b c spans" "e \<le> c" "forward_spans e spans" by (auto simp: blocks_def)
    from cut_route_linked [OF this sp(2)] True r g1 tr sp show ?thesis by (auto simp: take_route_def)
  qed
next
  case False
  with tr q g show ?thesis by (auto simp: take_route_def queued_from_def)
qed

lemma attempt_forward:
  assumes g: "good w" and P: "prompts_ok P" and b: "0 \<le> b" "b < e" "e \<le> blocks"
    and q: "queued_from b e seqs \<or> 1 \<le> attempt"
    and at: "forward_attempt N P b e attempt seqs x w = (res, seqs', w')"
  shows "good w' \<and> (\<forall>y s. res = Inr (y, s) \<longrightarrow>
    sp_start s = b \<and> b < sp_end s \<and> sp_end s \<le> e \<and> y = fwd b (sp_end s) P x \<and> queued_from (sp_end s) e seqs')"
proof -
  obtain r1 seqs1 w1 where r1: "take_route N b e attempt seqs w = (r1, seqs1, w1)" by (metis surj_pair)
  note tr = route_taken [OF g b q r1]
  show ?thesis
  proof (cases r1)
    case (Inl err)
    with at r1 tr show ?thesis by (auto simp: forward_attempt_def)
  next
    case (Inr u)
    then have q2: "seqs1 \<noteq> []" "linked b e seqs1" "forward_spans e seqs1" using tr by auto
    then obtain s rest where s: "seqs1 = s # rest" by (cases seqs1) auto
    obtain r2 w2 where r2: "tn_forward N (sp_peer s) (rows_of_span N s) (slice_prompts P s) x w1 = (r2, w2)" by (metis surj_pair)
    have g2: "good w2" by (rule forward_good [OF _ r2]) (use tr in simp)
    have sb: "sp_start s = b" "b < sp_end s" "sp_end s \<le> e" "linked (sp_end s) e rest" "forward_spans e rest"
      using q2 by (auto simp: s forward_spans_def dest: linked_le)
    have "y = fwd b (sp_end s) P x" if "r2 = Inr y" for y
      using forward_runs [of w1 s P "sp_peer s" x y w2] r2 that sb b P tr by (auto simp: blocks_def prompts_ok_def)
    then show ?thesis using sb g2 at r1 Inr r2
      by (cases r2) (auto simp: forward_attempt_def s queued_from_def split: if_splits)
  qed
qed

text \<open>The inputs that were kept are those of the spans, and the spans follow each other.\<close>

definition passed :: "'h list list list option \<Rightarrow> int \<Rightarrow> 'h list list \<Rightarrow> int \<Rightarrow> 'h list list list \<Rightarrow> ('p, 'a) span_info list \<Rightarrow> bool" where
  "passed P a x b inters spans \<longleftrightarrow> linked a b spans \<and> (\<forall>s \<in> set spans. sp_start s < sp_end s)
     \<and> inters = map (\<lambda>s. fwd a (sp_start s) P x) spans"

lemma passed_le: "passed P a x b inters spans \<Longrightarrow> a \<le> b"
  by (auto simp: passed_def dest: linked_le)

lemma passed_snoc:
  "passed P a x b inters spans \<Longrightarrow> sp_start s = b \<Longrightarrow> b < sp_end s \<Longrightarrow>
     passed P a x (sp_end s) (inters @ [fwd a b P x]) (spans @ [s])"
  by (auto simp: passed_def linked_snoc)

lemma forward_loop_inv:
  assumes "forward_loop N' P e b attempt seqs y st w = Some r"
  shows "N' = N \<longrightarrow> prompts_ok P \<longrightarrow> good w \<longrightarrow> 0 \<le> a \<longrightarrow> b \<le> e \<longrightarrow> e \<le> blocks \<longrightarrow> (queued_from b e seqs \<or> 1 \<le> attempt) \<longrightarrow>
    y = fwd a b P x \<longrightarrow> passed P a x b (fst st) (snd st) \<longrightarrow>
    good (snd r) \<and> (\<forall>out is ss. fst r = Inr (out, is, ss) \<longrightarrow> out = fwd a e P x \<and> passed P a x e is ss)"
proof (rule forward_loop.raw_induct [where P = "\<lambda>N' P e b attempt seqs y st w r.
    N' = N \<longrightarrow> prompts_ok P \<longrightarrow> good w \<longrightarrow> 0 \<le> a \<longrightarrow> b \<le> e \<longrightarrow> e \<le> blocks \<longrightarrow> (queued_from b e seqs \<or> 1 \<le> attempt) \<longrightarrow>
    y = fwd a b P x \<longrightarrow> passed P a x b (fst st) (snd st) \<longrightarrow>
    good (snd r) \<and> (\<forall>out is ss. fst r = Inr (out, is, ss) \<longrightarrow> out = fwd a e P x \<and> passed P a x e is ss)", OF _ assms],
    intro impI, goal_cases)
  case (1 loop N' P e b attempt seqs y st w r)
  note [simp] = 1(3)
  have ab: "a \<le> b" using passed_le [OF 1(11)] .
  show ?case
  proof (cases "b < e")
    case False
    then have "r = (Inr (y, st), w)" "b = e" using 1(2,7) by auto
    then show ?thesis using 1(5,10,11) by (cases st) simp
  next
    case True
    obtain res seqs1 w1 where at: "forward_attempt N P b e attempt seqs y w = (res, seqs1, w1)" by (metis surj_pair)
    have b0: "0 \<le> b" using 1(6) ab by simp
    note fa = attempt_forward [OF 1(5,4) b0 True 1(8,9) at]
    show ?thesis
    proof (cases res)
      case (Inl ep)
      obtain err peer where ep: "ep = (err, peer)" by (metis surj_pair)
      have g: "good (tn_failure N peer w1)" using fa failure_good by blast
      show ?thesis
      proof (cases "tn_max_retries N = Some (attempt + 1)")
        case True
        then have "r = (Inl err, tn_failure N peer w1)" using 1(2) \<open>b < e\<close> at Inl ep by auto
        then show ?thesis using g by simp
      next
        case False
        then have "loop N P e b (attempt + 1) seqs1 y st (tn_failure N peer w1) = Some r"
          using 1(2) \<open>b < e\<close> at Inl ep by simp
        from 1(1) [OF this] g 1 show ?thesis by simp
      qed
    next
      case (Inr ys)
      obtain z s where ys: "ys = (z, s)" by (metis surj_pair)
      have s: "sp_start s = b" "b < sp_end s" "sp_end s \<le> e" "z = fwd b (sp_end s) P y" "queued_from (sp_end s) e seqs1" "good w1"
        using fa Inr ys by auto
      have l: "loop N P e (sp_end s) 0 seqs1 z (fst st @ [y], snd st @ [s]) (tn_success N (sp_peer s) w1) = Some r"
        using 1(2) \<open>b < e\<close> at Inr ys by simp
      have "z = fwd a (sp_end s) P x" using s(2,4) 1(6,10) ab fwd_split [of a b "sp_end s" P x] by simp
      moreover have "passed P a x (sp_end s) (fst st @ [y]) (snd st @ [s])"
        using passed_snoc [OF 1(11) s(1,2)] 1(10) by simp
      ultimately show ?thesis using 1(1) [OF l] success_good [OF s(6), of "sp_peer s"] s(3,5) 1(4,6,8) by simp
    qed
  qed
qed

lemma sequential_forward_ok:
  assumes "sequential_forward N P a e x w = Some (res, w')" and "good w" and "a \<le> e"
  shows "good w' \<and> (\<forall>y inters spans. res = Inr (y, inters, spans) \<longrightarrow>
    prompts_ok P \<and> 0 \<le> a \<and> e \<le> blocks \<and> y = fwd a e P x \<and> passed P a x e inters spans)"
proof (cases "a < 0 \<or> e > int (length (tn_uids N)) \<or> (case P of None \<Rightarrow> False | Some ps \<Rightarrow> length ps \<noteq> length (tn_uids N))")
  case True
  with assms show ?thesis by (auto simp: sequential_forward_def)
next
  case False
  then have l: "forward_loop N P e a 0 [] x ([], []) w = Some (res, w')" using assms(1) by (auto simp: sequential_forward_def)
  have pre: "prompts_ok P" "0 \<le> a" "e \<le> blocks" using False by (auto simp: prompts_ok_def blocks_def)
  have "passed P a x a [] []" "queued_from a e []" by (simp_all add: passed_def queued_from_def)
  with forward_loop_inv [OF l, of a x] pre assms(2,3) show ?thesis by (auto simp: fwd_same)
qed

section \<open>Backward\<close>

text \<open>
  The gradients \<open>g\<close> and \<open>gps\<close> belong to the output of block \<open>m\<close>, and the stacks hold the spans before it.
\<close>

definition going_back ::
  "'h list list list option \<Rightarrow> 'h list list \<Rightarrow> 'h list list \<Rightarrow> int \<Rightarrow> 'h list list \<Rightarrow> 'h list list list \<Rightarrow> ('p, 'a, 'h) stacks \<Rightarrow> bool" where
  "going_back P X G m g gps st \<longleftrightarrow> prompts_ok P \<and> m \<le> blocks \<and> passed P 0 X m (fst st) (snd st)
     \<and> bwd m blocks P (fwd 0 m P X) G = (g, gps)"

definition piece_taken ::
  "'h list list list option \<Rightarrow> 'h list list \<Rightarrow> 'h list list \<Rightarrow> ('h list list \<times> ('p, 'a) span_info) option \<Rightarrow> 'h list list
     \<Rightarrow> 'h list list list \<Rightarrow> ('p, 'a, 'h) stacks \<Rightarrow> bool" where
  "piece_taken P X G cur g gps st \<longleftrightarrow>
     (case cur of
        None \<Rightarrow> \<exists>m. going_back P X G m g gps st
      | Some (x, s) \<Rightarrow> going_back P X G (sp_end s) g gps (fst st @ [x], snd st @ [s]))"

lemma going_back_taken:
  assumes "going_back P X G m g gps (xs @ [x], ss @ [s])"
  shows "sp_end s = m" "sp_start s < sp_end s" "0 \<le> sp_start s" "x = fwd 0 (sp_start s) P X" "passed P 0 X (sp_start s) xs ss"
  using assms by (auto simp: going_back_def passed_def linked_snoc dest: linked_le)

lemma resume_ok:
  assumes t: "piece_taken P X G (Some (x, s)) g gps st" and g: "good w"
    and r: "backward_resume N P attempt x s st w = Some (res, w')"
  shows "good w' \<and> (\<forall>x1 s1 st1. res = Inr ((x1, s1), st1) \<longrightarrow> piece_taken P X G (Some (x1, s1)) g gps st1)"
proof (cases "attempt = 0")
  case True
  with r t g show ?thesis by (auto simp: backward_resume_def)
next
  case False
  from t have gb: "going_back P X G (sp_end s) g gps (fst st @ [x], snd st @ [s])" by (simp add: piece_taken_def)
  note p = going_back_taken [OF gb]
  obtain fr w1 where fr: "sequential_forward N P (sp_start s) (sp_end s) x w = Some (fr, w1)"
    and res: "w' = w1" "res = (case fr of Inl err \<Rightarrow> Inl err | Inr (_, xs, ss) \<Rightarrow>
             if length xs \<noteq> length ss then Inl AssertionError
             else if ss = [] then Inl IndexError
             else if sp_start (hd ss) \<noteq> sp_start s \<or> sp_end (last ss) \<noteq> sp_end s then Inl AssertionError
             else Inr ((last xs, last ss), (fst st @ butlast xs, snd st @ butlast ss)))"
    using r False by (auto simp: backward_resume_def split: option.splits)
  have fo: "good w1 \<and> (\<forall>y inters spans. fr = Inr (y, inters, spans) \<longrightarrow> passed P (sp_start s) x (sp_end s) inters spans)"
    using sequential_forward_ok [OF fr g] p(2) by auto
  have "piece_taken P X G (Some (x1, s1)) g gps st1" if "res = Inr ((x1, s1), st1)" for x1 s1 st1
  proof -
    from that res(2) obtain y xs ss where f: "fr = Inr (y, xs, ss)" "length xs = length ss" "ss \<noteq> []"
      "x1 = last xs" "s1 = last ss" "st1 = (fst st @ butlast xs, snd st @ butlast ss)" "sp_end (last ss) = sp_end s"
      by (auto split: if_splits sum.splits)
    have ps: "passed P (sp_start s) x (sp_end s) xs ss" using fo f(1) by blast
    have ne: "xs \<noteq> []" using f(2,3) by auto
    have "fwd (sp_start s) (sp_start q) P x = fwd 0 (sp_start q) P X" if "q \<in> set ss" for q
    proof -
      have "sp_start s \<le> sp_start q" using ps that unfolding passed_def by (meson linked_mem_le)
      then show ?thesis using p(3,4) fwd_split [of 0 "sp_start s" "sp_start q" P X] by simp
    qed
    then have "xs = map (\<lambda>q. fwd 0 (sp_start q) P X) ss" using ps by (simp add: passed_def)
    moreover have "linked 0 (sp_end s) (snd st @ ss)"
      using p(5) ps by (simp add: passed_def linked_append) blast
    ultimately have "passed P 0 X (sp_end s) (fst st @ xs) (snd st @ ss)"
      using p(5) ps by (auto simp: passed_def)
    then have "going_back P X G (sp_end s) g gps (fst st @ xs, snd st @ ss)" using gb by (simp add: going_back_def)
    then show ?thesis using f ne by (simp add: piece_taken_def)
  qed
  with fo res(1) show ?thesis by simp
qed

lemma going_back_step:
  assumes t: "piece_taken P X G (Some (x, s)) g gps st" and r: "bwd (sp_start s) (sp_end s) P x g = (g1, gp)"
  shows "piece_taken P X G None g1 (gp @ gps) st"
proof -
  from t have gb: "going_back P X G (sp_end s) g gps (fst st @ [x], snd st @ [s])" by (simp add: piece_taken_def)
  note p = going_back_taken [OF gb]
  have m: "prompts_ok P" "sp_end s \<le> blocks" "bwd (sp_end s) blocks P (fwd 0 (sp_end s) P X) G = (g, gps)"
    using gb by (auto simp: going_back_def)
  have "fwd 0 (sp_end s) P X = fwd (sp_start s) (sp_end s) P x"
    using p(2,3,4) fwd_split [of 0 "sp_start s" "sp_end s" P X] by simp
  with m(3) have "bwd (sp_end s) blocks P (fwd (sp_start s) (sp_end s) P x) G = (g, gps)" by simp
  from bwd_split [OF p(3) _ m(2) this r] p(2) have "bwd (sp_start s) blocks P x G = (g1, gp @ gps)" by simp
  then have "going_back P X G (sp_start s) g1 (gp @ gps) st" using p m by (simp add: going_back_def)
  then show ?thesis by (auto simp: piece_taken_def)
qed

lemma going_back_done:
  assumes "piece_taken P X G None g gps st" and "fst st = [] \<or> snd st = []"
  shows "bwd 0 blocks P X G = (g, gps)"
  using assms by (auto simp: piece_taken_def going_back_def passed_def fwd_same)

lemma going_back_take:
  assumes "piece_taken P X G None g gps st" and "\<not> (fst st = [] \<or> snd st = [])"
  shows "piece_taken P X G (Some (last (fst st), last (snd st))) g gps (butlast (fst st), butlast (snd st))"
proof -
  obtain m where m: "going_back P X G m g gps st" using assms(1) by (auto simp: piece_taken_def)
  obtain ss s where ss: "snd st = ss @ [s]" using assms(2) by (cases "snd st" rule: rev_cases) auto
  have e: "sp_end s = m" using m by (simp add: going_back_def passed_def ss linked_snoc)
  have "(butlast (fst st) @ [last (fst st)], butlast (snd st) @ [last (snd st)]) = st" using assms(2) by simp
  then show ?thesis using m e by (simp add: piece_taken_def ss)
qed

text \<open>One call of the backward pass, after the pieces of the forward pass that it needs are there.\<close>

lemma backward_call:
  assumes t: "piece_taken P X G (Some (x, s)) g gps st" and g: "good w"
    and c: "tn_backward N (sp_peer s) (rows_of_span N s) (slice_prompts P s) x g w = (reply, w')"
  shows "good w' \<and> (\<forall>g1 gp. reply = Inr (g1, gp) \<longrightarrow> piece_taken P X G None g1 (gp @ gps) st)"
proof -
  have gb: "going_back P X G (sp_end s) g gps (fst st @ [x], snd st @ [s])" using t by (simp add: piece_taken_def)
  note p = going_back_taken [OF gb]
  have pre: "sp_end s \<le> int (length (tn_uids N))" "\<forall>qs. P = Some qs \<longrightarrow> length qs = length (tn_uids N)"
    using gb by (auto simp: going_back_def blocks_def prompts_ok_def)
  have "piece_taken P X G None g1 (gp @ gps) st" if "reply = Inr (g1, gp)" for g1 gp
  proof -
    have "(g1, gp) = bwd (sp_start s) (sp_end s) P x g"
      by (rule backward_runs [OF g p(3,2) pre c [unfolded that]])
    then show ?thesis using going_back_step [OF t] by simp
  qed
  then show ?thesis using backward_good [OF g c] by blast
qed

lemma backward_loop_inv:
  assumes "backward_loop N' P attempt cur g gps st w = Some r"
  shows "N' = N \<longrightarrow> good w \<longrightarrow> piece_taken P X G cur g gps st \<longrightarrow>
    good (snd r) \<and> (\<forall>g' gps'. fst r = Inr (g', gps') \<longrightarrow> bwd 0 blocks P X G = (g', gps'))"
proof (rule backward_loop.raw_induct [where P = "\<lambda>N' P attempt cur g gps st w r.
    N' = N \<longrightarrow> good w \<longrightarrow> piece_taken P X G cur g gps st \<longrightarrow>
    good (snd r) \<and> (\<forall>g' gps'. fst r = Inr (g', gps') \<longrightarrow> bwd 0 blocks P X G = (g', gps'))", OF _ assms],
    intro impI, goal_cases)
  case (1 loop N' P attempt cur g gps st w r)
  note IH = 1(1) and run = 1(2) [unfolded 1(3)] and good = 1(4) and inv = 1(5)
  show ?case
  proof (cases cur)
    case None
    show ?thesis
    proof (cases "fst st = [] \<or> snd st = []")
      case True
      then have "r = (Inr (g, gps), w)" using run None by simp
      then show ?thesis using good going_back_done [OF inv [unfolded None] True] by simp
    next
      case False
      then have "loop N P 0 (Some (last (fst st), last (snd st))) g gps (butlast (fst st), butlast (snd st)) w = Some r"
        using run None by simp
      from IH [OF this] good going_back_take [OF inv [unfolded None] False] show ?thesis by simp
    qed
  next
    case (Some xs)
    obtain x s where xs: "xs = (x, s)" by (metis surj_pair)
    have t: "piece_taken P X G (Some (x, s)) g gps st" using inv Some xs by simp
    obtain resumed w1 where re: "backward_resume N P attempt x s st w = Some (resumed, w1)"
      using run Some xs by (auto split: option.splits)
    note ro = resume_ok [OF t good re]
    have retry: ?thesis if f: "(if tn_max_retries N = Some (attempt + 1) then Some (Inl err, tn_failure N (Some peer) w2)
        else loop N P (attempt + 1) (Some (x1, s1)) g gps st1 (tn_failure N (Some peer) w2)) = Some r"
      and t1: "piece_taken P X G (Some (x1, s1)) g gps st1" and g2: "good w2" for err peer w2 x1 s1 st1
    proof (cases "tn_max_retries N = Some (attempt + 1)")
      case True
      then have "r = (Inl err, tn_failure N (Some peer) w2)" using f by simp
      then show ?thesis using failure_good [OF g2] by simp
    next
      case False
      then have "loop N P (attempt + 1) (Some (x1, s1)) g gps st1 (tn_failure N (Some peer) w2) = Some r" using f by simp
      from IH [OF this] failure_good [OF g2] t1 show ?thesis by simp
    qed
    show ?thesis
    proof (cases resumed)
      case (Inl err)
      show ?thesis by (rule retry [of err "sp_peer s" w1 x s st]) (use run Some xs re Inl t ro in simp_all)
    next
      case (Inr got)
      obtain x1 s1 st1 where got: "got = ((x1, s1), st1)" by (metis surj_pair)
      have t1: "piece_taken P X G (Some (x1, s1)) g gps st1" and g1: "good w1" using ro Inr got by blast+
      obtain reply w2 where c: "tn_backward N (sp_peer s1) (rows_of_span N s1) (slice_prompts P s1) x1 g w1 = (reply, w2)"
        by (metis surj_pair)
      note bc = backward_call [OF t1 g1 c]
      show ?thesis
      proof (cases reply)
        case f: (Inl err)
        show ?thesis
          by (rule retry [of err "sp_peer s1" w2 x1 s1 st1]) (use run Some xs re Inr got c f t1 bc in simp_all)
      next
        case a: (Inr gg)
        obtain g1' gp where gg: "gg = (g1', gp)" by (metis surj_pair)
        have l: "loop N P 0 None g1' (gp @ gps) st1 (tn_success N (sp_peer s1) w2) = Some r"
          using run Some xs re Inr got c a gg by simp
        from IH [OF l] bc a gg success_good show ?thesis by simp
      qed
    qed
  qed
qed

section \<open>Both passes\<close>

text \<open>The inputs and spans of a finished forward pass are what the backward pass starts with.\<close>

lemma passes_ok:
  assumes f: "sequential_forward N P 0 (int (length (tn_uids N))) X w = Some (Inr (Y, inters, spans), w1)" and g: "good w"
    and w2: "good w1 \<Longrightarrow> good w2"
    and b: "sequential_backward N P inters spans G w2 = Some (Inr (gin, gps), w3)"
  shows "Y = fwd 0 (int (length (tn_uids N))) P X \<and> bwd 0 (int (length (tn_uids N))) P X G = (gin, gps)"
proof -
  note f = f [folded blocks_def]
  have nn: "0 \<le> blocks" by (simp add: blocks_def)
  note fo = sequential_forward_ok [OF f g nn]
  from fo have p: "prompts_ok P" "passed P 0 X blocks inters spans" "Y = fwd 0 blocks P X" "good w1" by auto
  have l: "backward_loop N P 0 None G [] (inters, spans) w2 = Some (Inr (gin, gps), w3)"
    using b by (auto simp: sequential_backward_def split: if_splits)
  have "piece_taken P X G None G [] (inters, spans)"
    using p by (auto simp: piece_taken_def going_back_def bwd_same intro!: exI [of _ blocks])
  with backward_loop_inv [OF l] w2 [OF p(4)] p(3) show ?thesis by (auto simp: blocks_def)
qed

end

section \<open>Calls that work\<close>

text \<open>
  When no call fails: a route of servers that hold their blocks is found, and they answer inputs of the
  right shape.
\<close>

locale remote_blocks_up = remote_blocks N fwd bwd good
  for N :: "('w, 'p, 'a, 'h) train_net"
    and fwd :: "int \<Rightarrow> int \<Rightarrow> 'h list list list option \<Rightarrow> 'h list list \<Rightarrow> 'h list list"
    and bwd :: "int \<Rightarrow> int \<Rightarrow> 'h list list list option \<Rightarrow> 'h list list \<Rightarrow> 'h list list \<Rightarrow> 'h list list \<times> 'h list list list"
    and good :: "'w \<Rightarrow> bool" +
  fixes up :: "'w \<Rightarrow> bool"
    and holds :: "'p \<Rightarrow> int \<Rightarrow> int \<Rightarrow> bool"
    and fit :: "'h list list list option \<Rightarrow> 'h list list \<Rightarrow> bool"
  assumes up_good: "up w \<Longrightarrow> good w"
    and holds_part: "holds p a c \<Longrightarrow> a \<le> b \<Longrightarrow> b \<le> c \<Longrightarrow> holds p a b"
    and route_up: "up w \<Longrightarrow> 0 \<le> a \<Longrightarrow> a < b \<Longrightarrow> b \<le> int (length (tn_uids N)) \<Longrightarrow>
      \<exists>spans w'. tn_route N a b w = (Inr spans, w') \<and> spans \<noteq> [] \<and> up w'
        \<and> (\<forall>s \<in> set spans. holds (sp_peer s) (sp_start s) (sp_end s))"
    and forward_up: "up w \<Longrightarrow> 0 \<le> sp_start s \<Longrightarrow> sp_start s < sp_end s \<Longrightarrow> sp_end s \<le> int (length (tn_uids N))
      \<Longrightarrow> (\<forall>qs. P = Some qs \<longrightarrow> length qs = length (tn_uids N)) \<Longrightarrow> holds (sp_peer s) (sp_start s) (sp_end s) \<Longrightarrow> fit P x
      \<Longrightarrow> \<exists>y w'. tn_forward N (sp_peer s) (rows_of_span N s) (slice_prompts P s) x w = (Inr y, w')
        \<and> map length y = map length x \<and> fit P y \<and> up w'"
    and backward_up: "up w \<Longrightarrow> 0 \<le> sp_start s \<Longrightarrow> sp_start s < sp_end s \<Longrightarrow> sp_end s \<le> int (length (tn_uids N))
      \<Longrightarrow> (\<forall>qs. P = Some qs \<longrightarrow> length qs = length (tn_uids N)) \<Longrightarrow> holds (sp_peer s) (sp_start s) (sp_end s) \<Longrightarrow> fit P x
      \<Longrightarrow> \<exists>r w'. tn_backward N (sp_peer s) (rows_of_span N s) (slice_prompts P s) x g w = (Inr r, w') \<and> up w'"
    and success_up: "up w \<Longrightarrow> up (tn_success N p w)"

context remote_blocks_up
begin

definition held :: "('p, 'a) span_info list \<Rightarrow> bool" where
  "held spans \<longleftrightarrow> (\<forall>s \<in> set spans. holds (sp_peer s) (sp_start s) (sp_end s))"

lemma held_cut:
  assumes "held spans" and "forward_spans e spans" and "spans \<noteq> []"
  shows "held (cut_route e spans)"
proof -
  obtain ss s where s: "spans = ss @ [s]" using assms(3) by (cases spans rule: rev_cases) auto
  have h: "holds (sp_peer s) (sp_start s) (sp_end s)" using assms(1) by (simp add: held_def s)
  have "sp_start s \<le> min (sp_end s) e" using assms(2) by (simp add: forward_spans_def s)
  then have "holds (sp_peer s) (sp_start s) (min (sp_end s) e)" by (rule holds_part [OF h]) simp
  then show ?thesis using assms(1) by (auto simp: held_def cut_route_def s)
qed

text \<open>With a route at hand the loop runs along it.\<close>

lemma forward_along:
  assumes "linked b e seqs" and "forward_spans e seqs" and "held seqs" and "up w" and "fit P x" and "prompts_ok P"
    and "0 \<le> b" and "e \<le> blocks"
  shows "\<exists>y inters w'. forward_loop N P e b 0 seqs x st w = Some (Inr (y, fst st @ inters, snd st @ seqs), w') \<and> up w'
    \<and> length inters = length seqs \<and> (\<forall>z \<in> set inters. fit P z)"
  using assms
proof (induction seqs arbitrary: b x st w)
  case Nil
  then have "b = e" by simp
  then have "forward_loop N P e b 0 [] x st w = Some (Inr (x, st), w)" by (subst forward_loop.simps) simp
  then show ?case using Nil.prems by auto
next
  case (Cons s seqs)
  have s: "sp_start s = b" "b < sp_end s" "b < e" "linked (sp_end s) e seqs" "sp_end s \<le> e"
    using Cons.prems(1,2) by (auto simp: forward_spans_def dest: linked_le)
  have rest: "forward_spans e seqs" "held seqs" using Cons.prems(2,3) by (auto simp: forward_spans_def held_def)
  obtain y w1 where y: "tn_forward N (sp_peer s) (rows_of_span N s) (slice_prompts P s) x w = (Inr y, w1)"
    "map length y = map length x" "fit P y" "up w1"
    using forward_up [of w s P x] Cons.prems s by (auto simp: blocks_def prompts_ok_def held_def)
  have "forward_attempt N P b e 0 (s # seqs) x w = (Inr (y, s), seqs, w1)"
    using y(1,2) by (simp add: forward_attempt_def take_route_def)
  then have "forward_loop N P e b 0 (s # seqs) x st w
      = forward_loop N P e (sp_end s) 0 seqs y (fst st @ [x], snd st @ [s]) (tn_success N (sp_peer s) w1)"
    using s(3) by (subst forward_loop.simps) simp
  moreover obtain z inters w' where
    "forward_loop N P e (sp_end s) 0 seqs y (fst st @ [x], snd st @ [s]) (tn_success N (sp_peer s) w1)
      = Some (Inr (z, (fst st @ [x]) @ inters, (snd st @ [s]) @ seqs), w')" "up w'" "length inters = length seqs"
      "\<forall>z \<in> set inters. fit P z"
    using Cons.IH [OF s(4) rest success_up [OF y(4), of "sp_peer s"] y(3) Cons.prems(6) _ Cons.prems(8), of "(fst st @ [x], snd st @ [s])"]
      Cons.prems(7) s(2) by auto
  ultimately show ?case using Cons.prems(5) by (intro exI [of _ z] exI [of _ "x # inters"] exI [of _ w']) simp
qed

lemma forward_routed:
  assumes "b < e" and "tn_route N b e w = (Inr spans, w1)" and "spans \<noteq> []"
  shows "forward_loop N P e b 0 [] x st w = forward_loop N P e b 0 (cut_route e spans) x st w1"
proof -
  have "forward_attempt N P b e 0 [] x w = forward_attempt N P b e 0 (cut_route e spans) x w1"
    using assms(2,3) by (simp add: forward_attempt_def take_route_def cut_route_def)
  then show ?thesis using assms(1) by (subst (1 2) forward_loop.simps) simp
qed

lemma forward_returns:
  assumes "up w" and "fit P x" and "prompts_ok P"
  shows "\<exists>y inters spans w'. sequential_forward N P 0 blocks x w = Some (Inr (y, inters, spans), w') \<and> up w' \<and> held spans
    \<and> length inters = length spans \<and> (\<forall>z \<in> set inters. fit P z)"
proof (cases "0 < blocks")
  case False
  then have "blocks = 0" by (simp add: blocks_def)
  then show ?thesis using assms
    by (auto simp: sequential_forward_def forward_loop.simps held_def blocks_def prompts_ok_def split: option.splits)
next
  case True
  obtain spans w1 where r: "tn_route N 0 blocks w = (Inr spans, w1)" "spans \<noteq> []" "up w1" "held spans"
    using route_up [OF assms(1) _ True] by (auto simp: blocks_def held_def)
  obtain c where c: "linked 0 c spans" "blocks \<le> c" "forward_spans blocks spans"
    using route_spans [OF up_good [OF assms(1)] _ True _ r(1)] by (auto simp: blocks_def)
  note cut = cut_route_linked [OF c r(2)]
  obtain y inters w' where "forward_loop N P blocks 0 0 (cut_route blocks spans) x ([], []) w1
      = Some (Inr (y, inters, cut_route blocks spans), w')" "up w'" "length inters = length (cut_route blocks spans)"
      "\<forall>z \<in> set inters. fit P z"
    using forward_along [OF cut(1,2) held_cut [OF r(4) c(3) r(2)] r(3) assms(2,3), of "([], [])"] by auto
  then show ?thesis
    using forward_routed [OF True r(1,2), of P x "([], [])"] held_cut [OF r(4) c(3) r(2)] assms(3)
    by (auto simp: sequential_forward_def blocks_def prompts_ok_def split: option.splits)
qed

lemma backward_along:
  assumes "linked 0 b spans" and "\<forall>s \<in> set spans. sp_start s < sp_end s" and "held spans" and "up w"
    and "length inters = length spans" and "\<forall>z \<in> set inters. fit P z" and "prompts_ok P" and "b \<le> blocks"
  shows "\<exists>g' gps' w'. backward_loop N P 0 None g gps (inters, spans) w = Some (Inr (g', gps'), w') \<and> up w'"
  using assms
proof (induction spans arbitrary: b g gps inters w rule: rev_induct)
  case Nil
  then show ?case by (simp add: backward_loop.simps)
next
  case (snoc s ss)
  obtain xs x where x: "inters = xs @ [x]" using snoc.prems(5) by (cases inters rule: rev_cases) auto
  have s: "linked 0 (sp_start s) ss" "sp_start s < sp_end s" "0 \<le> sp_start s" "sp_end s \<le> blocks"
    using snoc.prems(1,2,8) by (auto simp: linked_snoc dest: linked_le)
  obtain g1 gp w1 where c: "tn_backward N (sp_peer s) (rows_of_span N s) (slice_prompts P s) x g w = (Inr (g1, gp), w1)" "up w1"
    using backward_up [of w s P x g] snoc.prems s x by (fastforce simp: blocks_def prompts_ok_def held_def)
  have "backward_loop N P 0 None g gps (inters, ss @ [s]) w = backward_loop N P 0 (Some (x, s)) g gps (xs, ss) w"
    by (subst backward_loop.simps) (simp add: x)
  also have "\<dots> = backward_loop N P 0 None g1 (gp @ gps) (xs, ss) (tn_success N (sp_peer s) w1)"
    using c(1) by (subst backward_loop.simps) (simp add: backward_resume_def)
  finally show ?case
    using snoc.IH [OF s(1), of "tn_success N (sp_peer s) w1" xs g1 "gp @ gps"] success_up [OF c(2)] snoc.prems s x
    by (auto simp: held_def)
qed

lemma passes_return:
  assumes "up w" and "fit P X" and ps: "\<forall>qs. P = Some qs \<longrightarrow> length qs = length (tn_uids N)"
    and up2: "\<And>w1. up w1 \<Longrightarrow> up (f w1)"
  shows "\<exists>Y inters spans w1 gin gps w3. sequential_forward N P 0 (int (length (tn_uids N))) X w = Some (Inr (Y, inters, spans), w1)
    \<and> sequential_backward N P inters spans G (f w1) = Some (Inr (gin, gps), w3)"
proof -
  have P: "prompts_ok P" using ps by (simp add: prompts_ok_def)
  obtain Y inters spans w1 where f: "sequential_forward N P 0 blocks X w = Some (Inr (Y, inters, spans), w1)" "up w1" "held spans"
    "length inters = length spans" "\<forall>z \<in> set inters. fit P z"
    using forward_returns [OF assms(1,2) P] by blast
  have p: "passed P 0 X blocks inters spans"
    using sequential_forward_ok [OF f(1) up_good [OF assms(1)]] by (auto simp: blocks_def)
  have "\<exists>gin gps w3. backward_loop N P 0 None G [] (inters, spans) (f w1) = Some (Inr (gin, gps), w3) \<and> up w3"
    using p by (intro backward_along [OF _ _ f(3) up2 [OF f(2)] f(4,5) P]) (auto simp: passed_def)
  then obtain gin gps w3 where "sequential_backward N P inters spans G (f w1) = Some (Inr (gin, gps), w3)"
    using f(4) by (auto simp: sequential_backward_def)
  with f(1) show ?thesis unfolding blocks_def by blast
qed

end

end
