(* ===== verification/PetalsTrainingServing.thy ===== *)
theory PetalsTrainingServing
  imports PetalsTrainingContract PetalsServing
begin

text \<open>
  The chained passes over servers that run \<open>rpc_forward\<close> and \<open>rpc_backward\<close>, with routes from
  \<open>make_sequence_with_max_throughput\<close> and calls that may get lost. The outputs and gradients are those of
  the composed blocks of the model.
\<close>

section \<open>The model as a whole\<close>

text \<open>The input of a block with its prompt added.\<close>

definition block_input :: "'h trainer \<Rightarrow> 'h list list option \<Rightarrow> 'h list list \<Rightarrow> 'h list list" where
  "block_input T p rows = (case add_prompts T p rows of Inl e \<Rightarrow> rows | Inr x \<Rightarrow> x)"

fun whole_forward :: "'h trainer \<Rightarrow> (string \<times> 'h list list option) list \<Rightarrow> 'h list list \<Rightarrow> 'h list list" where
  "whole_forward T [] rows = rows"
| "whole_forward T ((u, p) # bs) rows = whole_forward T bs (tr_forward T u (block_input T p rows))"

definition prompt_grad :: "'h list list option \<Rightarrow> 'h list list \<Rightarrow> 'h list list list" where
  "prompt_grad p g = (case p of None \<Rightarrow> [] | Some q \<Rightarrow> [map (take (row_length q)) g])"

text \<open>The chain rule: the gradient at the input of the first block, and those of the prompts.\<close>

fun whole_backward :: "'h trainer \<Rightarrow> (string \<times> 'h list list option) list \<Rightarrow> 'h list list \<Rightarrow> 'h list list
    \<Rightarrow> 'h list list \<times> 'h list list list" where
  "whole_backward T [] rows g = (g, [])"
| "whole_backward T ((u, p) # bs) rows g =
     (case whole_backward T bs (tr_forward T u (block_input T p rows)) g of (g1, gps) \<Rightarrow>
        (tr_backward T u (block_input T p rows) g1, prompt_grad p (tr_backward T u (block_input T p rows) g1) @ gps))"

lemma whole_forward_append: "whole_forward T (xs @ ys) rows = whole_forward T ys (whole_forward T xs rows)"
  by (induction xs arbitrary: rows) auto

lemma whole_backward_append:
  "whole_backward T ys (whole_forward T xs rows) g = (g1, gp1) \<Longrightarrow> whole_backward T xs rows g1 = (g2, gp2)
     \<Longrightarrow> whole_backward T (xs @ ys) rows g = (g2, gp2 @ gp1)"
proof (induction xs arbitrary: rows g2 gp2)
  case (Cons up xs)
  obtain u p where up: "up = (u, p)" by (metis surj_pair)
  let ?x = "block_input T p rows"
  obtain g3 gp3 where r: "whole_backward T xs (tr_forward T u ?x) g1 = (g3, gp3)" by (metis surj_pair)
  with Cons.IH [OF _ r] Cons.prems up show ?case by auto
qed simp

section \<open>A server computes its blocks\<close>

lemma forward_chain_whole: "forward_chain T bs rows = Inr y \<Longrightarrow> y = whole_forward T bs rows"
  by (induction T bs rows rule: forward_chain.induct)
    (auto simp: rbind_Inr_iff submit_task_def block_input_def split: if_splits)

lemma run_rpc_forward_whole:
  "run_rpc_forward T uids P rows = Inr y \<Longrightarrow> y = whole_forward T (zip uids (split_prompts (length uids) P)) rows"
  by (auto simp: run_rpc_forward_def split: if_splits dest: forward_chain_whole)

text \<open>Fewer prompts than blocks: the request is that for the first blocks only.\<close>

lemma short_prompts_skip_blocks:
  assumes "length ps < length uids" and "\<not> list_all is_dummy ps"
  shows "run_rpc_forward T uids (Some ps) rows = run_rpc_forward T (take (length ps) uids) (Some ps) rows"
proof -
  let ?qs = "map (\<lambda>p. if is_dummy p then None else Some p) ps"
  have "ps \<noteq> []" using assms(2) by auto
  moreover have "zip uids ?qs = zip (take (length ps) uids) ?qs"
    using zip_append1 [of "take (length ps) uids" "drop (length ps) uids" ?qs] assms(1) by (simp add: min_def)
  ultimately show ?thesis using assms by (auto simp: run_rpc_forward_def split_prompts_def)
qed

text \<open>The inputs of the blocks, one after the other.\<close>

fun block_inputs :: "'h trainer \<Rightarrow> (string \<times> 'h list list option) list \<Rightarrow> 'h list list \<Rightarrow> 'h list list list" where
  "block_inputs T [] rows = []"
| "block_inputs T ((u, p) # bs) rows =
     block_input T p rows # block_inputs T bs (tr_forward T u (block_input T p rows))"

lemma block_inputs_length [simp]: "length (block_inputs T bs rows) = length bs"
  by (induction T bs rows rule: block_inputs.induct) simp_all

lemma block_inputs_append:
  "block_inputs T (xs @ ys) rows = block_inputs T xs rows @ block_inputs T ys (whole_forward T xs rows)"
  by (induction T xs rows rule: block_inputs.induct) simp_all

lemma collect_inputs_whole:
  "collect_inputs T bs rows = Inr (xs, z) \<Longrightarrow> xs = block_inputs T bs rows \<and> z = whole_forward T bs rows"
proof (induction T bs rows arbitrary: xs z rule: collect_inputs.induct)
  case (2 T u p bs rows)
  then obtain x where x: "add_prompts T p rows = Inr x" by (auto simp: rbind_Inr_iff)
  with 2 show ?case by (fastforce simp: rbind_Inr_iff submit_task_def block_input_def split: if_splits)
qed simp

text \<open>From the last block back.\<close>

lemma backward_chain_whole:
  assumes "backward_chain T (rev (zip (block_inputs T bs rows) (map (\<lambda>(u, p). (p, u)) bs))) g gps = Inr r"
  shows "r = (fst (whole_backward T bs rows g), snd (whole_backward T bs rows g) @ gps)"
  using assms
proof (induction bs arbitrary: g gps rule: rev_induct)
  case (snoc up bs)
  obtain u p where up: "up = (u, p)" by (metis surj_pair)
  let ?x = "block_input T p (whole_forward T bs rows)"
  let ?g = "tr_backward T u ?x g"
  obtain g2 gp2 where w: "whole_backward T bs rows ?g = (g2, gp2)" by (metis surj_pair)
  have "backward_chain T ((?x, p, u) # rev (zip (block_inputs T bs rows) (map (\<lambda>(u, p). (p, u)) bs))) g gps = Inr r"
    using snoc.prems by (simp add: up block_inputs_append)
  then have "backward_chain T (rev (zip (block_inputs T bs rows) (map (\<lambda>(u, p). (p, u)) bs))) ?g (prompt_grad p ?g @ gps) = Inr r"
    by (auto simp: rbind_Inr_iff submit_task_def prompt_grad_def split: if_splits option.splits)
  from snoc.IH [OF this] whole_backward_append [of T "[up]" bs rows g ?g "prompt_grad p ?g" g2 gp2] w up
  show ?case by simp
qed simp

lemma zip_snoc_last:
  assumes "length xs = length ys" and "xs \<noteq> []"
  shows "zip xs ys = zip (butlast xs) (butlast ys) @ [(last xs, last ys)]"
proof -
  have "zip (butlast xs @ [last xs]) (butlast ys @ [last ys]) = zip (butlast xs) (butlast ys) @ [(last xs, last ys)]"
    using assms by (subst zip_append) auto
  then show ?thesis using assms by (metis append_butlast_last_id length_0_conv)
qed

lemma run_rpc_backward_whole:
  assumes "run_rpc_backward T uids P rows g = Inr r"
  shows "r = whole_backward T (zip uids (split_prompts (length uids) P)) rows g"
proof -
  define ps where "ps = split_prompts (length uids) P"
  from assms obtain xs y x where c: "uids \<noteq> []" "collect_inputs T (zip (butlast uids) (butlast ps)) rows = Inr (xs, y)"
    "add_prompts T (last ps) y = Inr x" "length (xs @ [x]) = length ps" "length ps = length uids"
    "backward_chain T (rev (zip (xs @ [x]) (zip ps uids))) g [] = Inr r"
    by (auto simp: run_rpc_backward_def Let_def ps_def rbind_Inr_iff split: if_splits)
  have z: "zip uids ps = zip (butlast uids) (butlast ps) @ [(last uids, last ps)]" using zip_snoc_last c(1,5) by metis
  have "xs @ [x] = block_inputs T (zip uids ps) rows"
    using collect_inputs_whole [OF c(2)] c(3) by (simp add: z block_inputs_append block_input_def)
  moreover have "zip ps uids = map (\<lambda>(u, p). (p, u)) (zip uids ps)"
    by (simp add: zip_commute [of ps] prod.case_distrib split_def)
  ultimately show ?thesis using backward_chain_whole [of T "zip uids ps" rows g "[]" r] c(6) by (simp add: ps_def)
qed

section \<open>Spans\<close>

text \<open>The prompts of all blocks, as the servers split them.\<close>

definition prompt_list :: "nat \<Rightarrow> 'h list list list option \<Rightarrow> 'h list list option list" where
  "prompt_list n P = (case P of None \<Rightarrow> replicate n None | Some ps \<Rightarrow> map (\<lambda>p. if is_dummy p then None else Some p) ps)"

lemma split_prompts_list:
  assumes "\<forall>qs. P = Some qs \<longrightarrow> length qs = n"
  shows "split_prompts n P = prompt_list n P"
proof (cases P)
  case (Some qs)
  have "replicate (length qs) None = map (\<lambda>p. if is_dummy p then None else Some p) qs" if "list_all is_dummy qs"
    using that by (induction qs) auto
  with Some assms show ?thesis by (auto simp: split_prompts_def prompt_list_def)
qed (simp add: split_prompts_def prompt_list_def)

definition blocks_between :: "string list \<Rightarrow> 'h list list list option \<Rightarrow> int \<Rightarrow> int \<Rightarrow> (string \<times> 'h list list option) list" where
  "blocks_between us P a b = drop (nat a) (take (nat b) (zip us (prompt_list (length us) P)))"

lemma blocks_between_split:
  "0 \<le> a \<Longrightarrow> a \<le> b \<Longrightarrow> b \<le> c \<Longrightarrow> blocks_between us P a c = blocks_between us P a b @ blocks_between us P b c"
  unfolding blocks_between_def by (rule drop_take_split [symmetric]) (auto simp: nat_mono)

lemma blocks_between_same [simp]: "blocks_between us P a a = []"
  by (simp add: blocks_between_def)

lemma blocks_of_span:
  assumes "0 \<le> sp_start s" and "sp_start s < sp_end s" and "sp_end s \<le> int (length us)"
    and "\<forall>qs. P = Some qs \<longrightarrow> length qs = length us"
  shows "zip (uids_between us (sp_start s) (sp_end s))
    (split_prompts (length (uids_between us (sp_start s) (sp_end s))) (slice_prompts P s)) = blocks_between us P (sp_start s) (sp_end s)"
proof -
  let ?n = "length (uids_between us (sp_start s) (sp_end s))"
  have "split_prompts ?n (slice_prompts P s) = prompt_list ?n (slice_prompts P s)"
    by (rule split_prompts_list) (use assms in \<open>auto simp: slice_prompts_def uids_between_def\<close>)
  also have "\<dots> = drop (nat (sp_start s)) (take (nat (sp_end s)) (prompt_list (length us) P))"
    by (auto simp: prompt_list_def slice_prompts_def uids_between_def drop_map take_map split: option.splits)
  finally show ?thesis by (simp add: blocks_between_def uids_between_def take_zip drop_zip)
qed

section \<open>The swarm\<close>

record ('p, 'a) train_world =
  tw_faults :: "fault list"
  tw_seq :: "('p, 'a) sequence_info"

record ('p, 'a, 'h) train_env =
  te_trainer :: "'h trainer"
  te_holds :: "'p \<Rightarrow> string \<Rightarrow> bool"
  te_pick :: "int \<Rightarrow> ('p, 'a) span_info list \<Rightarrow> 'a list \<Rightarrow> ('p, 'a) span_info"
  te_rtts :: "('p, 'a) rtts"
  te_uids :: "string list"
  te_max_retries :: "nat option"

text \<open>A call that takes the next fault: the request or the reply gets lost, or the server's answer comes back.\<close>

definition lossy_call :: "'r result \<Rightarrow> ('p, 'a) train_world \<Rightarrow> 'r result \<times> ('p, 'a) train_world" where
  "lossy_call answer w =
     ((if tw_faults w = [] \<or> hd (tw_faults w) = Fine then answer else Inl TimeoutError), w\<lparr>tw_faults := tl (tw_faults w)\<rparr>)"

definition trainers :: "('p, 'a::linordered_field, 'h) train_env \<Rightarrow> (('p, 'a) train_world, 'p, 'a, 'h) train_net" where
  "trainers C =
     \<lparr>tn_uids = te_uids C,
      tn_route = (\<lambda>a b w. (make_sequence_with_max_throughput (te_pick C) (te_rtts C) (tw_seq w) a b, w)),
      tn_forward = (\<lambda>p us P x. lossy_call (rpc_forward (te_holds C p) (te_trainer C) us P x)),
      tn_backward = (\<lambda>p us P x g. lossy_call (rpc_backward (te_holds C p) (te_trainer C) us P x g)),
      tn_failure = (\<lambda>peer w. case peer of None \<Rightarrow> w | Some p \<Rightarrow> w\<lparr>tw_seq := fst (on_request_failure p (tw_seq w))\<rparr>),
      tn_success = (\<lambda>p w. w),
      tn_max_retries = te_max_retries C\<rparr>"

definition trainers_good :: "('p, 'a::linordered_field, 'h) train_env \<Rightarrow> ('p, 'a) train_world \<Rightarrow> bool" where
  "trainers_good C w \<longleftrightarrow> sequence_ok (tw_seq w) \<and> picks_candidate (te_pick C) \<and> sq_block_uids (tw_seq w) = te_uids C"

definition train_forward :: "('p, 'a, 'h) train_env \<Rightarrow> int \<Rightarrow> int \<Rightarrow> 'h list list list option \<Rightarrow> 'h list list \<Rightarrow> 'h list list" where
  "train_forward C a b P x = whole_forward (te_trainer C) (blocks_between (te_uids C) P a b) x"

definition train_backward ::
  "('p, 'a, 'h) train_env \<Rightarrow> int \<Rightarrow> int \<Rightarrow> 'h list list list option \<Rightarrow> 'h list list \<Rightarrow> 'h list list \<Rightarrow> 'h list list \<times> 'h list list list" where
  "train_backward C a b P x g = whole_backward (te_trainer C) (blocks_between (te_uids C) P a b) x g"

lemma lossy_call_cases:
  "lossy_call answer w = (reply, w') \<Longrightarrow> tw_seq w' = tw_seq w \<and> (\<forall>r. reply = Inr r \<longrightarrow> answer = Inr r)"
  by (auto simp: lossy_call_def split: if_splits)

text \<open>A route that was made covers the blocks asked.\<close>

lemma throughput_loop_spans:
  "max_throughput_loop pick rt sq b i = Inr spans \<Longrightarrow>
     \<exists>c. linked i c spans \<and> b \<le> c \<and> (\<forall>s \<in> set spans. sp_start s < sp_end s \<and> sp_start s < b)"
proof (induction pick rt sq b i arbitrary: spans rule: max_throughput_loop.induct)
  case (1 pick rt sq b i)
  show ?case
  proof (cases "i < b")
    case False
    then show ?thesis using 1(2) by (simp add: max_throughput_loop.simps)
  next
    case True
    let ?c = "spans_at sq i"
    let ?sp = "pick i ?c (map (\<lambda>w. w / sum_list (span_weights rt ?c)) (span_weights rt ?c))"
    from 1(2) True obtain rest where r: "?c \<noteq> []" "sp_start ?sp \<le> i" "i < sp_end ?sp"
      "max_throughput_loop pick rt sq b (sp_end ?sp) = Inr rest" "spans = ?sp\<lparr>sp_start := i\<rparr> # rest"
      by (subst (asm) max_throughput_loop.simps) (auto simp: Let_def rbind_Inr_iff split: if_splits)
    have "\<exists>c. linked (sp_end ?sp) c rest \<and> b \<le> c \<and> (\<forall>s \<in> set rest. sp_start s < sp_end s \<and> sp_start s < b)"
      by (rule 1(1)) (use True r in simp_all)
    then show ?thesis using r True by auto
  qed
qed

lemma lossy_forward:
  "tn_forward (trainers C) p us P x w = (reply, w') \<Longrightarrow> tw_seq w' = tw_seq w
     \<and> (\<forall>y. reply = Inr y \<longrightarrow> y = whole_forward (te_trainer C) (zip us (split_prompts (length us) P)) x)"
  by (auto simp: trainers_def rpc_forward_def dest!: lossy_call_cases run_rpc_forward_whole split: if_splits)

lemma lossy_backward:
  "tn_backward (trainers C) p us P x g w = (reply, w') \<Longrightarrow> tw_seq w' = tw_seq w
     \<and> (\<forall>r. reply = Inr r \<longrightarrow> r = whole_backward (te_trainer C) (zip us (split_prompts (length us) P)) x g)"
  by (auto simp: trainers_def rpc_backward_def dest!: lossy_call_cases run_rpc_backward_whole split: if_splits)

interpretation trained: remote_blocks "trainers C" "train_forward C" "train_backward C" "trainers_good C"
  for C :: "('p, 'a::linordered_field, 'h) train_env"
proof (unfold_locales, goal_cases)
  case (1 a P x)
  then show ?case by (simp add: train_forward_def)
next
  case (2 a b c P x)
  then show ?case by (simp add: train_forward_def blocks_between_split [of a b c] whole_forward_append)
next
  case (3 a P x g)
  then show ?case by (simp add: train_backward_def)
next
  case (4 a b c P x g g1 gp1 g2 gp2)
  then show ?case
    by (simp add: train_forward_def train_backward_def blocks_between_split [of a b c]) (rule whole_backward_append)
next
  case (5 w a b routed w')
  then show ?case by (auto simp: trainers_def)
next
  case (6 w a b spans w')
  then have "max_throughput_loop (te_pick C) (te_rtts C) (tw_seq w) b a = Inr spans"
    unfolding trainers_def make_sequence_with_max_throughput_def by auto
  from throughput_loop_spans [OF this] show ?case by (auto simp: forward_spans_def)
next
  case (7 w p us ps x reply w')
  from lossy_forward [OF 7(2)] 7(1) show ?case by (simp add: trainers_good_def)
next
  case (8 w s P p x y w')
  have "te_uids C = tn_uids (trainers C)" by (simp add: trainers_def)
  with lossy_forward [OF 8(6)] blocks_of_span [OF 8(2-5)] show ?case by (simp add: train_forward_def rows_of_span_def)
next
  case (9 w p us ps x g reply w')
  from lossy_backward [OF 9(2)] 9(1) show ?case by (simp add: trainers_good_def)
next
  case (10 w s P p x g r w')
  have "te_uids C = tn_uids (trainers C)" by (simp add: trainers_def)
  with lossy_backward [OF 10(6)] blocks_of_span [OF 10(2-5)] show ?case by (simp add: train_backward_def rows_of_span_def)
next
  case (11 w peer)
  then show ?case
    by (auto simp: trainers_def trainers_good_def on_request_failure_def sequence_ok_def Let_def split: option.splits)
next
  case (12 w p)
  then show ?case by (simp add: trainers_def)
qed

text \<open>C1. If a forward pass through the swarm returns, it has computed all blocks in order, each with its
  prompt added; if the backward pass that starts from the inputs it kept returns, too, its gradients are
  those of the chain rule over the same blocks, one for the input and one for every prompt. This
  holds whatever calls fail on either pass and whatever servers take over parts of the way.\<close>

theorem training_computes_gradient:
  assumes "trainers_good C w"
    and "sequential_forward (trainers C) P 0 (int (length (te_uids C))) X w = Some (Inr (Y, inters, spans), w1)"
    and "sequential_backward (trainers C) P inters spans G (w1\<lparr>tw_faults := fs\<rparr>) = Some (Inr (gin, gps), w2)"
  shows "Y = whole_forward (te_trainer C) (zip (te_uids C) (prompt_list (length (te_uids C)) P)) X
    \<and> (gin, gps) = whole_backward (te_trainer C) (zip (te_uids C) (prompt_list (length (te_uids C)) P)) X G"
proof -
  have n: "tn_uids (trainers C) = te_uids C" by (simp add: trainers_def)
  have b: "blocks_between (te_uids C) P 0 (int (length (te_uids C))) = zip (te_uids C) (prompt_list (length (te_uids C)) P)"
    by (simp add: blocks_between_def)
  have g: "trainers_good C (w1\<lparr>tw_faults := fs\<rparr>)" if "trainers_good C w1" using that by (simp add: trainers_good_def)
  from trained.passes_ok [of C, unfolded n, OF assms(2,1) g assms(3)] b show ?thesis
    by (simp add: train_forward_def train_backward_def)
qed

section \<open>Passes return\<close>

text \<open>Sizes depend on the shape only.\<close>

lemma shape_size:
  assumes "map length x = map length y"
  shows "length x = length y" "row_length x = row_length y" "task_size x = task_size y"
proof -
  show l: "length x = length y" using assms by (rule map_eq_imp_length_eq)
  show r: "row_length x = row_length y" using assms by (auto simp: row_length_def split: list.splits)
  show "task_size x = task_size y" using l r by (simp add: task_size_def)
qed

text \<open>A prompt that can be added to such inputs.\<close>

definition prompt_fits :: "'h list list \<Rightarrow> 'h list list option \<Rightarrow> bool" where
  "prompt_fits x p \<longleftrightarrow>
     (case p of None \<Rightarrow> True
      | Some ps \<Rightarrow> (row_length ps \<le> row_length x \<or> row_length ps = 1) \<and> (length ps = 1 \<or> length ps = length x)
          \<and> (\<forall>q \<in> set ps. length q = row_length ps))"

lemma prompt_fits_shape:
  assumes "map length x = map length y"
  shows "prompt_fits x p = prompt_fits y p"
  by (simp only: prompt_fits_def shape_size(1,2) [OF assms])

lemma add_prompts_total:
  assumes "prompt_fits x p"
  shows "\<exists>y. add_prompts T p x = Inr y \<and> map length y = map length x"
proof (cases p)
  case (Some ps)
  let ?k = "row_length ps" and ?qs = "if length ps = 1 then replicate (length x) (hd ps) else ps"
  have k: "length ?qs = length x" "\<not> (row_length x < ?k \<and> ?k \<noteq> 1)" using assms by (auto simp: prompt_fits_def Some)
  have "\<forall>q \<in> set ?qs. length q = ?k"
    using assms by (cases ps) (auto simp: prompt_fits_def Some)
  then have q: "length (?qs ! i) = ?k" if "i < length x" for i using that k(1) by (metis nth_mem)
  have "map length (map2 (\<lambda>r p. map2 (tr_plus T) (take ?k r) p @ drop ?k r) x ?qs) = map length x"
    by (rule nth_equalityI) (use k(1) q in auto)
  then show ?thesis using k by (simp add: add_prompts_def Some Let_def)
qed (simp add: add_prompts_def)

definition keeps_shape :: "'h trainer \<Rightarrow> bool" where
  "keeps_shape T \<longleftrightarrow> (\<forall>u x. map length (tr_forward T u x) = map length x)"

lemma forward_chain_total:
  assumes T: "keeps_shape T" and "\<forall>up \<in> set bs. prompt_fits rows (snd up)" and "task_size rows \<le> tr_max_batch T"
  shows "\<exists>y. forward_chain T bs rows = Inr y \<and> map length y = map length rows"
  using assms(2,3)
proof (induction bs arbitrary: rows)
  case (Cons up bs)
  obtain u p where up: "up = (u, p)" by (metis surj_pair)
  have p: "prompt_fits rows p" using Cons.prems(1) up by simp
  obtain x where x: "add_prompts T p rows = Inr x" "map length x = map length rows" using add_prompts_total [OF p] by blast
  let ?y = "tr_forward T u x"
  have y: "map length ?y = map length rows" using T x(2) by (simp add: keeps_shape_def)
  have "\<forall>up \<in> set bs. prompt_fits ?y (snd up)" using Cons.prems(1) prompt_fits_shape [OF y] by simp
  moreover have "task_size ?y \<le> tr_max_batch T" using Cons.prems(2) by (simp only: shape_size(3) [OF y])
  ultimately obtain z where z: "forward_chain T bs ?y = Inr z" "map length z = map length ?y" using Cons.IH by blast
  have "\<not> tr_max_batch T < task_size x" using Cons.prems(2) shape_size(3) [OF x(2)] by linarith
  then have "forward_chain T (up # bs) rows = Inr z" using x(1) z(1) by (simp add: up submit_task_def)
  then show ?case using z(2) y by (metis (no_types))
qed simp

lemma collect_inputs_total:
  assumes T: "keeps_shape T" and "\<forall>up \<in> set bs. prompt_fits rows (snd up)" and "task_size rows \<le> tr_max_batch T"
  shows "\<exists>xs z. collect_inputs T bs rows = Inr (xs, z) \<and> length xs = length bs \<and> map length z = map length rows
    \<and> (\<forall>x \<in> set xs. task_size x \<le> tr_max_batch T)"
  using assms(2,3)
proof (induction bs arbitrary: rows)
  case (Cons up bs)
  obtain u p where up: "up = (u, p)" by (metis surj_pair)
  have p: "prompt_fits rows p" using Cons.prems(1) up by simp
  obtain x where x: "add_prompts T p rows = Inr x" "map length x = map length rows" using add_prompts_total [OF p] by blast
  let ?y = "tr_forward T u x"
  have y: "map length ?y = map length rows" using T x(2) by (simp add: keeps_shape_def)
  have "\<forall>up \<in> set bs. prompt_fits ?y (snd up)" using Cons.prems(1) prompt_fits_shape [OF y] by simp
  moreover have "task_size ?y \<le> tr_max_batch T" using Cons.prems(2) by (simp only: shape_size(3) [OF y])
  ultimately obtain xs z where z: "collect_inputs T bs ?y = Inr (xs, z)" "length xs = length bs" "map length z = map length ?y"
    "\<forall>x \<in> set xs. task_size x \<le> tr_max_batch T" using Cons.IH by metis
  have s: "task_size x \<le> tr_max_batch T" using Cons.prems(2) shape_size(3) [OF x(2)] by linarith
  then have "collect_inputs T (up # bs) rows = Inr (x # xs, z)" using x(1) z(1) by (simp add: up submit_task_def)
  moreover have "map length z = map length rows" using z(3) y by (rule trans)
  ultimately show ?case using z(2,4) s by (intro exI [of _ "x # xs"] exI [of _ z]) simp
qed simp

lemma backward_chain_total:
  "\<forall>t \<in> set ts. task_size (fst t) \<le> tr_max_batch T \<Longrightarrow> \<exists>r. backward_chain T ts g gps = Inr r"
  by (induction ts arbitrary: g gps) (auto simp: submit_task_def)

text \<open>A request for some blocks with prompts that fit is answered.\<close>

lemma run_rpc_forward_total:
  assumes "keeps_shape T" and "us \<noteq> []" and "\<forall>p \<in> set (split_prompts (length us) P). prompt_fits x p" and "task_size x \<le> tr_max_batch T"
  shows "\<exists>y. run_rpc_forward T us P x = Inr y \<and> map length y = map length x"
proof -
  have "\<forall>up \<in> set (zip us (split_prompts (length us) P)). prompt_fits x (snd up)"
    using assms(3) by (auto dest: set_zip_rightD)
  from forward_chain_total [OF assms(1) this assms(4)] assms(2) show ?thesis by (simp add: run_rpc_forward_def)
qed

lemma run_rpc_backward_total:
  assumes T: "keeps_shape T" and us: "us \<noteq> []" and fits: "\<forall>p \<in> set (split_prompts (length us) P). prompt_fits x p"
    and size: "task_size x \<le> tr_max_batch T" and n: "length (split_prompts (length us) P) = length us"
  shows "\<exists>r. run_rpc_backward T us P x g = Inr r"
proof -
  define ps where "ps = split_prompts (length us) P"
  have ps: "ps \<noteq> []" "length ps = length us" using n us by (auto simp: ps_def)
  have "\<forall>up \<in> set (zip (butlast us) (butlast ps)). prompt_fits x (snd up)"
    using fits by (auto simp: ps_def dest!: set_zip_rightD in_set_butlastD)
  from collect_inputs_total [OF T this size]
  obtain xs z where c: "collect_inputs T (zip (butlast us) (butlast ps)) x = Inr (xs, z)"
    "length xs = length (zip (butlast us) (butlast ps))" "map length z = map length x" "\<forall>x \<in> set xs. task_size x \<le> tr_max_batch T"
    by blast
  have "prompt_fits x (last ps)" using fits last_in_set [OF ps(1)] by (simp add: ps_def)
  then have "prompt_fits z (last ps)" using prompt_fits_shape [OF c(3)] by blast
  then obtain y where y: "add_prompts T (last ps) z = Inr y" "map length y = map length z" using add_prompts_total by blast
  have sy: "task_size y \<le> tr_max_batch T" using size shape_size(3) [OF y(2)] shape_size(3) [OF c(3)] by linarith
  have l: "length (xs @ [y]) = length ps" using c(2) ps by (cases us; cases ps) auto
  have "\<forall>t \<in> set (rev (zip (xs @ [y]) (zip ps us))). task_size (fst t) \<le> tr_max_batch T"
    using c(4) sy by (auto dest!: set_zip_leftD)
  from backward_chain_total [OF this] obtain r where "backward_chain T (rev (zip (xs @ [y]) (zip ps us))) g [] = Inr r" by blast
  with us c(1) y(1) l ps(2) show ?thesis
    by (simp add: run_rpc_backward_def Let_def flip: ps_def)
qed

text \<open>
  No call gets lost from now on, every block has a server, and the servers hold what the index says;
  the inputs are not too large and the prompts fit.
\<close>

definition trainers_hold :: "('p, 'a, 'h) train_env \<Rightarrow> 'p \<Rightarrow> int \<Rightarrow> int \<Rightarrow> bool" where
  "trainers_hold C p a b \<longleftrightarrow> (\<forall>u \<in> set (uids_between (te_uids C) a b). te_holds C p u)"

definition trainers_up :: "('p, 'a::linordered_field, 'h) train_env \<Rightarrow> ('p, 'a) train_world \<Rightarrow> bool" where
  "trainers_up C w \<longleftrightarrow> trainers_good C w \<and> tw_faults w = [] \<and> keeps_shape (te_trainer C)
     \<and> missing_blocks (tw_seq w) 0 (int (length (te_uids C))) = []
     \<and> (\<forall>s \<in> set (sq_by_priority (tw_seq w)). \<forall>j. 0 \<le> j \<and> j < int (length (te_uids C)) \<and> holds_block j s
          \<longrightarrow> te_holds C (sp_peer s) (te_uids C ! nat j))"

definition inputs_fit :: "('p, 'a, 'h) train_env \<Rightarrow> 'h list list list option \<Rightarrow> 'h list list \<Rightarrow> bool" where
  "inputs_fit C P x \<longleftrightarrow> task_size x \<le> tr_max_batch (te_trainer C) \<and> (\<forall>p \<in> set (prompt_list (length (te_uids C)) P). prompt_fits x p)"

lemma trainers_route_up:
  assumes up: "trainers_up C w" and ab: "0 \<le> a" "a < b" "b \<le> int (length (te_uids C))"
  shows "\<exists>spans. make_sequence_with_max_throughput (te_pick C) (te_rtts C) (tw_seq w) a b = Inr spans \<and> spans \<noteq> []
    \<and> (\<forall>s \<in> set spans. trainers_hold C (sp_peer s) (sp_start s) (sp_end s))"
proof -
  have ok: "sequence_ok (tw_seq w)" "picks_candidate (te_pick C)" and mb: "missing_blocks (tw_seq w) a b = []"
    using up missing_blocks_part [OF _ ab(1,3)] by (auto simp: trainers_up_def trainers_good_def)
  obtain spans e where sp: "max_throughput_loop (te_pick C) (te_rtts C) (tw_seq w) b a = Inr spans"
    "linked a e spans" "if a < b then b \<le> e else e = a" "list_all (served (tw_seq w)) spans"
    using max_throughput_ok [OF ok, of a b "te_rtts C"] mb missing_blocks_iff by blast
  have "trainers_hold C (sp_peer s) (sp_start s) (sp_end s)" if "s \<in> set spans" for s
    unfolding trainers_hold_def
    by (rule served_uids [of "tw_seq w" _ "te_holds C"]) (use up sp(4) that in \<open>auto simp: trainers_up_def list_all_iff\<close>)
  moreover have "spans \<noteq> []" using sp(2,3) ab(2) by auto
  ultimately show ?thesis using sp(1) by (auto simp: make_sequence_with_max_throughput_def)
qed

lemma zip_partner: "length ys = length xs \<Longrightarrow> y \<in> set ys \<Longrightarrow> \<exists>x. (x, y) \<in> set (zip xs ys)"
  by (auto simp: in_set_conv_nth set_zip)

lemma span_prompts_fit:
  assumes "0 \<le> sp_start s" and "sp_start s < sp_end s" and "sp_end s \<le> int (length (te_uids C))"
    and "\<forall>qs. P = Some qs \<longrightarrow> length qs = length (te_uids C)" and "inputs_fit C P x"
  defines "us \<equiv> uids_between (te_uids C) (sp_start s) (sp_end s)"
  shows "us \<noteq> []" "length (split_prompts (length us) (slice_prompts P s)) = length us"
    "\<forall>p \<in> set (split_prompts (length us) (slice_prompts P s)). prompt_fits x p"
proof -
  show "us \<noteq> []" using assms(1-3) by (simp add: us_def uids_between_def)
  have l: "\<forall>qs. slice_prompts P s = Some qs \<longrightarrow> length qs = length us"
    using assms(1-4) by (auto simp: slice_prompts_def us_def uids_between_def)
  show len: "length (split_prompts (length us) (slice_prompts P s)) = length us"
    using l by (auto simp: split_prompts_list [OF l] prompt_list_def split: option.splits)
  have "prompt_fits x p" if p: "p \<in> set (split_prompts (length us) (slice_prompts P s))" for p
  proof -
    obtain u where "(u, p) \<in> set (zip us (split_prompts (length us) (slice_prompts P s)))"
      using zip_partner [OF len p] by blast
    then have "(u, p) \<in> set (blocks_between (te_uids C) P (sp_start s) (sp_end s))"
      using blocks_of_span [OF assms(1-4)] by (simp add: us_def)
    then have "(u, p) \<in> set (zip (te_uids C) (prompt_list (length (te_uids C)) P))"
      unfolding blocks_between_def by (blast dest: in_set_dropD in_set_takeD)
    then show ?thesis using assms(5) by (auto simp: inputs_fit_def dest: set_zip_rightD)
  qed
  then show "\<forall>p \<in> set (split_prompts (length us) (slice_prompts P s)). prompt_fits x p" by blast
qed

text \<open>Such a call to a server that holds the blocks is answered.\<close>

lemma trainers_forward_up:
  assumes "trainers_up C w" and "0 \<le> sp_start s" and "sp_start s < sp_end s" and "sp_end s \<le> int (length (te_uids C))"
    and "\<forall>qs. P = Some qs \<longrightarrow> length qs = length (te_uids C)" and "trainers_hold C (sp_peer s) (sp_start s) (sp_end s)"
    and "inputs_fit C P x"
  shows "\<exists>y. tn_forward (trainers C) (sp_peer s) (rows_of_span (trainers C) s) (slice_prompts P s) x w = (Inr y, w)
    \<and> map length y = map length x \<and> inputs_fit C P y"
proof -
  let ?us = "uids_between (te_uids C) (sp_start s) (sp_end s)"
  note f = span_prompts_fit [OF assms(2-5,7)]
  have up: "keeps_shape (te_trainer C)" "tw_faults w = []" using assms(1) by (auto simp: trainers_up_def)
  obtain y where y: "run_rpc_forward (te_trainer C) ?us (slice_prompts P s) x = Inr y" "map length y = map length x"
    using run_rpc_forward_total [OF up(1) f(1,3)] assms(7) by (auto simp: inputs_fit_def)
  have "rpc_forward (te_holds C (sp_peer s)) (te_trainer C) ?us (slice_prompts P s) x = Inr y"
    using assms(6) y(1) by (auto simp: rpc_forward_def trainers_hold_def list_ex_iff)
  moreover have "inputs_fit C P y"
    using assms(7) by (simp add: inputs_fit_def shape_size(3) [OF y(2)] prompt_fits_shape [OF y(2)])
  ultimately show ?thesis using y(2) up(2)
    by (intro exI [of _ y]) (simp add: trainers_def lossy_call_def rows_of_span_def)
qed

lemma trainers_backward_up:
  assumes "trainers_up C w" and "0 \<le> sp_start s" and "sp_start s < sp_end s" and "sp_end s \<le> int (length (te_uids C))"
    and "\<forall>qs. P = Some qs \<longrightarrow> length qs = length (te_uids C)" and "trainers_hold C (sp_peer s) (sp_start s) (sp_end s)"
    and "inputs_fit C P x"
  shows "\<exists>r. tn_backward (trainers C) (sp_peer s) (rows_of_span (trainers C) s) (slice_prompts P s) x g w = (Inr r, w)"
proof -
  let ?us = "uids_between (te_uids C) (sp_start s) (sp_end s)"
  note f = span_prompts_fit [OF assms(2-5,7)]
  have up: "keeps_shape (te_trainer C)" "tw_faults w = []" using assms(1) by (auto simp: trainers_up_def)
  have "\<exists>r. run_rpc_backward (te_trainer C) ?us (slice_prompts P s) x g = Inr r"
    by (rule run_rpc_backward_total [OF up(1) f(1,3) _ f(2)]) (use assms(7) in \<open>simp add: inputs_fit_def\<close>)
  then obtain r where "run_rpc_backward (te_trainer C) ?us (slice_prompts P s) x g = Inr r" by blast
  then have "rpc_backward (te_holds C (sp_peer s)) (te_trainer C) ?us (slice_prompts P s) x g = Inr r"
    using assms(6) by (auto simp: rpc_backward_def trainers_hold_def list_ex_iff)
  then show ?thesis using up(2) by (intro exI [of _ r]) (simp add: trainers_def lossy_call_def rows_of_span_def)
qed

interpretation trained_up: remote_blocks_up "trainers C" "train_forward C" "train_backward C" "trainers_good C"
    "trainers_up C" "trainers_hold C" "inputs_fit C"
  for C :: "('p, 'a::linordered_field, 'h) train_env"
proof (unfold_locales, goal_cases)
  case (1 w)
  then show ?case by (simp add: trainers_up_def)
next
  case (2 p a c b)
  have "nat b - nat a \<le> nat c - nat a" using 2(3) by simp
  from set_take_subset_set_take [OF this]
  have "set (uids_between (te_uids C) a b) \<subseteq> set (uids_between (te_uids C) a c)"
    unfolding uids_between_def drop_take .
  then show ?case using 2(1) by (auto simp: trainers_hold_def)
next
  case (3 w a b)
  from trainers_route_up [OF 3(1,2,3)] 3(1,4) show ?case by (auto simp: trainers_def)
next
  case (4 w s P x)
  have "tn_uids (trainers C) = te_uids C" by (simp add: trainers_def)
  with trainers_forward_up [OF 4(1,2,3) _ _ 4(6,7)] 4 show ?case by fastforce
next
  case (5 w s P x g)
  have "tn_uids (trainers C) = te_uids C" by (simp add: trainers_def)
  with trainers_backward_up [OF 5(1,2,3) _ _ 5(6,7)] 5 show ?case by fastforce
next
  case (6 w p)
  then show ?case by (simp add: trainers_def)
qed

text \<open>C2. When every block has a server and no call gets lost, a forward pass with inputs and prompts of fitting
  shape ends with outputs, and the backward pass after it with gradients.\<close>

theorem training_returns:
  assumes "trainers_up C w" and "inputs_fit C P X" and "\<forall>qs. P = Some qs \<longrightarrow> length qs = length (te_uids C)"
  shows "\<exists>Y inters spans w1 gin gps w2.
    sequential_forward (trainers C) P 0 (int (length (te_uids C))) X w = Some (Inr (Y, inters, spans), w1)
    \<and> sequential_backward (trainers C) P inters spans G w1 = Some (Inr (gin, gps), w2)"
proof -
  have n: "tn_uids (trainers C) = te_uids C" by (simp add: trainers_def)
  from trained_up.passes_return [where f = "\<lambda>w. w", of C, unfolded n, OF assms] show ?thesis by blast
qed

end
