(* ===== verification/PetalsTrainingExamples.thy ===== *)
theory PetalsTrainingExamples
  imports PetalsTrainingServing PetalsServingExamples
begin

text \<open>
  A forward and a backward pass over the concrete swarm of PetalsExamples, with calls that get lost on
  both, and the witnesses of the theorems on training.
\<close>

text \<open>Every block adds up the tokens of a row from the left; its gradient adds them up from the right.\<close>

definition tx_trainer :: "int trainer" where
  "tx_trainer = \<lparr>tr_forward = (\<lambda>u. map (running_sum 0)), tr_backward = (\<lambda>u x. map (\<lambda>g. rev (running_sum 0 (rev g)))),
     tr_plus = (+), tr_max_batch = 8\<rparr>"

definition tx_pick :: "int \<Rightarrow> (nat, rat) span_info list \<Rightarrow> rat list \<Rightarrow> (nat, rat) span_info" where
  "tx_pick i cands ws = last cands"

definition tx_env :: "(nat, rat, int) train_env" where
  "tx_env = \<lparr>te_trainer = tx_trainer,
     te_holds = se_holds px_env,
     te_pick = tx_pick, te_rtts = [(1, Finite (1 / 10)), (2, Infinite)], te_uids = px_uids, te_max_retries = None\<rparr>"

definition tx_world :: "fault list \<Rightarrow> (nat, rat) train_world" where
  "tx_world fs = \<lparr>tw_faults = fs, tw_seq = px_sq\<rparr>"

lemma tx_good: "trainers_good tx_env (tx_world fs)"
proof -
  have "sq_block_uids px_sq = px_uids" by code_simp
  then show ?thesis
    using px_sq_ok by (simp add: trainers_good_def tx_world_def tx_env_def picks_candidate_def tx_pick_def)
qed

definition tx_prompts :: "int list list list option" where
  "tx_prompts = Some [[[10]], [[20]], [[0], [1]], [[5]]]"

definition tx_inputs :: "int list list" where
  "tx_inputs = [[1, 2], [3, 4]]"

definition tx_forward :: "((int list list \<times> int list list list \<times> (nat, rat) span_info list) result \<times> (nat, rat) train_world) option" where
  "tx_forward = sequential_forward (trainers tx_env) tx_prompts 0 4 tx_inputs (tx_world [Fine, Reply_lost])"

lemma tx_forward_value [code]:
  "tx_forward = Some (Inr ([[36, 111], [39, 123]], [[[1, 2], [3, 4]], [[31, 75], [34, 84]]],
      [px_span 1 0 3 (Some (0, 3)), px_span 2 3 4 None]), \<lparr>tw_faults = [], tw_seq = fst (on_request_failure 2 px_sq)\<rparr>)"
  by code_simp

text \<open>The state after the forward pass, and the backward pass in which two calls get lost.\<close>

definition tx_kept :: "int list list \<times> int list list list \<times> (nat, rat) span_info list" where
  "tx_kept = (case tx_forward of Some (Inr r, _) \<Rightarrow> r | _ \<Rightarrow> ([], [], []))"

definition tx_after :: "(nat, rat) train_world" where
  "tx_after = (case tx_forward of Some (Inr _, w) \<Rightarrow> w | _ \<Rightarrow> tx_world [])"

definition tx_backward :: "((int list list \<times> int list list list) result \<times> (nat, rat) train_world) option" where
  "tx_backward = sequential_backward (trainers tx_env) tx_prompts (fst (snd tx_kept)) (snd (snd tx_kept)) [[1, 0], [2, 1]]
     (tx_after\<lparr>tw_faults := [Fine, Reply_lost]\<rparr>)"

lemma tx_results:
  "map_option fst tx_backward = Some (Inr ([[1, 0], [6, 1]], [[[1], [6]], [[1], [5]], [[1], [4]], [[1], [3]]]))"
  by code_simp

lemma training_computes_gradient_witness:
  "whole_forward tx_trainer (zip px_uids (prompt_list 4 tx_prompts)) tx_inputs = [[36, 111], [39, 123]]
   \<and> whole_backward tx_trainer (zip px_uids (prompt_list 4 tx_prompts)) tx_inputs [[1, 0], [2, 1]]
       = ([[1, 0], [6, 1]], [[[1], [6]], [[1], [5]], [[1], [4]], [[1], [3]]])"
proof -
  have e: "te_uids tx_env = px_uids" "length px_uids = 4" "te_trainer tx_env = tx_trainer" by (simp_all add: tx_env_def px_uids_def)
  obtain inters spans where k: "tx_kept = ([[36, 111], [39, 123]], inters, spans)" "tx_forward = Some (Inr tx_kept, tx_after)"
    by (simp add: tx_kept_def tx_after_def tx_forward_value)
  then have f: "sequential_forward (trainers tx_env) tx_prompts 0 (int (length (te_uids tx_env))) tx_inputs (tx_world [Fine, Reply_lost])
      = Some (Inr ([[36, 111], [39, 123]], inters, spans), tx_after)"
    by (simp add: tx_forward_def e)
  obtain w2 where b: "sequential_backward (trainers tx_env) tx_prompts inters spans [[1, 0], [2, 1]]
      (tx_after\<lparr>tw_faults := [Fine, Reply_lost]\<rparr>)
      = Some (Inr ([[1, 0], [6, 1]], [[[1], [6]], [[1], [5]], [[1], [4]], [[1], [3]]]), w2)"
    using tx_results by (auto simp: tx_backward_def k(1))
  from training_computes_gradient [OF tx_good f b] show ?thesis by (simp add: e)
qed

lemma training_returns_witness:
  "\<exists>Y inters spans w1 gin gps w2. sequential_forward (trainers tx_env) tx_prompts 0 4 tx_inputs (tx_world []) = Some (Inr (Y, inters, spans), w1)
    \<and> sequential_backward (trainers tx_env) tx_prompts inters spans [[1, 0], [2, 1]] w1 = Some (Inr (gin, gps), w2)"
proof -
  have e: "te_uids tx_env = px_uids" "length px_uids = 4" "te_holds tx_env = se_holds px_env" "se_uids px_env = px_uids"
    by (simp_all add: tx_env_def px_env_def px_uids_def)
  have "missing_blocks px_sq 0 4 = []" by code_simp
  moreover have "keeps_shape (te_trainer tx_env)" by (simp add: keeps_shape_def tx_env_def tx_trainer_def)
  ultimately have up: "trainers_up tx_env (tx_world [])"
    using tx_good [of "[]"] px_serves by (auto simp: trainers_up_def tx_world_def e)
  have "task_size tx_inputs = 4" by code_simp
  moreover have "list_all (prompt_fits tx_inputs) (prompt_list 4 tx_prompts)" by code_simp
  ultimately have fit: "inputs_fit tx_env tx_prompts tx_inputs"
    by (simp add: inputs_fit_def e list_all_iff) (simp add: tx_env_def tx_trainer_def)
  show ?thesis using training_returns [OF up fit] by (simp add: e tx_prompts_def)
qed

end
