(* ===== verification/PetalsAnnouncer.thy ===== *)
theory PetalsAnnouncer
  imports PetalsSpans
begin

text \<open>
  How a Petals server tells the swarm about itself: ModuleAnnouncerThread of petals/server/server.py and
  the announcements of ModuleContainer. The thread is a step relation over the places at which another
  thread can come between; the calls of \<open>announce\<close> come from one other thread. A store in the DHT
  keeps the state that was read when it began. The measured pings are values of a type \<open>'g\<close>.
\<close>

section \<open>The thread\<close>

datatype ann_pc = Refresh | Pinging | Declaring | Checking | Waiting | Clearing | Ended

record 'g announcer =
  an_uids :: "string list"
  an_bytes_per_token :: int
  an_dht_prefix :: string
  an_start_block :: int
  an_end_block :: int
  an_next_uids :: "string list"
  an_state :: server_state
  an_tokens_left :: "int option"
  an_next_pings :: "'g option"
  an_trigger :: bool
  an_setting :: bool
  an_pc :: ann_pc
  an_declared :: "(server_state \<times> int option \<times> 'g option) list"
  an_models :: nat

definition uid_of :: "string \<Rightarrow> int \<Rightarrow> string" where
  "uid_of dht_prefix i = dht_prefix @ ''.'' @ int_str i"

definition announcer_init :: "string list \<Rightarrow> server_state \<Rightarrow> int \<Rightarrow> int \<Rightarrow> int \<Rightarrow> 'g announcer result" where
  "announcer_init uids st hidden_size dtype_bytes kv_groups =
     (if kv_groups = 0 then Inl ZeroDivisionError
      else case uids of
        [] \<Rightarrow> Inl IndexError
      | u # _ \<Rightarrow>
          rbind (parse_uid u) (\<lambda>(dht_prefix, _).
          rbind (rmap (\<lambda>u. rbind (parse_uid u) (\<lambda>(_, i). Inr i)) uids) (\<lambda>indices.
            let a = fold min (tl indices) (hd indices); b = fold max (tl indices) (hd indices) + 1
            in Inr \<lparr>an_uids = uids, an_bytes_per_token = hidden_size * dtype_bytes div kv_groups, an_dht_prefix = dht_prefix,
                    an_start_block = a, an_end_block = b, an_next_uids = map (uid_of dht_prefix) [a + 1..b],
                    an_state = st, an_tokens_left = None, an_next_pings = None, an_trigger = False, an_setting = False,
                    an_pc = Refresh, an_declared = [], an_models = 0\<rparr>)))"

text \<open>
  \<open>bytes\<close> is what the memory cache has left, \<open>g\<close> what the pings gave. Nothing is announced after
  \<open>OFFLINE\<close>: the caller waits for the end of the thread. With \<open>early\<close> no announcement falls between a
  declaration and the test for \<open>OFFLINE\<close> after it.
\<close>

inductive ann_step :: "bool \<Rightarrow> 'g announcer \<Rightarrow> 'g announcer \<Rightarrow> bool" for early where
  refresh_online: "an_pc s = Refresh \<Longrightarrow> an_bytes_per_token s \<noteq> 0 \<Longrightarrow> an_state s \<noteq> S_OFFLINE \<Longrightarrow>
    ann_step early s (s\<lparr>an_tokens_left := Some (bytes div an_bytes_per_token s), an_pc := Pinging\<rparr>)"
| refresh_offline: "an_pc s = Refresh \<Longrightarrow> an_bytes_per_token s \<noteq> 0 \<Longrightarrow> an_state s = S_OFFLINE \<Longrightarrow>
    ann_step early s (s\<lparr>an_tokens_left := Some (bytes div an_bytes_per_token s), an_next_pings := None, an_pc := Declaring\<rparr>)"
| pinged: "an_pc s = Pinging \<Longrightarrow> ann_step early s (s\<lparr>an_next_pings := Some g, an_pc := Declaring\<rparr>)"
| declare_modules: "an_pc s = Declaring \<Longrightarrow>
    ann_step early s (s\<lparr>an_declared := an_declared s @ [(an_state s, an_tokens_left s, an_next_pings s)], an_pc := Checking\<rparr>)"
| check_offline: "an_pc s = Checking \<Longrightarrow> an_state s = S_OFFLINE \<Longrightarrow> ann_step early s (s\<lparr>an_pc := Ended\<rparr>)"
| check_online: "an_pc s = Checking \<Longrightarrow> an_state s \<noteq> S_OFFLINE \<Longrightarrow>
    ann_step early s (s\<lparr>an_models := an_models s + (if startswith (an_dht_prefix s) ''_'' then 0 else 1), an_pc := Waiting\<rparr>)"
| triggered: "an_pc s = Waiting \<Longrightarrow> an_trigger s \<Longrightarrow> ann_step early s (s\<lparr>an_pc := Clearing\<rparr>)"
| period_over: "an_pc s = Waiting \<Longrightarrow> ann_step early s (s\<lparr>an_pc := Clearing\<rparr>)"
| clear: "an_pc s = Clearing \<Longrightarrow> ann_step early s (s\<lparr>an_trigger := False, an_pc := Refresh\<rparr>)"
| announce_state: "\<not> an_setting s \<Longrightarrow> an_state s \<noteq> S_OFFLINE \<Longrightarrow> (early \<longrightarrow> an_pc s \<noteq> Checking) \<Longrightarrow>
    ann_step early s (s\<lparr>an_state := st, an_setting := True\<rparr>)"
| announce_trigger: "an_setting s \<Longrightarrow> ann_step early s (s\<lparr>an_trigger := True, an_setting := False\<rparr>)"

inductive ann_run :: "bool \<Rightarrow> 'g announcer \<Rightarrow> 'g announcer \<Rightarrow> bool" for early where
  ann_refl: "ann_run early s s"
| ann_more: "ann_run early s t \<Longrightarrow> ann_step early t u \<Longrightarrow> ann_run early s u"

section \<open>The container\<close>

text \<open>
  \<open>ModuleContainer.create\<close>. What is the same in all rounds of a server is the \<open>container_setup\<close>: the prefix, what the
  announcer needs to know of the model, and whether the list of devices passes the assertion. What the
  outside answers in one round is the \<open>container_start\<close>: the loading of a block, the merging of the
  pools and the test of reachability (all three inside the \<open>try\<close>), the making of the queues, handlers and runtime (after
  it), and the wait for the runtime: \<open>None\<close> when it is never ready. An interruption is an answer
  \<open>Inl e\<close> at the place where it arrives.
\<close>

datatype container_event = Announced server_state | Backend_closed string

record container_setup =
  cs_dht_prefix :: string
  cs_hidden_size :: int
  cs_dtype_bytes :: int
  cs_kv_groups :: int
  cs_devices_ok :: bool

record 'b container_start =
  st_load :: "string \<Rightarrow> 'b result"
  st_merge :: "unit result"
  st_reachability :: "unit result option"
  st_parts :: "unit result"
  st_ready :: "unit result option"

fun load_blocks :: "(string \<Rightarrow> 'b result) \<Rightarrow> string list \<Rightarrow> (string, 'b) pydict \<Rightarrow> unit result \<times> (string, 'b) pydict" where
  "load_blocks load [] blocks = (Inr (), blocks)"
| "load_blocks load (u # us) blocks =
     (case load u of Inl e \<Rightarrow> (Inl e, blocks) | Inr b \<Rightarrow> load_blocks load us (dset u b blocks))"

text \<open>The body of the \<open>try\<close>, with the blocks loaded when it ends.\<close>

definition load_all :: "'b container_start \<Rightarrow> string list \<Rightarrow> unit result \<times> (string, 'b) pydict" where
  "load_all st uids =
     (case load_blocks (st_load st) uids [] of
        (Inl e, blocks) \<Rightarrow> (Inl e, blocks)
      | (Inr _, blocks) \<Rightarrow>
          (rbind (if blocks = [] then Inl AssertionError else st_merge st)
             (\<lambda>_. case st_reachability st of None \<Rightarrow> Inr () | Some answer \<Rightarrow> answer), blocks))"

text \<open>
  The announcer is made first, and announces \<open>JOINING\<close> from its start on. A failure in the \<open>try\<close> closes the blocks and
  announces \<open>OFFLINE\<close>; the assertion before it and what comes after it have no such handler. The
  result is \<open>None\<close> when the call does not return.
\<close>

definition container_create ::
  "container_setup \<Rightarrow> 'b container_start \<Rightarrow> int list \<Rightarrow> (string, 'b) pydict result option \<times> container_event list" where
  "container_create cs st indices =
     (let uids = map (uid_of (cs_dht_prefix cs)) indices
      in case (announcer_init uids S_JOINING (cs_hidden_size cs) (cs_dtype_bytes cs) (cs_kv_groups cs) :: unit announcer result) of
           Inl e \<Rightarrow> (Some (Inl e), [])
         | Inr _ \<Rightarrow>
             if \<not> cs_devices_ok cs then (Some (Inl AssertionError), [Announced S_JOINING])
             else case load_all st uids of
               (Inl e, blocks) \<Rightarrow>
                 (Some (Inl e), Announced S_JOINING # map (\<lambda>u. Backend_closed u) (map fst blocks) @ [Announced S_OFFLINE])
             | (Inr _, blocks) \<Rightarrow>
                 (case st_parts st of
                    Inl e \<Rightarrow> (Some (Inl e), [Announced S_JOINING])
                  | Inr _ \<Rightarrow>
                      (case st_ready st of None \<Rightarrow> None | Some (Inl e) \<Rightarrow> Some (Inl e) | Some (Inr _) \<Rightarrow> Some (Inr blocks),
                       [Announced S_JOINING, Announced S_ONLINE])))"

text \<open>\<open>ModuleContainer.shutdown\<close>: \<open>parts\<close> is how the end of the handlers, pools and runtime went.\<close>

definition container_shutdown :: "unit result \<Rightarrow> (string, 'b) pydict \<Rightarrow> unit result \<times> container_event list" where
  "container_shutdown parts blocks =
     (parts, Announced S_OFFLINE # (case parts of Inl e \<Rightarrow> [] | Inr _ \<Rightarrow> map (\<lambda>u. Backend_closed u) (map fst blocks)))"

section \<open>The server\<close>

text \<open>
  \<open>Server.run\<close>: one round per container. A tick of the inner loop is the stop of the server, a crashed
  subprocess, or the answer of \<open>_should_choose_other_blocks\<close>, which may raise (as an interruption of the loop does);
  a round whose ticks are used up still serves. The \<open>finally\<close> shuts the container down however the loop
  ended, and an error there takes the place of the end.
\<close>

datatype tick = Stop_set | Unhealthy | Rebalance "bool result"

datatype round_end = Starting | Serving | Stopped | Next_round | Raised py_error

fun serve_ticks :: "tick list \<Rightarrow> round_end" where
  "serve_ticks [] = Serving"
| "serve_ticks (Stop_set # ts) = Stopped"
| "serve_ticks (Unhealthy # ts) = Next_round"
| "serve_ticks (Rebalance (Inl e) # ts) = Raised e"
| "serve_ticks (Rebalance (Inr move) # ts) = (if move then Next_round else serve_ticks ts)"

record 'b server_round =
  rd_choice :: "int list result"
  rd_start :: "'b container_start"
  rd_ticks :: "tick list"
  rd_shutdown :: "unit result"
  rd_clean :: "unit result"

text \<open>The loop around one container, after its creation.\<close>

definition serve_round :: "'b server_round \<Rightarrow> (string, 'b) pydict \<Rightarrow> round_end \<times> container_event list" where
  "serve_round r blocks =
     (case serve_ticks (rd_ticks r) of
        Serving \<Rightarrow> (Serving, [])
      | ended \<Rightarrow>
          (case container_shutdown (rd_shutdown r) blocks of
             (Inl e, events) \<Rightarrow> (Raised e, events)
           | (Inr _, events) \<Rightarrow>
               (if ended = Next_round then case rd_clean r of Inl e \<Rightarrow> Raised e | Inr _ \<Rightarrow> Next_round else ended, events)))"

fun server_run :: "container_setup \<Rightarrow> 'b server_round list \<Rightarrow> round_end \<times> container_event list" where
  "server_run cs [] = (Next_round, [])"
| "server_run cs (r # rs) =
     (case rd_choice r of Inl e \<Rightarrow> (Raised e, []) | Inr indices \<Rightarrow>
      case container_create cs (rd_start r) indices of
        (None, events) \<Rightarrow> (Starting, events)
      | (Some (Inl e), events) \<Rightarrow> (Raised e, events)
      | (Some (Inr blocks), events) \<Rightarrow>
          (case serve_round r blocks of
             (Next_round, closing) \<Rightarrow>
               (case server_run cs rs of (ended, later) \<Rightarrow> (ended, events @ closing @ later))
           | (ended, closing) \<Rightarrow> (ended, events @ closing)))"

section \<open>What is declared\<close>

definition declared_now :: "'g announcer \<Rightarrow> bool" where
  "declared_now s \<longleftrightarrow> an_declared s \<noteq> [] \<and> fst (last (an_declared s)) = an_state s"

text \<open>A state that is not declared yet is on its way.\<close>

definition ann_ok :: "bool \<Rightarrow> 'g announcer \<Rightarrow> bool" where
  "ann_ok early s \<longleftrightarrow>
     (an_pc s \<in> {Checking, Waiting} \<longrightarrow> declared_now s \<or> an_trigger s \<or> an_setting s)
     \<and> (an_pc s \<in> {Checking, Ended} \<longrightarrow> an_declared s \<noteq> [])
     \<and> (early \<and> an_pc s = Checking \<longrightarrow> declared_now s)
     \<and> (an_pc s = Ended \<longrightarrow> an_state s = S_OFFLINE \<and> (early \<longrightarrow> declared_now s))"

lemma ann_ok_step: "ann_step early s t \<Longrightarrow> ann_ok early s \<Longrightarrow> ann_ok early t"
  by (induction rule: ann_step.induct) (auto simp: ann_ok_def declared_now_def)

lemma ann_ok_run: "ann_run early s t \<Longrightarrow> ann_ok early s \<Longrightarrow> ann_ok early t"
  by (induction rule: ann_run.induct) (auto intro: ann_ok_step)

lemma ann_ok_init: "announcer_init uids st h d k = Inr s \<Longrightarrow> ann_ok early s"
  by (auto simp: announcer_init_def ann_ok_def Let_def rbind_Inr_iff split: if_splits list.splits)

lemma init_fields:
  assumes "announcer_init uids st h d k = Inr s"
  shows "an_bytes_per_token s = h * d div k" "an_state s = st" "an_pc s = Refresh" "an_declared s = []"
    "\<not> an_trigger s" "\<not> an_setting s"
  using assms by (auto simp: announcer_init_def Let_def rbind_Inr_iff split: if_splits list.splits)

text \<open>C32. In every interleaving of the announcer with the calls that announce states: when the thread sleeps and
  nobody is about to wake it, the last declaration in the DHT carries the present state; and when the
  thread has ended, the last declaration is OFFLINE, provided that the announcement did not fall
  between a declaration and the test after it.\<close>

theorem announced_state_declared:
  assumes "announcer_init uids st h d k = Inr s0" and "ann_run early s0 s"
  shows "(an_pc s = Waiting \<and> \<not> an_trigger s \<and> \<not> an_setting s \<longrightarrow> declared_now s)
    \<and> (early \<and> an_pc s = Ended \<longrightarrow> an_declared s \<noteq> [] \<and> fst (last (an_declared s)) = S_OFFLINE)"
  using ann_ok_run [OF assms(2) ann_ok_init [OF assms(1)]] by (auto simp: ann_ok_def declared_now_def)

text \<open>Without that proviso the last declaration can be ONLINE: the thread sees OFFLINE in the test and ends.\<close>

definition ax_uids :: "string list" where
  "ax_uids = [''m.3'', ''m.4'']"

definition ax_start :: "nat announcer" where
  "ax_start = \<lparr>an_uids = ax_uids, an_bytes_per_token = 4, an_dht_prefix = ''m'', an_start_block = 3, an_end_block = 5,
     an_next_uids = [''m.4'', ''m.5''], an_state = S_ONLINE, an_tokens_left = None, an_next_pings = None, an_trigger = False,
     an_setting = False, an_pc = Refresh, an_declared = [], an_models = 0\<rparr>"

lemma ax_start_init: "announcer_init ax_uids S_ONLINE 8 2 4 = Inr ax_start"
  by code_simp

lemma ann_run_step: "ann_step early s t \<Longrightarrow> ann_run early t u \<Longrightarrow> ann_run early s u"
  by (rotate_tac, induction rule: ann_run.induct) (auto intro: ann_run.intros)

definition ax_declared :: "nat announcer" where
  "ax_declared = ax_start\<lparr>an_tokens_left := Some 25, an_next_pings := Some 7, an_declared := [(S_ONLINE, Some 25, Some 7)], an_pc := Checking\<rparr>"

lemma ax_run: "ann_run early ax_start ax_declared"
proof -
  let ?a = "ax_start\<lparr>an_tokens_left := Some 25, an_pc := Pinging\<rparr>"
  let ?b = "?a\<lparr>an_next_pings := Some 7, an_pc := Declaring\<rparr>"
  have "ann_step early ax_start ?a" using ann_step.refresh_online [of ax_start early 100] by (simp add: ax_start_def)
  moreover have "ann_step early ?a ?b" by (rule ann_step.pinged) simp
  moreover have "ann_step early ?b ax_declared"
    using ann_step.declare_modules [of ?b early] by (simp add: ax_declared_def ax_start_def)
  ultimately show ?thesis by (meson ann_run.intros ann_run_step)
qed

lemma offline_lost:
  "\<exists>s. ann_run False ax_start s \<and> an_pc s = Ended \<and> an_declared s = [(S_ONLINE, Some 25, Some 7)]"
proof -
  let ?a = "ax_declared\<lparr>an_state := S_OFFLINE, an_setting := True\<rparr>"
  have "ann_step False ax_declared ?a" by (rule ann_step.announce_state) (simp_all add: ax_declared_def ax_start_def)
  moreover have "ann_step False ?a (?a\<lparr>an_pc := Ended\<rparr>)" by (rule ann_step.check_offline) (simp_all add: ax_declared_def)
  ultimately have "ann_run False ax_start (?a\<lparr>an_pc := Ended\<rparr>)" using ax_run by (blast intro: ann_run.intros)
  then show ?thesis by (intro exI [of _ "?a\<lparr>an_pc := Ended\<rparr>"]) (simp add: ax_declared_def)
qed

lemma announced_state_declared_witness:
  "\<exists>s. ann_run True ax_start s \<and> an_pc s = Waiting \<and> declared_now s"
proof -
  let ?s = "ax_declared\<lparr>an_models := 1, an_pc := Waiting\<rparr>"
  have "ann_step True ax_declared ?s"
    using ann_step.check_online [of ax_declared True] by (simp add: ax_declared_def ax_start_def startswith_def)
  with ax_run have run: "ann_run True ax_start ?s" by (rule ann_run.ann_more)
  have "\<not> an_trigger ?s" "\<not> an_setting ?s" "an_pc ?s = Waiting" by (simp_all add: ax_declared_def ax_start_def)
  with announced_state_declared [OF ax_start_init run] run show ?thesis by blast
qed

section \<open>The end of the thread\<close>

text \<open>Steps that are left after \<open>OFFLINE\<close>.\<close>

fun ann_rank :: "ann_pc \<Rightarrow> nat" where
  "ann_rank Waiting = 5"
| "ann_rank Clearing = 4"
| "ann_rank Refresh = 3"
| "ann_rank Pinging = 3"
| "ann_rank Declaring = 2"
| "ann_rank Checking = 1"
| "ann_rank Ended = 0"

definition ann_measure :: "'g announcer \<Rightarrow> nat" where
  "ann_measure s = 2 * ann_rank (an_pc s) + (if an_setting s then 1 else 0)"

lemma offline_step:
  "ann_step early s t \<Longrightarrow> an_state s = S_OFFLINE \<Longrightarrow>
     ann_measure t < ann_measure s \<and> an_state t = S_OFFLINE \<and> an_bytes_per_token t = an_bytes_per_token s"
  by (induction rule: ann_step.induct) (auto simp: ann_measure_def)

lemma ann_goes_on:
  assumes "an_pc s \<noteq> Ended" and "an_bytes_per_token s \<noteq> 0"
  shows "\<exists>t. ann_step early s t"
  using assms by (cases "an_pc s") (blast intro: ann_step.intros)+

lemma offline_steps:
  "(ann_step early ^^ n) s t \<Longrightarrow> an_state s = S_OFFLINE \<Longrightarrow>
     ann_measure t + n \<le> ann_measure s \<and> an_bytes_per_token t = an_bytes_per_token s"
proof (induction n arbitrary: t)
  case (Suc n)
  then obtain u where u: "(ann_step early ^^ n) s u" "ann_step early u t" by auto
  have "an_state u = S_OFFLINE" using u(1) Suc.prems(2)
    by (induction n arbitrary: u) (auto dest: offline_step)
  with Suc.IH [OF u(1) Suc.prems(2)] offline_step [OF u(2)] show ?case by simp
qed simp

text \<open>After OFFLINE was announced the announcer ends: at most eleven steps are left, its own and the pending
  wake-up, and as long as it has not ended a step is possible. So the caller, which waits for it,
  goes on.\<close>

lemma offline_ends_announcer:
  assumes "an_state s = S_OFFLINE" and "an_bytes_per_token s \<noteq> 0" and "(ann_step early ^^ n) s t"
  shows "n \<le> 11 \<and> (an_pc t = Ended \<or> (\<exists>u. ann_step early t u))"
proof -
  have "ann_measure s \<le> 11" by (cases "an_pc s") (simp_all add: ann_measure_def)
  with offline_steps [OF assms(3,1)] ann_goes_on [of t] assms(2) show ?thesis by auto
qed

lemma offline_ends_announcer_witness:
  "\<exists>t. ann_step early (ax_declared\<lparr>an_state := S_OFFLINE\<rparr>) t"
proof -
  let ?s = "ax_declared\<lparr>an_state := S_OFFLINE\<rparr>"
  have "an_state ?s = S_OFFLINE" "an_bytes_per_token ?s \<noteq> 0" "(ann_step early ^^ 0) ?s ?s"
    by (simp_all add: ax_declared_def ax_start_def)
  from offline_ends_announcer [OF this] show ?thesis by (auto simp: ax_declared_def)
qed

section \<open>Failed starts\<close>

lemma load_blocks_fails:
  "load_blocks load us blocks = (Inl e, blocks') \<Longrightarrow> \<exists>taken u rest. us = taken @ u # rest \<and> load u = Inl e
     \<and> (\<forall>x \<in> set taken. \<exists>b. load x = Inr b) \<and> set (map fst blocks') = set (map fst blocks) \<union> set taken"
proof (induction us arbitrary: blocks)
  case (Cons u us)
  show ?case
  proof (cases "load u")
    case (Inl e')
    then show ?thesis using Cons.prems by (intro exI [of _ "[]"] exI [of _ u] exI [of _ us]) auto
  next
    case (Inr b)
    with Cons.IH [of "dset u b blocks"] Cons.prems obtain taken v rest where
      d: "us = taken @ v # rest" "load v = Inl e" "\<forall>x \<in> set taken. \<exists>b. load x = Inr b"
      "set (map fst blocks') = set (map fst (dset u b blocks)) \<union> set taken" by auto
    have "set (map fst (dset u b blocks)) = insert u (set (map fst blocks))" by (induction blocks) auto
    with d Inr show ?thesis by (intro exI [of _ "u # taken"] exI [of _ v] exI [of _ rest]) auto
  qed
qed simp

lemma load_blocks_all:
  "load_blocks load us blocks = (Inr x, blocks') \<Longrightarrow> set (map fst blocks') = set (map fst blocks) \<union> set us"
proof (induction us arbitrary: blocks)
  case (Cons u us)
  have "set (map fst (dset u b blocks)) = insert u (set (map fst blocks))" for b by (induction blocks) auto
  with Cons show ?case by (auto split: sum.splits)
qed simp

lemma serve_not_starting: "serve_ticks ts \<noteq> Starting"
  by (induction ts rule: serve_ticks.induct) auto

lemma load_all_fails:
  "load_all st uids = (Inl e, blocks) \<Longrightarrow> \<exists>taken rest. uids = taken @ rest \<and> set (map fst blocks) = set taken"
  by (auto simp: load_all_def split: prod.splits sum.splits dest!: load_blocks_fails load_blocks_all) blast+

text \<open>A start that fails inside the \<open>try\<close> closes exactly the blocks loaded before, and then announces \<open>OFFLINE\<close>.\<close>

lemma failed_create_closes:
  assumes "container_create cs st indices = (Some (Inl e), events)"
    and "fst (load_all st (map (uid_of (cs_dht_prefix cs)) indices)) = Inl e" and "cs_devices_ok cs" and "events \<noteq> []"
  shows "\<exists>taken rest. map (uid_of (cs_dht_prefix cs)) indices = taken @ rest
    \<and> {v. Backend_closed v \<in> set events} = set taken \<and> last events = Announced S_OFFLINE"
proof -
  obtain blocks where l: "load_all st (map (uid_of (cs_dht_prefix cs)) indices) = (Inl e, blocks)"
    using assms(2) by (metis prod.collapse)
  from load_all_fails [OF l] obtain taken rest where d: "map (uid_of (cs_dht_prefix cs)) indices = taken @ rest"
    "set (map fst blocks) = set taken" by auto
  have "events = Announced S_JOINING # map (\<lambda>u. Backend_closed u) (map fst blocks) @ [Announced S_OFFLINE]"
    using assms(1,3,4) l by (auto simp: container_create_def Let_def split: sum.splits)
  with d show ?thesis by (intro exI [of _ taken] exI [of _ rest]) auto
qed

section \<open>The announcements of a server\<close>

fun announcements :: "container_event list \<Rightarrow> server_state list" where
  "announcements [] = []"
| "announcements (Announced st # es) = st # announcements es"
| "announcements (Backend_closed u # es) = announcements es"

lemma announcements_append [simp]: "announcements (xs @ ys) = announcements xs @ announcements ys"
  by (induction xs rule: announcements.induct) simp_all

lemma announcements_closed [simp]: "announcements (map (Backend_closed \<circ> f) us) = []"
  by (induction us) simp_all

text \<open>
  The failures of a start that come after the announcer has begun and outside the \<open>try\<close>: the devices, the
  making of the container, and the wait for its runtime.
\<close>

definition fails_outside_try :: "container_setup \<Rightarrow> 'b container_start \<Rightarrow> bool" where
  "fails_outside_try cs st \<longleftrightarrow>
     \<not> cs_devices_ok cs
     \<or> (case st_parts st of Inl e \<Rightarrow> True | Inr _ \<Rightarrow> False)
     \<or> (case st_ready st of Some (Inl e) \<Rightarrow> True | _ \<Rightarrow> False)"

lemma create_announces:
  assumes "container_create cs st indices = (res, events)"
  shows "case res of
      None \<Rightarrow> announcements events = [S_JOINING, S_ONLINE]
    | Some (Inr blocks) \<Rightarrow> announcements events = [S_JOINING, S_ONLINE]
    | Some (Inl e) \<Rightarrow> announcements events \<in> {[], [S_JOINING, S_OFFLINE]}
        \<or> announcements events \<in> {[S_JOINING], [S_JOINING, S_ONLINE]} \<and> fails_outside_try cs st"
  using assms
  by (auto simp: container_create_def fails_outside_try_def Let_def split: prod.splits sum.splits option.splits if_splits)

lemma serve_announces:
  assumes "serve_round r blocks = (ended, events)"
  shows "ended \<noteq> Starting \<and> announcements events = (if ended = Serving then [] else [S_OFFLINE])"
  using assms serve_not_starting [of "rd_ticks r"]
  by (auto simp: serve_round_def container_shutdown_def split: round_end.splits sum.splits if_splits)

text \<open>C33. The announcements of a server are any number of full turns JOINING, ONLINE, OFFLINE, and then those of a
  last container that does not complete its turn: JOINING and ONLINE while it starts up or serves;
  nothing when the server was stopped, or every round given ended with a move or a crash; and, when an error
  ended it, nothing, or JOINING and OFFLINE. So a server that has ended has announced OFFLINE last if
  it announced anything, with one exception, which is the behaviour of the code: a start whose error comes outside the
  \<open>try\<close> of \<open>create\<close> (\<open>fails_outside_try\<close>) leaves JOINING, or JOINING and ONLINE, standing.\<close>

theorem server_announces_in_turn:
  assumes "server_run cs rounds = (ended, events)"
  shows "\<exists>n last_one. announcements events = concat (replicate n [S_JOINING, S_ONLINE, S_OFFLINE]) @ last_one
    \<and> (case ended of
         Starting \<Rightarrow> last_one = [S_JOINING, S_ONLINE]
       | Serving \<Rightarrow> last_one = [S_JOINING, S_ONLINE]
       | Stopped \<Rightarrow> last_one = []
       | Next_round \<Rightarrow> last_one = [] \<and> n = length rounds
       | Raised e \<Rightarrow> last_one \<in> {[], [S_JOINING, S_OFFLINE]}
           \<or> last_one \<in> {[S_JOINING], [S_JOINING, S_ONLINE]} \<and> n < length rounds \<and> fails_outside_try cs (rd_start (rounds ! n)))"
  using assms
proof (induction rounds arbitrary: events)
  case Nil
  then show ?case by (intro exI [of _ 0]) auto
next
  case (Cons r rs)
  show ?case
  proof (cases "rd_choice r")
    case (Inl e)
    then show ?thesis using Cons.prems by (intro exI [of _ 0]) auto
  next
    case ch: (Inr indices)
    obtain res ev where c: "container_create cs (rd_start r) indices = (res, ev)" by (metis surj_pair)
    note ca = create_announces [OF c]
    show ?thesis
    proof (cases "\<exists>blocks. res = Some (Inr blocks)")
      case False
      then show ?thesis using Cons.prems ch c ca
        by (intro exI [of _ 0] exI [of _ "announcements events"]) (auto split: option.splits sum.splits)
    next
      case True
      then obtain blocks where b: "res = Some (Inr blocks)" by blast
      obtain e1 closing where sr: "serve_round r blocks = (e1, closing)" by (metis surj_pair)
      note sa = serve_announces [OF sr]
      show ?thesis
      proof (cases "e1 = Next_round")
        case False
        then have e: "ended = e1" "events = ev @ closing" using Cons.prems ch c b sr by (auto split: round_end.splits)
        show ?thesis
          by (rule exI [of _ "if e1 = Serving then 0 else 1"], rule exI [of _ "if e1 = Serving then [S_JOINING, S_ONLINE] else []"])
             (use e sa ca b False in \<open>auto split: round_end.splits\<close>)
      next
        case True
        obtain ended' later where m: "server_run cs rs = (ended', later)" by (metis surj_pair)
        then have e: "ended' = ended" "events = ev @ closing @ later"
          using Cons.prems ch c b sr True by auto
        from Cons.IH m e obtain n l where l: "announcements later = concat (replicate n [S_JOINING, S_ONLINE, S_OFFLINE]) @ l"
          "case ended of Starting \<Rightarrow> l = [S_JOINING, S_ONLINE] | Serving \<Rightarrow> l = [S_JOINING, S_ONLINE] | Stopped \<Rightarrow> l = []
             | Next_round \<Rightarrow> l = [] \<and> n = length rs
             | Raised e \<Rightarrow> l \<in> {[], [S_JOINING, S_OFFLINE]}
                 \<or> l \<in> {[S_JOINING], [S_JOINING, S_ONLINE]} \<and> n < length rs \<and> fails_outside_try cs (rd_start (rs ! n))" by metis
        show ?thesis
          by (rule exI [of _ "Suc n"], rule exI [of _ l]) (use l e ca b sa True in \<open>auto split: round_end.splits\<close>)
      qed
    qed
  qed
qed

definition ax_setup :: container_setup where
  "ax_setup = \<lparr>cs_dht_prefix = ''m'', cs_hidden_size = 8, cs_dtype_bytes = 2, cs_kv_groups = 4, cs_devices_ok = True\<rparr>"

definition ax_round :: "bool \<Rightarrow> unit result \<Rightarrow> nat server_round" where
  "ax_round loads parts = \<lparr>rd_choice = Inr [3, 4],
     rd_start = \<lparr>st_load = (\<lambda>u. if loads \<or> u = ''m.3'' then Inr 1 else Inl RuntimeError), st_merge = Inr (),
       st_reachability = None, st_parts = parts, st_ready = Some (Inr ())\<rparr>,
     rd_ticks = [Rebalance (Inr False), Rebalance (Inr True)], rd_shutdown = Inr (), rd_clean = Inr ()\<rparr>"

lemma server_announces_in_turn_witness:
  "server_run ax_setup [ax_round True (Inr ()), ax_round False (Inr ())]
     = (Raised RuntimeError, [Announced S_JOINING, Announced S_ONLINE, Announced S_OFFLINE, Backend_closed ''m.3'', Backend_closed ''m.4'',
         Announced S_JOINING, Backend_closed ''m.3'', Announced S_OFFLINE])
   \<and> (\<exists>n last_one. [S_JOINING, S_ONLINE, S_OFFLINE, S_JOINING, S_OFFLINE] = concat (replicate n [S_JOINING, S_ONLINE, S_OFFLINE]) @ last_one)"
proof -
  have r: "server_run ax_setup [ax_round True (Inr ()), ax_round False (Inr ())]
     = (Raised RuntimeError, [Announced S_JOINING, Announced S_ONLINE, Announced S_OFFLINE, Backend_closed ''m.3'', Backend_closed ''m.4'',
         Announced S_JOINING, Backend_closed ''m.3'', Announced S_OFFLINE])" by code_simp
  from server_announces_in_turn [OF r] r show ?thesis by auto
qed

text \<open>The exceptions happen: the handlers cannot be made, or the wait for the runtime is interrupted.\<close>

lemma offline_not_announced:
  "server_run ax_setup [ax_round True (Inl RuntimeError)] = (Raised RuntimeError, [Announced S_JOINING])"
  "server_run ax_setup [ax_round True (Inr ())\<lparr>rd_start := (rd_start (ax_round True (Inr ())))\<lparr>st_ready := Some (Inl RuntimeError)\<rparr>\<rparr>]
     = (Raised RuntimeError, [Announced S_JOINING, Announced S_ONLINE])"
  by code_simp+

text \<open>Without blocks nothing is announced: the announcer takes its prefix from the first block.\<close>

lemma no_blocks_no_announcement:
  "cs_kv_groups cs \<noteq> 0 \<Longrightarrow> container_create cs st [] = (Some (Inl IndexError), [])"
  by (simp add: container_create_def announcer_init_def)

end
