(* ===== verification/PetalsTaskPool.thy ===== *)
theory PetalsTaskPool
  imports Prelude Complex_Main "HOL-Library.Product_Lexorder" "HOL-Library.Multiset"
begin

text \<open>
  The queue between the handlers and the runtime of a Petals server: PrioritizedTaskPool of
  petals/server/task\_pool.py with the priorities of petals/server/task\_prioritizer.py. Handlers in several
  processes submit, the pool's thread moves tasks to the priority queue, the runtime loads them and answers.
  A run is any sequence of the pieces below; the comparison and change of the pool's priority, two
  numbers without a lock, is one piece. The identifier of a future stands for the future.
\<close>

section \<open>State\<close>

record task =
  tk_uid :: nat
  tk_priority :: rat
  tk_time :: rat
  tk_size :: nat

definition task_key :: "task \<Rightarrow> rat \<times> rat" where
  "task_key t = (tk_priority t, tk_time t)"

text \<open>\<open>None\<close> is the priority \<open>(inf, inf)\<close> of a pool that never had a task.\<close>

record 'r task_pool =
  tp_max_batch :: nat
  tp_submitted :: "task list"
  tp_to_send :: "task list"
  tp_to_rank :: "task list"
  tp_ordered :: "task list"
  tp_counter :: nat
  tp_loading :: "task option"
  tp_dispatched :: "(nat, task) pydict"
  tp_priority :: "(rat \<times> rat) option"
  tp_answers :: "(nat, 'r result) pydict"

definition pool_init :: "nat \<Rightarrow> 'r task_pool" where
  "pool_init max_batch =
     \<lparr>tp_max_batch = max_batch, tp_submitted = [], tp_to_send = [], tp_to_rank = [], tp_ordered = [], tp_counter = 0,
      tp_loading = None, tp_dispatched = [], tp_priority = None, tp_answers = []\<rparr>"

text \<open>Inference goes first.\<close>

datatype request_type = Inference | Forward | Backward | Forward_in_backward

fun prioritize :: "request_type \<Rightarrow> rat" where
  "prioritize Inference = 1"
| "prioritize _ = 2"

section \<open>Operations\<close>

text \<open>\<open>submit_task\<close> up to the queue, up to the pipe that counts tasks, and the change of the priority.\<close>

definition pool_submit :: "task \<Rightarrow> 'r task_pool \<Rightarrow> 'r task_pool option" where
  "pool_submit t s =
     (if tp_max_batch s < tk_size t then Some (s\<lparr>tp_answers := dset (tk_uid t) (Inl ValueError) (tp_answers s)\<rparr>)
      else Some (s\<lparr>tp_submitted := tp_submitted s @ [t], tp_to_send := tp_to_send s @ [t]\<rparr>))"

definition pool_send :: "task \<Rightarrow> 'r task_pool \<Rightarrow> 'r task_pool option" where
  "pool_send t s =
     (if t \<notin> set (tp_to_send s) then None
      else Some (s\<lparr>tp_to_send := remove1 t (tp_to_send s), tp_counter := tp_counter s + 1, tp_to_rank := tp_to_rank s @ [t]\<rparr>))"

definition more_urgent :: "rat \<times> rat \<Rightarrow> (rat \<times> rat) option \<Rightarrow> bool" where
  "more_urgent k p = (case p of None \<Rightarrow> True | Some q \<Rightarrow> k < q)"

definition pool_rank :: "task \<Rightarrow> 'r task_pool \<Rightarrow> 'r task_pool option" where
  "pool_rank t s =
     (if t \<notin> set (tp_to_rank s) then None
      else Some (s\<lparr>tp_to_rank := remove1 t (tp_to_rank s),
                   tp_priority := (if more_urgent (task_key t) (tp_priority s) then Some (task_key t) else tp_priority s)\<rparr>))"

text \<open>The pool's own thread.\<close>

definition pool_transfer :: "'r task_pool \<Rightarrow> 'r task_pool option" where
  "pool_transfer s =
     (case tp_submitted s of [] \<Rightarrow> None | t # ts \<Rightarrow> Some (s\<lparr>tp_submitted := ts, tp_ordered := tp_ordered s @ [t]\<rparr>))"

text \<open>
  \<open>load_batch_to_runtime\<close>: one of the most urgent tasks is taken, the count goes down, and the priority
  becomes that of the first remaining task of the priority queue, if there is one.
\<close>

definition most_urgent :: "task \<Rightarrow> task list \<Rightarrow> bool" where
  "most_urgent t ts \<longleftrightarrow> t \<in> set ts \<and> list_all (\<lambda>u. task_key t \<le> task_key u) ts"

definition pool_get :: "task \<Rightarrow> 'r task_pool \<Rightarrow> 'r task_pool option" where
  "pool_get t s =
     (if tp_loading s \<noteq> None \<or> \<not> most_urgent t (tp_ordered s) then None
      else Some (s\<lparr>tp_ordered := remove1 t (tp_ordered s), tp_dispatched := dset (tk_uid t) t (tp_dispatched s),
                   tp_loading := Some t\<rparr>))"

definition least_key :: "task list \<Rightarrow> (rat \<times> rat) option" where
  "least_key ts = (case map task_key ts of [] \<Rightarrow> None | k # ks \<Rightarrow> Some (fold min ks k))"

definition pool_recv :: "'r task_pool \<Rightarrow> 'r task_pool option" where
  "pool_recv s =
     (if tp_loading s = None \<or> tp_counter s = 0 then None
      else Some (s\<lparr>tp_loading := None, tp_counter := tp_counter s - 1,
                   tp_priority := (case least_key (tp_ordered s) of None \<Rightarrow> tp_priority s | Some k \<Rightarrow> Some k)\<rparr>))"

text \<open>\<open>send_outputs_from_runtime\<close> and \<open>send_exception_from_runtime\<close>: an unknown task is only logged.\<close>

definition pool_answer :: "nat \<Rightarrow> 'r result \<Rightarrow> 'r task_pool \<Rightarrow> 'r task_pool option" where
  "pool_answer uid r s =
     (case dget (tp_dispatched s) uid of
        None \<Rightarrow> Some s
      | Some t \<Rightarrow> Some (s\<lparr>tp_dispatched := ddel uid (tp_dispatched s), tp_answers := dset uid r (tp_answers s)\<rparr>))"

definition pool_empty :: "'r task_pool \<Rightarrow> bool" where
  "pool_empty s \<longleftrightarrow> tp_counter s = 0"

datatype 'r pool_op =
  Submit task | Send task | Rank task | Transfer | Get task | Recv | Answer nat "'r result"

fun pool_step :: "'r pool_op \<Rightarrow> 'r task_pool \<Rightarrow> 'r task_pool option" where
  "pool_step (Submit t) s = pool_submit t s"
| "pool_step (Send t) s = pool_send t s"
| "pool_step (Rank t) s = pool_rank t s"
| "pool_step Transfer s = pool_transfer s"
| "pool_step (Get t) s = pool_get t s"
| "pool_step Recv s = pool_recv s"
| "pool_step (Answer uid r) s = pool_answer uid r s"

fun pool_run :: "'r pool_op list \<Rightarrow> 'r task_pool \<Rightarrow> 'r task_pool option" where
  "pool_run [] s = Some s"
| "pool_run (x # xs) s = (case pool_step x s of None \<Rightarrow> None | Some s1 \<Rightarrow> pool_run xs s1)"

section \<open>No task is lost\<close>

text \<open>The tasks of a run, in the order of their submission.\<close>

fun submissions :: "'r pool_op list \<Rightarrow> task list" where
  "submissions [] = []"
| "submissions (Submit t # xs) = t # submissions xs"
| "submissions (_ # xs) = submissions xs"

definition uids :: "task list \<Rightarrow> nat multiset" where
  "uids ts = mset (map tk_uid ts)"

definition dict_keys :: "(nat, 'v) pydict \<Rightarrow> nat multiset" where
  "dict_keys d = mset (map fst d)"

definition places :: "'r task_pool \<Rightarrow> nat multiset" where
  "places s = uids (tp_submitted s) + uids (tp_ordered s) + dict_keys (tp_dispatched s) + dict_keys (tp_answers s)"

definition waiting :: "'r task_pool \<Rightarrow> nat" where
  "waiting s = length (tp_submitted s) + length (tp_ordered s) + (if tp_loading s = None then 0 else 1)"

lemma uids_simps [simp]: "uids [] = {#}" "uids (t # ts) = add_mset (tk_uid t) (uids ts)" "uids (xs @ ys) = uids xs + uids ys"
  by (simp_all add: uids_def)

lemma uids_remove1: "t \<in> set ts \<Longrightarrow> uids ts = add_mset (tk_uid t) (uids (remove1 t ts))"
  by (induction ts) auto

lemma count_uids: "t \<in> set ts \<Longrightarrow> 0 < count (uids ts) (tk_uid t)"
  by (simp add: uids_remove1)

lemma length_remove1_Suc: "t \<in> set ts \<Longrightarrow> length ts = Suc (length (remove1 t ts))"
  by (induction ts) auto

lemma count_keys: "count (dict_keys d) k = 0 \<longleftrightarrow> dget d k = None"
  by (auto simp: dict_keys_def count_eq_zero_iff map_of_eq_None_iff)

lemma keys_Nil [simp]: "dict_keys [] = {#}"
  by (simp add: dict_keys_def)

lemma keys_dset: "dget d k = None \<Longrightarrow> dict_keys (dset k v d) = add_mset k (dict_keys d)"
  by (simp add: dset_new dict_keys_def)

lemma keys_ddel:
  assumes "dict_ok d" and "dget d k = Some v"
  shows "dict_keys d = add_mset k (dict_keys (ddel k d))"
proof -
  obtain xs ys where d: "d = xs @ (k, v) # ys" "dget xs k = None" "dget ys k = None" by (rule dict_split [OF assms])
  then show ?thesis by (simp add: ddel_split dict_keys_def)
qed

definition pool_ok :: "task list \<Rightarrow> 'r task_pool \<Rightarrow> bool" where
  "pool_ok subs s \<longleftrightarrow> places s = uids subs \<and> dict_ok (tp_dispatched s) \<and> dict_ok (tp_answers s)
     \<and> waiting s = tp_counter s + length (tp_to_send s)"

lemma pool_ok_init: "pool_ok [] (pool_init n)"
  by (simp add: pool_ok_def pool_init_def places_def waiting_def)

text \<open>A task is nowhere else when its identifier occurs once.\<close>

lemma not_placed:
  assumes "count (places s) u = 0"
  shows "dget (tp_answers s) u = None" "dget (tp_dispatched s) u = None"
  using assms by (simp_all add: places_def count_keys)

lemma placed_once:
  assumes "count (places s) u \<le> 1" and "dget (tp_dispatched s) u \<noteq> None"
  shows "dget (tp_answers s) u = None"
proof -
  have "count (dict_keys (tp_dispatched s)) u \<noteq> 0" using assms(2) unfolding count_keys .
  with assms(1) [unfolded places_def count_union] have "count (dict_keys (tp_answers s)) u = 0" by linarith
  then show ?thesis unfolding count_keys .
qed

lemma ordered_not_dispatched:
  assumes "count (places s) (tk_uid t) \<le> 1" and "t \<in> set (tp_ordered s)"
  shows "dget (tp_dispatched s) (tk_uid t) = None"
proof -
  have "count (dict_keys (tp_dispatched s)) (tk_uid t) = 0"
    using count_uids [OF assms(2)] assms(1) [unfolded places_def count_union] by linarith
  then show ?thesis unfolding count_keys .
qed

lemma places_once: "pool_ok subs s \<Longrightarrow> distinct (map tk_uid subs) \<Longrightarrow> count (places s) u \<le> 1"
  unfolding pool_ok_def uids_def by (metis distinct_count_atmost_1 le_refl zero_le_one)

text \<open>Every operation keeps the accounts.\<close>

lemma submit_ok:
  assumes ok: "pool_ok subs s" and new: "tk_uid t \<notin> tk_uid ` set subs" and st: "pool_submit t s = Some s'"
  shows "pool_ok (subs @ [t]) s'"
proof -
  have "count (places s) (tk_uid t) = 0" using ok new by (simp add: pool_ok_def uids_def count_eq_zero_iff)
  from not_placed [OF this] ok st show ?thesis
    by (auto simp: pool_submit_def pool_ok_def places_def waiting_def keys_dset split: if_splits)
qed

lemma get_ok:
  assumes ok: "pool_ok subs s" and u: "distinct (map tk_uid subs)" and st: "pool_get t s = Some s'"
  shows "pool_ok subs s'"
proof -
  have t: "t \<in> set (tp_ordered s)" "tp_loading s = None" and s': "s' = s\<lparr>tp_ordered := remove1 t (tp_ordered s),
      tp_dispatched := dset (tk_uid t) t (tp_dispatched s), tp_loading := Some t\<rparr>"
    using st by (auto simp: pool_get_def most_urgent_def split: if_splits)
  note d = ordered_not_dispatched [OF places_once [OF ok u] t(1)]
  show ?thesis using ok t(2) keys_dset [OF d, of t] uids_remove1 [OF t(1)] length_remove1_Suc [OF t(1)]
    by (simp add: s' pool_ok_def places_def waiting_def)
qed

lemma answer_ok:
  assumes ok: "pool_ok subs s" and u: "distinct (map tk_uid subs)" and st: "pool_answer i r s = Some s'"
  shows "pool_ok subs s'"
proof (cases "dget (tp_dispatched s) i")
  case None
  with ok st show ?thesis by (simp add: pool_answer_def)
next
  case (Some t)
  have s': "s' = s\<lparr>tp_dispatched := ddel i (tp_dispatched s), tp_answers := dset i r (tp_answers s)\<rparr>"
    using st Some by (simp add: pool_answer_def)
  have a: "dget (tp_answers s) i = None" using placed_once [OF places_once [OF ok u]] Some by blast
  have d: "dict_keys (tp_dispatched s) = add_mset i (dict_keys (ddel i (tp_dispatched s)))"
    using keys_ddel [OF _ Some] ok by (simp add: pool_ok_def)
  show ?thesis using ok d keys_dset [OF a, of r] by (simp add: s' pool_ok_def places_def waiting_def)
qed

lemma pool_step_ok:
  assumes "pool_step x s = Some s'" and "pool_ok subs s" and "distinct (map tk_uid (subs @ submissions [x]))"
  shows "pool_ok (subs @ submissions [x]) s'"
proof (cases x)
  case (Submit t)
  then show ?thesis using assms by (auto intro: submit_ok)
next
  case (Send t)
  then show ?thesis using assms length_remove1_Suc [of t "tp_to_send s"]
    by (auto simp: pool_send_def pool_ok_def places_def waiting_def split: if_splits)
next
  case (Rank t)
  then show ?thesis using assms by (auto simp: pool_rank_def pool_ok_def places_def waiting_def split: if_splits)
next
  case Transfer
  then show ?thesis using assms by (auto simp: pool_transfer_def pool_ok_def places_def waiting_def split: list.splits)
next
  case (Get t)
  then show ?thesis using assms by (auto intro: get_ok)
next
  case Recv
  then show ?thesis using assms by (auto simp: pool_recv_def pool_ok_def places_def waiting_def split: if_splits)
next
  case (Answer i r)
  then show ?thesis using assms by (auto intro: answer_ok)
qed

lemma submissions_Cons: "submissions (x # xs) = submissions [x] @ submissions xs"
  by (cases x) simp_all

lemma pool_run_ok:
  "pool_run xs s = Some s' \<Longrightarrow> pool_ok subs s \<Longrightarrow> distinct (map tk_uid (subs @ submissions xs)) \<Longrightarrow> pool_ok (subs @ submissions xs) s'"
proof (induction xs arbitrary: s subs)
  case (Cons x xs)
  obtain s1 where s1: "pool_step x s = Some s1" "pool_run xs s1 = Some s'" using Cons.prems(1) by (auto split: option.splits)
  have d: "distinct (map tk_uid ((subs @ submissions [x]) @ submissions xs))" using Cons.prems(3) by (simp add: submissions_Cons [of x xs])
  then have "distinct (map tk_uid (subs @ submissions [x]))" by auto
  note ok = pool_step_ok [OF s1(1) Cons.prems(2) this]
  from Cons.IH [OF s1(2) ok d] show ?case by (simp add: submissions_Cons [of x xs])
qed simp

text \<open>C34. However submissions, transfers, loads and answers of the processes fall together, every submitted task is in
  exactly one place: waiting, being processed, or answered, and then with one answer. The count that
  tells the runtime of work is the number of waiting tasks, apart from submissions on their way.\<close>

theorem tasks_in_one_place:
  assumes "pool_run xs (pool_init n) = Some s" and "distinct (map tk_uid (submissions xs))"
  shows "mset (map tk_uid (tp_submitted s)) + mset (map tk_uid (tp_ordered s)) + mset (map fst (tp_dispatched s))
      + mset (map fst (tp_answers s)) = mset (map tk_uid (submissions xs))
    \<and> tp_counter s + length (tp_to_send s)
        = length (tp_submitted s) + length (tp_ordered s) + (if tp_loading s = None then 0 else 1)"
proof -
  have "pool_ok ([] @ submissions xs) s" using pool_run_ok [OF assms(1) pool_ok_init] assms(2) by simp
  then show ?thesis by (simp only: pool_ok_def places_def waiting_def uids_def dict_keys_def append_Nil)
qed

section \<open>The priority of the pool\<close>

definition at_least_as_urgent :: "(rat \<times> rat) option \<Rightarrow> task \<Rightarrow> bool" where
  "at_least_as_urgent p t \<longleftrightarrow> (case p of None \<Rightarrow> False | Some k \<Rightarrow> k \<le> task_key t)"

text \<open>The tasks in the queues whose submission is complete.\<close>

definition counted :: "'r task_pool \<Rightarrow> task set" where
  "counted s = (set (tp_submitted s) \<union> set (tp_ordered s)) - (set (tp_to_send s) \<union> set (tp_to_rank s))"

definition priority_ok :: "'r task_pool \<Rightarrow> bool" where
  "priority_ok s \<longleftrightarrow> (\<forall>t \<in> counted s. at_least_as_urgent (tp_priority s) t)"

text \<open>Whenever the runtime counts a task down, the pool's thread has moved all tasks to the priority queue.\<close>

fun loads_settled :: "'r pool_op list \<Rightarrow> 'r task_pool \<Rightarrow> bool" where
  "loads_settled [] s \<longleftrightarrow> True"
| "loads_settled (x # xs) s \<longleftrightarrow>
     (case pool_step x s of
        None \<Rightarrow> True
      | Some s1 \<Rightarrow> (case x of Recv \<Rightarrow> tp_submitted s = [] | _ \<Rightarrow> True) \<and> loads_settled xs s1)"

lemma fold_min_le: "x \<in> set (k # ks) \<Longrightarrow> fold min ks k \<le> (x :: 'a::linorder)"
  unfolding Min.set_eq_fold [symmetric] by (rule Min_le) simp_all

lemma least_key_le: "t \<in> set ts \<Longrightarrow> \<exists>k. least_key ts = Some k \<and> k \<le> task_key t"
  by (cases ts) (auto simp: least_key_def fold_min_le)

lemma priority_ok_step:
  assumes st: "pool_step x s = Some s'" and ok: "priority_ok s" and settled: "x = Recv \<longrightarrow> tp_submitted s = []"
  shows "priority_ok s'"
proof (cases x)
  case (Submit t)
  then show ?thesis using st ok by (auto simp: pool_submit_def priority_ok_def counted_def split: if_splits)
next
  case (Send t)
  then have t: "t \<in> set (tp_to_send s)" and s': "s' = s\<lparr>tp_to_send := remove1 t (tp_to_send s), tp_counter := tp_counter s + 1,
      tp_to_rank := tp_to_rank s @ [t]\<rparr>"
    using st by (auto simp: pool_send_def split: if_splits)
  have "counted s' \<subseteq> counted s" using t by (auto simp: counted_def s' in_set_remove1)
  then show ?thesis using ok by (auto simp: priority_ok_def s')
next
  case (Rank t)
  then have s': "s' = s\<lparr>tp_to_rank := remove1 t (tp_to_rank s),
      tp_priority := (if more_urgent (task_key t) (tp_priority s) then Some (task_key t) else tp_priority s)\<rparr>"
    using st by (auto simp: pool_rank_def split: if_splits)
  have "counted s' \<subseteq> insert t (counted s)" by (auto simp: counted_def s' in_set_remove1)
  moreover have "at_least_as_urgent (tp_priority s') t"
    by (auto simp: s' at_least_as_urgent_def more_urgent_def split: option.splits)
  moreover have "at_least_as_urgent (tp_priority s') u" if "at_least_as_urgent (tp_priority s) u" for u
    using that by (auto simp: s' at_least_as_urgent_def more_urgent_def split: option.splits)
  ultimately show ?thesis using ok unfolding priority_ok_def by blast
next
  case Transfer
  then show ?thesis using st ok by (auto simp: pool_transfer_def priority_ok_def counted_def split: list.splits)
next
  case (Get t)
  then have s': "s' = s\<lparr>tp_ordered := remove1 t (tp_ordered s), tp_dispatched := dset (tk_uid t) t (tp_dispatched s), tp_loading := Some t\<rparr>"
    using st by (auto simp: pool_get_def split: if_splits)
  have "counted s' \<subseteq> counted s" by (auto simp: counted_def s' dest: notin_set_remove1)
  then show ?thesis using ok by (auto simp: priority_ok_def s')
next
  case Recv
  then have s': "s' = s\<lparr>tp_loading := None, tp_counter := tp_counter s - 1,
      tp_priority := (case least_key (tp_ordered s) of None \<Rightarrow> tp_priority s | Some k \<Rightarrow> Some k)\<rparr>"
    using st by (auto simp: pool_recv_def split: if_splits)
  have "at_least_as_urgent (tp_priority s') u" if "u \<in> set (tp_ordered s)" for u
    using least_key_le [OF that] by (auto simp: s' at_least_as_urgent_def)
  then show ?thesis using settled Recv by (auto simp: priority_ok_def counted_def s')
next
  case (Answer i r)
  then show ?thesis using st ok by (auto simp: pool_answer_def priority_ok_def counted_def split: option.splits)
qed

lemma priority_ok_run: "pool_run xs s = Some s' \<Longrightarrow> loads_settled xs s \<Longrightarrow> priority_ok s \<Longrightarrow> priority_ok s'"
proof (induction xs arbitrary: s)
  case (Cons x xs)
  obtain s1 where s1: "pool_step x s = Some s1" "pool_run xs s1 = Some s'" using Cons.prems(1) by (auto split: option.splits)
  then have "loads_settled xs s1" "x = Recv \<longrightarrow> tp_submitted s = []" using Cons.prems(2) by (auto split: pool_op.splits)
  with Cons.IH [OF s1(2)] priority_ok_step [OF s1(1) Cons.prems(3)] show ?case by blast
qed simp

text \<open>If the pool's thread keeps up with the runtime, the priority by which the runtime chooses among pools is at
  least as urgent as every complete task that waits in the pool.\<close>

lemma pool_priority_bound:
  assumes "pool_run xs (pool_init n) = Some s" and "loads_settled xs (pool_init n)"
    and "t \<in> set (tp_submitted s) \<union> set (tp_ordered s)" and "t \<notin> set (tp_to_send s) \<union> set (tp_to_rank s)"
  shows "\<exists>k. tp_priority s = Some k \<and> k \<le> task_key t"
proof -
  have "priority_ok (pool_init n :: 'r task_pool)" by (simp add: priority_ok_def counted_def pool_init_def)
  from priority_ok_run [OF assms(1,2) this] assms(3,4) show ?thesis
    by (auto simp: priority_ok_def counted_def at_least_as_urgent_def split: option.splits)
qed

section \<open>Examples\<close>

definition tpx_task :: "nat \<Rightarrow> request_type \<Rightarrow> rat \<Rightarrow> task" where
  "tpx_task u ty time = \<lparr>tk_uid = u, tk_priority = prioritize ty, tk_time = time, tk_size = 4\<rparr>"

definition tpx_add :: "task \<Rightarrow> unit pool_op list" where
  "tpx_add t = [Submit t, Send t, Rank t]"

text \<open>An inference step overtakes a backward pass that came earlier.\<close>

definition tpx_overtake :: "unit pool_op list" where
  "tpx_overtake = tpx_add (tpx_task 7 Backward 10) @ tpx_add (tpx_task 8 Inference 20) @ [Transfer, Transfer,
     Get (tpx_task 8 Inference 20), Recv, Answer 8 (Inr ()), Submit (tpx_task 9 Forward 30)]"

lemma tasks_in_one_place_witness:
  "\<exists>s. pool_run tpx_overtake (pool_init 8) = Some s \<and> tp_answers s = [(8, Inr ())] \<and> tp_ordered s = [tpx_task 7 Backward 10]
   \<and> mset (map tk_uid (tp_submitted s)) + {#7#} + mset (map fst (tp_dispatched s)) + {#8#} = {#7, 8, 9#}"
proof -
  define s where "s = (case pool_run tpx_overtake (pool_init 8) of Some s \<Rightarrow> s | None \<Rightarrow> pool_init 0)"
  have a: "tp_answers s = [(8, Inr ())]" "tp_ordered s = [tpx_task 7 Backward 10]" unfolding s_def by code_simp+
  have "pool_run tpx_overtake (pool_init 8) \<noteq> None" by code_simp
  then have r: "pool_run tpx_overtake (pool_init 8) = Some s" by (auto simp: s_def)
  have m: "map tk_uid (submissions tpx_overtake) = [7, 8, 9]" by code_simp
  have "tk_uid (tpx_task 7 Backward 10) = 7" by code_simp
  with tasks_in_one_place [OF r] a m r show ?thesis by auto
qed

lemma pool_priority_bound_witness:
  "\<exists>s k. pool_run tpx_overtake (pool_init 8) = Some s \<and> tp_priority s = Some k \<and> k \<le> (2, 10)"
proof -
  define s where "s = (case pool_run tpx_overtake (pool_init 8) of Some s \<Rightarrow> s | None \<Rightarrow> pool_init 0)"
  have "pool_run tpx_overtake (pool_init 8) \<noteq> None" by code_simp
  then have r: "pool_run tpx_overtake (pool_init 8) = Some s" by (auto simp: s_def)
  have "loads_settled tpx_overtake (pool_init 8)" by code_simp
  moreover have "tp_ordered s = [tpx_task 7 Backward 10]" "tp_to_send s = [tpx_task 9 Forward 30]" "tp_to_rank s = []"
    unfolding s_def by code_simp+
  moreover have "tpx_task 7 Backward 10 \<noteq> tpx_task 9 Forward 30" "task_key (tpx_task 7 Backward 10) = (2, 10)" by code_simp+
  ultimately show ?thesis using pool_priority_bound [OF r, of "tpx_task 7 Backward 10"] r by auto
qed

text \<open>
  A pool that was emptied keeps the priority of its last task: a backward pass that comes later is ranked as
  the inference step before it.
\<close>

lemma priority_stale:
  "map_option (\<lambda>s. (tp_ordered s, tp_priority s)) (pool_run
     (tpx_add (tpx_task 7 Inference 10) @ [Transfer, Get (tpx_task 7 Inference 10), Recv] @ tpx_add (tpx_task 8 Backward 20) @ [Transfer])
     (pool_init 8))
   = Some ([tpx_task 8 Backward 20], Some (1, 10))"
  by code_simp

text \<open>An inference step that the pool's thread has not moved yet is forgotten when the runtime counts down.\<close>

lemma priority_forgets_urgent:
  "map_option (\<lambda>s. (tp_submitted s, tp_priority s)) (pool_run
     (tpx_add (tpx_task 7 Backward 10) @ tpx_add (tpx_task 8 Backward 20) @ [Transfer, Transfer] @ [Get (tpx_task 7 Backward 10)]
        @ tpx_add (tpx_task 9 Inference 30) @ [Recv])
     (pool_init 8))
   = Some ([tpx_task 9 Inference 30], Some (2, 20))"
  by code_simp

end
