(* ===== verification/PetalsHandlers.thy ===== *)
theory PetalsHandlers
  imports Prelude
begin

text \<open>
  The sessions of the connection handlers of a Petals server (petals/server/handler.py): every handler is
  a process with the queues of its own sessions, a table of who owns which session, and a queue of events
  from the other handlers. A push that arrives at another handler than the owner's is passed on through
  the owner's events. Handlers are numbered from 0; a request is a value of \<open>'q\<close>.
\<close>

section \<open>State\<close>

datatype 'q event = New_session string nat | End_session string | Push string 'q

record 'q handler =
  hd_queues :: "(string, 'q list) pydict"
  hd_owners :: "(string, nat) pydict"
  hd_events :: "'q event list"

definition handlers_init :: "nat \<Rightarrow> 'q handler list" where
  "handlers_init n = replicate n \<lparr>hd_queues = [], hd_owners = [], hd_events = []\<rparr>"

text \<open>An event for all handlers but one.\<close>

definition tell_others :: "nat \<Rightarrow> 'q event \<Rightarrow> 'q handler list \<Rightarrow> 'q handler list" where
  "tell_others i e hs =
     map (\<lambda>(j, h). if j = i then h else h\<lparr>hd_events := hd_events h @ [e]\<rparr>) (zip [0..<length hs] hs)"

definition change_handler :: "nat \<Rightarrow> ('q handler \<Rightarrow> 'q handler) \<Rightarrow> 'q handler list \<Rightarrow> 'q handler list" where
  "change_handler i f hs = hs[i := f (hs ! i)]"

section \<open>Operations of handler \<open>i\<close>\<close>

text \<open>\<open>_managed_session\<close>, its begin and its end.\<close>

definition open_session :: "nat \<Rightarrow> string \<Rightarrow> 'q handler list \<Rightarrow> unit result \<times> 'q handler list" where
  "open_session i sid hs =
     (if dget (hd_queues (hs ! i)) sid \<noteq> None then (Inl AssertionError, hs)
      else (Inr (), tell_others i (New_session sid i)
        (change_handler i (\<lambda>h. h\<lparr>hd_queues := dset sid [] (hd_queues h), hd_owners := dset sid i (hd_owners h)\<rparr>) hs)))"

definition end_session :: "nat \<Rightarrow> string \<Rightarrow> 'q handler list \<Rightarrow> unit result \<times> 'q handler list" where
  "end_session i sid hs =
     (if dget (hd_queues (hs ! i)) sid = None then (Inl KeyError, hs)
      else let hs1 = change_handler i (\<lambda>h. h\<lparr>hd_queues := ddel sid (hd_queues h)\<rparr>) hs
      in if dget (hd_owners (hs ! i)) sid = None then (Inl KeyError, hs1)
      else (Inr (), tell_others i (End_session sid)
             (change_handler i (\<lambda>h. h\<lparr>hd_owners := ddel sid (hd_owners h)\<rparr>) hs1)))"

text \<open>\<open>rpc_push\<close> through \<open>_put_into_session_queue\<close>: a push for an unknown session is ignored.\<close>

definition append_request :: "string \<Rightarrow> 'q \<Rightarrow> 'q handler \<Rightarrow> 'q handler" where
  "append_request sid q h =
     (case dget (hd_queues h) sid of None \<Rightarrow> h | Some qs \<Rightarrow> h\<lparr>hd_queues := dset sid (qs @ [q]) (hd_queues h)\<rparr>)"

definition put_request :: "nat \<Rightarrow> string \<Rightarrow> 'q \<Rightarrow> 'q handler list \<Rightarrow> unit result \<times> 'q handler list" where
  "put_request i sid q hs =
     (case dget (hd_owners (hs ! i)) sid of
        None \<Rightarrow> (Inr (), hs)
      | Some j \<Rightarrow>
          if j = i
          then if dget (hd_queues (hs ! i)) sid = None then (Inl KeyError, hs)
               else (Inr (), change_handler i (append_request sid q) hs)
          else (Inr (), change_handler j (\<lambda>h. h\<lparr>hd_events := hd_events h @ [Push sid q]\<rparr>) hs))"

text \<open>\<open>_get_from_session_queue\<close>; \<open>None\<close> while the queue is empty.\<close>

definition take_request :: "nat \<Rightarrow> string \<Rightarrow> 'q handler list \<Rightarrow> 'q option result \<times> 'q handler list" where
  "take_request i sid hs =
     (case dget (hd_owners (hs ! i)) sid of
        None \<Rightarrow> (Inl KeyError, hs)
      | Some j \<Rightarrow>
          if j \<noteq> i then (Inl AssertionError, hs)
          else case dget (hd_queues (hs ! i)) sid of
            None \<Rightarrow> (Inl KeyError, hs)
          | Some [] \<Rightarrow> (Inr None, hs)
          | Some (q # qs) \<Rightarrow> (Inr (Some q), change_handler i (\<lambda>h. h\<lparr>hd_queues := dset sid qs (hd_queues h)\<rparr>) hs))"

text \<open>One turn of \<open>_listen_to_event_queue\<close>.\<close>

definition apply_event :: "'q event \<Rightarrow> 'q handler \<Rightarrow> 'q handler" where
  "apply_event e h =
     (case e of
        New_session sid j \<Rightarrow> h\<lparr>hd_owners := dset sid j (hd_owners h)\<rparr>
      | End_session sid \<Rightarrow> h\<lparr>hd_owners := ddel sid (hd_owners h)\<rparr>
      | Push sid q \<Rightarrow> append_request sid q h)"

definition listen :: "nat \<Rightarrow> 'q handler list \<Rightarrow> 'q handler list" where
  "listen i hs =
     (case hd_events (hs ! i) of
        [] \<Rightarrow> hs
      | e # es \<Rightarrow> change_handler i (\<lambda>h. apply_event e (h\<lparr>hd_events := es\<rparr>)) hs)"

datatype 'q handler_op =
  Open nat string | Close nat string | Put nat string 'q | Take nat string | Listen nat

fun handler_of :: "'q handler_op \<Rightarrow> nat" where
  "handler_of (Open i sid) = i"
| "handler_of (Close i sid) = i"
| "handler_of (Put i sid q) = i"
| "handler_of (Take i sid) = i"
| "handler_of (Listen i) = i"

fun handler_step :: "'q handler_op \<Rightarrow> 'q handler list \<Rightarrow> 'q handler list" where
  "handler_step (Open i sid) hs = snd (open_session i sid hs)"
| "handler_step (Close i sid) hs = snd (end_session i sid hs)"
| "handler_step (Put i sid q) hs = snd (put_request i sid q hs)"
| "handler_step (Take i sid) hs = snd (take_request i sid hs)"
| "handler_step (Listen i) hs = listen i hs"

definition handler_run :: "'q handler_op list \<Rightarrow> 'q handler list \<Rightarrow> 'q handler list" where
  "handler_run xs hs = fold handler_step xs hs"

section \<open>Who owns a session\<close>

text \<open>What the table of a handler will be when its events are read.\<close>

fun told :: "'q event list \<Rightarrow> string \<Rightarrow> nat option \<Rightarrow> nat option" where
  "told [] sid owner = owner"
| "told (New_session sid' j # es) sid owner = told es sid (if sid' = sid then Some j else owner)"
| "told (End_session sid' # es) sid owner = told es sid (if sid' = sid then None else owner)"
| "told (Push sid' q # es) sid owner = told es sid owner"

lemma told_append [simp]: "told (xs @ ys) sid owner = told ys sid (told xs sid owner)"
  by (induction xs sid owner rule: told.induct) simp_all

definition has_session :: "string \<Rightarrow> 'q handler \<Rightarrow> bool" where
  "has_session sid h \<longleftrightarrow> dget (hd_queues h) sid \<noteq> None"

definition session_owner :: "string \<Rightarrow> 'q handler list \<Rightarrow> nat option" where
  "session_owner sid hs = find (\<lambda>j. has_session sid (hs ! j)) [0..<length hs]"


text \<open>\<open>opener sid\<close> is the handler where a session began, if it ever did. The events a handler has
  to read are of the sessions of others, the table and the queues are of sessions that began.\<close>

definition told_owner :: "string \<Rightarrow> 'q handler \<Rightarrow> nat option" where
  "told_owner sid h = told (hd_events h) sid (dget (hd_owners h) sid)"

definition owner_by :: "(string \<rightharpoonup> nat) \<Rightarrow> string \<Rightarrow> 'q handler list \<Rightarrow> nat option" where
  "owner_by opener sid hs =
     (case opener sid of None \<Rightarrow> None | Some j \<Rightarrow> if has_session sid (hs ! j) then Some j else None)"

text \<open>What is to hold of handler \<open>i\<close> alone.\<close>

definition handler_ok :: "nat \<Rightarrow> (string \<rightharpoonup> nat) \<Rightarrow> 'q handler \<Rightarrow> bool" where
  "handler_ok i opener h \<longleftrightarrow> (\<forall>sid.
     (has_session sid h \<longleftrightarrow> dget (hd_owners h) sid = Some i) \<and>
     (\<forall>j. dget (hd_owners h) sid = Some j \<longrightarrow> opener sid = Some j) \<and>
     (\<forall>j. New_session sid j \<in> set (hd_events h) \<longrightarrow> opener sid = Some j \<and> j \<noteq> i) \<and>
     (End_session sid \<in> set (hd_events h) \<longrightarrow> (\<exists>j. opener sid = Some j \<and> j \<noteq> i)))"

definition handlers_ok :: "nat \<Rightarrow> (string \<rightharpoonup> nat) \<Rightarrow> 'q handler list \<Rightarrow> bool" where
  "handlers_ok n opener hs \<longleftrightarrow> length hs = n \<and> (\<forall>sid j. opener sid = Some j \<longrightarrow> j < n) \<and>
     (\<forall>i<n. handler_ok i opener (hs ! i)) \<and>
     (\<forall>i<n. \<forall>sid. told_owner sid (hs ! i) = owner_by opener sid hs)"

lemma tell_others_length [simp]: "length (tell_others i e hs) = length hs"
  by (simp add: tell_others_def)

lemma tell_others_nth [simp]:
  "j < length hs \<Longrightarrow> tell_others i e hs ! j = (if j = i then hs ! j else (hs ! j)\<lparr>hd_events := hd_events (hs ! j) @ [e]\<rparr>)"
  by (simp add: tell_others_def)

lemma change_handler_length [simp]: "length (change_handler i f hs) = length hs"
  by (simp add: change_handler_def)

lemma change_handler_nth [simp]:
  "j < length hs \<Longrightarrow> change_handler i f hs ! j = (if j = i then f (hs ! j) else hs ! j)"
  by (cases "j = i") (simp_all add: change_handler_def)

lemma handlers_ok_init: "handlers_ok n Map.empty (handlers_init n)"
  by (simp add: handlers_ok_def handler_ok_def handlers_init_def told_owner_def owner_by_def has_session_def)

lemma has_session_simps [simp]:
  "has_session s (h\<lparr>hd_events := es\<rparr>) = has_session s h"
  "has_session s (h\<lparr>hd_owners := os\<rparr>) = has_session s h"
  "has_session s (h\<lparr>hd_queues := dset sid q qs\<rparr>) \<longleftrightarrow> s = sid \<or> dget qs s \<noteq> None"
  "has_session s (h\<lparr>hd_queues := ddel sid qs\<rparr>) \<longleftrightarrow> s \<noteq> sid \<and> dget qs s \<noteq> None"
  "has_session s (append_request sid r h) = has_session s h"
  by (auto simp: has_session_def append_request_def dict_simps split: option.splits)

lemma append_request_more [simp]:
  "hd_owners (append_request sid q h) = hd_owners h" "hd_events (append_request sid q h) = hd_events h"
  by (auto simp: append_request_def split: option.splits)

lemma told_silent:
  "(\<forall>j. New_session sid j \<notin> set es) \<Longrightarrow> End_session sid \<notin> set es \<Longrightarrow> told es sid owner = owner"
  by (induction es sid owner rule: told.induct) auto

lemma handlers_okD:
  assumes "handlers_ok n opener hs" and "i < n"
  shows "length hs = n"
    and "has_session sid (hs ! i) \<longleftrightarrow> dget (hd_owners (hs ! i)) sid = Some i"
    and "dget (hd_owners (hs ! i)) sid = Some j \<Longrightarrow> opener sid = Some j"
    and "New_session sid j \<in> set (hd_events (hs ! i)) \<Longrightarrow> opener sid = Some j \<and> j \<noteq> i"
    and "End_session sid \<in> set (hd_events (hs ! i)) \<Longrightarrow> \<exists>j. opener sid = Some j \<and> j \<noteq> i"
    and "told_owner sid (hs ! i) = owner_by opener sid hs"
    and "opener sid = Some j \<Longrightarrow> j < n"
  using assms unfolding handlers_ok_def handler_ok_def by blast+

text \<open>The rule by which every operation is shown to keep it: the table and the events of each handler, and
  what it is told, against the owners.\<close>

lemma handlers_okI:
  assumes "length hs = n" and "\<And>sid j. opener sid = Some j \<Longrightarrow> j < n"
    and "\<And>i. i < n \<Longrightarrow> handler_ok i opener (hs ! i)"
    and "\<And>i sid. i < n \<Longrightarrow> told_owner sid (hs ! i) = owner_by opener sid hs"
  shows "handlers_ok n opener hs"
  using assms by (simp add: handlers_ok_def)

lemma handler_okI:
  assumes "\<And>sid. has_session sid h \<longleftrightarrow> dget (hd_owners h) sid = Some i"
    and "\<And>sid j. dget (hd_owners h) sid = Some j \<Longrightarrow> opener sid = Some j"
    and "\<And>sid j. New_session sid j \<in> set (hd_events h) \<Longrightarrow> opener sid = Some j \<and> j \<noteq> i"
    and "\<And>sid. End_session sid \<in> set (hd_events h) \<Longrightarrow> \<exists>j. opener sid = Some j \<and> j \<noteq> i"
  shows "handler_ok i opener h"
  using assms by (simp add: handler_ok_def)

lemma handler_okD:
  assumes "handlers_ok n opener hs" and "i < n"
  shows "handler_ok i opener (hs ! i)"
  using assms by (simp add: handlers_ok_def)

lemma own_events:
  assumes "handlers_ok n opener hs" and "i < n" and "opener sid \<in> {None, Some i}"
  shows "told (hd_events (hs ! i)) sid owner = owner"
proof (rule told_silent)
  show "\<forall>j. New_session sid j \<notin> set (hd_events (hs ! i))"
    using assms(3) handlers_okD(4) [OF assms(1,2), of sid] by fastforce
  show "End_session sid \<notin> set (hd_events (hs ! i))"
    using assms(3) handlers_okD(5) [OF assms(1,2), of sid] by auto
qed

lemma open_session_ok:
  assumes ok: "handlers_ok n opener hs" and i: "i < n" and new: "opener sid = None"
  shows "handlers_ok n (opener(sid \<mapsto> i)) (snd (open_session i sid hs))"
proof -
  have len: "length hs = n" using ok by (simp add: handlers_ok_def)
  have own: "dget (hd_owners (hs ! j)) sid = None" if "j < n" for j
    using handlers_okD(3) [OF ok that, of sid] new by (cases "dget (hd_owners (hs ! j)) sid") auto
  have noq: "dget (hd_queues (hs ! i)) sid = None"
    using handlers_okD(2) [OF ok i, of sid] own [OF i] by (simp add: has_session_def)
  define hs1 where "hs1 = tell_others i (New_session sid i) (change_handler i
    (\<lambda>h. h\<lparr>hd_queues := dset sid [] (hd_queues h), hd_owners := dset sid i (hd_owners h)\<rparr>) hs)"
  have owners: "dget (hd_owners (hs1 ! j)) = (if j = i then (dget (hd_owners (hs ! i)))(sid \<mapsto> i) else dget (hd_owners (hs ! j)))"
    and events: "hd_events (hs1 ! j) = (if j = i then hd_events (hs ! i) else hd_events (hs ! j) @ [New_session sid i])"
    and has: "has_session s (hs1 ! j) \<longleftrightarrow> s = sid \<and> j = i \<or> has_session s (hs ! j)" if "j < n" for j s
    using that len by (auto simp: hs1_def has_session_def dict_simps)
  have "handlers_ok n (opener(sid \<mapsto> i)) hs1"
  proof (rule handlers_okI)
    fix j assume j: "j < n"
    show "handler_ok j (opener(sid \<mapsto> i)) (hs1 ! j)"
    proof (rule handler_okI)
      fix s show "has_session s (hs1 ! j) \<longleftrightarrow> dget (hd_owners (hs1 ! j)) s = Some j"
        using handlers_okD(2) [OF ok j, of s] own [OF j] by (auto simp: has [OF j] owners [OF j])
    next
      fix s k assume "dget (hd_owners (hs1 ! j)) s = Some k"
      then show "(opener(sid \<mapsto> i)) s = Some k"
        using handlers_okD(3) [OF ok j, of s k] own [OF j] by (auto simp: owners [OF j] split: if_splits)
    next
      fix s k assume "New_session s k \<in> set (hd_events (hs1 ! j))"
      then show "(opener(sid \<mapsto> i)) s = Some k \<and> k \<noteq> j"
        using handlers_okD(4) [OF ok j, of s k] new by (auto simp: events [OF j] split: if_splits)
    next
      fix s assume "End_session s \<in> set (hd_events (hs1 ! j))"
      then show "\<exists>k. (opener(sid \<mapsto> i)) s = Some k \<and> k \<noteq> j"
        using handlers_okD(5) [OF ok j, of s] new by (auto simp: events [OF j] split: if_splits)
    qed
    fix s
    note told = handlers_okD(6) [OF ok j, of s]
    show "told_owner s (hs1 ! j) = owner_by (opener(sid \<mapsto> i)) s hs1"
    proof (cases "s = sid")
      case True
      then show ?thesis using own_events [OF ok i, of sid "Some i"] new i
        by (simp add: told_owner_def owner_by_def owners [OF j] events [OF j] has)
    next
      case False
      then show ?thesis using told handlers_okD(7) [OF ok i, of s]
        by (auto simp: told_owner_def owner_by_def owners [OF j] events [OF j] has split: option.splits)
    qed
  qed (use len i handlers_okD(7) [OF ok i] in \<open>auto simp: hs1_def split: if_splits\<close>)
  moreover have "snd (open_session i sid hs) = hs1" using noq by (simp add: open_session_def hs1_def)
  ultimately show ?thesis by simp
qed

lemma end_session_ok:
  assumes ok: "handlers_ok n opener hs" and i: "i < n"
  shows "handlers_ok n opener (snd (end_session i sid hs))"
proof (cases "has_session sid (hs ! i)")
  case False
  then show ?thesis using ok by (simp add: end_session_def has_session_def)
next
  case True
  have len: "length hs = n" using ok by (simp add: handlers_ok_def)
  have mine: "dget (hd_owners (hs ! i)) sid = Some i" using handlers_okD(2) [OF ok i] True by simp
  then have opened: "opener sid = Some i" using handlers_okD(3) [OF ok i] by blast
  define hs1 where "hs1 = tell_others i (End_session sid) (change_handler i (\<lambda>h. h\<lparr>hd_owners := ddel sid (hd_owners h)\<rparr>)
    (change_handler i (\<lambda>h. h\<lparr>hd_queues := ddel sid (hd_queues h)\<rparr>) hs))"
  have owners: "dget (hd_owners (hs1 ! j)) = (if j = i then (dget (hd_owners (hs ! i)))(sid := None) else dget (hd_owners (hs ! j)))"
    and events: "hd_events (hs1 ! j) = (if j = i then hd_events (hs ! i) else hd_events (hs ! j) @ [End_session sid])"
    and has: "has_session s (hs1 ! j) \<longleftrightarrow> \<not> (s = sid \<and> j = i) \<and> has_session s (hs ! j)" if "j < n" for j s
    using that len by (auto simp: hs1_def has_session_def dict_simps)
  have "handlers_ok n opener hs1"
  proof (rule handlers_okI)
    fix j assume j: "j < n"
    show "handler_ok j opener (hs1 ! j)"
    proof (rule handler_okI)
      fix s show "has_session s (hs1 ! j) \<longleftrightarrow> dget (hd_owners (hs1 ! j)) s = Some j"
        using handlers_okD(2) [OF ok j, of s] by (auto simp: has [OF j] owners [OF j])
    next
      fix s k assume "dget (hd_owners (hs1 ! j)) s = Some k"
      then show "opener s = Some k"
        using handlers_okD(3) [OF ok j, of s k] by (auto simp: owners [OF j] split: if_splits)
    next
      fix s k assume "New_session s k \<in> set (hd_events (hs1 ! j))"
      then show "opener s = Some k \<and> k \<noteq> j"
        using handlers_okD(4) [OF ok j, of s k] by (auto simp: events [OF j] split: if_splits)
    next
      fix s assume "End_session s \<in> set (hd_events (hs1 ! j))"
      then show "\<exists>k. opener s = Some k \<and> k \<noteq> j"
        using handlers_okD(5) [OF ok j, of s] opened by (auto simp: events [OF j] split: if_splits)
    qed
    fix s
    note told = handlers_okD(6) [OF ok j, of s]
    show "told_owner s (hs1 ! j) = owner_by opener s hs1"
    proof (cases "s = sid")
      case True
      then show ?thesis using own_events [OF ok i, of sid None] opened i
        by (simp add: told_owner_def owner_by_def owners [OF j] events [OF j] has)
    next
      case False
      then show ?thesis using told handlers_okD(7) [OF ok i, of s]
        by (auto simp: told_owner_def owner_by_def owners [OF j] events [OF j] has split: option.splits)
    qed
  qed (use len handlers_okD(7) [OF ok i] in \<open>auto simp: hs1_def\<close>)
  moreover have "snd (end_session i sid hs) = hs1"
    using True mine by (auto simp: end_session_def has_session_def hs1_def)
  ultimately show ?thesis by simp
qed

text \<open>A change that leaves the tables and sessions of the others as they are, and what is told as it is.\<close>

lemma handlers_ok_quiet:
  assumes ok: "handlers_ok n opener hs" and "length hs1 = n"
    and has: "\<And>j s. j < n \<Longrightarrow> has_session s (hs1 ! j) = has_session s (hs ! j)"
    and good: "\<And>j. j < n \<Longrightarrow> handler_ok j opener (hs ! j) \<Longrightarrow> handler_ok j opener (hs1 ! j)"
    and told: "\<And>j s. j < n \<Longrightarrow> told_owner s (hs1 ! j) = told_owner s (hs ! j)"
  shows "handlers_ok n opener hs1"
proof -
  have "owner_by opener s hs1 = owner_by opener s hs" if "i < n" for s i
    using handlers_okD(7) [OF ok that, of s] has by (auto simp: owner_by_def split: option.splits)
  then show ?thesis using assms by (simp add: handlers_ok_def)
qed

lemma append_request_told [simp]: "told_owner s (append_request sid q h) = told_owner s h"
  "told_owner s (h\<lparr>hd_queues := qs\<rparr>) = told_owner s h"
  "told_owner s (h\<lparr>hd_events := hd_events h @ [Push sid q]\<rparr>) = told_owner s h"
  by (simp_all add: told_owner_def)

lemma handler_ok_push [simp]:
  "handler_ok i opener (append_request sid q h) = handler_ok i opener h"
  "handler_ok i opener (h\<lparr>hd_events := hd_events h @ [Push sid q]\<rparr>) = handler_ok i opener h"
  by (simp_all add: handler_ok_def)

lemma put_request_ok:
  assumes "handlers_ok n opener hs"
  shows "handlers_ok n opener (snd (put_request i sid q hs))"
proof (rule handlers_ok_quiet [OF assms])
  have len: "length hs = n" using assms by (simp add: handlers_ok_def)
  then show "length (snd (put_request i sid q hs)) = n" by (auto simp: put_request_def split: option.splits)
  fix j assume j: "j < n"
  show "has_session s (snd (put_request i sid q hs) ! j) = has_session s (hs ! j)"
    "told_owner s (snd (put_request i sid q hs) ! j) = told_owner s (hs ! j)" for s
    using j len by (auto simp: put_request_def split: option.splits)
  show "handler_ok j opener (snd (put_request i sid q hs) ! j)" if "handler_ok j opener (hs ! j)"
    using that j len by (auto simp: put_request_def split: option.splits)
qed

lemma take_request_ok:
  assumes "handlers_ok n opener hs"
  shows "handlers_ok n opener (snd (take_request i sid hs))"
proof (rule handlers_ok_quiet [OF assms])
  have len: "length hs = n" using assms by (simp add: handlers_ok_def)
  then show "length (snd (take_request i sid hs)) = n" by (auto simp: take_request_def split: option.splits list.splits)
  fix j assume j: "j < n"
  show has: "has_session s (snd (take_request i sid hs) ! j) = has_session s (hs ! j)"
    and "told_owner s (snd (take_request i sid hs) ! j) = told_owner s (hs ! j)" for s
    using j len by (auto simp: take_request_def has_session_def dict_simps split: option.splits list.splits if_splits)
  show "handler_ok j opener (snd (take_request i sid hs) ! j)" if "handler_ok j opener (hs ! j)"
    using that j len has by (auto simp: handler_ok_def take_request_def split: option.splits list.splits)
qed

lemma apply_event_has [simp]: "has_session s (apply_event e h) = has_session s h"
  by (cases e) (simp_all add: apply_event_def)

lemma apply_event_told [simp]: "told_owner s (apply_event e (h\<lparr>hd_events := es\<rparr>)) = told_owner s (h\<lparr>hd_events := e # es\<rparr>)"
  by (cases e) (simp_all add: apply_event_def told_owner_def dict_simps)

lemma handler_ok_listen:
  assumes ok: "handler_ok i opener h" and ev: "hd_events h = e # es"
  shows "handler_ok i opener (apply_event e (h\<lparr>hd_events := es\<rparr>))"
proof (rule handler_okI)
  fix s
  have New: "opener s = Some j \<and> j \<noteq> i" if "e = New_session s j" for j using ok ev that by (simp add: handler_ok_def)
  have End: "opener s \<noteq> Some i" if "e = End_session s" using ok ev that by (auto simp: handler_ok_def)
  have mine: "has_session s h \<longleftrightarrow> dget (hd_owners h) s = Some i" and
    opened: "dget (hd_owners h) s = Some j \<Longrightarrow> opener s = Some j" for j using ok by (auto simp: handler_ok_def)
  show "has_session s (apply_event e (h\<lparr>hd_events := es\<rparr>)) \<longleftrightarrow>
      dget (hd_owners (apply_event e (h\<lparr>hd_events := es\<rparr>))) s = Some i"
    using New End mine opened [of i] by (cases e) (auto simp: apply_event_def dict_simps)
  show "opener s = Some j" if "dget (hd_owners (apply_event e (h\<lparr>hd_events := es\<rparr>))) s = Some j" for j
    using that New opened by (cases e) (auto simp: apply_event_def dict_simps split: if_splits)
  have same: "hd_events (apply_event e (h\<lparr>hd_events := es\<rparr>)) = es" by (cases e) (simp_all add: apply_event_def)
  show "opener s = Some j \<and> j \<noteq> i" if "New_session s j \<in> set (hd_events (apply_event e (h\<lparr>hd_events := es\<rparr>)))" for j
    using ok ev that by (simp add: handler_ok_def same)
  show "\<exists>j. opener s = Some j \<and> j \<noteq> i" if "End_session s \<in> set (hd_events (apply_event e (h\<lparr>hd_events := es\<rparr>)))"
    using ok ev that by (simp add: handler_ok_def same)
qed

lemma listen_ok:
  assumes "handlers_ok n opener hs"
  shows "handlers_ok n opener (listen i hs)"
proof (cases "hd_events (hs ! i)")
  case Nil
  then show ?thesis using assms by (simp add: listen_def)
next
  case (Cons e es)
  have len: "length hs = n" using assms by (simp add: handlers_ok_def)
  have same: "told_owner s ((hs ! i)\<lparr>hd_events := e # es\<rparr>) = told_owner s (hs ! i)" for s
    using Cons by (simp add: told_owner_def)
  show ?thesis
    using Cons len handler_ok_listen [OF _ Cons]
    by (intro handlers_ok_quiet [OF assms]) (auto simp: listen_def same)
qed

section \<open>Runs\<close>

fun opened :: "'q handler_op \<Rightarrow> string list" where
  "opened (Open i sid) = [sid]"
| "opened (Close i sid) = []"
| "opened (Put i sid q) = []"
| "opened (Take i sid) = []"
| "opened (Listen i) = []"

text \<open>A run of \<open>n\<close> handlers in which no two sessions have the same id.\<close>

definition handler_ops_ok :: "nat \<Rightarrow> 'q handler_op list \<Rightarrow> bool" where
  "handler_ops_ok n xs \<longleftrightarrow> list_all (\<lambda>x. handler_of x < n) xs \<and> distinct (concat (map opened xs))"

lemma handler_step_ok:
  assumes "handlers_ok n opener hs" and "handler_of x < n" and "\<forall>sid \<in> set (opened x). opener sid = None"
  shows "\<exists>opener1. handlers_ok n opener1 (handler_step x hs) \<and> dom opener1 = dom opener \<union> set (opened x)"
proof (cases x)
  case (Open i sid)
  then show ?thesis using open_session_ok [OF assms(1), of i sid] assms(2,3)
    by (intro exI [of _ "opener(sid \<mapsto> i)"]) auto
qed (use assms end_session_ok put_request_ok take_request_ok listen_ok in \<open>auto intro!: exI [of _ opener]\<close>)

lemma handler_run_ok:
  assumes "handlers_ok n opener hs" and "handler_ops_ok n xs" and "\<forall>sid \<in> set (concat (map opened xs)). opener sid = None"
  shows "\<exists>opener1. handlers_ok n opener1 (handler_run xs hs)"
  using assms
proof (induction xs arbitrary: opener hs)
  case Nil
  then show ?case by (auto simp: handler_run_def)
next
  case (Cons x xs)
  obtain opener1 where step: "handlers_ok n opener1 (handler_step x hs)" "dom opener1 = dom opener \<union> set (opened x)"
    using handler_step_ok [OF Cons.prems(1), of x] Cons.prems(2,3) by (auto simp: handler_ops_ok_def)
  have "\<forall>sid \<in> set (concat (map opened xs)). opener1 sid = None"
  proof
    fix sid assume "sid \<in> set (concat (map opened xs))"
    then have "sid \<notin> dom opener1" using Cons.prems(2,3) step(2) by (auto simp: handler_ops_ok_def)
    then show "opener1 sid = None" by auto
  qed
  then show ?case using Cons.IH [OF step(1)] Cons.prems(2) by (simp add: handler_run_def handler_ops_ok_def)
qed

lemma owner_by_session_owner:
  assumes ok: "handlers_ok n opener hs"
  shows "owner_by opener sid hs = session_owner sid hs"
proof -
  have len: "length hs = n" using ok by (simp add: handlers_ok_def)
  have at: "opener sid = Some j" if "j < n" "has_session sid (hs ! j)" for j
    using that handlers_okD(2,3) [OF ok that(1), of sid] by simp
  show ?thesis
  proof (cases "session_owner sid hs")
    case None
    then have "\<not> has_session sid (hs ! j)" if "j < n" for j
      using that len by (simp add: session_owner_def find_None_iff)
    moreover have "k < n" if "opener sid = Some k" for k using ok that by (simp add: handlers_ok_def)
    ultimately show ?thesis using None by (simp add: owner_by_def split: option.splits)
  next
    case (Some j)
    then have "j < n" "has_session sid (hs ! j)" using len by (auto simp: session_owner_def find_Some_iff)
    then show ?thesis using Some at by (simp add: owner_by_def)
  qed
qed

lemma handler_run_told:
  assumes "handler_ops_ok n xs" and "i < n" and "hs = handler_run xs (handlers_init n)"
  shows "told_owner sid (hs ! i) = session_owner sid hs"
proof -
  obtain opener where ok: "handlers_ok n opener hs"
    using handler_run_ok [OF handlers_ok_init assms(1)] assms(3) by auto
  show ?thesis using handlers_okD(6) [OF ok assms(2)] owner_by_session_owner [OF ok] by simp
qed

text \<open>C35. However the handlers of a server come to open and end sessions, put and take requests and read their
  events: with the events it has yet to read, each handler's table says who owns a session exactly as the
  queues do, for every session id. So a handler that has read its events knows the
  owner of every open session and has no entry for one that ended. Session ids are not used twice.\<close>

theorem handlers_agree:
  assumes "handler_ops_ok n xs" and "i < n" and "hs = handler_run xs (handlers_init n)"
  shows "told (hd_events (hs ! i)) sid (dget (hd_owners (hs ! i)) sid) = session_owner sid hs"
  using handler_run_told [OF assms, of sid] by (simp add: told_owner_def)

section \<open>Pushes\<close>

text \<open>Reading all events that a handler has now.\<close>

definition read_events :: "nat \<Rightarrow> 'q handler list \<Rightarrow> 'q handler list" where
  "read_events j hs = (listen j ^^ length (hd_events (hs ! j))) hs"

fun pushes :: "string \<Rightarrow> 'q event list \<Rightarrow> 'q list" where
  "pushes sid [] = []"
| "pushes sid (Push sid' q # es) = (if sid' = sid then q # pushes sid es else pushes sid es)"
| "pushes sid (New_session sid' j # es) = pushes sid es"
| "pushes sid (End_session sid' # es) = pushes sid es"

lemma pushes_append [simp]: "pushes sid (xs @ ys) = pushes sid xs @ pushes sid ys"
  by (induction sid xs rule: pushes.induct) simp_all

lemma apply_event_queues:
  "dget (hd_queues (apply_event e h)) sid = map_option (\<lambda>qs. qs @ pushes sid [e]) (dget (hd_queues h) sid)"
  by (cases e) (auto simp: apply_event_def append_request_def dict_simps map_option_case split: option.splits)

lemma listen_queues:
  assumes "j < length hs" and "hd_events (hs ! j) = e # es" and "k < length hs"
  shows "hd_events (listen j hs ! j) = es" and "length (listen j hs) = length hs"
    and "dget (hd_queues (listen j hs ! k)) sid =
      (if k = j then map_option (\<lambda>qs. qs @ pushes sid [e]) (dget (hd_queues (hs ! j)) sid) else dget (hd_queues (hs ! k)) sid)"
  using assms by (auto simp: listen_def apply_event_queues) (simp add: apply_event_def split: event.splits)

lemma read_events_queues:
  assumes "j < length hs" and "k < length hs"
  shows "dget (hd_queues (read_events j hs ! k)) sid =
    (if k = j then map_option (\<lambda>qs. qs @ pushes sid (hd_events (hs ! j))) (dget (hd_queues (hs ! j)) sid)
     else dget (hd_queues (hs ! k)) sid)"
  using assms
proof (induction "hd_events (hs ! j)" arbitrary: hs)
  case Nil
  then show ?case by (simp add: read_events_def option.map_ident flip: Nil.hyps)
next
  case (Cons e es)
  have l: "hd_events (hs ! j) = e # es" using Cons.hyps(2) by simp
  note step = listen_queues [OF Cons.prems(1) l Cons.prems(2)]
  have "read_events j hs = read_events j (listen j hs)"
    using step(1) by (simp add: read_events_def l funpow_swap1)
  moreover have "pushes sid (hd_events (hs ! j)) = pushes sid [e] @ pushes sid es" by (metis append_Cons append_Nil l pushes_append)
  ultimately show ?case
    using Cons.hyps(1) [of "listen j hs"] step Cons.prems
      listen_queues(3) [OF Cons.prems(1) l Cons.prems(1)]
    by (simp add: option.map_comp comp_def)
qed

text \<open>C36. Whichever handler a push comes to, if it has read its events, the push is put into the queue of the
  session's owner once the owner has read its own events, behind the requests that were pushed by then, and into no
  other queue.\<close>

theorem push_reaches_owner:
  assumes "handler_ops_ok n xs" and "i < n" and "hs = handler_run xs (handlers_init n)"
    and "hd_events (hs ! i) = []" and "session_owner sid hs = Some j" and "k < n"
  shows "fst (put_request i sid q hs) = Inr () \<and>
    dget (hd_queues (read_events j (snd (put_request i sid q hs)) ! k)) s =
      (if k = j \<and> s = sid then map_option (\<lambda>qs. qs @ [q]) (dget (hd_queues (read_events j hs ! j)) sid)
       else dget (hd_queues (read_events j hs ! k)) s)"
proof -
  obtain opener where ok: "handlers_ok n opener hs"
    using handler_run_ok [OF handlers_ok_init assms(1)] assms(3) by auto
  have len: "length hs = n" using ok by (simp add: handlers_ok_def)
  have j: "j < n" "has_session sid (hs ! j)" using assms(5) len by (auto simp: session_owner_def find_Some_iff)
  have own: "dget (hd_owners (hs ! i)) sid = Some j"
    using handler_run_told [OF assms(1-3), of sid] assms(4,5) by (simp add: told_owner_def)
  have put: "put_request i sid q hs = (Inr (), if j = i then change_handler i (append_request sid q) hs
      else change_handler j (\<lambda>h. h\<lparr>hd_events := hd_events h @ [Push sid q]\<rparr>) hs)"
    using own j(2) by (auto simp: put_request_def has_session_def)
  show ?thesis
    using j len assms(4,6)
    by (auto simp: put read_events_queues append_request_def has_session_def dict_simps option.map_comp comp_def
          split: option.splits)
qed

section \<open>Concrete runs\<close>

definition run_ops :: "int handler_op list" where
  "run_ops = [Open 0 ''s'', Open 2 ''t'', Listen 1, Put 1 ''s'' 7, Listen 1, Listen 0, Put 2 ''s'' 8, Close 2 ''t'', Listen 1]"

definition run_handlers :: "int handler list" where
  "run_handlers = handler_run run_ops (handlers_init 3)"

lemma run_ops_ok: "handler_ops_ok 3 run_ops"
  by code_simp

lemma run_handlers_value:
  "run_handlers = [\<lparr>hd_queues = [(''s'', [])], hd_owners = [(''s'', 0), (''t'', 2)], hd_events = [Push ''s'' 7, End_session ''t'']\<rparr>,
     \<lparr>hd_queues = [], hd_owners = [(''s'', 0)], hd_events = []\<rparr>,
     \<lparr>hd_queues = [], hd_owners = [], hd_events = [New_session ''s'' 0]\<rparr>]"
  by code_simp

lemma handlers_agree_witness:
  "session_owner ''t'' run_handlers = None \<and> dget (hd_owners (run_handlers ! 0)) ''t'' = Some 2 \<and>
    told (hd_events (run_handlers ! 0)) ''t'' (dget (hd_owners (run_handlers ! 0)) ''t'') = session_owner ''t'' run_handlers"
proof -
  have "session_owner ''t'' run_handlers = None \<and> dget (hd_owners (run_handlers ! 0)) ''t'' = Some 2" by code_simp
  then show ?thesis using handlers_agree [OF run_ops_ok _ run_handlers_def, of 0 "''t''"] by simp
qed

lemma push_reaches_owner_witness:
  "dget (hd_queues (read_events 0 (snd (put_request 1 ''s'' 9 run_handlers)) ! 0)) ''s'' = Some [7, 9]"
proof -
  have "hd_events (run_handlers ! 1) = []" "session_owner ''s'' run_handlers = Some 0"
    "dget (hd_queues (read_events 0 run_handlers ! 0)) ''s'' = Some [7]" by code_simp+
  then show ?thesis using push_reaches_owner [OF run_ops_ok _ run_handlers_def, of 1 "''s''" 0 0 9 "''s''"] by simp
qed

text \<open>The id of a session is only required to be new at the handler where it begins: a session with the id of another
  one takes its entry at the other handler, and the first can no longer take its requests.\<close>

lemma same_id_takes_over:
  "let hs = handler_run [Open 0 ''s'', Open 1 ''s'', Listen 0] (handlers_init 2 :: int handler list)
   in has_session ''s'' (hs ! 0) \<and> has_session ''s'' (hs ! 1) \<and> fst (take_request 0 ''s'' hs) = Inl AssertionError"
  by code_simp

end
