(* ===== verification/PetalsAutograd.thy ===== *)
theory PetalsAutograd
  imports PetalsTrainingServing PetalsTrainingExamples
begin

text \<open>
  \<open>_RemoteSequentialAutogradFunction\<close> of petals/client/sequential\_autograd.py: a batch is cut into smaller
  ones, which go through the swarm as parallel passes, and the results are put together. Every pass sees the
  world in its own state, \<open>ws i\<close> for pass \<open>i\<close>. When several passes raise, the error of the first is taken.
\<close>

section \<open>Cutting and joining\<close>

text \<open>\<open>torch.split\<close>: at least one piece.\<close>

function split_rows :: "nat \<Rightarrow> 'a list \<Rightarrow> 'a list list" where
  "split_rows n xs = (if n = 0 \<or> length xs \<le> n then [xs] else take n xs # split_rows n (drop n xs))"
  by auto
termination by (relation "measure (\<lambda>(n, xs). length xs)") auto

declare split_rows.simps [simp del]

definition prompt_batches :: "nat \<Rightarrow> nat \<Rightarrow> 'h list list list option \<Rightarrow> 'h list list list option list" where
  "prompt_batches n k prompts =
     (case prompts of
        None \<Rightarrow> replicate k None
      | Some ps \<Rightarrow>
          if list_all is_dummy ps then replicate k None
          else map (\<lambda>i. Some (map (\<lambda>p. split_rows n p ! i) ps)) [0..<length (split_rows n (hd ps))])"

text \<open>\<open>torch.cat(..., dim=1)\<close> on lists of prompt gradients, block by block.\<close>

fun cat_prompts :: "'h list list list list \<Rightarrow> 'h list list list result" where
  "cat_prompts [] = Inl RuntimeError"
| "cat_prompts [g] = Inr g"
| "cat_prompts (g # h # gs) = rbind (cat_prompts (h # gs)) (\<lambda>r.
     if length r \<noteq> length g then Inl RuntimeError else Inr (map2 (@) g r))"

text \<open>\<open>asyncio.gather\<close>: all results, or an exception; \<open>None\<close> while a pass does not end.\<close>

fun gather :: "'r result option list \<Rightarrow> 'r list result option" where
  "gather [] = Some (Inr [])"
| "gather (r # rs) =
     (case (r, gather rs) of
        (Some (Inl e), _) \<Rightarrow> Some (Inl e)
      | (_, Some (Inl e)) \<Rightarrow> Some (Inl e)
      | (Some (Inr x), Some (Inr xs)) \<Rightarrow> Some (Inr (x # xs))
      | _ \<Rightarrow> None)"

section \<open>The function\<close>

record ('p, 'a, 'h) autograd_ctx =
  cx_prompts :: "'h list list list option list"
  cx_inters :: "'h list list list list"
  cx_spans :: "('p, 'a) span_info list list"

definition max_tokens_in_batch :: nat where
  "max_tokens_in_batch = 1024"

text \<open>\<open>m\<close> is \<open>max_tokens_in_batch\<close> in the code, \<open>tokens\<close> the second dimension of the tensor.\<close>

definition gather_forward ::
  "('w, 'p, 'a, 'h) train_net \<Rightarrow> 'h list list list \<Rightarrow> 'h list list list option list \<Rightarrow> (nat \<Rightarrow> 'w)
     \<Rightarrow> ('h list list \<times> ('p, 'a, 'h) stacks) list result option" where
  "gather_forward N xs ps ws =
     gather (map (\<lambda>(i, x, p). map_option fst (sequential_forward N p 0 (int (length (tn_uids N))) x (ws i)))
       (enumerate 0 (zip xs ps)))"

definition autograd_forward ::
  "('w, 'p, 'a, 'h) train_net \<Rightarrow> nat \<Rightarrow> nat \<Rightarrow> 'h list list list option \<Rightarrow> 'h list list \<Rightarrow> (nat \<Rightarrow> 'w)
     \<Rightarrow> ('h list list \<times> ('p, 'a, 'h) autograd_ctx) result option" where
  "autograd_forward N m tokens prompts rows ws =
     (if tokens = 0 then Some (Inl ZeroDivisionError)
      else let n = max (m div tokens) 1; xs = split_rows n rows; ps = prompt_batches n (length xs) prompts
      in case gather_forward N xs ps ws of
           None \<Rightarrow> None
         | Some (Inl e) \<Rightarrow> Some (Inl e)
         | Some (Inr outs) \<Rightarrow>
             if length outs \<noteq> length xs then Some (Inl AssertionError)
             else Some (Inr (concat (map fst outs),
               \<lparr>cx_prompts = ps, cx_inters = map (fst \<circ> snd) outs, cx_spans = map (snd \<circ> snd) outs\<rparr>)))"

definition gather_backward ::
  "('w, 'p, 'a, 'h) train_net \<Rightarrow> 'h list list list \<Rightarrow> ('p, 'a, 'h) autograd_ctx \<Rightarrow> (nat \<Rightarrow> 'w)
     \<Rightarrow> ('h list list \<times> 'h list list list) list result option" where
  "gather_backward N gs cx ws =
     gather (map (\<lambda>(i, g, inters, p, spans). map_option fst (sequential_backward N p inters spans g (ws i)))
       (enumerate 0 (zip gs (zip (cx_inters cx) (zip (cx_prompts cx) (cx_spans cx))))))"

definition autograd_backward ::
  "('w, 'p, 'a, 'h) train_net \<Rightarrow> nat \<Rightarrow> nat \<Rightarrow> ('p, 'a, 'h) autograd_ctx \<Rightarrow> 'h list list \<Rightarrow> (nat \<Rightarrow> 'w)
     \<Rightarrow> ('h list list \<times> 'h list list list option) result option" where
  "autograd_backward N m tokens cx grads ws =
     (if tokens = 0 then Some (Inl ZeroDivisionError)
      else let gs = split_rows (max (m div tokens) 1) grads
      in if length (cx_inters cx) \<noteq> length gs \<or> length gs \<noteq> length (cx_spans cx) then Some (Inl AssertionError)
      else case gather_backward N gs cx ws of
        None \<Rightarrow> None
      | Some (Inl e) \<Rightarrow> Some (Inl e)
      | Some (Inr outs) \<Rightarrow>
          Some (if list_ex (\<lambda>out. snd out = []) outs then Inr (concat (map fst outs), None)
                else rbind (cat_prompts (map snd outs)) (\<lambda>gp. Inr (concat (map fst outs), Some gp))))"

lemma gather_Inr: "gather rs = Some (Inr xs) \<Longrightarrow> rs = map (Some \<circ> Inr) xs"
  by (induction rs arbitrary: xs) (auto split: option.splits sum.splits)

section \<open>Blocks work row by row\<close>

definition row_wise :: "'h trainer \<Rightarrow> bool" where
  "row_wise T \<longleftrightarrow> keeps_shape T
     \<and> (\<forall>u xs ys. tr_forward T u (xs @ ys) = tr_forward T u xs @ tr_forward T u ys)
     \<and> (\<forall>u xs gs. length xs = length gs \<longrightarrow> length (tr_backward T u xs gs) = length gs)
     \<and> (\<forall>u xs ys gs hs. length xs = length gs \<longrightarrow>
          tr_backward T u (xs @ ys) (gs @ hs) = tr_backward T u xs gs @ tr_backward T u ys hs)"

text \<open>Inputs of \<open>t\<close> tokens in every row, and a prompt of \<open>k\<close> tokens for each of them.\<close>

definition prompt_for :: "nat \<Rightarrow> nat \<Rightarrow> 'h list list \<Rightarrow> 'h list list option \<Rightarrow> bool" where
  "prompt_for t k rows P \<longleftrightarrow> rows \<noteq> [] \<and> (\<forall>r \<in> set rows. length r = t) \<and>
     (\<forall>ps. P = Some ps \<longrightarrow> length ps = length rows \<and> (\<forall>p \<in> set ps. length p = k))"

definition join_prompt :: "'h list list option \<Rightarrow> 'h list list option \<Rightarrow> 'h list list option" where
  "join_prompt P Q = (case (P, Q) of (Some p, Some q) \<Rightarrow> Some (p @ q) | _ \<Rightarrow> None)"

definition joinable :: "'h list list option \<Rightarrow> 'h list list option \<Rightarrow> bool" where
  "joinable P Q \<longleftrightarrow> (P = None \<longleftrightarrow> Q = None)"

lemma row_length_uniform: "rows \<noteq> [] \<Longrightarrow> \<forall>r \<in> set rows. length r = t \<Longrightarrow> row_length rows = t"
  by (cases rows) (simp_all add: row_length_def)

lemma block_input_for:
  assumes "prompt_for t k rows P" and "k \<le> t"
  shows "block_input T P rows = (case P of None \<Rightarrow> rows
    | Some ps \<Rightarrow> map2 (\<lambda>r p. map2 (tr_plus T) (take k r) p @ drop k r) rows ps)"
proof (cases P)
  case (Some ps)
  have l: "length ps = length rows" "rows \<noteq> []" "\<forall>p \<in> set ps. length p = k" "row_length rows = t"
    using assms row_length_uniform [of rows t] by (auto simp: prompt_for_def Some)
  have "row_length ps = k" using l(1-3) by (intro row_length_uniform) auto
  moreover have "(if length ps = 1 then replicate (length rows) (hd ps) else ps) = ps"
    using l(1) by (cases ps) auto
  ultimately show ?thesis using l assms(2) by (simp add: block_input_def add_prompts_def Some Let_def)
qed (simp add: block_input_def add_prompts_def)

lemma prompt_for_join:
  "prompt_for t k x P \<Longrightarrow> prompt_for t k y Q \<Longrightarrow> joinable P Q \<Longrightarrow> prompt_for t k (x @ y) (join_prompt P Q)"
  by (cases P; cases Q) (auto simp: prompt_for_def join_prompt_def joinable_def)

lemma block_input_join:
  assumes "prompt_for t k x P" and "prompt_for t k y Q" and "joinable P Q" and "k \<le> t"
  shows "block_input T (join_prompt P Q) (x @ y) = block_input T P x @ block_input T Q y"
proof (cases P)
  case None
  then show ?thesis using assms(3) by (simp add: joinable_def join_prompt_def block_input_def add_prompts_def)
next
  case (Some p)
  then obtain q where q: "Q = Some q" using assms(3) by (auto simp: joinable_def)
  let ?f = "\<lambda>r p. map2 (tr_plus T) (take k r) p @ drop k r"
  have "length p = length x" using assms(1) Some by (simp add: prompt_for_def)
  then have z: "map2 ?f (x @ y) (p @ q) = map2 ?f x p @ map2 ?f y q" by simp
  have "prompt_for t k (x @ y) (Some (p @ q))" using prompt_for_join [OF assms(1-3)] by (simp add: Some q join_prompt_def)
  from block_input_for [OF this assms(4), of T] have "block_input T (Some (p @ q)) (x @ y) = map2 ?f (x @ y) (p @ q)"
    by (simp only: option.case)
  moreover have "block_input T (Some p) x = map2 ?f x p" "block_input T (Some q) y = map2 ?f y q"
    using block_input_for [OF assms(1,4), of T] block_input_for [OF assms(2,4), of T] by (simp_all only: Some q option.case)
  ultimately show ?thesis using z by (simp only: Some q join_prompt_def option.case prod.case)
qed

lemma block_input_shape:
  assumes "prompt_for t k x P" and "k \<le> t"
  shows "map length (block_input T P x) = map length x"
proof (cases P)
  case (Some ps)
  have l: "length ps = length x" "\<forall>p \<in> set ps. length p = k" "\<forall>r \<in> set x. length r = t"
    using assms(1) by (auto simp: prompt_for_def Some)
  have "block_input T P x = map2 (\<lambda>r p. map2 (tr_plus T) (take k r) p @ drop k r) x ps"
    using block_input_for [OF assms, of T] by (simp add: Some)
  then show ?thesis by (intro nth_equalityI) (use l assms(2) in auto)
qed (simp add: block_input_def add_prompts_def)

lemma prompt_for_shape:
  assumes "map length y = map length x"
  shows "prompt_for t k y P = prompt_for t k x P"
proof -
  have "(\<forall>r \<in> set z. length r = t) \<longleftrightarrow> set (map length z) \<subseteq> {t}" for z :: "'a list list" by auto
  moreover have "length y = length x" using assms by (rule map_eq_imp_length_eq)
  moreover have "y = [] \<longleftrightarrow> x = []" using assms by (metis list.map_disc_iff)
  ultimately show ?thesis by (simp only: prompt_for_def assms)
qed

text \<open>A list of blocks with the prompts for two pieces of a batch.\<close>

type_synonym 'h two_prompts = "(string \<times> 'h list list option \<times> 'h list list option) list"

definition left_prompts :: "'h two_prompts \<Rightarrow> (string \<times> 'h list list option) list" where
  "left_prompts bs = map (\<lambda>(u, P, Q). (u, P)) bs"

definition right_prompts :: "'h two_prompts \<Rightarrow> (string \<times> 'h list list option) list" where
  "right_prompts bs = map (\<lambda>(u, P, Q). (u, Q)) bs"

definition both_prompts :: "'h two_prompts \<Rightarrow> (string \<times> 'h list list option) list" where
  "both_prompts bs = map (\<lambda>(u, P, Q). (u, join_prompt P Q)) bs"

definition prompts_for :: "nat \<Rightarrow> nat \<Rightarrow> 'h list list \<Rightarrow> 'h list list \<Rightarrow> 'h two_prompts \<Rightarrow> bool" where
  "prompts_for t k x y bs \<longleftrightarrow> (\<forall>(u, P, Q) \<in> set bs. prompt_for t k x P \<and> prompt_for t k y Q \<and> joinable P Q)"

lemma whole_forward_join:
  assumes T: "row_wise T" and k: "k \<le> t" and "prompts_for t k x y bs"
  shows "whole_forward T (both_prompts bs) (x @ y) = whole_forward T (left_prompts bs) x @ whole_forward T (right_prompts bs) y"
  using assms(3)
proof (induction bs arbitrary: x y)
  case Nil
  then show ?case by (simp add: both_prompts_def left_prompts_def right_prompts_def)
next
  case (Cons b bs)
  obtain u P Q where b: "b = (u, P, Q)" by (metis surj_pair)
  have f: "prompt_for t k x P" "prompt_for t k y Q" "joinable P Q" "prompts_for t k x y bs"
    using Cons.prems by (auto simp: b prompts_for_def)
  let ?x = "tr_forward T u (block_input T P x)" and ?y = "tr_forward T u (block_input T Q y)"
  have l: "map length ?x = map length x" "map length ?y = map length y"
    using T block_input_shape [OF f(1) k] block_input_shape [OF f(2) k] by (auto simp: row_wise_def keeps_shape_def)
  have "prompts_for t k ?x ?y bs"
    using f(4) by (simp only: prompts_for_def prompt_for_shape [OF l(1)] prompt_for_shape [OF l(2)])
  from Cons.IH [OF this] show ?case
    using T block_input_join [OF f(1-3) k] by (simp add: b both_prompts_def left_prompts_def right_prompts_def row_wise_def)
qed

lemma prompt_grad_join:
  assumes "prompt_for t k x P" and "prompt_for t k y Q" and "joinable P Q"
  shows "prompt_grad (join_prompt P Q) (g @ h) = map2 (@) (prompt_grad P g) (prompt_grad Q h)"
    and "length (prompt_grad P g) = length (prompt_grad Q h)"
proof -
  have r: "row_length p = k \<and> row_length q = k \<and> row_length (p @ q) = k" if "P = Some p" "Q = Some q" for p q
    using assms that by (auto simp: prompt_for_def intro!: row_length_uniform)
  show "prompt_grad (join_prompt P Q) (g @ h) = map2 (@) (prompt_grad P g) (prompt_grad Q h)"
    using assms(3) r by (cases P; cases Q) (simp_all add: prompt_grad_def join_prompt_def joinable_def)
  show "length (prompt_grad P g) = length (prompt_grad Q h)"
    using assms(3) by (cases P; cases Q) (simp_all add: prompt_grad_def joinable_def)
qed

lemma whole_backward_Cons:
  "whole_backward T ((u, p) # bs) rows g =
    (let x = block_input T p rows; r = whole_backward T bs (tr_forward T u x) g; g1 = tr_backward T u x (fst r)
     in (g1, prompt_grad p g1 @ snd r))"
  by (simp add: Let_def split: prod.splits)

lemma whole_backward_join:
  assumes T: "row_wise T" and k: "k \<le> t" and "prompts_for t k x y bs" and gh: "length g = length x" "length h = length y"
  shows "fst (whole_backward T (both_prompts bs) (x @ y) (g @ h)) =
       fst (whole_backward T (left_prompts bs) x g) @ fst (whole_backward T (right_prompts bs) y h)
     \<and> snd (whole_backward T (both_prompts bs) (x @ y) (g @ h)) =
       map2 (@) (snd (whole_backward T (left_prompts bs) x g)) (snd (whole_backward T (right_prompts bs) y h))
     \<and> length (snd (whole_backward T (left_prompts bs) x g)) = length (snd (whole_backward T (right_prompts bs) y h))
     \<and> length (fst (whole_backward T (left_prompts bs) x g)) = length x
     \<and> length (fst (whole_backward T (right_prompts bs) y h)) = length y"
  using assms(3-)
proof (induction bs arbitrary: x y)
  case Nil
  then show ?case by (simp add: both_prompts_def left_prompts_def right_prompts_def)
next
  case (Cons b bs)
  obtain u P Q where b: "b = (u, P, Q)" by (metis surj_pair)
  have f: "prompt_for t k x P" "prompt_for t k y Q" "joinable P Q" "prompts_for t k x y bs"
    using Cons.prems(1) by (auto simp: b prompts_for_def)
  let ?bx = "block_input T P x" and ?by = "block_input T Q y"
  let ?x = "tr_forward T u ?bx" and ?y = "tr_forward T u ?by"
  have lb: "length ?bx = length x" "length ?by = length y"
    using block_input_shape [OF f(1) k, of T] block_input_shape [OF f(2) k, of T] by (auto dest: map_eq_imp_length_eq)
  have l: "map length ?x = map length x" "map length ?y = map length y"
    using T block_input_shape [OF f(1) k] block_input_shape [OF f(2) k] by (auto simp: row_wise_def keeps_shape_def)
  have ll: "length ?x = length x" "length ?y = length y" using l by (auto dest: map_eq_imp_length_eq)
  have "prompts_for t k ?x ?y bs"
    using f(4) by (simp only: prompts_for_def prompt_for_shape [OF l(1)] prompt_for_shape [OF l(2)])
  note ih = Cons.IH [OF this, unfolded ll, OF Cons.prems(2,3)]
  define gx where "gx = whole_backward T (left_prompts bs) ?x g"
  define hy where "hy = whole_backward T (right_prompts bs) ?y h"
  define both where "both = whole_backward T (both_prompts bs) (?x @ ?y) (g @ h)"
  note ih = ih [folded gx_def hy_def both_def]
  let ?G = "tr_backward T u ?bx (fst gx)" and ?H = "tr_backward T u ?by (fst hy)"
  have bw: "length ?G = length x" "length ?H = length y" "tr_backward T u (?bx @ ?by) (fst gx @ fst hy) = ?G @ ?H"
    using T ih lb by (auto simp: row_wise_def)
  have wl: "whole_backward T (left_prompts (b # bs)) x g = (?G, prompt_grad P ?G @ snd gx)"
    by (simp add: b left_prompts_def gx_def whole_backward_Cons Let_def del: whole_backward.simps)
  have wr: "whole_backward T (right_prompts (b # bs)) y h = (?H, prompt_grad Q ?H @ snd hy)"
    by (simp add: b right_prompts_def hy_def whole_backward_Cons Let_def del: whole_backward.simps)
  have "tr_forward T u (?bx @ ?by) = ?x @ ?y" using T by (simp add: row_wise_def)
  then have wb: "whole_backward T (both_prompts (b # bs)) (x @ y) (g @ h) =
      (?G @ ?H, prompt_grad (join_prompt P Q) (?G @ ?H) @ snd both)"
    using block_input_join [OF f(1-3) k, of T] bw(3) ih
    by (simp add: b both_prompts_def both_def whole_backward_Cons Let_def del: whole_backward.simps)
  show ?case unfolding wl wr wb
    using prompt_grad_join [OF f(1-3), of ?G ?H] bw ih by simp
qed

section \<open>The pieces together\<close>

text \<open>The prompts for a batch: every block has one token list per row, all of the same length.\<close>

definition batch_prompts :: "nat \<Rightarrow> nat \<Rightarrow> nat \<Rightarrow> 'h list list list option \<Rightarrow> bool" where
  "batch_prompts blocks rows k P \<longleftrightarrow>
     (\<forall>ps. P = Some ps \<longrightarrow> length ps = blocks \<and> (\<forall>p \<in> set ps. length p = rows \<and> (\<forall>r \<in> set p. length r = k)))"

definition no_prompts :: "'h list list list option \<Rightarrow> bool" where
  "no_prompts P \<longleftrightarrow> (case P of None \<Rightarrow> True | Some ps \<Rightarrow> list_all is_dummy ps)"

lemma no_prompts_None [simp]: "no_prompts None"
  by (simp add: no_prompts_def)

lemma split_rows_short: "length xs \<le> n \<Longrightarrow> split_rows n xs = [xs]"
  by (simp add: split_rows.simps)

lemma split_rows_long: "0 < n \<Longrightarrow> n < length xs \<Longrightarrow> split_rows n xs = take n xs # split_rows n (drop n xs)"
  by (subst split_rows.simps) simp

lemma split_rows_length: "length xs = length ys \<Longrightarrow> length (split_rows n xs) = length (split_rows n ys)"
proof (induction n xs arbitrary: ys rule: split_rows.induct)
  case (1 n xs)
  show ?case
  proof (cases "n = 0 \<or> length xs \<le> n")
    case True
    then show ?thesis using 1(2) by (auto simp: split_rows.simps)
  next
    case False
    then show ?thesis using 1(1) [of "drop n ys"] 1(2) by (simp add: split_rows_long)
  qed
qed

lemma no_prompts_batches: "no_prompts P \<Longrightarrow> prompt_batches n k P = replicate k None"
  by (auto simp: prompt_batches_def no_prompts_def split: option.splits)

lemma prompt_batches_short:
  assumes "batch_prompts blocks rows k P" and "rows \<le> n"
  shows "prompt_batches n 1 P = [if no_prompts P then None else P]"
proof (cases "no_prompts P")
  case False
  then obtain ps where ps: "P = Some ps" "\<not> list_all is_dummy ps" by (auto simp: no_prompts_def split: option.splits)
  have s: "split_rows n p = [p]" if "p \<in> set ps" for p
    using assms that by (simp add: batch_prompts_def ps split_rows_short)
  have "ps \<noteq> []" using ps(2) by auto
  then have "split_rows n (hd ps) = [hd ps]" using s by simp
  moreover have "map (\<lambda>p. split_rows n p ! 0) ps = ps" using s by (simp add: map_idI)
  ultimately show ?thesis using False ps by (simp add: prompt_batches_def)
qed (simp add: no_prompts_batches)

lemma prompt_batches_long:
  assumes "batch_prompts blocks rows k P" and "0 < n" and "n < rows" and "\<not> no_prompts P"
  shows "prompt_batches n j P = map_option (map (take n)) P # prompt_batches n j' (map_option (map (drop n)) P)"
    and "\<not> no_prompts (map_option (map (drop n)) P)"
proof -
  obtain ps where ps: "P = Some ps" "\<not> list_all is_dummy ps"
    using assms(4) by (auto simp: no_prompts_def split: option.splits)
  have uni: "length p = rows" "\<forall>r \<in> set p. length r = k" if "p \<in> set ps" for p
    using assms(1) that by (auto simp: batch_prompts_def ps)
  have size: "is_dummy p \<longleftrightarrow> k = 0" if "p \<in> set ps" for p
  proof -
    have "p \<noteq> []" using uni(1) [OF that] assms(3) by auto
    with uni [OF that] assms(3) show ?thesis by (simp add: is_dummy_def task_size_def row_length_uniform [of p k])
  qed
  have dsize: "is_dummy (drop n p) \<longleftrightarrow> k = 0" if "p \<in> set ps" for p
  proof -
    have "drop n p \<noteq> []" using uni(1) [OF that] assms(3) by auto
    moreover have "\<forall>r \<in> set (drop n p). length r = k" using uni(2) [OF that] by (auto dest: in_set_dropD)
    ultimately show ?thesis using uni(1) [OF that] assms(3)
      by (simp add: is_dummy_def task_size_def row_length_uniform [of "drop n p" k])
  qed
  have k: "k \<noteq> 0" "ps \<noteq> []" using ps(2) size by (auto simp: list_all_iff)
  show d: "\<not> no_prompts (map_option (map (drop n)) P)"
    using k dsize by (cases ps) (auto simp: no_prompts_def ps(1))
  have long: "split_rows n p = take n p # split_rows n (drop n p)" if "p \<in> set ps" for p
    using split_rows_long [of n p] uni(1) [OF that] assms(2,3) by simp
  have "prompt_batches n j P = map (\<lambda>i. Some (map (\<lambda>p. split_rows n p ! i) ps)) [0..<Suc (length (split_rows n (drop n (hd ps))))]"
    using ps k(2) long [of "hd ps"] by (simp add: prompt_batches_def)
  also have "\<dots> = Some (map (take n) ps) # map (\<lambda>i. Some (map (\<lambda>p. split_rows n (drop n p) ! i) ps)) [0..<length (split_rows n (drop n (hd ps)))]"
    using long by (simp add: map_upt_Suc del: upt_Suc cong: map_cong)
  also have "map (\<lambda>i. Some (map (\<lambda>p. split_rows n (drop n p) ! i) ps)) [0..<length (split_rows n (drop n (hd ps)))]
      = prompt_batches n j' (map_option (map (drop n)) P)"
    using d k(2) by (simp add: prompt_batches_def no_prompts_def ps(1) hd_map comp_def)
  finally show "prompt_batches n j P = map_option (map (take n)) P # prompt_batches n j' (map_option (map (drop n)) P)"
    by (simp add: ps(1))
qed

text \<open>The prompts of the first \<open>n\<close> rows, and of the others.\<close>

definition first_prompts :: "nat \<Rightarrow> 'h list list list option \<Rightarrow> 'h list list list option" where
  "first_prompts n P = (if no_prompts P then None else map_option (map (take n)) P)"

definition other_prompts :: "nat \<Rightarrow> 'h list list list option \<Rightarrow> 'h list list list option" where
  "other_prompts n P = (if no_prompts P then None else map_option (map (drop n)) P)"

lemma no_prompts_list:
  "no_prompts P \<Longrightarrow> batch_prompts blocks rows k P \<Longrightarrow> prompt_list blocks P = replicate blocks None"
  by (auto simp: no_prompts_def batch_prompts_def prompt_list_def list_all_iff split: option.splits intro!: replicate_eqI)

lemma batches_step:
  assumes "batch_prompts blocks (length X) k P" and "0 < n" and "n < length X"
  shows "prompt_batches n (length (split_rows n X)) P =
      first_prompts n P # prompt_batches n (length (split_rows n (drop n X))) (other_prompts n P)"
    and "batch_prompts blocks (length (drop n X)) k (other_prompts n P)"
    and "no_prompts (other_prompts n P) = no_prompts P"
proof -
  show "prompt_batches n (length (split_rows n X)) P =
      first_prompts n P # prompt_batches n (length (split_rows n (drop n X))) (other_prompts n P)"
  proof (cases "no_prompts P")
    case True
    then show ?thesis
      using split_rows_long [OF assms(2,3)] by (simp add: first_prompts_def other_prompts_def no_prompts_batches)
  next
    case False
    then show ?thesis using prompt_batches_long(1) [OF assms False] by (simp add: first_prompts_def other_prompts_def)
  qed
  show "batch_prompts blocks (length (drop n X)) k (other_prompts n P)"
    using assms(1) by (auto simp: batch_prompts_def other_prompts_def) (meson in_set_dropD)
  show "no_prompts (other_prompts n P) = no_prompts P"
    using prompt_batches_long(2) [OF assms] by (auto simp: other_prompts_def)
qed

lemma two_pieces:
  assumes P: "batch_prompts (length us) (length X) k P" and n: "0 < n" "n < length X" and X: "\<forall>r \<in> set X. length r = t"
  shows "\<exists>bs. left_prompts bs = zip us (prompt_list (length us) (first_prompts n P))
    \<and> right_prompts bs = zip us (prompt_list (length us) (other_prompts n P))
    \<and> both_prompts bs = zip us (prompt_list (length us) P) \<and> prompts_for t k (take n X) (drop n X) bs"
proof -
  have rows: "take n X \<noteq> []" "drop n X \<noteq> []" "\<forall>r \<in> set (take n X) \<union> set (drop n X). length r = t"
    using n X by (auto dest: in_set_takeD in_set_dropD)
  show ?thesis
  proof (cases "no_prompts P")
    case True
    let ?bs = "map (\<lambda>u. (u, None, None)) us"
    have z: "zip us (replicate (length us) c) = map (\<lambda>u. (u, c)) us" for c by (induction us) auto
    have "left_prompts ?bs = map (\<lambda>u. (u, None)) us" "right_prompts ?bs = map (\<lambda>u. (u, None)) us"
      "both_prompts ?bs = map (\<lambda>u. (u, None)) us"
      by (simp_all add: left_prompts_def right_prompts_def both_prompts_def join_prompt_def)
    moreover have "prompts_for t k (take n X) (drop n X) ?bs"
      using rows by (auto simp: prompts_for_def prompt_for_def joinable_def)
    ultimately show ?thesis using True no_prompts_list [OF True P]
      by (intro exI [of _ ?bs]) (simp add: first_prompts_def other_prompts_def prompt_list_def z)
  next
    case False
    then obtain ps where ps: "P = Some ps" by (auto simp: no_prompts_def split: option.splits)
    have uni: "length ps = length us" "\<And>p. p \<in> set ps \<Longrightarrow> length p = length X \<and> (\<forall>r \<in> set p. length r = k)"
      using P by (auto simp: batch_prompts_def ps)
    have dummy: "is_dummy q \<longleftrightarrow> k = 0" if "q \<noteq> []" "\<forall>r \<in> set q. length r = k" for q
      using that by (simp add: is_dummy_def task_size_def row_length_uniform [of q k])
    obtain p where p: "p \<in> set ps" "\<not> is_dummy p" using False by (auto simp: no_prompts_def ps list_all_iff)
    have "p \<noteq> []" using uni(2) [OF p(1)] n by auto
    then have "k \<noteq> 0" using uni(2) [OF p(1)] p(2) dummy [of p] by simp
    then have full: "\<not> is_dummy p \<and> \<not> is_dummy (take n p) \<and> \<not> is_dummy (drop n p)" if "p \<in> set ps" for p
    proof -
      have "p \<noteq> []" "take n p \<noteq> []" "drop n p \<noteq> []" using uni(2) [OF that] n by auto
      moreover have "\<forall>r \<in> set p. length r = k" using uni(2) [OF that] by blast
      ultimately show ?thesis using dummy \<open>k \<noteq> 0\<close> by (meson in_set_takeD in_set_dropD)
    qed
    let ?bs = "map (\<lambda>(u, p). (u, Some (take n p), Some (drop n p))) (zip us ps)"
    have z: "zip us (map f ps) = map (\<lambda>(u, p). (u, f p)) (zip us ps)" for f :: "'a list list \<Rightarrow> 'a list list option"
      by (simp add: zip_map2)
    have "prompt_list (length us) (first_prompts n P) = map (\<lambda>p. Some (take n p)) ps"
      "prompt_list (length us) (other_prompts n P) = map (\<lambda>p. Some (drop n p)) ps"
      "prompt_list (length us) P = map Some ps"
      using False full by (simp_all add: first_prompts_def other_prompts_def prompt_list_def ps)
    moreover have "left_prompts ?bs = zip us (map (\<lambda>p. Some (take n p)) ps)"
      "right_prompts ?bs = zip us (map (\<lambda>p. Some (drop n p)) ps)" "both_prompts ?bs = zip us (map Some ps)"
      by (simp_all add: left_prompts_def right_prompts_def both_prompts_def join_prompt_def z comp_def split_def)
    moreover have "prompts_for t k (take n X) (drop n X) ?bs"
      using rows uni(2) by (fastforce simp: prompts_for_def prompt_for_def joinable_def dest: set_zip_rightD in_set_takeD in_set_dropD)
    ultimately show ?thesis by (intro exI [of _ ?bs]) simp
  qed
qed

text \<open>What the pieces compute is what the whole batch computes.\<close>

definition forward_pieces :: "'h trainer \<Rightarrow> string list \<Rightarrow> nat \<Rightarrow> 'h list list list option \<Rightarrow> 'h list list \<Rightarrow> 'h list list list" where
  "forward_pieces T us n P X =
     map (\<lambda>(x, p). whole_forward T (zip us (prompt_list (length us) p)) x)
       (zip (split_rows n X) (prompt_batches n (length (split_rows n X)) P))"

definition backward_pieces :: "'h trainer \<Rightarrow> string list \<Rightarrow> nat \<Rightarrow> 'h list list list option \<Rightarrow> 'h list list \<Rightarrow> 'h list list
    \<Rightarrow> ('h list list \<times> 'h list list list) list" where
  "backward_pieces T us n P X G =
     map (\<lambda>(g, x, p). whole_backward T (zip us (prompt_list (length us) p)) x g)
       (zip (split_rows n G) (zip (split_rows n X) (prompt_batches n (length (split_rows n X)) P)))"

lemma one_piece:
  assumes "batch_prompts (length us) (length X) k P" and "length X \<le> n"
  shows "forward_pieces T us n P X = [whole_forward T (zip us (prompt_list (length us) P)) X]"
    and "length G = length X \<Longrightarrow> backward_pieces T us n P X G = [whole_backward T (zip us (prompt_list (length us) P)) X G]"
proof -
  have "prompt_list (length us) (if no_prompts P then None else P) = prompt_list (length us) P"
    using no_prompts_list [OF _ assms(1)] by (simp add: prompt_list_def)
  moreover have "prompt_batches n (Suc 0) P = [if no_prompts P then None else P]"
    using prompt_batches_short [OF assms] by simp
  ultimately show "forward_pieces T us n P X = [whole_forward T (zip us (prompt_list (length us) P)) X]"
    and "length G = length X \<Longrightarrow> backward_pieces T us n P X G = [whole_backward T (zip us (prompt_list (length us) P)) X G]"
    using assms(2) by (simp_all add: forward_pieces_def backward_pieces_def split_rows_short del: One_nat_def)
qed

lemma more_pieces:
  assumes "batch_prompts (length us) (length X) k P" and "0 < n" and "n < length X"
  shows "forward_pieces T us n P X = whole_forward T (zip us (prompt_list (length us) (first_prompts n P))) (take n X)
      # forward_pieces T us n (other_prompts n P) (drop n X)"
    and "length G = length X \<Longrightarrow> backward_pieces T us n P X G =
      whole_backward T (zip us (prompt_list (length us) (first_prompts n P))) (take n X) (take n G)
      # backward_pieces T us n (other_prompts n P) (drop n X) (drop n G)"
  using assms(2,3) batches_step(1) [OF assms]
  by (simp_all add: forward_pieces_def backward_pieces_def split_rows_long [of n X] split_rows_long [of n G])

lemma forward_pieces_whole:
  assumes T: "row_wise T" and k: "k \<le> t" and n: "0 < n"
    and "\<forall>r \<in> set X. length r = t" and "batch_prompts (length us) (length X) k P"
  shows "concat (forward_pieces T us n P X) = whole_forward T (zip us (prompt_list (length us) P)) X"
  using n assms(4,5)
proof (induction n X arbitrary: P rule: split_rows.induct)
  case (1 n X)
  show ?case
  proof (cases "length X \<le> n")
    case True
    then show ?thesis using one_piece(1) [OF 1(4)] by simp
  next
    case False
    then have l: "n < length X" by simp
    have "concat (forward_pieces T us n (other_prompts n P) (drop n X)) =
        whole_forward T (zip us (prompt_list (length us) (other_prompts n P))) (drop n X)"
      using 1(1) batches_step(2) [OF 1(4,2) l] False 1(2,3) by (auto dest: in_set_dropD)
    moreover obtain bs where "left_prompts bs = zip us (prompt_list (length us) (first_prompts n P))"
      "right_prompts bs = zip us (prompt_list (length us) (other_prompts n P))"
      "both_prompts bs = zip us (prompt_list (length us) P)" "prompts_for t k (take n X) (drop n X) bs"
      using two_pieces [OF 1(4,2) l 1(3)] by blast
    ultimately show ?thesis
      using whole_forward_join [OF T k, of "take n X" "drop n X" bs] more_pieces(1) [OF 1(4,2) l, of T] by simp
  qed
qed

text \<open>The prompt gradients of the pieces have as many entries as those of the whole; joined, they are those.\<close>

lemma prompt_grads_some:
  "length ps = length us \<Longrightarrow> ps \<noteq> [] \<Longrightarrow> \<forall>p \<in> set ps. p \<noteq> None \<Longrightarrow> snd (whole_backward T (zip us ps) x g) \<noteq> []"
  by (cases us; cases ps) (auto simp: prompt_grad_def split: prod.splits)

lemma prompt_grads_none: "snd (whole_backward T (zip us (replicate n None)) x g) = []"
proof (induction n arbitrary: us x)
  case (Suc n)
  then show ?case
    by (cases us) (simp_all add: whole_backward_Cons prompt_grad_def Let_def del: whole_backward.simps(2))
qed simp

definition joined_grads :: "('h list list \<times> 'h list list list) list \<Rightarrow> 'h list list \<times> 'h list list list \<Rightarrow> bool" where
  "joined_grads outs whole \<longleftrightarrow> concat (map fst outs) = fst whole \<and> cat_prompts (map snd outs) = Inr (snd whole)
     \<and> outs \<noteq> [] \<and> (\<forall>out \<in> set outs. length (snd out) = length (snd whole))"

lemma joined_grads_Cons:
  assumes "joined_grads outs r2" and "length (snd r1) = length (snd r2)"
  shows "joined_grads (r1 # outs) (fst r1 @ fst r2, map2 (@) (snd r1) (snd r2))"
  using assms by (cases outs) (auto simp: joined_grads_def)

lemma joined_grads_empty:
  assumes "joined_grads outs r"
  shows "list_ex (\<lambda>out. snd out = []) outs \<longleftrightarrow> snd r = []"
proof -
  have "snd out = [] \<longleftrightarrow> snd r = []" if "out \<in> set outs" for out
    using assms that by (metis joined_grads_def length_0_conv)
  moreover have "outs \<noteq> []" using assms by (simp add: joined_grads_def)
  ultimately show ?thesis by (cases outs) (auto simp: list_ex_iff)
qed

lemma backward_pieces_whole:
  assumes T: "row_wise T" and k: "k \<le> t" and n: "0 < n"
    and "\<forall>r \<in> set X. length r = t" and "batch_prompts (length us) (length X) k P" and "length G = length X"
  shows "joined_grads (backward_pieces T us n P X G) (whole_backward T (zip us (prompt_list (length us) P)) X G)"
  using n assms(4-6)
proof (induction n X arbitrary: P G rule: split_rows.induct)
  case (1 n X)
  show ?case
  proof (cases "length X \<le> n")
    case True
    then show ?thesis using one_piece(2) [OF 1(4)] 1(5) by (simp add: joined_grads_def)
  next
    case False
    then have l: "n < length X" by simp
    let ?r1 = "whole_backward T (zip us (prompt_list (length us) (first_prompts n P))) (take n X) (take n G)"
    let ?r2 = "whole_backward T (zip us (prompt_list (length us) (other_prompts n P))) (drop n X) (drop n G)"
    have ih: "joined_grads (backward_pieces T us n (other_prompts n P) (drop n X) (drop n G)) ?r2"
      using 1(1) [of "other_prompts n P" "drop n G"] batches_step(2) [OF 1(4,2) l] False 1(2,3,5) by (auto dest: in_set_dropD)
    obtain bs where "left_prompts bs = zip us (prompt_list (length us) (first_prompts n P))"
      "right_prompts bs = zip us (prompt_list (length us) (other_prompts n P))"
      "both_prompts bs = zip us (prompt_list (length us) P)" "prompts_for t k (take n X) (drop n X) bs"
      using two_pieces [OF 1(4,2) l 1(3)] by blast
    with whole_backward_join [OF T k, of "take n X" "drop n X" bs "take n G" "drop n G"] 1(5)
    have j: "whole_backward T (zip us (prompt_list (length us) P)) X G = (fst ?r1 @ fst ?r2, map2 (@) (snd ?r1) (snd ?r2))"
      "length (snd ?r1) = length (snd ?r2)" by (simp_all add: prod_eq_iff)
    show ?thesis using joined_grads_Cons [OF ih j(2)] more_pieces(2) [OF 1(4,2) l 1(5), of T] by (simp add: j(1))
  qed
qed

section \<open>The batch\<close>

lemma autograd_pass:
  assumes "trainers_good C w" and "trainers_good C v"
    and "map_option fst (sequential_forward (trainers C) p 0 (int (length (tn_uids (trainers C)))) x w) = Some (Inr f)"
    and "map_option fst (sequential_backward (trainers C) p (fst (snd f)) (snd (snd f)) g v) = Some (Inr b)"
  shows "fst f = whole_forward (te_trainer C) (zip (te_uids C) (prompt_list (length (te_uids C)) p)) x
    \<and> b = whole_backward (te_trainer C) (zip (te_uids C) (prompt_list (length (te_uids C)) p)) x g"
proof -
  obtain w1 v1 where r: "sequential_forward (trainers C) p 0 (int (length (tn_uids (trainers C)))) x w
      = Some (Inr (fst f, fst (snd f), snd (snd f)), w1)"
    "sequential_backward (trainers C) p (fst (snd f)) (snd (snd f)) g v = Some (Inr (fst b, snd b), v1)"
    using assms(3,4) by auto
  have n: "tn_uids (trainers C) = te_uids C" by (simp add: trainers_def)
  have all: "blocks_between (te_uids C) p 0 (int (length (te_uids C))) = zip (te_uids C) (prompt_list (length (te_uids C)) p)"
    by (simp add: blocks_between_def)
  from trained.passes_ok [OF r(1) assms(1) _ r(2)] assms(2) show ?thesis
    by (simp add: n all train_forward_def train_backward_def)
qed

lemma no_prompts_grads:
  assumes "batch_prompts (length us) rows k P"
  shows "snd (whole_backward T (zip us (prompt_list (length us) P)) x g) = [] \<longleftrightarrow> no_prompts P"
proof (cases "no_prompts P")
  case True
  then show ?thesis using no_prompts_list [OF True assms] by (simp add: prompt_grads_none)
next
  case False
  then obtain ps where ps: "P = Some ps" "\<not> list_all is_dummy ps" by (auto simp: no_prompts_def split: option.splits)
  have uni: "length ps = length us" "\<And>p. p \<in> set ps \<Longrightarrow> length p = rows \<and> (\<forall>r \<in> set p. length r = k)"
    using assms by (auto simp: batch_prompts_def ps)
  have size: "task_size p = rows * k" if "p \<in> set ps" for p
    using uni(2) [OF that] row_length_uniform [of p k] by (cases "p = []") (auto simp: task_size_def)
  obtain p where "p \<in> set ps" "\<not> is_dummy p" using ps(2) by (auto simp: list_all_iff)
  then have "rows * k \<noteq> 0" using size by (simp add: is_dummy_def)
  then have "prompt_list (length us) P = map Some ps" using size by (simp add: prompt_list_def ps(1) is_dummy_def)
  moreover have "ps \<noteq> []" using ps(2) by auto
  ultimately show ?thesis using False prompt_grads_some [of "map Some ps" us T x g] uni(1) by simp
qed

text \<open>C7. A batch that is cut into pieces, sent through the swarm in parallel passes and put together is computed as
  a whole: if the forward and the backward function return, the outputs are those of all blocks on all rows, and
  the gradients those of the composed blocks, of the inputs as of the prompts, whatever the size of the
  pieces and whatever calls fail in each pass. Blocks work on the rows separately; the second
  dimension of the inputs is \<open>tokens\<close>, and every block has prompts for every row, of one length.\<close>

theorem autograd_whole_batch:
  fixes C :: "('p, 'a::linordered_field, 'h) train_env"
  defines "T \<equiv> te_trainer C" and "bs P \<equiv> zip (te_uids C) (prompt_list (length (te_uids C)) P)"
  assumes "row_wise T" and "\<forall>i. trainers_good C (ws i)" and "\<forall>i. trainers_good C (vs i)"
    and "\<forall>r \<in> set X. length r = tokens" and "batch_prompts (length (te_uids C)) (length X) k P" and "k \<le> tokens"
    and "length G = length X"
    and "autograd_forward (trainers C) m tokens P X ws = Some (Inr (Y, cx))"
    and "autograd_backward (trainers C) m tokens cx G vs = Some (Inr (gin, gps))"
  shows "Y = whole_forward T (bs P) X
    \<and> whole_backward T (bs P) X G = (gin, case gps of None \<Rightarrow> [] | Some gp \<Rightarrow> gp)
    \<and> (gps = None \<longleftrightarrow> no_prompts P)"
proof -
  note rows = assms(6) and P = assms(7) and k = assms(8) and G = assms(9)
  define n where "n = max (m div tokens) 1"
  define xs ps gs where "xs = split_rows n X" and "ps = prompt_batches n (length xs) P" and "gs = split_rows n G"
  have n: "0 < n" by (simp add: n_def)
  have lg: "length gs = length xs" using split_rows_length [OF G] by (simp add: gs_def xs_def)
  obtain outs where f: "gather_forward (trainers C) xs ps ws = Some (Inr outs)" "length outs = length xs"
      "Y = concat (map fst outs)" "cx = \<lparr>cx_prompts = ps, cx_inters = map (fst \<circ> snd) outs, cx_spans = map (snd \<circ> snd) outs\<rparr>"
    using assms(10) by (auto simp: autograd_forward_def Let_def n_def xs_def ps_def split: if_splits option.splits sum.splits)
  obtain outs2 where b: "gather_backward (trainers C) gs cx vs = Some (Inr outs2)"
      "Inr (gin, gps) = (if list_ex (\<lambda>out. snd out = []) outs2 then Inr (concat (map fst outs2), None)
        else rbind (cat_prompts (map snd outs2)) (\<lambda>gp. Inr (concat (map fst outs2), Some gp)))"
    using assms(11) by (auto simp: autograd_backward_def Let_def n_def gs_def split: if_splits option.splits sum.splits)
  note f1 = gather_Inr [OF f(1) [unfolded gather_forward_def]] and b1 = gather_Inr [OF b(1) [unfolded gather_backward_def]]
  have lp: "length ps \<ge> length xs" using arg_cong [OF f1, of length] f(2) by simp
  have l2: "length outs2 = length xs" using arg_cong [OF b1, of length] f(2) lg lp by (simp add: f(4))
  have pass: "fst (outs ! i) = whole_forward T (zip (te_uids C) (prompt_list (length (te_uids C)) (ps ! i))) (xs ! i)
      \<and> outs2 ! i = whole_backward T (zip (te_uids C) (prompt_list (length (te_uids C)) (ps ! i))) (xs ! i) (gs ! i)"
    if i: "i < length xs" for i
  proof -
    have "map_option fst (sequential_forward (trainers C) (ps ! i) 0 (int (length (tn_uids (trainers C)))) (xs ! i) (ws i))
        = Some (Inr (outs ! i))"
      using arg_cong [OF f1, of "\<lambda>rs. rs ! i"] i lp f(2) by (simp add: nth_enumerate_eq)
    moreover have "map_option fst (sequential_backward (trainers C) (ps ! i) (fst (snd (outs ! i))) (snd (snd (outs ! i))) (gs ! i) (vs i))
        = Some (Inr (outs2 ! i))"
      using arg_cong [OF b1, of "\<lambda>rs. rs ! i"] i lp lg l2 f(2) by (simp add: nth_enumerate_eq f(4))
    ultimately show ?thesis using autograd_pass assms(4,5) unfolding T_def by blast
  qed
  have o1: "map fst outs = forward_pieces T (te_uids C) n P X"
    by (rule nth_equalityI) (use pass lp f(2) in \<open>auto simp: forward_pieces_def simp flip: xs_def ps_def\<close>)
  have o2: "outs2 = backward_pieces T (te_uids C) n P X G"
    by (rule nth_equalityI) (use pass lp l2 lg in \<open>auto simp: backward_pieces_def simp flip: xs_def ps_def gs_def\<close>)
  have fw: "Y = whole_forward T (bs P) X"
    using forward_pieces_whole [OF assms(3) k n rows P] by (simp add: f(3) o1 bs_def)
  have joined: "joined_grads outs2 (whole_backward T (bs P) X G)"
    using backward_pieces_whole [OF assms(3) k n rows P G] by (simp add: o2 bs_def)
  then have "list_ex (\<lambda>out. snd out = []) outs2 \<longleftrightarrow> snd (whole_backward T (bs P) X G) = []"
    by (rule joined_grads_empty)
  moreover have "snd (whole_backward T (bs P) X G) = [] \<longleftrightarrow> no_prompts P"
    using no_prompts_grads [OF P] by (simp add: bs_def)
  ultimately show ?thesis using fw joined b(2) by (auto simp: joined_grads_def prod_eq_iff split: if_splits)
qed

section \<open>A concrete batch\<close>

text \<open>Three rows of two tokens, cut after every second row, over the swarm of PetalsTrainingExamples; one call of
  the second pass gets lost.\<close>

definition ax_inputs :: "int list list" where
  "ax_inputs = [[1, 2], [3, 4], [5, 6]]"

definition ax_prompts :: "int list list list option" where
  "ax_prompts = Some (map (\<lambda>i. [[i], [i + 1], [i + 2]]) [10, 20, 30, 40])"

definition ax_worlds :: "nat \<Rightarrow> (nat, rat) train_world" where
  "ax_worlds i = tx_world (if i = 1 then [Reply_lost] else [])"

definition ax_forward :: "(int list list \<times> (nat, rat, int) autograd_ctx) result option" where
  "ax_forward = autograd_forward (trainers tx_env) 4 2 ax_prompts ax_inputs ax_worlds"

definition ax_ctx :: "(nat, rat, int) autograd_ctx" where
  "ax_ctx = \<lparr>cx_prompts = [Some [[[10], [11]], [[20], [21]], [[30], [31]], [[40], [41]]], Some [[[12]], [[22]], [[32]], [[42]]]],
     cx_inters = [[[[1, 2], [3, 4]], [[61, 105], [66, 119]]], [[[5, 6]], [[71, 133]]]],
     cx_spans = [[px_span 1 0 3 (Some (0, 3)), px_span 2 3 4 None], [px_span 1 0 3 (Some (0, 3)), px_span 2 3 4 None]]\<rparr>"

lemma ax_forward_value: "ax_forward = Some (Inr ([[101, 206], [107, 226], [113, 246]], ax_ctx))"
  by code_simp

lemma ax_backward_value:
  "autograd_backward (trainers tx_env) 4 2 ax_ctx [[1, 0], [2, 1], [0, 3]] ax_worlds =
     Some (Inr ([[1, 0], [6, 1], [12, 3]], Some [[[1], [6], [12]], [[1], [5], [9]], [[1], [4], [6]], [[1], [3], [3]]]))"
  by code_simp

lemma tx_row_wise: "row_wise tx_trainer"
  by (simp add: row_wise_def keeps_shape_def tx_trainer_def)

lemma autograd_whole_batch_witness:
  "whole_forward tx_trainer (zip px_uids (prompt_list 4 ax_prompts)) ax_inputs = [[101, 206], [107, 226], [113, 246]]
   \<and> whole_backward tx_trainer (zip px_uids (prompt_list 4 ax_prompts)) ax_inputs [[1, 0], [2, 1], [0, 3]]
       = ([[1, 0], [6, 1], [12, 3]], [[[1], [6], [12]], [[1], [5], [9]], [[1], [4], [6]], [[1], [3], [3]]])"
proof -
  have e: "te_uids tx_env = px_uids" "length px_uids = 4" "te_trainer tx_env = tx_trainer" by (simp_all add: tx_env_def px_uids_def)
  have good: "\<forall>i. trainers_good tx_env (ax_worlds i)" by (simp add: ax_worlds_def tx_good)
  have shape: "\<forall>r \<in> set ax_inputs. length r = 2" "batch_prompts 4 (length ax_inputs) 1 ax_prompts"
    by (simp_all add: ax_inputs_def ax_prompts_def batch_prompts_def)
  from autograd_whole_batch [where C = tx_env and k = 1,
      OF _ good good shape(1) _ _ _ ax_forward_value [unfolded ax_forward_def] ax_backward_value] tx_row_wise shape(2)
  show ?thesis by (simp add: e ax_inputs_def)
qed

end
