(* ===== verification/PetalsDisk.thy ===== *)
theory PetalsDisk
  imports Prelude "HOL-Library.Multiset"
begin

text \<open>
  petals/utils/disk\_cache.py: room for a block on the disk is made by removing the least recently used files
  of the cache. Paths that exist are a list; what \<open>scan_cache_dir\<close> and \<open>disk_usage\<close> report are arguments. An
  error of the operating system is \<open>GenericException\<close>. The lock around the calls is not modelled.
\<close>

section \<open>Files\<close>

text \<open>A file of the cache is a link to its contents; revisions may share contents.\<close>

record cached_file =
  cf_link :: string
  cf_blob :: string
  cf_size :: int
  cf_accessed :: int

definition os_remove :: "string \<Rightarrow> string list \<Rightarrow> unit result \<times> string list" where
  "os_remove path disk = (if path \<in> set disk then (Inr (), removeAll path disk) else (Inl GenericException, disk))"

definition remove_file :: "cached_file \<Rightarrow> string list \<Rightarrow> unit result \<times> string list" where
  "remove_file f disk =
     (case os_remove (cf_link f) disk of
        (Inl e, disk1) \<Rightarrow> (Inl e, disk1)
      | (Inr _, disk1) \<Rightarrow> os_remove (cf_blob f) disk1)"

text \<open>The loop: the files that were removed, until \<open>needed\<close> bytes are free.\<close>

fun remove_until :: "int \<Rightarrow> int \<Rightarrow> cached_file list \<Rightarrow> string list \<Rightarrow> cached_file list result \<times> string list" where
  "remove_until needed freed [] disk = (Inr [], disk)"
| "remove_until needed freed (f # fs) disk =
     (case remove_file f disk of
        (Inl e, disk1) \<Rightarrow> (Inl e, disk1)
      | (Inr _, disk1) \<Rightarrow>
          if needed \<le> freed + cf_size f then (Inr [f], disk1)
          else case remove_until needed (freed + cf_size f) fs disk1 of
                 (Inl e, disk2) \<Rightarrow> (Inl e, disk2)
               | (Inr removed, disk2) \<Rightarrow> (Inr (f # removed), disk2))"

definition os_quota :: int where
  "os_quota = 1024 ^ 3"

definition available_space :: "int \<Rightarrow> int \<Rightarrow> int option \<Rightarrow> int" where
  "available_space disk_free cache_size max_disk_space =
     (case max_disk_space of
        None \<Rightarrow> disk_free - os_quota
      | Some m \<Rightarrow> min (disk_free - os_quota) (m - cache_size))"

definition total_size :: "cached_file list \<Rightarrow> int" where
  "total_size fs = sum_list (map cf_size fs)"

text \<open>The result is the list of removed files.\<close>

definition free_disk_space_for ::
  "int \<Rightarrow> int \<Rightarrow> int \<Rightarrow> int option \<Rightarrow> cached_file list \<Rightarrow> string list \<Rightarrow> cached_file list result \<times> string list" where
  "free_disk_space_for required disk_free cache_size max_disk_space files disk =
     (let available = available_space disk_free cache_size max_disk_space; needed = required - available
      in if required \<le> available then (Inr [], disk)
      else case remove_until needed 0 (sort_key cf_accessed files) disk of
        (Inl e, disk1) \<Rightarrow> (Inl e, disk1)
      | (Inr removed, disk1) \<Rightarrow> (if total_size removed < needed then Inl RuntimeError else Inr removed, disk1))"

section \<open>What is removed\<close>

definition file_paths :: "cached_file list \<Rightarrow> string set" where
  "file_paths fs = cf_link ` set fs \<union> cf_blob ` set fs"

text \<open>The files as the cache has them when no two share a path.\<close>

definition separate_files :: "cached_file list \<Rightarrow> string list \<Rightarrow> bool" where
  "separate_files fs disk \<longleftrightarrow> distinct (concat (map (\<lambda>f. [cf_link f, cf_blob f]) fs)) \<and> file_paths fs \<subseteq> set disk"

lemma file_paths_simps [simp]:
  "file_paths [] = {}" "file_paths (f # fs) = insert (cf_link f) (insert (cf_blob f) (file_paths fs))"
  "file_paths (fs @ gs) = file_paths fs \<union> file_paths gs"
  by (auto simp: file_paths_def)

lemma paths_of_concat: "set (concat (map (\<lambda>f. [cf_link f, cf_blob f]) fs)) = file_paths fs"
  by (induction fs) auto

lemma separate_files_Cons:
  assumes "separate_files (f # fs) disk"
  shows "remove_file f disk = (Inr (), removeAll (cf_blob f) (removeAll (cf_link f) disk))"
    and "separate_files fs (removeAll (cf_blob f) (removeAll (cf_link f) disk))"
proof -
  have d: "cf_link f \<noteq> cf_blob f" "cf_link f \<in> set disk" "cf_blob f \<in> set disk" "cf_link f \<notin> file_paths fs"
    "cf_blob f \<notin> file_paths fs" "distinct (concat (map (\<lambda>f. [cf_link f, cf_blob f]) fs))" "file_paths fs \<subseteq> set disk"
    using assms paths_of_concat [of fs] by (auto simp: separate_files_def)
  then show "remove_file f disk = (Inr (), removeAll (cf_blob f) (removeAll (cf_link f) disk))"
    by (simp add: remove_file_def os_remove_def)
  show "separate_files fs (removeAll (cf_blob f) (removeAll (cf_link f) disk))"
    using d by (auto simp: separate_files_def)
qed

lemma remove_file_removes:
  "remove_file f disk = (Inr u, disk1) \<Longrightarrow> disk1 = removeAll (cf_blob f) (removeAll (cf_link f) disk)"
  by (auto simp: remove_file_def os_remove_def split: if_splits)

lemma remove_file_fails:
  "remove_file f disk = (Inl e, disk1) \<Longrightarrow>
     e = GenericException \<and> set disk1 \<subseteq> set disk \<and> set disk - {cf_link f, cf_blob f} \<subseteq> set disk1"
  by (auto simp: remove_file_def os_remove_def split: if_splits)

text \<open>The shortest part of the list that frees enough, or all of it; an error of the system comes only from files that
  share a path, or from one that is not on the disk.\<close>

lemma remove_until_prefix:
  assumes "freed < needed" and "remove_until needed freed fs disk = (res, disk1)"
  shows "case res of
      Inr removed \<Rightarrow> \<exists>kept. fs = removed @ kept \<and> set disk1 = set disk - file_paths removed
        \<and> (removed \<noteq> [] \<longrightarrow> freed + total_size (butlast removed) < needed)
        \<and> (needed \<le> freed + total_size removed \<or> kept = [] \<and> freed + total_size removed < needed)
    | Inl e \<Rightarrow> e = GenericException \<and> \<not> separate_files fs disk
        \<and> set disk1 \<subseteq> set disk \<and> set disk - file_paths fs \<subseteq> set disk1"
  using assms
proof (induction fs arbitrary: freed disk res disk1)
  case Nil
  then show ?case by (auto simp: total_size_def)
next
  case (Cons f fs)
  let ?disk = "removeAll (cf_blob f) (removeAll (cf_link f) disk)"
  show ?case
  proof (cases "fst (remove_file f disk)")
    case (Inl e)
    then obtain d where r: "remove_file f disk = (Inl e, d)" by (metis prod.collapse)
    then have "res = Inl e" "disk1 = d" using Cons.prems(2) by auto
    moreover have "\<not> separate_files (f # fs) disk" using separate_files_Cons(1) [of f fs disk] r by auto
    ultimately show ?thesis using remove_file_fails [OF r] by auto
  next
    case (Inr u)
    then have r: "remove_file f disk = (Inr u, ?disk)" using remove_file_removes by (metis prod.collapse)
    show ?thesis
    proof (cases "needed \<le> freed + cf_size f")
      case True
      with r Cons.prems have "res = Inr [f]" "disk1 = ?disk" by auto
      then show ?thesis using True Cons.prems(1) by (auto simp: total_size_def)
    next
      case False
      obtain res2 disk2 where r2: "remove_until needed (freed + cf_size f) fs ?disk = (res2, disk2)" by (metis surj_pair)
      have less: "freed + cf_size f < needed" using False by simp
      note ih = Cons.IH [OF less r2]
      show ?thesis
      proof (cases res2)
        case (Inl e)
        then have "res = Inl e" "disk1 = disk2" using Cons.prems(2) r r2 False by auto
        then show ?thesis using ih Inl separate_files_Cons(2) [of f fs disk] by auto
      next
        case (Inr removed)
        then have res: "res = Inr (f # removed)" "disk1 = disk2" using Cons.prems(2) r r2 False by auto
        from ih Inr obtain kept where k: "fs = removed @ kept" "set disk2 = set ?disk - file_paths removed"
          "removed \<noteq> [] \<longrightarrow> freed + cf_size f + total_size (butlast removed) < needed"
          "needed \<le> freed + cf_size f + total_size removed \<or> kept = [] \<and> freed + cf_size f + total_size removed < needed"
          by auto
        have "freed + total_size (butlast (f # removed)) < needed"
          using k(3) Cons.prems(1) by (cases "removed = []") (simp_all add: total_size_def add.assoc)
        moreover have "total_size (f # removed) = cf_size f + total_size removed" by (simp add: total_size_def)
        moreover have "set disk2 = set disk - file_paths (f # removed)" using k(2) by auto
        ultimately show ?thesis using k(1,4) by (simp add: res add.assoc)
      qed
    qed
  qed
qed

lemma mset_paths:
  "mset (concat (map (\<lambda>f. [cf_link f, cf_blob f]) fs)) = image_mset cf_link (mset fs) + image_mset cf_blob (mset fs)"
  by (induction fs) auto

lemma separate_files_perm: "separate_files (sort_key k fs) disk \<longleftrightarrow> separate_files fs disk"
proof -
  have "mset (concat (map (\<lambda>f. [cf_link f, cf_blob f]) (sort_key k fs))) = mset (concat (map (\<lambda>f. [cf_link f, cf_blob f]) fs))"
    by (simp only: mset_paths mset_sort)
  from mset_eq_imp_distinct_iff [OF this] show ?thesis by (simp add: separate_files_def file_paths_def)
qed

text \<open>C39. Making room for a block. If the call returns, there is room, the removed files are gone with their
  contents and nothing else is, no file was used more recently than one that was kept, and without the last of them
  there would not have been room. If it raises RuntimeError, all files of the cache are gone, and
  there is still no room for the block. The only other error is that of the operating system, and it comes only when two
  files of the cache share a path (as revisions with the same contents do) or a path is missing; then nothing
  outside the cache is gone, but room that could be made may not have been made (\<open>shared_contents_fail\<close>).\<close>

theorem disk_space_freed:
  assumes "free_disk_space_for required disk_free cache_size max_disk_space files disk = (res, disk')"
  shows "case res of
      Inr removed \<Rightarrow>
        required \<le> available_space disk_free cache_size max_disk_space + total_size removed
        \<and> set disk' = set disk - file_paths removed
        \<and> (\<exists>kept. mset files = mset (removed @ kept) \<and> (\<forall>f \<in> set removed. \<forall>g \<in> set kept. cf_accessed f \<le> cf_accessed g))
        \<and> (removed \<noteq> [] \<longrightarrow> available_space disk_free cache_size max_disk_space + total_size (butlast removed) < required)
    | Inl e \<Rightarrow>
        e = RuntimeError \<and> set disk' = set disk - file_paths files
          \<and> available_space disk_free cache_size max_disk_space + total_size files < required
        \<or> e = GenericException \<and> \<not> separate_files files disk
          \<and> set disk' \<subseteq> set disk \<and> set disk - file_paths files \<subseteq> set disk'"
proof -
  let ?av = "available_space disk_free cache_size max_disk_space" and ?fs = "sort_key cf_accessed files"
  have same: "total_size ?fs = total_size files" "file_paths ?fs = file_paths files"
    by (simp_all add: total_size_def file_paths_def flip: sum_mset_sum_list)
  show ?thesis
  proof (cases "required \<le> ?av")
    case True
    then have "res = Inr []" "disk' = disk" using assms by (auto simp: free_disk_space_for_def Let_def)
    then show ?thesis using True by (auto simp: total_size_def intro!: exI [of _ files])
  next
    case False
    obtain r d where rd: "remove_until (required - ?av) 0 ?fs disk = (r, d)" by (metis surj_pair)
    have k: "case r of
        Inr removed \<Rightarrow> \<exists>kept. ?fs = removed @ kept \<and> set d = set disk - file_paths removed
          \<and> (removed \<noteq> [] \<longrightarrow> total_size (butlast removed) < required - ?av)
          \<and> (required - ?av \<le> total_size removed \<or> kept = [] \<and> total_size removed < required - ?av)
      | Inl e \<Rightarrow> e = GenericException \<and> \<not> separate_files files disk \<and> set d \<subseteq> set disk \<and> set disk - file_paths files \<subseteq> set d"
      using remove_until_prefix [OF _ rd] False by (simp add: separate_files_perm same split: sum.splits)
    show ?thesis
    proof (cases r)
      case (Inl e)
      then show ?thesis using assms rd k False by (auto simp: free_disk_space_for_def Let_def)
    next
      case (Inr removed)
      with k obtain kept where k': "?fs = removed @ kept" "set d = set disk - file_paths removed"
        "removed \<noteq> [] \<longrightarrow> total_size (butlast removed) < required - ?av"
        "required - ?av \<le> total_size removed \<or> kept = [] \<and> total_size removed < required - ?av" by auto
      have res: "res = (if total_size removed < required - ?av then Inl RuntimeError else Inr removed)" "disk' = d"
        using assms rd Inr False by (auto simp: free_disk_space_for_def Let_def)
      have perm: "mset files = mset (removed @ kept)" using k'(1) by (metis mset_sort)
      have "sorted (map cf_accessed (removed @ kept))" using k'(1) sorted_sort_key by metis
      then have old: "\<forall>f \<in> set removed. \<forall>g \<in> set kept. cf_accessed f \<le> cf_accessed g" by (auto simp: sorted_append)
      show ?thesis
      proof (cases "total_size removed < required - ?av")
        case True
        then have "removed = ?fs" using k'(1,4) by auto
        then show ?thesis using True res k'(2) same by auto
      next
        case False
        then show ?thesis using res k'(2,3) perm old by auto
      qed
    qed
  qed
qed

section \<open>Concrete caches\<close>

definition dx_file :: "nat \<Rightarrow> int \<Rightarrow> int \<Rightarrow> cached_file" where
  "dx_file i bytes accessed = \<lparr>cf_link = ''link'' @ replicate i CHR ''i'', cf_blob = ''blob'' @ replicate i CHR ''i'',
     cf_size = bytes, cf_accessed = accessed\<rparr>"

definition dx_files :: "cached_file list" where
  "dx_files = [dx_file 0 40 30, dx_file 1 50 10, dx_file 2 30 20]"

definition dx_disk :: "string list" where
  "dx_disk = ''model'' # concat (map (\<lambda>f. [cf_link f, cf_blob f]) dx_files)"

lemma disk_space_freed_witness:
  "free_disk_space_for 100 (os_quota + 50) 120 (Some 150) dx_files dx_disk = (Inr [dx_file 1 50 10, dx_file 2 30 20], [''model'', ''link'', ''blob''])
   \<and> 100 \<le> available_space (os_quota + 50) 120 (Some 150) + total_size [dx_file 1 50 10, dx_file 2 30 20]"
proof -
  have r: "free_disk_space_for 100 (os_quota + 50) 120 (Some 150) dx_files dx_disk =
    (Inr [dx_file 1 50 10, dx_file 2 30 20], [''model'', ''link'', ''blob''])" by code_simp
  from disk_space_freed [OF r] show ?thesis using r by simp
qed

text \<open>A call that cannot succeed empties the cache all the same.\<close>

lemma hopeless_call_empties_cache:
  "free_disk_space_for 500 os_quota 120 (Some 150) dx_files dx_disk = (Inl RuntimeError, [''model''])"
  by code_simp

text \<open>Two revisions with the same contents: the second removal finds no file, and the call fails although enough
  could have been freed.\<close>

lemma shared_contents_fail:
  "free_disk_space_for 130 os_quota 0 (Some 50) [dx_file 0 40 10, (dx_file 1 40 10)\<lparr>cf_blob := ''blob''\<rparr>, dx_file 2 90 20]
     [''link'', ''linki'', ''blob'', ''linkii'', ''blobii''] = (Inl GenericException, [''linkii'', ''blobii''])"
  by code_simp

end
