(* ===== verification/PetalsStartup.thy ===== *)
theory PetalsStartup
  imports Ranges Complex_Main
begin

text \<open>
  The decisions of a Petals server before it serves: \<open>Server.__init__\<close> and \<open>_choose_num_blocks\<close> in
  petals/server/server.py, server/block\_utils.py, server/throughput.py and server/reachability.py. The sizes
  of the hardware, the measurements and the answers of other peers are arguments; floating-point numbers are
  elements of an ordered field with floor.
\<close>

section \<open>Types of numbers and devices\<close>

datatype device = Cpu | Cuda | Mps
datatype dtype = Float32 | Float16 | Bfloat16
datatype quant_type = Quant_none | Quant_int8 | Quant_nf4

fun get_size_in_bytes :: "dtype \<Rightarrow> int" where
  "get_size_in_bytes Float32 = 4"
| "get_size_in_bytes Float16 = 2"
| "get_size_in_bytes Bfloat16 = 2"

text \<open>\<open>None\<close> is \<open>"auto"\<close>.\<close>

definition resolve_block_dtype :: "dtype option \<Rightarrow> dtype option \<Rightarrow> dtype" where
  "resolve_block_dtype config_dtype dt =
     (case dt of
        Some d \<Rightarrow> d
      | None \<Rightarrow> (case config_dtype of Some d \<Rightarrow> if d = Float32 then Bfloat16 else d | None \<Rightarrow> Bfloat16))"

text \<open>Python rounds halves to even numbers.\<close>

definition py_round :: "'a::floor_ceiling \<Rightarrow> int" where
  "py_round x =
     (let f = \<lfloor>x\<rfloor>; d = x - of_int f
      in if d < 1 / 2 then f else if 1 / 2 < d then f + 1 else if even f then f else f + 1)"

datatype location = In_memory quant_type | On_disk

definition bytes_per_value :: "dtype option \<Rightarrow> location \<Rightarrow> dtype option \<Rightarrow> 'a::floor_ceiling" where
  "bytes_per_value config_dtype loc dt =
     (case loc of
        In_memory Quant_none \<Rightarrow> of_int (get_size_in_bytes (resolve_block_dtype config_dtype dt))
      | In_memory Quant_int8 \<Rightarrow> 1
      | In_memory Quant_nf4 \<Rightarrow> 425 / 100 / 8
      | On_disk \<Rightarrow> of_int (get_size_in_bytes (resolve_block_dtype config_dtype None)))"

definition get_block_size :: "'a::floor_ceiling \<Rightarrow> int \<Rightarrow> dtype option \<Rightarrow> location \<Rightarrow> dtype option \<Rightarrow> int" where
  "get_block_size eps n_params config_dtype loc dt =
     py_round (of_int n_params * bytes_per_value config_dtype loc dt * (1 + eps))"

section \<open>How many blocks fit\<close>

text \<open>\<open>memories\<close> are those of the tensor parallel devices, \<open>gpu\<close> that of the device itself.\<close>

record machine =
  hw_cuda :: bool
  hw_mps :: bool
  hw_gpu :: int
  hw_ram :: int
  hw_memories :: "int list"

definition gib :: int where
  "gib = 1024 ^ 3"

definition num_devices :: "machine \<Rightarrow> int" where
  "num_devices hw = (if hw_memories hw = [] then 1 else int (length (hw_memories hw)))"

definition total_memory :: "'a::floor_ceiling itself \<Rightarrow> device \<Rightarrow> machine \<Rightarrow> int result" where
  "total_memory ty dev hw =
     (if num_devices hw > 1
      then let lo = Min (set (hw_memories hw)); hi = Max (set (hw_memories hw))
           in if dev \<noteq> Cuda then Inl AssertionError
              else if lo = 0 then Inl ZeroDivisionError
              else if (15 / 10 :: 'a) < of_int hi / of_int lo then Inl ValueError
              else Inr (lo * num_devices hw)
      else if dev = Cuda then Inr (hw_gpu hw) else Inr (hw_ram hw))"

definition autograd_memory :: "machine \<Rightarrow> int \<Rightarrow> 'a::floor_ceiling" where
  "autograd_memory hw hidden_size = 2 * of_int gib * of_int (num_devices hw) / 14336 * of_int hidden_size"

definition choose_num_blocks :: "'a::floor_ceiling itself \<Rightarrow> device \<Rightarrow> machine \<Rightarrow> int \<Rightarrow> int \<Rightarrow> int \<Rightarrow> int result" where
  "choose_num_blocks ty dev hw hidden_size memory_per_block layers =
     (if dev = Cpu then Inl AssertionError
      else rbind (total_memory ty dev hw) (\<lambda>memory.
        if memory_per_block = 0 then Inl ZeroDivisionError
        else let n = \<lfloor>(of_int memory - (autograd_memory hw hidden_size :: 'a)) / of_int memory_per_block\<rfloor>
        in if n < 1 then Inl AssertionError else Inr (min n layers)))"

text \<open>C38. The number of blocks that a server chooses fits into its memory with their attention caches and the
  memory of backward passes, it is at least one and at most that of the model, and one block more
  would not fit, unless the server has the whole model.\<close>

theorem blocks_fit_memory:
  assumes "choose_num_blocks TYPE('a::floor_ceiling) dev hw hidden memory_per_block layers = Inr n"
    and "total_memory TYPE('a) dev hw = Inr memory" and "0 < memory_per_block" and "1 \<le> layers"
  shows "1 \<le> n \<and> n \<le> layers \<and> of_int (n * memory_per_block) + autograd_memory hw hidden \<le> (of_int memory :: 'a)
    \<and> (n < layers \<longrightarrow> (of_int memory :: 'a) < of_int ((n + 1) * memory_per_block) + autograd_memory hw hidden)"
proof -
  let ?q = "(of_int memory - (autograd_memory hw hidden :: 'a)) / of_int memory_per_block"
  have pos: "(0 :: 'a) < of_int memory_per_block" using assms(3) by simp
  have n: "1 \<le> \<lfloor>?q\<rfloor>" "n = min \<lfloor>?q\<rfloor> layers"
    using assms(1,2) by (auto simp: choose_num_blocks_def Let_def split: if_splits)
  have "of_int n \<le> ?q" using n(2) by (simp add: le_floor_iff [symmetric])
  then have fits: "of_int n * of_int memory_per_block \<le> of_int memory - (autograd_memory hw hidden :: 'a)"
    using pos by (simp add: pos_le_divide_eq)
  have more: "of_int memory - (autograd_memory hw hidden :: 'a) < (of_int n + 1) * of_int memory_per_block" if "n < layers"
  proof -
    have "n = \<lfloor>?q\<rfloor>" using n(2) that by simp
    then have "?q < of_int n + 1" using floor_correct [of ?q] by simp
    then show ?thesis using pos by (simp add: pos_divide_less_eq)
  qed
  show ?thesis using n assms(4) fits more by (auto simp: algebra_simps)
qed

section \<open>Throughput\<close>

record 'a rps =
  rp_inference :: 'a
  rp_forward :: 'a
  rp_network :: 'a

datatype 'a rps_file = No_file | Broken_file | Rps_file "(string, 'a rps) pydict"

definition read_rps :: "bool \<Rightarrow> 'a rps_file \<Rightarrow> (string, 'a rps) pydict" where
  "read_rps force_eval file =
     (if force_eval then [] else case file of Rps_file d \<Rightarrow> d | No_file \<Rightarrow> [] | Broken_file \<Rightarrow> [])"

definition underscored :: "string \<Rightarrow> string" where
  "underscored = map (\<lambda>c. if c = CHR '' '' then CHR ''_'' else c)"

definition rps_key :: "string \<Rightarrow> string \<Rightarrow> string \<Rightarrow> string list \<Rightarrow> string" where
  "rps_key model device_name dtype_name parallel =
     ''model_'' @ model @ ''_device_'' @ underscored device_name @ ''_dtype_'' @ dtype_name @
     (if 1 < length parallel
      then concat (map (\<lambda>(i, d). ''_tp'' @ nat_str i @ ''_'' @ underscored d) (enumerate 0 parallel)) else [])"

text \<open>What a server reports: compute is shared by the blocks a request uses on average.\<close>

definition reported_throughput :: "'a::linordered_field \<Rightarrow> int \<Rightarrow> bool \<Rightarrow> 'a rps \<Rightarrow> 'a" where
  "reported_throughput relay_penalty num_blocks via_relay info =
     min (rp_forward info / ((of_int num_blocks + 1) / 2)) (rp_network info * (if via_relay then relay_penalty else 1))"

text \<open>\<open>writable\<close>: the file can be written. The rates are \<open>measured\<close> only when they are not known.\<close>

definition get_server_throughput ::
  "string \<Rightarrow> bool \<Rightarrow> 'a rps_file \<Rightarrow> bool \<Rightarrow> 'a rps \<Rightarrow> 'a \<Rightarrow> int \<Rightarrow> bool \<Rightarrow> ('a::linordered_field \<times> 'a rps) \<times> 'a rps_file" where
  "get_server_throughput key force_eval file writable measured relay_penalty num_blocks via_relay =
     (let cache = read_rps force_eval file
      in case dget cache key of
           Some info \<Rightarrow> ((reported_throughput relay_penalty num_blocks via_relay info, info), file)
         | None \<Rightarrow> ((reported_throughput relay_penalty num_blocks via_relay measured, measured),
                    if writable then Rps_file (dset key measured cache) else file))"

datatype 'a speedtest = Speed_late | Speed_failed | Speed 'a 'a

definition measure_network_rps :: "'a::linordered_field \<Rightarrow> int \<Rightarrow> 'a speedtest \<Rightarrow> 'a" where
  "measure_network_rps default_speed hidden_size outcome =
     (let bits = of_int (hidden_size * 16)
      in case outcome of
           Speed download upload \<Rightarrow> if min download upload / bits = 0 then default_speed / bits else min download upload / bits
         | Speed_late \<Rightarrow> default_speed / bits
         | Speed_failed \<Rightarrow> default_speed / bits)"

text \<open>A rate is never zero, so routes that divide by it can be computed.\<close>

lemma measured_network_positive:
  assumes "0 < default_speed" and "0 < hidden_size" and "\<forall>d u. outcome = Speed d u \<longrightarrow> 0 \<le> d \<and> 0 \<le> u"
  shows "0 < measure_network_rps default_speed hidden_size outcome"
proof (cases outcome)
  case (Speed d u)
  then have "0 \<le> min d u" using assms(3) by simp
  then show ?thesis using assms(1,2) by (auto simp: Speed measure_network_rps_def Let_def less_le)
qed (use assms(1,2) in \<open>simp_all add: measure_network_rps_def Let_def\<close>)

lemma reported_throughput_positive:
  assumes "0 < rp_forward info" and "0 < rp_network info" and "0 < relay_penalty" and "0 \<le> num_blocks"
  shows "0 < reported_throughput relay_penalty num_blocks via_relay info"
  using assms by (auto simp: reported_throughput_def intro!: divide_pos_pos add_nonneg_pos)

text \<open>A rate is measured once: later calls report it without a new measurement, and the rates of other
  models are kept.\<close>

lemma throughput_measured_once:
  assumes "get_server_throughput key False file True measured relay_penalty n via_relay = (r, file1)"
  shows "get_server_throughput key False file1 w measured' relay_penalty n via_relay = (r, file1)"
    and "k \<noteq> key \<Longrightarrow> dget (read_rps False file1) k = dget (read_rps False file) k"
  using assms by (auto simp: get_server_throughput_def read_rps_def Let_def dict_simps split: option.splits)

text \<open>A forced measurement writes a file in which the rates of all other models are lost.\<close>

lemma forced_measurement_forgets:
  "get_server_throughput key True file True measured relay_penalty n via_relay =
     ((reported_throughput relay_penalty n via_relay measured, measured), Rps_file [(key, measured)])"
  by (simp add: get_server_throughput_def read_rps_def)

section \<open>Reachability\<close>

datatype reach_reply = Reachable | Unreachable | Api_down

text \<open>The service is asked until it says yes; when it cannot be asked, the check is skipped.\<close>

fun validate_loop :: "nat \<Rightarrow> reach_reply list \<Rightarrow> unit result" where
  "validate_loop 0 replies = Inl RuntimeError"
| "validate_loop (Suc n) [] = Inr ()"
| "validate_loop (Suc n) (r # replies) =
     (case r of Reachable \<Rightarrow> Inr () | Api_down \<Rightarrow> Inr () | Unreachable \<Rightarrow> validate_loop n replies)"

text \<open>A list of replies that ends stands for a service that is down from then on.\<close>

definition validate_reachability :: "'a::floor_ceiling \<Rightarrow> 'a \<Rightarrow> reach_reply list \<Rightarrow> unit result" where
  "validate_reachability wait_time retry_delay replies =
     (if retry_delay = 0 then Inl ZeroDivisionError
      else validate_loop (nat (\<lfloor>wait_time / retry_delay\<rfloor> + 1)) replies)"

lemma validate_loop_fails_iff:
  "validate_loop n replies = Inl e \<longleftrightarrow>
     e = RuntimeError \<and> n \<le> length replies \<and> (\<forall>r \<in> set (take n replies). r = Unreachable)"
  by (induction n replies rule: validate_loop.induct) (auto split: reach_reply.splits)

text \<open>
  \<open>dial p q\<close>: the probe of peer \<open>p\<close> reaches \<open>q\<close>. A peer that is asked about itself answers yes; asked about
  another, it asks that one about itself.
\<close>

function call_check :: "('p \<Rightarrow> 'p \<Rightarrow> bool) \<Rightarrow> 'p \<Rightarrow> 'p \<Rightarrow> 'p \<Rightarrow> bool option"
  and rpc_check :: "('p \<Rightarrow> 'p \<Rightarrow> bool) \<Rightarrow> 'p \<Rightarrow> 'p \<Rightarrow> bool" where
  "call_check dial me remote check = (if dial me remote then Some (rpc_check dial remote check) else None)"
| "rpc_check dial local check = (if check = local then True else call_check dial local check check = Some True)"
  by pat_completeness auto
termination
  by (relation "measure (\<lambda>x. case x of
      Inl (dial, me, remote, check) \<Rightarrow> if remote = check then 1 else 3
    | Inr (dial, local, check) \<Rightarrow> if check = local then 0 else 2)") auto

declare call_check.simps [simp del] rpc_check.simps [simp del]

lemma rpc_check_iff: "rpc_check dial local check \<longleftrightarrow> check = local \<or> dial local check"
  by (simp add: rpc_check.simps [of dial local] call_check.simps rpc_check.simps [of dial check check])

lemma call_check_cases:
  "call_check dial me remote check = (if dial me remote then Some (check = remote \<or> dial remote check) else None)"
  by (simp add: call_check.simps rpc_check_iff)

text \<open>Successes and answers, until enough peers have answered.\<close>

fun count_checks :: "nat \<Rightarrow> nat \<Rightarrow> nat \<Rightarrow> bool option list \<Rightarrow> nat \<times> nat" where
  "count_checks max_peers successes requests [] = (successes, requests)"
| "count_checks max_peers successes requests (None # answers) = count_checks max_peers successes requests answers"
| "count_checks max_peers successes requests (Some ok # answers) =
     (let s = (if ok then successes + 1 else successes)
      in if max_peers \<le> requests + 1 then (s, requests + 1) else count_checks max_peers s (requests + 1) answers)"

definition check_direct_reachability ::
  "nat \<Rightarrow> 'a::linordered_field \<Rightarrow> ('p \<Rightarrow> 'p \<Rightarrow> bool) \<Rightarrow> 'p \<Rightarrow> 'p list \<Rightarrow> bool option" where
  "check_direct_reachability max_peers threshold dial me peers =
     (case count_checks max_peers 0 0 (map (\<lambda>q. call_check dial me q me) peers) of
        (s, r) \<Rightarrow> if 0 < r then Some (threshold \<le> of_nat s / of_nat r) else None)"

text \<open>Whether the server is to be a client of relays only.\<close>

definition via_relay :: "bool option \<Rightarrow> bool option \<Rightarrow> bool" where
  "via_relay chosen is_reachable = (case chosen of Some b \<Rightarrow> b | None \<Rightarrow> is_reachable = Some False)"

lemma count_checks_bounds:
  "count_checks m s r answers = (s', r') \<Longrightarrow> s \<le> r \<Longrightarrow>
     s' \<le> r' \<and> r \<le> r' \<and> s \<le> s' \<and> (s < s' \<longrightarrow> Some True \<in> set answers) \<and> (s' - s < r' - r \<longrightarrow> Some False \<in> set answers)
     \<and> (r' = r \<longrightarrow> (\<forall>a \<in> set answers. a = None)) \<and> r' \<le> max m (r + 1)"
proof (induction m s r answers arbitrary: s' r' rule: count_checks.induct)
  case (3 m s r ok answers)
  show ?case
  proof (cases "m \<le> r + 1")
    case True
    then show ?thesis using 3(2,3) by (auto simp: Let_def split: if_splits)
  next
    case False
    have "(if ok then s + 1 else s) \<le> r + 1" using 3(3) by simp
    from 3(1) [OF refl False _ this] 3(2) False show ?thesis by (auto simp: Let_def split: if_splits)
  qed
qed auto

text \<open>A verdict rests on peers that were asked: the server is taken to be reachable only if one of them dials
  it, and to be behind a firewall only if one of them cannot; without an answer there is no
  verdict, and never are more peers counted than asked for.\<close>

lemma reachability_verdict:
  assumes "0 < threshold" and "threshold \<le> (1::'a::linordered_field)" and "me \<notin> set peers"
  shows "case check_direct_reachability max_peers threshold dial me peers of
      None \<Rightarrow> \<forall>q \<in> set peers. \<not> dial me q
    | Some True \<Rightarrow> \<exists>q \<in> set peers. dial me q \<and> dial q me
    | Some False \<Rightarrow> \<exists>q \<in> set peers. dial me q \<and> \<not> dial q me"
proof -
  let ?answers = "map (\<lambda>q. call_check dial me q me) peers"
  obtain s r where c: "count_checks max_peers 0 0 ?answers = (s, r)" by (metis surj_pair)
  note b = count_checks_bounds [OF c]
  have yes: "\<exists>q \<in> set peers. dial me q \<and> dial q me" if "Some True \<in> set ?answers"
    using that assms(3) by (auto simp: call_check_cases split: if_splits)
  have no: "\<exists>q \<in> set peers. dial me q \<and> \<not> dial q me" if "Some False \<in> set ?answers"
    using that by (auto simp: call_check_cases split: if_splits)
  show ?thesis
  proof (cases "r = 0")
    case True
    then have "\<forall>q \<in> set peers. \<not> dial me q" using b by (auto simp: call_check_cases split: if_splits)
    then show ?thesis using c True by (simp add: check_direct_reachability_def)
  next
    case False
    then have r: "(0 :: 'a) < of_nat r" by simp
    show ?thesis
    proof (cases "threshold \<le> of_nat s / of_nat r")
      case t: True
      then have "0 < s" using assms(1) by (cases s) auto
      then show ?thesis using yes b c False t by (simp add: check_direct_reachability_def)
    next
      case f: False
      then have "s < r" using b assms(2) r by (cases "s = r") auto
      then show ?thesis using no b c False f by (simp add: check_direct_reachability_def)
    qed
  qed
qed

end
