(* ===== verification/PetalsServerSetup.thy ===== *)
theory PetalsServerSetup
  imports PetalsStartup PetalsAnnouncer PetalsBlocks
begin

text \<open>
  \<open>Server.__init__\<close> of petals/server/server.py as a whole: from the arguments of the command line and the
  configuration of the model to the settings that the server runs with. The DHT and the measurement of the
  throughput (PetalsStartup) are not part of it.
\<close>

record 'a server_args =
  sa_dht_prefix :: "string option"
  sa_num_blocks :: "int option"
  sa_block_indices :: "string option"
  sa_device :: "device option"
  sa_torch_dtype :: "dtype option"
  sa_quant_type :: "quant_type option"
  sa_update_period :: 'a
  sa_expiration :: "'a option"
  sa_max_batch_size :: "int option"
  sa_inference_max_length :: "int option"
  sa_attn_cache_tokens :: "int option"
  sa_adapter_bytes :: int

record model_config =
  mc_prefix :: string
  mc_layers :: int
  mc_hidden_size :: int
  mc_kv_groups :: int
  mc_dtype :: "dtype option"
  mc_n_params :: int

record 'a server_settings =
  st_dht_prefix :: string
  st_expiration :: 'a
  st_module_uids :: "string list"
  st_device :: device
  st_dtype :: dtype
  st_quant :: quant_type
  st_max_batch_size :: int
  st_inference_max_length :: int
  st_cache_bytes_per_block :: int
  st_strict_indices :: "int list option"
  st_num_blocks :: int
  st_attn_cache_bytes :: int

definition default_value :: "'b option \<Rightarrow> 'b \<Rightarrow> 'b" where
  "default_value given fallback = (case given of Some v \<Rightarrow> v | None \<Rightarrow> fallback)"

definition pick_device :: "machine \<Rightarrow> device option \<Rightarrow> device" where
  "pick_device hw given = default_value given (if hw_cuda hw then Cuda else if hw_mps hw then Mps else Cpu)"

definition pick_dtype :: "dtype option \<Rightarrow> device \<Rightarrow> dtype option \<Rightarrow> dtype result" where
  "pick_dtype config_dtype dev given =
     (let dt = resolve_block_dtype config_dtype given
      in if dev = Cpu \<and> dt = Float16 then Inl ValueError
         else Inr (if dev = Mps \<and> dt = Bfloat16 then Float16 else dt))"

definition pick_quant :: "device \<Rightarrow> quant_type option \<Rightarrow> quant_type" where
  "pick_quant dev given = default_value given (if dev = Cuda then Quant_nf4 else Quant_none)"

definition multiquery :: "model_config \<Rightarrow> bool" where
  "multiquery mc \<longleftrightarrow> 1 < mc_kv_groups mc"

definition cache_bytes_per_block :: "model_config \<Rightarrow> dtype \<Rightarrow> int option \<Rightarrow> int result" where
  "cache_bytes_per_block mc dt attn_cache_tokens =
     (let tokens = default_value attn_cache_tokens (if multiquery mc then 16384 else 4096)
      in if mc_kv_groups mc = 0 then Inl ZeroDivisionError
         else Inr (2 * mc_hidden_size mc * tokens div mc_kv_groups mc * get_size_in_bytes dt))"

text \<open>\<open>start:end\<close>; whatever goes wrong in reading it is a \<open>ValueError\<close>.\<close>

definition parse_block_indices :: "string \<Rightarrow> (int \<times> int) result" where
  "parse_block_indices block_indices =
     (case rmap (\<lambda>index. py_int (py_strip index)) (py_split CHR '':'' block_indices) of
        Inr [s, e] \<Rightarrow> Inr (s, e)
      | _ \<Rightarrow> Inl ValueError)"

definition memory_per_block :: "'a::floor_ceiling itself \<Rightarrow> model_config \<Rightarrow> dtype \<Rightarrow> quant_type \<Rightarrow> int \<Rightarrow> int \<Rightarrow> int" where
  "memory_per_block ty mc dt quant cache_bytes adapter_bytes =
     get_block_size (1 / 100 :: 'a) (mc_n_params mc) (mc_dtype mc) (In_memory quant) (Some dt) + cache_bytes + adapter_bytes"

text \<open>The blocks of the operator, or their number; with neither the server chooses how many.\<close>

definition choose_served ::
  "'a::floor_ceiling server_args \<Rightarrow> model_config \<Rightarrow> machine \<Rightarrow> device \<Rightarrow> int \<Rightarrow> (int list option \<times> int) result" where
  "choose_served A mc hw dev per_block =
     (case (sa_num_blocks A, sa_block_indices A) of
        (Some n, Some indices) \<Rightarrow> Inl AssertionError
      | (None, Some indices) \<Rightarrow>
          rbind (parse_block_indices indices) (\<lambda>(s, e). Inr (Some [s..e - 1], int (length [s..e - 1])))
      | (Some n, None) \<Rightarrow> Inr (None, min n (mc_layers mc))
      | (None, None) \<Rightarrow>
          rbind (choose_num_blocks TYPE('a) dev hw (mc_hidden_size mc) per_block (mc_layers mc))
            (\<lambda>n. Inr (None, min n (mc_layers mc))))"

text \<open>\<open>discrepancy\<close> is hivemind's bound on the clocks of the DHT.\<close>

definition server_setup :: "'a::floor_ceiling \<Rightarrow> 'a server_args \<Rightarrow> model_config \<Rightarrow> machine \<Rightarrow> 'a server_settings result" where
  "server_setup discrepancy A mc hw =
     (let dht_prefix = default_value (sa_dht_prefix A) (mc_prefix mc)
      in if CHR ''.'' \<in> set dht_prefix \<or> CHR '' '' \<in> set dht_prefix then Inl AssertionError
      else let dev = pick_device hw (sa_device A); quant = pick_quant dev (sa_quant_type A)
      in rbind (pick_dtype (mc_dtype mc) dev (sa_torch_dtype A)) (\<lambda>dt.
         rbind (cache_bytes_per_block mc dt (sa_attn_cache_tokens A)) (\<lambda>cache_bytes.
         rbind (choose_served A mc hw dev (memory_per_block TYPE('a) mc dt quant cache_bytes (sa_adapter_bytes A)))
           (\<lambda>(strict, n). Inr
             \<lparr>st_dht_prefix = dht_prefix,
              st_expiration = default_value (sa_expiration A) (max (2 * sa_update_period A) discrepancy),
              st_module_uids = map (uid_of dht_prefix) [0..mc_layers mc - 1],
              st_device = dev, st_dtype = dt, st_quant = quant,
              st_max_batch_size = default_value (sa_max_batch_size A) (if multiquery mc then 8192 else 2048),
              st_inference_max_length = default_value (sa_inference_max_length A) (if multiquery mc then 8192 else 2048),
              st_cache_bytes_per_block = cache_bytes, st_strict_indices = strict, st_num_blocks = n,
              st_attn_cache_bytes = cache_bytes * n\<rparr>))))"

section \<open>A range reaches the swarm\<close>

lemma int_str_chars: "c \<in> set (int_str i) \<Longrightarrow> \<not> py_space c \<and> c \<noteq> CHR ''.'' \<and> c \<noteq> CHR '' ''"
proof -
  assume c: "c \<in> set (int_str i)"
  then have "c = CHR ''-'' \<or> is_digit c" using nat_str_digits by (auto simp: int_str_def split: if_splits)
  then show ?thesis using is_digit_not_space is_digit_distinct [of c] by (auto simp: py_space_def)
qed

lemma parse_uid_of:
  assumes "CHR ''.'' \<notin> set p" and "CHR '' '' \<notin> set p"
  shows "parse_uid (uid_of p i) = Inr (p, i)"
proof -
  have "CHR ''.'' \<notin> set (int_str i)" "CHR '' '' \<notin> set (int_str i)" using int_str_chars by blast+
  then show ?thesis using assms by (simp add: parse_uid_def uid_of_def py_split_append py_split_absent)
qed

lemma parse_block_indices_range: "parse_block_indices (format_range s e) = Inr (s, e)"
proof -
  have "py_strip (int_str i) = int_str i" for i using int_str_chars by (intro py_strip_none) blast
  then show ?thesis
    by (simp add: parse_block_indices_def format_range_def py_split_append int_str_no_colon py_split_absent)
qed

lemma upto_fold:
  assumes "(s::int) < e"
  shows "fold min (tl [s..e - 1]) (hd [s..e - 1]) = s" and "fold max (tl [s..e - 1]) (hd [s..e - 1]) = e - 1"
proof -
  have xs: "[s..e - 1] = hd [s..e - 1] # tl [s..e - 1]" using assms by (simp add: upto.simps)
  have "fold min (tl [s..e - 1]) (hd [s..e - 1]) = Min (set [s..e - 1])"
    by (subst (3) xs) (rule Min.set_eq_fold [symmetric])
  then show "fold min (tl [s..e - 1]) (hd [s..e - 1]) = s" using assms by (simp add: Min_eq_iff)
  have "fold max (tl [s..e - 1]) (hd [s..e - 1]) = Max (set [s..e - 1])"
    by (subst (3) xs) (rule Max.set_eq_fold [symmetric])
  then show "fold max (tl [s..e - 1]) (hd [s..e - 1]) = e - 1" using assms by (simp add: Max_eq_iff)
qed

lemma announcer_of_range:
  assumes "CHR ''.'' \<notin> set p" and "CHR '' '' \<notin> set p" and "s < e" and "kv_groups \<noteq> 0"
  shows "\<exists>an :: 'g announcer. announcer_init (map (uid_of p) [s..e - 1]) st hidden bytes kv_groups = Inr an
    \<and> an_start_block an = s \<and> an_end_block an = e \<and> an_dht_prefix an = p"
proof -
  have "rmap (\<lambda>u. rbind (parse_uid u) (\<lambda>(_, i). Inr i)) (map (uid_of p) [s..e - 1]) = Inr [s..e - 1]"
    using rmap_total [of "[s..e - 1]" "\<lambda>i. rbind (parse_uid (uid_of p i)) (\<lambda>(_, i). Inr i)" "\<lambda>i. i"] parse_uid_of [OF assms(1,2)]
    by (simp add: rmap_Inr_iff list_all2_map1)
  moreover have "map (uid_of p) [s..e - 1] = uid_of p s # map (uid_of p) [s + 1..e - 1]" using assms(3) by (simp add: upto.simps)
  ultimately show ?thesis using assms(4) upto_fold [OF assms(3)] parse_uid_of [OF assms(1,2)]
    by (auto simp: announcer_init_def Let_def)
qed

text \<open>C37. The range \<open>s:e\<close> that the mother assigns and the shard manager passes on as text arrives: a server that
  starts with it serves exactly the blocks \<open>s\<close> to \<open>e - 1\<close>, whatever other servers do, plans the attention caches of
  \<open>e - s\<close> blocks, and announces itself for \<open>s\<close> to \<open>e\<close>.\<close>

theorem range_reaches_swarm:
  assumes "server_setup discrepancy A mc hw = Inr S" and "sa_block_indices A = Some (format_range s e)" and "s < e"
  shows "server_choose_blocks (st_strict_indices S) (st_num_blocks S) infos = Inr [s..e - 1]
    \<and> st_num_blocks S = e - s \<and> st_attn_cache_bytes S = st_cache_bytes_per_block S * (e - s)
    \<and> (\<exists>an :: 'g announcer. announcer_init (map (uid_of (st_dht_prefix S)) [s..e - 1]) S_JOINING (mc_hidden_size mc)
          (get_size_in_bytes (st_dtype S)) (mc_kv_groups mc) = Inr an
        \<and> an_start_block an = s \<and> an_end_block an = e \<and> an_dht_prefix an = st_dht_prefix S)"
proof -
  have r: "choose_served A mc hw dev per = (if sa_num_blocks A = None then Inr (Some [s..e - 1], e - s) else Inl AssertionError)" for dev per
    using assms(2,3) by (simp add: choose_served_def parse_block_indices_range split: option.splits)
  from assms(1) have st: "CHR ''.'' \<notin> set (st_dht_prefix S)" "CHR '' '' \<notin> set (st_dht_prefix S)"
    "mc_kv_groups mc \<noteq> 0" "st_strict_indices S = Some [s..e - 1]" "st_num_blocks S = e - s"
    "st_attn_cache_bytes S = st_cache_bytes_per_block S * (e - s)"
    by (auto simp: server_setup_def Let_def r rbind_Inr_iff cache_bytes_per_block_def split: if_splits)
  show ?thesis
    using announcer_of_range [OF st(1,2) assms(3) st(3)] st(4-6) by (simp add: server_choose_blocks_def)
qed

section \<open>Concrete servers\<close>

definition su_args :: "int option \<Rightarrow> string option \<Rightarrow> rat server_args" where
  "su_args n indices = \<lparr>sa_dht_prefix = None, sa_num_blocks = n, sa_block_indices = indices, sa_device = None,
     sa_torch_dtype = None, sa_quant_type = None, sa_update_period = 60, sa_expiration = None, sa_max_batch_size = None,
     sa_inference_max_length = None, sa_attn_cache_tokens = None, sa_adapter_bytes = 0\<rparr>"

definition su_model :: model_config where
  "su_model = \<lparr>mc_prefix = ''smol-hf'', mc_layers = 24, mc_hidden_size = 2048, mc_kv_groups = 1, mc_dtype = Some Bfloat16,
     mc_n_params = 50000000\<rparr>"

definition su_machine :: machine where
  "su_machine = \<lparr>hw_cuda = True, hw_mps = False, hw_gpu = gib, hw_ram = 16 * gib, hw_memories = [gib]\<rparr>"

lemma su_setup:
  "\<exists>S. server_setup 3 (su_args None (Some (format_range s e))) su_model su_machine = Inr S
    \<and> st_strict_indices S = Some [s..e - 1] \<and> st_num_blocks S = int (length [s..e - 1])"
  by (simp add: server_setup_def Let_def su_args_def su_model_def su_machine_def pick_device_def pick_dtype_def pick_quant_def
      default_value_def resolve_block_dtype_def cache_bytes_per_block_def multiquery_def choose_served_def parse_block_indices_range
      del: length_upto)

lemma range_reaches_swarm_witness:
  "\<exists>S. server_setup 3 (su_args None (Some (format_range 6 12))) su_model su_machine = Inr S \<and> st_num_blocks S = 6
     \<and> server_choose_blocks (st_strict_indices S) (st_num_blocks S) ([] :: (nat, rat) module_info list) = Inr [6, 7, 8, 9, 10, 11]"
proof -
  obtain S where S: "server_setup 3 (su_args None (Some (format_range 6 12))) su_model su_machine = Inr S" using su_setup by blast
  have f: "sa_block_indices (su_args None (Some (format_range 6 12))) = Some (format_range 6 12)" by (simp add: su_args_def)
  have u: "[6..12 - 1 :: int] = [6, 7, 8, 9, 10, 11]" by code_simp
  have r: "server_choose_blocks (st_strict_indices S) (st_num_blocks S) ([] :: (nat, rat) module_info list) = Inr [6..12 - 1]
      \<and> st_num_blocks S = 12 - 6"
  proof -
    have "(6::int) < 12" by simp
    from range_reaches_swarm [where 'g = unit, OF S f this] show ?thesis by blast
  qed
  moreover have "(12::int) - 6 = 6" by simp
  ultimately show ?thesis using S unfolding u by metis
qed

text \<open>Without a range the server takes as many blocks as its memory holds: here 12 of 24.\<close>

lemma blocks_fit_memory_witness:
  "choose_num_blocks TYPE(rat) Cuda su_machine 2048 60000000 24 = Inr 12
   \<and> of_int (12 * 60000000) + autograd_memory su_machine 2048 \<le> (of_int gib :: rat)
   \<and> (of_int gib :: rat) < of_int (13 * 60000000) + autograd_memory su_machine 2048"
proof -
  have m: "total_memory TYPE(rat) Cuda su_machine = Inr gib" by (simp add: total_memory_def su_machine_def num_devices_def)
  have c: "choose_num_blocks TYPE(rat) Cuda su_machine 2048 60000000 24 = Inr 12"
    by (simp add: choose_num_blocks_def m) (simp add: autograd_memory_def gib_def num_devices_def su_machine_def floor_eq_iff)
  from blocks_fit_memory [OF c m] c show ?thesis by simp
qed

text \<open>A range that ends before it starts is not refused: the server starts with no blocks.\<close>

lemma empty_range_accepted:
  "\<exists>S. server_setup 3 (su_args None (Some (format_range 5 3))) su_model su_machine = Inr S
    \<and> st_strict_indices S = Some [] \<and> st_num_blocks S = 0"
  using su_setup [of 5 3] by simp

end
