(* ===== verification/PetalsClientUtils.thy ===== *)
theory PetalsClientUtils
  imports PyString PetalsSpans
begin

text \<open>
  Helpers of Petals clients and servers: utils/packaging.py packs the arguments of a call into tensors and a
  structure, utils/ping.py smooths measured round trips, client/lm\_head.py computes logits in chunks of the
  vocabulary. \<open>nested_flatten\<close> and \<open>nested_pack\<close> of hivemind are parameters.
\<close>

section \<open>Packing of arguments\<close>

text \<open>A tensor is known by its identity, as the keys of the dictionary in the code.\<close>

datatype ('t, 'o) arg = Tensor 't | Bytes string | Other 'o

definition mark_masked_tensor :: "nat \<Rightarrow> string" where
  "mark_masked_tensor i = ''__T'' @ nat_str i"

definition is_masked_tensor :: "('t, 'o) arg \<Rightarrow> bool" where
  "is_masked_tensor a = (case a of Bytes b \<Rightarrow> startswith b ''__T'' | Tensor t \<Rightarrow> False | Other x \<Rightarrow> False)"

definition get_tensor_index :: "string \<Rightarrow> int result" where
  "get_tensor_index b = py_int (drop 3 b)"

fun position_of :: "'t \<Rightarrow> 't list \<Rightarrow> nat" where
  "position_of t [] = 0"
| "position_of t (u # us) = (if u = t then 0 else Suc (position_of t us))"

text \<open>\<open>tensor_to_index.setdefault(value, len(flat_tensors))\<close>: a tensor that comes again keeps its index.\<close>

fun pack_values :: "'t list \<Rightarrow> ('t, 'o) arg list \<Rightarrow> 't list \<times> ('t, 'o) arg list" where
  "pack_values flat [] = (flat, [])"
| "pack_values flat (v # vs) =
     (case v of
        Tensor t \<Rightarrow>
          (case pack_values (if t \<in> set flat then flat else flat @ [t]) vs of
             (flat1, masked) \<Rightarrow> (flat1, Bytes (mark_masked_tensor (position_of t flat)) # masked))
      | _ \<Rightarrow> (case pack_values flat vs of (flat1, masked) \<Rightarrow> (flat1, v # masked)))"

definition pack_args_kwargs ::
  "('s \<Rightarrow> ('t, 'o) arg list) \<Rightarrow> (('t, 'o) arg list \<Rightarrow> 's \<Rightarrow> 's) \<Rightarrow> 's \<Rightarrow> 't list \<times> 's" where
  "pack_args_kwargs nested_flatten nested_pack args =
     (case pack_values [] (nested_flatten args) of (flat, masked) \<Rightarrow> (flat, nested_pack masked args))"

text \<open>An index from the end of the list is taken when it is negative.\<close>

definition py_item :: "'t list \<Rightarrow> int \<Rightarrow> 't result" where
  "py_item xs i =
     (if 0 \<le> i \<and> i < int (length xs) then Inr (xs ! nat i)
      else if - int (length xs) \<le> i \<and> i < 0 then Inr (xs ! nat (i + int (length xs)))
      else Inl IndexError)"

definition unpack_value :: "'t list \<Rightarrow> ('t, 'o) arg \<Rightarrow> ('t, 'o) arg result" where
  "unpack_value flat v =
     (if \<not> is_masked_tensor v then Inr v
      else case v of
        Bytes b \<Rightarrow> rbind (get_tensor_index b) (\<lambda>i. rbind (py_item flat i) (\<lambda>t. Inr (Tensor t)))
      | _ \<Rightarrow> Inr v)"

definition unpack_args_kwargs ::
  "('s \<Rightarrow> ('t, 'o) arg list) \<Rightarrow> (('t, 'o) arg list \<Rightarrow> 's \<Rightarrow> 's) \<Rightarrow> 't list \<Rightarrow> 's \<Rightarrow> 's result" where
  "unpack_args_kwargs nested_flatten nested_pack flat packed =
     rbind (rmap (unpack_value flat) (nested_flatten packed)) (\<lambda>vs. Inr (nested_pack vs packed))"

lemma position_of_in: "t \<in> set flat \<Longrightarrow> position_of t flat < length flat \<and> flat ! position_of t flat = t"
  by (induction flat) auto

lemma position_of_out: "t \<notin> set flat \<Longrightarrow> position_of t flat = length flat"
  by (induction flat) auto

lemma pack_values_grows: "\<exists>more. fst (pack_values flat vs) = flat @ more"
proof (induction flat vs rule: pack_values.induct)
  case (2 flat v vs)
  then show ?case by (cases v) (fastforce split: prod.splits)+
qed simp

lemma pack_values_length: "length (snd (pack_values flat vs)) = length vs"
  by (induction flat vs rule: pack_values.induct) (auto split: prod.splits arg.splits)

lemma pack_values_distinct:
  "distinct flat \<Longrightarrow> distinct (fst (pack_values flat vs)) \<and> set (fst (pack_values flat vs)) = set flat \<union> {t. Tensor t \<in> set vs}"
proof (induction flat vs rule: pack_values.induct)
  case (2 flat v vs)
  show ?case
  proof (cases v)
    case (Tensor t)
    let ?flat = "if t \<in> set flat then flat else flat @ [t]"
    obtain flat1 masked where p: "pack_values ?flat vs = (flat1, masked)" by (metis surj_pair)
    have "distinct ?flat" using 2(4) by simp
    from 2(1) [OF Tensor this] have "distinct flat1" "set flat1 = set ?flat \<union> {t. Tensor t \<in> set vs}" by (simp_all only: p fst_conv)
    moreover have "set ?flat = insert t (set flat)" by auto
    ultimately show ?thesis using p by (auto simp: Tensor)
  next
    case (Bytes b)
    then show ?thesis using 2(2) [OF Bytes 2(4)] by (cases "pack_values flat vs") auto
  next
    case (Other x)
    then show ?thesis using 2(3) [OF Other 2(4)] by (cases "pack_values flat vs") auto
  qed
qed simp

lemma unpack_marked:
  "i < length flat \<Longrightarrow> unpack_value flat (Bytes (mark_masked_tensor i)) = Inr (Tensor (flat ! i))"
  by (simp add: unpack_value_def is_masked_tensor_def mark_masked_tensor_def startswith_def get_tensor_index_def py_item_def)

lemma unpack_pack_values:
  assumes "\<forall>b. Bytes b \<in> set vs \<longrightarrow> \<not> startswith b ''__T''"
  shows "rmap (unpack_value (fst (pack_values flat vs))) (snd (pack_values flat vs)) = Inr vs"
  using assms
proof (induction flat vs rule: pack_values.induct)
  case (2 flat v vs)
  show ?case
  proof (cases v)
    case (Tensor t)
    let ?flat = "if t \<in> set flat then flat else flat @ [t]"
    obtain flat1 masked where p: "pack_values ?flat vs = (flat1, masked)" by (metis surj_pair)
    obtain more_tensors where m: "flat1 = ?flat @ more_tensors" using pack_values_grows [of ?flat vs] p by auto
    have "position_of t flat < length ?flat \<and> ?flat ! position_of t flat = t"
      using position_of_in [of t flat] position_of_out [of t flat] by auto
    then have "position_of t flat < length flat1 \<and> flat1 ! position_of t flat = t" by (simp add: m nth_append)
    with unpack_marked [of "position_of t flat" flat1]
    have u: "unpack_value flat1 (Bytes (mark_masked_tensor (position_of t flat))) = Inr (Tensor t)" by metis
    have "rmap (unpack_value flat1) masked = Inr vs" using 2(1) [OF Tensor] 2(4) p by auto
    then show ?thesis using p by (simp add: Tensor u)
  next
    case (Bytes b)
    then have "unpack_value flat1 v = Inr v" for flat1 using 2(4) by (simp add: unpack_value_def is_masked_tensor_def)
    moreover obtain flat1 masked where p: "pack_values flat vs = (flat1, masked)" by (metis surj_pair)
    moreover have "rmap (unpack_value flat1) masked = Inr vs" using 2(2) [OF Bytes] 2(4) p by auto
    ultimately show ?thesis by (simp add: Bytes)
  next
    case (Other x)
    then have "unpack_value flat1 v = Inr v" for flat1 by (simp add: unpack_value_def is_masked_tensor_def)
    moreover obtain flat1 masked where p: "pack_values flat vs = (flat1, masked)" by (metis surj_pair)
    moreover have "rmap (unpack_value flat1) masked = Inr vs" using 2(3) [OF Other] 2(4) p by auto
    ultimately show ?thesis by (simp add: Other)
  qed
qed simp

text \<open>C40. Unpacking what was packed gives the arguments back, with every tensor in its place, and every tensor is sent
  once, however often it occurs. No argument of type bytes looks like a mark; \<open>nested_flatten\<close> lists the values of a
  structure in the order in which \<open>nested_pack\<close> puts values into it.\<close>

theorem packed_arguments_return:
  fixes nested_flatten :: "'s \<Rightarrow> ('t, 'o) arg list"
  assumes flatten_pack: "\<And>vs s. length vs = length (nested_flatten s) \<Longrightarrow> nested_flatten (nested_pack vs s) = vs"
    and pack_flatten: "\<And>s. nested_pack (nested_flatten s) s = s"
    and pack_pack: "\<And>vs us s. length vs = length (nested_flatten s) \<Longrightarrow> length us = length (nested_flatten s)
      \<Longrightarrow> nested_pack vs (nested_pack us s) = nested_pack vs s"
    and "\<forall>b. Bytes b \<in> set (nested_flatten args) \<longrightarrow> \<not> startswith b ''__T''"
    and "pack_args_kwargs nested_flatten nested_pack args = (flat, packed)"
  shows "unpack_args_kwargs nested_flatten nested_pack flat packed = Inr args
    \<and> distinct flat \<and> set flat = {t. Tensor t \<in> set (nested_flatten args)}"
proof -
  obtain masked where p: "pack_values [] (nested_flatten args) = (flat, masked)" "packed = nested_pack masked args"
    using assms(5) by (auto simp: pack_args_kwargs_def split: prod.splits)
  have len: "length masked = length (nested_flatten args)" using pack_values_length [of "[]" "nested_flatten args"] p(1) by simp
  have "rmap (unpack_value flat) masked = Inr (nested_flatten args)"
    using unpack_pack_values [OF assms(4), of "[]"] p(1) by simp
  then have "unpack_args_kwargs nested_flatten nested_pack flat packed = Inr args"
    by (simp add: unpack_args_kwargs_def p(2) flatten_pack [OF len] pack_pack [OF refl len] pack_flatten)
  then show ?thesis using pack_values_distinct [of "[]" "nested_flatten args"] p(1) by simp
qed

text \<open>Values in a list, and values in a list of lists, as structures.\<close>

lemma packed_arguments_return_witness:
  "unpack_args_kwargs id (\<lambda>vs s. vs) [5, 7] (snd (pack_args_kwargs id (\<lambda>vs s. vs) [Tensor 5, Other True, Tensor 7, Tensor (5::nat), Bytes ''x'']))
     = Inr [Tensor 5, Other True, Tensor 7, Tensor 5, Bytes ''x'']"
proof -
  let ?args = "[Tensor 5, Other True, Tensor 7, Tensor (5::nat), Bytes ''x''] :: (nat, bool) arg list"
  obtain flat packed where p: "pack_args_kwargs id (\<lambda>vs s. vs) ?args = (flat, packed)" by (metis surj_pair)
  have "pack_args_kwargs id (\<lambda>vs s. vs) ?args = ([5, 7], [Bytes ''__T0'', Other True, Bytes ''__T1'', Bytes ''__T0'', Bytes ''x''])"
    by code_simp
  then have f: "flat = [5, 7]" using p by simp
  have "unpack_args_kwargs id (\<lambda>vs s. vs) flat packed = Inr ?args"
    using packed_arguments_return [where nested_flatten = id and nested_pack = "\<lambda>vs s. vs", OF _ _ _ _ p]
    by (simp add: startswith_def)
  then show ?thesis using f p by simp
qed

text \<open>Bytes that look like a mark come back as a tensor.\<close>

lemma bytes_become_tensor:
  "case pack_args_kwargs id (\<lambda>vs s. vs) [Bytes ''__T0'', Tensor (5::nat)] of (flat, packed) \<Rightarrow>
     unpack_args_kwargs id (\<lambda>vs s. vs) flat packed = Inr [Tensor 5, Tensor 5 :: (nat, bool) arg]"
  by code_simp

section \<open>Round trips\<close>

text \<open>\<open>PingAggregator\<close>; the table with expiring entries is hivemind's, so \<open>get\<close> and \<open>store\<close> are parameters.\<close>

definition smooth_rtt :: "'a::linordered_field \<Rightarrow> 'a rtt option \<Rightarrow> 'a rtt \<Rightarrow> 'a rtt" where
  "smooth_rtt alpha prev rtt =
     (case prev of
        Some (Finite p) \<Rightarrow> (case rtt of Finite r \<Rightarrow> Finite (alpha * r + (1 - alpha) * p) | Infinite \<Rightarrow> Infinite)
      | _ \<Rightarrow> rtt)"

fun aggregate_pings ::
  "('s \<Rightarrow> 'p \<Rightarrow> 'a rtt option) \<Rightarrow> ('p \<Rightarrow> 'a rtt \<Rightarrow> 'a \<Rightarrow> 's \<Rightarrow> 's) \<Rightarrow> 'a::linordered_field \<Rightarrow> 'a \<Rightarrow> ('p \<times> 'a rtt) list \<Rightarrow> 's \<Rightarrow> 's" where
  "aggregate_pings get store alpha expiration [] emas = emas"
| "aggregate_pings get store alpha expiration ((p, rtt) # rtts) emas =
     aggregate_pings get store alpha expiration rtts (store p (smooth_rtt alpha (get emas p) rtt) expiration emas)"

text \<open>A smoothed round trip lies between the last one and the new one; a peer that did not answer is
  unreachable at once, and after that the first answer counts alone.\<close>

lemma smooth_between:
  assumes "0 \<le> alpha" and "alpha \<le> 1"
  shows "\<exists>s. smooth_rtt alpha (Some (Finite p)) (Finite r) = Finite s \<and> min p r \<le> s \<and> s \<le> max p r"
proof -
  have "alpha * (r - min p r) + (1 - alpha) * (p - min p r) \<ge> 0" using assms by simp
  moreover have "alpha * (max p r - r) + (1 - alpha) * (max p r - p) \<ge> 0" using assms by simp
  ultimately show ?thesis
    by (intro exI [of _ "alpha * r + (1 - alpha) * p"]) (simp add: smooth_rtt_def algebra_simps)
qed

lemma outage_forgotten:
  "smooth_rtt alpha (Some r) Infinite = Infinite" "smooth_rtt alpha (Some Infinite) (Finite r') = Finite r'"
  by (cases r) (simp_all add: smooth_rtt_def)

section \<open>Logits in chunks\<close>

text \<open>The weights are a list of rows, one for each entry of the vocabulary; \<open>dot\<close> is the product of a row with
  the hidden states.\<close>

definition linear :: "('h \<Rightarrow> 'r \<Rightarrow> 'a) \<Rightarrow> 'r list \<Rightarrow> 'h \<Rightarrow> 'a list" where
  "linear dot weight hidden = map (dot hidden) weight"

text \<open>\<open>output[i : i + step] = \<dots>\<close>\<close>

definition assign_slice :: "nat \<Rightarrow> 'a list \<Rightarrow> 'a list \<Rightarrow> 'a list" where
  "assign_slice i xs out = take i out @ xs @ drop (i + length xs) out"

fun chunks_from :: "('h \<Rightarrow> 'r \<Rightarrow> 'a) \<Rightarrow> 'r list \<Rightarrow> 'h \<Rightarrow> nat \<Rightarrow> nat list \<Rightarrow> 'a list \<Rightarrow> 'a list" where
  "chunks_from dot weight hidden step [] out = out"
| "chunks_from dot weight hidden step (i # is) out =
     chunks_from dot weight hidden step is (assign_slice i (linear dot (take step (drop i weight)) hidden) out)"

definition range_step :: "nat \<Rightarrow> nat \<Rightarrow> nat list" where
  "range_step n step = map (\<lambda>k. k * step) [0..<(n + step - 1) div step]"

text \<open>\<open>out\<close> is the uninitialized tensor of the size of the vocabulary.\<close>

definition chunked_forward :: "('h \<Rightarrow> 'r \<Rightarrow> 'a) \<Rightarrow> 'r list \<Rightarrow> nat \<Rightarrow> 'a list \<Rightarrow> 'h \<Rightarrow> 'a list result" where
  "chunked_forward dot weight step out hidden =
     (if step = 0 then Inl AssertionError
      else Inr (chunks_from dot weight hidden step (range_step (length weight) step) out))"

lemma assign_prefix:
  assumes "length out = length weight" and "i \<le> length weight" and "take i out = map (dot hidden) (take i weight)"
  shows "take (i + step) (assign_slice i (linear dot (take step (drop i weight)) hidden) out)
      = map (dot hidden) (take (i + step) weight)"
    and "length (assign_slice i (linear dot (take step (drop i weight)) hidden) out) = length weight"
  using assms by (auto simp: assign_slice_def linear_def take_add take_map drop_map min_def)

lemma chunks_from_prefix:
  assumes "length out = length weight"
  shows "(m - 1) * step \<le> length weight \<Longrightarrow> take (m * step) (chunks_from dot weight hidden step (map (\<lambda>k. k * step) [0..<m]) out)
      = map (dot hidden) (take (m * step) weight)
    \<and> length (chunks_from dot weight hidden step (map (\<lambda>k. k * step) [0..<m]) out) = length weight"
proof (induction m)
  case (Suc m)
  have append: "chunks_from dot weight hidden step (is @ [i]) out =
      assign_slice i (linear dot (take step (drop i weight)) hidden) (chunks_from dot weight hidden step is out)" for "is" i out
    by (induction "is" arbitrary: out) simp_all
  have "(m - 1) * step \<le> length weight" using Suc.prems by (cases m) auto
  note ih = Suc.IH [OF this]
  let ?out = "chunks_from dot weight hidden step (map (\<lambda>k. k * step) [0..<m]) out"
  have "m * step \<le> length weight" using Suc.prems by simp
  from assign_prefix [of ?out weight "m * step" dot hidden step] ih this show ?case
    by (simp add: append add.commute)
qed (simp add: assms)

text \<open>Whatever the size of the chunks, the logits are those computed at once.\<close>

lemma chunked_forward_linear:
  assumes "0 < step" and "length out = length weight"
  shows "chunked_forward dot weight step out hidden = Inr (linear dot weight hidden)"
proof -
  let ?m = "(length weight + step - 1) div step"
  have cover: "length weight \<le> ?m * step"
    using dividend_less_div_times [OF assms(1), of "length weight + step - 1"] assms(1) by linarith
  have start: "(?m - 1) * step \<le> length weight"
  proof -
    have "?m * step \<le> length weight + step - 1" by (rule div_times_less_eq_dividend)
    moreover have "(?m - 1) * step = ?m * step - step" by (simp add: diff_mult_distrib)
    ultimately show ?thesis using assms(1) by linarith
  qed
  define res where "res = chunks_from dot weight hidden step (map (\<lambda>k. k * step) [0..<?m]) out"
  have "take (?m * step) res = map (dot hidden) (take (?m * step) weight)" "length res = length weight"
    using chunks_from_prefix [OF assms(2) start, of dot hidden] by (auto simp: res_def)
  then have "res = map (dot hidden) weight" using cover by (metis take_all)
  then show ?thesis using assms(1) by (simp add: chunked_forward_def range_step_def linear_def res_def)
qed

end
