(* ===== verification/Spec2Isabelle.thy ===== *)
theory Spec2Isabelle
  imports Discovery System MotherTheorems PetalsServingExamples PetalsMemoryProps PetalsBlocksExamples PetalsTrainingExamples PetalsAnnouncer PetalsTaskPool PetalsHandlers PetalsAutograd PetalsDisk PetalsServerSetup PetalsClientUtils
begin

text \<open>
  Blitzwing serves a language model from many machines. A mother (orchestrator/app) keeps the registry
  of the hosts and the range of layers each has, answers chat requests and pays the hosts; every host
  runs a shard manager (shard\_manager) that supervises one Petals server on its range and runs a chain
  over HTTP; a discovery service (discovery\_service) maps models to mothers; petals/src/petals is the
  fork of Petals that both sides use: servers with blocks, and clients that route through them. Paths
  below are under src/; every definition has the name of the function or class it translates, and the
  manifest gives its lines.

  \<^bold>\<open>Conventions.\<close> Prelude has Python's dictionaries as association lists (\<open>pydict\<close>, in insertion order,
  \<open>dget\<close>, \<open>dset\<close>, \<open>ddel\<close>), results as \<open>py_error + 'a\<close> (\<open>Inl\<close> is a raised exception) with \<open>rbind\<close>,
  \<open>rmap\<close> and \<open>rfold\<close>; PyString has the string methods that the code uses. State is passed: an operation
  takes the state and returns its result with the new state. What the code cannot decide (a network
  call, the ledger, the operating system, PyTorch, a random choice, a clock) is an argument, or a world
  \<open>'w\<close> with a function on it. Python's integers are \<open>int\<close>; floating-point numbers are elements of an
  ordered field, so rounding is not modelled, except in the simulated moves of PetalsBlocks, which are stated
  over any type with the operations, whatever their laws. Base64 works on words of 8 bits. PyJson has JSON
  values and their text (\<open>json_dumps\<close>, \<open>json_loads\<close>, and that the second undoes the first).

  \<^bold>\<open>The mother's registry.\<close> Ranges: ranges as strings. Registry: registry.py (\<open>swarm_registry\<close>; joins,
  hand-offs, departures, the reapers, and the file with its conversion from and to JSON). RegistryFile: what
  is written reads back, and a file that does not is replaced. SwarmMap: swarm\_map.py (manifest, completeness, the
  reports that flow back). Lemmas: RegistryInv (the type invariant \<open>reg_wf\<close> of every operation),
  RegistryCover and RegistryLeave (the invariant \<open>reg_cover\<close>: the online ranges cover the layers
  exactly), RegistryMachine (the sections under the lock as a step relation, with requests
  interleaved, and whole requests as a second relation), SwarmCover (what coverage means for the manifest and for
  payouts), RegistryProps (the properties and the runs that break coverage).

  \<^bold>\<open>Hosts.\<close> ShardManager: shard\_manager/app.py (one server process, its caches, every route; what the pre-warm
  thread and the process do before a delayed answer is the record \<open>meanwhile\<close>).
  LocalRunner, HttpChain, TensorCodec: the files of the same names. PeerVerify: the reachability checks
  and heartbeat.py. Lemmas in ShardProps and ChainProps.

  \<^bold>\<open>Mother and hosts together.\<close> Agreement states the locale \<open>reload_contract\<close>: what the registry relies on
  when it posts to \<open>/reload\<close>. ChainProps states \<open>chain_provider\<close>: what a chain relies on of the hosts it
  calls. Cluster interprets both on shard managers that run the modelled routes; System concludes
  that registry and processes stay in agreement, for the requests and background turns that are
  the rules of \<open>sys_step\<close>, and that a pass along the manifest is the whole model.

  \<^bold>\<open>The mother's application.\<close> Config, EnsClient, Engine, Payouts: the files config.py, ens\_client.py,
  engine.py with http\_inference.py, and hedera\_payouts.py with hedera\_escrow.py. MotherApi: main.py, every
  route and background task over the record \<open>mother\<close>. EnsProps states the locale \<open>ens_invariant\<close> (an
  invariant of the registry that survives the write of a name), interpreted for \<open>reg_wf\<close> and
  \<open>reg_cover\<close>. PayoutProps, MotherProps and MotherTheorems have the properties of payments and requests.
  Discovery: discovery\_service/app.py with its properties.

  \<^bold>\<open>Petals, the client's view.\<close> PetalsSpans: announcements, spans, the index from blocks to servers
  (data\_structures.py, utils/dht.py, client/routing/sequence\_info.py). PetalsRouting:
  client/routing/sequence\_manager.py, both ways to make a route. PetalsProps: routes run every block once,
  in order, on a server taken to hold it, and exist when every block has a server.

  \<^bold>\<open>Petals, inference.\<close> PetalsBackend: server/backend.py, block\_functions.py and handler.py for sessions
  (chunks, caches, prompts, pushes). PetalsBackendProps: a step in chunks is the step as a whole; a step
  continues the cache of the steps before it. PetalsSession: client/inference\_session.py.
  PetalsContract states the locale \<open>block_sessions\<close>, what a session relies on of routes and servers;
  PetalsLoop and PetalsStep prove in it that a session computes the model, and, in the extension
  \<open>block_sessions_up\<close>, that it returns. PetalsServing interprets both on servers that run PetalsBackend
  with routes from PetalsRouting, where calls may get lost; that a session returns needs, besides a server for
  every block, a right index and rates other than zero (\<open>session_returns\<close> lists its conditions). PetalsSessionProps: after the first tokens no server
  can be replaced (a flaw of the code).

  \<^bold>\<open>Petals, training.\<close> PetalsTraining: forward and backward requests of block\_functions.py and
  client/sequential\_autograd.py. PetalsTrainingContract states \<open>remote_blocks\<close> and \<open>remote_blocks_up\<close> and
  proves that the passes give outputs and gradients of the composed blocks, and that they end;
  PetalsTrainingServing interprets them on servers that run the modelled requests. PetalsAutograd: a batch cut
  into parallel passes gives what the whole batch gives.

  \<^bold>\<open>Petals, the server.\<close> PetalsMemory: server/memory\_cache.py in the pieces that other processes may come
  between; PetalsMemoryProps: the accounts agree in every interleaving, and by how much the cache can be
  overfilled. PetalsBlocks: server/block\_selection.py; PetalsBlocksProps: which blocks are
  chosen, that the simulated moves stop only in an equilibrium, and that leaving keeps blocks served in a
  swarm that serves them all.
  PetalsAnnouncer: the announcing thread of server/server.py as a step relation, the container of modules
  and the rounds of a server, with what the swarm is told of them, on every way a round can end or fail. PetalsTaskPool: server/task\_pool.py and
  server/task\_prioritizer.py as a machine on the tables of a pool: no task is lost or answered twice.
  PetalsStartup: how many blocks fit, throughputs and reachability (block\_utils.py, throughput.py,
  reachability.py, \<open>_choose_num_blocks\<close>); PetalsServerSetup: \<open>Server.__init__\<close>, and that the range of the mother
  arrives in the swarm; PetalsDisk: utils/disk\_cache.py.
  PetalsHandlers: the sessions of the handlers in server/handler.py, their events and pushes between them.
  PetalsClientUtils: utils/packaging.py, utils/ping.py and the chunks of client/lm\_head.py.
  The theories whose names end in Examples apply the theorems to concrete swarms.

  \<^bold>\<open>Loops.\<close> Loops over lists are recursion. Loops that need not end are \<open>partial_function (option)\<close>: the
  retries of a session (\<open>session_loop\<close>), of the passes (\<open>forward_loop\<close>, \<open>backward_loop\<close>) and the
  simulated moves (\<open>rebalance_loop\<close>); \<open>None\<close> is not returning. That they return is proved where it
  holds (\<open>session_returns\<close>, \<open>training_returns\<close>); the simulated moves have no bound in the code.
  \<open>max_throughput_loop\<close> ends because every span goes forward. Only the JSON scanner has fuel, twice the
  length of the text and one more; \<open>scan_fuel\<close> shows that more changes nothing.

  \<^bold>\<open>Idealisations.\<close> These steps of the model are coarser than the code. A task pool takes a task and dispatches it in
  one step (\<open>pool_get\<close>); an event between handlers is in its queue as soon as it is put (\<open>put_request\<close>), without
  the delay of the feeder thread; a waiting allocation that times out holds no lock (\<open>mem_expire\<close>); the
  transfers a payout theorem counts are those of the SDK, without what the escrow contract releases
  (\<open>records_transfers\<close>); a field of the registry file with another JSON type than annotated is \<open>OutsideModel\<close>.

  \<^bold>\<open>Not modelled.\<close> The tensor code of PyTorch and transformers (blocks are parameters), the shortest-path
  search of dijkstar, Kademlia and libp2p of hivemind, FastAPI, SQLite, the Hedera SDK and
  the contracts: they are not code of this repository. packages/cli/runtime is a copy of shard\_manager
  with other paths. Left out of Petals: the measurement of rates, downloads,
  (de)serialization of tensors, streams of parts, the thread that updates routes.
  The tests, benchmarks, scripts and examples are not part of the program.
\<close>

end
